(* ===== verification/HMF_Prelude.thy ===== *)
theory HMF_Prelude
  imports
    Main
    "HOL-Library.AList"
    "HOL-Library.Multiset"
    "HOL-Library.List_Lexorder"
    "HOL-Library.Char_ord"
    "HOL-Library.Product_Lexorder"
begin

text \<open>
  Shared vocabulary of the development: Go errors and results, machine integers kept as
  \<^typ>\<open>int\<close> with an explicit wrap-around, slices with bounds-checked indexing, Go maps as
  association lists without repeated keys, and the two routines of package \<^verbatim>\<open>sort\<close> that the
  program relies on (\<^verbatim>\<open>sort.Slice\<close>, \<^verbatim>\<open>sort.Search\<close>).
\<close>

named_theorems go_intro \<open>introduction facts about results, slices and maps\<close>
named_theorems go_dest \<open>elimination facts about successful results\<close>

section \<open>Errors and results\<close>

text \<open>
  A Go function that returns \<^verbatim>\<open>(T, error)\<close> is a function into \<open>error + T\<close>.
  \<open>Errorf\<close> is \<^verbatim>\<open>fmt.Errorf\<close> or \<^verbatim>\<open>errors.New\<close> without a wrapped error, with the format string of the
  source as its message (the interpolated values are dropped); \<open>Wrap\<close> is \<^verbatim>\<open>fmt.Errorf\<close> with \<^verbatim>\<open>%w\<close>;
  \<open>Sentinel\<close> is a package-level error value that \<^verbatim>\<open>errors.Is\<close> looks for; \<open>Panic\<close> is a run-time
  panic; \<open>Diverge\<close> is the value of a call that never returns.
\<close>

datatype error =
    Errorf string
  | Wrap string error
  | Sentinel string
  | Panic string
  | Diverge

type_synonym 'a result = "error + 'a"

primrec errors_Is :: "error \<Rightarrow> error \<Rightarrow> bool" where
  "errors_Is (Errorf m) t \<longleftrightarrow> Errorf m = t"
| "errors_Is (Wrap m e) t \<longleftrightarrow> Wrap m e = t \<or> errors_Is e t"
| "errors_Is (Sentinel m) t \<longleftrightarrow> Sentinel m = t"
| "errors_Is (Panic m) t \<longleftrightarrow> Panic m = t"
| "errors_Is Diverge t \<longleftrightarrow> Diverge = t"

text \<open>Sequencing: the \<^verbatim>\<open>if err != nil { return err }\<close> idiom.\<close>

fun rbind :: "'a result \<Rightarrow> ('a \<Rightarrow> 'b result) \<Rightarrow> 'b result" where
  "rbind (Inl e) f = Inl e"
| "rbind (Inr x) f = f x"

text \<open>\<^verbatim>\<open>if err != nil { return fmt.Errorf("...: %w", err) }\<close>.\<close>

fun rwrap :: "string \<Rightarrow> 'a result \<Rightarrow> 'a result" where
  "rwrap m (Inl e) = Inl (Wrap m e)"
| "rwrap m (Inr x) = Inr x"

lemma rbind_eq_Inr_iff [simp]: "rbind r f = Inr y \<longleftrightarrow> (\<exists>x. r = Inr x \<and> f x = Inr y)"
  by (cases r) auto

lemma rbind_eq_Inl_iff: "rbind r f = Inl e \<longleftrightarrow> r = Inl e \<or> (\<exists>x. r = Inr x \<and> f x = Inl e)"
  by (cases r) auto

lemma rwrap_eq_Inr_iff [simp]: "rwrap m r = Inr y \<longleftrightarrow> r = Inr y"
  by (cases r) auto

lemma rbind_Inr [simp]: "rbind r Inr = r"
  by (cases r) auto

lemma rbind_cong [fundef_cong]:
  "r = s \<Longrightarrow> (\<And>x. s = Inr x \<Longrightarrow> f x = g x) \<Longrightarrow> rbind r f = rbind s g"
  by (cases s) auto

text \<open>A loop over a list that may stop with an error.\<close>

fun rfold :: "('s \<Rightarrow> 'a \<Rightarrow> 's result) \<Rightarrow> 's \<Rightarrow> 'a list \<Rightarrow> 's result" where
  "rfold f s [] = Inr s"
| "rfold f s (x # xs) = rbind (f s x) (\<lambda>s'. rfold f s' xs)"

lemma rfold_append: "rfold f s (xs @ ys) = rbind (rfold f s xs) (\<lambda>s'. rfold f s' ys)"
proof (induction xs arbitrary: s)
  case (Cons x xs)
  then show ?case by (cases "f s x") auto
qed simp

lemma rfold_snoc: "rfold f s (xs @ [x]) = rbind (rfold f s xs) (\<lambda>s'. f s' x)"
  by (simp add: rfold_append)

lemma rfold_invariant:
  assumes "rfold f s xs = Inr t" and "P s"
    and "\<And>s x s'. x \<in> set xs \<Longrightarrow> P s \<Longrightarrow> f s x = Inr s' \<Longrightarrow> P s'"
  shows "P t"
  using assms by (induction xs arbitrary: s) auto

section \<open>Machine integers\<close>

text \<open>
  Go's \<^verbatim>\<open>int\<close> and \<^verbatim>\<open>int64\<close> are 64-bit two's complement. A value is an \<^typ>\<open>int\<close>; \<open>wrap64\<close> is the
  wrap-around and is written where an operation can leave the range.
\<close>

definition wrap64 :: "int \<Rightarrow> int" where
  "wrap64 x = (x + 2 ^ 63) mod 2 ^ 64 - 2 ^ 63"

text \<open>The same for \<^verbatim>\<open>int32\<close>.\<close>

definition wrap32 :: "int \<Rightarrow> int" where
  "wrap32 x = (x + 2 ^ 31) mod 2 ^ 32 - 2 ^ 31"

definition int64 :: "int \<Rightarrow> bool" where
  "int64 x \<longleftrightarrow> - (2 ^ 63) \<le> x \<and> x < 2 ^ 63"

abbreviation MaxInt64 :: int where
  "MaxInt64 \<equiv> 2 ^ 63 - 1"

lemma wrap64_id [simp]: "int64 x \<Longrightarrow> wrap64 x = x"
  by (simp add: wrap64_def int64_def)

lemma int64_wrap64 [simp]: "int64 (wrap64 x)"
proof -
  have "0 \<le> (x + 2 ^ 63) mod 2 ^ 64" and "(x + 2 ^ 63) mod 2 ^ 64 < (2 ^ 64 :: int)"
    by simp_all
  then show ?thesis by (simp add: wrap64_def int64_def)
qed

lemma wrap64_eq_iff: "wrap64 x = wrap64 y \<longleftrightarrow> x mod 2 ^ 64 = y mod 2 ^ 64"
proof -
  have "(x + 2 ^ 63) mod 2 ^ 64 = (y + 2 ^ 63) mod 2 ^ 64 \<longleftrightarrow> x mod 2 ^ 64 = y mod (2 ^ 64 :: int)"
    by (simp only: mod_eq_dvd_iff add_diff_cancel_right)
  then show ?thesis by (simp add: wrap64_def)
qed

lemma wrap64_mod [simp]: "wrap64 x mod 2 ^ 64 = x mod 2 ^ 64"
  using wrap64_eq_iff [of "wrap64 x" x] by simp

section \<open>Slices\<close>

text \<open>Indexing a slice outside its length panics.\<close>

definition slice_at :: "'a list \<Rightarrow> int \<Rightarrow> 'a result" where
  "slice_at xs i =
     (if 0 \<le> i \<and> i < int (length xs) then Inr (xs ! nat i) else Inl (Panic ''index out of range''))"

definition slice_set :: "'a list \<Rightarrow> int \<Rightarrow> 'a \<Rightarrow> 'a list result" where
  "slice_set xs i v =
     (if 0 \<le> i \<and> i < int (length xs) then Inr (xs[nat i := v])
      else Inl (Panic ''index out of range''))"

lemma slice_at_int [simp]: "i < length xs \<Longrightarrow> slice_at xs (int i) = Inr (xs ! i)"
  by (simp add: slice_at_def)

lemma slice_set_int [simp]: "i < length xs \<Longrightarrow> slice_set xs (int i) v = Inr (xs[i := v])"
  by (simp add: slice_set_def)

lemma slice_at_InrD [go_dest]:
  "slice_at xs i = Inr v \<Longrightarrow> 0 \<le> i \<and> i < int (length xs) \<and> v = xs ! nat i"
  by (auto simp: slice_at_def split: if_splits)

lemma slice_set_InrD [go_dest]:
  "slice_set xs i v = Inr ys \<Longrightarrow> 0 \<le> i \<and> i < int (length xs) \<and> ys = xs[nat i := v]"
  by (auto simp: slice_set_def split: if_splits)

section \<open>Maps\<close>

text \<open>
  A Go map that is iterated, counted or built up is an association list without repeated keys:
  \<^const>\<open>AList.update\<close> is \<^verbatim>\<open>m[k] = v\<close>, \<^const>\<open>map_of\<close> is the lookup, the length is \<^verbatim>\<open>len(m)\<close>. Go
  iterates maps in an unspecified order; the list order is one of the orders it may take.
\<close>

type_synonym ('k, 'v) gomap = "('k \<times> 'v) list"

abbreviation gm_put :: "'k \<Rightarrow> 'v \<Rightarrow> ('k, 'v) gomap \<Rightarrow> ('k, 'v) gomap" where
  "gm_put k v m \<equiv> AList.update k v m"

abbreviation gm_keys :: "('k, 'v) gomap \<Rightarrow> 'k list" where
  "gm_keys m \<equiv> map fst m"

definition gm_wf :: "('k, 'v) gomap \<Rightarrow> bool" where
  "gm_wf m \<longleftrightarrow> distinct (gm_keys m)"

text \<open>A lookup of a missing key gives the zero value.\<close>

definition gm_get :: "'v \<Rightarrow> ('k \<rightharpoonup> 'v) \<Rightarrow> 'k \<Rightarrow> 'v" where
  "gm_get z m k = (case m k of None \<Rightarrow> z | Some v \<Rightarrow> v)"

lemma gm_wf_Nil [simp]: "gm_wf []"
  by (simp add: gm_wf_def)

lemma gm_wf_put [simp]: "gm_wf m \<Longrightarrow> gm_wf (gm_put k v m)"
  by (simp add: gm_wf_def distinct_update)

lemma map_of_put [simp]: "map_of (gm_put k v m) = (map_of m)(k \<mapsto> v)"
  by (simp add: update_conv')

lemma gm_keys_put [simp]: "set (gm_keys (gm_put k v m)) = insert k (set (gm_keys m))"
  by (induction m) auto

lemma gm_mem_iff: "gm_wf m \<Longrightarrow> (k, v) \<in> set m \<longleftrightarrow> map_of m k = Some v"
  by (simp add: gm_wf_def)

text \<open>A Go set: \<^verbatim>\<open>map[K]struct{}\<close>.\<close>

definition set_add :: "'a \<Rightarrow> 'a list \<Rightarrow> 'a list" where
  "set_add x xs = (if x \<in> set xs then xs else xs @ [x])"

lemma set_set_add [simp]: "set (set_add x xs) = insert x (set xs)"
  by (auto simp: set_add_def)

lemma distinct_set_add [simp]: "distinct (set_add x xs) \<longleftrightarrow> distinct xs"
  by (auto simp: set_add_def)

definition set_of :: "'a list \<Rightarrow> 'a list" where
  "set_of xs = foldl (\<lambda>s x. set_add x s) [] xs"

lemma foldl_set_add:
  "set (foldl (\<lambda>s x. set_add x s) s xs) = set s \<union> set xs"
  "distinct s \<Longrightarrow> distinct (foldl (\<lambda>s x. set_add x s) s xs)"
  by (induction xs arbitrary: s) auto

lemma set_set_of [simp]: "set (set_of xs) = set xs"
  by (simp add: set_of_def foldl_set_add)

lemma distinct_set_of [simp]: "distinct (set_of xs)"
  by (simp add: set_of_def foldl_set_add)

section \<open>sort.Slice\<close>

text \<open>
  \<^verbatim>\<open>sort.Slice\<close> with a comparison \<open>lt\<close>. The library promises a sorted permutation; where \<open>lt\<close> is a
  strict total order and the elements are distinct, that result is unique, so insertion sort
  computes what the library computes.
\<close>

fun ins_by :: "('a \<Rightarrow> 'a \<Rightarrow> bool) \<Rightarrow> 'a \<Rightarrow> 'a list \<Rightarrow> 'a list" where
  "ins_by lt x [] = [x]"
| "ins_by lt x (y # ys) = (if lt y x then y # ins_by lt x ys else x # y # ys)"

definition sort_Slice :: "('a \<Rightarrow> 'a \<Rightarrow> bool) \<Rightarrow> 'a list \<Rightarrow> 'a list" where
  "sort_Slice lt xs = foldr (ins_by lt) xs []"

lemma mset_ins_by [simp]: "mset (ins_by lt x ys) = add_mset x (mset ys)"
  by (induction ys) auto

lemma mset_sort_Slice [simp]: "mset (sort_Slice lt xs) = mset xs"
  by (induction xs) (auto simp: sort_Slice_def)

lemma set_sort_Slice [simp]: "set (sort_Slice lt xs) = set xs"
  by (metis mset_sort_Slice set_mset_mset)

lemma length_sort_Slice [simp]: "length (sort_Slice lt xs) = length xs"
  by (metis mset_sort_Slice size_mset)

lemma distinct_sort_Slice [simp]: "distinct (sort_Slice lt xs) = distinct xs"
  by (metis mset_sort_Slice distinct_count_atmost_1 set_mset_mset)

lemma set_ins_by [simp]: "set (ins_by lt x ys) = insert x (set ys)"
  by (induction ys) auto

text \<open>The laws a comparison passed to \<^verbatim>\<open>sort.Slice\<close> has to satisfy.\<close>

locale strict_total =
  fixes lt :: "'a \<Rightarrow> 'a \<Rightarrow> bool"
  assumes less_irrefl: "\<not> lt x x"
    and less_trans: "lt x y \<Longrightarrow> lt y z \<Longrightarrow> lt x z"
    and less_total: "x \<noteq> y \<Longrightarrow> lt x y \<or> lt y x"
begin

lemma less_asym: "lt x y \<Longrightarrow> \<not> lt y x"
  using less_irrefl less_trans by blast

lemma sorted_ins_by:
  "x \<notin> set ys \<Longrightarrow> sorted_wrt lt ys \<Longrightarrow> sorted_wrt lt (ins_by lt x ys)"
proof (induction ys)
  case (Cons y ys)
  then show ?case
    using less_total [of x y] by (auto intro: less_trans)
qed simp

lemma sorted_sort_Slice: "distinct xs \<Longrightarrow> sorted_wrt lt (sort_Slice lt xs)"
proof (induction xs)
  case Nil
  then show ?case by (simp add: sort_Slice_def)
next
  case (Cons x xs)
  then have "sorted_wrt lt (ins_by lt x (sort_Slice lt xs))"
    by (intro sorted_ins_by) auto
  then show ?case by (simp add: sort_Slice_def)
qed

lemma sorted_unique:
  assumes "sorted_wrt lt xs" and "sorted_wrt lt ys" and "set xs = set ys"
  shows "xs = ys"
  using assms
proof (induction xs arbitrary: ys)
  case Nil
  then show ?case by simp
next
  case (Cons x xs)
  then obtain y ys' where ys: "ys = y # ys'"
    by (cases ys) auto
  have "x = y"
  proof (rule ccontr)
    assume "x \<noteq> y"
    then have "lt y x" and "lt x y"
      using Cons.prems ys by auto
    then show False using less_asym by blast
  qed
  moreover have "x \<notin> set xs" and "y \<notin> set ys'"
    using Cons.prems ys less_irrefl by auto
  ultimately have "set xs = set ys'"
    using Cons.prems(3) ys by auto
  with Cons ys \<open>x = y\<close> show ?case by auto
qed

lemma sort_Slice_unique:
  "distinct xs \<Longrightarrow> sorted_wrt lt ys \<Longrightarrow> set ys = set xs \<Longrightarrow> sort_Slice lt xs = ys"
  by (rule sorted_unique) (auto intro: sorted_sort_Slice)

lemma sorted_distinct: "sorted_wrt lt xs \<Longrightarrow> distinct xs"
  by (induction xs) (auto simp: less_irrefl)

lemma sort_Slice_id: "sorted_wrt lt xs \<Longrightarrow> sort_Slice lt xs = xs"
  by (rule sort_Slice_unique) (auto dest: sorted_distinct)

lemma sort_Slice_cong:
  "distinct xs \<Longrightarrow> distinct ys \<Longrightarrow> set xs = set ys \<Longrightarrow> sort_Slice lt xs = sort_Slice lt ys"
  by (rule sort_Slice_unique) (auto intro: sorted_sort_Slice)

end

interpretation int_less: strict_total "(<) :: int \<Rightarrow> int \<Rightarrow> bool"
  by unfold_locales auto

section \<open>sort.Search\<close>

text \<open>
  The binary search of package \<^verbatim>\<open>sort\<close>, with the library's loop. Where \<open>f\<close> switches once from
  false to true, the result is the switching point.
\<close>

function search_loop :: "(nat \<Rightarrow> bool) \<Rightarrow> nat \<Rightarrow> nat \<Rightarrow> nat" where
  "search_loop f i j =
     (if i < j then
        (let h = (i + j) div 2
         in if \<not> f h then search_loop f (h + 1) j else search_loop f i h)
      else i)"
  by pat_completeness auto
termination
  by (relation "measure (\<lambda>(f, i, j). j - i)") auto

declare search_loop.simps [simp del]

definition sort_Search :: "nat \<Rightarrow> (nat \<Rightarrow> bool) \<Rightarrow> nat" where
  "sort_Search n f = search_loop f 0 n"

definition switches :: "(nat \<Rightarrow> bool) \<Rightarrow> nat \<Rightarrow> bool" where
  "switches f n \<longleftrightarrow> (\<forall>a b. a \<le> b \<longrightarrow> b < n \<longrightarrow> f a \<longrightarrow> f b)"

lemma search_loop_spec:
  assumes "i \<le> j" and "j \<le> n" and "switches f n"
    and "\<forall>k < i. \<not> f k" and "\<forall>k. j \<le> k \<longrightarrow> k < n \<longrightarrow> f k"
  shows "search_loop f i j \<le> n \<and> (\<forall>k < search_loop f i j. \<not> f k) \<and>
    (\<forall>k. search_loop f i j \<le> k \<longrightarrow> k < n \<longrightarrow> f k)"
  using assms
proof (induction f i j rule: search_loop.induct)
  case (1 f i j)
  let ?h = "(i + j) div 2"
  show ?case
  proof (cases "i < j")
    case True
    then have h: "i \<le> ?h" "?h < j" by auto
    show ?thesis
    proof (cases "f ?h")
      case fh: True
      then have "\<forall>k. ?h \<le> k \<longrightarrow> k < n \<longrightarrow> f k"
        using "1.prems"(3) by (auto simp: switches_def)
      with "1.IH"(2) [OF True refl] fh h "1.prems" True show ?thesis
        by (simp add: search_loop.simps [of f i j] Let_def)
    next
      case nfh: False
      have "\<not> f k" if "k < ?h + 1" for k
      proof
        assume "f k"
        moreover have "k \<le> ?h" and "?h < n" using that h "1.prems"(2) by simp_all
        ultimately have "f ?h" using "1.prems"(3) unfolding switches_def by blast
        with nfh show False by simp
      qed
      then have "\<forall>k < ?h + 1. \<not> f k" by blast
      with "1.IH"(1) [OF True refl] nfh h "1.prems" True show ?thesis
        by (simp add: search_loop.simps [of f i j] Let_def)
    qed
  next
    case False
    then have "search_loop f i j = i" by (simp add: search_loop.simps [of f i j])
    with False "1.prems" show ?thesis by simp
  qed
qed

lemma sort_Search_spec:
  assumes "switches f n"
  shows "sort_Search n f \<le> n" and "k < sort_Search n f \<Longrightarrow> \<not> f k"
    and "sort_Search n f \<le> k \<Longrightarrow> k < n \<Longrightarrow> f k"
  using search_loop_spec [of 0 n n f] assms by (auto simp: sort_Search_def)

section \<open>Calls that change a state\<close>

text \<open>
  A call on a mutable value that may fail returns the value it leaves and its result: an error
  does not undo what the call has written before it. \<open>sbind\<close> is the error check after such a call.
\<close>

type_synonym ('s, 'a) outcome = "'s \<times> 'a result"

definition sbind :: "('s, 'a) outcome \<Rightarrow> ('s \<Rightarrow> 'a \<Rightarrow> ('s, 'b) outcome) \<Rightarrow> ('s, 'b) outcome" where
  "sbind p f = (case p of (s, Inl e) \<Rightarrow> (s, Inl e) | (s, Inr x) \<Rightarrow> f s x)"

definition swrap :: "string \<Rightarrow> ('s, 'a) outcome \<Rightarrow> ('s, 'a) outcome" where
  "swrap m p = (fst p, rwrap m (snd p))"

lemma sbind_simps [simp]: "sbind (s, Inl e) f = (s, Inl e)" "sbind (s, Inr x) f = f s x"
  by (simp_all add: sbind_def)

lemma sbind_cases:
  assumes "sbind p f = (t, r)"
  obtains (error) e where "p = (t, Inl e)" and "r = Inl e"
    | (ok) s x where "p = (s, Inr x)" and "f s x = (t, r)"
  using assms by (auto simp: sbind_def split: prod.splits sum.splits)

lemma sbind_eq_Inr: "sbind p f = (t, Inr y) \<longleftrightarrow> (\<exists>s x. p = (s, Inr x) \<and> f s x = (t, Inr y))"
  by (auto simp: sbind_def split: prod.splits sum.splits)

lemma swrap_eq_Inr: "swrap m p = (t, Inr y) \<longleftrightarrow> p = (t, Inr y)"
  by (cases p) (auto simp: swrap_def)

lemma swrap_Inr: "swrap m (t, Inr y) = (t, Inr y)"
  by (simp add: swrap_def)

end
