(* ===== verification/HMF_Bytes.thy ===== *)
theory HMF_Bytes
  imports HMF_Prelude "HOL-Library.Word"
begin

text \<open>
  Bytes, fixed-size arrays and the big-endian encodings of \<^verbatim>\<open>encoding/binary\<close>. A \<^verbatim>\<open>[32]byte\<close> hash
  is a \<^typ>\<open>256 word\<close> and a \<^verbatim>\<open>[16]byte\<close> UUID a \<^typ>\<open>128 word\<close> (the big-endian value of its bytes), so
  that the size is in the type and the zero value is \<open>0\<close>. The write side is shared by
  \<^verbatim>\<open>domain/log.go\<close>, \<^verbatim>\<open>hmf/commitment.go\<close>, \<^verbatim>\<open>all/locator_key.go\<close> and \<^verbatim>\<open>all/page_codec.go\<close>; the read side
  is the reader half of \<^verbatim>\<open>all/page_codec.go\<close>. The locale \<open>codec\<close> states what a writer and
  its reader promise each other; unique decodability of every composed encoding follows from it.
\<close>

type_synonym byte = "8 word"
type_synonym hash = "256 word"
type_synonym uuid = "128 word"

section \<open>Big-endian numbers\<close>

fun be_bytes :: "nat \<Rightarrow> nat \<Rightarrow> byte list" where
  "be_bytes 0 x = []"
| "be_bytes (Suc n) x = be_bytes n (x div 256) @ [word_of_nat x]"

definition be_nat :: "byte list \<Rightarrow> nat" where
  "be_nat bs = foldl (\<lambda>a b. a * 256 + unat b) 0 bs"

lemma length_be_bytes [simp]: "length (be_bytes n x) = n"
  by (induction n arbitrary: x) auto

lemma be_nat_snoc [simp]: "be_nat (bs @ [b]) = be_nat bs * 256 + unat b"
  by (simp add: be_nat_def)

lemma be_nat_Nil [simp]: "be_nat [] = 0"
  by (simp add: be_nat_def)

lemma unat_word_of_nat_byte: "unat (word_of_nat x :: byte) = x mod 256"
  by (simp add: unsigned_of_nat take_bit_eq_mod)

lemma unat_byte_less [simp]: "unat (b :: byte) < 256"
  using unsigned_less [of b] by simp

lemma be_nat_be_bytes [simp]: "be_nat (be_bytes n x) = x mod 256 ^ n"
proof (induction n arbitrary: x)
  case (Suc n)
  then show ?case
    by (simp add: unat_word_of_nat_byte mod_mult2_eq mult.commute)
qed simp

lemma be_bytes_be_nat: "be_bytes (length bs) (be_nat bs) = bs"
proof (induction bs rule: rev_induct)
  case (snoc b bs)
  have "(be_nat bs * 256 + unat b) div 256 = be_nat bs"
    by (simp add: div_add1_eq)
  moreover have "(word_of_nat (be_nat bs * 256 + unat b) :: byte) = b"
    unfolding word_unat_eq_iff unat_word_of_nat_byte by simp
  ultimately show ?case using snoc by simp
qed simp

lemma be_nat_less: "be_nat bs < 256 ^ length bs"
  by (metis be_bytes_be_nat be_nat_be_bytes mod_less_divisor zero_less_numeral zero_less_power)

lemma be_bytes_inject:
  "be_bytes n x = be_bytes n y \<longleftrightarrow> x mod 256 ^ n = y mod 256 ^ n"
proof
  assume "be_bytes n x = be_bytes n y"
  then have "be_nat (be_bytes n x) = be_nat (be_bytes n y)" by simp
  then show "x mod 256 ^ n = y mod 256 ^ n" by simp
next
  assume "x mod 256 ^ n = y mod 256 ^ n"
  then have "be_nat (be_bytes n x) = be_nat (be_bytes n y)" by simp
  then show "be_bytes n x = be_bytes n y"
    by (metis be_bytes_be_nat length_be_bytes)
qed

section \<open>Fixed-size values and strings\<close>

definition hash_bytes :: "hash \<Rightarrow> byte list" where
  "hash_bytes h = be_bytes 32 (unat h)"

definition uuid_bytes :: "uuid \<Rightarrow> byte list" where
  "uuid_bytes u = be_bytes 16 (unat u)"

text \<open>\<^verbatim>\<open>copy(result[:], value)\<close> from a slice of the right length.\<close>

definition hash_of_bytes :: "byte list \<Rightarrow> hash" where
  "hash_of_bytes bs = word_of_nat (be_nat bs)"

definition uuid_of_bytes :: "byte list \<Rightarrow> uuid" where
  "uuid_of_bytes bs = word_of_nat (be_nat bs)"

definition string_bytes :: "string \<Rightarrow> byte list" where
  "string_bytes s = map of_char s"

definition bytes_string :: "byte list \<Rightarrow> string" where
  "bytes_string bs = map (\<lambda>b. char_of (unat b)) bs"

lemma length_hash_bytes [simp]: "length (hash_bytes h) = 32"
  by (simp add: hash_bytes_def)

lemma length_uuid_bytes [simp]: "length (uuid_bytes u) = 16"
  by (simp add: uuid_bytes_def)

lemma length_string_bytes [simp]: "length (string_bytes s) = length s"
  by (simp add: string_bytes_def)

lemma hash_of_hash_bytes [simp]: "hash_of_bytes (hash_bytes h) = h"
proof -
  have "unat h mod 256 ^ 32 = unat h"
    using unsigned_less [of h, where ?'a = nat] by simp
  then show ?thesis by (simp add: hash_of_bytes_def hash_bytes_def)
qed

lemma uuid_of_uuid_bytes [simp]: "uuid_of_bytes (uuid_bytes u) = u"
proof -
  have "unat u mod 256 ^ 16 = unat u"
    using unsigned_less [of u, where ?'a = nat] by simp
  then show ?thesis by (simp add: uuid_of_bytes_def uuid_bytes_def)
qed

lemma hash_bytes_of_bytes: "length bs = 32 \<Longrightarrow> hash_bytes (hash_of_bytes bs) = bs"
  using be_nat_less [of bs] be_bytes_be_nat [of bs]
  by (simp add: hash_bytes_def hash_of_bytes_def unsigned_of_nat take_bit_eq_mod)

lemma hash_bytes_inject [simp]: "hash_bytes a = hash_bytes b \<longleftrightarrow> a = b"
  by (metis hash_of_hash_bytes)

lemma uuid_bytes_inject [simp]: "uuid_bytes a = uuid_bytes b \<longleftrightarrow> a = b"
  by (metis uuid_of_uuid_bytes)

lemma unat_of_char_byte: "unat (of_char c :: byte) = (of_char c :: nat)"
  by (metis of_nat_of_char unat_word_of_nat_byte mod_less nat_of_char_less_256)

lemma char_of_of_char_byte [simp]: "char_of (unat (of_char c :: byte)) = c"
  by (simp add: unat_of_char_byte)

lemma of_char_char_of_byte [simp]: "of_char (char_of (unat b)) = (b :: byte)"
  by (simp add: word_unat_eq_iff unat_of_char_byte)

lemma string_bytes_string [simp]: "string_bytes (bytes_string bs) = bs"
  by (simp add: string_bytes_def bytes_string_def comp_def map_idI)

lemma bytes_string_bytes [simp]: "bytes_string (string_bytes s) = s"
  by (simp add: bytes_string_def string_bytes_def comp_def map_idI)

lemma string_bytes_inject [simp]: "string_bytes a = string_bytes b \<longleftrightarrow> a = b"
  by (metis bytes_string_bytes)

section \<open>Writers\<close>

text \<open>\<^verbatim>\<open>binary.Write\<close> of a \<^verbatim>\<open>uint32\<close>: four bytes, big-endian.\<close>

definition writeUint32 :: "nat \<Rightarrow> byte list" where
  "writeUint32 v = be_bytes 4 v"

text \<open>An \<^verbatim>\<open>int64\<close> is written as its two's complement in eight bytes.\<close>

definition writeInt64 :: "int \<Rightarrow> byte list" where
  "writeInt64 v = be_bytes 8 (nat (v mod 2 ^ 64))"

text \<open>A length prefix \<^verbatim>\<open>uint32(len(value))\<close> (which wraps at \<open>2 ^ 32\<close>) and the bytes.\<close>

definition writeBytes :: "byte list \<Rightarrow> byte list" where
  "writeBytes v = writeUint32 (length v mod 2 ^ 32) @ v"

definition writeString :: "string \<Rightarrow> byte list" where
  "writeString s = writeUint32 (length s mod 2 ^ 32) @ string_bytes s"

lemma writeString_writeBytes: "writeString s = writeBytes (string_bytes s)"
  by (simp add: writeString_def writeBytes_def)

section \<open>Readers\<close>

text \<open>
  A \<^verbatim>\<open>*bytes.Reader\<close> is the list of bytes not yet read; \<^verbatim>\<open>reader.Len()\<close> is its length. A reader
  function returns the value and the reader it leaves.
\<close>

type_synonym 'a reader = "byte list \<Rightarrow> ('a \<times> byte list) result"

definition EOF :: error where
  "EOF = Sentinel ''EOF''"

definition ErrUnexpectedEOF :: error where
  "ErrUnexpectedEOF = Sentinel ''unexpected EOF''"

text \<open>\<^verbatim>\<open>io.ReadFull\<close> of \<open>n\<close> bytes.\<close>

definition readFull :: "nat \<Rightarrow> byte list reader" where
  "readFull n r =
     (if n \<le> length r then Inr (take n r, drop n r)
      else if r = [] then Inl EOF else Inl ErrUnexpectedEOF)"

definition readByte :: "byte reader" where
  "readByte r = (case r of [] \<Rightarrow> Inl EOF | b # r' \<Rightarrow> Inr (b, r'))"

definition readUint32 :: "nat reader" where
  "readUint32 r = rbind (readFull 4 r) (\<lambda>(bs, r'). Inr (be_nat bs, r'))"

definition readInt64 :: "int reader" where
  "readInt64 r = rbind (readFull 8 r) (\<lambda>(bs, r'). Inr (wrap64 (int (be_nat bs)), r'))"

definition readHash :: "hash reader" where
  "readHash r = rbind (readFull 32 r) (\<lambda>(bs, r'). Inr (hash_of_bytes bs, r'))"

definition readUUID :: "uuid reader" where
  "readUUID r = rbind (readFull 16 r) (\<lambda>(bs, r'). Inr (uuid_of_bytes bs, r'))"

definition readBytes :: "byte list reader" where
  "readBytes r = rbind (readUint32 r) (\<lambda>(length', r').
     if length r' < length' then Inl ErrUnexpectedEOF else readFull length' r')"

definition readString :: "string reader" where
  "readString r = rbind (readBytes r) (\<lambda>(v, r'). Inr (bytes_string v, r'))"

section \<open>The contract of a writer and its reader\<close>

text \<open>
  \<open>valid\<close> are the values the writer represents faithfully (an \<^verbatim>\<open>int64\<close> in range, a string whose
  length fits its 32-bit prefix). The one law: reading back what was written, whatever follows
  it, returns the value and leaves what follows.
\<close>

locale codec =
  fixes enc :: "'a \<Rightarrow> byte list"
    and dec :: "'a reader"
    and valid :: "'a \<Rightarrow> bool"
  assumes dec_enc: "valid x \<Longrightarrow> dec (enc x @ rest) = Inr (x, rest)"
begin

lemma dec_enc_all: "valid x \<Longrightarrow> dec (enc x) = Inr (x, [])"
  using dec_enc [of x "[]"] by simp

lemma enc_append_inject:
  assumes "valid x" and "valid y" and "enc x @ r = enc y @ s"
  shows "x = y \<and> r = s"
  using dec_enc [OF assms(1), of r] dec_enc [OF assms(2), of s] unfolding assms(3) by auto

lemma enc_inject: "valid x \<Longrightarrow> valid y \<Longrightarrow> enc x = enc y \<Longrightarrow> x = y"
  using enc_append_inject [of x y "[]" "[]"] by simp

lemma concat_enc_inject:
  assumes "\<forall>x \<in> set xs. valid x" and "\<forall>y \<in> set ys. valid y"
    and "length xs = length ys" and "concat (map enc xs) @ r = concat (map enc ys) @ s"
  shows "xs = ys \<and> r = s"
  using assms(3,1,2,4)
proof (induction xs ys rule: list_induct2)
  case (Cons x xs y ys)
  then have "enc x @ (concat (map enc xs) @ r) = enc y @ (concat (map enc ys) @ s)" by simp
  with Cons.prems have "x = y \<and> concat (map enc xs) @ r = concat (map enc ys) @ s"
    by (intro enc_append_inject) auto
  with Cons show ?case by auto
qed simp

end

lemma readFull_append [simp]: "length bs = n \<Longrightarrow> readFull n (bs @ rest) = Inr (bs, rest)"
  by (simp add: readFull_def)

interpretation uint32_codec: codec writeUint32 readUint32 "\<lambda>v. v < 2 ^ 32"
  by unfold_locales (simp add: readUint32_def writeUint32_def)

interpretation int64_codec: codec writeInt64 readInt64 int64
proof
  fix x :: int and rest :: "byte list"
  assume "int64 x"
  moreover have "nat (x mod 2 ^ 64) mod 256 ^ 8 = nat (x mod 2 ^ 64)"
    by (rule mod_less) (simp add: nat_less_iff)
  moreover have "wrap64 (x mod 2 ^ 64) = wrap64 x"
    by (simp add: wrap64_eq_iff)
  ultimately show "readInt64 (writeInt64 x @ rest) = Inr (x, rest)"
    by (simp add: readInt64_def writeInt64_def)
qed

interpretation hash_codec: codec hash_bytes readHash "\<lambda>_. True"
  by unfold_locales (simp add: readHash_def)

interpretation uuid_codec: codec uuid_bytes readUUID "\<lambda>_. True"
  by unfold_locales (simp add: readUUID_def)

interpretation bytes_codec: codec writeBytes readBytes "\<lambda>v. length v < 2 ^ 32"
proof
  fix v rest :: "byte list"
  assume "length v < 2 ^ 32"
  then show "readBytes (writeBytes v @ rest) = Inr (v, rest)"
    by (simp add: readBytes_def writeBytes_def uint32_codec.dec_enc)
qed

interpretation string_codec: codec writeString readString "\<lambda>s. length s < 2 ^ 32"
proof
  fix s :: string and rest :: "byte list"
  assume "length s < 2 ^ 32"
  then show "readString (writeString s @ rest) = Inr (s, rest)"
    by (simp add: readString_def writeString_writeBytes bytes_codec.dec_enc)
qed

text \<open>Writing an \<^verbatim>\<open>int64\<close> only sees its value modulo \<open>2 ^ 64\<close>.\<close>

lemma writeInt64_wrap64 [simp]: "writeInt64 (wrap64 x) = writeInt64 x"
  unfolding writeInt64_def wrap64_mod ..

text \<open>
  The attribute layout shared by the associated data of a log and by a locator key: four
  strings, a timestamp, a UUID.
\<close>

lemma attributes_inject:
  assumes "writeString a @ writeString b @ writeString c @ writeString d @ writeInt64 t @
      uuid_bytes u @ r =
    writeString a' @ writeString b' @ writeString c' @ writeString d' @ writeInt64 t' @
      uuid_bytes u' @ r'"
    and "\<forall>s \<in> {a, b, c, d, a', b', c', d'}. length s < 2 ^ 32"
  shows "a = a' \<and> b = b' \<and> c = c' \<and> d = d' \<and> wrap64 t = wrap64 t' \<and> u = u' \<and> r = r'"
proof -
  note step = string_codec.enc_append_inject
  have 1: "a = a' \<and> writeString b @ writeString c @ writeString d @ writeInt64 t @ uuid_bytes u @ r =
      writeString b' @ writeString c' @ writeString d' @ writeInt64 t' @ uuid_bytes u' @ r'"
    by (rule step) (use assms in auto)
  have 2: "b = b' \<and> writeString c @ writeString d @ writeInt64 t @ uuid_bytes u @ r =
      writeString c' @ writeString d' @ writeInt64 t' @ uuid_bytes u' @ r'"
    by (rule step) (use assms(2) 1 in auto)
  have 3: "c = c' \<and> writeString d @ writeInt64 t @ uuid_bytes u @ r =
      writeString d' @ writeInt64 t' @ uuid_bytes u' @ r'"
    by (rule step) (use assms(2) 2 in auto)
  have 4: "d = d' \<and> writeInt64 t @ uuid_bytes u @ r = writeInt64 t' @ uuid_bytes u' @ r'"
    by (rule step) (use assms(2) 3 in auto)
  have 5: "wrap64 t = wrap64 t' \<and> uuid_bytes u @ r = uuid_bytes u' @ r'"
    by (rule int64_codec.enc_append_inject) (use 4 in auto)
  have "u = u' \<and> r = r'"
    by (rule uuid_codec.enc_append_inject) (use 5 in auto)
  with 1 2 3 4 5 show ?thesis by blast
qed

end
