(* ===== verification/HMF_Domain.thy ===== *)
theory HMF_Domain
  imports HMF_Bytes
begin

text \<open>
  Package \<^verbatim>\<open>internal/domain\<close>: the log record, the encoding of its associated data, and the pair
  hash of every Merkle tree of the system. SHA-256 is a parameter \<open>H\<close> of each definition that
  hashes: no property depends on how it is computed, and where a property needs that two inputs
  do not collide it says so for the inputs at hand.
\<close>

type_synonym hash_fn = "byte list \<Rightarrow> hash"

section \<open>Time\<close>

text \<open>
  A \<^verbatim>\<open>time.Time\<close> is the number of nanoseconds from the Unix epoch to its instant; \<^verbatim>\<open>UTC()\<close> does not
  change the instant. The zero time is 1 January of year 1. \<^verbatim>\<open>UnixNano\<close> is an \<^verbatim>\<open>int64\<close>.
\<close>

type_synonym time = int

definition time_zero :: time where
  "time_zero = - 62135596800 * 10 ^ 9"

definition IsZero :: "time \<Rightarrow> bool" where
  "IsZero t \<longleftrightarrow> t = time_zero"

definition UnixNano :: "time \<Rightarrow> int" where
  "UnixNano t = wrap64 t"

section \<open>Logs\<close>

record Log =
  logLogID :: uuid
  logEventTime :: time
  logRegionID :: string
  logTenantID :: string
  logServiceID :: string
  logLogType :: string
  logCiphertext :: "byte list"
  logTag :: "byte list"
  logNonce :: "byte list"
  logDigest :: hash
  logAD :: "byte list"

definition EncodeAD :: "Log \<Rightarrow> byte list" where
  "EncodeAD lg =
     writeString (logTenantID lg) @ writeString (logServiceID lg) @ writeString (logLogType lg) @
     writeString (logRegionID lg) @ writeInt64 (UnixNano (logEventTime lg)) @
     uuid_bytes (logLogID lg)"

text \<open>A log whose attributes fit the 32-bit length prefixes and the 64-bit timestamp.\<close>

definition encodable_log :: "Log \<Rightarrow> bool" where
  "encodable_log lg \<longleftrightarrow> length (logTenantID lg) < 2 ^ 32 \<and> length (logServiceID lg) < 2 ^ 32 \<and>
     length (logLogType lg) < 2 ^ 32 \<and> length (logRegionID lg) < 2 ^ 32 \<and> int64 (logEventTime lg)"

lemma EncodeAD_attributes:
  assumes "EncodeAD a = EncodeAD b" and "encodable_log a" and "encodable_log b"
  shows "logTenantID a = logTenantID b \<and> logServiceID a = logServiceID b \<and>
    logLogType a = logLogType b \<and> logRegionID a = logRegionID b \<and>
    logEventTime a = logEventTime b \<and> logLogID a = logLogID b"
  using attributes_inject [of "logTenantID a" "logServiceID a" "logLogType a" "logRegionID a"
      "UnixNano (logEventTime a)" "logLogID a" "[]"
      "logTenantID b" "logServiceID b" "logLogType b" "logRegionID b"
      "UnixNano (logEventTime b)" "logLogID b" "[]"] assms
  by (auto simp: EncodeAD_def encodable_log_def UnixNano_def)

section \<open>The pair hash\<close>

definition HashPair :: "hash_fn \<Rightarrow> string \<Rightarrow> hash \<Rightarrow> hash option \<Rightarrow> hash" where
  "HashPair H prefix left right =
     H (string_bytes prefix @ hash_bytes left @
        (case right of None \<Rightarrow> [] | Some r \<Rightarrow> hash_bytes r))"

text \<open>The byte string that an inner node of a Merkle tree hashes.\<close>

definition node_input :: "hash \<Rightarrow> hash \<Rightarrow> byte list" where
  "node_input l r = string_bytes ''NODE'' @ hash_bytes l @ hash_bytes r"

lemma HashPair_node: "HashPair H ''NODE'' l (Some r) = H (node_input l r)"
  by (simp add: HashPair_def node_input_def)

lemma node_input_inject [simp]: "node_input l r = node_input l' r' \<longleftrightarrow> l = l' \<and> r = r'"
  by (auto simp: node_input_def)

lemma length_node_input [simp]: "length (node_input l r) = 68"
  by (simp add: node_input_def)

end
