(* ===== verification/Merkle_Reference.thy ===== *)
theory Merkle_Reference
  imports HMF_Domain
begin

text \<open>
  The reference Merkle tree: a level is the list of its hashes from left to right, the next
  level pairs neighbours and promotes an odd last node unchanged, and the root is what is left
  when one node remains. Every tree of the program (built at once, appended to through a
  frontier, updated along a path, reconstructed from a multiproof) is related to it. The last
  section says when a root determines its leaves.
\<close>

section \<open>Levels, height, root\<close>

fun pair_up :: "hash_fn \<Rightarrow> hash list \<Rightarrow> hash list" where
  "pair_up H [] = []"
| "pair_up H [x] = [x]"
| "pair_up H (x # y # xs) = HashPair H ''NODE'' x (Some y) # pair_up H xs"

lemma length_pair_up [simp]: "length (pair_up H xs) = (length xs + 1) div 2"
  by (induction H xs rule: pair_up.induct) auto

lemma pair_up_eq_Nil [simp]: "pair_up H xs = [] \<longleftrightarrow> xs = []"
  by (cases "(H, xs)" rule: pair_up.cases) auto

lemma nth_pair_up:
  "i < (length xs + 1) div 2 \<Longrightarrow> pair_up H xs ! i =
     (if 2 * i + 1 < length xs then HashPair H ''NODE'' (xs ! (2 * i)) (Some (xs ! (2 * i + 1)))
      else xs ! (2 * i))"
proof (induction H xs arbitrary: i rule: pair_up.induct)
  case (3 H x y xs)
  then show ?case by (cases i) auto
qed auto

lemma pair_up_append:
  "even (length xs) \<Longrightarrow> pair_up H (xs @ ys) = pair_up H xs @ pair_up H ys"
  by (induction H xs rule: pair_up.induct) auto

lemma pair_up_snoc_even: "even (length xs) \<Longrightarrow> pair_up H (xs @ [r]) = pair_up H xs @ [r]"
  by (simp add: pair_up_append)

lemma pair_up_snoc_odd:
  assumes "odd (length xs)"
  shows "pair_up H (xs @ [r]) =
    pair_up H (butlast xs) @ [HashPair H ''NODE'' (last xs) (Some r)]"
proof -
  from assms have "xs \<noteq> []" by auto
  then have "xs @ [r] = butlast xs @ [last xs, r]" by simp
  moreover have "even (length (butlast xs))" using assms by simp
  ultimately show ?thesis by (simp only: pair_up_append) simp
qed

fun theight :: "nat \<Rightarrow> nat" where
  "theight n = (if n \<le> 1 then 0 else Suc (theight ((n + 1) div 2)))"

declare theight.simps [simp del]

lemma theight_le_1 [simp]: "n \<le> 1 \<Longrightarrow> theight n = 0"
  by (subst theight.simps) simp

lemma theight_step: "1 < n \<Longrightarrow> theight n = Suc (theight ((n + 1) div 2))"
  by (subst theight.simps) simp

function merkle_root :: "hash_fn \<Rightarrow> hash list \<Rightarrow> hash" where
  "merkle_root H xs =
     (if length xs \<le> 1 then (case xs of [] \<Rightarrow> 0 | x # _ \<Rightarrow> x) else merkle_root H (pair_up H xs))"
  by pat_completeness auto
termination
  by (relation "measure (\<lambda>(H, xs). length xs)") auto

declare merkle_root.simps [simp del]

lemma merkle_root_single [simp]: "merkle_root H [x] = x"
  by (subst merkle_root.simps) simp

lemma merkle_root_step: "1 < length xs \<Longrightarrow> merkle_root H xs = merkle_root H (pair_up H xs)"
  by (subst merkle_root.simps) simp

definition mlevel :: "hash_fn \<Rightarrow> hash list \<Rightarrow> nat \<Rightarrow> hash list" where
  "mlevel H xs l = (pair_up H ^^ l) xs"

lemma mlevel_0 [simp]: "mlevel H xs 0 = xs"
  by (simp add: mlevel_def)

lemma mlevel_Suc: "mlevel H xs (Suc l) = mlevel H (pair_up H xs) l"
  by (simp add: mlevel_def funpow_swap1)

lemma mlevel_Suc': "mlevel H xs (Suc l) = pair_up H (mlevel H xs l)"
  by (simp add: mlevel_def)

lemma mlevel_eq_Nil [simp]: "mlevel H xs l = [] \<longleftrightarrow> xs = []"
  by (induction l arbitrary: xs) (auto simp: mlevel_Suc)

lemma mlevel_single [simp]: "mlevel H [x] l = [x]"
  by (induction l) (auto simp: mlevel_Suc)

text \<open>The level above the leaves whose only node is the root is the height.\<close>

lemma mlevel_theight: "xs \<noteq> [] \<Longrightarrow> mlevel H xs (theight (length xs)) = [merkle_root H xs]"
proof (induction H xs rule: merkle_root.induct)
  case (1 H xs)
  show ?case
  proof (cases "length xs \<le> 1")
    case True
    with "1.prems" obtain x where "xs = [x]" by (cases xs) auto
    then show ?thesis by simp
  next
    case False
    then have "mlevel H (pair_up H xs) (theight (length (pair_up H xs))) =
        [merkle_root H (pair_up H xs)]"
      using "1.prems" by (intro "1.IH") auto
    with False show ?thesis
      by (simp add: theight_step mlevel_Suc merkle_root_step)
  qed
qed

fun level_width :: "nat \<Rightarrow> nat \<Rightarrow> nat" where
  "level_width n 0 = n"
| "level_width n (Suc l) = level_width ((n + 1) div 2) l"

lemma length_mlevel [simp]: "length (mlevel H xs l) = level_width (length xs) l"
  by (induction l arbitrary: xs) (auto simp: mlevel_Suc)

lemma level_width_Suc': "level_width n (Suc l) = (level_width n l + 1) div 2"
  by (induction l arbitrary: n) auto

lemma level_width_theight: "0 < n \<Longrightarrow> level_width n (theight n) = 1"
proof (induction n rule: theight.induct)
  case (1 n)
  then show ?case
    by (cases "n \<le> 1") (auto simp: theight_step)
qed

lemma level_width_pos: "0 < n \<Longrightarrow> 0 < level_width n l"
  by (induction l arbitrary: n) auto

text \<open>The index of a node's ancestor stays inside the level.\<close>

lemma level_width_div: "i < n \<Longrightarrow> i div 2 ^ l < level_width n l"
proof (induction l arbitrary: i n)
  case (Suc l)
  have "i div 2 < (n + 1) div 2" using Suc.prems by auto
  then have "i div 2 div 2 ^ l < level_width ((n + 1) div 2) l" by (rule Suc.IH)
  then show ?case by (simp add: div_mult2_eq)
qed simp

text \<open>Above the height every level is a single node; heights grow by at most one per leaf.\<close>

lemma level_width_1 [simp]: "level_width (Suc 0) l = Suc 0"
  by (induction l) auto

lemma level_width_0 [simp]: "level_width 0 l = 0"
  by (induction l) auto

lemma level_width_ge_theight: "theight n \<le> l \<Longrightarrow> level_width n l \<le> 1"
proof (induction n arbitrary: l rule: theight.induct)
  case (1 n)
  show ?case
  proof (cases "n \<le> 1")
    case True
    then have "n = 0 \<or> n = 1" by auto
    then show ?thesis by auto
  next
    case False
    then obtain l' where l: "l = Suc l'" and "theight ((n + 1) div 2) \<le> l'"
      using "1.prems" theight_step [of n] by (cases l) auto
    with "1.IH" [OF False] show ?thesis by simp
  qed
qed

lemma level_width_gt_1: "1 < level_width n l \<Longrightarrow> l < theight n"
  using level_width_ge_theight [of n l] by (cases "theight n \<le> l") auto

lemma theight_Suc_bounds: "theight n \<le> theight (n + 1) \<and> theight (n + 1) \<le> Suc (theight n)"
proof (induction n rule: theight.induct)
  case (1 n)
  show ?case
  proof (cases "n \<le> 1")
    case True
    then have "n = 0 \<or> n = 1" by auto
    then show ?thesis using theight_step [of "Suc (Suc 0)"] by auto
  next
    case False
    have "(n + 1 + 1) div 2 = (n + 1) div 2 \<or> (n + 1 + 1) div 2 = (n + 1) div 2 + 1" by linarith
    with "1.IH" [OF False] False show ?thesis
      using theight_step [of n] theight_step [of "n + 1"] by auto
  qed
qed

text \<open>Appending a leaf changes only the last node of each level.\<close>

lemma mlevel_snoc:
  "\<exists>ps' r'. mlevel H (ps @ [r]) k = ps' @ [r'] \<and>
     (\<forall>xs. xs = ps \<or> (\<exists>q. xs = ps @ [q]) \<longrightarrow>
        mlevel H xs k = ps' \<or> (\<exists>q'. mlevel H xs k = ps' @ [q']))"
proof (induction k)
  case (Suc k)
  then obtain ps' r' where IH: "mlevel H (ps @ [r]) k = ps' @ [r']"
    "\<And>xs. xs = ps \<or> (\<exists>q. xs = ps @ [q]) \<Longrightarrow> mlevel H xs k = ps' \<or> (\<exists>q'. mlevel H xs k = ps' @ [q'])"
    by blast
  show ?case
  proof (cases "even (length ps')")
    case True
    then have "pair_up H (ps' @ [z]) = pair_up H ps' @ [z]" for z
      by (simp add: pair_up_snoc_even)
    then show ?thesis
      using IH by (intro exI [of _ "pair_up H ps'"] exI [of _ r']) (metis mlevel_Suc')
  next
    case False
    then have ne: "ps' \<noteq> []" by auto
    have "pair_up H (ps' @ [z]) = pair_up H (butlast ps') @ [HashPair H ''NODE'' (last ps') (Some z)]"
      for z using False by (simp add: pair_up_snoc_odd)
    moreover have "pair_up H ps' = pair_up H (butlast ps') @ [last ps']"
      using pair_up_snoc_even [of "butlast ps'" H "last ps'"] False ne by simp
    ultimately show ?thesis
      using IH by (intro exI [of _ "pair_up H (butlast ps')"]
        exI [of _ "HashPair H ''NODE'' (last ps') (Some r')"]) (metis mlevel_Suc')
  qed
qed auto

lemma mlevel_snoc_nth:
  fixes H h
  assumes "i + 1 < level_width (length ls + 1) k"
  shows "i < level_width (length ls) k" and "mlevel H (ls @ [h]) k ! i = mlevel H ls k ! i"
proof -
  obtain ps' r' where *: "mlevel H (ls @ [h]) k = ps' @ [r']"
    "mlevel H ls k = ps' \<or> (\<exists>q'. mlevel H ls k = ps' @ [q'])"
    using mlevel_snoc [of H ls h k] by blast
  have "i < length ps'"
    using assms * length_mlevel [of H "ls @ [h]" k] by simp
  moreover have "length ps' \<le> length (mlevel H ls k)"
    using *(2) by (auto simp del: length_mlevel)
  ultimately show "i < level_width (length ls) k" and "mlevel H (ls @ [h]) k ! i = mlevel H ls k ! i"
    using * by (auto simp: nth_append)
qed

lemma level_width_Suc_mono: "level_width n k \<le> level_width (n + 1) k"
proof (induction k arbitrary: n)
  case (Suc k)
  have "(n + 1 + 1) div 2 = (n + 1) div 2 \<or> (n + 1 + 1) div 2 = (n + 1) div 2 + 1" by linarith
  then show ?case using Suc.IH [of "(n + 1) div 2"] by auto
qed simp

section \<open>When a root determines its leaves\<close>

text \<open>The byte strings hashed while one level, or a whole tree, is computed.\<close>

fun pair_inputs :: "hash list \<Rightarrow> byte list set" where
  "pair_inputs [] = {}"
| "pair_inputs [x] = {}"
| "pair_inputs (x # y # xs) = insert (node_input x y) (pair_inputs xs)"

function merkle_inputs :: "hash_fn \<Rightarrow> hash list \<Rightarrow> byte list set" where
  "merkle_inputs H xs =
     (if length xs \<le> 1 then {} else pair_inputs xs \<union> merkle_inputs H (pair_up H xs))"
  by pat_completeness auto
termination
  by (relation "measure (\<lambda>(H, xs). length xs)") auto

declare merkle_inputs.simps [simp del]

lemma merkle_inputs_step:
  "1 < length xs \<Longrightarrow> merkle_inputs H xs = pair_inputs xs \<union> merkle_inputs H (pair_up H xs)"
  by (subst merkle_inputs.simps) simp

lemma pair_inputs_nth:
  "2 * i + 1 < length xs \<Longrightarrow> node_input (xs ! (2 * i)) (xs ! (2 * i + 1)) \<in> pair_inputs xs"
proof (induction xs arbitrary: i rule: pair_inputs.induct)
  case (3 x y xs)
  then show ?case by (cases i) auto
qed auto

lemma pair_up_inject:
  assumes "length xs = length ys" and "pair_up H xs = pair_up H ys"
    and "inj_on H (pair_inputs xs \<union> pair_inputs ys)"
  shows "xs = ys"
  using assms
proof (induction H xs arbitrary: ys rule: pair_up.induct)
  case (1 H)
  then show ?case by simp
next
  case (2 H x)
  then show ?case by (cases ys) auto
next
  case (3 H x y xs)
  then obtain x' y' ys' where ys: "ys = x' # y' # ys'"
    by (cases ys) (auto simp: length_Suc_conv Suc_length_conv)
  have "H (node_input x y) = H (node_input x' y')"
    using "3.prems"(2) ys by (simp add: HashPair_node)
  then have "node_input x y = node_input x' y'"
    by (rule inj_onD [OF "3.prems"(3)]) (simp_all add: ys)
  then have "x = x' \<and> y = y'" by simp
  moreover have "inj_on H (pair_inputs xs \<union> pair_inputs ys')"
    by (rule inj_on_subset [OF "3.prems"(3)]) (auto simp: ys)
  then have "xs = ys'"
    using "3.prems" ys by (intro "3.IH") auto
  ultimately show ?case using ys by simp
qed

theorem merkle_root_binding:
  assumes "length xs = length ys" and "merkle_root H xs = merkle_root H ys"
    and "inj_on H (merkle_inputs H xs \<union> merkle_inputs H ys)"
  shows "xs = ys"
  using assms
proof (induction H xs arbitrary: ys rule: merkle_root.induct)
  case (1 H xs)
  show ?case
  proof (cases "length xs \<le> 1")
    case True
    with "1.prems"(1,2) show ?thesis
      by (cases xs; cases ys) auto
  next
    case False
    then have ys: "1 < length ys" using "1.prems"(1) by simp
    have xs: "1 < length xs" using False by simp
    note steps = merkle_inputs_step [of xs H] merkle_inputs_step [of ys H] False ys
    have len: "length (pair_up H xs) = length (pair_up H ys)" using "1.prems"(1) by simp
    have inj: "inj_on H (merkle_inputs H (pair_up H xs) \<union> merkle_inputs H (pair_up H ys))"
      by (rule inj_on_subset [OF "1.prems"(3)]) (use steps in auto)
    have root: "merkle_root H (pair_up H xs) = merkle_root H (pair_up H ys)"
      using "1.prems"(2) unfolding merkle_root_step [OF ys] merkle_root_step [OF xs] .
    have "pair_up H xs = pair_up H ys"
      by (rule "1.IH" [OF False len root inj])
    then show ?thesis
      by (rule pair_up_inject [OF "1.prems"(1)])
        (rule inj_on_subset [OF "1.prems"(3)], use steps in auto)
  qed
qed

end
