(* ===== verification/HMF_Commitment.thy ===== *)
theory HMF_Commitment
  imports HMF_Domain
begin

text \<open>
  \<^verbatim>\<open>internal/hmf/commitment.go\<close>: the commitments that bind a raw Merkle root to the kind, the
  identity and the leaf count of its tree before it becomes a leaf of the next layer. The input
  of a commitment determines every bound field, and no commitment input is the input of an
  inner node.
\<close>

definition treeCommitmentDomain :: string where
  "treeCommitmentDomain = ''HMF_TREE_V1''"

text \<open>The bytes streamed into the hasher, in order.\<close>

definition commit_input ::
  "string \<Rightarrow> string \<Rightarrow> int \<Rightarrow> int \<Rightarrow> int \<Rightarrow> hash \<Rightarrow> byte list" where
  "commit_input kind regionID shardID segmentID leafCount rawRoot =
     writeString treeCommitmentDomain @ writeString kind @ writeString regionID @
     writeInt64 shardID @ writeInt64 segmentID @ writeInt64 leafCount @ hash_bytes rawRoot"

definition commitTreeRoot ::
  "hash_fn \<Rightarrow> string \<Rightarrow> string \<Rightarrow> int \<Rightarrow> int \<Rightarrow> int \<Rightarrow> hash \<Rightarrow> hash" where
  "commitTreeRoot H kind regionID shardID segmentID leafCount rawRoot =
     H (commit_input kind regionID shardID segmentID leafCount rawRoot)"

definition CommitSegmentRoot ::
  "hash_fn \<Rightarrow> string \<Rightarrow> int \<Rightarrow> int \<Rightarrow> int \<Rightarrow> hash \<Rightarrow> hash" where
  "CommitSegmentRoot H regionID shardID segmentID leafCount rawRoot =
     commitTreeRoot H ''SEGMENT'' regionID shardID segmentID leafCount rawRoot"

definition CommitShardRoot :: "hash_fn \<Rightarrow> string \<Rightarrow> int \<Rightarrow> int \<Rightarrow> hash \<Rightarrow> hash" where
  "CommitShardRoot H regionID shardID leafCount rawRoot =
     commitTreeRoot H ''SHARD'' regionID shardID (-1) leafCount rawRoot"

definition CommitRegionRoot :: "hash_fn \<Rightarrow> string \<Rightarrow> int \<Rightarrow> hash \<Rightarrow> hash" where
  "CommitRegionRoot H regionID leafCount rawRoot =
     commitTreeRoot H ''REGION'' regionID (-1) (-1) leafCount rawRoot"

definition CommitGlobalRoot :: "hash_fn \<Rightarrow> int \<Rightarrow> hash \<Rightarrow> hash" where
  "CommitGlobalRoot H leafCount rawRoot =
     commitTreeRoot H ''GLOBAL'' '''' (-1) (-1) leafCount rawRoot"

lemma commit_input_inject:
  assumes "commit_input k r s g n h = commit_input k' r' s' g' n' h'"
    and "length k < 2 ^ 32" "length k' < 2 ^ 32" "length r < 2 ^ 32" "length r' < 2 ^ 32"
  shows "k = k' \<and> r = r' \<and> wrap64 s = wrap64 s' \<and> wrap64 g = wrap64 g' \<and>
    wrap64 n = wrap64 n' \<and> h = h'"
proof -
  let ?tail = "\<lambda>s g n h. writeInt64 (wrap64 s) @ writeInt64 (wrap64 g) @ writeInt64 (wrap64 n) @
    hash_bytes h"
  have 0: "writeString k @ writeString r @ ?tail s g n h =
      writeString k' @ writeString r' @ ?tail s' g' n' h'"
    using assms(1) by (simp add: commit_input_def)
  have 1: "k = k' \<and> writeString r @ ?tail s g n h = writeString r' @ ?tail s' g' n' h'"
    by (rule string_codec.enc_append_inject) (use 0 assms in auto)
  have 2: "r = r' \<and> ?tail s g n h = ?tail s' g' n' h'"
    by (rule string_codec.enc_append_inject) (use 1 assms in auto)
  have 3: "wrap64 s = wrap64 s' \<and> writeInt64 (wrap64 g) @ writeInt64 (wrap64 n) @ hash_bytes h =
      writeInt64 (wrap64 g') @ writeInt64 (wrap64 n') @ hash_bytes h'"
    by (rule int64_codec.enc_append_inject) (use 2 in auto)
  have 4: "wrap64 g = wrap64 g' \<and> writeInt64 (wrap64 n) @ hash_bytes h =
      writeInt64 (wrap64 n') @ hash_bytes h'"
    by (rule int64_codec.enc_append_inject) (use 3 in auto)
  have "wrap64 n = wrap64 n' \<and> hash_bytes h = hash_bytes h'"
    by (rule int64_codec.enc_append_inject) (use 4 in auto)
  with 1 2 3 4 show ?thesis by simp
qed

text \<open>
  Domain separation: the first byte of a commitment is the high byte of a length prefix, the
  first byte of a node input is the letter N.
\<close>

lemma commit_input_not_node: "commit_input k r s g n h \<noteq> node_input x y"
proof
  assume eq: "commit_input k r s g n h = node_input x y"
  have "hd (commit_input k r s g n h) = 0"
  proof -
    have "hd (be_bytes 4 11) = 0" and "be_bytes 4 11 \<noteq> []" by code_simp+
    then show ?thesis
      by (simp add: commit_input_def treeCommitmentDomain_def writeString_def writeUint32_def)
  qed
  moreover have "hd (node_input x y) = (78 :: byte)"
    by (simp add: node_input_def string_bytes_def)
  ultimately show False using eq by simp
qed

end
