(* ===== verification/Merkle_Tree.thy ===== *)
theory Merkle_Tree
  imports Merkle_Reference HMF_Commitment
begin

text \<open>
  \<^verbatim>\<open>internal/hmf/merkle_tree.go\<close>: tree identities, nodes, and the header embedded in every tree;
  with the reference listing of the nodes of a tree, level by level, in the order in which the
  program emits them, and the node store that results when emitted nodes are written out.
\<close>

section \<open>Types\<close>

type_synonym TreeType = string

definition TreeGlobal :: TreeType where
  "TreeGlobal = ''Global''"

definition TreeRegion :: TreeType where
  "TreeRegion = ''Region''"

definition TreeShard :: TreeType where
  "TreeShard = ''Shard''"

definition TreeSegment :: TreeType where
  "TreeSegment = ''Segment''"

record TreeID =
  tidType :: TreeType
  tidRegionID :: string
  tidShardID :: int
  tidSegmentID :: int

record MerkleNode =
  mnLevel :: int
  mnIndex :: int
  mnHash :: hash

text \<open>A Go struct that embeds \<^verbatim>\<open>*MerkleTree\<close> is a record that extends this one.\<close>

record MerkleTree =
  tTreeID :: TreeID
  tRoot :: hash
  tLeafCount :: int
  tHeight :: int

abbreviation mk_node :: "int \<Rightarrow> int \<Rightarrow> hash \<Rightarrow> MerkleNode" where
  "mk_node l i h \<equiv> \<lparr>mnLevel = l, mnIndex = i, mnHash = h\<rparr>"

section \<open>Reference listings\<close>

text \<open>The nodes of one level from an index on, and the levels of a whole tree from a level on.\<close>

fun nodes_at :: "int \<Rightarrow> int \<Rightarrow> hash list \<Rightarrow> MerkleNode list" where
  "nodes_at l i [] = []"
| "nodes_at l i (h # hs) = mk_node l i h # nodes_at l (i + 1) hs"

lemma length_nodes_at [simp]: "length (nodes_at l i hs) = length hs"
  by (induction l i hs rule: nodes_at.induct) auto

lemma map_mnHash_nodes_at [simp]: "map mnHash (nodes_at l i hs) = hs"
  by (induction l i hs rule: nodes_at.induct) auto

lemma nodes_at_append:
  "nodes_at l i (xs @ ys) = nodes_at l i xs @ nodes_at l (i + int (length xs)) ys"
  by (induction l i xs rule: nodes_at.induct) (auto simp: algebra_simps)

lemma nth_nodes_at: "k < length hs \<Longrightarrow> nodes_at l i hs ! k = mk_node l (i + int k) (hs ! k)"
proof (induction l i hs arbitrary: k rule: nodes_at.induct)
  case (2 l i h hs)
  then show ?case by (cases k) auto
qed simp

lemma list_update_nodes_at:
  "k < length hs \<Longrightarrow>
     (nodes_at l i hs)[k := mk_node l (i + int k) h] = nodes_at l i (hs[k := h])"
  by (rule nth_equalityI) (auto simp: nth_nodes_at nth_list_update)

lemma nodes_at_eq_Nil [simp]: "nodes_at l i hs = [] \<longleftrightarrow> hs = []"
  by (cases hs) auto

function level_lists :: "hash_fn \<Rightarrow> int \<Rightarrow> hash list \<Rightarrow> MerkleNode list list" where
  "level_lists H l hs =
     nodes_at l 0 hs # (if length hs \<le> 1 then [] else level_lists H (l + 1) (pair_up H hs))"
  by pat_completeness auto
termination
  by (relation "measure (\<lambda>(H, l, hs). length hs)") auto

declare level_lists.simps [simp del]

definition tree_nodes :: "hash_fn \<Rightarrow> hash list \<Rightarrow> MerkleNode list" where
  "tree_nodes H hs = concat (level_lists H 0 hs)"

lemma level_lists_step:
  "1 < length hs \<Longrightarrow>
     level_lists H l hs = nodes_at l 0 hs # level_lists H (l + 1) (pair_up H hs)"
  by (subst level_lists.simps) simp

lemma level_lists_base: "length hs \<le> 1 \<Longrightarrow> level_lists H l hs = [nodes_at l 0 hs]"
  by (subst level_lists.simps) simp

lemma level_lists_not_Nil [simp]: "level_lists H l hs \<noteq> []"
  by (subst level_lists.simps) simp

lemma hd_level_lists [simp]: "hd (level_lists H l hs) = nodes_at l 0 hs"
  by (subst level_lists.simps) simp

lemma length_level_lists: "length (level_lists H l hs) = Suc (theight (length hs))"
proof (induction H l hs rule: level_lists.induct)
  case (1 H l hs)
  then show ?case
    by (cases "length hs \<le> 1") (auto simp: level_lists_base level_lists_step theight_step)
qed

lemma nth_level_lists:
  "k \<le> theight (length hs) \<Longrightarrow> level_lists H l hs ! k = nodes_at (l + int k) 0 (mlevel H hs k)"
proof (induction H l hs arbitrary: k rule: level_lists.induct)
  case (1 H l hs)
  show ?case
  proof (cases "length hs \<le> 1")
    case True
    with "1.prems" show ?thesis by (simp add: level_lists_base)
  next
    case False
    show ?thesis
    proof (cases k)
      case 0
      with False show ?thesis by (simp add: level_lists_step)
    next
      case (Suc k')
      have "k' \<le> theight (length (pair_up H hs))"
        using "1.prems" False Suc by (simp add: theight_step)
      then have "level_lists H (l + 1) (pair_up H hs) ! k' =
          nodes_at (l + 1 + int k') 0 (mlevel H (pair_up H hs) k')"
        by (rule "1.IH" [OF False])
      with False Suc show ?thesis
        by (simp add: level_lists_step mlevel_Suc algebra_simps)
    qed
  qed
qed

lemma level_lists_alt:
  "level_lists H 0 hs = map (\<lambda>k. nodes_at (int k) 0 (mlevel H hs k)) [0..<Suc (theight (length hs))]"
  by (rule nth_equalityI) (auto simp: length_level_lists nth_level_lists simp del: upt_Suc)

section \<open>Node positions and the node store\<close>

text \<open>\<open>node_of H hs l i\<close> is the hash at level \<open>l\<close>, index \<open>i\<close> of the tree over \<open>hs\<close>, if there is one.\<close>

definition node_of :: "hash_fn \<Rightarrow> hash list \<Rightarrow> int \<Rightarrow> int \<Rightarrow> hash option" where
  "node_of H hs l i =
     (if 0 \<le> l \<and> l \<le> int (theight (length hs)) \<and> 0 \<le> i \<and>
         i < int (length (mlevel H hs (nat l)))
      then Some (mlevel H hs (nat l) ! nat i) else None)"

definition is_node :: "hash_fn \<Rightarrow> hash list \<Rightarrow> MerkleNode \<Rightarrow> bool" where
  "is_node H hs n \<longleftrightarrow> node_of H hs (mnLevel n) (mnIndex n) = Some (mnHash n)"

lemma node_of_int:
  "l \<le> theight (length hs) \<Longrightarrow> i < level_width (length hs) l \<Longrightarrow>
     node_of H hs (int l) (int i) = Some (mlevel H hs l ! i)"
  by (simp add: node_of_def)

lemma set_nodes_at: "n \<in> set (nodes_at l 0 hs) \<longleftrightarrow>
    mnLevel n = l \<and> 0 \<le> mnIndex n \<and> mnIndex n < int (length hs) \<and> mnHash n = hs ! nat (mnIndex n)"
  (is "?L \<longleftrightarrow> ?R")
proof
  assume ?L
  then obtain k where "k < length hs" and "n = nodes_at l 0 hs ! k"
    by (auto simp: in_set_conv_nth)
  then show ?R by (simp add: nth_nodes_at)
next
  assume R: ?R
  then have "nodes_at l 0 hs ! nat (mnIndex n) = n"
    by (simp add: nth_nodes_at nat_less_iff)
  with R show ?L by (metis length_nodes_at nat_less_iff nth_mem)
qed

text \<open>The listing of a tree holds exactly its nodes.\<close>

lemma set_tree_nodes: "n \<in> set (tree_nodes H hs) \<longleftrightarrow> is_node H hs n"
proof -
  have "n \<in> set (tree_nodes H hs) \<longleftrightarrow>
      (\<exists>k \<le> theight (length hs). n \<in> set (nodes_at (int k) 0 (mlevel H hs k)))"
    by (auto simp: tree_nodes_def level_lists_alt less_Suc_eq_le simp del: upt_Suc)
  also have "\<dots> \<longleftrightarrow> is_node H hs n"
  proof
    assume "\<exists>k \<le> theight (length hs). n \<in> set (nodes_at (int k) 0 (mlevel H hs k))"
    then show "is_node H hs n"
      by (auto simp: set_nodes_at is_node_def node_of_def)
  next
    assume "is_node H hs n"
    then show "\<exists>k \<le> theight (length hs). n \<in> set (nodes_at (int k) 0 (mlevel H hs k))"
      by (intro exI [of _ "nat (mnLevel n)"])
        (auto simp: set_nodes_at is_node_def node_of_def split: if_splits)
  qed
  finally show ?thesis .
qed

text \<open>
  A table of nodes keyed by level and index; writing a list of nodes is one upsert after the
  other.
\<close>

type_synonym node_store = "int \<times> int \<Rightarrow> hash option"

definition upsert_nodes :: "node_store \<Rightarrow> MerkleNode list \<Rightarrow> node_store" where
  "upsert_nodes S ns = foldl (\<lambda>S n. S((mnLevel n, mnIndex n) \<mapsto> mnHash n)) S ns"

lemma upsert_nodes_Nil [simp]: "upsert_nodes S [] = S"
  by (simp add: upsert_nodes_def)

lemma upsert_nodes_Cons [simp]:
  "upsert_nodes S (n # ns) = upsert_nodes (S((mnLevel n, mnIndex n) \<mapsto> mnHash n)) ns"
  by (simp add: upsert_nodes_def)

text \<open>
  Where the written nodes agree with a function of the position, the store holds that function
  at the written positions and what it held before elsewhere.
\<close>

lemma upsert_nodes_spec:
  assumes "\<forall>n \<in> set ns. f (mnLevel n, mnIndex n) = Some (mnHash n)"
  shows "upsert_nodes S ns p =
    (if p \<in> (\<lambda>n. (mnLevel n, mnIndex n)) ` set ns then f p else S p)"
  using assms by (induction ns arbitrary: S) auto

end
