(* ===== verification/Shard_Tree.thy ===== *)
theory Shard_Tree
  imports Merkle_Tree
begin

text \<open>
  \<^verbatim>\<open>internal/hmf/shard_tree.go\<close>: the append-only tree over the sealed segments of one shard. It
  keeps no levels, only a frontier of complete subtrees (a binary counter of peaks), from which
  an append recomputes the root and the nodes it changed. The main results: the root is the
  reference root over all leaves ever appended, the emitted nodes are the right edge of the
  reference tree, and a store that receives every emitted node holds exactly the reference tree.
\<close>

section \<open>Model\<close>

record ShardTree = MerkleTree +
  shFrontiers :: "MerkleNode list"

definition popFrontier :: "MerkleNode list \<Rightarrow> (MerkleNode \<times> MerkleNode list) result" where
  "popFrontier frontiers =
     (if length frontiers = 0
      then Inl (Errorf ''pop frontier node: do not have MerkleNode to pop'')
      else Inr (last frontiers, butlast frontiers))"

definition NewShardTree :: "string \<Rightarrow> int \<Rightarrow> ShardTree" where
  "NewShardTree regionID shardID =
     \<lparr>tTreeID = \<lparr>tidType = TreeShard, tidRegionID = regionID, tidShardID = shardID,
                 tidSegmentID = 0\<rparr>,
      tRoot = 0, tLeafCount = 0, tHeight = 0, shFrontiers = []\<rparr>"

definition Frontiers :: "ShardTree \<Rightarrow> MerkleNode list" where
  "Frontiers tree = shFrontiers tree"

text \<open>The loop of \<^verbatim>\<open>mergeFrontier\<close>: pop and combine while the last peak has the current level.\<close>

function merge_loop ::
  "hash_fn \<Rightarrow> MerkleNode list \<Rightarrow> MerkleNode \<Rightarrow> MerkleNode list \<Rightarrow>
     (MerkleNode list \<times> MerkleNode list) result" where
  "merge_loop H frontiers currNode updates =
     (if frontiers \<noteq> [] \<and> mnLevel (last frontiers) = mnLevel currNode then
        rbind (popFrontier frontiers) (\<lambda>(left, frontiers').
          let currNode' = mk_node (mnLevel currNode + 1) (mnIndex currNode div 2)
                (HashPair H ''NODE'' (mnHash left) (Some (mnHash currNode)))
          in merge_loop H frontiers' currNode' (updates @ [currNode']))
      else Inr (frontiers @ [currNode], updates))"
  by pat_completeness auto
termination
  by (relation "measure (\<lambda>(H, frontiers, currNode, updates). length frontiers)")
    (auto simp: popFrontier_def split: if_splits)

declare merge_loop.simps [simp del]

definition mergeFrontier ::
  "hash_fn \<Rightarrow> ShardTree \<Rightarrow> hash \<Rightarrow> (ShardTree \<times> MerkleNode list) result" where
  "mergeFrontier H tree segmentHash =
     (let currNode = mk_node 0 (tLeafCount tree) segmentHash
      in rbind (merge_loop H (shFrontiers tree) currNode [currNode]) (\<lambda>(frontiers, updates).
         Inr (tree\<lparr>shFrontiers := frontiers\<rparr>, updates)))"

text \<open>\<^verbatim>\<open>for right.Level < left.Level\<close>: promotion, with the hash unchanged.\<close>

function promote :: "MerkleNode \<Rightarrow> int \<Rightarrow> MerkleNode list \<Rightarrow> MerkleNode \<times> MerkleNode list" where
  "promote right leftLevel updates =
     (if mnLevel right < leftLevel then
        (let right' = mk_node (mnLevel right + 1) (mnIndex right div 2) (mnHash right)
         in promote right' leftLevel (updates @ [right']))
      else (right, updates))"
  by pat_completeness auto
termination
  by (relation "measure (\<lambda>(right, leftLevel, updates). nat (leftLevel - mnLevel right))") auto

declare promote.simps [simp del]

text \<open>The loop over the remaining peaks, from the second last down to the first.\<close>

fun root_path_loop ::
  "hash_fn \<Rightarrow> MerkleNode list \<Rightarrow> MerkleNode \<Rightarrow> MerkleNode list \<Rightarrow> MerkleNode list \<times> MerkleNode" where
  "root_path_loop H [] right updates = (updates, right)"
| "root_path_loop H (left # lefts) right updates =
     (let (right', updates') = promote right (mnLevel left) updates;
          right'' = mk_node (mnLevel left + 1) (mnIndex left div 2)
            (HashPair H ''NODE'' (mnHash left) (Some (mnHash right')))
      in root_path_loop H lefts right'' (updates' @ [right'']))"

definition materializeRootPath ::
  "hash_fn \<Rightarrow> ShardTree \<Rightarrow> MerkleNode list \<Rightarrow> (MerkleNode list \<times> MerkleNode) result" where
  "materializeRootPath H tree updates =
     (case shFrontiers tree of
        [] \<Rightarrow> Inl (Errorf ''update shard root path error: no node in frontier'')
      | [only] \<Rightarrow> Inr (updates, only)
      | _ \<Rightarrow> Inr (root_path_loop H (tl (rev (shFrontiers tree))) (last (shFrontiers tree)) updates))"

definition ShardTree_Append ::
  "hash_fn \<Rightarrow> ShardTree \<Rightarrow> hash \<Rightarrow> (ShardTree \<times> MerkleNode list) result" where
  "ShardTree_Append H tree segmentHash =
     rbind (mergeFrontier H tree segmentHash) (\<lambda>(tree1, updates).
     rbind (materializeRootPath H tree1 updates) (\<lambda>(updates', shardRoot).
     Inr (tree1\<lparr>tRoot := mnHash shardRoot, tLeafCount := wrap64 (tLeafCount tree1 + 1),
                tHeight := mnLevel shardRoot\<rparr>, updates')))"

section \<open>The frontier as the peaks of the reference tree\<close>

text \<open>
  The peaks over a list of complete nodes at one level: an odd last node is a peak of this
  level, the rest pair up to the next.
\<close>

function peaks :: "hash_fn \<Rightarrow> int \<Rightarrow> hash list \<Rightarrow> MerkleNode list" where
  "peaks H l xs =
     (if xs = [] then []
      else if odd (length xs)
      then peaks H (l + 1) (pair_up H (butlast xs)) @ [mk_node l (int (length xs) - 1) (last xs)]
      else peaks H (l + 1) (pair_up H xs))"
  by pat_completeness auto
termination
proof (relation "measure (\<lambda>(H, l, xs). length xs)", goal_cases)
  case (2 H l xs)
  then show ?case by (cases xs) auto
next
  case (3 H l xs)
  then have "0 < length xs" by simp
  then have "(length xs + 1) div 2 < length xs" using 3 by (cases "length xs = 1") auto
  then show ?case by simp
qed simp

declare peaks.simps [simp del]

lemma peaks_Nil [simp]: "peaks H l [] = []"
  by (subst peaks.simps) simp

lemma peaks_odd:
  "odd (length xs) \<Longrightarrow> peaks H l xs =
     peaks H (l + 1) (pair_up H (butlast xs)) @ [mk_node l (int (length xs) - 1) (last xs)]"
  by (subst peaks.simps) auto

lemma peaks_even: "even (length xs) \<Longrightarrow> peaks H l xs = peaks H (l + 1) (pair_up H xs)"
  by (cases "xs = []") (simp, subst peaks.simps, simp)

lemma peaks_level: "n \<in> set (peaks H l xs) \<Longrightarrow> l \<le> mnLevel n"
proof (induction H l xs rule: peaks.induct)
  case (1 H l xs)
  show ?case
  proof (cases "xs = []")
    case True
    with "1.prems" show ?thesis by simp
  next
    case ne: False
    show ?thesis
    proof (cases "odd (length xs)")
      case True
      with "1.prems" consider "n \<in> set (peaks H (l + 1) (pair_up H (butlast xs)))" | "mnLevel n = l"
        by (auto simp: peaks_odd)
      then show ?thesis using "1.IH"(1) [OF ne True] by cases auto
    next
      case False
      then show ?thesis
        using "1.IH"(2) [OF ne False] "1.prems" peaks_even [of xs H l] by auto
    qed
  qed
qed

lemma peaks_eq_Nil [simp]: "peaks H l xs = [] \<longleftrightarrow> xs = []"
proof (induction H l xs rule: peaks.induct)
  case (1 H l xs)
  show ?case
  proof (cases "xs = [] \<or> odd (length xs)")
    case True
    then show ?thesis by (auto simp: peaks_odd)
  next
    case False
    with "1.IH"(2) peaks_even [of xs H l] show ?thesis by simp
  qed
qed

section \<open>The right edge of the reference tree\<close>

function right_edge :: "hash_fn \<Rightarrow> int \<Rightarrow> hash list \<Rightarrow> MerkleNode list" where
  "right_edge H l xs =
     mk_node l (int (length xs) - 1) (last xs) #
     (if length xs \<le> 1 then [] else right_edge H (l + 1) (pair_up H xs))"
  by pat_completeness auto
termination
  by (relation "measure (\<lambda>(H, l, xs). length xs)") auto

declare right_edge.simps [simp del]

lemma right_edge_single [simp]: "right_edge H l [x] = [mk_node l 0 x]"
  by (subst right_edge.simps) simp

lemma right_edge_step:
  "1 < length xs \<Longrightarrow> right_edge H l xs =
     mk_node l (int (length xs) - 1) (last xs) # right_edge H (l + 1) (pair_up H xs)"
  by (subst right_edge.simps) simp

lemma right_edge_hd: "right_edge H l xs = mk_node l (int (length xs) - 1) (last xs) # tl (right_edge H l xs)"
  by (subst right_edge.simps) (simp add: right_edge.simps [of H l xs])

section \<open>Append against the reference\<close>

lemma promote_ge: "leftLevel \<le> mnLevel right \<Longrightarrow> promote right leftLevel ups = (right, ups)"
  by (subst promote.simps) simp

lemma promote_less:
  "l < leftLevel \<Longrightarrow> promote (mk_node l i h) leftLevel ups =
     promote (mk_node (l + 1) (i div 2) h) leftLevel (ups @ [mk_node (l + 1) (i div 2) h])"
  by (subst promote.simps) (simp add: Let_def)

text \<open>
  Folding the peaks over the complete nodes \<open>xs\<close> of a level together with the incomplete node
  \<open>r\<close> to their right yields the root over \<open>xs @ [r]\<close> and emits the right edge above \<open>r\<close>.
\<close>

lemma root_path_loop_reference:
  "root_path_loop H (rev (peaks H l xs)) (mk_node l (int (length xs)) r) ups =
     (ups @ tl (right_edge H l (xs @ [r])),
      mk_node (l + int (theight (length xs + 1))) 0 (merkle_root H (xs @ [r])))"
proof (induction H l xs arbitrary: r ups rule: peaks.induct)
  case (1 H l xs)
  consider (nil) "xs = []" | (odd) "xs \<noteq> []" "odd (length xs)" | (even) "xs \<noteq> []" "even (length xs)"
    by blast
  then show ?case
  proof cases
    case nil
    then show ?thesis by simp
  next
    case odd
    let ?xs' = "pair_up H (butlast xs)" and ?r' = "HashPair H ''NODE'' (last xs) (Some r)"
    have len: "int (length ?xs') = (int (length xs) - 1) div 2"
      using odd by (auto elim!: oddE)
    have pair: "pair_up H (xs @ [r]) = ?xs' @ [?r']"
      using odd by (simp add: pair_up_snoc_odd)
    have h: "theight (length xs + 1) = Suc (theight (length ?xs' + 1))"
      using odd by (subst theight_step) (auto elim!: oddE)
    have "root_path_loop H (rev (peaks H l xs)) (mk_node l (int (length xs)) r) ups =
        root_path_loop H (rev (peaks H (l + 1) ?xs')) (mk_node (l + 1) (int (length ?xs')) ?r')
          (ups @ [mk_node (l + 1) (int (length ?xs')) ?r'])"
      using odd len by (simp add: peaks_odd promote_ge Let_def)
    also have "\<dots> = ((ups @ [mk_node (l + 1) (int (length ?xs')) ?r']) @ tl (right_edge H (l + 1) (?xs' @ [?r'])),
        mk_node (l + 1 + int (theight (length ?xs' + 1))) 0 (merkle_root H (?xs' @ [?r'])))"
      by (rule "1.IH"(1) [OF odd])
    also have "\<dots> = (ups @ right_edge H (l + 1) (?xs' @ [?r']),
        mk_node (l + int (theight (length xs + 1))) 0 (merkle_root H (xs @ [r])))"
      using odd(1) pair h right_edge_hd [of H "l + 1" "?xs' @ [?r']"] merkle_root_step [of "xs @ [r]" H]
      by simp
    finally show ?thesis
      using odd(1) pair by (simp add: right_edge_step)
  next
    case even
    let ?xs' = "pair_up H xs" and ?n = "mk_node (l + 1) (int (length xs) div 2) r"
    have len: "int (length ?xs') = int (length xs) div 2"
      using even by (auto elim!: evenE)
    have pair: "pair_up H (xs @ [r]) = ?xs' @ [r]"
      using even by (simp add: pair_up_snoc_even)
    have h: "theight (length xs + 1) = Suc (theight (length ?xs' + 1))"
      using even by (subst theight_step) (auto elim!: evenE)
    obtain left lefts where ps: "rev (peaks H (l + 1) ?xs') = left # lefts"
      using even(1) by (cases "rev (peaks H (l + 1) ?xs')") auto
    then have "left \<in> set (peaks H (l + 1) ?xs')" by (metis list.set_intros(1) set_rev)
    then have "l < mnLevel left" using peaks_level by fastforce
    then have "root_path_loop H (rev (peaks H l xs)) (mk_node l (int (length xs)) r) ups =
        root_path_loop H (rev (peaks H (l + 1) ?xs')) (mk_node (l + 1) (int (length ?xs')) r)
          (ups @ [?n])"
      using even(2) len ps by (simp add: peaks_even promote_less)
    also have "\<dots> = ((ups @ [?n]) @ tl (right_edge H (l + 1) (?xs' @ [r])),
        mk_node (l + 1 + int (theight (length ?xs' + 1))) 0 (merkle_root H (?xs' @ [r])))"
      using "1.IH"(2) [OF even(1)] even(2) by simp
    also have "\<dots> = (ups @ right_edge H (l + 1) (?xs' @ [r]),
        mk_node (l + int (theight (length xs + 1))) 0 (merkle_root H (xs @ [r])))"
      using even(1) pair h len right_edge_hd [of H "l + 1" "?xs' @ [r]"]
        merkle_root_step [of "xs @ [r]" H]
      by simp
    finally show ?thesis
      using even(1) pair by (simp add: right_edge_step)
  qed
qed

text \<open>Merging a new leaf is the increment of the binary counter of peaks.\<close>

lemma merge_loop_reference:
  "\<exists>ups'. merge_loop H (peaks H l xs) (mk_node l (int (length xs)) x) ups =
       Inr (peaks H l (xs @ [x]), ups') \<and>
     root_path_loop H (tl (rev (peaks H l (xs @ [x])))) (last (peaks H l (xs @ [x]))) ups' =
       (ups @ tl (right_edge H l (xs @ [x])),
        mk_node (l + int (theight (length xs + 1))) 0 (merkle_root H (xs @ [x])))"
proof (induction H l xs arbitrary: x ups rule: peaks.induct)
  case (1 H l xs)
  show ?case
  proof (cases "odd (length xs)")
    case True
    then have ne: "xs \<noteq> []" by auto
    let ?xs' = "pair_up H (butlast xs)" and ?x' = "HashPair H ''NODE'' (last xs) (Some x)"
    let ?n = "mk_node (l + 1) (int (length ?xs')) ?x'"
    have len: "int (length ?xs') = int (length xs) div 2"
      using True by (auto elim!: oddE)
    have pair: "pair_up H (xs @ [x]) = ?xs' @ [?x']"
      using True by (simp add: pair_up_snoc_odd)
    have h: "theight (length xs + 1) = Suc (theight (length ?xs' + 1))"
      using True by (subst theight_step) (auto elim!: oddE)
    have pk: "peaks H l (xs @ [x]) = peaks H (l + 1) (?xs' @ [?x'])"
      using True pair by (simp add: peaks_even)
    have "merge_loop H (peaks H l xs) (mk_node l (int (length xs)) x) ups =
        merge_loop H (peaks H (l + 1) ?xs') ?n (ups @ [?n])"
      using True len
      by (subst merge_loop.simps) (simp add: peaks_odd popFrontier_def Let_def)
    moreover have "(ups @ [?n]) @ tl (right_edge H (l + 1) (?xs' @ [?x'])) =
        ups @ tl (right_edge H l (xs @ [x]))"
      using ne pair right_edge_hd [of H "l + 1" "?xs' @ [?x']"] by (simp add: right_edge_step)
    moreover have "merkle_root H (?xs' @ [?x']) = merkle_root H (xs @ [x])"
      using ne pair merkle_root_step [of "xs @ [x]" H] by simp
    ultimately show ?thesis
      using "1.IH"(1) [OF ne True, of ?x' "ups @ [?n]"] pk h by (simp add: algebra_simps)
  next
    case False
    then have pk: "peaks H l (xs @ [x]) = peaks H l xs @ [mk_node l (int (length xs)) x]"
      using peaks_even [of xs H l] by (simp add: peaks_odd)
    have "mnLevel (last (peaks H l xs)) \<noteq> l" if "xs \<noteq> []"
    proof -
      have "last (peaks H l xs) \<in> set (peaks H (l + 1) (pair_up H xs))"
        using that False peaks_even [of xs H l] by (metis last_in_set peaks_eq_Nil pair_up_eq_Nil)
      then show ?thesis using peaks_level by fastforce
    qed
    then have "merge_loop H (peaks H l xs) (mk_node l (int (length xs)) x) ups =
        Inr (peaks H l (xs @ [x]), ups)"
      using pk by (subst merge_loop.simps) auto
    then show ?thesis
      using pk root_path_loop_reference by simp
  qed
qed

section \<open>Representation and append\<close>

text \<open>\<open>shard_repr H ls t\<close>: the tree \<open>t\<close> is the state after appending the leaves \<open>ls\<close>.\<close>

definition shard_repr :: "hash_fn \<Rightarrow> hash list \<Rightarrow> ShardTree \<Rightarrow> bool" where
  "shard_repr H ls t \<longleftrightarrow>
     shFrontiers t = peaks H 0 ls \<and> tLeafCount t = int (length ls) \<and>
     tRoot t = merkle_root H ls \<and> tHeight t = int (theight (length ls))"

lemma merkle_root_Nil [simp]: "merkle_root H [] = 0"
  by (subst merkle_root.simps) simp

lemma NewShardTree_repr: "shard_repr H [] (NewShardTree r s)"
  by (simp add: shard_repr_def NewShardTree_def)

theorem ShardTree_Append_reference:
  assumes "shard_repr H ls t" and "int (length ls) < MaxInt64"
  obtains t' where "ShardTree_Append H t h = Inr (t', right_edge H 0 (ls @ [h]))"
    and "shard_repr H (ls @ [h]) t'" and "tTreeID t' = tTreeID t"
proof -
  let ?p = "peaks H 0 (ls @ [h])" and ?n = "mk_node 0 (int (length ls)) h"
  obtain ups' where m: "merge_loop H (peaks H 0 ls) ?n [?n] = Inr (?p, ups')"
    and r: "root_path_loop H (tl (rev ?p)) (last ?p) ups' =
      ([?n] @ tl (right_edge H 0 (ls @ [h])),
       mk_node (int (theight (length ls + 1))) 0 (merkle_root H (ls @ [h])))"
    using merge_loop_reference [of H 0 ls h "[?n]"] by auto
  have edge: "[?n] @ tl (right_edge H 0 (ls @ [h])) = right_edge H 0 (ls @ [h])"
    using right_edge_hd [of H 0 "ls @ [h]"] by simp
  have mat: "materializeRootPath H (t\<lparr>shFrontiers := ?p\<rparr>) ups' =
      Inr (root_path_loop H (tl (rev ?p)) (last ?p) ups')"
    by (cases ?p rule: list.exhaust [case_names Nil Cons])
      (auto simp: materializeRootPath_def split: list.splits)
  have w: "wrap64 (int (length ls) + 1) = int (length ls) + 1"
    using assms(2) by (intro wrap64_id) (auto simp: int64_def)
  let ?t' = "t\<lparr>shFrontiers := ?p, tRoot := merkle_root H (ls @ [h]),
    tLeafCount := int (length ls) + 1, tHeight := int (theight (length ls + 1))\<rparr>"
  have "ShardTree_Append H t h = Inr (?t', right_edge H 0 (ls @ [h]))"
    using assms(1) m mat r edge w
    by (simp add: ShardTree_Append_def mergeFrontier_def shard_repr_def)
  moreover have "shard_repr H (ls @ [h]) ?t'"
    by (simp add: shard_repr_def)
  ultimately show thesis by (rule that) simp
qed

section \<open>The persisted tree\<close>

lemma right_edge_alt:
  "xs \<noteq> [] \<Longrightarrow> right_edge H l xs =
     map (\<lambda>k. mk_node (l + int k) (int (level_width (length xs) k) - 1) (last (mlevel H xs k)))
       [0..<Suc (theight (length xs))]"
proof (induction H l xs rule: right_edge.induct)
  case (1 H l xs)
  show ?case
  proof (cases "length xs \<le> 1")
    case True
    with "1.prems" obtain x where "xs = [x]" by (cases xs) auto
    then show ?thesis by simp
  next
    case False
    have "right_edge H (l + 1) (pair_up H xs) =
        map (\<lambda>k. mk_node (l + 1 + int k) (int (level_width (length (pair_up H xs)) k) - 1)
          (last (mlevel H (pair_up H xs) k))) [0..<Suc (theight (length (pair_up H xs)))]"
      using False "1.prems" by (intro "1.IH") auto
    then show ?thesis
      using False
      by (simp add: right_edge_step theight_step mlevel_Suc algebra_simps upt_conv_Cons map_Suc_upt [symmetric]
          comp_def del: upt_Suc)
  qed
qed

text \<open>The nodes of the tree after an append: the new right edge, and the old nodes elsewhere.\<close>

lemma right_edge_is_node:
  assumes "xs \<noteq> []" and "n \<in> set (right_edge H 0 xs)"
  shows "is_node H xs n"
proof -
  obtain k where k: "k \<le> theight (length xs)"
    and n: "n = mk_node (int k) (int (level_width (length xs) k) - 1) (last (mlevel H xs k))"
    using assms by (auto simp: right_edge_alt less_Suc_eq_le simp del: upt_Suc)
  have pos: "0 < level_width (length xs) k"
    using assms(1) by (intro level_width_pos) auto
  then have "node_of H xs (int k) (int (level_width (length xs) k - 1)) =
      Some (mlevel H xs k ! (level_width (length xs) k - 1))"
    using k by (intro node_of_int) auto
  with pos n assms(1) show ?thesis
    by (simp add: is_node_def last_conv_nth of_nat_diff)
qed

lemma node_of_snoc_off_edge:
  assumes "(l, i) \<notin> (\<lambda>n. (mnLevel n, mnIndex n)) ` set (right_edge H 0 (ls @ [h]))"
  shows "node_of H (ls @ [h]) l i = node_of H ls l i"
proof (cases "0 \<le> l \<and> l \<le> int (theight (length ls + 1)) \<and> 0 \<le> i")
  case False
  then show ?thesis
    using theight_Suc_bounds [of "length ls"] by (auto simp: node_of_def)
next
  case True
  define k where "k = nat l"
  define j where "j = nat i"
  let ?w = "level_width (length ls + 1) k"
  have lk: "l = int k" and ij: "i = int j" and kt: "k \<le> theight (length ls + 1)"
    using True by (auto simp: k_def j_def)
  have "(int k, int ?w - 1) \<in> (\<lambda>n. (mnLevel n, mnIndex n)) ` set (right_edge H 0 (ls @ [h]))"
    using kt by (force simp: right_edge_alt simp del: upt_Suc)
  then have ne: "int j \<noteq> int ?w - 1" using assms lk ij by auto
  show ?thesis
  proof (cases "j + 1 < ?w")
    case True
    then have "k \<le> theight (length ls)"
      using level_width_gt_1 [of "length ls + 1" k] theight_Suc_bounds [of "length ls"] by simp
    moreover note mlevel_snoc_nth(1) [OF True] mlevel_snoc_nth(2) [OF True, of H h]
    ultimately show ?thesis
      using True kt lk ij node_of_int [of k ls j H] node_of_int [of k "ls @ [h]" j H] by simp
  next
    case False
    then have "?w \<le> j" using ne by linarith
    moreover have "level_width (length ls) k \<le> ?w" by (rule level_width_Suc_mono)
    ultimately show ?thesis by (simp add: node_of_def lk ij)
  qed
qed

theorem upsert_right_edge:
  assumes "\<forall>l i. S (l, i) = node_of H ls l i"
  shows "upsert_nodes S (right_edge H 0 (ls @ [h])) (l, i) = node_of H (ls @ [h]) l i"
proof -
  let ?f = "\<lambda>(l, i). node_of H (ls @ [h]) l i"
  have "\<forall>n \<in> set (right_edge H 0 (ls @ [h])). ?f (mnLevel n, mnIndex n) = Some (mnHash n)"
    using right_edge_is_node [of "ls @ [h]"] by (auto simp: is_node_def)
  from upsert_nodes_spec [OF this, of S "(l, i)"] show ?thesis
    using assms node_of_snoc_off_edge [of l i H ls h] by auto
qed

text \<open>A run: append one leaf after the other, writing out the nodes of each append.\<close>

fun append_all ::
  "hash_fn \<Rightarrow> ShardTree \<Rightarrow> node_store \<Rightarrow> hash list \<Rightarrow> (ShardTree \<times> node_store) result" where
  "append_all H t S [] = Inr (t, S)"
| "append_all H t S (h # hs) =
     rbind (ShardTree_Append H t h) (\<lambda>(t', ns). append_all H t' (upsert_nodes S ns) hs)"

lemma append_all_reference:
  assumes "shard_repr H ls t" and "\<forall>l i. S (l, i) = node_of H ls l i"
    and "int (length ls + length hs) \<le> MaxInt64"
  shows "\<exists>t' S'. append_all H t S hs = Inr (t', S') \<and> shard_repr H (ls @ hs) t' \<and>
    (\<forall>l i. S' (l, i) = node_of H (ls @ hs) l i)"
  using assms
proof (induction hs arbitrary: ls t S)
  case (Cons h hs)
  obtain t1 where t1: "ShardTree_Append H t h = Inr (t1, right_edge H 0 (ls @ [h]))"
    "shard_repr H (ls @ [h]) t1"
    using ShardTree_Append_reference [OF Cons.prems(1), of h] Cons.prems(3) by auto
  have "\<forall>l i. upsert_nodes S (right_edge H 0 (ls @ [h])) (l, i) = node_of H (ls @ [h]) l i"
    using upsert_right_edge [OF Cons.prems(2)] by blast
  from Cons.IH [OF t1(2) this] Cons.prems(3) t1(1) show ?case by simp
qed auto

end
