(* ===== verification/Level_Grid.thy ===== *)
theory Level_Grid
  imports Merkle_Tree
begin

text \<open>
  The level grid shared by the fixed-size trees of \<^verbatim>\<open>internal/hmf/region_tree.go\<close> and
  \<^verbatim>\<open>internal/hmf/global_tree.go\<close>: a slice of levels, each a slice of nodes, built bottom-up and
  recomputed along one path. The two files repeat the same loops; the loops are defined once here
  and used by both components. The last section is the interface both trees satisfy.
\<close>

section \<open>The loops\<close>

text \<open>\<^verbatim>\<open>bits.Len\<close> of the standard library.\<close>

fun bits_Len :: "nat \<Rightarrow> nat" where
  "bits_Len n = (if n = 0 then 0 else Suc (bits_Len (n div 2)))"

declare bits_Len.simps [simp del]

text \<open>The allocation loop: \<^verbatim>\<open>nodeCount\<close> zero nodes per level, halved upwards.\<close>

abbreviation zero_node :: MerkleNode where
  "zero_node \<equiv> mk_node 0 0 0"

fun alloc_levels :: "nat \<Rightarrow> nat \<Rightarrow> MerkleNode list list" where
  "alloc_levels 0 nodeCount = []"
| "alloc_levels (Suc k) nodeCount =
     replicate nodeCount zero_node # alloc_levels k ((nodeCount + 1) div 2)"

text \<open>A parent from the slice of its children's level; a missing right child promotes the left.\<close>

definition grid_parent :: "hash_fn \<Rightarrow> int \<Rightarrow> int \<Rightarrow> MerkleNode list \<Rightarrow> MerkleNode result" where
  "grid_parent H level parentIndex children =
     (let leftIndex = parentIndex * 2; rightIndex = leftIndex + 1
      in rbind (slice_at children leftIndex) (\<lambda>left.
         if rightIndex < int (length children)
         then rbind (slice_at children rightIndex) (\<lambda>right.
           Inr (mk_node level parentIndex (HashPair H ''NODE'' (mnHash left) (Some (mnHash right)))))
         else Inr (mk_node level parentIndex (mnHash left))))"

text \<open>\<^verbatim>\<open>Build\<close>: the loop that stores the leaves, the loop over one level, the loop over the levels.\<close>

fun put_leaf ::
  "MerkleNode list list \<times> MerkleNode list \<Rightarrow> nat \<times> hash \<Rightarrow>
     (MerkleNode list list \<times> MerkleNode list) result" where
  "put_leaf (levels, updates) (i, h) =
     (let leaf = mk_node 0 (int i) h
      in rbind (slice_at levels 0) (\<lambda>row.
         rbind (slice_set row (int i) leaf) (\<lambda>row'.
         Inr (levels[0 := row'], updates @ [leaf]))))"

definition put_leaves ::
  "hash list \<Rightarrow> MerkleNode list list \<Rightarrow> (MerkleNode list list \<times> MerkleNode list) result" where
  "put_leaves hashes levels = rfold put_leaf (levels, []) (enumerate 0 hashes)"

definition build_row ::
  "hash_fn \<Rightarrow> int \<Rightarrow> MerkleNode list \<Rightarrow> MerkleNode list \<times> MerkleNode list \<Rightarrow> nat list \<Rightarrow>
     (MerkleNode list \<times> MerkleNode list) result" where
  "build_row H level children =
     rfold (\<lambda>(row, updates) parentIndex.
         rbind (grid_parent H level (int parentIndex) children) (\<lambda>n.
         rbind (slice_set row (int parentIndex) n) (\<lambda>row'.
         Inr (row', updates @ [n]))))"

definition build_rows ::
  "hash_fn \<Rightarrow> MerkleNode list list \<times> MerkleNode list \<Rightarrow> nat list \<Rightarrow>
     (MerkleNode list list \<times> MerkleNode list) result" where
  "build_rows H =
     rfold (\<lambda>(levels, updates) level.
         rbind (slice_at levels (int level)) (\<lambda>row.
         rbind (slice_at levels (int level - 1)) (\<lambda>children.
         rbind (build_row H (int level) children (row, updates) [0..<length row])
           (\<lambda>(row', updates'). Inr (levels[level := row'], updates')))))"

text \<open>
  One iteration of the loop of \<^verbatim>\<open>recomputePath\<close>, after its guards: the parent of \<open>index\<close> is
  recomputed and stored; the sibling of \<open>index\<close>, where there is one, and the parent are emitted.
\<close>

definition path_step ::
  "hash_fn \<Rightarrow> nat \<Rightarrow> MerkleNode list list \<times> int \<times> MerkleNode list \<Rightarrow>
     (MerkleNode list list \<times> int \<times> MerkleNode list) result" where
  "path_step H level = (\<lambda>(levels, index, updates).
     let parentIndex = index div 2; leftIndex = parentIndex * 2; rightIndex = leftIndex + 1
     in rbind (slice_at levels (int level - 1)) (\<lambda>children.
        rbind (grid_parent H (int level) parentIndex children) (\<lambda>parent.
        let siblingIndex = (if index mod 2 = 0 then rightIndex else leftIndex)
        in rbind (if siblingIndex < int (length children)
                  then rbind (slice_at children siblingIndex) (\<lambda>s. Inr (updates @ [s]))
                  else Inr updates) (\<lambda>updates'.
           rbind (slice_at levels (int level)) (\<lambda>row.
           rbind (slice_set row parentIndex parent) (\<lambda>row'.
           Inr (levels[level := row'], parentIndex, updates' @ [parent])))))))"

text \<open>The loop of \<^verbatim>\<open>recomputePath\<close> without further guards.\<close>

definition path_steps ::
  "hash_fn \<Rightarrow> MerkleNode list list \<times> int \<times> MerkleNode list \<Rightarrow> nat list \<Rightarrow>
     (MerkleNode list list \<times> int \<times> MerkleNode list) result" where
  "path_steps H = rfold (\<lambda>s level. path_step H level s)"

section \<open>Allocation and build against the reference\<close>

lemma bits_Len_0 [simp]: "bits_Len 0 = 0"
  by (subst bits_Len.simps) simp

lemma bits_Len_pos: "0 < n \<Longrightarrow> bits_Len n = Suc (bits_Len (n div 2))"
  by (subst bits_Len.simps) simp

text \<open>The height computed by \<^verbatim>\<open>bits.Len(n - 1)\<close> is the number of halvings that leave one node.\<close>

lemma bits_Len_theight: "0 < n \<Longrightarrow> bits_Len (n - 1) = theight n"
proof (induction n rule: theight.induct)
  case (1 n)
  show ?case
  proof (cases "n \<le> 1")
    case False
    have "(n + 1) div 2 - 1 = (n - 1) div 2" using False by auto
    with "1.IH" [OF False] False show ?thesis
      by (simp add: bits_Len_pos theight_step)
  qed (use 1 in auto)
qed

lemma length_alloc_levels [simp]: "length (alloc_levels k n) = k"
  by (induction k n rule: alloc_levels.induct) auto

lemma nth_alloc_levels: "j < k \<Longrightarrow> alloc_levels k n ! j = replicate (level_width n j) zero_node"
proof (induction k n arbitrary: j rule: alloc_levels.induct)
  case (2 k n)
  then show ?case by (cases j) auto
qed simp

lemma grid_parent_reference:
  assumes "p < (length hs + 1) div 2"
  shows "grid_parent H l (int p) (nodes_at l' 0 hs) = Inr (mk_node l (int p) (pair_up H hs ! p))"
proof -
  have "2 * p < length hs" using assms by auto
  then have l: "slice_at (nodes_at l' 0 hs) (int (2 * p)) = Inr (mk_node l' (int (2 * p)) (hs ! (2 * p)))"
    by (subst slice_at_int) (simp_all add: nth_nodes_at)
  have r: "slice_at (nodes_at l' 0 hs) (int (2 * p + 1)) =
      Inr (mk_node l' (int (2 * p + 1)) (hs ! (2 * p + 1)))" if "2 * p + 1 < length hs"
    using that by (subst slice_at_int) (simp_all add: nth_nodes_at)
  show ?thesis
  proof (cases "2 * p + 1 < length hs")
    case True
    with l r [OF True] assms show ?thesis
      by (simp add: grid_parent_def nth_pair_up mult.commute add.commute [of 1])
  next
    case False
    then have "\<not> 2 * int p + 1 < int (length hs)" by linarith
    with False l assms show ?thesis
      by (simp add: grid_parent_def nth_pair_up mult.commute)
  qed
qed

lemma build_row_reference:
  assumes "length row = (length hs + 1) div 2" and "k \<le> length row"
  shows "build_row H l (nodes_at l' 0 hs) (row, ups) [0..<k] =
    Inr (take k (nodes_at l 0 (pair_up H hs)) @ drop k row,
         ups @ take k (nodes_at l 0 (pair_up H hs)))"
  using assms(2)
proof (induction k)
  case 0
  then show ?case by (simp add: build_row_def)
next
  case (Suc k)
  let ?ns = "nodes_at l 0 (pair_up H hs)" and ?n = "mk_node l (int k) (pair_up H hs ! k)"
  have k: "k < length row" "k < (length hs + 1) div 2" "k < length ?ns"
    using Suc.prems assms(1) by auto
  have n: "?ns ! k = ?n" using k by (simp add: nth_nodes_at)
  have "(take k ?ns @ drop k row)[k := ?n] = take (Suc k) ?ns @ drop (Suc k) row"
    using k n by (simp add: list_update_append take_Suc_conv_app_nth Cons_nth_drop_Suc [symmetric])
  moreover have "slice_set (take k ?ns @ drop k row) (int k) ?n = Inr ((take k ?ns @ drop k row)[k := ?n])"
    using k by (subst slice_set_int) auto
  ultimately show ?case
    using Suc.IH Suc.prems k n
    by (simp add: build_row_def rfold_append grid_parent_reference take_Suc_conv_app_nth)
qed

lemma put_leaves_reference:
  assumes "levels \<noteq> []" and "length (hd levels) = length hs" and "k \<le> length hs"
  shows "put_leaves (take k hs) levels =
    Inr ((take k (nodes_at 0 0 hs) @ drop k (hd levels)) # tl levels, take k (nodes_at 0 0 hs))"
  using assms(3)
proof (induction k)
  case 0
  then show ?case using assms(1) by (simp add: put_leaves_def)
next
  case (Suc k)
  let ?ns = "nodes_at 0 0 hs" and ?n = "mk_node 0 (int k) (hs ! k)"
  have k: "k < length hs" "k < length (hd levels)" "?ns ! k = ?n"
    using Suc.prems assms(2) by (auto simp: nth_nodes_at)
  have e: "enumerate 0 (take (Suc k) hs) = enumerate 0 (take k hs) @ [(k, hs ! k)]"
    using k by (simp add: take_Suc_conv_app_nth enumerate_append_eq)
  have "(take k ?ns @ drop k (hd levels))[k := ?n] = take (Suc k) ?ns @ drop (Suc k) (hd levels)"
    using k by (simp add: list_update_append take_Suc_conv_app_nth Cons_nth_drop_Suc [symmetric])
  moreover have "slice_set (take k ?ns @ drop k (hd levels)) (int k) ?n =
      Inr ((take k ?ns @ drop k (hd levels))[k := ?n])"
    using k by (subst slice_set_int) auto
  ultimately have "put_leaf ((take k ?ns @ drop k (hd levels)) # tl levels, take k ?ns) (k, hs ! k) =
      Inr ((take (Suc k) ?ns @ drop (Suc k) (hd levels)) # tl levels, take (Suc k) ?ns)"
    using k by (simp add: slice_at_def Let_def take_Suc_conv_app_nth)
  moreover have "put_leaves (take (Suc k) hs) levels =
      rbind (put_leaves (take k hs) levels) (\<lambda>s. put_leaf s (k, hs ! k))"
    unfolding put_leaves_def e by (rule rfold_snoc)
  ultimately show ?case
    using Suc.IH Suc.prems by simp
qed

text \<open>Every level as wide as the reference level: what the allocation sets up and no loop changes.\<close>

definition grid_shape :: "nat \<Rightarrow> MerkleNode list list \<Rightarrow> bool" where
  "grid_shape n levels \<longleftrightarrow>
     length levels = Suc (theight n) \<and> (\<forall>k \<le> theight n. length (levels ! k) = level_width n k)"

lemma grid_shape_alloc: "grid_shape n (alloc_levels (Suc (theight n)) n)"
  by (auto simp: grid_shape_def nth_alloc_levels simp del: alloc_levels.simps)

lemma grid_shape_level_lists: "grid_shape (length hs) (level_lists H 0 hs)"
  by (simp add: grid_shape_def length_level_lists nth_level_lists)

lemma build_rows_reference:
  assumes "grid_shape (length hs) levels" and "levels ! 0 = nodes_at 0 0 hs"
    and "k \<le> theight (length hs)"
  shows "build_rows H (levels, nodes_at 0 0 hs) [1..<Suc k] =
    Inr (take (Suc k) (level_lists H 0 hs) @ drop (Suc k) levels,
         concat (take (Suc k) (level_lists H 0 hs)))"
  using assms(3)
proof (induction k)
  case 0
  have "levels \<noteq> []" using assms(1) by (auto simp: grid_shape_def)
  with assms(2) show ?case
    by (cases levels; cases "level_lists H 0 hs")
      (use hd_level_lists [of H 0 hs] in \<open>auto simp: build_rows_def\<close>)
next
  case (Suc k)
  let ?L = "level_lists H 0 hs" and ?levels = "take (Suc k) (level_lists H 0 hs) @ drop (Suc k) levels"
  have len: "Suc k < length levels" "Suc k < length ?L"
    using Suc.prems assms(1) by (auto simp: grid_shape_def length_level_lists)
  have row: "length (levels ! Suc k) = (level_width (length hs) k + 1) div 2"
    using Suc.prems assms(1) unfolding grid_shape_def level_width_Suc' [symmetric] by blast
  have ch: "?levels ! k = nodes_at (int k) 0 (mlevel H hs k)"
    using Suc.prems len by (simp add: nth_append nth_level_lists)
  have at: "slice_at ?levels (int (Suc k)) = Inr (levels ! Suc k)"
    "slice_at ?levels (int (Suc k) - 1) = Inr (nodes_at (int k) 0 (mlevel H hs k))"
    using len ch slice_at_int [of "Suc k" ?levels] slice_at_int [of k ?levels]
    by (auto simp: nth_append)
  have new: "?L ! Suc k = nodes_at (int (Suc k)) 0 (pair_up H (mlevel H hs k))"
    using Suc.prems by (simp add: nth_level_lists mlevel_Suc')
  have "build_row H (int (Suc k)) (nodes_at (int k) 0 (mlevel H hs k)) (levels ! Suc k, ups)
      [0..<length (levels ! Suc k)] = Inr (?L ! Suc k, ups @ ?L ! Suc k)" for ups
    using row new build_row_reference [of "levels ! Suc k" "mlevel H hs k" "length (levels ! Suc k)"]
    by simp
  moreover have "?levels[Suc k := ?L ! Suc k] = take (Suc (Suc k)) ?L @ drop (Suc (Suc k)) levels"
    using len by (simp add: list_update_append take_Suc_conv_app_nth Cons_nth_drop_Suc [symmetric])
  ultimately show ?case
    using Suc.IH Suc.prems len at
    by (simp add: build_rows_def rfold_append take_Suc_conv_app_nth)
qed

text \<open>The whole of \<^verbatim>\<open>Build\<close>: the grid becomes the reference levels, and all nodes are emitted.\<close>

lemma build_reference:
  assumes "grid_shape (length hs) levels"
  shows "rbind (put_leaves hs levels) (\<lambda>s. build_rows H s [1..<Suc (theight (length hs))]) =
    Inr (level_lists H 0 hs, tree_nodes H hs)"
proof -
  have ne: "levels \<noteq> []" and len: "length (hd levels) = length hs"
    using assms by (auto simp: grid_shape_def) (cases levels; force)
  have put: "put_leaves hs levels = Inr (nodes_at 0 0 hs # tl levels, nodes_at 0 0 hs)"
    using put_leaves_reference [OF ne len order_refl] len by simp
  have "grid_shape (length hs) (nodes_at 0 0 hs # tl levels)"
    using assms ne by (auto simp: grid_shape_def nth_Cons nth_tl split: nat.splits)
  from build_rows_reference [OF this, of "theight (length hs)" H] show ?thesis
    using put assms ne by (simp add: grid_shape_def length_level_lists tree_nodes_def)
qed

section \<open>One path against the reference\<close>

lemma pair_up_list_update:
  assumes "i < length xs"
  shows "pair_up H (xs[i := v]) = (pair_up H xs)[i div 2 := pair_up H (xs[i := v]) ! (i div 2)]"
proof (rule nth_equalityI)
  fix j
  assume j: "j < length (pair_up H (xs[i := v]))"
  show "pair_up H (xs[i := v]) ! j =
      (pair_up H xs)[i div 2 := pair_up H (xs[i := v]) ! (i div 2)] ! j"
  proof (cases "j = i div 2")
    case False
    then have "2 * j \<noteq> i" "2 * j + 1 \<noteq> i" by auto
    then have "xs[i := v] ! (2 * j) = xs ! (2 * j)" "xs[i := v] ! (2 * j + 1) = xs ! (2 * j + 1)"
      by (metis nth_list_update_neq)+
    with False j show ?thesis by (simp add: nth_pair_up)
  qed (use j in simp)
qed simp

lemma mlevel_list_update:
  assumes "i < length xs"
  shows "mlevel H (xs[i := v]) k =
    (mlevel H xs k)[i div 2 ^ k := mlevel H (xs[i := v]) k ! (i div 2 ^ k)]"
proof (induction k)
  case 0
  then show ?case using assms by simp
next
  case (Suc k)
  let ?w = "mlevel H (xs[i := v]) k ! (i div 2 ^ k)"
  have "i div 2 ^ k < length (mlevel H xs k)"
    using level_width_div [OF assms] by simp
  from pair_up_list_update [OF this, of H ?w] have
    "pair_up H (mlevel H (xs[i := v]) k) =
      (pair_up H (mlevel H xs k))[i div 2 ^ k div 2 := pair_up H (mlevel H (xs[i := v]) k) ! (i div 2 ^ k div 2)]"
    using Suc.IH by metis
  moreover have "i div 2 ^ k div 2 = i div 2 ^ Suc k"
    by (metis div_mult2_eq power_Suc2)
  ultimately show ?case
    by (simp only: mlevel_Suc')
qed

text \<open>
  What an update of leaf \<open>i\<close> emits above the leaf, level by level: the sibling on the path where
  there is one, then the ancestor.
\<close>

definition sibling :: "nat \<Rightarrow> nat" where
  "sibling i = (if even i then i + 1 else i - 1)"

definition ref_node :: "hash_fn \<Rightarrow> hash list \<Rightarrow> nat \<Rightarrow> nat \<Rightarrow> MerkleNode" where
  "ref_node H hs l i = mk_node (int l) (int i) (mlevel H hs l ! i)"

definition path_level :: "hash_fn \<Rightarrow> hash list \<Rightarrow> nat \<Rightarrow> nat \<Rightarrow> MerkleNode list" where
  "path_level H hs i k =
     (let s = sibling (i div 2 ^ k)
      in (if s < level_width (length hs) k then [ref_node H hs k s] else []) @
         [ref_node H hs (Suc k) (i div 2 ^ Suc k)])"

definition update_path :: "hash_fn \<Rightarrow> hash list \<Rightarrow> nat \<Rightarrow> MerkleNode list" where
  "update_path H hs i =
     ref_node H hs 0 i # concat (map (path_level H hs i) [0..<theight (length hs)])"

text \<open>
  The grid between two iterations: the levels below \<open>k\<close> are those of the new tree, the others
  still those of the old one.
\<close>

definition mixed_grid :: "hash_fn \<Rightarrow> hash list \<Rightarrow> hash list \<Rightarrow> nat \<Rightarrow> MerkleNode list list" where
  "mixed_grid H new old k = take k (level_lists H 0 new) @ drop k (level_lists H 0 old)"

lemma mixed_grid_nth:
  assumes "length new = length old" and "j \<le> theight (length old)"
  shows "mixed_grid H new old k ! j = nodes_at (int j) 0 (mlevel H (if j < k then new else old) j)"
  using assms by (auto simp: mixed_grid_def nth_append length_level_lists nth_level_lists)

lemma length_mixed_grid:
  "length new = length old \<Longrightarrow> length (mixed_grid H new old k) = Suc (theight (length old))"
  by (auto simp: mixed_grid_def length_level_lists)

lemma path_step_reference:
  fixes v :: hash
  assumes i: "i < length hs" and k: "k < theight (length hs)"
  defines "new \<equiv> hs[i := v]"
  shows "path_step H (Suc k) (mixed_grid H new hs (Suc k), int (i div 2 ^ k), ups) =
    Inr (mixed_grid H new hs (Suc (Suc k)), int (i div 2 ^ Suc k), ups @ path_level H new i k)"
proof -
  let ?g = "mixed_grid H new hs (Suc k)" and ?c = "mlevel H new k"
    and ?j = "i div 2 ^ k" and ?p = "i div 2 ^ Suc k"
  have len: "length new = length hs" by (simp add: new_def)
  have p: "?p = ?j div 2" by (metis div_mult2_eq power_Suc2)
  have j: "?j < level_width (length hs) k" "?p < level_width (length hs) (Suc k)"
    using i by (auto intro: level_width_div simp del: power_Suc level_width.simps)
  have lg: "length ?g = Suc (theight (length hs))" using len by (rule length_mixed_grid)
  have ch: "slice_at ?g (int (Suc k) - 1) = Inr (nodes_at (int k) 0 ?c)"
    using slice_at_int [of k ?g] k lg mixed_grid_nth [OF len, of k H "Suc k"] by simp
  have row: "slice_at ?g (int (Suc k)) = Inr (nodes_at (int (Suc k)) 0 (mlevel H hs (Suc k)))"
    using slice_at_int [of "Suc k" ?g] k lg mixed_grid_nth [OF len, of "Suc k" H "Suc k"] by simp
  have par: "grid_parent H (int (Suc k)) (int ?p) (nodes_at (int k) 0 ?c) =
      Inr (ref_node H new (Suc k) ?p)"
    using j len grid_parent_reference [of ?p ?c H "int (Suc k)" "int k"]
    by (simp add: ref_node_def mlevel_Suc' level_width_Suc' del: power_Suc level_width.simps)
  have "mlevel H new (Suc k) = (mlevel H hs (Suc k))[?p := mlevel H new (Suc k) ! ?p]"
    unfolding new_def by (rule mlevel_list_update [OF i])
  then have set: "slice_set (nodes_at (int (Suc k)) 0 (mlevel H hs (Suc k))) (int ?p)
      (ref_node H new (Suc k) ?p) = Inr (nodes_at (int (Suc k)) 0 (mlevel H new (Suc k)))"
    using j list_update_nodes_at [of ?p "mlevel H hs (Suc k)" "int (Suc k)" 0]
    by (subst slice_set_int) (simp_all add: ref_node_def del: power_Suc level_width.simps)
  have grid: "?g[Suc k := nodes_at (int (Suc k)) 0 (mlevel H new (Suc k))] =
      mixed_grid H new hs (Suc (Suc k))"
    using k len lg
    by (intro nth_equalityI)
      (auto simp: length_mixed_grid nth_list_update mixed_grid_nth less_Suc_eq_le less_Suc_eq)
  let ?s = "sibling ?j"
  have s: "(if int ?j mod 2 = 0 then int ?p * 2 + 1 else int ?p * 2) = int ?s"
  proof (cases "even ?j")
    case True
    then have "int ?j mod 2 = 0" by presburger
    with True show ?thesis unfolding p sibling_def by (auto elim!: evenE)
  next
    case False
    then have "int ?j mod 2 \<noteq> 0" by presburger
    with False show ?thesis unfolding p sibling_def by (auto elim!: oddE)
  qed
  have emit: "(if int ?s < int (length (nodes_at (int k) 0 ?c))
      then rbind (slice_at (nodes_at (int k) 0 ?c) (int ?s)) (\<lambda>x. Inr (ups @ [x])) else Inr ups) =
      Inr (ups @ (if ?s < level_width (length new) k then [ref_node H new k ?s] else []))"
    by (simp add: nth_nodes_at ref_node_def)
  have jp: "int ?j div 2 = int ?p" unfolding p by simp
  show ?thesis
    unfolding path_step_def Let_def prod.case jp s ch rbind.simps par emit row set grid
    by (simp add: path_level_def Let_def)
qed

text \<open>The top of the reference levels is the root.\<close>

lemma level_lists_top:
  assumes "hs \<noteq> []"
  shows "rbind (slice_at (level_lists H 0 hs) (int (theight (length hs)))) (\<lambda>top. slice_at top 0) =
    Inr (mk_node (int (theight (length hs))) 0 (merkle_root H hs))"
  using assms slice_at_int [of "theight (length hs)" "level_lists H 0 hs"]
  by (simp add: length_level_lists nth_level_lists mlevel_theight) (simp add: slice_at_def)

lemma path_steps_reference:
  fixes v :: hash
  assumes "i < length hs" and "k \<le> theight (length hs)"
  defines "new \<equiv> hs[i := v]"
  shows "path_steps H (mixed_grid H new hs (Suc 0), int i, ups) [1..<Suc k] =
    Inr (mixed_grid H new hs (Suc k), int (i div 2 ^ k), ups @ concat (map (path_level H new i) [0..<k]))"
  using assms(2)
proof (induction k)
  case 0
  then show ?case by (simp add: path_steps_def)
next
  case (Suc k)
  then have "path_step H (Suc k) (mixed_grid H new hs (Suc k), int (i div 2 ^ k), u) =
      Inr (mixed_grid H new hs (Suc (Suc k)), int (i div 2 ^ Suc k), u @ path_level H new i k)" for u
    unfolding new_def by (intro path_step_reference [OF assms(1)]) simp
  with Suc show ?case
    by (simp add: path_steps_def rfold_append del: power_Suc)
qed

text \<open>Storing the leaf starts the loop with the lowest level already new.\<close>

lemma store_leaf_reference:
  assumes "i < length hs"
  shows "rbind (slice_at (level_lists H 0 hs) 0) (\<lambda>row. slice_set row (int i) (mk_node 0 (int i) v)) =
      Inr (nodes_at 0 0 (hs[i := v]))"
    and "(level_lists H 0 hs)[0 := nodes_at 0 0 (hs[i := v])] = mixed_grid H (hs[i := v]) hs (Suc 0)"
proof -
  have "slice_at (level_lists H 0 hs) 0 = Inr (nodes_at 0 0 hs)"
    using slice_at_int [of 0 "level_lists H 0 hs"] by (simp add: nth_level_lists)
  then show "rbind (slice_at (level_lists H 0 hs) 0) (\<lambda>row. slice_set row (int i) (mk_node 0 (int i) v)) =
      Inr (nodes_at 0 0 (hs[i := v]))"
    using assms list_update_nodes_at [of i hs 0 0 v] by simp
  show "(level_lists H 0 hs)[0 := nodes_at 0 0 (hs[i := v])] = mixed_grid H (hs[i := v]) hs (Suc 0)"
    by (rule nth_equalityI)
      (auto simp: length_mixed_grid length_level_lists nth_list_update mixed_grid_nth nth_level_lists less_Suc_eq_le)
qed

lemma mixed_grid_full:
  "length new = length old \<Longrightarrow> mixed_grid H new old (Suc (theight (length old))) = level_lists H 0 new"
  by (simp add: mixed_grid_def length_level_lists)

section \<open>What an update writes out\<close>

lemma ref_node_is_node:
  "l \<le> theight (length hs) \<Longrightarrow> i < level_width (length hs) l \<Longrightarrow> is_node H hs (ref_node H hs l i)"
  by (simp add: is_node_def ref_node_def node_of_int)

text \<open>Every emitted node is a node of the new tree.\<close>

lemma update_path_is_node:
  assumes "i < length hs" and "n \<in> set (update_path H hs i)"
  shows "is_node H hs n"
proof -
  have "is_node H hs n" if "k < theight (length hs)" "n \<in> set (path_level H hs i k)" for k
    using that assms(1) level_width_div [of i "length hs" "Suc k"]
    by (auto simp: path_level_def Let_def intro!: ref_node_is_node split: if_splits
        simp del: power_Suc level_width.simps)
  moreover have "is_node H hs (ref_node H hs 0 i)"
    using assms(1) by (intro ref_node_is_node) auto
  ultimately show ?thesis
    using assms(2) by (auto simp: update_path_def)
qed

text \<open>
  The positions an update writes: the ancestors of the leaf, itself included, and their siblings.
  They are the positions a proof of the leaf needs.
\<close>

definition auth_positions :: "nat \<Rightarrow> nat \<Rightarrow> (int \<times> int) set" where
  "auth_positions n i =
     {(int k, int (i div 2 ^ k)) | k. k \<le> theight n} \<union>
     {(int k, int (sibling (i div 2 ^ k))) | k. k < theight n \<and> sibling (i div 2 ^ k) < level_width n k}"

lemma update_path_positions:
  "(\<lambda>n. (mnLevel n, mnIndex n)) ` set (update_path H hs i) = auth_positions (length hs) i"
  (is "?f ` _ = ?A")
proof -
  let ?h = "theight (length hs)"
  have "?f ` set (path_level H hs i k) =
      insert (int (Suc k), int (i div 2 ^ Suc k))
        {(int k, int (sibling (i div 2 ^ k))) | _ :: unit. sibling (i div 2 ^ k) < level_width (length hs) k}"
    for k by (auto simp: path_level_def Let_def ref_node_def simp del: power_Suc)
  then have "?f ` set (update_path H hs i) =
      insert (0, int i) (\<Union>k \<in> {..<?h}. insert (int (Suc k), int (i div 2 ^ Suc k))
        {(int k, int (sibling (i div 2 ^ k))) | _ :: unit. sibling (i div 2 ^ k) < level_width (length hs) k})"
    by (simp add: update_path_def image_UN atLeast0LessThan ref_node_def del: power_Suc)
  also have "\<dots> = {(int k, int (i div 2 ^ k)) | k. k \<le> ?h} \<union>
      {(int k, int (sibling (i div 2 ^ k))) | k. k < ?h \<and> sibling (i div 2 ^ k) < level_width (length hs) k}"
  proof -
    have "{(int k, int (i div 2 ^ k)) | k. k \<le> ?h} =
        insert (0, int i) {(int (Suc k), int (i div 2 ^ Suc k)) | k. k < ?h}"
    proof -
      have "{k. k \<le> ?h} = insert 0 (Suc ` {k. k < ?h})"
        by (auto simp: image_iff) (metis Suc_le_lessD not0_implies_Suc neq0_conv)
      then have "(\<lambda>k. (int k, int (i div 2 ^ k))) ` {k. k \<le> ?h} =
          insert (0, int i) ((\<lambda>k. (int (Suc k), int (i div 2 ^ Suc k))) ` {k. k < ?h})"
        by (simp only: image_insert image_image) simp
      then show ?thesis by (simp only: setcompr_eq_image)
    qed
    then show ?thesis by blast
  qed
  finally show ?thesis by (simp add: auth_positions_def)
qed

text \<open>Outside the ancestors of the leaf the tree is unchanged.\<close>

lemma node_of_update_off_path:
  assumes "i < length hs" and "(l, j) \<notin> auth_positions (length hs) i"
  shows "node_of H (hs[i := v]) l j = node_of H hs l j"
proof (cases "0 \<le> l \<and> l \<le> int (theight (length hs)) \<and> 0 \<le> j")
  case True
  then have "j \<noteq> int (i div 2 ^ nat l)"
    using assms(2) by (auto simp: auth_positions_def)
  then have "nat j \<noteq> i div 2 ^ nat l" using True by auto
  then have "mlevel H (hs[i := v]) (nat l) ! nat j = mlevel H hs (nat l) ! nat j"
    using mlevel_list_update [OF assms(1), of H v "nat l"] by (metis nth_list_update_neq)
  with True show ?thesis by (simp add: node_of_def)
qed (auto simp: node_of_def)

section \<open>The interface of a fixed-size tree\<close>

text \<open>
  A store is a sub-map of the tree over \<open>hs\<close>; it covers a leaf when it holds every node on the
  path of the leaf and every sibling of the path.
\<close>

definition store_sound :: "hash_fn \<Rightarrow> hash list \<Rightarrow> node_store \<Rightarrow> bool" where
  "store_sound H hs S \<longleftrightarrow> (\<forall>l i h. S (l, i) = Some h \<longrightarrow> node_of H hs l i = Some h)"

definition store_covers :: "hash_fn \<Rightarrow> hash list \<Rightarrow> node_store \<Rightarrow> nat \<Rightarrow> bool" where
  "store_covers H hs S i \<longleftrightarrow> (\<forall>(l, j) \<in> auth_positions (length hs) i. S (l, j) = node_of H hs l j)"

lemma upsert_update_path:
  fixes h :: hash
  assumes "store_sound H hs S" and "i < length hs"
  defines "S' \<equiv> upsert_nodes S (update_path H (hs[i := h]) i)"
  shows "store_sound H (hs[i := h]) S'" and "store_covers H (hs[i := h]) S' i"
    and "store_covers H hs S j \<Longrightarrow> store_covers H (hs[i := h]) S' j"
proof -
  let ?new = "hs[i := h]" and ?f = "\<lambda>(l, j). node_of H (hs[i := h]) l j"
  have "\<forall>n \<in> set (update_path H ?new i). ?f (mnLevel n, mnIndex n) = Some (mnHash n)"
    using update_path_is_node [of i ?new] assms(2) by (auto simp: is_node_def)
  then have S': "S' (l, j) = (if (l, j) \<in> auth_positions (length hs) i then node_of H ?new l j else S (l, j))"
    for l j
    unfolding S'_def using upsert_nodes_spec [of "update_path H ?new i" ?f S "(l, j)"]
      update_path_positions [of H ?new i] by simp
  note off = node_of_update_off_path [OF assms(2)]
  show "store_sound H ?new S'"
    using assms(1) off by (auto simp: store_sound_def S' split: if_splits)
  show "store_covers H ?new S' i"
    by (auto simp: store_covers_def S')
  show "store_covers H ?new S' j" if "store_covers H hs S j"
    using that off by (auto simp: store_covers_def S')
qed

text \<open>Updates one after the other, each writing out what it emitted; a refused update writes nothing.\<close>

fun update_all ::
  "('t \<Rightarrow> int \<Rightarrow> hash \<Rightarrow> 't \<times> MerkleNode list result) \<Rightarrow>
     't \<times> node_store \<Rightarrow> (int \<times> hash) list \<Rightarrow> 't \<times> node_store" where
  "update_all upd s [] = s"
| "update_all upd (t, S) ((i, h) # us) =
     (case upd t i h of
        (t', Inr ns) \<Rightarrow> update_all upd (t', upsert_nodes S ns) us
      | (t', Inl e) \<Rightarrow> update_all upd (t', S) us)"

text \<open>
  What the forest relies on: the root is the Merkle root of the leaves, an update in range
  replaces one leaf and emits the path, an update out of range changes nothing.
\<close>

locale fixed_tree =
  fixes H :: hash_fn
    and leaves :: "'t \<Rightarrow> hash list"
    and root :: "'t \<Rightarrow> hash"
    and inv :: "'t \<Rightarrow> bool"
    and upd :: "'t \<Rightarrow> int \<Rightarrow> hash \<Rightarrow> 't \<times> MerkleNode list result"
  assumes root_merkle: "inv t \<Longrightarrow> root t = merkle_root H (leaves t)"
    and upd_ok: "inv t \<Longrightarrow> i < length (leaves t) \<Longrightarrow>
      \<exists>t'. upd t (int i) h = (t', Inr (update_path H ((leaves t)[i := h]) i)) \<and>
        inv t' \<and> leaves t' = (leaves t)[i := h]"
    and upd_range: "inv t \<Longrightarrow> k < 0 \<or> int (length (leaves t)) \<le> k \<Longrightarrow> \<exists>e. upd t k h = (t, Inl e)"
begin

lemma upd_root:
  "inv t \<Longrightarrow> i < length (leaves t) \<Longrightarrow>
     root (fst (upd t (int i) h)) = merkle_root H ((leaves t)[i := h])"
  using upd_ok [of t i h] root_merkle by fastforce

text \<open>The leaves after a run: the in-range updates, applied in order.\<close>

definition apply_updates :: "hash list \<Rightarrow> (int \<times> hash) list \<Rightarrow> hash list" where
  "apply_updates = foldl (\<lambda>hs (i, h). if 0 \<le> i then hs[nat i := h] else hs)"

lemma upd_cases:
  assumes "inv t"
  obtains (ok) i t' where "k = int i" and "i < length (leaves t)"
      and "upd t k h = (t', Inr (update_path H ((leaves t)[i := h]) i))"
      and "inv t'" and "leaves t' = (leaves t)[i := h]"
  | (range) e where "k < 0 \<or> int (length (leaves t)) \<le> k" and "upd t k h = (t, Inl e)"
proof (cases "0 \<le> k \<and> k < int (length (leaves t))")
  case True
  then have "k = int (nat k)" and "nat k < length (leaves t)" by auto
  then show thesis using upd_ok [OF assms, of "nat k" h] ok by metis
next
  case False
  then show thesis using upd_range [OF assms, of k h] range by fastforce
qed

theorem run_correct:
  assumes "inv t" and "store_sound H (leaves t) S" and "update_all upd (t, S) us = (t', S')"
  shows "inv t' \<and> leaves t' = apply_updates (leaves t) us \<and> store_sound H (leaves t') S' \<and>
    (\<forall>i. i < length (leaves t) \<and> (store_covers H (leaves t) S i \<or> int i \<in> fst ` set us) \<longrightarrow>
       store_covers H (leaves t') S' i)"
  using assms
proof (induction us arbitrary: t S)
  case Nil
  then show ?case by (simp add: apply_updates_def)
next
  case (Cons u us)
  obtain k h where u: "u = (k, h)" by fastforce
  from Cons.prems(1) show ?case
  proof (cases rule: upd_cases [of t k h])
    case (ok i t1)
    let ?S1 = "upsert_nodes S (update_path H ((leaves t)[i := h]) i)"
    note S1 = upsert_update_path [OF Cons.prems(2) ok(2), where h = h]
    have "update_all upd (t1, ?S1) us = (t', S')"
      using Cons.prems(3) u ok(3) by simp
    note IH = Cons.IH [OF ok(4) _ this, unfolded ok(5), OF S1(1)]
    then show ?thesis
      using S1(2,3) u ok(1,2) by (auto simp: apply_updates_def)
  next
    case (range e)
    have "update_all upd (t, S) us = (t', S')"
      using Cons.prems(3) u range(2) by simp
    note IH = Cons.IH [OF Cons.prems(1,2) this]
    have "apply_updates (leaves t) (u # us) = apply_updates (leaves t) us"
      using u range(1) by (auto simp: apply_updates_def list_update_beyond)
    then show ?thesis
      using IH u range(1) by auto
  qed
qed

end

end
