(* ===== verification/Region_Tree.thy ===== *)
theory Region_Tree
  imports Level_Grid
begin

text \<open>
  \<^verbatim>\<open>internal/hmf/region_tree.go\<close>: the tree of a region over the commitments of its shards. Its
  number of leaves is fixed; an update replaces one leaf, recomputes the path to the root, and
  emits the path with its siblings. An operation that may fail returns the tree it leaves behind
  together with its result.
\<close>

section \<open>The program\<close>

record RegionTree = MerkleTree +
  rtLevels :: "MerkleNode list list"
  rtNumShards :: int

definition RegionTree_Build ::
  "hash_fn \<Rightarrow> RegionTree \<Rightarrow> hash list \<Rightarrow> RegionTree \<times> MerkleNode list result" where
  "RegionTree_Build H tree shardHashes =
     (if rtNumShards tree \<noteq> int (length shardHashes)
      then (tree, Inl (Errorf ''build shard tree: number of shard-root leaves incorrect''))
      else case rbind (put_leaves shardHashes (rtLevels tree))
             (\<lambda>s. build_rows H s [1..<Suc (nat (tHeight tree))]) of
        Inl e \<Rightarrow> (tree, Inl e)
      | Inr (levels, updates) \<Rightarrow>
          (case rbind (slice_at levels (tHeight tree)) (\<lambda>top. slice_at top 0) of
             Inl e \<Rightarrow> (tree\<lparr>rtLevels := levels\<rparr>, Inl e)
           | Inr root \<Rightarrow> (tree\<lparr>rtLevels := levels, tRoot := mnHash root\<rparr>, Inr updates)))"

definition NewRegionTree :: "hash_fn \<Rightarrow> string \<Rightarrow> int \<Rightarrow> RegionTree result" where
  "NewRegionTree H regionID numShards =
     (if numShards \<le> 0 then Inl (Panic ''new region tree: numShards must be positive'')
      else
        let treeHeight = bits_Len (nat (numShards - 1));
            tree = \<lparr>tTreeID = \<lparr>tidType = TreeRegion, tidRegionID = regionID, tidShardID = 0, tidSegmentID = 0\<rparr>,
              tRoot = 0, tLeafCount = numShards, tHeight = int treeHeight,
              rtLevels = alloc_levels (treeHeight + 1) (nat numShards), rtNumShards = numShards\<rparr>
        in case RegionTree_Build H tree (replicate (nat numShards) 0) of
             (_, Inl e) \<Rightarrow> Inl (Panic ''err'')
           | (tree', Inr _) \<Rightarrow> Inr tree')"

text \<open>The loop of \<^verbatim>\<open>recomputePath\<close>; it writes the levels in place, so an error keeps what was written.\<close>

fun region_path_loop ::
  "hash_fn \<Rightarrow> nat list \<Rightarrow> MerkleNode list list \<times> int \<times> MerkleNode list \<Rightarrow>
     MerkleNode list list \<times> MerkleNode list result" where
  "region_path_loop H [] (levels, index, updates) = (levels, Inr updates)"
| "region_path_loop H (level # rest) (levels, index, updates) =
     (case slice_at levels (int level) of
        Inl e \<Rightarrow> (levels, Inl e)
      | Inr row \<Rightarrow>
          if int (length row) \<le> index div 2
          then (levels, Inl (Errorf ''recompute region path: parent index %d out of range at level %d''))
          else case path_step H level (levels, index, updates) of
            Inl e \<Rightarrow> (levels, Inl e)
          | Inr s \<Rightarrow> region_path_loop H rest s)"

definition RegionTree_recomputePath ::
  "hash_fn \<Rightarrow> RegionTree \<Rightarrow> int \<Rightarrow> MerkleNode list \<Rightarrow> RegionTree \<times> MerkleNode list result" where
  "RegionTree_recomputePath H tree shardIndex updates =
     (if shardIndex < 0 \<or> tLeafCount tree \<le> shardIndex
      then (tree, Inl (Errorf ''recompute region path: shard index %d out of range''))
      else if int (length (rtLevels tree)) \<noteq> tHeight tree + 1
      then (tree, Inl (Errorf ''recompute region path: invalid in-memory tree layout''))
      else case slice_at (rtLevels tree) 0 of Inl e \<Rightarrow> (tree, Inl e) | Inr row \<Rightarrow>
      if int (length row) \<noteq> tLeafCount tree
      then (tree, Inl (Errorf ''recompute region path: invalid in-memory tree layout''))
      else case region_path_loop H [1..<Suc (nat (tHeight tree))] (rtLevels tree, shardIndex, updates) of
        (levels, Inl e) \<Rightarrow> (tree\<lparr>rtLevels := levels\<rparr>, Inl e)
      | (levels, Inr updates') \<Rightarrow>
          (case rbind (slice_at levels (tHeight tree)) (\<lambda>top. slice_at top 0) of
             Inl e \<Rightarrow> (tree\<lparr>rtLevels := levels\<rparr>, Inl e)
           | Inr root \<Rightarrow> (tree\<lparr>rtLevels := levels, tRoot := mnHash root\<rparr>, Inr updates')))"

definition updateShardRoot ::
  "hash_fn \<Rightarrow> RegionTree \<Rightarrow> int \<Rightarrow> hash \<Rightarrow> RegionTree \<times> MerkleNode list result" where
  "updateShardRoot H tree shardIndex shardRoot =
     (if shardIndex < 0 \<or> rtNumShards tree \<le> shardIndex
      then (tree, Inl (Errorf ''update region tree: shard index %d out of range''))
      else
        let leaf = mk_node 0 shardIndex shardRoot
        in case rbind (slice_at (rtLevels tree) 0) (\<lambda>row. slice_set row shardIndex leaf) of
             Inl e \<Rightarrow> (tree, Inl e)
           | Inr row \<Rightarrow>
               RegionTree_recomputePath H (tree\<lparr>rtLevels := (rtLevels tree)[0 := row]\<rparr>)
                 shardIndex [leaf])"

section \<open>Invariant\<close>

definition region_leaves :: "RegionTree \<Rightarrow> hash list" where
  "region_leaves t = map mnHash (hd (rtLevels t))"

definition region_inv :: "hash_fn \<Rightarrow> RegionTree \<Rightarrow> bool" where
  "region_inv H t \<longleftrightarrow>
     (let hs = region_leaves t
      in hs \<noteq> [] \<and> rtLevels t = level_lists H 0 hs \<and> rtNumShards t = int (length hs) \<and>
         tLeafCount t = int (length hs) \<and> tHeight t = int (theight (length hs)) \<and>
         tRoot t = merkle_root H hs)"

lemma region_inv_level_lists:
  "hs \<noteq> [] \<Longrightarrow> rtLevels t = level_lists H 0 hs \<Longrightarrow> rtNumShards t = int (length hs) \<Longrightarrow>
     tLeafCount t = int (length hs) \<Longrightarrow> tHeight t = int (theight (length hs)) \<Longrightarrow>
     tRoot t = merkle_root H hs \<Longrightarrow> region_inv H t \<and> region_leaves t = hs"
  by (simp add: region_inv_def region_leaves_def)

lemma RegionTree_Build_reference:
  assumes "hs \<noteq> []" and "grid_shape (length hs) (rtLevels t)" and "rtNumShards t = int (length hs)"
    and "tHeight t = int (theight (length hs))"
  shows "RegionTree_Build H t hs =
    (t\<lparr>rtLevels := level_lists H 0 hs, tRoot := merkle_root H hs\<rparr>, Inr (tree_nodes H hs))"
  unfolding RegionTree_Build_def
  using assms level_lists_top [OF assms(1), of H] build_reference [OF assms(2), of H]
  by (simp del: upt_Suc rbind_eq_Inr_iff)

lemma RegionTree_Build_wrong_count:
  "rtNumShards t \<noteq> int (length hs) \<Longrightarrow> \<exists>e. RegionTree_Build H t hs = (t, Inl e)"
  by (simp add: RegionTree_Build_def)

lemma NewRegionTree_ok:
  assumes "0 < n"
  obtains t where "NewRegionTree H r n = Inr t" and "region_inv H t"
    and "region_leaves t = replicate (nat n) 0"
    and "tTreeID t = \<lparr>tidType = TreeRegion, tidRegionID = r, tidShardID = 0, tidSegmentID = 0\<rparr>"
proof -
  let ?hs = "replicate (nat n) (0 :: hash)" and ?h = "theight (nat n)"
  let ?init = "\<lparr>tTreeID = \<lparr>tidType = TreeRegion, tidRegionID = r, tidShardID = 0, tidSegmentID = 0\<rparr>,
    tRoot = 0, tLeafCount = n, tHeight = int ?h, rtLevels = alloc_levels (Suc ?h) (nat n), rtNumShards = n\<rparr>"
  let ?t = "?init\<lparr>rtLevels := level_lists H 0 ?hs, tRoot := merkle_root H ?hs\<rparr>"
  have h: "bits_Len (nat (n - 1)) = ?h"
    using bits_Len_theight [of "nat n"] assms by (simp add: nat_diff_distrib)
  have "RegionTree_Build H ?init ?hs = (?t, Inr (tree_nodes H ?hs))"
    by (rule RegionTree_Build_reference)
      (use assms grid_shape_alloc [of "nat n"] in \<open>simp_all del: alloc_levels.simps\<close>)
  then have "NewRegionTree H r n = Inr ?t"
    using assms h by (simp add: NewRegionTree_def Let_def del: alloc_levels.simps)
  moreover have "region_inv H ?t \<and> region_leaves ?t = ?hs"
    using assms by (intro region_inv_level_lists) auto
  ultimately show thesis using that by simp
qed

lemma NewRegionTree_panic:
  "n \<le> 0 \<Longrightarrow> NewRegionTree H r n = Inl (Panic ''new region tree: numShards must be positive'')"
  by (simp add: NewRegionTree_def)

section \<open>Updates\<close>

lemma region_path_loop_reference:
  fixes v :: hash
  assumes "i < length hs" and "k \<le> theight (length hs)"
  defines "new \<equiv> hs[i := v]" and "h \<equiv> theight (length hs)"
  shows "region_path_loop H [Suc k..<Suc h] (mixed_grid H new hs (Suc k), int (i div 2 ^ k), ups) =
    (level_lists H 0 new, Inr (ups @ concat (map (path_level H new i) [k..<h])))"
  using assms(2)
proof (induction "h - k" arbitrary: k ups)
  case 0
  then have "k = h" by (simp add: h_def)
  then show ?case
    by (simp add: mixed_grid_def length_level_lists new_def h_def)
next
  case (Suc d)
  then have k: "k < h" by simp
  let ?g = "mixed_grid H new hs (Suc k)"
  have len: "length new = length hs" by (simp add: new_def)
  have row: "slice_at ?g (int (Suc k)) = Inr (nodes_at (int (Suc k)) 0 (mlevel H hs (Suc k)))"
    using k slice_at_int [of "Suc k" ?g] length_mixed_grid [OF len]
      mixed_grid_nth [OF len, of "Suc k" H "Suc k"] by (simp add: h_def)
  have p: "\<not> int (length (nodes_at (int (Suc k)) 0 (mlevel H hs (Suc k)))) \<le> int (i div 2 ^ k) div 2"
  proof -
    have "i div 2 ^ k div 2 = i div 2 ^ Suc k" by (metis div_mult2_eq power_Suc2)
    then have "int (i div 2 ^ k) div 2 = int (i div 2 ^ Suc k)" by (metis zdiv_int of_nat_numeral)
    then show ?thesis
      using level_width_div [OF assms(1), of "Suc k"] by (simp del: power_Suc level_width.simps)
  qed
  have step: "path_step H (Suc k) (?g, int (i div 2 ^ k), ups) =
      Inr (mixed_grid H new hs (Suc (Suc k)), int (i div 2 ^ Suc k), ups @ path_level H new i k)"
    unfolding new_def using k h_def by (intro path_step_reference [OF assms(1)]) simp
  have cons: "[Suc k..<Suc h] = Suc k # [Suc (Suc k)..<Suc h]"
    using k by (simp add: upt_conv_Cons del: upt_Suc)
  have IH: "region_path_loop H [Suc (Suc k)..<Suc h]
      (mixed_grid H new hs (Suc (Suc k)), int (i div 2 ^ Suc k), ups @ path_level H new i k) =
    (level_lists H 0 new, Inr ((ups @ path_level H new i k) @ concat (map (path_level H new i) [Suc k..<h])))"
    using Suc k by (intro Suc.hyps(1)) (auto simp: h_def)
  have "region_path_loop H [Suc k..<Suc h] (?g, int (i div 2 ^ k), ups) =
      region_path_loop H [Suc (Suc k)..<Suc h]
        (mixed_grid H new hs (Suc (Suc k)), int (i div 2 ^ Suc k), ups @ path_level H new i k)"
    unfolding cons using row p step by (simp del: upt_Suc)
  also have "\<dots> = (level_lists H 0 new, Inr (ups @ concat (map (path_level H new i) [k..<h])))"
    unfolding IH using k by (simp add: upt_conv_Cons)
  finally show ?case .
qed

lemma updateShardRoot_ok:
  assumes "region_inv H t" and "i < length (region_leaves t)"
  obtains t' where "updateShardRoot H t (int i) v = (t', Inr (update_path H ((region_leaves t)[i := v]) i))"
    and "region_inv H t'" and "region_leaves t' = (region_leaves t)[i := v]"
    and "tTreeID t' = tTreeID t"
proof -
  define hs where "hs = region_leaves t"
  let ?new = "hs[i := v]" and ?h = "theight (length hs)"
  have t: "hs \<noteq> []" "rtLevels t = level_lists H 0 hs" "rtNumShards t = int (length hs)"
    "tLeafCount t = int (length hs)" "tHeight t = int ?h"
    using assms(1) by (auto simp: region_inv_def Let_def hs_def)
  have i: "i < length hs" using assms(2) by (simp add: hs_def)
  note leaf = store_leaf_reference [OF i, of H v]
  have loop: "region_path_loop H [1..<Suc ?h] (mixed_grid H ?new hs (Suc 0), int i, [mk_node 0 (int i) v]) =
      (level_lists H 0 ?new, Inr (update_path H ?new i))"
    using region_path_loop_reference [OF i, of 0 H v] i by (simp add: update_path_def ref_node_def)
  let ?t' = "t\<lparr>rtLevels := level_lists H 0 ?new, tRoot := merkle_root H ?new\<rparr>"
  have m0: "slice_at (mixed_grid H ?new hs (Suc 0)) 0 = Inr (nodes_at 0 0 ?new)"
    using slice_at_int [of 0 "mixed_grid H ?new hs (Suc 0)"]
    by (simp add: length_mixed_grid mixed_grid_nth)
  have "RegionTree_recomputePath H (t\<lparr>rtLevels := mixed_grid H ?new hs (Suc 0)\<rparr>) (int i) [mk_node 0 (int i) v] =
      (?t', Inr (update_path H ?new i))"
    unfolding RegionTree_recomputePath_def
    using t i m0 loop level_lists_top [of ?new H]
    by (simp add: length_mixed_grid del: upt_Suc rbind_eq_Inr_iff)
  then have "updateShardRoot H t (int i) v = (?t', Inr (update_path H ?new i))"
    using t i leaf by (simp add: updateShardRoot_def Let_def del: rbind_eq_Inr_iff)
  moreover have "region_inv H ?t' \<and> region_leaves ?t' = ?new"
    using t by (intro region_inv_level_lists) auto
  ultimately show thesis using that hs_def by simp
qed

lemma updateShardRoot_range:
  "region_inv H t \<Longrightarrow> k < 0 \<or> int (length (region_leaves t)) \<le> k \<Longrightarrow>
     updateShardRoot H t k v = (t, Inl (Errorf ''update region tree: shard index %d out of range''))"
  by (auto simp: updateShardRoot_def region_inv_def Let_def)

interpretation region: fixed_tree H region_leaves tRoot "region_inv H" "updateShardRoot H"
  for H
proof unfold_locales
  show "tRoot t = merkle_root H (region_leaves t)" if "region_inv H t" for t
    using that by (simp add: region_inv_def Let_def)
  show "\<exists>t'. updateShardRoot H t (int i) h = (t', Inr (update_path H ((region_leaves t)[i := h]) i)) \<and>
      region_inv H t' \<and> region_leaves t' = (region_leaves t)[i := h]"
    if "region_inv H t" "i < length (region_leaves t)" for t i h
    using updateShardRoot_ok [OF that] by metis
  show "\<exists>e. updateShardRoot H t k h = (t, Inl e)"
    if "region_inv H t" "k < 0 \<or> int (length (region_leaves t)) \<le> k" for t k h
    using updateShardRoot_range [OF that] by blast
qed

end
