(* ===== verification/Global_Tree.thy ===== *)
theory Global_Tree
  imports Level_Grid
begin

text \<open>
  \<^verbatim>\<open>internal/hmf/global_tree.go\<close>: the tree over the commitments of the regions, of fixed size like
  the region trees. Its only run-time errors after the range guard are panics.
\<close>

section \<open>The program\<close>

record GlobalTree = MerkleTree +
  gtLevels :: "MerkleNode list list"
  gtNumRegions :: int

definition GlobalTree_Build ::
  "hash_fn \<Rightarrow> GlobalTree \<Rightarrow> hash list \<Rightarrow> GlobalTree \<times> MerkleNode list result" where
  "GlobalTree_Build H tree regionHashes =
     (if int (length regionHashes) \<noteq> gtNumRegions tree
      then (tree, Inl (Errorf ''build global tree: got %d region roots, want %d''))
      else case rbind (put_leaves regionHashes (gtLevels tree))
             (\<lambda>s. build_rows H s [1..<Suc (nat (tHeight tree))]) of
        Inl e \<Rightarrow> (tree, Inl e)
      | Inr (levels, updates) \<Rightarrow>
          (case rbind (slice_at levels (tHeight tree)) (\<lambda>top. slice_at top 0) of
             Inl e \<Rightarrow> (tree\<lparr>gtLevels := levels\<rparr>, Inl e)
           | Inr root \<Rightarrow> (tree\<lparr>gtLevels := levels, tRoot := mnHash root\<rparr>, Inr updates)))"

definition NewGlobalTree :: "hash_fn \<Rightarrow> int \<Rightarrow> GlobalTree result" where
  "NewGlobalTree H numRegions =
     (if numRegions \<le> 0 then Inl (Panic ''new global tree: numRegions must be positive'')
      else
        let treeHeight = bits_Len (nat (numRegions - 1));
            tree = \<lparr>tTreeID = \<lparr>tidType = TreeGlobal, tidRegionID = '''', tidShardID = 0, tidSegmentID = 0\<rparr>,
              tRoot = 0, tLeafCount = numRegions, tHeight = int treeHeight,
              gtLevels = alloc_levels (treeHeight + 1) (nat numRegions), gtNumRegions = numRegions\<rparr>
        in case GlobalTree_Build H tree (replicate (nat numRegions) 0) of
             (_, Inl e) \<Rightarrow> Inl (Panic ''err'')
           | (tree', Inr _) \<Rightarrow> Inr tree')"

definition GlobalTree_recomputePath ::
  "hash_fn \<Rightarrow> GlobalTree \<Rightarrow> int \<Rightarrow> MerkleNode list \<Rightarrow> GlobalTree \<times> MerkleNode list result" where
  "GlobalTree_recomputePath H tree regionIndex updates =
     (if regionIndex < 0 \<or> gtNumRegions tree \<le> regionIndex
      then (tree, Inl (Errorf ''recompute global path: region index %d out of range''))
      else case path_steps H (gtLevels tree, regionIndex, updates) [1..<Suc (nat (tHeight tree))] of
        Inl e \<Rightarrow> (tree, Inl e)
      | Inr (levels, _, updates') \<Rightarrow>
          (case rbind (slice_at levels (tHeight tree)) (\<lambda>top. slice_at top 0) of
             Inl e \<Rightarrow> (tree\<lparr>gtLevels := levels\<rparr>, Inl e)
           | Inr root \<Rightarrow> (tree\<lparr>gtLevels := levels, tRoot := mnHash root\<rparr>, Inr updates')))"

definition UpdateRegionRoot ::
  "hash_fn \<Rightarrow> GlobalTree \<Rightarrow> int \<Rightarrow> hash \<Rightarrow> GlobalTree \<times> MerkleNode list result" where
  "UpdateRegionRoot H tree regionIndex regionRoot =
     (if regionIndex < 0 \<or> gtNumRegions tree \<le> regionIndex
      then (tree, Inl (Errorf ''update global tree: region index %d out of range''))
      else
        let leaf = mk_node 0 regionIndex regionRoot
        in case rbind (slice_at (gtLevels tree) 0) (\<lambda>row. slice_set row regionIndex leaf) of
             Inl e \<Rightarrow> (tree, Inl e)
           | Inr row \<Rightarrow>
               GlobalTree_recomputePath H (tree\<lparr>gtLevels := (gtLevels tree)[0 := row]\<rparr>)
                 regionIndex [leaf])"

section \<open>Invariant\<close>

definition global_leaves :: "GlobalTree \<Rightarrow> hash list" where
  "global_leaves t = map mnHash (hd (gtLevels t))"

definition global_inv :: "hash_fn \<Rightarrow> GlobalTree \<Rightarrow> bool" where
  "global_inv H t \<longleftrightarrow>
     (let hs = global_leaves t
      in hs \<noteq> [] \<and> gtLevels t = level_lists H 0 hs \<and> gtNumRegions t = int (length hs) \<and>
         tLeafCount t = int (length hs) \<and> tHeight t = int (theight (length hs)) \<and>
         tRoot t = merkle_root H hs)"

lemma global_inv_level_lists:
  "hs \<noteq> [] \<Longrightarrow> gtLevels t = level_lists H 0 hs \<Longrightarrow> gtNumRegions t = int (length hs) \<Longrightarrow>
     tLeafCount t = int (length hs) \<Longrightarrow> tHeight t = int (theight (length hs)) \<Longrightarrow>
     tRoot t = merkle_root H hs \<Longrightarrow> global_inv H t \<and> global_leaves t = hs"
  by (simp add: global_inv_def global_leaves_def)

lemma GlobalTree_Build_reference:
  assumes "hs \<noteq> []" and "grid_shape (length hs) (gtLevels t)" and "gtNumRegions t = int (length hs)"
    and "tHeight t = int (theight (length hs))"
  shows "GlobalTree_Build H t hs =
    (t\<lparr>gtLevels := level_lists H 0 hs, tRoot := merkle_root H hs\<rparr>, Inr (tree_nodes H hs))"
  unfolding GlobalTree_Build_def
  using assms level_lists_top [OF assms(1), of H] build_reference [OF assms(2), of H]
  by (simp del: upt_Suc rbind_eq_Inr_iff)

lemma GlobalTree_Build_wrong_count:
  "int (length hs) \<noteq> gtNumRegions t \<Longrightarrow> \<exists>e. GlobalTree_Build H t hs = (t, Inl e)"
  by (simp add: GlobalTree_Build_def)

lemma NewGlobalTree_ok:
  assumes "0 < n"
  obtains t where "NewGlobalTree H n = Inr t" and "global_inv H t"
    and "global_leaves t = replicate (nat n) 0"
    and "tTreeID t = \<lparr>tidType = TreeGlobal, tidRegionID = '''', tidShardID = 0, tidSegmentID = 0\<rparr>"
proof -
  let ?hs = "replicate (nat n) (0 :: hash)" and ?h = "theight (nat n)"
  let ?init = "\<lparr>tTreeID = \<lparr>tidType = TreeGlobal, tidRegionID = '''', tidShardID = 0, tidSegmentID = 0\<rparr>,
    tRoot = 0, tLeafCount = n, tHeight = int ?h, gtLevels = alloc_levels (Suc ?h) (nat n), gtNumRegions = n\<rparr>"
  let ?t = "?init\<lparr>gtLevels := level_lists H 0 ?hs, tRoot := merkle_root H ?hs\<rparr>"
  have h: "bits_Len (nat (n - 1)) = ?h"
    using bits_Len_theight [of "nat n"] assms by (simp add: nat_diff_distrib)
  have "GlobalTree_Build H ?init ?hs = (?t, Inr (tree_nodes H ?hs))"
    by (rule GlobalTree_Build_reference)
      (use assms grid_shape_alloc [of "nat n"] in \<open>simp_all del: alloc_levels.simps\<close>)
  then have "NewGlobalTree H n = Inr ?t"
    using assms h by (simp add: NewGlobalTree_def Let_def del: alloc_levels.simps)
  moreover have "global_inv H ?t \<and> global_leaves ?t = ?hs"
    using assms by (intro global_inv_level_lists) auto
  ultimately show thesis using that by simp
qed

lemma NewGlobalTree_panic:
  "n \<le> 0 \<Longrightarrow> NewGlobalTree H n = Inl (Panic ''new global tree: numRegions must be positive'')"
  by (simp add: NewGlobalTree_def)

section \<open>Updates\<close>

lemma UpdateRegionRoot_ok:
  assumes "global_inv H t" and "i < length (global_leaves t)"
  obtains t' where "UpdateRegionRoot H t (int i) v = (t', Inr (update_path H ((global_leaves t)[i := v]) i))"
    and "global_inv H t'" and "global_leaves t' = (global_leaves t)[i := v]"
    and "tTreeID t' = tTreeID t"
proof -
  define hs where "hs = global_leaves t"
  let ?new = "hs[i := v]" and ?h = "theight (length hs)"
  have t: "hs \<noteq> []" "gtLevels t = level_lists H 0 hs" "gtNumRegions t = int (length hs)"
    "tLeafCount t = int (length hs)" "tHeight t = int ?h"
    using assms(1) by (auto simp: global_inv_def Let_def hs_def)
  have i: "i < length hs" using assms(2) by (simp add: hs_def)
  have loop: "path_steps H (mixed_grid H ?new hs (Suc 0), int i, [mk_node 0 (int i) v]) [1..<Suc ?h] =
      Inr (level_lists H 0 ?new, int (i div 2 ^ ?h), update_path H ?new i)"
    using path_steps_reference [OF i order_refl, of H v "[mk_node 0 (int i) v]"] i
    by (simp add: update_path_def ref_node_def mixed_grid_full del: upt_Suc)
  let ?t' = "t\<lparr>gtLevels := level_lists H 0 ?new, tRoot := merkle_root H ?new\<rparr>"
  have "GlobalTree_recomputePath H (t\<lparr>gtLevels := mixed_grid H ?new hs (Suc 0)\<rparr>) (int i) [mk_node 0 (int i) v] =
      (?t', Inr (update_path H ?new i))"
    unfolding GlobalTree_recomputePath_def
    using t i loop level_lists_top [of ?new H] by (simp del: upt_Suc rbind_eq_Inr_iff)
  then have "UpdateRegionRoot H t (int i) v = (?t', Inr (update_path H ?new i))"
    using t i store_leaf_reference [OF i, of H v]
    by (simp add: UpdateRegionRoot_def Let_def del: rbind_eq_Inr_iff)
  moreover have "global_inv H ?t' \<and> global_leaves ?t' = ?new"
    using t by (intro global_inv_level_lists) auto
  ultimately show thesis using that hs_def by simp
qed

lemma UpdateRegionRoot_range:
  "global_inv H t \<Longrightarrow> k < 0 \<or> int (length (global_leaves t)) \<le> k \<Longrightarrow>
     UpdateRegionRoot H t k v = (t, Inl (Errorf ''update global tree: region index %d out of range''))"
  by (auto simp: UpdateRegionRoot_def global_inv_def Let_def)

interpretation global: fixed_tree H global_leaves tRoot "global_inv H" "UpdateRegionRoot H"
  for H
proof unfold_locales
  show "tRoot t = merkle_root H (global_leaves t)" if "global_inv H t" for t
    using that by (simp add: global_inv_def Let_def)
  show "\<exists>t'. UpdateRegionRoot H t (int i) h = (t', Inr (update_path H ((global_leaves t)[i := h]) i)) \<and>
      global_inv H t' \<and> global_leaves t' = (global_leaves t)[i := h]"
    if "global_inv H t" "i < length (global_leaves t)" for t i h
    using UpdateRegionRoot_ok [OF that] by metis
  show "\<exists>e. UpdateRegionRoot H t k h = (t, Inl e)"
    if "global_inv H t" "k < 0 \<or> int (length (global_leaves t)) \<le> k" for t k h
    using UpdateRegionRoot_range [OF that] by blast
qed

end
