(* ===== verification/HMF_Forest.thy ===== *)
theory HMF_Forest
  imports Shard_Tree Region_Tree Global_Tree
begin

text \<open>
  \<^verbatim>\<open>internal/hmf/hmf.go\<close>: the forest that couples the trees. A sealed segment is committed, appended
  to the tree of its shard, the new shard commitment replaces a leaf of the region tree, and the
  new region commitment a leaf of the global tree. The abstract state of a forest is, for every
  shard, the list of segment commitments appended to it; the program's state represents it, every
  operation refines the abstract one, and the published root binds the whole abstract state.
\<close>

section \<open>The program\<close>

record HMFConfig =
  cfgRegionIDs :: "string list"
  cfgNumShardsPerRegion :: int
  cfgMaxSegmentLeaves :: int

record HMFUpdate =
  SegmentTreeID :: TreeID
  SegmentNodes :: "MerkleNode list"
  SegmentRoot :: hash
  SegmentLeaves :: int
  SegmentHeight :: int
  ShardLeafIndex :: int
  SegmentMaxLeaves :: int
  SegmentMaxAge :: int
  SegmentCreatedAt :: int
  SegmentStartedAt :: int
  SegmentEndedAt :: int
  SegmentSealedAt :: int
  ShardTreeID :: TreeID
  ShardNodes :: "MerkleNode list"
  ShardRoot :: hash
  ShardLeaves :: int
  ShardHeight :: int
  ShardFrontiers :: "MerkleNode list"
  RegionTreeID :: TreeID
  RegionNodes :: "MerkleNode list"
  RegionRoot :: hash
  RegionLeaves :: int
  RegionHeight :: int
  RegionParentLeafIndex :: int
  GlobalTreeID :: TreeID
  GlobalNodes :: "MerkleNode list"
  GlobalRoot :: hash
  GlobalLeaves :: int
  GlobalHeight :: int
  GlobalParentLeafIndex :: int

record HMF =
  hmfGlobalTree :: GlobalTree
  hmfRegionTrees :: "string \<rightharpoonup> RegionTree"
  hmfShardTrees :: "TreeID \<rightharpoonup> ShardTree"
  regionIndexes :: "string \<rightharpoonup> int"
  shardIndexes :: "TreeID \<rightharpoonup> int"

text \<open>The zero value of \<^verbatim>\<open>TreeID\<close>, of \<^verbatim>\<open>time.Time\<close>, and the identity of a shard tree.\<close>

definition zero_TreeID :: TreeID where
  "zero_TreeID = \<lparr>tidType = '''', tidRegionID = '''', tidShardID = 0, tidSegmentID = 0\<rparr>"

definition shard_id :: "string \<Rightarrow> int \<Rightarrow> TreeID" where
  "shard_id regionID shardID =
     \<lparr>tidType = TreeShard, tidRegionID = regionID, tidShardID = shardID, tidSegmentID = 0\<rparr>"

text \<open>The two nested loops that create the trees of every region.\<close>

definition new_shard :: "string \<Rightarrow> HMF \<Rightarrow> nat \<Rightarrow> HMF result" where
  "new_shard rid forest shardIndex =
     (let treeID = shard_id rid (int shardIndex)
      in if hmfShardTrees forest treeID \<noteq> None
         then Inl (Errorf ''new HMF: duplicate shard ID %d in region %s'')
         else Inr (forest
           \<lparr>hmfShardTrees := (hmfShardTrees forest)(treeID \<mapsto> NewShardTree rid (int shardIndex)),
            shardIndexes := (shardIndexes forest)(treeID \<mapsto> int shardIndex)\<rparr>))"

definition new_region :: "hash_fn \<Rightarrow> int \<Rightarrow> HMF \<Rightarrow> nat \<times> string \<Rightarrow> HMF result" where
  "new_region H numShards forest = (\<lambda>(regionIndex, rid).
     if rid = '''' then Inl (Errorf ''new HMF: region ID cannot be empty'')
     else if hmfRegionTrees forest rid \<noteq> None
     then Inl (Errorf ''new HMF: duplicate region ID %s'')
     else rbind (NewRegionTree H rid numShards) (\<lambda>tree.
       rfold (new_shard rid)
         (forest\<lparr>hmfRegionTrees := (hmfRegionTrees forest)(rid \<mapsto> tree),
                 regionIndexes := (regionIndexes forest)(rid \<mapsto> int regionIndex)\<rparr>)
         [0..<nat numShards]))"

text \<open>The initial build of one region tree over the commitments of its empty shards.\<close>

definition build_initial_region :: "hash_fn \<Rightarrow> int \<Rightarrow> HMF \<Rightarrow> string \<Rightarrow> HMF result" where
  "build_initial_region H numShards forest regionID =
     (let shardRoots = map (\<lambda>shardIndex. CommitShardRoot H regionID (int shardIndex) 0 0)
            [0..<nat numShards]
      in case hmfRegionTrees forest regionID of
           None \<Rightarrow> Inl (Panic ''nil pointer dereference'')
         | Some tree \<Rightarrow>
             (case RegionTree_Build H tree shardRoots of
                (_, Inl e) \<Rightarrow> Inl (Wrap ''new HMF: build initial region tree %s: %w'' e)
              | (tree', Inr _) \<Rightarrow>
                  Inr (forest\<lparr>hmfRegionTrees := (hmfRegionTrees forest)(regionID \<mapsto> tree')\<rparr>)))"

definition region_commitment_of :: "hash_fn \<Rightarrow> HMF \<Rightarrow> string \<Rightarrow> hash result" where
  "region_commitment_of H forest regionID =
     (case hmfRegionTrees forest regionID of
        None \<Rightarrow> Inl (Panic ''nil pointer dereference'')
      | Some region \<Rightarrow> Inr (CommitRegionRoot H regionID (tLeafCount region) (tRoot region)))"

definition NewHMF :: "hash_fn \<Rightarrow> HMFConfig \<Rightarrow> HMF result" where
  "NewHMF H config =
     (if length (cfgRegionIDs config) = 0
      then Inl (Errorf ''new HMF: must have at least one region'')
      else if cfgMaxSegmentLeaves config \<le> 0
      then Inl (Errorf ''new HMF: max segment leaves must be positive'')
      else if cfgNumShardsPerRegion config \<le> 0
      then Inl (Errorf ''new HMF: number of shards per region must be positive'')
      else
        rbind (NewGlobalTree H (int (length (cfgRegionIDs config)))) (\<lambda>global.
        rbind (rfold (new_region H (cfgNumShardsPerRegion config))
            \<lparr>hmfGlobalTree = global, hmfRegionTrees = Map.empty, hmfShardTrees = Map.empty,
             regionIndexes = Map.empty, shardIndexes = Map.empty\<rparr>
            (enumerate 0 (cfgRegionIDs config))) (\<lambda>forest1.
        rbind (rfold (build_initial_region H (cfgNumShardsPerRegion config)) forest1
            (cfgRegionIDs config)) (\<lambda>forest2.
        rbind (rfold (\<lambda>roots rid. rbind (region_commitment_of H forest2 rid) (\<lambda>r. Inr (roots @ [r])))
            [] (cfgRegionIDs config)) (\<lambda>regionRoots.
        case GlobalTree_Build H (hmfGlobalTree forest2) regionRoots of
          (_, Inl e) \<Rightarrow> Inl (Wrap ''new HMF: build initial global tree: %w'' e)
        | (global', Inr _) \<Rightarrow> Inr (forest2\<lparr>hmfGlobalTree := global'\<rparr>))))))"

definition HMF_Root :: "hash_fn \<Rightarrow> HMF \<Rightarrow> hash" where
  "HMF_Root H forest =
     CommitGlobalRoot H (tLeafCount (hmfGlobalTree forest)) (tRoot (hmfGlobalTree forest))"

text \<open>
  \<^verbatim>\<open>AppendSealedSegment\<close>. The forest is returned with the result because an error after the
  append to the shard tree leaves that append in place.
\<close>

definition AppendSealedSegment ::
  "hash_fn \<Rightarrow> HMF \<Rightarrow> string \<Rightarrow> int \<Rightarrow> int \<Rightarrow> int \<Rightarrow> hash \<Rightarrow> HMF \<times> HMFUpdate result" where
  "AppendSealedSegment H forest regionID shardID segmentID segmentLeafCount segmentRoot =
     (if segmentID < 0 \<or> segmentLeafCount \<le> 0
      then (forest, Inl (Errorf ''append sealed segment: invalid segment ID or leaf count''))
      else
      let shardTreeID = shard_id regionID shardID
      in case hmfShardTrees forest shardTreeID of
        None \<Rightarrow> (forest, Inl (Errorf ''append sealed segment: shard %d does not exist in region %s''))
      | Some shardTree \<Rightarrow>
        let shardLeafIndex = tLeafCount shardTree;
            segmentCommitment =
              CommitSegmentRoot H regionID shardID segmentID segmentLeafCount segmentRoot
        in case ShardTree_Append H shardTree segmentCommitment of
          Inl e \<Rightarrow> (forest, Inl e)
        | Inr (shardTree', shardNodes) \<Rightarrow>
          let forest1 = forest\<lparr>hmfShardTrees := (hmfShardTrees forest)(shardTreeID \<mapsto> shardTree')\<rparr>
          in case hmfRegionTrees forest1 regionID of
            None \<Rightarrow> (forest1, Inl (Errorf ''append sealed segment: region %s does not exist''))
          | Some regionTree \<Rightarrow>
            let shardIndex = gm_get 0 (shardIndexes forest1) shardTreeID;
                shardCommitment =
                  CommitShardRoot H regionID shardID (tLeafCount shardTree') (tRoot shardTree')
            in case updateShardRoot H regionTree shardIndex shardCommitment of (regionTree', rres) \<Rightarrow>
            let forest2 = forest1\<lparr>hmfRegionTrees := (hmfRegionTrees forest1)(regionID \<mapsto> regionTree')\<rparr>
            in case rres of Inl e \<Rightarrow> (forest2, Inl e)
            | Inr regionNodes \<Rightarrow>
              let regionIndex = gm_get 0 (regionIndexes forest2) regionID;
                  regionCommitment =
                    CommitRegionRoot H regionID (tLeafCount regionTree') (tRoot regionTree')
              in case UpdateRegionRoot H (hmfGlobalTree forest2) regionIndex regionCommitment of (global', gres) \<Rightarrow>
              let forest3 = forest2\<lparr>hmfGlobalTree := global'\<rparr>
              in case gres of Inl e \<Rightarrow> (forest3, Inl e)
              | Inr globalNodes \<Rightarrow>
                (forest3, Inr
                  \<lparr>SegmentTreeID = zero_TreeID, SegmentNodes = [], SegmentRoot = 0, SegmentLeaves = 0,
                   SegmentHeight = 0, ShardLeafIndex = shardLeafIndex, SegmentMaxLeaves = 0,
                   SegmentMaxAge = 0, SegmentCreatedAt = time_zero, SegmentStartedAt = time_zero,
                   SegmentEndedAt = time_zero, SegmentSealedAt = time_zero,
                   ShardTreeID = shardTreeID, ShardNodes = shardNodes, ShardRoot = shardCommitment,
                   ShardLeaves = tLeafCount shardTree', ShardHeight = tHeight shardTree',
                   ShardFrontiers = Frontiers shardTree',
                   RegionTreeID = tTreeID regionTree', RegionNodes = regionNodes,
                   RegionRoot = regionCommitment, RegionLeaves = tLeafCount regionTree',
                   RegionHeight = tHeight regionTree', RegionParentLeafIndex = shardIndex,
                   GlobalTreeID = tTreeID global', GlobalNodes = globalNodes,
                   GlobalRoot = HMF_Root H forest3, GlobalLeaves = tLeafCount global',
                   GlobalHeight = tHeight global', GlobalParentLeafIndex = regionIndex\<rparr>))"

section \<open>The abstract forest\<close>

text \<open>For every shard the commitments of its segments, in the order of their appends.\<close>

type_synonym segments = "string \<times> int \<Rightarrow> hash list"

definition shard_commitment :: "hash_fn \<Rightarrow> segments \<Rightarrow> string \<Rightarrow> int \<Rightarrow> hash" where
  "shard_commitment H segs rid s =
     CommitShardRoot H rid s (int (length (segs (rid, s)))) (merkle_root H (segs (rid, s)))"

definition region_spec :: "hash_fn \<Rightarrow> nat \<Rightarrow> segments \<Rightarrow> string \<Rightarrow> hash list" where
  "region_spec H n segs rid = map (\<lambda>s. shard_commitment H segs rid (int s)) [0..<n]"

definition region_commitment :: "hash_fn \<Rightarrow> nat \<Rightarrow> segments \<Rightarrow> string \<Rightarrow> hash" where
  "region_commitment H n segs rid =
     CommitRegionRoot H rid (int n) (merkle_root H (region_spec H n segs rid))"

definition forest_root :: "hash_fn \<Rightarrow> string list \<Rightarrow> nat \<Rightarrow> segments \<Rightarrow> hash" where
  "forest_root H rids n segs =
     CommitGlobalRoot H (int (length rids)) (merkle_root H (map (region_commitment H n segs) rids))"

definition append_segment :: "segments \<Rightarrow> string \<Rightarrow> int \<Rightarrow> hash \<Rightarrow> segments" where
  "append_segment segs rid s c = segs((rid, s) := segs (rid, s) @ [c])"

text \<open>The region tree, the shard trees and the two index maps of one region.\<close>

definition region_repr ::
  "hash_fn \<Rightarrow> nat \<Rightarrow> segments \<Rightarrow> HMF \<Rightarrow> nat \<Rightarrow> string \<Rightarrow> bool" where
  "region_repr H n segs f r rid \<longleftrightarrow>
     (\<exists>t. hmfRegionTrees f rid = Some t \<and> region_inv H t \<and> region_leaves t = region_spec H n segs rid) \<and>
     regionIndexes f rid = Some (int r) \<and>
     (\<forall>s < n. shardIndexes f (shard_id rid (int s)) = Some (int s) \<and>
        (\<exists>t. hmfShardTrees f (shard_id rid (int s)) = Some t \<and> shard_repr H (segs (rid, int s)) t))"

definition forest_repr ::
  "hash_fn \<Rightarrow> string list \<Rightarrow> nat \<Rightarrow> segments \<Rightarrow> HMF \<Rightarrow> bool" where
  "forest_repr H rids n segs f \<longleftrightarrow>
     rids \<noteq> [] \<and> distinct rids \<and> 0 < n \<and>
     global_inv H (hmfGlobalTree f) \<and>
     global_leaves (hmfGlobalTree f) = map (region_commitment H n segs) rids \<and>
     (\<forall>r < length rids. region_repr H n segs f r (rids ! r)) \<and>
     dom (hmfShardTrees f) = {shard_id rid (int s) | rid s. rid \<in> set rids \<and> s < n}"

lemma shard_id_inject [simp]: "shard_id r s = shard_id r' s' \<longleftrightarrow> r = r' \<and> s = s'"
  by (simp add: shard_id_def)

lemma length_region_spec [simp]: "length (region_spec H n segs rid) = n"
  by (simp add: region_spec_def)

lemma forest_repr_root: "forest_repr H rids n segs f \<Longrightarrow> HMF_Root H f = forest_root H rids n segs"
  by (auto simp: forest_repr_def HMF_Root_def forest_root_def global_inv_def Let_def)

section \<open>Appending a sealed segment\<close>

text \<open>The append to a shard tree never fails: the popped frontier is never empty.\<close>

lemma merge_loop_total:
  "\<exists>frontiers' updates'. merge_loop H frontiers currNode updates = Inr (frontiers', updates') \<and> frontiers' \<noteq> []"
proof (induction "length frontiers" arbitrary: frontiers currNode updates)
  case (Suc m)
  show ?case
  proof (cases "mnLevel (last frontiers) = mnLevel currNode")
    case True
    have "m = length (butlast frontiers)" using Suc.hyps(2) by simp
    with True Suc show ?thesis
      by (subst merge_loop.simps) (auto simp: popFrontier_def Let_def)
  qed (subst merge_loop.simps, auto)
qed (subst merge_loop.simps, auto)

lemma ShardTree_Append_total: "\<exists>t' ns. ShardTree_Append H t h = Inr (t', ns)"
proof -
  let ?c = "mk_node 0 (tLeafCount t) h"
  obtain fr ups where "merge_loop H (shFrontiers t) ?c [?c] = Inr (fr, ups)" and "fr \<noteq> []"
    using merge_loop_total [of H "shFrontiers t" ?c "[?c]"] by auto
  then show ?thesis
    by (cases "root_path_loop H (tl (rev fr)) (last fr) ups")
      (auto simp: ShardTree_Append_def mergeFrontier_def Let_def materializeRootPath_def split: list.splits)
qed

lemma region_spec_append:
  assumes "s < n"
  shows "region_spec H n (append_segment segs rid (int s) c) rid =
    (region_spec H n segs rid)[s := shard_commitment H (append_segment segs rid (int s) c) rid (int s)]"
  by (rule nth_equalityI)
    (use assms in \<open>auto simp: region_spec_def nth_list_update shard_commitment_def append_segment_def\<close>)

lemma region_spec_append_other:
  "rid' \<noteq> rid \<Longrightarrow> region_spec H n (append_segment segs rid s c) rid' = region_spec H n segs rid'"
  by (simp add: region_spec_def shard_commitment_def append_segment_def)

lemma region_commitments_append:
  assumes "distinct rids" and "r < length rids"
  shows "map (region_commitment H n (append_segment segs (rids ! r) s c)) rids =
    (map (region_commitment H n segs) rids)
      [r := region_commitment H n (append_segment segs (rids ! r) s c) (rids ! r)]"
proof (rule nth_equalityI)
  fix j
  assume j: "j < length (map (region_commitment H n (append_segment segs (rids ! r) s c)) rids)"
  show "map (region_commitment H n (append_segment segs (rids ! r) s c)) rids ! j =
      (map (region_commitment H n segs) rids)
        [r := region_commitment H n (append_segment segs (rids ! r) s c) (rids ! r)] ! j"
    using j assms by (cases "j = r")
      (auto simp: region_commitment_def region_spec_append_other nth_eq_iff_index_eq)
qed simp

text \<open>The fields of the returned update that depend on the abstract state \<open>segs'\<close> the append leads to; the
  identities of the trees and the segment fields follow below (\<open>sealed_update\<close> is the whole record).\<close>

definition update_spec ::
  "hash_fn \<Rightarrow> string list \<Rightarrow> nat \<Rightarrow> segments \<Rightarrow> nat \<Rightarrow> nat \<Rightarrow> HMFUpdate \<Rightarrow> bool" where
  "update_spec H rids n segs' r s u \<longleftrightarrow>
     (let rid = rids ! r; ls = segs' (rid, int s)
      in ShardTreeID u = shard_id rid (int s) \<and>
         ShardLeafIndex u = int (length ls) - 1 \<and> ShardLeaves u = int (length ls) \<and>
         ShardHeight u = int (theight (length ls)) \<and> ShardFrontiers u = peaks H 0 ls \<and>
         ShardNodes u = right_edge H 0 ls \<and>
         ShardRoot u = shard_commitment H segs' rid (int s) \<and>
         RegionNodes u = update_path H (region_spec H n segs' rid) s \<and>
         RegionRoot u = region_commitment H n segs' rid \<and>
         RegionLeaves u = int n \<and> RegionHeight u = int (theight n) \<and> RegionParentLeafIndex u = int s \<and>
         GlobalNodes u = update_path H (map (region_commitment H n segs') rids) r \<and>
         GlobalRoot u = forest_root H rids n segs' \<and>
         GlobalLeaves u = int (length rids) \<and> GlobalHeight u = int (theight (length rids)) \<and>
         GlobalParentLeafIndex u = int r)"

lemma AppendSealedSegment_refines:
  fixes root :: hash
  assumes repr: "forest_repr H rids n segs f" and r: "r < length rids" and s: "s < n"
    and seg: "0 \<le> seg" "0 < cnt" and len: "int (length (segs (rids ! r, int s))) < MaxInt64"
  defines "segs' \<equiv> append_segment segs (rids ! r) (int s)
      (CommitSegmentRoot H (rids ! r) (int s) seg cnt root)"
  shows "\<exists>f' u. AppendSealedSegment H f (rids ! r) (int s) seg cnt root = (f', Inr u) \<and>
    forest_repr H rids n segs' f' \<and> update_spec H rids n segs' r s u"
proof -
  let ?rid = "rids ! r" and ?c = "CommitSegmentRoot H (rids ! r) (int s) seg cnt root"
  let ?ls = "segs (?rid, int s)"
  have ls': "segs' (?rid, int s) = ?ls @ [?c]" by (simp add: segs'_def append_segment_def)
  have regs: "\<And>q. q < length rids \<Longrightarrow> region_repr H n segs f q (rids ! q)"
    and g: "global_inv H (hmfGlobalTree f)"
      "global_leaves (hmfGlobalTree f) = map (region_commitment H n segs) rids"
    and dist: "distinct rids"
    using repr by (auto simp: forest_repr_def)
  obtain rt where rt: "hmfRegionTrees f ?rid = Some rt" "region_inv H rt"
      "region_leaves rt = region_spec H n segs ?rid" and ri: "regionIndexes f ?rid = Some (int r)"
    using regs [OF r] by (auto simp: region_repr_def)
  obtain st where st: "hmfShardTrees f (shard_id ?rid (int s)) = Some st" "shard_repr H ?ls st"
    and si: "shardIndexes f (shard_id ?rid (int s)) = Some (int s)"
    using regs [OF r] s by (auto simp: region_repr_def)
  obtain st' where st': "ShardTree_Append H st ?c = Inr (st', right_edge H 0 (?ls @ [?c]))"
      "shard_repr H (?ls @ [?c]) st'"
    by (rule ShardTree_Append_reference [OF st(2) len, of ?c])
  have scnt: "tLeafCount st = int (length ?ls)" "tLeafCount st' = int (length ?ls) + 1"
      "tRoot st' = merkle_root H (?ls @ [?c])" "tHeight st' = int (theight (length ?ls + 1))"
      "Frontiers st' = peaks H 0 (?ls @ [?c])"
    using st(2) st'(2) by (auto simp: shard_repr_def Frontiers_def)
  have sc: "CommitShardRoot H ?rid (int s) (tLeafCount st') (tRoot st') = shard_commitment H segs' ?rid (int s)"
    by (simp add: shard_commitment_def ls' scnt add.commute)
  have spec': "region_spec H n segs' ?rid = (region_spec H n segs ?rid)[s := shard_commitment H segs' ?rid (int s)]"
    unfolding segs'_def by (rule region_spec_append [OF s])
  obtain rt' where rt': "updateShardRoot H rt (int s) (shard_commitment H segs' ?rid (int s)) =
        (rt', Inr (update_path H (region_spec H n segs' ?rid) s))"
      "region_inv H rt'" "region_leaves rt' = region_spec H n segs' ?rid"
    using updateShardRoot_ok [OF rt(2), of s "shard_commitment H segs' ?rid (int s)"] rt(3) s spec' by auto
  have rcnt: "tLeafCount rt' = int n" "tRoot rt' = merkle_root H (region_spec H n segs' ?rid)"
      "tHeight rt' = int (theight n)"
    using rt'(2,3) by (auto simp: region_inv_def Let_def)
  have rc: "CommitRegionRoot H ?rid (tLeafCount rt') (tRoot rt') = region_commitment H n segs' ?rid"
    by (simp add: region_commitment_def rcnt)
  have gspec: "map (region_commitment H n segs') rids =
      (map (region_commitment H n segs) rids)[r := region_commitment H n segs' ?rid]"
    unfolding segs'_def by (rule region_commitments_append [OF dist r])
  obtain gt where gt: "UpdateRegionRoot H (hmfGlobalTree f) (int r) (region_commitment H n segs' ?rid) =
        (gt, Inr (update_path H (map (region_commitment H n segs') rids) r))"
      "global_inv H gt" "global_leaves gt = map (region_commitment H n segs') rids"
    using UpdateRegionRoot_ok [OF g(1), of r "region_commitment H n segs' ?rid"] g(2) r gspec by auto
  have gcnt: "tLeafCount gt = int (length rids)" "tHeight gt = int (theight (length rids))"
    using gt(2,3) by (auto simp: global_inv_def Let_def)
  define f' where "f' = f\<lparr>hmfShardTrees := (hmfShardTrees f)(shard_id ?rid (int s) \<mapsto> st'),
    hmfRegionTrees := (hmfRegionTrees f)(?rid \<mapsto> rt'), hmfGlobalTree := gt\<rparr>"
  have repr': "forest_repr H rids n segs' f'"
  proof -
    have "region_repr H n segs' f' q (rids ! q)" if q: "q < length rids" for q
    proof (cases "q = r")
      case True
      have "\<exists>t. hmfShardTrees f' (shard_id ?rid (int j)) = Some t \<and> shard_repr H (segs' (?rid, int j)) t"
        if "j < n" for j
        using regs [OF r] that st'(2) ls'
        by (cases "j = s") (auto simp: f'_def region_repr_def segs'_def append_segment_def)
      then show ?thesis
        using regs [OF r] True rt' by (auto simp: region_repr_def f'_def)
    next
      case False
      then have ne: "rids ! q \<noteq> ?rid" using dist q r by (simp add: nth_eq_iff_index_eq)
      then show ?thesis
        using regs [OF q] region_spec_append_other [OF ne, of H n segs "int s" ?c]
        by (auto simp: region_repr_def f'_def segs'_def append_segment_def)
    qed
    moreover have "dom (hmfShardTrees f') = dom (hmfShardTrees f)"
      using st(1) by (auto simp: f'_def)
    ultimately show ?thesis
      using repr gt(2,3) by (auto simp: forest_repr_def f'_def)
  qed
  have "HMF_Root H f' = forest_root H rids n segs'"
    by (rule forest_repr_root [OF repr'])
  then show ?thesis
    using seg st(1) st'(1) rt(1) rt'(1) gt(1) ri si scnt rcnt gcnt sc rc repr' ls'
    by (simp add: AppendSealedSegment_def update_spec_def f'_def gm_get_def Let_def)
qed

text \<open>Every refused append leaves the forest as it was.\<close>

lemma AppendSealedSegment_refused:
  assumes "forest_repr H rids n segs f"
    and "seg < 0 \<or> cnt \<le> 0 \<or> rid \<notin> set rids \<or> s < 0 \<or> int n \<le> s"
  shows "\<exists>e. AppendSealedSegment H f rid s seg cnt root = (f, Inl e)"
proof (cases "seg < 0 \<or> cnt \<le> 0")
  case False
  then have "shard_id rid s \<notin> dom (hmfShardTrees f)"
    using assms by (auto simp: forest_repr_def)
  with False show ?thesis
    by (auto simp: AppendSealedSegment_def Let_def)
qed (simp add: AppendSealedSegment_def)

section \<open>Creating a forest\<close>

text \<open>The shard trees of one region: \<open>k\<close> fresh trees under their identities, the rest unchanged.\<close>

definition with_shards :: "string \<Rightarrow> nat \<Rightarrow> HMF \<Rightarrow> HMF" where
  "with_shards rid k f = f
     \<lparr>hmfShardTrees := (\<lambda>t. if t \<in> (\<lambda>s. shard_id rid (int s)) ` {..<k}
        then Some (NewShardTree rid (tidShardID t)) else hmfShardTrees f t),
      shardIndexes := (\<lambda>t. if t \<in> (\<lambda>s. shard_id rid (int s)) ` {..<k}
        then Some (tidShardID t) else shardIndexes f t)\<rparr>"

lemma new_shards:
  assumes "\<forall>s. hmfShardTrees f (shard_id rid s) = None"
  shows "rfold (new_shard rid) f [0..<k] = Inr (with_shards rid k f)"
proof (induction k)
  case 0
  then show ?case by (simp add: with_shards_def)
next
  case (Suc k)
  let ?i = "shard_id rid (int k)" and ?new = "\<lambda>k. (\<lambda>s. shard_id rid (int s)) ` {..<k}"
  have notin: "?i \<notin> ?new k" by auto
  have id: "tidShardID ?i = int k" by (simp add: shard_id_def)
  have ext: "(\<lambda>t. if t \<in> ?new k then Some (F (tidShardID t)) else m t)(?i \<mapsto> F (int k)) =
      (\<lambda>t. if t \<in> ?new (Suc k) then Some (F (tidShardID t)) else m t)" for F :: "int \<Rightarrow> 'x" and m
    by (rule ext) (auto simp: lessThan_Suc id)
  have "new_shard rid (with_shards rid k f) k = Inr (with_shards rid (Suc k) f)"
    using assms notin ext [of "NewShardTree rid" "hmfShardTrees f"] ext [of "\<lambda>x. x" "shardIndexes f"]
    by (simp add: new_shard_def with_shards_def)
  with Suc show ?case by (simp add: rfold_append)
qed

text \<open>The state after the first loop has created the regions \<open>ps\<close>.\<close>

definition regions_created :: "hash_fn \<Rightarrow> nat \<Rightarrow> GlobalTree \<Rightarrow> string list \<Rightarrow> HMF \<Rightarrow> bool" where
  "regions_created H n g ps f \<longleftrightarrow>
     hmfGlobalTree f = g \<and> dom (hmfRegionTrees f) = set ps \<and>
     (\<forall>q < length ps. regionIndexes f (ps ! q) = Some (int q)) \<and>
     (\<forall>rid t. hmfRegionTrees f rid = Some t \<longrightarrow> region_inv H t \<and> length (region_leaves t) = n) \<and>
     (\<forall>rid \<in> set ps. \<forall>s < n. hmfShardTrees f (shard_id rid (int s)) = Some (NewShardTree rid (int s)) \<and>
        shardIndexes f (shard_id rid (int s)) = Some (int s)) \<and>
     dom (hmfShardTrees f) = {shard_id rid (int s) | rid s. rid \<in> set ps \<and> s < n}"

lemma new_region_step:
  assumes f: "regions_created H n g ps f" and rid: "rid \<noteq> ''''" "rid \<notin> set ps" and n: "0 < n"
  shows "\<exists>f'. new_region H (int n) f (length ps, rid) = Inr f' \<and> regions_created H n g (ps @ [rid]) f'"
proof -
  obtain t where t: "NewRegionTree H rid (int n) = Inr t" "region_inv H t"
      "region_leaves t = replicate n 0"
    using NewRegionTree_ok [of "int n" H rid] n by auto
  let ?f1 = "f\<lparr>hmfRegionTrees := (hmfRegionTrees f)(rid \<mapsto> t),
    regionIndexes := (regionIndexes f)(rid \<mapsto> int (length ps))\<rparr>"
  let ?f' = "with_shards rid n ?f1"
  have "rid \<notin> dom (hmfRegionTrees f)" "\<forall>s. shard_id rid s \<notin> dom (hmfShardTrees f)"
    using f rid(2) by (simp_all add: regions_created_def)
  then have none: "hmfRegionTrees f rid = None" "\<forall>s. hmfShardTrees ?f1 (shard_id rid s) = None"
    by (simp_all add: domIff)
  have "new_region H (int n) f (length ps, rid) = Inr ?f'"
    using rid(1) none t(1) new_shards [OF none(2), of n] by (simp add: new_region_def)
  moreover have "regions_created H n g (ps @ [rid]) ?f'"
  proof -
    have "regionIndexes ?f' ((ps @ [rid]) ! q) = Some (int q)" if "q < length (ps @ [rid])" for q
      using that f rid(2) by (auto simp: regions_created_def with_shards_def nth_append less_Suc_eq)
    moreover have "dom (hmfShardTrees ?f') = {shard_id r (int s) | r s. r \<in> set (ps @ [rid]) \<and> s < n}"
    proof -
      have "dom (hmfShardTrees ?f') = (\<lambda>s. shard_id rid (int s)) ` {..<n} \<union> dom (hmfShardTrees f)"
        by (auto simp: with_shards_def split: if_splits)
      also have "\<dots> = {shard_id r (int s) | r s. r \<in> set (ps @ [rid]) \<and> s < n}"
        using f by (auto simp: regions_created_def)
      finally show ?thesis .
    qed
    moreover have "hmfShardTrees ?f' (shard_id r (int s)) = Some (NewShardTree r (int s)) \<and>
        shardIndexes ?f' (shard_id r (int s)) = Some (int s)" if "r \<in> set (ps @ [rid])" "s < n" for r s
      using that f by (auto simp: regions_created_def with_shards_def image_iff) (auto simp: shard_id_def)
    ultimately show ?thesis
      using f t by (auto simp: regions_created_def with_shards_def)
  qed
  ultimately show ?thesis by blast
qed

definition valid_regions :: "string list \<Rightarrow> bool" where
  "valid_regions rids \<longleftrightarrow> '''' \<notin> set rids \<and> distinct rids"

lemma new_regions:
  assumes "regions_created H n g [] f" and "valid_regions ps" and "0 < n"
  shows "\<exists>f'. rfold (new_region H (int n)) f (enumerate 0 ps) = Inr f' \<and> regions_created H n g ps f'"
  using assms(2)
proof (induction ps rule: rev_induct)
  case Nil
  then show ?case using assms(1) by simp
next
  case (snoc rid ps)
  then obtain f1 where "rfold (new_region H (int n)) f (enumerate 0 ps) = Inr f1" "regions_created H n g ps f1"
    by (auto simp: valid_regions_def)
  with new_region_step [of H n g ps f1 rid] snoc.prems assms(3) show ?case
    by (auto simp: valid_regions_def enumerate_append_eq rfold_append)
qed

text \<open>The state after the second loop has built the trees of the regions \<open>ps\<close>.\<close>

lemma build_initial_regions:
  assumes "regions_created H n g rids f" and "set ps \<subseteq> set rids" and "0 < n"
  shows "\<exists>f'. rfold (build_initial_region H (int n)) f ps = Inr f' \<and> regions_created H n g rids f' \<and>
    (\<forall>rid t. hmfRegionTrees f' rid = Some t \<longrightarrow> rid \<in> set ps \<longrightarrow> region_leaves t = region_spec H n (\<lambda>_. []) rid)"
  using assms(2)
proof (induction ps rule: rev_induct)
  case Nil
  then show ?case using assms(1) by simp
next
  case (snoc rid ps)
  then obtain f1 where f1: "rfold (build_initial_region H (int n)) f ps = Inr f1" "regions_created H n g rids f1"
      "\<And>rid t. hmfRegionTrees f1 rid = Some t \<Longrightarrow> rid \<in> set ps \<Longrightarrow> region_leaves t = region_spec H n (\<lambda>_. []) rid"
    by auto
  have "rid \<in> dom (hmfRegionTrees f1)" using f1(2) snoc.prems by (simp add: regions_created_def)
  then obtain t where t: "hmfRegionTrees f1 rid = Some t" by blast
  then have t': "region_inv H t" "length (region_leaves t) = n"
    using f1(2) by (auto simp: regions_created_def)
  let ?hs = "region_spec H n (\<lambda>_. []) rid"
  let ?t = "t\<lparr>rtLevels := level_lists H 0 ?hs, tRoot := merkle_root H ?hs\<rparr>"
  let ?f = "f1\<lparr>hmfRegionTrees := (hmfRegionTrees f1)(rid \<mapsto> ?t)\<rparr>"
  have ne: "?hs \<noteq> []" using assms(3) by (simp add: region_spec_def)
  have inv: "rtLevels t = level_lists H 0 (region_leaves t)" "rtNumShards t = int n"
      "tLeafCount t = int n" "tHeight t = int (theight n)"
    using t' by (auto simp: region_inv_def Let_def)
  have "grid_shape n (rtLevels t)"
    using inv(1) grid_shape_level_lists [of "region_leaves t" H] t'(2) by simp
  then have "RegionTree_Build H t ?hs = (?t, Inr (tree_nodes H ?hs))"
    using ne inv by (intro RegionTree_Build_reference) auto
  then have "build_initial_region H (int n) f1 rid = Inr ?f"
    using t by (simp add: build_initial_region_def region_spec_def shard_commitment_def Let_def)
  moreover have leaves: "region_inv H ?t \<and> region_leaves ?t = ?hs"
    using ne inv by (intro region_inv_level_lists) auto
  moreover have "regions_created H n g rids ?f"
    using f1(2) leaves snoc.prems by (auto simp: regions_created_def)
  ultimately show ?case
    using f1 by (intro exI [of _ ?f]) (auto simp: rfold_append)
qed

lemma collect_commitments:
  assumes "\<And>rid. rid \<in> set ps \<Longrightarrow> region_commitment_of H f rid = Inr (c rid)"
  shows "rfold (\<lambda>roots rid. rbind (region_commitment_of H f rid) (\<lambda>r. Inr (roots @ [r]))) acc ps =
    Inr (acc @ map c ps)"
  using assms by (induction ps arbitrary: acc) auto

lemma NewHMF_ok:
  assumes "cfgRegionIDs config \<noteq> []" and "valid_regions (cfgRegionIDs config)"
    and "0 < cfgNumShardsPerRegion config" and "0 < cfgMaxSegmentLeaves config"
  shows "\<exists>f. NewHMF H config = Inr f \<and>
    forest_repr H (cfgRegionIDs config) (nat (cfgNumShardsPerRegion config)) (\<lambda>_. []) f"
proof -
  define rids where "rids = cfgRegionIDs config"
  define n where "n = nat (cfgNumShardsPerRegion config)"
  have n: "cfgNumShardsPerRegion config = int n" "0 < n" using assms(3) by (auto simp: n_def)
  obtain g where g: "NewGlobalTree H (int (length rids)) = Inr g" "global_inv H g"
      "global_leaves g = replicate (length rids) 0"
    using NewGlobalTree_ok [of "int (length rids)" H] assms(1) by (auto simp: rids_def)
  define f where "f = \<lparr>hmfGlobalTree = g, hmfRegionTrees = Map.empty, hmfShardTrees = Map.empty,
    regionIndexes = Map.empty, shardIndexes = Map.empty\<rparr>"
  have "regions_created H n g [] f" by (simp add: f_def regions_created_def)
  then obtain f1 where f1: "rfold (new_region H (int n)) f (enumerate 0 rids) = Inr f1"
      "regions_created H n g rids f1"
    using new_regions [of H n g f rids] assms(2) n(2) by (auto simp: rids_def)
  obtain f2 where f2: "rfold (build_initial_region H (int n)) f1 rids = Inr f2" "regions_created H n g rids f2"
      "\<And>rid t. hmfRegionTrees f2 rid = Some t \<Longrightarrow> rid \<in> set rids \<Longrightarrow> region_leaves t = region_spec H n (\<lambda>_. []) rid"
    using build_initial_regions [OF f1(2) order_refl n(2)] by blast
  let ?c = "region_commitment H n (\<lambda>_. [])"
  have reg: "\<exists>t. hmfRegionTrees f2 rid = Some t \<and> region_inv H t \<and> region_leaves t = region_spec H n (\<lambda>_. []) rid"
    if "rid \<in> set rids" for rid
  proof -
    have "rid \<in> dom (hmfRegionTrees f2)" using f2(2) that by (simp add: regions_created_def)
    then obtain t where "hmfRegionTrees f2 rid = Some t" by blast
    then show ?thesis using f2(2,3) that by (auto simp: regions_created_def)
  qed
  then have "region_commitment_of H f2 rid = Inr (?c rid)" if "rid \<in> set rids" for rid
    using reg [OF that]
    by (auto simp: region_commitment_of_def region_commitment_def region_inv_def Let_def)
  note cc = collect_commitments [OF this, of rids "[]", simplified]
  let ?hs = "map ?c rids"
  let ?g = "g\<lparr>gtLevels := level_lists H 0 ?hs, tRoot := merkle_root H ?hs\<rparr>"
  have ginv: "gtLevels g = level_lists H 0 (global_leaves g)" "gtNumRegions g = int (length rids)"
      "tLeafCount g = int (length rids)" "tHeight g = int (theight (length rids))"
    using g(2,3) by (auto simp: global_inv_def Let_def)
  have ne: "?hs \<noteq> []" using assms(1) by (simp add: rids_def)
  have shape: "grid_shape (length rids) (gtLevels g)"
    using ginv(1) g(3) grid_shape_level_lists [of "global_leaves g" H] by simp
  have "GlobalTree_Build H g ?hs = (?g, Inr (tree_nodes H ?hs))"
    using ne ginv shape by (intro GlobalTree_Build_reference) auto
  moreover have "hmfGlobalTree f2 = g" using f2(2) by (simp add: regions_created_def)
  ultimately have "NewHMF H config = Inr (f2\<lparr>hmfGlobalTree := ?g\<rparr>)"
    using assms n g(1) f1(1) f2(1) cc by (simp add: NewHMF_def f_def rids_def)
  moreover have "global_inv H ?g \<and> global_leaves ?g = ?hs"
    using ne ginv by (intro global_inv_level_lists) auto
  moreover have "region_repr H n (\<lambda>_. []) (f2\<lparr>hmfGlobalTree := ?g\<rparr>) q (rids ! q)" if "q < length rids" for q
    using that f2(2) reg [of "rids ! q"] by (auto simp: region_repr_def regions_created_def NewShardTree_repr)
  ultimately show ?thesis
    using assms n(2) f2(2)
    by (auto simp: forest_repr_def rids_def [symmetric] n_def [symmetric] regions_created_def valid_regions_def)
qed

text \<open>An invalid list of region identifiers has a first identifier at which the loop stops.\<close>

lemma invalid_regions_split:
  "\<not> valid_regions rids \<Longrightarrow>
     \<exists>ps x qs. rids = ps @ x # qs \<and> valid_regions ps \<and> (x = '''' \<or> x \<in> set ps)"
proof (induction rids rule: rev_induct)
  case (snoc x rids)
  show ?case
  proof (cases "valid_regions rids")
    case True
    then show ?thesis using snoc.prems by (auto simp: valid_regions_def)
  next
    case False
    then show ?thesis using snoc.IH by fastforce
  qed
qed (simp add: valid_regions_def)

lemma NewHMF_error:
  assumes "cfgRegionIDs config = [] \<or> \<not> valid_regions (cfgRegionIDs config) \<or>
    cfgNumShardsPerRegion config \<le> 0 \<or> cfgMaxSegmentLeaves config \<le> 0"
  shows "\<exists>m. NewHMF H config = Inl (Errorf m)"
proof (cases "cfgRegionIDs config = [] \<or> cfgNumShardsPerRegion config \<le> 0 \<or> cfgMaxSegmentLeaves config \<le> 0")
  case True
  then show ?thesis by (auto simp: NewHMF_def)
next
  case False
  define n where "n = nat (cfgNumShardsPerRegion config)"
  have n: "cfgNumShardsPerRegion config = int n" "0 < n" using False by (auto simp: n_def)
  obtain ps x qs where ps: "cfgRegionIDs config = ps @ x # qs" "valid_regions ps" "x = '''' \<or> x \<in> set ps"
    using invalid_regions_split assms False by blast
  obtain g where g: "NewGlobalTree H (int (length (cfgRegionIDs config))) = Inr g"
    using NewGlobalTree_ok [of "int (length (cfgRegionIDs config))" H] False by auto
  let ?f = "\<lparr>hmfGlobalTree = g, hmfRegionTrees = Map.empty, hmfShardTrees = Map.empty,
    regionIndexes = Map.empty, shardIndexes = Map.empty\<rparr>"
  have "regions_created H n g [] ?f" by (simp add: regions_created_def)
  then obtain f1 where f1: "rfold (new_region H (int n)) ?f (enumerate 0 ps) = Inr f1" "regions_created H n g ps f1"
    using new_regions [of H n g ?f ps] ps(2) n(2) by auto
  then have "\<exists>m. new_region H (int n) f1 (length ps, x) = Inl (Errorf m)"
    using ps(3) by (auto simp: new_region_def regions_created_def)
  then show ?thesis
    using False n(1) g f1(1) ps(1)
    by (auto simp: NewHMF_def enumerate_append_eq rfold_append)
qed

section \<open>Runs\<close>

text \<open>A sequence of appends, refused ones included, against the abstract forest.\<close>

type_synonym append_op = "string \<times> int \<times> int \<times> int \<times> hash"

fun run_appends :: "hash_fn \<Rightarrow> HMF \<Rightarrow> append_op list \<Rightarrow> HMF" where
  "run_appends H f [] = f"
| "run_appends H f ((rid, s, seg, cnt, root) # ops) =
     run_appends H (fst (AppendSealedSegment H f rid s seg cnt root)) ops"

definition append_op_spec :: "hash_fn \<Rightarrow> string list \<Rightarrow> nat \<Rightarrow> segments \<Rightarrow> append_op \<Rightarrow> segments" where
  "append_op_spec H rids n segs = (\<lambda>(rid, s, seg, cnt, root).
     if 0 \<le> seg \<and> 0 < cnt \<and> rid \<in> set rids \<and> 0 \<le> s \<and> s < int n
     then append_segment segs rid s (CommitSegmentRoot H rid s seg cnt root) else segs)"

lemma append_op_spec_length:
  "length (append_op_spec H rids n segs op k) \<le> Suc (length (segs k))"
  by (auto simp: append_op_spec_def append_segment_def split: prod.splits)

lemma AppendSealedSegment_step:
  assumes "forest_repr H rids n segs f" and "\<forall>k. int (length (segs k)) < MaxInt64"
  shows "forest_repr H rids n (append_op_spec H rids n segs (rid, s, seg, cnt, root))
    (fst (AppendSealedSegment H f rid s seg cnt root))"
proof (cases "0 \<le> seg \<and> 0 < cnt \<and> rid \<in> set rids \<and> 0 \<le> s \<and> s < int n")
  case True
  then obtain r where r: "r < length rids" "rid = rids ! r" by (auto simp: in_set_conv_nth)
  obtain j where j: "s = int j" "j < n" using True by (metis nonneg_int_cases of_nat_less_iff)
  show ?thesis
    using AppendSealedSegment_refines [OF assms(1) r(1) j(2), of seg cnt root] assms(2) True r j
    by (auto simp: append_op_spec_def)
next
  case False
  then have "seg < 0 \<or> cnt \<le> 0 \<or> rid \<notin> set rids \<or> s < 0 \<or> int n \<le> s" by linarith
  from AppendSealedSegment_refused [OF assms(1) this, of root] assms(1) False show ?thesis
    by (auto simp: append_op_spec_def)
qed

lemma run_appends_refines:
  assumes "forest_repr H rids n segs f" and "\<forall>k. int (length (segs k) + length ops) \<le> MaxInt64"
  shows "forest_repr H rids n (foldl (append_op_spec H rids n) segs ops) (run_appends H f ops)"
  using assms
proof (induction ops arbitrary: segs f)
  case (Cons op ops)
  obtain rid s seg cnt root where op: "op = (rid, s, seg, cnt, root)" by (cases op) auto
  have "int (length (segs k)) < MaxInt64" for k
    using Cons.prems(2) [THEN spec, of k] by simp
  then have "forest_repr H rids n (append_op_spec H rids n segs op)
      (fst (AppendSealedSegment H f rid s seg cnt root))"
    using AppendSealedSegment_step [OF Cons.prems(1)] op by blast
  moreover have "int (length (append_op_spec H rids n segs op k) + length ops) \<le> MaxInt64" for k
    using Cons.prems(2) [THEN spec, of k] append_op_spec_length [of H rids n segs op k] by simp
  ultimately show ?case using Cons.IH op by simp
qed simp

section \<open>What the root binds\<close>

text \<open>The byte strings hashed between the segment commitments and the published root.\<close>

definition shard_inputs :: "hash_fn \<Rightarrow> segments \<Rightarrow> string \<Rightarrow> int \<Rightarrow> byte list set" where
  "shard_inputs H segs rid s = insert
     (commit_input ''SHARD'' rid s (-1) (int (length (segs (rid, s)))) (merkle_root H (segs (rid, s))))
     (merkle_inputs H (segs (rid, s)))"

definition region_inputs :: "hash_fn \<Rightarrow> nat \<Rightarrow> segments \<Rightarrow> string \<Rightarrow> byte list set" where
  "region_inputs H n segs rid = insert
     (commit_input ''REGION'' rid (-1) (-1) (int n) (merkle_root H (region_spec H n segs rid)))
     (merkle_inputs H (region_spec H n segs rid) \<union> (\<Union>s < n. shard_inputs H segs rid (int s)))"

definition forest_inputs :: "hash_fn \<Rightarrow> string list \<Rightarrow> nat \<Rightarrow> segments \<Rightarrow> byte list set" where
  "forest_inputs H rids n segs = insert
     (commit_input ''GLOBAL'' '''' (-1) (-1) (int (length rids))
        (merkle_root H (map (region_commitment H n segs) rids)))
     (merkle_inputs H (map (region_commitment H n segs) rids) \<union>
      (\<Union>rid \<in> set rids. region_inputs H n segs rid))"

text \<open>What the encodings can represent: name lengths below 2 to the 32, counts in a signed 64-bit word.\<close>

definition forest_bounds :: "string list \<Rightarrow> nat \<Rightarrow> segments \<Rightarrow> bool" where
  "forest_bounds rids n segs \<longleftrightarrow>
     int64 (int (length rids)) \<and> int64 (int n) \<and> (\<forall>rid \<in> set rids. length rid < 2 ^ 32) \<and>
     (\<forall>k. int64 (int (length (segs k))))"

lemma commitTreeRoot_inject:
  assumes "commitTreeRoot H k r s g (int m) h = commitTreeRoot H k r' s' g' (int m') h'"
    and "inj_on H S" "commit_input k r s g (int m) h \<in> S" "commit_input k r' s' g' (int m') h' \<in> S"
    and "length k < 2 ^ 32" "length r < 2 ^ 32" "length r' < 2 ^ 32"
    and "int64 (int m)" "int64 (int m')"
  shows "r = r' \<and> m = m' \<and> h = h'"
proof -
  have "commit_input k r s g (int m) h = commit_input k r' s' g' (int m') h'"
    using assms(1-4) by (auto simp: commitTreeRoot_def dest: inj_onD)
  from commit_input_inject [OF this assms(5,5-7)] assms(8,9) show ?thesis by simp
qed

lemma shard_commitment_binding:
  assumes "shard_commitment H segs rid s = shard_commitment H segs' rid s"
    and "inj_on H (shard_inputs H segs rid s \<union> shard_inputs H segs' rid s)" and "length rid < 2 ^ 32"
    and "int64 (int (length (segs (rid, s))))" "int64 (int (length (segs' (rid, s))))"
  shows "segs (rid, s) = segs' (rid, s)"
proof -
  have "length (segs (rid, s)) = length (segs' (rid, s)) \<and>
      merkle_root H (segs (rid, s)) = merkle_root H (segs' (rid, s))"
    using commitTreeRoot_inject [OF assms(1) [unfolded shard_commitment_def CommitShardRoot_def] assms(2)]
      assms(3-5) by (simp add: shard_inputs_def)
  then show ?thesis
    using inj_on_subset [OF assms(2)] by (intro merkle_root_binding [where H = H]) (auto simp: shard_inputs_def)
qed

lemma region_commitment_binding:
  assumes "region_commitment H n segs rid = region_commitment H n' segs' rid'"
    and inj: "inj_on H (region_inputs H n segs rid \<union> region_inputs H n' segs' rid')"
    and len: "length rid < 2 ^ 32" "length rid' < 2 ^ 32"
    and "int64 (int n)" "int64 (int n')" "\<forall>k. int64 (int (length (segs k)))" "\<forall>k. int64 (int (length (segs' k)))"
  shows "rid = rid' \<and> n = n' \<and> (\<forall>s < n. segs (rid, int s) = segs' (rid, int s))"
proof -
  have eq: "rid = rid' \<and> n = n' \<and> merkle_root H (region_spec H n segs rid) = merkle_root H (region_spec H n' segs' rid')"
    by (rule commitTreeRoot_inject [OF assms(1) [unfolded region_commitment_def CommitRegionRoot_def] inj])
      (use assms(3-6) in \<open>simp_all add: region_inputs_def\<close>)
  have "region_spec H n segs rid = region_spec H n' segs' rid'"
    using eq inj_on_subset [OF inj]
    by (intro merkle_root_binding [where H = H]) (auto simp: region_inputs_def)
  then have "shard_commitment H segs rid (int s) = shard_commitment H segs' rid (int s)" if "s < n" for s
    using eq that arg_cong [of _ _ "\<lambda>xs. xs ! s"] by (fastforce simp: region_spec_def)
  moreover have "inj_on H (shard_inputs H segs rid (int s) \<union> shard_inputs H segs' rid (int s))" if "s < n" for s
    by (rule inj_on_subset [OF inj]) (use eq that in \<open>auto simp: region_inputs_def\<close>)
  ultimately have "segs (rid, int s) = segs' (rid, int s)" if "s < n" for s
    using that len(1) assms(7,8) by (intro shard_commitment_binding [where H = H]) simp_all
  with eq show ?thesis by blast
qed

lemma forest_root_binding:
  assumes root: "forest_root H rids n segs = forest_root H rids' n' segs'"
    and inj: "inj_on H (forest_inputs H rids n segs \<union> forest_inputs H rids' n' segs')"
    and b: "forest_bounds rids n segs" "forest_bounds rids' n' segs'"
  shows "rids = rids' \<and> (\<forall>rid \<in> set rids. n = n' \<and> (\<forall>s < n. segs (rid, int s) = segs' (rid, int s)))"
proof -
  let ?c = "map (region_commitment H n segs) rids" and ?c' = "map (region_commitment H n' segs') rids'"
  have eq: "length rids = length rids' \<and> merkle_root H ?c = merkle_root H ?c'"
    using commitTreeRoot_inject [OF root [unfolded forest_root_def CommitGlobalRoot_def] inj] b
    by (simp add: forest_inputs_def forest_bounds_def)
  have c: "?c = ?c'"
    using eq inj_on_subset [OF inj]
    by (intro merkle_root_binding [where H = H]) (auto simp: forest_inputs_def)
  have each: "rids ! q = rids' ! q \<and> n = n' \<and> (\<forall>s < n. segs (rids ! q, int s) = segs' (rids ! q, int s))"
    if q: "q < length rids" for q
  proof (rule region_commitment_binding)
    show "region_commitment H n segs (rids ! q) = region_commitment H n' segs' (rids' ! q)"
      using c q eq by (metis nth_map)
    show "inj_on H (region_inputs H n segs (rids ! q) \<union> region_inputs H n' segs' (rids' ! q))"
      by (rule inj_on_subset [OF inj]) (use q eq in \<open>auto simp: forest_inputs_def\<close>)
  qed (use b q eq in \<open>auto simp: forest_bounds_def\<close>)
  have "rids = rids'" using eq each by (intro nth_equalityI) auto
  with each show ?thesis by (auto simp: in_set_conv_nth)
qed

section \<open>A concrete forest\<close>

text \<open>
  For the instances at concrete inputs: the length of a byte string in place of its hash, which
  does not collide on the few strings of a forest with one empty shard.
\<close>

definition len_hash :: hash_fn where
  "len_hash bs = word_of_nat (length bs)"

definition one_shard :: HMFConfig where
  "one_shard = \<lparr>cfgRegionIDs = [''eu''], cfgNumShardsPerRegion = 1, cfgMaxSegmentLeaves = 4\<rparr>"

lemma one_shard_forest:
  "\<exists>f. NewHMF H one_shard = Inr f \<and> forest_repr H [''eu''] 1 (\<lambda>_. []) f"
  using NewHMF_ok [of one_shard H] by (simp add: one_shard_def valid_regions_def)

lemma length_writeString: "length (writeString s) = 4 + length s"
  by (simp add: writeString_def writeUint32_def)

lemma length_commit_input:
  "length (commit_input k r s g n h) = 79 + length k + length r"
  by (simp add: commit_input_def length_writeString writeInt64_def treeCommitmentDomain_def)

section \<open>The names of the trees\<close>

text \<open>
  The trees of a forest carry their identities from creation on: no operation on a region tree or the
  global tree changes its \<^verbatim>\<open>TreeID\<close>.
\<close>

definition region_id :: "string \<Rightarrow> TreeID" where
  "region_id rid = \<lparr>tidType = TreeRegion, tidRegionID = rid, tidShardID = 0, tidSegmentID = 0\<rparr>"

definition global_id :: TreeID where
  "global_id = \<lparr>tidType = TreeGlobal, tidRegionID = '''', tidShardID = 0, tidSegmentID = 0\<rparr>"

definition named_regions :: "HMF \<Rightarrow> bool" where
  "named_regions f \<longleftrightarrow> (\<forall>rid t. hmfRegionTrees f rid = Some t \<longrightarrow> tTreeID t = region_id rid)"

definition named_forest :: "HMF \<Rightarrow> bool" where
  "named_forest f \<longleftrightarrow> tTreeID (hmfGlobalTree f) = global_id \<and> named_regions f"

lemma region_tree_keeps_name:
  "RegionTree_Build H t hs = (t', res) \<Longrightarrow> tTreeID t' = tTreeID t"
  "RegionTree_recomputePath H t i ups = (t', res) \<Longrightarrow> tTreeID t' = tTreeID t"
  by (auto simp: RegionTree_Build_def RegionTree_recomputePath_def split: if_splits sum.splits prod.splits)

lemma updateShardRoot_keeps_name: "updateShardRoot H t i v = (t', res) \<Longrightarrow> tTreeID t' = tTreeID t"
  by (auto simp: updateShardRoot_def Let_def split: if_splits sum.splits dest!: region_tree_keeps_name(2))

lemma global_tree_keeps_name:
  "GlobalTree_Build H g hs = (g', res) \<Longrightarrow> tTreeID g' = tTreeID g"
  "GlobalTree_recomputePath H g i ups = (g', res) \<Longrightarrow> tTreeID g' = tTreeID g"
  by (auto simp: GlobalTree_Build_def GlobalTree_recomputePath_def split: if_splits sum.splits prod.splits)

lemma UpdateRegionRoot_keeps_name: "UpdateRegionRoot H g i v = (g', res) \<Longrightarrow> tTreeID g' = tTreeID g"
  by (auto simp: UpdateRegionRoot_def Let_def split: if_splits sum.splits dest!: global_tree_keeps_name(2))

lemma new_shard_regions: "new_shard rid f s = Inr f' \<Longrightarrow> hmfRegionTrees f' = hmfRegionTrees f \<and> hmfGlobalTree f' = hmfGlobalTree f"
  by (auto simp: new_shard_def Let_def split: if_splits)

lemma NewRegionTree_name: "NewRegionTree H rid n = Inr t \<Longrightarrow> tTreeID t = region_id rid"
  using region_tree_keeps_name(1) by (fastforce simp: NewRegionTree_def region_id_def Let_def split: if_splits prod.splits sum.splits)

lemma NewGlobalTree_name: "NewGlobalTree H n = Inr g \<Longrightarrow> tTreeID g = global_id"
  using global_tree_keeps_name(1) by (fastforce simp: NewGlobalTree_def global_id_def Let_def split: if_splits prod.splits sum.splits)

lemma new_region_named:
  assumes "new_region H n f p = Inr f'" and "named_forest f"
  shows "named_forest f'"
proof -
  obtain q rid where p: "p = (q, rid)" by fastforce
  obtain t where t: "NewRegionTree H rid n = Inr t"
    and fold: "rfold (new_shard rid) (f\<lparr>hmfRegionTrees := (hmfRegionTrees f)(rid \<mapsto> t),
        regionIndexes := (regionIndexes f)(rid \<mapsto> int q)\<rparr>) [0..<nat n] = Inr f'"
    using assms(1) by (auto simp: p new_region_def split: if_splits)
  show ?thesis
    by (rule rfold_invariant [OF fold])
      (use assms(2) NewRegionTree_name [OF t] new_shard_regions in \<open>auto simp: named_forest_def named_regions_def\<close>)
qed

lemma build_initial_region_named: "build_initial_region H n f rid = Inr f' \<Longrightarrow> named_forest f \<Longrightarrow> named_forest f'"
  using region_tree_keeps_name(1)
  by (fastforce simp: build_initial_region_def named_forest_def named_regions_def Let_def split: option.splits prod.splits sum.splits if_splits)

lemma NewHMF_named:
  assumes "NewHMF H config = Inr f"
  shows "named_forest f"
proof -
  obtain g f1 f2 roots where g: "NewGlobalTree H (int (length (cfgRegionIDs config))) = Inr g"
    and f1: "rfold (new_region H (cfgNumShardsPerRegion config)) \<lparr>hmfGlobalTree = g, hmfRegionTrees = Map.empty,
        hmfShardTrees = Map.empty, regionIndexes = Map.empty, shardIndexes = Map.empty\<rparr> (enumerate 0 (cfgRegionIDs config)) = Inr f1"
    and f2: "rfold (build_initial_region H (cfgNumShardsPerRegion config)) f1 (cfgRegionIDs config) = Inr f2"
    and last: "(case GlobalTree_Build H (hmfGlobalTree f2) roots of
        (_, Inl e) \<Rightarrow> Inl (Wrap ''new HMF: build initial global tree: %w'' e)
      | (global', Inr _) \<Rightarrow> Inr (f2\<lparr>hmfGlobalTree := global'\<rparr>)) = Inr f"
    using assms by (auto simp: NewHMF_def split: if_splits)
  obtain g' nodes where g': "GlobalTree_Build H (hmfGlobalTree f2) roots = (g', Inr nodes)" "f = f2\<lparr>hmfGlobalTree := g'\<rparr>"
    using last by (auto split: prod.splits sum.splits)
  have "named_forest f1"
    by (rule rfold_invariant [OF f1]) (simp add: named_forest_def named_regions_def NewGlobalTree_name [OF g], rule new_region_named)
  then have "named_forest f2" by (rule rfold_invariant [OF f2]) (auto dest: build_initial_region_named)
  then show ?thesis using global_tree_keeps_name(1) [OF g'(1)] by (simp add: g'(2) named_forest_def named_regions_def)
qed

text \<open>The update of an append carries these names, and the fields of the segment, which the caller fills in, are zero.\<close>

definition segment_fields_zero :: "HMFUpdate \<Rightarrow> bool" where
  "segment_fields_zero u \<longleftrightarrow> SegmentTreeID u = zero_TreeID \<and> SegmentNodes u = [] \<and> SegmentRoot u = 0 \<and> SegmentLeaves u = 0 \<and>
     SegmentHeight u = 0 \<and> SegmentMaxLeaves u = 0 \<and> SegmentMaxAge u = 0 \<and> SegmentCreatedAt u = time_zero \<and>
     SegmentStartedAt u = time_zero \<and> SegmentEndedAt u = time_zero \<and> SegmentSealedAt u = time_zero"

lemma AppendSealedSegment_named:
  assumes "AppendSealedSegment H f rid s seg cnt root = (f', res)" and "named_forest f"
  shows "named_forest f'" and "res = Inr u \<Longrightarrow> RegionTreeID u = region_id rid \<and> GlobalTreeID u = global_id \<and> segment_fields_zero u"
  using assms
  by (auto simp: AppendSealedSegment_def Let_def named_forest_def named_regions_def segment_fields_zero_def
      split: if_splits option.splits sum.splits prod.splits dest!: updateShardRoot_keeps_name UpdateRegionRoot_keeps_name)

lemma run_appends_named: "named_forest f \<Longrightarrow> named_forest (run_appends H f ops)"
  by (induction H f ops rule: run_appends.induct) (auto intro: AppendSealedSegment_named(1) [OF surjective_pairing])

text \<open>The whole update of an append, over the abstract state it leads to.\<close>

definition sealed_update :: "hash_fn \<Rightarrow> string list \<Rightarrow> nat \<Rightarrow> segments \<Rightarrow> nat \<Rightarrow> nat \<Rightarrow> HMFUpdate" where
  "sealed_update H rids n segs' r s =
     (let rid = rids ! r; ls = segs' (rid, int s) in
      \<lparr>SegmentTreeID = zero_TreeID, SegmentNodes = [], SegmentRoot = 0, SegmentLeaves = 0, SegmentHeight = 0,
       ShardLeafIndex = int (length ls) - 1, SegmentMaxLeaves = 0, SegmentMaxAge = 0, SegmentCreatedAt = time_zero,
       SegmentStartedAt = time_zero, SegmentEndedAt = time_zero, SegmentSealedAt = time_zero,
       ShardTreeID = shard_id rid (int s), ShardNodes = right_edge H 0 ls, ShardRoot = shard_commitment H segs' rid (int s),
       ShardLeaves = int (length ls), ShardHeight = int (theight (length ls)), ShardFrontiers = peaks H 0 ls,
       RegionTreeID = region_id rid, RegionNodes = update_path H (region_spec H n segs' rid) s,
       RegionRoot = region_commitment H n segs' rid, RegionLeaves = int n, RegionHeight = int (theight n),
       RegionParentLeafIndex = int s,
       GlobalTreeID = global_id, GlobalNodes = update_path H (map (region_commitment H n segs') rids) r,
       GlobalRoot = forest_root H rids n segs', GlobalLeaves = int (length rids), GlobalHeight = int (theight (length rids)),
       GlobalParentLeafIndex = int r\<rparr>)"

lemma sealed_update_eq:
  assumes "update_spec H rids n segs' r s u" and "RegionTreeID u = region_id (rids ! r)" and "GlobalTreeID u = global_id"
    and "segment_fields_zero u"
  shows "u = sealed_update H rids n segs' r s"
  using assms by (cases u) (simp add: update_spec_def sealed_update_def segment_fields_zero_def Let_def)

section \<open>Properties\<close>

text \<open>C1: the published root binds the forest. Two forests with the same published root have the same
  regions in the same order, and every shard of every region has the same segment commitments in
  the same order, provided the hash function does not collide on the byte strings hashed to
  compute the two roots.\<close>

theorem published_root_binds_forest:
  assumes "forest_repr H rids n segs f" and "forest_repr H rids' n' segs' f'"
    and "HMF_Root H f = HMF_Root H f'"
    and "inj_on H (forest_inputs H rids n segs \<union> forest_inputs H rids' n' segs')"
    and "forest_bounds rids n segs" and "forest_bounds rids' n' segs'"
  shows "rids = rids' \<and> n = n' \<and> (\<forall>rid \<in> set rids. \<forall>s < n. segs (rid, int s) = segs' (rid, int s))"
proof -
  have "forest_root H rids n segs = forest_root H rids' n' segs'"
    using assms(3) forest_repr_root [OF assms(1)] forest_repr_root [OF assms(2)] by simp
  from forest_root_binding [OF this assms(4-6)] assms(1) show ?thesis
    by (auto simp: forest_repr_def neq_Nil_conv)
qed

theorem published_root_binds_forest_witness:
  "\<exists>f. NewHMF len_hash one_shard = Inr f \<and>
    forest_repr len_hash [''eu''] 1 (\<lambda>_. []) f \<and> HMF_Root len_hash f = HMF_Root len_hash f \<and>
    inj_on len_hash (forest_inputs len_hash [''eu''] 1 (\<lambda>_. [])) \<and>
    [''eu''] = [''eu''] \<and> (\<forall>rid \<in> set [''eu'']. \<forall>s < (1 :: nat). (\<lambda>_. []) (rid, int s) = ([] :: hash list))"
proof -
  obtain f where f: "NewHMF len_hash one_shard = Inr f" "forest_repr len_hash [''eu''] 1 (\<lambda>_. []) f"
    using one_shard_forest by blast
  have b: "forest_bounds [''eu''] 1 (\<lambda>_. [])"
    by (simp add: forest_bounds_def int64_def)
  have i: "inj_on len_hash (forest_inputs len_hash [''eu''] 1 (\<lambda>_. []))"
    by (auto simp: forest_inputs_def region_inputs_def shard_inputs_def region_spec_def
        merkle_inputs.simps len_hash_def length_commit_input)
  from published_root_binds_forest [OF f(2) f(2) refl _ b b] i f show ?thesis by auto
qed

text \<open>C4: from creation on, every sequence of appends, accepted or refused, keeps the forest equal to
  its abstract state; in particular the root after the run is the root computed from scratch over
  all accepted segment commitments.\<close>

theorem forest_run_root:
  assumes "valid_regions rids" and "rids \<noteq> []" and "0 < n" and "0 < m"
    and "int (length ops) \<le> MaxInt64"
  shows "\<exists>f. NewHMF H \<lparr>cfgRegionIDs = rids, cfgNumShardsPerRegion = int n, cfgMaxSegmentLeaves = m\<rparr> = Inr f \<and>
    forest_repr H rids n (foldl (append_op_spec H rids n) (\<lambda>_. []) ops) (run_appends H f ops) \<and>
    HMF_Root H (run_appends H f ops) = forest_root H rids n (foldl (append_op_spec H rids n) (\<lambda>_. []) ops)"
proof -
  obtain f where f: "NewHMF H \<lparr>cfgRegionIDs = rids, cfgNumShardsPerRegion = int n, cfgMaxSegmentLeaves = m\<rparr> = Inr f"
      "forest_repr H rids n (\<lambda>_. []) f"
    using NewHMF_ok [of "\<lparr>cfgRegionIDs = rids, cfgNumShardsPerRegion = int n, cfgMaxSegmentLeaves = m\<rparr>" H] assms
    by auto
  have "forest_repr H rids n (foldl (append_op_spec H rids n) (\<lambda>_. []) ops) (run_appends H f ops)"
    using assms(5) by (intro run_appends_refines [OF f(2)]) simp
  with f(1) forest_repr_root show ?thesis by blast
qed

theorem forest_run_root_witness:
  "\<exists>f. NewHMF len_hash
      \<lparr>cfgRegionIDs = [''eu''], cfgNumShardsPerRegion = int 2, cfgMaxSegmentLeaves = 4\<rparr> = Inr f \<and>
    HMF_Root len_hash (run_appends len_hash f [(''eu'', 0, 0, 1, 5)]) =
    forest_root len_hash [''eu''] 2
      (foldl (append_op_spec len_hash [''eu''] 2) (\<lambda>_. []) [(''eu'', 0, 0, 1, 5)])"
  using forest_run_root [of "[''eu'']" 2 4 "[(''eu'', 0, 0, 1, 5)]" len_hash]
  by (auto simp: valid_regions_def)

text \<open>C9: what an accepted append does and returns, as a whole: on a forest that represents the segments \<open>segs\<close> and
  whose trees carry their names (as every forest that \<^verbatim>\<open>NewHMF\<close> creates and appends extend), the shard tree
  grows by the segment's commitment, the region and global trees are updated at the right leaves, and the
  returned update is the record of the new state: the identities of the three trees, the changed nodes,
  frontiers, counts, heights and leaf indexes, and the commitments as roots; its segment fields, which the
  caller fills in, are zero.\<close>

theorem append_sealed_segment_update:
  assumes "forest_repr H rids n segs f" and "r < length rids" and "s < n"
    and "0 \<le> seg" and "0 < cnt" and "int (length (segs (rids ! r, int s))) < MaxInt64" and "named_forest f"
  shows "\<exists>f' segs'. AppendSealedSegment H f (rids ! r) (int s) seg cnt root = (f', Inr (sealed_update H rids n segs' r s)) \<and>
    segs' = append_segment segs (rids ! r) (int s) (CommitSegmentRoot H (rids ! r) (int s) seg cnt root) \<and>
    forest_repr H rids n segs' f' \<and> named_forest f'"
proof -
  obtain f' u where a: "AppendSealedSegment H f (rids ! r) (int s) seg cnt root = (f', Inr u)"
    and spec: "forest_repr H rids n (append_segment segs (rids ! r) (int s) (CommitSegmentRoot H (rids ! r) (int s) seg cnt root)) f'"
      "update_spec H rids n (append_segment segs (rids ! r) (int s) (CommitSegmentRoot H (rids ! r) (int s) seg cnt root)) r s u"
    using AppendSealedSegment_refines [OF assms(1-6), of root] by blast
  note named = AppendSealedSegment_named [OF a assms(7)]
  from sealed_update_eq [OF spec(2)] named(2) [OF refl] a spec(1) named(1) show ?thesis by blast
qed

theorem append_sealed_segment_update_witness:
  "\<exists>f f'. NewHMF len_hash one_shard = Inr f \<and>
    AppendSealedSegment len_hash f ([''eu''] ! 0) (int 0) 0 3 7 =
      (f', Inr (sealed_update len_hash [''eu''] 1 ((\<lambda>_. [])((''eu'', 0) := [CommitSegmentRoot len_hash ''eu'' 0 0 3 7])) 0 0))"
proof -
  obtain f where f: "NewHMF len_hash one_shard = Inr f" "forest_repr len_hash [''eu''] 1 (\<lambda>_. []) f"
    using one_shard_forest by blast
  from append_sealed_segment_update [OF f(2), of 0 0 0 3 7] f(1) NewHMF_named [OF f(1)] show ?thesis
    by (auto simp: append_segment_def)
qed

text \<open>A forest is created exactly for a configuration with at least one region, non-empty and
  distinct region identifiers, a positive number of shards and a positive segment size; any other
  configuration gives an error.\<close>

theorem new_hmf_accepts_iff:
  "(\<exists>f. NewHMF H config = Inr f) \<longleftrightarrow>
     cfgRegionIDs config \<noteq> [] \<and> valid_regions (cfgRegionIDs config) \<and>
     0 < cfgNumShardsPerRegion config \<and> 0 < cfgMaxSegmentLeaves config"
  using NewHMF_ok [of config H] NewHMF_error [of config H] by fastforce

end
