(* ===== verification/Segment_Tree.thy ===== *)
theory Segment_Tree
  imports Merkle_Tree
begin

text \<open>
  \<^verbatim>\<open>internal/hmf/segment_tree.go\<close>: the in-memory builder of one segment. Leaves are appended until
  the segment is sealed; sealing builds every level and returns all nodes for persistence.
\<close>

section \<open>Model\<close>

record SegmentTree = MerkleTree +
  segLevels :: "MerkleNode list list"
  segMaxLeaves :: int
  segSealed :: bool

definition NewSegmentTree :: "string \<Rightarrow> int \<Rightarrow> int \<Rightarrow> int \<Rightarrow> SegmentTree result" where
  "NewSegmentTree regionID shardID segmentID maxLeaves =
     (if maxLeaves < 0 then Inl (Panic ''makeslice: cap out of range'')
      else Inr \<lparr>tTreeID = \<lparr>tidType = TreeSegment, tidRegionID = regionID, tidShardID = shardID,
                           tidSegmentID = segmentID\<rparr>,
                tRoot = 0, tLeafCount = 0, tHeight = 0,
                segLevels = [[]], segMaxLeaves = maxLeaves, segSealed = False\<rparr>)"

text \<open>The guard keeps the counter below \<open>MaxLeaves\<close>, so the increment cannot overflow.\<close>

definition SegmentTree_Append :: "SegmentTree \<Rightarrow> hash \<Rightarrow> SegmentTree result" where
  "SegmentTree_Append tree h =
     (if segSealed tree then Inl (Errorf ''append segment tree: segment tree sealed'')
      else if tLeafCount tree \<ge> segMaxLeaves tree
      then Inl (Errorf ''append segment tree: segment tree is full'')
      else rbind (slice_at (segLevels tree) 0) (\<lambda>level0.
           rbind (slice_set (segLevels tree) 0 (level0 @ [mk_node 0 (tLeafCount tree) h])) (\<lambda>levels.
           Inr (tree\<lparr>segLevels := levels, tLeafCount := tLeafCount tree + 1\<rparr>))))"

text \<open>The inner loop: \<open>index\<close> runs over the children two at a time.\<close>

fun build_nodes :: "hash_fn \<Rightarrow> int \<Rightarrow> int \<Rightarrow> MerkleNode list \<Rightarrow> MerkleNode list" where
  "build_nodes H level index [] = []"
| "build_nodes H level index [c] = [mk_node level (index div 2) (mnHash c)]"
| "build_nodes H level index (c # d # children) =
     mk_node level (index div 2) (HashPair H ''NODE'' (mnHash c) (Some (mnHash d))) #
     build_nodes H level (index + 2) children"

lemma length_build_nodes [simp]:
  "length (build_nodes H level index cs) = (length cs + 1) div 2"
  by (induction H level index cs rule: build_nodes.induct) auto

text \<open>
  The outer loop: \<open>children\<close> is \<^verbatim>\<open>tree.levels[level-1]\<close>, the slice appended by the previous
  iteration.
\<close>

function build_levels ::
  "hash_fn \<Rightarrow> int \<Rightarrow> MerkleNode list \<Rightarrow> MerkleNode list list \<Rightarrow> MerkleNode list \<Rightarrow>
     MerkleNode list list \<times> MerkleNode list" where
  "build_levels H level children levels updates =
     (if length children > 1 then
        (let nodes = build_nodes H level 0 children
         in build_levels H (level + 1) nodes (levels @ [nodes]) (updates @ nodes))
      else (levels, updates))"
  by pat_completeness auto
termination
  by (relation "measure (\<lambda>(H, level, children, levels, updates). length children)") auto

declare build_levels.simps [simp del]

definition buildInternalNode ::
  "hash_fn \<Rightarrow> SegmentTree \<Rightarrow> (SegmentTree \<times> MerkleNode list) result" where
  "buildInternalNode H tree =
     (if tLeafCount tree = 0 then Inl (Errorf ''build segment tree: segment tree has no leaves'')
      else rbind (slice_at (segLevels tree) 0) (\<lambda>level0.
        let (levels, updates) = build_levels H 1 level0 (segLevels tree) level0;
            height = int (length levels) - 1
        in rbind (slice_at levels height) (\<lambda>top.
           rbind (slice_at top 0) (\<lambda>root.
           Inr (tree\<lparr>segLevels := levels, tHeight := height, tRoot := mnHash root\<rparr>, updates)))))"

definition SegmentTree_Seal ::
  "hash_fn \<Rightarrow> SegmentTree \<Rightarrow> (SegmentTree \<times> MerkleNode list) result" where
  "SegmentTree_Seal H tree =
     (if segSealed tree then Inl (Errorf ''seal segment tree: the tree is already sealed'')
      else rbind (buildInternalNode H tree) (\<lambda>(tree', updates).
        Inr (tree'\<lparr>segSealed := True\<rparr>, updates)))"

section \<open>The builder computes the reference tree\<close>

lemma build_nodes_nodes_at:
  "even i \<Longrightarrow> build_nodes H l i (nodes_at m j hs) = nodes_at l (i div 2) (pair_up H hs)"
proof (induction H hs arbitrary: i j rule: pair_up.induct)
  case (3 H x y hs)
  then have "(i + 2) div 2 = i div 2 + 1" by simp
  with 3 show ?case by (simp add: add.assoc)
qed auto

lemma build_levels_reference:
  "build_levels H (l + 1) (nodes_at l 0 hs) (pre @ [nodes_at l 0 hs]) ups =
     (pre @ level_lists H l hs, ups @ concat (tl (level_lists H l hs)))"
proof (induction H l hs arbitrary: pre ups rule: level_lists.induct)
  case (1 H l hs)
  show ?case
  proof (cases "length hs \<le> 1")
    case True
    then show ?thesis by (subst build_levels.simps) (simp add: level_lists_base)
  next
    case False
    let ?next = "nodes_at (l + 1) 0 (pair_up H hs)"
    have "build_levels H (l + 1) (nodes_at l 0 hs) (pre @ [nodes_at l 0 hs]) ups =
        build_levels H (l + 1 + 1) ?next ((pre @ [nodes_at l 0 hs]) @ [?next]) (ups @ ?next)"
      using False by (subst build_levels.simps) (simp add: build_nodes_nodes_at Let_def)
    also have "\<dots> = ((pre @ [nodes_at l 0 hs]) @ level_lists H (l + 1) (pair_up H hs),
        (ups @ ?next) @ concat (tl (level_lists H (l + 1) (pair_up H hs))))"
      by (rule "1.IH" [OF False])
    also have "\<dots> = (pre @ level_lists H l hs, ups @ concat (tl (level_lists H l hs)))"
      using False level_lists.simps [of H "l + 1" "pair_up H hs"] by (simp add: level_lists_step)
    finally show ?thesis .
  qed
qed

section \<open>Invariant\<close>

definition seg_leaves :: "SegmentTree \<Rightarrow> hash list" where
  "seg_leaves tree = map mnHash (hd (segLevels tree))"

definition seg_inv :: "hash_fn \<Rightarrow> SegmentTree \<Rightarrow> bool" where
  "seg_inv H tree \<longleftrightarrow>
     segLevels tree \<noteq> [] \<and> hd (segLevels tree) = nodes_at 0 0 (seg_leaves tree) \<and>
     tLeafCount tree = int (length (seg_leaves tree)) \<and> tLeafCount tree \<le> segMaxLeaves tree \<and>
     (if segSealed tree
      then seg_leaves tree \<noteq> [] \<and> segLevels tree = level_lists H 0 (seg_leaves tree) \<and>
        tRoot tree = merkle_root H (seg_leaves tree) \<and>
        tHeight tree = int (theight (length (seg_leaves tree)))
      else length (segLevels tree) = 1)"

lemma NewSegmentTree_inv:
  "NewSegmentTree r s g m = Inr t \<Longrightarrow> seg_inv H t \<and> seg_leaves t = [] \<and> \<not> segSealed t"
  by (auto simp: NewSegmentTree_def seg_inv_def seg_leaves_def split: if_splits)

text \<open>Appending succeeds exactly on an open segment with room, and adds one leaf.\<close>

lemma SegmentTree_Append_ok:
  assumes "seg_inv H t" and "\<not> segSealed t" and "tLeafCount t < segMaxLeaves t"
  obtains t' where "SegmentTree_Append t h = Inr t'" and "seg_inv H t'"
    and "seg_leaves t' = seg_leaves t @ [h]" and "\<not> segSealed t'"
    and "segMaxLeaves t' = segMaxLeaves t" and "tTreeID t' = tTreeID t"
proof -
  obtain l0 where l0: "segLevels t = [l0]"
    using assms(1,2) by (auto simp: seg_inv_def length_Suc_conv)
  define t' where "t' = t\<lparr>segLevels := [l0 @ [mk_node 0 (tLeafCount t) h]],
    tLeafCount := tLeafCount t + 1\<rparr>"
  have ap: "SegmentTree_Append t h = Inr t'"
    using assms(2,3) l0
    by (simp add: SegmentTree_Append_def slice_at_def slice_set_def t'_def)
  have leaves: "seg_leaves t' = seg_leaves t @ [h]"
    using l0 by (simp add: seg_leaves_def t'_def)
  have "seg_inv H t'"
    using assms l0 leaves by (auto simp: seg_inv_def t'_def nodes_at_append)
  then show thesis
    by (rule that [OF ap _ leaves]) (use assms in \<open>auto simp: t'_def\<close>)
qed

lemma SegmentTree_Append_full:
  "\<not> segSealed t \<Longrightarrow> segMaxLeaves t \<le> tLeafCount t \<Longrightarrow>
     SegmentTree_Append t h = Inl (Errorf ''append segment tree: segment tree is full'')"
  by (simp add: SegmentTree_Append_def)

lemma SegmentTree_Append_sealed:
  "segSealed t \<Longrightarrow>
     SegmentTree_Append t h = Inl (Errorf ''append segment tree: segment tree sealed'')"
  by (simp add: SegmentTree_Append_def)

lemma SegmentTree_Append_Inr:
  assumes "seg_inv H t" and "SegmentTree_Append t h = Inr t'"
  shows "seg_inv H t' \<and> seg_leaves t' = seg_leaves t @ [h] \<and> \<not> segSealed t \<and>
    tLeafCount t < segMaxLeaves t"
proof -
  have *: "\<not> segSealed t" "tLeafCount t < segMaxLeaves t"
    using assms(2) by (auto simp: SegmentTree_Append_def split: if_splits)
  obtain t'' where "SegmentTree_Append t h = Inr t''" "seg_inv H t''"
    "seg_leaves t'' = seg_leaves t @ [h]"
    using SegmentTree_Append_ok [OF assms(1) *] by metis
  with assms(2) * show ?thesis by auto
qed

text \<open>Sealing a non-empty open segment builds the reference tree and returns all its nodes.\<close>

lemma buildInternalNode_reference:
  assumes "seg_inv H t" and "\<not> segSealed t" and "seg_leaves t \<noteq> []"
  shows "buildInternalNode H t =
    Inr (t\<lparr>segLevels := level_lists H 0 (seg_leaves t),
           tHeight := int (theight (length (seg_leaves t))),
           tRoot := merkle_root H (seg_leaves t)\<rparr>, tree_nodes H (seg_leaves t))"
proof -
  let ?hs = "seg_leaves t"
  let ?L = "level_lists H 0 ?hs"
  have l0: "segLevels t = [nodes_at 0 0 ?hs]"
    using assms(1,2) by (auto simp: seg_inv_def length_Suc_conv)
  have cnt: "tLeafCount t \<noteq> 0"
    using assms(1,3) by (simp add: seg_inv_def)
  have "build_levels H 1 (nodes_at 0 0 ?hs) [nodes_at 0 0 ?hs] (nodes_at 0 0 ?hs) =
      (?L, nodes_at 0 0 ?hs @ concat (tl ?L))"
    using build_levels_reference [of H 0 ?hs "[]" "nodes_at 0 0 ?hs"] by simp
  moreover have "nodes_at 0 0 ?hs @ concat (tl ?L) = tree_nodes H ?hs"
    using level_lists.simps [of H 0 ?hs] by (simp add: tree_nodes_def)
  moreover have "?L ! theight (length ?hs) = nodes_at (int (theight (length ?hs))) 0 [merkle_root H ?hs]"
    using assms(3) by (simp add: nth_level_lists mlevel_theight)
  ultimately show ?thesis
    using l0 cnt by (simp add: buildInternalNode_def slice_at_def length_level_lists Let_def)
qed

lemma SegmentTree_Seal_reference:
  assumes "seg_inv H t" and "\<not> segSealed t" and "seg_leaves t \<noteq> []"
  obtains t' where "SegmentTree_Seal H t = Inr (t', tree_nodes H (seg_leaves t))"
    and "seg_inv H t'" and "segSealed t'" and "seg_leaves t' = seg_leaves t"
    and "tTreeID t' = tTreeID t" and "tLeafCount t' = tLeafCount t"
    and "segMaxLeaves t' = segMaxLeaves t"
proof -
  define t' where "t' = t\<lparr>segLevels := level_lists H 0 (seg_leaves t),
    tHeight := int (theight (length (seg_leaves t))), tRoot := merkle_root H (seg_leaves t),
    segSealed := True\<rparr>"
  have leaves: "seg_leaves t' = seg_leaves t"
    by (subst seg_leaves_def) (simp add: t'_def)
  have "SegmentTree_Seal H t = Inr (t', tree_nodes H (seg_leaves t))"
    using assms by (simp add: SegmentTree_Seal_def buildInternalNode_reference t'_def)
  moreover have "seg_inv H t'"
    unfolding seg_inv_def leaves
    using assms by (simp add: seg_inv_def t'_def)
  ultimately show thesis
    by (rule that) (use leaves in \<open>auto simp: t'_def\<close>)
qed

lemma SegmentTree_Seal_empty:
  "seg_inv H t \<Longrightarrow> \<not> segSealed t \<Longrightarrow> seg_leaves t = [] \<Longrightarrow>
     SegmentTree_Seal H t = Inl (Errorf ''build segment tree: segment tree has no leaves'')"
  by (simp add: SegmentTree_Seal_def buildInternalNode_def seg_inv_def)

lemma SegmentTree_Seal_sealed:
  "segSealed t \<Longrightarrow>
     SegmentTree_Seal H t = Inl (Errorf ''seal segment tree: the tree is already sealed'')"
  by (simp add: SegmentTree_Seal_def)

lemma SegmentTree_Seal_Inr:
  assumes "seg_inv H t" and "SegmentTree_Seal H t = Inr (t', ns)"
  shows "seg_inv H t'" and "segSealed t'" and "seg_leaves t' = seg_leaves t"
    and "ns = tree_nodes H (seg_leaves t)" and "seg_leaves t \<noteq> []" and "tTreeID t' = tTreeID t"
    and "\<not> segSealed t"
proof -
  have *: "\<not> segSealed t" "seg_leaves t \<noteq> []"
    using assms SegmentTree_Seal_sealed SegmentTree_Seal_empty [OF assms(1)] by fastforce+
  obtain t'' where s: "SegmentTree_Seal H t = Inr (t'', tree_nodes H (seg_leaves t))"
    "seg_inv H t''" "segSealed t''" "seg_leaves t'' = seg_leaves t" "tTreeID t'' = tTreeID t"
    using SegmentTree_Seal_reference [OF assms(1) *] by metis
  with assms(2) have "t'' = t'" "ns = tree_nodes H (seg_leaves t)" by auto
  with s * show "seg_inv H t'" "segSealed t'" "seg_leaves t' = seg_leaves t"
    "ns = tree_nodes H (seg_leaves t)" "seg_leaves t \<noteq> []" "tTreeID t' = tTreeID t"
    "\<not> segSealed t" by auto
qed

end
