(* ===== verification/HPP_Types.thy ===== *)
theory HPP_Types
  imports Merkle_Tree
begin

text \<open>
  \<^verbatim>\<open>internal/hpp/plan.go\<close> and \<^verbatim>\<open>internal/hpp/grouping.go\<close>: the data of hierarchical proofs, the two
  orders the planner sorts by, and the normalisation of requested addresses. Both orders are
  strict total orders, so what \<^verbatim>\<open>sort.Slice\<close> returns does not depend on the order in which Go
  iterates over a map.
\<close>

section \<open>Types\<close>

record PhysicalAddress =
  paRegionID :: string
  paShardID :: int
  paSegmentID :: int
  paLeafID :: int

record RequestedLeaf =
  rlAddress :: PhysicalAddress
  rlHash :: hash

type_synonym TreeLayer = "8 word"

definition LayerSegment :: TreeLayer where
  "LayerSegment = 1"

definition LayerShard :: TreeLayer where
  "LayerShard = 2"

definition LayerRegion :: TreeLayer where
  "LayerRegion = 3"

definition LayerGlobal :: TreeLayer where
  "LayerGlobal = 4"

record TreeRef =
  trLayer :: TreeLayer
  trRegionID :: string
  trShardID :: int
  trSegmentID :: int

record SegmentKey =
  skRegionID :: string
  skShardID :: int
  skSegmentID :: int

record ShardKey =
  hkRegionID :: string
  hkShardID :: int

record NodePosition =
  npLevel :: int
  npIndex :: int

record NodeRef =
  nrTree :: TreeRef
  nrPosition :: NodePosition

abbreviation mk_pos :: "int \<Rightarrow> int \<Rightarrow> NodePosition" where
  "mk_pos l i \<equiv> \<lparr>npLevel = l, npIndex = i\<rparr>"

abbreviation mk_ref :: "TreeRef \<Rightarrow> NodePosition \<Rightarrow> NodeRef" where
  "mk_ref t p \<equiv> \<lparr>nrTree = t, nrPosition = p\<rparr>"

record SegmentMetadata =
  smLeafCount :: int
  smShardLeafIndex :: int
  smSealed :: bool

record UpperTreeMetadata =
  umLeafCount :: int
  umParentLeafIndex :: int

record HierarchyMetadata =
  hmSegments :: "SegmentKey \<rightharpoonup> SegmentMetadata"
  hmShards :: "ShardKey \<rightharpoonup> UpperTreeMetadata"
  hmRegions :: "string \<rightharpoonup> UpperTreeMetadata"
  hmGlobal :: UpperTreeMetadata

record TreePlan =
  tpTree :: TreeRef
  tpLeafCount :: int
  tpTargets :: "int list"
  tpRequired :: "NodePosition list"

record ParentLink =
  plChild :: TreeRef
  plParent :: TreeRef
  plParentLeafIndex :: int

record SegmentRequest =
  srTree :: TreeRef
  srRegionID :: string
  srShardID :: int
  srSegmentID :: int
  srLevel :: int
  srNodeIndexes :: "int list"

record UpperRequest =
  urTree :: TreeRef
  urScopeType :: string
  urScopeID :: string
  urBucketID :: int
  urLevel :: int
  urNodeIndexes :: "int list"

record ProofPlan =
  ppAddresses :: "PhysicalAddress list"
  ppTrees :: "TreePlan list"
  ppParentLinks :: "ParentLink list"
  ppSegmentRequests :: "SegmentRequest list"
  ppUpperRequests :: "UpperRequest list"

record ProofNode =
  pnRef :: NodeRef
  pnHash :: hash

record HMFProof =
  hpPlan :: ProofPlan
  hpLeaves :: "RequestedLeaf list"
  hpNodes :: "ProofNode list"

record ProofTrace =
  ptGlobalRoot :: hash
  ptRawRoots :: "(TreeRef, hash) gomap"
  ptCommittedRoots :: "(TreeRef, hash) gomap"
  ptNodes :: "(NodeRef, hash) gomap"

record VerificationResult =
  vrCalculatedGlobalRoot :: hash
  vrProof :: HMFProof
  vrTrace :: "ProofTrace option"

section \<open>Grouping\<close>

definition ShardNodesPerBucket :: int where
  "ShardNodesPerBucket = 2 ^ 15"

definition addressLess :: "PhysicalAddress \<Rightarrow> PhysicalAddress \<Rightarrow> bool" where
  "addressLess left right =
     (if paRegionID left \<noteq> paRegionID right then paRegionID left < paRegionID right
      else if paShardID left \<noteq> paShardID right then paShardID left < paShardID right
      else if paSegmentID left \<noteq> paSegmentID right then paSegmentID left < paSegmentID right
      else paLeafID left < paLeafID right)"

definition check_address :: "PhysicalAddress \<Rightarrow> unit result" where
  "check_address address =
     (if paRegionID address = '''' then Inl (Errorf ''HPP: region ID is required'')
      else if paShardID address < 0 \<or> paSegmentID address < 0 \<or> paLeafID address < 0
      then Inl (Errorf ''HPP: physical address IDs must be nonnegative: %+v'')
      else Inr ())"

definition normalizeAddresses :: "PhysicalAddress list \<Rightarrow> PhysicalAddress list result" where
  "normalizeAddresses addresses =
     rbind (rfold (\<lambda>unique address. rbind (check_address address) (\<lambda>_. Inr (set_add address unique)))
       [] addresses) (\<lambda>unique.
     Inr (sort_Slice addressLess unique))"

definition segmentTree :: "SegmentKey \<Rightarrow> TreeRef" where
  "segmentTree key = \<lparr>trLayer = LayerSegment, trRegionID = skRegionID key,
     trShardID = skShardID key, trSegmentID = skSegmentID key\<rparr>"

definition shardTree :: "ShardKey \<Rightarrow> TreeRef" where
  "shardTree key = \<lparr>trLayer = LayerShard, trRegionID = hkRegionID key,
     trShardID = hkShardID key, trSegmentID = 0\<rparr>"

definition regionTree :: "string \<Rightarrow> TreeRef" where
  "regionTree regionID = \<lparr>trLayer = LayerRegion, trRegionID = regionID, trShardID = 0, trSegmentID = 0\<rparr>"

definition globalTree :: TreeRef where
  "globalTree = \<lparr>trLayer = LayerGlobal, trRegionID = '''', trShardID = 0, trSegmentID = 0\<rparr>"

definition treeRefLess :: "TreeRef \<Rightarrow> TreeRef \<Rightarrow> bool" where
  "treeRefLess left right =
     (if trLayer left \<noteq> trLayer right then trLayer left < trLayer right
      else if trRegionID left \<noteq> trRegionID right then trRegionID left < trRegionID right
      else if trShardID left \<noteq> trShardID right then trShardID left < trShardID right
      else trSegmentID left < trSegmentID right)"

text \<open>Both shifts are on \<^verbatim>\<open>int64\<close>; the left shift wraps.\<close>

definition shardBucketID :: "int \<Rightarrow> int \<Rightarrow> int" where
  "shardBucketID level nodeIndex =
     (if level < 15 then nodeIndex div 2 ^ nat (15 - level)
      else wrap64 (nodeIndex * 2 ^ nat (level - 15)))"

abbreviation segment_key :: "PhysicalAddress \<Rightarrow> SegmentKey" where
  "segment_key a \<equiv> \<lparr>skRegionID = paRegionID a, skShardID = paShardID a, skSegmentID = paSegmentID a\<rparr>"

section \<open>The orders\<close>

interpretation address_order: strict_total addressLess
proof unfold_locales
  show "addressLess x y \<Longrightarrow> addressLess y z \<Longrightarrow> addressLess x z" for x y z
    unfolding addressLess_def by (auto split: if_splits)
  show "x \<noteq> y \<Longrightarrow> addressLess x y \<or> addressLess y x" for x y
    unfolding addressLess_def by (cases x; cases y) (auto split: if_splits)
qed (auto simp: addressLess_def)

interpretation tree_ref_order: strict_total treeRefLess
proof unfold_locales
  show "treeRefLess x y \<Longrightarrow> treeRefLess y z \<Longrightarrow> treeRefLess x z" for x y z
    unfolding treeRefLess_def by (auto split: if_splits)
  show "x \<noteq> y \<Longrightarrow> treeRefLess x y \<or> treeRefLess y x" for x y
    unfolding treeRefLess_def by (cases x; cases y) (auto split: if_splits)
qed (auto simp: treeRefLess_def)

section \<open>Normalised addresses\<close>

definition valid_address :: "PhysicalAddress \<Rightarrow> bool" where
  "valid_address a \<longleftrightarrow> paRegionID a \<noteq> '''' \<and> 0 \<le> paShardID a \<and> 0 \<le> paSegmentID a \<and> 0 \<le> paLeafID a"

lemma check_address_Inr [simp]: "check_address a = Inr u \<longleftrightarrow> valid_address a"
  by (auto simp: check_address_def valid_address_def)

lemma normalize_loop:
  assumes "distinct acc"
  shows "(\<forall>a \<in> set as. valid_address a) \<Longrightarrow>
      \<exists>u. rfold (\<lambda>unique address. rbind (check_address address) (\<lambda>_. Inr (set_add address unique))) acc as = Inr u \<and>
        distinct u \<and> set u = set acc \<union> set as"
    and "\<exists>a \<in> set as. \<not> valid_address a \<Longrightarrow>
      \<exists>e. rfold (\<lambda>unique address. rbind (check_address address) (\<lambda>_. Inr (set_add address unique))) acc as = Inl e"
proof -
  let ?f = "\<lambda>unique address. rbind (check_address address) (\<lambda>_. Inr (set_add address unique))"
  have ok: "?f u a = Inr (set_add a u)" if "valid_address a" for u a
    using that by (auto simp: check_address_def valid_address_def)
  have bad: "\<exists>e. ?f u a = Inl e" if "\<not> valid_address a" for u a
    using that by (auto simp: check_address_def valid_address_def)
  show "\<exists>u. rfold ?f acc as = Inr u \<and> distinct u \<and> set u = set acc \<union> set as" if "\<forall>a \<in> set as. valid_address a"
    using that assms
  proof (induction as arbitrary: acc)
    case (Cons a as)
    then obtain u where "rfold ?f (set_add a acc) as = Inr u" "distinct u" "set u = insert a (set acc) \<union> set as"
      using Cons.IH [of "set_add a acc"] by auto
    with ok [of a acc] Cons.prems(1) show ?case by auto
  qed auto
  show "\<exists>e. rfold ?f acc as = Inl e" if "\<exists>a \<in> set as. \<not> valid_address a"
    using that
  proof (induction as arbitrary: acc)
    case (Cons a as)
    show ?case
    proof (cases "valid_address a")
      case True
      with Cons obtain e where "rfold ?f (set_add a acc) as = Inl e" by fastforce
      with ok [OF True, of acc] show ?thesis by (simp del: rbind_eq_Inr_iff)
    next
      case False
      then obtain e where "?f acc a = Inl e" using bad by blast
      then show ?thesis by simp
    qed
  qed simp
qed

text \<open>The result is the sorted list of the distinct requested addresses; one invalid address is an error.\<close>

lemma normalizeAddresses_ok:
  assumes "\<forall>a \<in> set as. valid_address a"
  obtains ns where "normalizeAddresses as = Inr ns" and "sorted_wrt addressLess ns" and "set ns = set as"
proof -
  obtain u where "rfold (\<lambda>unique address. rbind (check_address address) (\<lambda>_. Inr (set_add address unique))) [] as = Inr u"
    "distinct u" "set u = set as"
    using normalize_loop(1) [OF distinct.simps(1) [THEN iffD2, OF TrueI] assms] by auto
  then show thesis
    using that [of "sort_Slice addressLess u"] address_order.sorted_sort_Slice
    by (auto simp: normalizeAddresses_def)
qed

lemma normalizeAddresses_Inr:
  assumes "normalizeAddresses as = Inr ns"
  shows "sorted_wrt addressLess ns \<and> set ns = set as \<and> (\<forall>a \<in> set as. valid_address a)"
proof -
  have valid: "\<forall>a \<in> set as. valid_address a"
    using assms normalize_loop(2) [of "[]" as] by (fastforce simp: normalizeAddresses_def)
  from normalizeAddresses_ok [OF this] assms show ?thesis using valid by (metis sum.inject(2))
qed

lemma normalizeAddresses_idem:
  assumes "sorted_wrt addressLess as" and "\<forall>a \<in> set as. valid_address a"
  shows "normalizeAddresses as = Inr as"
  using normalizeAddresses_ok [OF assms(2)] address_order.sorted_unique assms(1) by metis

end
