(* ===== verification/HPP_Multiproof.thy ===== *)
theory HPP_Multiproof
  imports HPP_Types
begin

text \<open>
  The multiproof of one tree: \<^verbatim>\<open>planTree\<close> of \<^verbatim>\<open>internal/hpp/planner.go\<close> computes which nodes a verifier
  needs beside the target leaves, \<^verbatim>\<open>reconstructTreeTrace\<close> of \<^verbatim>\<open>internal/hpp/verifier.go\<close> folds leaves and
  nodes up to the root. Both walk the same sorted lists of active indexes, one per level. The
  main results: the plan lists exactly the missing siblings, in order; a reconstruction over a
  plan's nodes always returns; honest leaves and nodes give the root of the tree; and a
  reconstructed root that is the root of a tree makes every leaf and node it used a node of that
  tree, if the hash does not collide on the strings involved.
\<close>

section \<open>The planner of one tree\<close>

text \<open>
  The inner loop of \<^verbatim>\<open>planTree\<close>: one group per parent. An active index is the left or the right
  child of its parent, so each iteration consumes at least one.
\<close>

function plan_level :: "int \<Rightarrow> int \<Rightarrow> int list \<Rightarrow> NodePosition list \<times> int list" where
  "plan_level level width [] = ([], [])"
| "plan_level level width (a # as) =
     (let parent = a div 2; left = parent * 2; right = parent * 2 + 1;
          haveLeft = (a = left);
          haveRight = (if haveLeft then (case as of b # _ \<Rightarrow> b = right | [] \<Rightarrow> False) else True);
          rest = (if haveLeft \<and> haveRight then tl as else as);
          req = (if \<not> haveLeft then [mk_pos level left] else []) @
                (if \<not> haveRight \<and> right < width then [mk_pos level right] else []);
          (reqs, parents) = plan_level level width rest
      in (req @ reqs, parent # parents))"
  by pat_completeness auto
termination
  by (relation "measure (\<lambda>(level, width, as). length as)") (simp_all add: less_Suc_eq_le)

text \<open>The outer loop, with the wrap-around of \<^verbatim>\<open>width + 1\<close>.\<close>

lemma wrap64_le: "- (2 ^ 63) \<le> x \<Longrightarrow> wrap64 x \<le> x"
proof -
  assume "- (2 ^ 63) \<le> x"
  then have "(x + 2 ^ 63) mod 2 ^ 64 \<le> x + 2 ^ 63" by (intro zmod_le_nonneg_dividend) simp
  then show ?thesis by (simp add: wrap64_def)
qed

lemma width_decreases: "1 < width \<Longrightarrow> nat (wrap64 (width + 1) div 2) < nat width"
  using wrap64_le [of "width + 1"] by simp

function plan_levels :: "int \<Rightarrow> int \<Rightarrow> int list \<Rightarrow> NodePosition list" where
  "plan_levels level width active =
     (if 1 < width then
        (let (required, parents) = plan_level level width active
         in required @ plan_levels (level + 1) (wrap64 (width + 1) div 2) parents)
      else [])"
  by pat_completeness auto
termination
  by (relation "measure (\<lambda>(level, width, active). nat width)") (auto dest: width_decreases)

declare plan_levels.simps [simp del]

text \<open>\<open>targets\<close> lists the keys of the Go set of targets.\<close>

definition planTree :: "TreeRef \<Rightarrow> int \<Rightarrow> int list \<Rightarrow> TreePlan result" where
  "planTree tree leafCount targets =
     (if leafCount \<le> 0 then Inl (Errorf ''HPP: tree %+v must contain at least one leaf'')
      else if length targets = 0 then Inl (Errorf ''HPP: tree %+v has no target leaves'')
      else if \<exists>index \<in> set targets. index < 0 \<or> leafCount \<le> index
      then Inl (Errorf ''HPP: target leaf %d outside tree %+v'')
      else let active = sort_Slice (<) targets
           in Inr \<lparr>tpTree = tree, tpLeafCount = leafCount, tpTargets = active,
                   tpRequired = plan_levels 0 leafCount active\<rparr>)"

section \<open>The reconstruction of one tree\<close>

definition proofAt :: "(NodePosition, hash) gomap \<Rightarrow> int \<Rightarrow> int \<Rightarrow> hash result" where
  "proofAt proofNodes level index =
     (case map_of proofNodes (mk_pos level index) of
        None \<Rightarrow> Inl (Errorf ''missing proof node at level %d index %d'')
      | Some hash \<Rightarrow> Inr hash)"

text \<open>
  The inner loop of \<^verbatim>\<open>reconstructTreeTrace\<close>. It returns the next level and the number of looked-up
  nodes. An index that is not the left child of its parent is the right child; where there is no
  right child in the level, the source would look the left node up again and again without
  advancing, which is the value \<open>Diverge\<close>.
\<close>

fun recon_level ::
  "hash_fn \<Rightarrow> int \<Rightarrow> int \<Rightarrow> (NodePosition, hash) gomap \<Rightarrow> (int \<times> hash) list \<Rightarrow>
     ((int \<times> hash) list \<times> nat) result" where
  "recon_level H level width proofNodes [] = Inr ([], 0)"
| "recon_level H level width proofNodes ((i, h) # cs) =
     (let parentIndex = i div 2; leftIndex = parentIndex * 2; rightIndex = leftIndex + 1
      in if i = leftIndex then
           (if rightIndex < width then
              (case cs of
                 (j, g) # cs' \<Rightarrow>
                   if j = rightIndex then
                     rbind (recon_level H level width proofNodes cs') (\<lambda>(next, used).
                     Inr ((parentIndex, HashPair H ''NODE'' h (Some g)) # next, used))
                   else
                     rbind (proofAt proofNodes level rightIndex) (\<lambda>right.
                     rbind (recon_level H level width proofNodes cs) (\<lambda>(next, used).
                     Inr ((parentIndex, HashPair H ''NODE'' h (Some right)) # next, used + 1)))
               | [] \<Rightarrow>
                   rbind (proofAt proofNodes level rightIndex) (\<lambda>right.
                   Inr ([(parentIndex, HashPair H ''NODE'' h (Some right))], 1)))
            else
              rbind (recon_level H level width proofNodes cs) (\<lambda>(next, used).
              Inr ((parentIndex, h) # next, used)))
         else
           rbind (proofAt proofNodes level leftIndex) (\<lambda>left.
           if rightIndex < width then
             rbind (recon_level H level width proofNodes cs) (\<lambda>(next, used).
             Inr ((parentIndex, HashPair H ''NODE'' left (Some h)) # next, used + 1))
           else Inl Diverge))"

text \<open>
  The outer loop. It returns the last slice, the number of looked-up nodes and the reconstructed
  nodes in the order in which they are recorded.
\<close>

function recon_levels ::
  "hash_fn \<Rightarrow> int \<Rightarrow> int \<Rightarrow> (NodePosition, hash) gomap \<Rightarrow> (int \<times> hash) list \<Rightarrow>
     ((int \<times> hash) list \<times> nat \<times> (NodePosition \<times> hash) list) result" where
  "recon_levels H level width proofNodes current =
     (if 1 < width then
        rbind (recon_level H level width proofNodes current) (\<lambda>(next, used).
        rbind (recon_levels H (level + 1) (wrap64 (width + 1) div 2) proofNodes next)
          (\<lambda>(top, used', recorded).
        Inr (top, used + used', map (\<lambda>(i, h). (mk_pos (level + 1) i, h)) next @ recorded)))
      else Inr (current, 0, []))"
  by pat_completeness auto
termination
  by (relation "measure (\<lambda>(H, level, width, proofNodes, current). nat width)")
    (auto dest: width_decreases)

declare recon_levels.simps [simp del]

text \<open>
  \<open>out\<close> is the map the trace is recorded in, or nothing. The order by the index sorts the known
  leaves, whose indexes are the keys of a map.
\<close>

definition record_nodes ::
  "TreeRef \<Rightarrow> (NodePosition \<times> hash) list \<Rightarrow> (NodeRef, hash) gomap \<Rightarrow> (NodeRef, hash) gomap" where
  "record_nodes tree ns out = foldl (\<lambda>out (p, h). gm_put (mk_ref tree p) h out) out ns"

definition reconstructTreeTrace ::
  "hash_fn \<Rightarrow> int \<Rightarrow> (int, hash) gomap \<Rightarrow> (NodePosition, hash) gomap \<Rightarrow> TreeRef \<Rightarrow>
     (NodeRef, hash) gomap option \<Rightarrow> (hash \<times> (NodeRef, hash) gomap option) result" where
  "reconstructTreeTrace H leafCount knownLeaves proofNodes tree out =
     (if leafCount \<le> 0 \<or> length knownLeaves = 0
      then Inl (Errorf ''invalid tree leaf count or empty target set'')
      else if \<exists>(index, _) \<in> set knownLeaves. index < 0 \<or> leafCount \<le> index
      then Inl (Errorf ''known leaf index %d out of range'')
      else
        let current = sort_Slice (\<lambda>a b. fst a < fst b) knownLeaves
        in rbind (recon_levels H 0 leafCount proofNodes current) (\<lambda>(top, used, recorded).
           if length top \<noteq> 1 then Inl (Errorf ''tree reconstruction produced %d roots'')
           else if used \<noteq> length proofNodes
           then Inl (Errorf ''%d of %d proof nodes were unused'')
           else Inr (snd (hd top),
             map_option (\<lambda>ns.
               record_nodes tree recorded
                 (record_nodes tree proofNodes
                   (record_nodes tree (map (\<lambda>(i, h). (mk_pos 0 i, h)) knownLeaves) ns))) out)))"

definition reconstructTreeRoot ::
  "hash_fn \<Rightarrow> int \<Rightarrow> (int, hash) gomap \<Rightarrow> (NodePosition, hash) gomap \<Rightarrow> hash result" where
  "reconstructTreeRoot H leafCount knownLeaves proofNodes =
     rbind (reconstructTreeTrace H leafCount knownLeaves proofNodes
       \<lparr>trLayer = 0, trRegionID = '''', trShardID = 0, trSegmentID = 0\<rparr> None) (\<lambda>(root, _). Inr root)"

section \<open>One level\<close>

text \<open>The parents of a sorted list of indexes, and the siblings it lacks in a level of a given width.\<close>

fun parents :: "int list \<Rightarrow> int list" where
  "parents [] = []"
| "parents [i] = [i div 2]"
| "parents (i # j # is) =
     (if i div 2 = j div 2 then i div 2 # parents is else i div 2 # parents (j # is))"

fun missing :: "int \<Rightarrow> int list \<Rightarrow> int list" where
  "missing w [] = []"
| "missing w [i] = (if even i then (if i + 1 < w then [i + 1] else []) else [i - 1])"
| "missing w (i # j # is) =
     (if i div 2 = j div 2 then missing w is
      else (if even i then (if i + 1 < w then [i + 1] else []) else [i - 1]) @ missing w (j # is))"

definition index_list :: "int \<Rightarrow> int list \<Rightarrow> bool" where
  "index_list w is \<longleftrightarrow> sorted_wrt (<) is \<and> (\<forall>i \<in> set is. 0 \<le> i \<and> i < w)"

lemma index_list_Cons [simp]:
  "index_list w (i # is) \<longleftrightarrow> 0 \<le> i \<and> i < w \<and> (\<forall>j \<in> set is. i < j) \<and> index_list w is"
  by (auto simp: index_list_def)

lemma index_list_Nil [simp]: "index_list w []"
  by (simp add: index_list_def)

lemma pair_of_parent: "i < j \<Longrightarrow> i div 2 = j div 2 \<longleftrightarrow> even i \<and> j = i + 1" for i j :: int
  by presburger

lemma div_mult_2: "i div 2 * 2 = (if even i then i else i - 1)" for i :: int
  by presburger

lemma plan_level_eq:
  "index_list w is \<Longrightarrow> plan_level l w is = (map (mk_pos l) (missing w is), parents is)"
proof (induction w "is" rule: missing.induct)
  case (2 w i)
  then show ?case by (simp add: div_mult_2 Let_def)
next
  case (3 w i j "is")
  then have lt: "i < j" by simp
  show ?case
  proof (cases "i div 2 = j div 2")
    case True
    then have j: "even i" "j = i + 1" using pair_of_parent [OF lt] by auto
    have IH: "plan_level l w is = (map (mk_pos l) (missing w is), parents is)"
      using 3(1) [OF True] 3(3) by simp
    have out: "missing w (i # j # is) = missing w is" "parents (i # j # is) = i div 2 # parents is"
      using True by simp_all
    show ?thesis
      unfolding out plan_level.simps(2) [of l w i]
      using j IH by (simp add: div_mult_2 Let_def del: plan_level.simps(2))
  next
    case False
    then have j: "even i \<Longrightarrow> j \<noteq> i + 1" using pair_of_parent [OF lt] by auto
    have IH: "plan_level l w (j # is) = (map (mk_pos l) (missing w (j # is)), parents (j # is))"
      using 3(2) [OF False] 3(3) by simp
    have out: "missing w (i # j # is) = missing w [i] @ missing w (j # is)"
      "parents (i # j # is) = i div 2 # parents (j # is)" using False by simp_all
    show ?thesis
      unfolding out plan_level.simps(2) [of l w i]
      using j IH by (cases "even i") (simp_all add: div_mult_2 Let_def del: plan_level.simps(2))
  qed
qed simp

lemma set_parents: "set (parents is) = (\<lambda>i. i div 2) ` set is"
  by (induction "is" rule: parents.induct) auto

lemma parents_index_list:
  "index_list w is \<Longrightarrow> index_list ((w + 1) div 2) (parents is)"
proof (induction "is" rule: parents.induct)
  case (2 i)
  then show ?case by auto
next
  case (3 i j "is")
  have lt: "i < j" and gt: "\<forall>k \<in> set is. j < k" using 3(3) by auto
  have i2: "0 \<le> i div 2" "i div 2 < (w + 1) div 2" using 3(3) by auto
  show ?case
  proof (cases "i div 2 = j div 2")
    case True
    then have "j = i + 1" "even i" using pair_of_parent [OF lt] by auto
    then have "i div 2 < k div 2" if "k \<in> set is" for k using gt that by fastforce
    with True 3 i2 show ?thesis by (auto simp: set_parents)
  next
    case False
    have "i div 2 \<le> j div 2" using lt by (simp add: zdiv_mono1)
    then have "i div 2 < k div 2" if "k \<in> insert j (set is)" for k
      using that gt False zdiv_mono1 [of j k 2] by fastforce
    with False 3 i2 show ?thesis by (auto simp: set_parents)
  qed
qed simp

text \<open>The missing siblings: in the level, not in the list, with a parent in the next list.\<close>

lemma set_missing:
  "index_list w is \<Longrightarrow>
     s \<in> set (missing w is) \<longleftrightarrow> 0 \<le> s \<and> s < w \<and> s \<notin> set is \<and> s div 2 \<in> (\<lambda>i. i div 2) ` set is"
proof (induction w "is" rule: missing.induct)
  case (2 w i)
  show ?case
  proof (cases "even i")
    case True
    then have "s div 2 = i div 2 \<longleftrightarrow> s = i \<or> s = i + 1" by presburger
    with 2 True show ?thesis by auto
  next
    case False
    then have "s div 2 = i div 2 \<longleftrightarrow> s = i \<or> s = i - 1" by presburger
    moreover have "0 \<le> i - 1" using 2 False by (auto elim!: oddE)
    ultimately show ?thesis using 2 False by auto
  qed
next
  case (3 w i j "is")
  have lt: "i < j" and gt: "\<forall>k \<in> set is. j < k" using 3(3) by auto
  show ?case
  proof (cases "i div 2 = j div 2")
    case True
    then have j: "j = i + 1" "even i" using pair_of_parent [OF lt] by auto
    then have "s div 2 = i div 2 \<longleftrightarrow> s = i \<or> s = j" by presburger
    moreover have "k div 2 \<noteq> i div 2" if "k \<in> set is" for k using gt that j by fastforce
    ultimately show ?thesis using 3(1) [OF True] 3(3) True by auto
  next
    case False
    have le: "i div 2 < k div 2" if "k \<in> insert j (set is)" for k
    proof -
      have "i div 2 \<le> j div 2" "j div 2 \<le> k div 2" using lt gt that by (auto intro: zdiv_mono1)
      with False show ?thesis by linarith
    qed
    have own: "s \<in> set (missing w [i]) \<longleftrightarrow> 0 \<le> s \<and> s < w \<and> s \<noteq> i \<and> s div 2 = i div 2"
    proof (cases "even i")
      case True
      then have "s div 2 = i div 2 \<longleftrightarrow> s = i \<or> s = i + 1" by presburger
      with 3(3) True show ?thesis by auto
    next
      case odd: False
      then have "s div 2 = i div 2 \<longleftrightarrow> s = i \<or> s = i - 1" by presburger
      moreover have "0 \<le> i - 1" using 3(3) odd by (auto elim!: oddE)
      ultimately show ?thesis using 3(3) odd by auto
    qed
    have "s \<in> set (missing w (i # j # is)) \<longleftrightarrow> s \<in> set (missing w [i]) \<or> s \<in> set (missing w (j # is))"
      using False by simp
    also have "\<dots> \<longleftrightarrow> 0 \<le> s \<and> s < w \<and> s \<notin> set (i # j # is) \<and> s div 2 \<in> (\<lambda>i. i div 2) ` set (i # j # is)"
    proof -
      have "index_list w (j # is)" using 3(3) by simp
      note rest = 3(2) [OF False this]
      have "s \<noteq> k" if "k \<in> set (j # is)" "s div 2 = i div 2" for k using le [of k] that by auto
      moreover have "s \<noteq> i" if "s div 2 \<in> (\<lambda>i. i div 2) ` set (j # is)"
      proof -
        from that obtain k where "k \<in> set (j # is)" "s div 2 = k div 2" by blast
        with le [of k] show ?thesis by auto
      qed
      ultimately show ?thesis unfolding own rest by auto
    qed
    finally show ?thesis .
  qed
qed simp

text \<open>
  A level of the reconstruction, for hashes given by a function of the index: \<open>side\<close> is the hash
  of an active index, or of a missing sibling as the proof supplies it.
\<close>

definition combine :: "hash_fn \<Rightarrow> int \<Rightarrow> (int \<Rightarrow> hash) \<Rightarrow> int \<Rightarrow> hash" where
  "combine H w side p =
     (if p * 2 + 1 < w then HashPair H ''NODE'' (side (p * 2)) (Some (side (p * 2 + 1)))
      else side (p * 2))"

lemma recon_level_eq:
  assumes "index_list w is"
    and "\<And>s. s \<in> set (missing w is) \<Longrightarrow> map_of nodes (mk_pos l s) = Some (side s)"
  shows "recon_level H l w nodes (map (\<lambda>i. (i, side i)) is) =
    Inr (map (\<lambda>p. (p, combine H w side p)) (parents is), length (missing w is))"
  using assms
proof (induction w "is" rule: missing.induct)
  case (2 w i)
  have "i + 1 < w" if "even i" "i div 2 * 2 + 1 < w" using that by (simp add: div_mult_2)
  with 2 show ?case by (auto simp: div_mult_2 Let_def combine_def proofAt_def)
next
  case (3 w i j "is")
  then have lt: "i < j" by simp
  show ?case
  proof (cases "i div 2 = j div 2")
    case True
    then have j: "even i" "j = i + 1" using pair_of_parent [OF lt] by auto
    have out: "missing w (i # j # is) = missing w is" "parents (i # j # is) = i div 2 # parents is"
      using True by simp_all
    have IH: "recon_level H l w nodes (map (\<lambda>i. (i, side i)) is) =
        Inr (map (\<lambda>p. (p, combine H w side p)) (parents is), length (missing w is))"
      using 3(1) [OF True] 3(3,4) out by simp
    have w: "i + 1 < w" using 3(3) j by simp
    have split: "map (\<lambda>i. (i, side i)) (i # j # is) =
        (i, side i) # (j, side j) # map (\<lambda>i. (i, side i)) is" by simp
    show ?thesis
      unfolding out split recon_level.simps(2) [of H l w nodes i]
      using j w IH by (simp add: div_mult_2 Let_def combine_def del: recon_level.simps(2))
  next
    case False
    then have j: "even i \<Longrightarrow> j \<noteq> i + 1" using pair_of_parent [OF lt] by auto
    have IH: "recon_level H l w nodes (map (\<lambda>i. (i, side i)) (j # is)) =
        Inr (map (\<lambda>p. (p, combine H w side p)) (parents (j # is)), length (missing w (j # is)))"
      using 3(2) [OF False] 3(3,4) False by auto
    have own: "map_of nodes (mk_pos l s) = Some (side s)" if "s \<in> set (missing w [i])" for s
      using 3(4) [of s] that False by auto
    have out: "missing w (i # j # is) = missing w [i] @ missing w (j # is)"
      "parents (i # j # is) = i div 2 # parents (j # is)" using False by simp_all
    have w: "i < w" using 3(3) by simp
    have split: "map (\<lambda>i. (i, side i)) (i # j # is) = (i, side i) # map (\<lambda>i. (i, side i)) (j # is)"
      by simp
    show ?thesis
      unfolding out split recon_level.simps(2) [of H l w nodes i] IH
      using own j w by (cases "even i")
        (simp_all add: div_mult_2 Let_def combine_def proofAt_def del: recon_level.simps(2))
  qed
qed simp

section \<open>All levels\<close>

text \<open>The active indexes of each level above a sorted list of targets.\<close>

definition active :: "int list \<Rightarrow> nat \<Rightarrow> int list" where
  "active T k = (parents ^^ k) T"

lemma active_0 [simp]: "active T 0 = T"
  by (simp add: active_def)

lemma active_Suc: "active T (Suc k) = active (parents T) k"
  by (simp add: active_def funpow_swap1)

lemma active_Suc': "active T (Suc k) = parents (active T k)"
  by (simp add: active_def)

lemma active_index_list:
  "index_list (int n) T \<Longrightarrow> index_list (int (level_width n k)) (active T k)"
proof (induction k)
  case (Suc k)
  then have "index_list ((int (level_width n k) + 1) div 2) (parents (active T k))"
    by (intro parents_index_list) simp
  moreover have "(int (level_width n k) + 1) div 2 = int (level_width n (Suc k))"
    unfolding level_width_Suc' by (simp add: zdiv_int add.commute)
  ultimately show ?case by (simp add: active_Suc')
qed simp

lemma parents_eq_Nil [simp]: "parents is = [] \<longleftrightarrow> is = []"
  by (cases "is" rule: parents.cases) auto

lemma active_eq_Nil [simp]: "active T k = [] \<longleftrightarrow> T = []"
  by (induction k) (auto simp: active_Suc')

lemma set_active: "set (active T k) = (\<lambda>t. t div 2 ^ k) ` set T"
proof (induction k)
  case (Suc k)
  have "t div 2 ^ k div 2 = t div 2 ^ Suc k" for t :: int
    by (metis div_mult2_eq' of_nat_numeral power_Suc2 zdiv_zmult2_eq zero_le_numeral)
  with Suc show ?case by (simp add: active_Suc' set_parents image_image del: power_Suc)
qed simp

lemma active_top:
  assumes "index_list (int n) T" and "T \<noteq> []"
  shows "active T (theight n) = [0]"
proof -
  have n: "0 < n" using assms by (cases T) auto
  then have "index_list 1 (active T (theight n))"
    using active_index_list [OF assms(1), of "theight n"] level_width_theight by simp
  then show ?thesis
    using assms(2) by (cases "active T (theight n)" rule: parents.cases) (auto simp: index_list_def)
qed

text \<open>The width of the next level, computed as the source computes it.\<close>

lemma next_width: "int m < MaxInt64 \<Longrightarrow> wrap64 (int m + 1) div 2 = int ((m + 1) div 2)"
  by (subst wrap64_id) (auto simp: int64_def zdiv_int)

definition required_list :: "int \<Rightarrow> nat \<Rightarrow> int list \<Rightarrow> NodePosition list" where
  "required_list l n T = concat (map (\<lambda>k. map (mk_pos (l + int k))
     (missing (int (level_width n k)) (active T k))) [0..<theight n])"

lemma upt_Suc_split: "[0..<Suc n] = 0 # map Suc [0..<n]"
  by (simp add: map_Suc_upt upt_conv_Cons del: upt_Suc)

lemma required_list_step:
  "1 < n \<Longrightarrow> required_list l n T =
     map (mk_pos l) (missing (int n) T) @ required_list (l + 1) ((n + 1) div 2) (parents T)"
  by (simp add: required_list_def theight_step upt_Suc_split comp_def active_Suc algebra_simps
      del: upt_Suc)

lemma required_list_base: "n \<le> 1 \<Longrightarrow> required_list l n T = []"
  by (simp add: required_list_def)

lemma plan_levels_eq:
  "int n < MaxInt64 \<Longrightarrow> index_list (int n) T \<Longrightarrow> plan_levels l (int n) T = required_list l n T"
proof (induction n arbitrary: l T rule: theight.induct)
  case (1 n)
  show ?case
  proof (cases "n \<le> 1")
    case True
    then show ?thesis by (subst plan_levels.simps) (simp add: required_list_base)
  next
    case False
    have up: "index_list (int ((n + 1) div 2)) (parents T)"
      using parents_index_list [OF "1.prems"(2)] by (simp add: zdiv_int add.commute)
    have small: "int ((n + 1) div 2) < MaxInt64" using "1.prems"(1) False by linarith
    have "plan_levels (l + 1) (int ((n + 1) div 2)) (parents T) = required_list (l + 1) ((n + 1) div 2) (parents T)"
      by (rule "1.IH" [OF False small up])
    with False "1.prems" show ?thesis
      by (subst plan_levels.simps) (simp add: plan_level_eq next_width required_list_step)
  qed
qed

text \<open>
  The hashes a reconstruction computes, level by level: \<open>v\<close> at the lowest level, above it the
  combination of what the level below has for an active index or the proof for a missing sibling.
\<close>

definition pside :: "(NodePosition \<rightharpoonup> hash) \<Rightarrow> int \<Rightarrow> int list \<Rightarrow> (int \<Rightarrow> hash) \<Rightarrow> int \<Rightarrow> hash" where
  "pside N l A v i = (if i \<in> set A then v i else gm_get 0 N (mk_pos l i))"

primrec pval ::
  "hash_fn \<Rightarrow> (NodePosition \<rightharpoonup> hash) \<Rightarrow> int \<Rightarrow> nat \<Rightarrow> int list \<Rightarrow> (int \<Rightarrow> hash) \<Rightarrow> nat \<Rightarrow> int \<Rightarrow> hash" where
  "pval H N l n T v 0 = v"
| "pval H N l n T v (Suc k) =
     combine H (int (level_width n k)) (pside N (l + int k) (active T k) (pval H N l n T v k))"

lemma pval_Suc':
  "pval H N l n T v (Suc k) =
     pval H N (l + 1) ((n + 1) div 2) (parents T) (combine H (int n) (pside N l T v)) k"
  by (induction k) (simp_all add: active_Suc algebra_simps)

definition recorded_list ::
  "hash_fn \<Rightarrow> (NodePosition \<rightharpoonup> hash) \<Rightarrow> int \<Rightarrow> nat \<Rightarrow> int list \<Rightarrow> (int \<Rightarrow> hash) \<Rightarrow> (NodePosition \<times> hash) list" where
  "recorded_list H N l n T v = concat (map (\<lambda>k. map (\<lambda>i. (mk_pos (l + int k + 1) i, pval H N l n T v (Suc k) i))
     (active T (Suc k))) [0..<theight n])"

lemma recorded_list_step:
  "1 < n \<Longrightarrow> recorded_list H N l n T v =
     map (\<lambda>i. (mk_pos (l + 1) i, combine H (int n) (pside N l T v) i)) (parents T) @
     recorded_list H N (l + 1) ((n + 1) div 2) (parents T) (combine H (int n) (pside N l T v))"
  by (simp add: recorded_list_def theight_step upt_Suc_split comp_def active_Suc pval_Suc' algebra_simps
      del: upt_Suc pval.simps(2))

lemma recon_levels_eq:
  assumes "int n < MaxInt64" and "index_list (int n) T"
    and "\<And>p. p \<in> set (required_list l n T) \<Longrightarrow> map_of nodes p \<noteq> None"
  shows "recon_levels H l (int n) nodes (map (\<lambda>i. (i, v i)) T) =
    Inr (map (\<lambda>i. (i, pval H (map_of nodes) l n T v (theight n) i)) (active T (theight n)),
         length (required_list l n T), recorded_list H (map_of nodes) l n T v)"
  using assms
proof (induction n arbitrary: l T v rule: theight.induct)
  case (1 n)
  show ?case
  proof (cases "n \<le> 1")
    case True
    then show ?thesis
      by (subst recon_levels.simps) (simp add: required_list_base recorded_list_def)
  next
    case False
    let ?side = "pside (map_of nodes) l T v" and ?m = "(n + 1) div 2"
    let ?v = "combine H (int n) ?side"
    have req: "required_list l n T = map (mk_pos l) (missing (int n) T) @ required_list (l + 1) ?m (parents T)"
      using False by (intro required_list_step) simp
    have miss: "map_of nodes (mk_pos l s) = Some (?side s)" if "s \<in> set (missing (int n) T)" for s
      using that "1.prems"(3) [of "mk_pos l s"] req set_missing [OF "1.prems"(2), of s]
      by (auto simp: pside_def gm_get_def)
    have cur: "map (\<lambda>i. (i, v i)) T = map (\<lambda>i. (i, ?side i)) T" by (simp add: pside_def)
    note level = recon_level_eq [OF "1.prems"(2) miss, of H, folded cur]
    have up: "index_list (int ?m) (parents T)"
      using parents_index_list [OF "1.prems"(2)] by (simp add: zdiv_int add.commute)
    have small: "int ?m < MaxInt64" using "1.prems"(1) False by linarith
    have IH: "recon_levels H (l + 1) (int ?m) nodes (map (\<lambda>i. (i, ?v i)) (parents T)) =
      Inr (map (\<lambda>i. (i, pval H (map_of nodes) (l + 1) ?m (parents T) ?v (theight ?m) i)) (active (parents T) (theight ?m)),
         length (required_list (l + 1) ?m (parents T)), recorded_list H (map_of nodes) (l + 1) ?m (parents T) ?v)"
      using "1.prems"(3) req by (intro "1.IH" [OF False small up]) auto
    have h: "theight n = Suc (theight ?m)" using False by (intro theight_step) simp
    show ?thesis
      using False "1.prems"(1) level IH req
      unfolding h pval_Suc' active_Suc recorded_list_step [of n, OF False [unfolded not_le]]
      by (subst recon_levels.simps) (simp add: next_width comp_def del: upt_Suc)
  qed
qed

section \<open>The plan lists the required nodes in order\<close>

definition pos_less :: "NodePosition \<Rightarrow> NodePosition \<Rightarrow> bool" where
  "pos_less p q \<longleftrightarrow> npLevel p < npLevel q \<or> npLevel p = npLevel q \<and> npIndex p < npIndex q"

interpretation pos_order: strict_total pos_less
proof unfold_locales
  show "x \<noteq> y \<Longrightarrow> pos_less x y \<or> pos_less y x" for x y
    by (cases x; cases y) (auto simp: pos_less_def)
qed (auto simp: pos_less_def)

lemma sorted_missing: "index_list w is \<Longrightarrow> sorted_wrt (<) (missing w is)"
proof (induction w "is" rule: missing.induct)
  case (3 w i j "is")
  have lt: "i < j" and gt: "\<forall>k \<in> set is. j < k" using 3(3) by auto
  have il: "index_list w (j # is)" using 3(3) by simp
  show ?case
  proof (cases "i div 2 = j div 2")
    case True
    then show ?thesis using 3(1) [OF True] 3(3) by simp
  next
    case False
    have "i div 2 < s div 2" if "s \<in> set (missing w (j # is))" for s
    proof -
      from that have "s div 2 \<in> (\<lambda>i. i div 2) ` set (j # is)" using set_missing [OF il, of s] by blast
      then obtain k where k: "s div 2 = k div 2" "k \<in> set (j # is)" by blast
      then have "j div 2 \<le> k div 2" using gt by (auto intro: zdiv_mono1)
      moreover have "i div 2 \<le> j div 2" using lt by (simp add: zdiv_mono1)
      ultimately show ?thesis using False k(1) by linarith
    qed
    moreover have "t div 2 = i div 2" if "t \<in> set (missing w [i])" for t
      using that by (auto split: if_splits) (presburger+)
    ultimately have "t < s" if "t \<in> set (missing w [i])" "s \<in> set (missing w (j # is))" for t s
      using that zdiv_mono1 [of s t 2] by fastforce
    moreover have "sorted_wrt (<) (missing w [i])" by simp
    moreover have "missing w (i # j # is) = missing w [i] @ missing w (j # is)" using False by simp
    ultimately show ?thesis
      using 3(2) [OF False il] by (simp only: sorted_wrt_append) blast
  qed
qed simp_all

lemma required_list_level: "p \<in> set (required_list l n T) \<Longrightarrow> l \<le> npLevel p"
  by (auto simp: required_list_def)

lemma sorted_required_list:
  "index_list (int n) T \<Longrightarrow> sorted_wrt pos_less (required_list l n T)"
proof (induction n arbitrary: l T rule: theight.induct)
  case (1 n)
  show ?case
  proof (cases "n \<le> 1")
    case False
    have up: "index_list (int ((n + 1) div 2)) (parents T)"
      using parents_index_list [OF "1.prems"] by (simp add: zdiv_int add.commute)
    have "sorted_wrt pos_less (map (mk_pos l) (missing (int n) T))"
      using sorted_missing [OF "1.prems"] by (simp add: sorted_wrt_map pos_less_def)
    moreover have "pos_less (mk_pos l s) q" if "q \<in> set (required_list (l + 1) ((n + 1) div 2) (parents T))" for s q
      using required_list_level [OF that] by (simp add: pos_less_def)
    ultimately show ?thesis
      using "1.IH" [OF False up, of "l + 1"] False
      by (auto simp: required_list_step sorted_wrt_append)
  qed (simp add: required_list_base)
qed

text \<open>The positions a plan requires: the siblings of the paths of the targets that are on no path.\<close>

definition required :: "nat \<Rightarrow> int set \<Rightarrow> (int \<times> int) set" where
  "required n T = {(int k, s) | k s. k < theight n \<and> 0 \<le> s \<and> s < int (level_width n k) \<and>
     (\<forall>t \<in> T. t div 2 ^ k \<noteq> s) \<and> (\<exists>t \<in> T. t div 2 ^ Suc k = s div 2)}"

lemma set_required_list:
  assumes "index_list (int n) T"
  shows "p \<in> set (required_list 0 n T) \<longleftrightarrow> (npLevel p, npIndex p) \<in> required n (set T)"
proof -
  have "p \<in> set (required_list 0 n T) \<longleftrightarrow> (\<exists>k < theight n. npLevel p = int k \<and>
      npIndex p \<in> set (missing (int (level_width n k)) (active T k)))"
    by (cases p) (auto simp: required_list_def)
  also have "\<dots> \<longleftrightarrow> (\<exists>k < theight n. npLevel p = int k \<and> 0 \<le> npIndex p \<and> npIndex p < int (level_width n k) \<and>
      npIndex p \<notin> set (active T k) \<and> npIndex p div 2 \<in> set (active T (Suc k)))"
    using set_missing [OF active_index_list [OF assms]] by (simp add: active_Suc' set_parents)
  also have "\<dots> \<longleftrightarrow> (npLevel p, npIndex p) \<in> required n (set T)"
  proof -
    have out: "x \<notin> f ` S \<longleftrightarrow> (\<forall>t \<in> S. f t \<noteq> x)" and inn: "x \<in> f ` S \<longleftrightarrow> (\<exists>t \<in> S. f t = x)"
      for x :: int and f :: "int \<Rightarrow> int" and S by auto
    show ?thesis unfolding set_active required_def out inn by blast
  qed
  finally show ?thesis .
qed

lemma sorted_targets:
  assumes "distinct targets" and "\<forall>t \<in> set targets. 0 \<le> t \<and> t < w"
  shows "index_list w (sort_Slice (<) targets)"
  using assms int_less.sorted_sort_Slice [OF assms(1)] by (simp add: index_list_def)

text \<open>\<open>plan_for tree n T\<close> is the plan of a tree with \<open>n\<close> leaves for the sorted targets \<open>T\<close>.\<close>

definition plan_for :: "TreeRef \<Rightarrow> nat \<Rightarrow> int list \<Rightarrow> TreePlan" where
  "plan_for tree n T = \<lparr>tpTree = tree, tpLeafCount = int n, tpTargets = T, tpRequired = required_list 0 n T\<rparr>"

lemma planTree_ok:
  assumes "distinct targets" and "targets \<noteq> []" and "\<forall>t \<in> set targets. 0 \<le> t \<and> t < int n" and "int n < MaxInt64"
  shows "planTree tree (int n) targets = Inr (plan_for tree n (sort_Slice (<) targets))"
proof -
  have n: "0 < n" using assms(2,3) by (cases targets) auto
  have "\<not> (\<exists>index \<in> set targets. index < 0 \<or> int n \<le> index)" using assms(3) by auto
  with n assms(2) show ?thesis
    using plan_levels_eq [OF assms(4) sorted_targets [OF assms(1,3)], of 0]
    by (simp add: planTree_def plan_for_def Let_def)
qed

lemma planTree_Inr:
  assumes "planTree tree leafCount targets = Inr p"
  shows "0 < leafCount \<and> targets \<noteq> [] \<and> (\<forall>t \<in> set targets. 0 \<le> t \<and> t < leafCount) \<and>
    tpTargets p = sort_Slice (<) targets \<and> tpTree p = tree \<and> tpLeafCount p = leafCount"
  using assms by (auto simp: planTree_def Let_def split: if_splits)

section \<open>The reconstruction against the level functions\<close>

lemma map_fst_ins_by:
  "map fst (ins_by (\<lambda>a b. fst a < fst b) x xs) = ins_by (<) (fst x) (map fst xs)"
  by (induction xs) auto

lemma map_fst_sort: "map fst (sort_Slice (\<lambda>a b. fst a < fst b) xs) = sort_Slice (<) (map fst xs)"
  by (induction xs) (simp_all add: sort_Slice_def map_fst_ins_by)

lemma sort_by_key:
  assumes "gm_wf m"
  shows "sort_Slice (\<lambda>a b. fst a < fst b) m = map (\<lambda>i. (i, gm_get z (map_of m) i)) (sort_Slice (<) (gm_keys m))"
proof -
  let ?s = "sort_Slice (\<lambda>a b. fst a < fst b) m"
  have "?s = map (\<lambda>i. (i, gm_get z (map_of m) i)) (map fst ?s)"
  proof (rule nth_equalityI)
    fix j
    assume j: "j < length ?s"
    then have "?s ! j \<in> set m" using nth_mem [OF j] by simp
    then have "map_of m (fst (?s ! j)) = Some (snd (?s ! j))"
      using assms by (simp add: gm_mem_iff [symmetric])
    then show "?s ! j = map (\<lambda>i. (i, gm_get z (map_of m) i)) (map fst ?s) ! j"
      using j by (simp add: gm_get_def)
  qed simp
  then show ?thesis by (simp only: map_fst_sort)
qed

text \<open>The recorded nodes of a tree in the order in which the source stores them.\<close>

definition trace_list ::
  "hash_fn \<Rightarrow> nat \<Rightarrow> int list \<Rightarrow> (int, hash) gomap \<Rightarrow> (NodePosition, hash) gomap \<Rightarrow> (NodePosition \<times> hash) list" where
  "trace_list H n T known nodes =
     map (\<lambda>(i, h). (mk_pos 0 i, h)) known @ nodes @
     recorded_list H (map_of nodes) 0 n T (gm_get 0 (map_of known))"

definition mp_root ::
  "hash_fn \<Rightarrow> nat \<Rightarrow> int list \<Rightarrow> (int, hash) gomap \<Rightarrow> (NodePosition, hash) gomap \<Rightarrow> hash" where
  "mp_root H n T known nodes = pval H (map_of nodes) 0 n T (gm_get 0 (map_of known)) (theight n) 0"

lemma record_nodes_append [simp]:
  "record_nodes t (xs @ ys) out = record_nodes t ys (record_nodes t xs out)"
  by (simp add: record_nodes_def)

lemma length_distinct_keys:
  "gm_wf m \<Longrightarrow> distinct xs \<Longrightarrow> set (gm_keys m) = set xs \<Longrightarrow> length m = length xs"
  by (metis distinct_card gm_wf_def length_map)

lemma reconstruct_eq:
  assumes n: "int n < MaxInt64" and T: "index_list (int n) T" "T \<noteq> []"
    and known: "gm_wf known" "set (gm_keys known) = set T"
    and nodes: "gm_wf nodes" "set (gm_keys nodes) = set (required_list 0 n T)"
  shows "reconstructTreeTrace H (int n) known nodes tree out =
    Inr (mp_root H n T known nodes, map_option (record_nodes tree (trace_list H n T known nodes)) out)"
proof -
  have pos: "0 < n" using T by (cases T) auto
  have keys: "sort_Slice (<) (gm_keys known) = T"
    using known T(1) by (intro int_less.sort_Slice_unique) (auto simp: gm_wf_def index_list_def)
  have cur: "sort_Slice (\<lambda>a b. fst a < fst b) known = map (\<lambda>i. (i, gm_get 0 (map_of known) i)) T"
    using sort_by_key [OF known(1), of 0] keys by simp
  have "map_of nodes p \<noteq> None" if "p \<in> set (required_list 0 n T)" for p
    using that nodes(2) by (simp add: map_of_eq_None_iff)
  note rec = recon_levels_eq [OF n T(1) this, where H = H and v = "gm_get 0 (map_of known)"]
  have len: "length nodes = length (required_list 0 n T)"
    using nodes pos_order.sorted_distinct [OF sorted_required_list [OF T(1)]]
    by (intro length_distinct_keys)
  have range: "\<not> (\<exists>(index, _) \<in> set known. index < 0 \<or> int n \<le> index)"
  proof -
    have "i \<in> set T" if "(i, h) \<in> set known" for i h using that known(2) by force
    then show ?thesis using T(1) by (fastforce simp: index_list_def)
  qed
  have "known \<noteq> []" using known(2) T(2) by auto
  then show ?thesis
    using pos range cur rec len active_top [OF T]
    by (cases out) (simp_all add: reconstructTreeTrace_def Let_def mp_root_def trace_list_def)
qed

end
