(* ===== verification/HPP_Planner.thy ===== *)
theory HPP_Planner
  imports HPP_Multiproof
begin

text \<open>
  \<^verbatim>\<open>internal/hpp/planner.go\<close>: from the requested addresses and the metadata of the hierarchy to a proof
  plan: which trees are involved, which nodes each needs, how the trees hang together, and the
  storage requests that fetch the nodes. Go maps are association lists in insertion order; the
  final sorts remove every trace of that order.
\<close>

section \<open>Storage requests\<close>

text \<open>\<^verbatim>\<open>fmt.Sprintf\<close> with \<^verbatim>\<open>%d\<close>.\<close>

fun nat_digits :: "nat \<Rightarrow> string" where
  "nat_digits n = (if n < 10 then [char_of (48 + n)] else nat_digits (n div 10) @ [char_of (48 + n mod 10)])"

declare nat_digits.simps [simp del]

definition format_d :: "int \<Rightarrow> string" where
  "format_d x = (if x < 0 then ''-'' @ nat_digits (nat (- x)) else nat_digits (nat x))"

definition upperScope :: "TreeRef \<Rightarrow> NodePosition \<Rightarrow> string \<times> string \<times> int" where
  "upperScope tree position =
     (if trLayer tree = LayerShard
      then (''SHARD'', trRegionID tree @ '':S'' @ format_d (trShardID tree),
            shardBucketID (npLevel position) (npIndex position))
      else if trLayer tree = LayerRegion then (''REGION'', trRegionID tree, 0)
      else (''GLOBAL'', ''GLOBAL'', 0))"

record upperRequestKey =
  ukTree :: TreeRef
  ukScopeType :: string
  ukScopeID :: string
  ukBucketID :: int
  ukLevel :: int

type_synonym request_maps = "(TreeRef \<times> int, int list) gomap \<times> (upperRequestKey, int list) gomap"

definition append_index :: "'k \<Rightarrow> int list \<Rightarrow> ('k, int list) gomap \<Rightarrow> ('k, int list) gomap" where
  "append_index key indexes m = gm_put key (gm_get [] (map_of m) key @ indexes) m"

definition request_position :: "TreeRef \<Rightarrow> request_maps \<Rightarrow> NodePosition \<Rightarrow> request_maps" where
  "request_position tree = (\<lambda>(segments, uppers) position.
     if trLayer tree = LayerSegment
     then (append_index (tree, npLevel position) [npIndex position] segments, uppers)
     else if trLayer tree = LayerShard \<or> trLayer tree = LayerRegion \<or> trLayer tree = LayerGlobal
     then (let (scopeType, scopeID, bucketID) = upperScope tree position
           in (segments, append_index
             \<lparr>ukTree = tree, ukScopeType = scopeType, ukScopeID = scopeID, ukBucketID = bucketID,
              ukLevel = npLevel position\<rparr> [npIndex position] uppers))
     else (segments, uppers))"

definition request_tree :: "request_maps \<Rightarrow> TreePlan \<Rightarrow> request_maps" where
  "request_tree = (\<lambda>(segments, uppers) tree.
     let segments' = (if trLayer (tpTree tree) = LayerSegment
           then append_index (tpTree tree, 0) (tpTargets tree) segments else segments)
     in foldl (request_position (tpTree tree)) (segments', uppers) (tpRequired tree))"

definition segment_request :: "(TreeRef \<times> int) \<times> int list \<Rightarrow> SegmentRequest" where
  "segment_request = (\<lambda>((tree, level), indexes).
     \<lparr>srTree = tree, srRegionID = trRegionID tree, srShardID = trShardID tree,
      srSegmentID = trSegmentID tree, srLevel = level, srNodeIndexes = sort_Slice (<) indexes\<rparr>)"

definition segmentRequestLess :: "SegmentRequest \<Rightarrow> SegmentRequest \<Rightarrow> bool" where
  "segmentRequestLess left right =
     (if srTree left \<noteq> srTree right then treeRefLess (srTree left) (srTree right)
      else srLevel left < srLevel right)"

definition upper_request :: "upperRequestKey \<times> int list \<Rightarrow> UpperRequest" where
  "upper_request = (\<lambda>(key, indexes).
     \<lparr>urTree = ukTree key, urScopeType = ukScopeType key, urScopeID = ukScopeID key,
      urBucketID = ukBucketID key, urLevel = ukLevel key, urNodeIndexes = sort_Slice (<) indexes\<rparr>)"

definition upperRequestLess :: "UpperRequest \<Rightarrow> UpperRequest \<Rightarrow> bool" where
  "upperRequestLess left right =
     (if urTree left \<noteq> urTree right then treeRefLess (urTree left) (urTree right)
      else if urBucketID left \<noteq> urBucketID right then urBucketID left < urBucketID right
      else urLevel left < urLevel right)"

definition buildRequests :: "TreePlan list \<Rightarrow> SegmentRequest list \<times> UpperRequest list" where
  "buildRequests trees =
     (let (segments, uppers) = foldl request_tree ([], []) trees
      in (sort_Slice segmentRequestLess (map segment_request segments),
          sort_Slice upperRequestLess (map upper_request uppers)))"

section \<open>The plan\<close>

text \<open>The four loops of \<^verbatim>\<open>Plan\<close>, from the addresses up to the regions.\<close>

definition add_target ::
  "HierarchyMetadata \<Rightarrow> (SegmentKey, int list) gomap \<Rightarrow> PhysicalAddress \<Rightarrow> (SegmentKey, int list) gomap result" where
  "add_target metadata segmentTargets address =
     (let key = segment_key address
      in case hmSegments metadata key of
           None \<Rightarrow> Inl (Errorf ''HPP: metadata missing for segment %+v'')
         | Some segment \<Rightarrow>
             if \<not> smSealed segment then Inl (Errorf ''HPP: segment %+v is not sealed'')
             else if smLeafCount segment \<le> paLeafID address
             then Inl (Errorf ''HPP: leaf %d outside segment %+v with %d leaves'')
             else Inr (gm_put key (set_add (paLeafID address) (gm_get [] (map_of segmentTargets) key)) segmentTargets))"

definition zero_segment :: SegmentMetadata where
  "zero_segment = \<lparr>smLeafCount = 0, smShardLeafIndex = 0, smSealed = False\<rparr>"

text \<open>Registering a child under a leaf index of its parent; two different children are a conflict.\<close>

definition add_child ::
  "string \<Rightarrow> 'k \<Rightarrow> int \<Rightarrow> TreeRef \<Rightarrow> ('k, (int, TreeRef) gomap) gomap \<Rightarrow> ('k, (int, TreeRef) gomap) gomap result" where
  "add_child message key index tree children =
     (let inner = gm_get [] (map_of children) key
      in if (case map_of inner index of Some existing \<Rightarrow> existing \<noteq> tree | None \<Rightarrow> False)
         then Inl (Errorf message)
         else Inr (gm_put key (gm_put index tree inner) children))"

definition plan_segment ::
  "HierarchyMetadata \<Rightarrow> TreePlan list \<times> (ShardKey, (int, TreeRef) gomap) gomap \<Rightarrow> SegmentKey \<times> int list \<Rightarrow>
     (TreePlan list \<times> (ShardKey, (int, TreeRef) gomap) gomap) result" where
  "plan_segment metadata = (\<lambda>(trees, shardChildren) (key, targets).
     let segment = gm_get zero_segment (hmSegments metadata) key; tree = segmentTree key
     in rbind (planTree tree (smLeafCount segment) targets) (\<lambda>treePlan.
        rbind (add_child ''HPP: segments share shard leaf index %d in %+v''
          \<lparr>hkRegionID = skRegionID key, hkShardID = skShardID key\<rparr> (smShardLeafIndex segment) tree shardChildren)
          (\<lambda>shardChildren'. Inr (trees @ [treePlan], shardChildren'))))"

text \<open>The loop over the children of one parent: the targets of the parent and the links to it.\<close>

definition link_child ::
  "string \<Rightarrow> int \<Rightarrow> TreeRef \<Rightarrow> int list \<times> ParentLink list \<Rightarrow> int \<times> TreeRef \<Rightarrow> (int list \<times> ParentLink list) result" where
  "link_child message leafCount parent = (\<lambda>(targets, links) (index, child).
     if index < 0 \<or> leafCount \<le> index then Inl (Errorf message)
     else Inr (set_add index targets,
       links @ [\<lparr>plChild = child, plParent = parent, plParentLeafIndex = index\<rparr>]))"

definition plan_shard ::
  "HierarchyMetadata \<Rightarrow> TreePlan list \<times> ParentLink list \<times> (string, (int, TreeRef) gomap) gomap \<Rightarrow>
     ShardKey \<times> (int, TreeRef) gomap \<Rightarrow>
     (TreePlan list \<times> ParentLink list \<times> (string, (int, TreeRef) gomap) gomap) result" where
  "plan_shard metadata = (\<lambda>(trees, links, regionChildren) (key, children).
     case hmShards metadata key of
       None \<Rightarrow> Inl (Errorf ''HPP: metadata missing for shard %+v'')
     | Some metadataForTree \<Rightarrow>
         let parent = shardTree key
         in rbind (rfold (link_child ''HPP: segment leaf index %d outside shard %+v'' (umLeafCount metadataForTree) parent)
              ([], links) children) (\<lambda>(targets, links').
            rbind (planTree parent (umLeafCount metadataForTree) targets) (\<lambda>treePlan.
            rbind (add_child ''HPP: shards share region leaf index %d in region %s'' (hkRegionID key)
              (umParentLeafIndex metadataForTree) parent regionChildren) (\<lambda>regionChildren'.
            Inr (trees @ [treePlan], links', regionChildren')))))"

definition plan_region ::
  "HierarchyMetadata \<Rightarrow> TreePlan list \<times> ParentLink list \<times> (unit, (int, TreeRef) gomap) gomap \<Rightarrow>
     string \<times> (int, TreeRef) gomap \<Rightarrow>
     (TreePlan list \<times> ParentLink list \<times> (unit, (int, TreeRef) gomap) gomap) result" where
  "plan_region metadata = (\<lambda>(trees, links, globalChildren) (regionID, children).
     case hmRegions metadata regionID of
       None \<Rightarrow> Inl (Errorf ''HPP: metadata missing for region %s'')
     | Some metadataForTree \<Rightarrow>
         let parent = regionTree regionID
         in rbind (rfold (link_child ''HPP: shard leaf index %d outside region %s'' (umLeafCount metadataForTree) parent)
              ([], links) children) (\<lambda>(targets, links').
            rbind (planTree parent (umLeafCount metadataForTree) targets) (\<lambda>treePlan.
            rbind (add_child ''HPP: regions share global leaf index %d'' ()
              (umParentLeafIndex metadataForTree) parent globalChildren) (\<lambda>globalChildren'.
            Inr (trees @ [treePlan], links', globalChildren')))))"

definition linkLess :: "ParentLink \<Rightarrow> ParentLink \<Rightarrow> bool" where
  "linkLess left right =
     (if plParent left \<noteq> plParent right then treeRefLess (plParent left) (plParent right)
      else plParentLeafIndex left < plParentLeafIndex right)"

definition Plan :: "PhysicalAddress list \<Rightarrow> HierarchyMetadata \<Rightarrow> ProofPlan result" where
  "Plan addresses metadata =
     rbind (normalizeAddresses addresses) (\<lambda>normalized.
     if length normalized = 0 then Inl (Errorf ''HPP: at least one physical address is required'')
     else
     rbind (rfold (add_target metadata) [] normalized) (\<lambda>segmentTargets.
     rbind (rfold (plan_segment metadata) ([], []) segmentTargets) (\<lambda>(trees1, shardChildren).
     rbind (rfold (plan_shard metadata) (trees1, [], []) shardChildren) (\<lambda>(trees2, links2, regionChildren).
     rbind (rfold (plan_region metadata) (trees2, links2, []) regionChildren) (\<lambda>(trees3, links3, globalChildren).
     if umLeafCount (hmGlobal metadata) \<le> 0 then Inl (Errorf ''HPP: global tree metadata is invalid'')
     else
     rbind (rfold (link_child ''HPP: region leaf index %d outside global tree'' (umLeafCount (hmGlobal metadata)) globalTree)
       ([], links3) (gm_get [] (map_of globalChildren) ())) (\<lambda>(globalTargets, links4).
     rbind (planTree globalTree (umLeafCount (hmGlobal metadata)) globalTargets) (\<lambda>globalPlan.
     let trees = sort_Slice (\<lambda>a b. treeRefLess (tpTree a) (tpTree b)) (trees3 @ [globalPlan]);
         (segmentRequests, upperRequests) = buildRequests trees
     in Inr \<lparr>ppAddresses = normalized, ppTrees = trees, ppParentLinks = sort_Slice linkLess links4,
             ppSegmentRequests = segmentRequests, ppUpperRequests = upperRequests\<rparr>)))))))"

end
