(* ===== verification/HPP_Verifier.thy ===== *)
theory HPP_Verifier
  imports HPP_Multiproof
begin

text \<open>
  \<^verbatim>\<open>internal/hpp/verifier.go\<close>: validation and evaluation of a hierarchical proof. The trees of a
  proof are reconstructed layer by layer; the committed root of a tree is a known leaf of its
  parent; the committed root of the global tree is the result. This theory holds the program and
  what a successful evaluation establishes about the trees of the proof.
\<close>

section \<open>Validation\<close>

text \<open>The bytes a committed root hashes; \<^verbatim>\<open>committedRoot\<close> of any other layer is the zero hash.\<close>

definition committedRoot :: "hash_fn \<Rightarrow> TreeRef \<Rightarrow> int \<Rightarrow> hash \<Rightarrow> hash" where
  "committedRoot H tree leafCount rawRoot =
     (if trLayer tree = LayerSegment
      then CommitSegmentRoot H (trRegionID tree) (trShardID tree) (trSegmentID tree) leafCount rawRoot
      else if trLayer tree = LayerShard
      then CommitShardRoot H (trRegionID tree) (trShardID tree) leafCount rawRoot
      else if trLayer tree = LayerRegion then CommitRegionRoot H (trRegionID tree) leafCount rawRoot
      else if trLayer tree = LayerGlobal then CommitGlobalRoot H leafCount rawRoot
      else 0)"

definition validateTreePlanShape :: "TreePlan \<Rightarrow> unit result" where
  "validateTreePlanShape plan =
     (if \<not> distinct (tpTargets plan)
      then Inl (Errorf ''verify HMF proof: duplicate target %d for tree %+v'')
      else rbind (rwrap ''verify HMF proof: invalid tree plan: %w''
             (planTree (tpTree plan) (tpLeafCount plan) (tpTargets plan))) (\<lambda>canonical.
        if length (tpTargets canonical) \<noteq> length (tpTargets plan) \<or>
           length (tpRequired canonical) \<noteq> length (tpRequired plan)
        then Inl (Errorf ''verify HMF proof: noncanonical plan for tree %+v'')
        else if tpTargets canonical \<noteq> tpTargets plan
        then Inl (Errorf ''verify HMF proof: unsorted or incorrect targets for tree %+v'')
        else if tpRequired canonical \<noteq> tpRequired plan
        then Inl (Errorf ''verify HMF proof: incorrect required nodes for tree %+v'')
        else Inr ()))"

definition validParentLink :: "TreeRef \<Rightarrow> TreeRef \<Rightarrow> bool" where
  "validParentLink child parent =
     (if trLayer parent \<noteq> trLayer child + 1 then False
      else if trLayer child = LayerSegment
      then trRegionID parent = trRegionID child \<and> trShardID parent = trShardID child \<and> trSegmentID parent = 0
      else if trLayer child = LayerShard
      then trRegionID parent = trRegionID child \<and> trShardID parent = 0 \<and> trSegmentID parent = 0
      else if trLayer child = LayerRegion then parent = globalTree
      else False)"

definition matchTrustedRoot :: "hash \<Rightarrow> hash \<Rightarrow> unit result" where
  "matchTrustedRoot calculated trustedRoot =
     (if hash_bytes calculated \<noteq> hash_bytes trustedRoot
      then Inl (Errorf ''verify HMF proof: calculated global root does not match trusted root'')
      else Inr ())"

definition validateProofLeaves ::
  "PhysicalAddress list \<Rightarrow> PhysicalAddress list \<Rightarrow> RequestedLeaf list \<Rightarrow>
     (PhysicalAddress, hash) gomap result" where
  "validateProofLeaves planned requested leaves =
     rbind (normalizeAddresses requested) (\<lambda>normalized.
     if length normalized \<noteq> length planned
     then Inl (Errorf ''verify HMF proof: requested addresses do not match proof plan'')
     else if normalized \<noteq> planned
     then Inl (Errorf ''verify HMF proof: requested address %d does not match proof plan'')
     else rbind (rfold (\<lambda>result leaf.
         if map_of result (rlAddress leaf) \<noteq> None
         then Inl (Errorf ''verify HMF proof: duplicate target leaf for address %+v'')
         else Inr (gm_put (rlAddress leaf) (rlHash leaf) result)) [] leaves) (\<lambda>result.
       if length result \<noteq> length planned
       then Inl (Errorf ''verify HMF proof: target leaves do not match proof plan'')
       else if \<exists>address \<in> set planned. map_of result address = None
       then Inl (Errorf ''verify HMF proof: target leaf missing for address %+v'')
       else Inr result))"

definition validateTargets :: "TreePlan \<Rightarrow> (int, hash) gomap \<Rightarrow> unit result" where
  "validateTargets plan known =
     (if length known \<noteq> length (tpTargets plan)
      then Inl (Errorf ''verify HMF proof: tree %+v has %d known leaves, want %d'')
      else if \<exists>target \<in> set (tpTargets plan). map_of known target = None
      then Inl (Errorf ''verify HMF proof: target leaf %d missing for tree %+v'')
      else Inr ())"

definition containsPosition :: "NodePosition list \<Rightarrow> NodePosition \<Rightarrow> bool" where
  "containsPosition positions position =
     (let index = sort_Search (length positions) (\<lambda>i.
            if npLevel (positions ! i) \<noteq> npLevel position then npLevel (positions ! i) > npLevel position
            else npIndex (positions ! i) \<ge> npIndex position)
      in index < length positions \<and> positions ! index = position)"

section \<open>Evaluation\<close>

text \<open>
  The loops of \<^verbatim>\<open>evaluateHMFProof\<close> in their order. A Go map of maps that is only read by key is a
  function from the outer key; a missing inner map reads as the empty one.
\<close>

definition add_plan :: "(TreeRef, TreePlan) gomap \<Rightarrow> TreePlan \<Rightarrow> (TreeRef, TreePlan) gomap result" where
  "add_plan plans tree =
     (if map_of plans (tpTree tree) \<noteq> None
      then Inl (Errorf ''verify HMF proof: duplicate plan for tree %+v'')
      else rbind (validateTreePlanShape tree) (\<lambda>_. Inr (gm_put (tpTree tree) tree plans)))"

type_synonym tree_nodes_map = "TreeRef \<Rightarrow> (NodePosition, hash) gomap"

definition add_node ::
  "(TreeRef, TreePlan) gomap \<Rightarrow> tree_nodes_map \<Rightarrow> ProofNode \<Rightarrow> tree_nodes_map result" where
  "add_node plans treeNodes node =
     (let tree = nrTree (pnRef node); position = nrPosition (pnRef node)
      in case map_of plans tree of
           None \<Rightarrow> Inl (Errorf ''verify HMF proof: unexpected proof node %+v'')
         | Some plan \<Rightarrow>
             if \<not> containsPosition (tpRequired plan) position
             then Inl (Errorf ''verify HMF proof: unexpected proof node %+v'')
             else if map_of (treeNodes tree) position \<noteq> None
             then Inl (Errorf ''verify HMF proof: duplicate proof node %+v'')
             else Inr (treeNodes(tree := gm_put position (pnHash node) (treeNodes tree))))"

definition check_nodes ::
  "tree_nodes_map \<Rightarrow> unit \<Rightarrow> TreeRef \<times> TreePlan \<Rightarrow> unit result" where
  "check_nodes treeNodes _ = (\<lambda>(tree, plan).
     if length (treeNodes tree) = length (tpRequired plan) then Inr ()
     else if \<exists>position \<in> set (tpRequired plan). map_of (treeNodes tree) position = None
     then Inl (Errorf ''verify HMF proof: missing proof node %+v'')
     else Inr ())"

definition add_segment_leaf ::
  "(TreeRef \<Rightarrow> (int, hash) gomap) \<Rightarrow> PhysicalAddress \<times> hash \<Rightarrow> TreeRef \<Rightarrow> (int, hash) gomap" where
  "add_segment_leaf segmentLeaves = (\<lambda>(address, hash).
     let tree = segmentTree (segment_key address)
     in segmentLeaves(tree := gm_put (paLeafID address) hash (segmentLeaves tree)))"

type_synonym links = "(TreeRef \<Rightarrow> (int, TreeRef) gomap) \<times> (TreeRef \<rightharpoonup> TreeRef)"

definition add_link :: "(TreeRef, TreePlan) gomap \<Rightarrow> links \<Rightarrow> ParentLink \<Rightarrow> links result" where
  "add_link plans = (\<lambda>(children, parentOf) link.
     if map_of plans (plChild link) = None
     then Inl (Errorf ''verify HMF proof: parent link references unknown child %+v'')
     else if map_of plans (plParent link) = None
     then Inl (Errorf ''verify HMF proof: parent link references unknown parent %+v'')
     else if \<not> validParentLink (plChild link) (plParent link)
     then Inl (Errorf ''verify HMF proof: invalid hierarchy link %+v -> %+v'')
     else if parentOf (plChild link) \<noteq> None
     then Inl (Errorf ''verify HMF proof: tree %+v has multiple parent links'')
     else case map_of (children (plParent link)) (plParentLeafIndex link) of
       Some existing \<Rightarrow>
         if existing \<noteq> plChild link
         then Inl (Errorf ''verify HMF proof: conflicting children at leaf %d of %+v'')
         else Inr (children(plParent link := gm_put (plParentLeafIndex link) (plChild link) (children (plParent link))),
                   parentOf(plChild link \<mapsto> plParent link))
     | None \<Rightarrow>
         Inr (children(plParent link := gm_put (plParentLeafIndex link) (plChild link) (children (plParent link))),
              parentOf(plChild link \<mapsto> plParent link)))"

definition check_linked :: "(TreeRef \<rightharpoonup> TreeRef) \<Rightarrow> unit \<Rightarrow> TreeRef \<times> TreePlan \<Rightarrow> unit result" where
  "check_linked parentOf _ = (\<lambda>(tree, plan).
     if trLayer tree = LayerGlobal
     then (if tree \<noteq> globalTree
           then Inl (Errorf ''verify HMF proof: invalid global tree identity %+v'') else Inr ())
     else if parentOf tree = None
     then Inl (Errorf ''verify HMF proof: tree %+v is not linked to the global hierarchy'')
     else Inr ())"

definition zero_plan :: TreePlan where
  "zero_plan = \<lparr>tpTree = \<lparr>trLayer = 0, trRegionID = '''', trShardID = 0, trSegmentID = 0\<rparr>,
     tpLeafCount = 0, tpTargets = [], tpRequired = []\<rparr>"

definition add_child_root ::
  "hash_fn \<Rightarrow> (TreeRef, TreePlan) gomap \<Rightarrow> (TreeRef \<rightharpoonup> hash) \<Rightarrow> (int, hash) gomap \<Rightarrow> int \<times> TreeRef \<Rightarrow>
     (int, hash) gomap result" where
  "add_child_root H plans roots known = (\<lambda>(index, child).
     case roots child of
       None \<Rightarrow> Inl (Errorf ''verify HMF proof: root unavailable for child %+v'')
     | Some rawRoot \<Rightarrow>
         Inr (gm_put index
           (committedRoot H child (tpLeafCount (gm_get zero_plan (map_of plans) child)) rawRoot) known))"

definition known_leaves ::
  "hash_fn \<Rightarrow> (TreeRef, TreePlan) gomap \<Rightarrow> (TreeRef \<Rightarrow> (int, hash) gomap) \<Rightarrow>
     (TreeRef \<Rightarrow> (int, TreeRef) gomap) \<Rightarrow> (TreeRef \<rightharpoonup> hash) \<Rightarrow> TreeRef \<Rightarrow> (int, hash) gomap result" where
  "known_leaves H plans segmentLeaves children roots tree =
     (if trLayer tree = LayerSegment then Inr (segmentLeaves tree)
      else rfold (add_child_root H plans roots) [] (children tree))"

definition eval_tree ::
  "hash_fn \<Rightarrow> bool \<Rightarrow> (TreeRef, TreePlan) gomap \<Rightarrow> tree_nodes_map \<Rightarrow> (TreeRef \<Rightarrow> (int, hash) gomap) \<Rightarrow>
     (TreeRef \<Rightarrow> (int, TreeRef) gomap) \<Rightarrow> (TreeRef \<rightharpoonup> hash) \<times> ProofTrace \<Rightarrow> TreeRef \<times> TreePlan \<Rightarrow>
     ((TreeRef \<rightharpoonup> hash) \<times> ProofTrace) result" where
  "eval_tree H record plans treeNodes segmentLeaves children = (\<lambda>(roots, trace) (treeRef, treePlan).
     rbind (known_leaves H plans segmentLeaves children roots treeRef) (\<lambda>known.
     rbind (validateTargets treePlan known) (\<lambda>_.
     rbind (rwrap ''verify HMF proof tree %+v: %w''
       (reconstructTreeTrace H (tpLeafCount treePlan) known (treeNodes treeRef) treeRef
         (if record then Some (ptNodes trace) else None))) (\<lambda>(root, out).
     Inr (roots(treeRef \<mapsto> root),
       if record then trace
         \<lparr>ptRawRoots := gm_put treeRef root (ptRawRoots trace),
          ptCommittedRoots := gm_put treeRef (committedRoot H treeRef (tpLeafCount treePlan) root)
            (ptCommittedRoots trace),
          ptNodes := (case out of Some ns \<Rightarrow> ns | None \<Rightarrow> [])\<rparr>
       else trace)))))"

definition eval_layer ::
  "hash_fn \<Rightarrow> bool \<Rightarrow> (TreeRef, TreePlan) gomap \<Rightarrow> tree_nodes_map \<Rightarrow> (TreeRef \<Rightarrow> (int, hash) gomap) \<Rightarrow>
     (TreeRef \<Rightarrow> (int, TreeRef) gomap) \<Rightarrow> (TreeRef \<rightharpoonup> hash) \<times> ProofTrace \<Rightarrow> TreeLayer \<Rightarrow>
     ((TreeRef \<rightharpoonup> hash) \<times> ProofTrace) result" where
  "eval_layer H record plans treeNodes segmentLeaves children state layer =
     rfold (\<lambda>state (treeRef, treePlan).
         if trLayer treeRef \<noteq> layer then Inr state
         else eval_tree H record plans treeNodes segmentLeaves children state (treeRef, treePlan))
       state plans"

definition empty_trace :: ProofTrace where
  "empty_trace = \<lparr>ptGlobalRoot = 0, ptRawRoots = [], ptCommittedRoots = [], ptNodes = []\<rparr>"

definition evaluateHMFProof ::
  "hash_fn \<Rightarrow> HMFProof \<Rightarrow> PhysicalAddress list \<Rightarrow> bool \<Rightarrow> ProofTrace result" where
  "evaluateHMFProof H proof addresses record =
     (let plan = hpPlan proof in
      rbind (validateProofLeaves (ppAddresses plan) addresses (hpLeaves proof)) (\<lambda>requestedHashes.
      rbind (rfold add_plan [] (ppTrees plan)) (\<lambda>plans.
      rbind (rfold (add_node plans) (\<lambda>_. []) (hpNodes proof)) (\<lambda>treeNodes.
      rbind (rfold (check_nodes treeNodes) () plans) (\<lambda>_.
      let segmentLeaves = foldl add_segment_leaf (\<lambda>_. []) requestedHashes in
      rbind (rfold (add_link plans) (\<lambda>_. [], Map.empty) (ppParentLinks plan)) (\<lambda>(children, parentOf).
      rbind (rfold (check_linked parentOf) () plans) (\<lambda>_.
      rbind (rfold (eval_layer H record plans treeNodes segmentLeaves children) (Map.empty, empty_trace)
        [LayerSegment, LayerShard, LayerRegion, LayerGlobal]) (\<lambda>(roots, trace).
      case roots globalTree of
        None \<Rightarrow> Inl (Errorf ''verify HMF proof: global tree root was not reconstructed'')
      | Some root \<Rightarrow>
          Inr (trace\<lparr>ptGlobalRoot :=
            committedRoot H globalTree (tpLeafCount (gm_get zero_plan (map_of plans) globalTree)) root\<rparr>)))))))))"

definition VerifyHMFProof :: "hash_fn \<Rightarrow> HMFProof \<Rightarrow> PhysicalAddress list \<Rightarrow> hash result" where
  "VerifyHMFProof H proof addresses =
     rbind (evaluateHMFProof H proof addresses False) (\<lambda>trace. Inr (ptGlobalRoot trace))"

definition TraceHMFProof :: "hash_fn \<Rightarrow> HMFProof \<Rightarrow> PhysicalAddress list \<Rightarrow> ProofTrace result" where
  "TraceHMFProof H proof addresses = evaluateHMFProof H proof addresses True"

definition VerifyHMFProofAgainstRoot ::
  "hash_fn \<Rightarrow> HMFProof \<Rightarrow> PhysicalAddress list \<Rightarrow> hash \<Rightarrow> hash result" where
  "VerifyHMFProofAgainstRoot H proof addresses trustedRoot =
     rbind (VerifyHMFProof H proof addresses) (\<lambda>calculated.
     rbind (matchTrustedRoot calculated trustedRoot) (\<lambda>_. Inr calculated))"

end
