(* ===== verification/HPP_Multiproof_Correct.thy ===== *)
theory HPP_Multiproof_Correct
  imports HPP_Multiproof
begin

text \<open>
  Correctness of the multiproof of one tree. Completeness: honest target leaves and the nodes the
  plan asks for reconstruct the root of the tree. Soundness: if the reconstructed root is the root
  of a tree with the same number of leaves, every target leaf and every supplied node is a node of
  that tree, provided the hash does not collide on the strings hashed for the two roots.
\<close>

section \<open>Completeness\<close>

lemma mlevel_combine:
  assumes "0 \<le> p" and "p < int (level_width (length hs) (Suc k))"
  shows "mlevel H hs (Suc k) ! nat p =
    combine H (int (level_width (length hs) k)) (\<lambda>i. mlevel H hs k ! nat i) p"
proof -
  have "nat p < (length (mlevel H hs k) + 1) div 2"
    using assms unfolding level_width_Suc' by simp
  from nth_pair_up [OF this, of H] show ?thesis
    using assms(1) by (auto simp: combine_def mlevel_Suc' nat_add_distrib nat_mult_distrib mult.commute)
qed

lemma combine_cong:
  assumes "\<And>i. i \<in> {p * 2, p * 2 + 1} \<Longrightarrow> i < w \<Longrightarrow> f i = g i" and "p * 2 < w"
  shows "combine H w f p = combine H w g p"
  using assms by (simp add: combine_def)

text \<open>Both children of an active parent are active or missing.\<close>

lemma children_covered:
  assumes "index_list (int n) T" and "p \<in> set (active T (Suc k))"
    and "i \<in> {p * 2, p * 2 + 1}" and "i < int (level_width n k)"
  shows "i \<in> set (active T k) \<or> i \<in> set (missing (int (level_width n k)) (active T k))"
proof -
  have "0 \<le> p" using active_index_list [OF assms(1), of "Suc k"] assms(2) by (auto simp: index_list_def)
  moreover have "i div 2 = p" using assms(3) by auto
  ultimately show ?thesis
    using assms(2-4) set_missing [OF active_index_list [OF assms(1)], of i k]
    by (auto simp: active_Suc' set_parents)
qed

lemma active_child_width:
  assumes "index_list (int n) T" and "p \<in> set (active T (Suc k))"
  shows "p * 2 < int (level_width n k)"
proof -
  obtain i where "i \<in> set (active T k)" "p = i div 2"
    using assms(2) by (auto simp: active_Suc' set_parents)
  with active_index_list [OF assms(1), of k] show ?thesis by (auto simp: index_list_def)
qed

lemma pval_honest:
  assumes T: "index_list (int (length hs)) T"
    and v: "\<And>t. t \<in> set T \<Longrightarrow> v t = hs ! nat t"
    and N: "\<And>p. p \<in> set (required_list 0 (length hs) T) \<Longrightarrow> N p = node_of H hs (npLevel p) (npIndex p)"
    and k: "k \<le> theight (length hs)" and i: "i \<in> set (active T k)"
  shows "pval H N 0 (length hs) T v k i = mlevel H hs k ! nat i"
  using k i
proof (induction k arbitrary: i)
  case 0
  then show ?case using v by simp
next
  case (Suc k)
  let ?w = "int (level_width (length hs) k)"
  have side: "pside N (int k) (active T k) (pval H N 0 (length hs) T v k) j = mlevel H hs k ! nat j"
    if "j \<in> {i * 2, i * 2 + 1}" "j < ?w" for j
  proof (cases "j \<in> set (active T k)")
    case True
    then show ?thesis using Suc.IH [of j] Suc.prems(1) by (simp add: pside_def)
  next
    case False
    then have m: "j \<in> set (missing ?w (active T k))"
      using children_covered [OF T Suc.prems(2) that] by blast
    then have "mk_pos (int k) j \<in> set (required_list 0 (length hs) T)"
      using Suc.prems(1) by (auto simp: required_list_def)
    from N [OF this] show ?thesis
      using False m Suc.prems(1) set_missing [OF active_index_list [OF T], of j k]
      by (simp add: pside_def gm_get_def node_of_def)
  qed
  have "0 \<le> i" "i < int (level_width (length hs) (Suc k))"
    using active_index_list [OF T, of "Suc k"] Suc.prems(2) by (auto simp: index_list_def)
  then have "mlevel H hs (Suc k) ! nat i = combine H ?w (\<lambda>i. mlevel H hs k ! nat i) i"
    by (rule mlevel_combine)
  also have "\<dots> = combine H ?w (pside N (int k) (active T k) (pval H N 0 (length hs) T v k)) i"
    by (rule combine_cong) (use side active_child_width [OF T Suc.prems(2)] in auto)
  finally show ?case by simp
qed

text \<open>Honest leaves and nodes reconstruct the root of the tree.\<close>

lemma mp_root_honest:
  assumes "index_list (int (length hs)) T" and "T \<noteq> []"
    and "\<And>t. t \<in> set T \<Longrightarrow> map_of known t = Some (hs ! nat t)"
    and "\<And>p. p \<in> set (required_list 0 (length hs) T) \<Longrightarrow> map_of nodes p = node_of H hs (npLevel p) (npIndex p)"
  shows "mp_root H (length hs) T known nodes = merkle_root H hs"
proof -
  have "hs \<noteq> []" using assms(1,2) by (cases T) auto
  then show ?thesis
    using pval_honest [OF assms(1) _ assms(4) order_refl, of "gm_get 0 (map_of known)" 0]
      active_top [OF assms(1,2)] assms(3)
    by (simp add: mp_root_def gm_get_def mlevel_theight)
qed

section \<open>Soundness\<close>

text \<open>The byte strings hashed while a multiproof is folded.\<close>

definition mp_side ::
  "hash_fn \<Rightarrow> nat \<Rightarrow> int list \<Rightarrow> (int, hash) gomap \<Rightarrow> (NodePosition, hash) gomap \<Rightarrow> nat \<Rightarrow> int \<Rightarrow> hash" where
  "mp_side H n T known nodes k =
     pside (map_of nodes) (int k) (active T k) (pval H (map_of nodes) 0 n T (gm_get 0 (map_of known)) k)"

definition mp_inputs ::
  "hash_fn \<Rightarrow> nat \<Rightarrow> int list \<Rightarrow> (int, hash) gomap \<Rightarrow> (NodePosition, hash) gomap \<Rightarrow> byte list set" where
  "mp_inputs H n T known nodes =
     {node_input (mp_side H n T known nodes k (p * 2)) (mp_side H n T known nodes k (p * 2 + 1)) | k p.
        k < theight n \<and> p \<in> set (active T (Suc k)) \<and> p * 2 + 1 < int (level_width n k)}"

lemma merkle_inputs_level:
  "k < theight (length hs) \<Longrightarrow> 2 * p + 1 < level_width (length hs) k \<Longrightarrow>
     node_input (mlevel H hs k ! (2 * p)) (mlevel H hs k ! (2 * p + 1)) \<in> merkle_inputs H hs"
proof (induction k arbitrary: hs)
  case 0
  then have "1 < length hs" by simp
  from merkle_inputs_step [OF this, of H] pair_inputs_nth [of p hs] 0 show ?case by simp
next
  case (Suc k)
  have l: "1 < length hs" using Suc.prems(1) by (cases "length hs \<le> 1") auto
  have "node_input (mlevel H (pair_up H hs) k ! (2 * p)) (mlevel H (pair_up H hs) k ! (2 * p + 1))
      \<in> merkle_inputs H (pair_up H hs)"
    using Suc.prems l by (intro Suc.IH) (auto simp: theight_step)
  with merkle_inputs_step [OF l, of H] show ?case by (simp add: mlevel_Suc)
qed

text \<open>If the parent is a node of the tree, both children are.\<close>

lemma children_of_node:
  assumes "0 \<le> p" and "p < int (level_width (length hs) (Suc k))" and "k < theight (length hs)"
    and "combine H (int (level_width (length hs) k)) f p = mlevel H hs (Suc k) ! nat p"
    and "inj_on H S" and "merkle_inputs H hs \<subseteq> S"
    and "p * 2 + 1 < int (level_width (length hs) k) \<Longrightarrow> node_input (f (p * 2)) (f (p * 2 + 1)) \<in> S"
    and "i \<in> {p * 2, p * 2 + 1}" and "i < int (level_width (length hs) k)"
  shows "f i = mlevel H hs k ! nat i"
proof -
  let ?w = "int (level_width (length hs) k)" and ?m = "\<lambda>i. mlevel H hs k ! nat i"
  have eq: "combine H ?w f p = combine H ?w ?m p"
    using assms(4) mlevel_combine [OF assms(1,2)] by simp
  show ?thesis
  proof (cases "p * 2 + 1 < ?w")
    case True
    have idx: "nat (p * 2) = 2 * nat p" "nat (p * 2 + 1) = 2 * nat p + 1"
      using assms(1) by (simp_all add: nat_mult_distrib nat_add_distrib)
    have "node_input (?m (p * 2)) (?m (p * 2 + 1)) \<in> merkle_inputs H hs"
      unfolding idx using True assms(1,3) by (intro merkle_inputs_level) auto
    then have "node_input (f (p * 2)) (f (p * 2 + 1)) = node_input (?m (p * 2)) (?m (p * 2 + 1))"
      using eq True assms(6,7) by (intro inj_onD [OF assms(5)]) (auto simp: combine_def HashPair_node)
    then show ?thesis using assms(8) by auto
  next
    case False
    then show ?thesis using eq assms(8,9) by (auto simp: combine_def)
  qed
qed

lemma mp_sound_levels:
  assumes T: "index_list (int (length hs)) T" "T \<noteq> []"
    and root: "mp_root H (length hs) T known nodes = merkle_root H hs"
    and inj: "inj_on H (merkle_inputs H hs \<union> mp_inputs H (length hs) T known nodes)"
    and k: "k < theight (length hs)"
    and i: "i \<in> set (active T k) \<or> i \<in> set (missing (int (level_width (length hs) k)) (active T k))"
  shows "mp_side H (length hs) T known nodes k i = mlevel H hs k ! nat i"
proof -
  let ?n = "length hs" and ?N = "map_of nodes" and ?v = "gm_get 0 (map_of known)"
  let ?P = "\<lambda>k. pval H ?N 0 ?n T ?v k"
  have ne: "hs \<noteq> []" using T by (cases T) auto
  have up: "\<forall>j \<in> set (active T (theight ?n - d)). ?P (theight ?n - d) j = mlevel H hs (theight ?n - d) ! nat j"
    if "d \<le> theight ?n" for d
    using that
  proof (induction d)
    case 0
    then show ?case using root active_top [OF T] ne by (simp add: mp_root_def mlevel_theight)
  next
    case (Suc d)
    define k where "k = theight ?n - Suc d"
    have sk: "theight ?n - d = Suc k" "k < theight ?n" using Suc.prems by (auto simp: k_def)
    show ?case
    proof
      fix j
      assume j: "j \<in> set (active T (theight ?n - Suc d))"
      let ?p = "j div 2"
      have p: "?p \<in> set (active T (Suc k))" using j by (simp add: active_Suc' set_parents k_def)
      have "0 \<le> ?p" "?p < int (level_width ?n (Suc k))"
        using active_index_list [OF T(1), of "Suc k"] p by (auto simp: index_list_def)
      moreover have "combine H (int (level_width ?n k)) (mp_side H ?n T known nodes k) ?p = mlevel H hs (Suc k) ! nat ?p"
        using Suc p sk(1) by (simp add: mp_side_def)
      moreover have "j \<in> {?p * 2, ?p * 2 + 1}" by auto
      moreover have "j < int (level_width ?n k)"
        using active_index_list [OF T(1), of k] j by (auto simp: index_list_def k_def)
      ultimately have "mp_side H ?n T known nodes k j = mlevel H hs k ! nat j"
        using p sk(2) by (intro children_of_node [OF _ _ sk(2) _ inj]) (auto simp: mp_inputs_def)
      then show "?P (theight ?n - Suc d) j = mlevel H hs (theight ?n - Suc d) ! nat j"
        using j by (simp add: mp_side_def pside_def k_def [symmetric])
    qed
  qed
  let ?p = "i div 2"
  have p: "?p \<in> set (active T (Suc k))"
    using i set_missing [OF active_index_list [OF T(1)], of i k] by (auto simp: active_Suc' set_parents)
  have bounds: "0 \<le> ?p" "?p < int (level_width ?n (Suc k))"
    using active_index_list [OF T(1), of "Suc k"] p by (auto simp: index_list_def)
  have "\<forall>j \<in> set (active T (Suc k)). ?P (Suc k) j = mlevel H hs (Suc k) ! nat j"
    using up [of "theight ?n - Suc k"] k by simp
  with p have "combine H (int (level_width ?n k)) (mp_side H ?n T known nodes k) ?p = mlevel H hs (Suc k) ! nat ?p"
    by (simp add: mp_side_def)
  moreover have "i \<in> {?p * 2, ?p * 2 + 1}" by auto
  moreover have "i < int (level_width ?n k)"
    using i active_index_list [OF T(1), of k] set_missing [OF active_index_list [OF T(1)], of i k]
    by (auto simp: index_list_def)
  ultimately show ?thesis
    using p k bounds by (intro children_of_node [OF _ _ k _ inj]) (auto simp: mp_inputs_def)
qed

text \<open>Every leaf and every node of an accepted multiproof is a node of the tree.\<close>

lemma mp_sound:
  assumes T: "index_list (int (length hs)) T" "T \<noteq> []"
    and root: "mp_root H (length hs) T known nodes = merkle_root H hs"
    and inj: "inj_on H (merkle_inputs H hs \<union> mp_inputs H (length hs) T known nodes)"
  shows "t \<in> set T \<Longrightarrow> gm_get 0 (map_of known) t = hs ! nat t"
    and "p \<in> set (required_list 0 (length hs) T) \<Longrightarrow>
      node_of H hs (npLevel p) (npIndex p) = Some (gm_get 0 (map_of nodes) p)"
proof -
  assume t: "t \<in> set T"
  show "gm_get 0 (map_of known) t = hs ! nat t"
  proof (cases "theight (length hs) = 0")
    case True
    have "hs \<noteq> []" using T by (cases T) auto
    from mlevel_theight [OF this, of H] True have hs: "hs = [merkle_root H hs]" by simp
    have "T = [0]" using active_top [OF T] True by simp
    with t have "t = 0" by simp
    moreover have "hs ! 0 = merkle_root H hs" by (subst hs) simp
    ultimately show ?thesis using root True by (simp add: mp_root_def)
  next
    case False
    then show ?thesis
      using mp_sound_levels [OF T root inj, of 0 t] t by (simp add: mp_side_def pside_def)
  qed
next
  assume p: "p \<in> set (required_list 0 (length hs) T)"
  then obtain k i where k: "k < theight (length hs)" and p': "p = mk_pos (int k) i"
    and i: "i \<in> set (missing (int (level_width (length hs) k)) (active T k))"
    by (auto simp: required_list_def)
  have "i \<notin> set (active T k)" "0 \<le> i" "i < int (level_width (length hs) k)"
    using i set_missing [OF active_index_list [OF T(1)], of i k] by blast+
  with mp_sound_levels [OF T root inj k, of i] i k
  show "node_of H hs (npLevel p) (npIndex p) = Some (gm_get 0 (map_of nodes) p)"
    by (simp add: p' node_of_def mp_side_def pside_def)
qed

end
