(* ===== verification/HPP_Evaluation.thy ===== *)
theory HPP_Evaluation
  imports HPP_Verifier HPP_Multiproof_Correct
begin

text \<open>
  What the loops of \<^verbatim>\<open>evaluateHMFProof\<close> compute, in closed form, and what a successful evaluation
  establishes: every tree of the proof has a canonical plan, exactly the nodes its plan requires,
  known leaves at exactly its targets, and a root folded from them; every tree but the global one
  is a known leaf of its parent.
\<close>

section \<open>Plans\<close>

lemma gm_put_absent: "k \<notin> set (gm_keys m) \<Longrightarrow> gm_put k v m = m @ [(k, v)]"
  by (induction m) auto

lemma map_of_None_keys: "map_of m k = None \<longleftrightarrow> k \<notin> set (gm_keys m)"
  by (simp add: map_of_eq_None_iff)

definition plan_map :: "TreePlan list \<Rightarrow> (TreeRef, TreePlan) gomap" where
  "plan_map trees = map (\<lambda>p. (tpTree p, p)) trees"

lemma gm_keys_plan_map [simp]: "gm_keys (plan_map trees) = map tpTree trees"
  by (simp add: plan_map_def comp_def)

lemma add_plans_Inr:
  "rfold add_plan [] trees = Inr plans \<longleftrightarrow>
     plans = plan_map trees \<and> distinct (map tpTree trees) \<and> (\<forall>p \<in> set trees. validateTreePlanShape p = Inr ())"
proof (induction trees arbitrary: plans rule: rev_induct)
  case (snoc p ps)
  have step: "add_plan (plan_map ps) p = Inr q \<longleftrightarrow>
      q = plan_map (ps @ [p]) \<and> tpTree p \<notin> set (map tpTree ps) \<and> validateTreePlanShape p = Inr ()" for q
  proof (cases "tpTree p \<in> set (map tpTree ps)")
    case True
    then have "map_of (plan_map ps) (tpTree p) \<noteq> None"
      unfolding map_of_None_keys gm_keys_plan_map by simp
    with True show ?thesis by (simp add: add_plan_def)
  next
    case False
    then have "map_of (plan_map ps) (tpTree p) = None"
      unfolding map_of_None_keys gm_keys_plan_map by simp
    moreover have "gm_put (tpTree p) p (plan_map ps) = plan_map (ps @ [p])"
      using False by (subst gm_put_absent) (simp_all add: plan_map_def)
    ultimately show ?thesis using False by (auto simp: add_plan_def)
  qed
  show ?case
    using snoc.IH step by (auto simp: rfold_snoc)
qed (auto simp: plan_map_def)

lemma gm_wf_plan_map: "distinct (map tpTree trees) \<Longrightarrow> gm_wf (plan_map trees)"
  by (simp add: gm_wf_def)

text \<open>A valid shape is the plan of the planner.\<close>

lemma validateTreePlanShape_Inr:
  assumes "validateTreePlanShape p = Inr ()" and "tpLeafCount p < MaxInt64"
  shows "\<exists>n. p = plan_for (tpTree p) n (tpTargets p) \<and> 0 < n \<and>
    index_list (int n) (tpTargets p) \<and> tpTargets p \<noteq> []"
proof -
  obtain c where d: "distinct (tpTargets p)"
    and c: "planTree (tpTree p) (tpLeafCount p) (tpTargets p) = Inr c"
      "tpTargets c = tpTargets p" "tpRequired c = tpRequired p"
    using assms(1) by (auto simp: validateTreePlanShape_def split: if_splits)
  note facts = planTree_Inr [OF c(1)]
  define n where "n = nat (tpLeafCount p)"
  have n: "tpLeafCount p = int n" "0 < n" using facts by (auto simp: n_def)
  have il: "index_list (int n) (tpTargets p)"
    using sorted_targets [OF d, of "int n"] facts c(2) n(1) by simp
  have "planTree (tpTree p) (int n) (tpTargets p) = Inr (plan_for (tpTree p) n (sort_Slice (<) (tpTargets p)))"
    using facts d n assms(2) by (intro planTree_ok) auto
  then have "c = plan_for (tpTree p) n (tpTargets p)"
    using c(1) facts c(2) n(1) by simp
  then have "p = plan_for (tpTree p) n (tpTargets p)"
    using c n(1) by (cases p) (simp add: plan_for_def)
  with n il facts show ?thesis by blast
qed

lemma validateTreePlanShape_plan_for:
  assumes "index_list (int n) T" and "T \<noteq> []" and "int n < MaxInt64"
  shows "validateTreePlanShape (plan_for tree n T) = Inr ()"
proof -
  have "distinct T" using assms(1) int_less.sorted_distinct by (auto simp: index_list_def)
  moreover have "sort_Slice (<) T = T"
    using assms(1) by (intro int_less.sort_Slice_id) (simp add: index_list_def)
  moreover have "planTree tree (int n) T = Inr (plan_for tree n (sort_Slice (<) T))"
    using assms \<open>distinct T\<close> by (intro planTree_ok) (auto simp: index_list_def)
  ultimately show ?thesis by (simp add: validateTreePlanShape_def plan_for_def)
qed

section \<open>Nodes\<close>

text \<open>On a sorted list the binary search is membership.\<close>

lemma containsPosition_iff:
  assumes "sorted_wrt pos_less ps"
  shows "containsPosition ps p \<longleftrightarrow> p \<in> set ps"
proof -
  define F where "F = (\<lambda>i. if npLevel (ps ! i) \<noteq> npLevel p then npLevel (ps ! i) > npLevel p
    else npIndex (ps ! i) \<ge> npIndex p)"
  define s where "s = sort_Search (length ps) F"
  have F: "F i \<longleftrightarrow> p = ps ! i \<or> pos_less p (ps ! i)" for i
    unfolding F_def by (cases p; cases "ps ! i") (auto simp: pos_less_def)
  have c: "containsPosition ps p \<longleftrightarrow> s < length ps \<and> ps ! s = p"
    unfolding containsPosition_def Let_def s_def F_def ..
  have "ps ! a = ps ! b \<or> pos_less (ps ! a) (ps ! b)" if "a \<le> b" "b < length ps" for a b
    using that sorted_wrt_nth_less [OF assms, of a b] by (cases "a = b") auto
  then have "F b" if "a \<le> b" "b < length ps" "F a" for a b
    using that pos_order.less_trans [of p "ps ! a" "ps ! b"] unfolding F by fastforce
  then have "switches F (length ps)" unfolding switches_def by blast
  note spec = sort_Search_spec [OF this, folded s_def]
  show ?thesis
  proof
    assume "p \<in> set ps"
    then obtain j where j: "j < length ps" "ps ! j = p" by (auto simp: in_set_conv_nth)
    have sj: "s \<le> j" using spec(2) [of j] F [of j] j(2) by (meson not_le)
    have "ps ! s = p"
    proof (cases "s = j")
      case False
      then have "pos_less (ps ! s) p"
        using sj j sorted_wrt_nth_less [OF assms, of s j] by simp
      moreover have "p = ps ! s \<or> pos_less p (ps ! s)"
        using spec(3) [of s] sj j(1) unfolding F by simp
      ultimately show ?thesis using pos_order.less_asym by blast
    qed (use j in simp)
    with sj j(1) show "containsPosition ps p" unfolding c by simp
  next
    assume "containsPosition ps p"
    then show "p \<in> set ps" unfolding c using nth_mem by metis
  qed
qed

definition nodes_of :: "ProofNode list \<Rightarrow> tree_nodes_map" where
  "nodes_of ns t = map (\<lambda>n. (nrPosition (pnRef n), pnHash n)) (filter (\<lambda>n. nrTree (pnRef n) = t) ns)"

lemma nodes_of_snoc:
  "nodes_of (ns @ [n]) = (nodes_of ns)(nrTree (pnRef n) := nodes_of ns (nrTree (pnRef n)) @ [(nrPosition (pnRef n), pnHash n)])"
  by (rule ext) (simp add: nodes_of_def)

lemma keys_nodes_of:
  "p \<in> set (gm_keys (nodes_of ns t)) \<longleftrightarrow> mk_ref t p \<in> pnRef ` set ns"
proof
  assume "p \<in> set (gm_keys (nodes_of ns t))"
  then obtain n where "n \<in> set ns" "nrTree (pnRef n) = t" "p = nrPosition (pnRef n)"
    by (auto simp: nodes_of_def)
  then show "mk_ref t p \<in> pnRef ` set ns"
    by (metis (full_types) NodeRef.surjective imageI old.unit.exhaust)
next
  assume "mk_ref t p \<in> pnRef ` set ns"
  then obtain n where "n \<in> set ns" "mk_ref t p = pnRef n" by blast
  then have "n \<in> set (filter (\<lambda>n. nrTree (pnRef n) = t) ns)" "p = nrPosition (pnRef n)"
    by (auto dest: sym)
  then show "p \<in> set (gm_keys (nodes_of ns t))"
    unfolding nodes_of_def by (simp only: map_map comp_def fst_conv set_map) blast
qed

lemma add_nodes_Inr:
  "rfold (add_node plans) (\<lambda>_. []) ns = Inr treeNodes \<longleftrightarrow>
     treeNodes = nodes_of ns \<and> distinct (map pnRef ns) \<and>
     (\<forall>n \<in> set ns. \<exists>plan. map_of plans (nrTree (pnRef n)) = Some plan \<and>
        containsPosition (tpRequired plan) (nrPosition (pnRef n)))"
proof (induction ns arbitrary: treeNodes rule: rev_induct)
  case Nil
  show ?case by (auto simp: nodes_of_def fun_eq_iff)
next
  case (snoc n ns)
  let ?t = "nrTree (pnRef n)" and ?p = "nrPosition (pnRef n)"
  have ref: "mk_ref ?t ?p = pnRef n" by simp
  have dup: "map_of (nodes_of ns ?t) ?p = None \<longleftrightarrow> pnRef n \<notin> pnRef ` set ns"
    unfolding map_of_None_keys keys_nodes_of ref ..
  have step: "add_node plans (nodes_of ns) n = Inr q \<longleftrightarrow>
      q = nodes_of (ns @ [n]) \<and> pnRef n \<notin> pnRef ` set ns \<and>
      (\<exists>plan. map_of plans ?t = Some plan \<and> containsPosition (tpRequired plan) ?p)" for q
  proof (cases "pnRef n \<in> pnRef ` set ns")
    case True
    with dup show ?thesis by (auto simp: add_node_def Let_def split: option.splits)
  next
    case False
    then have "?p \<notin> set (gm_keys (nodes_of ns ?t))" unfolding keys_nodes_of ref .
    then have "(nodes_of ns)(?t := gm_put ?p (pnHash n) (nodes_of ns ?t)) = nodes_of (ns @ [n])"
      by (simp add: gm_put_absent nodes_of_snoc)
    with False dup show ?thesis by (auto simp: add_node_def Let_def split: option.splits)
  qed
  show ?case
    unfolding rfold_snoc rbind_eq_Inr_iff snoc.IH using step by auto
qed

lemma gm_wf_nodes_of: "distinct (map pnRef ns) \<Longrightarrow> gm_wf (nodes_of ns t)"
proof (induction ns rule: rev_induct)
  case (snoc n ns)
  have ref: "mk_ref (nrTree (pnRef n)) (nrPosition (pnRef n)) = pnRef n" by simp
  have "nrPosition (pnRef n) \<notin> set (gm_keys (nodes_of ns (nrTree (pnRef n))))"
    unfolding keys_nodes_of ref using snoc.prems by auto
  with snoc show ?case by (auto simp: nodes_of_snoc gm_wf_def)
qed (simp add: nodes_of_def)

lemma rfold_unit:
  "rfold f () xs = Inr u \<longleftrightarrow> (\<forall>x \<in> set xs. f () x = Inr ())"
  by (induction xs) auto

lemma length_subset_eq:
  assumes "distinct xs" and "distinct ys" and "set xs \<subseteq> set ys" and "length xs = length ys"
  shows "set xs = set ys"
  using assms by (metis List.finite_set card_subset_eq distinct_card)

text \<open>After the check a tree has exactly the nodes its plan requires.\<close>

lemma check_nodes_keys:
  assumes "gm_wf (treeNodes t)" and "distinct (tpRequired p)"
    and "set (gm_keys (treeNodes t)) \<subseteq> set (tpRequired p)"
  shows "check_nodes treeNodes () (t, p) = Inr () \<longleftrightarrow> set (gm_keys (treeNodes t)) = set (tpRequired p)"
proof (cases "length (treeNodes t) = length (tpRequired p)")
  case True
  then have "set (gm_keys (treeNodes t)) = set (tpRequired p)"
    using assms by (intro length_subset_eq) (auto simp: gm_wf_def)
  with True show ?thesis by (simp add: check_nodes_def)
next
  case False
  then show ?thesis
    using assms(3) unfolding check_nodes_def prod.case map_of_None_keys by auto
qed

section \<open>Requested leaves\<close>

definition leaf_map :: "RequestedLeaf list \<Rightarrow> (PhysicalAddress, hash) gomap" where
  "leaf_map leaves = map (\<lambda>l. (rlAddress l, rlHash l)) leaves"

lemma gm_keys_leaf_map [simp]: "gm_keys (leaf_map leaves) = map rlAddress leaves"
  by (simp add: leaf_map_def comp_def)

lemma collect_leaves_Inr:
  "rfold (\<lambda>result leaf.
       if map_of result (rlAddress leaf) \<noteq> None
       then Inl (Errorf ''verify HMF proof: duplicate target leaf for address %+v'')
       else Inr (gm_put (rlAddress leaf) (rlHash leaf) result)) [] leaves = Inr m \<longleftrightarrow>
     m = leaf_map leaves \<and> distinct (map rlAddress leaves)"
proof (induction leaves arbitrary: m rule: rev_induct)
  case (snoc l ls)
  show ?case
  proof (cases "rlAddress l \<in> set (map rlAddress ls)")
    case True
    then have "map_of (leaf_map ls) (rlAddress l) \<noteq> None"
      unfolding map_of_None_keys gm_keys_leaf_map by simp
    with True snoc.IH show ?thesis by (auto simp: rfold_snoc)
  next
    case False
    then have "map_of (leaf_map ls) (rlAddress l) = None"
      unfolding map_of_None_keys gm_keys_leaf_map by simp
    moreover have "gm_put (rlAddress l) (rlHash l) (leaf_map ls) = leaf_map (ls @ [l])"
      using False by (subst gm_put_absent) (simp_all add: leaf_map_def)
    ultimately show ?thesis using False snoc.IH by (auto simp: rfold_snoc)
  qed
qed (auto simp: leaf_map_def)

lemma validateProofLeaves_Inr:
  "validateProofLeaves planned requested leaves = Inr m \<longleftrightarrow>
     normalizeAddresses requested = Inr planned \<and> m = leaf_map leaves \<and>
     distinct (map rlAddress leaves) \<and> length leaves = length planned \<and>
     set planned \<subseteq> rlAddress ` set leaves"
proof (cases "normalizeAddresses requested = Inr planned \<and> distinct (map rlAddress leaves)")
  case True
  have "(\<exists>a \<in> set planned. map_of (leaf_map leaves) a = None) \<longleftrightarrow> \<not> set planned \<subseteq> rlAddress ` set leaves"
    unfolding map_of_None_keys gm_keys_leaf_map by auto
  with True show ?thesis
    using collect_leaves_Inr [of leaves "leaf_map leaves"]
    by (auto simp: validateProofLeaves_def leaf_map_def)
next
  case False
  then show ?thesis
    using collect_leaves_Inr [of leaves]
    by (auto simp: validateProofLeaves_def split: if_splits)
qed

text \<open>The leaves of one segment, grouped from the requested leaves.\<close>

definition segment_leaves_of :: "RequestedLeaf list \<Rightarrow> TreeRef \<Rightarrow> (int, hash) gomap" where
  "segment_leaves_of leaves t = map (\<lambda>l. (paLeafID (rlAddress l), rlHash l))
     (filter (\<lambda>l. segmentTree (segment_key (rlAddress l)) = t) leaves)"

lemma segmentTree_inject [simp]: "segmentTree k = segmentTree k' \<longleftrightarrow> k = k'"
  by (cases k; cases k') (simp add: segmentTree_def)

lemma address_of_leaf:
  "segmentTree (segment_key a) = segmentTree (segment_key b) \<Longrightarrow> paLeafID a = paLeafID b \<Longrightarrow> a = b"
  by (cases a; cases b) simp

lemma segment_leaves_keys:
  "i \<in> set (gm_keys (segment_leaves_of leaves t)) \<longleftrightarrow>
     (\<exists>a \<in> rlAddress ` set leaves. segmentTree (segment_key a) = t \<and> paLeafID a = i)"
  unfolding segment_leaves_of_def by force

lemma add_segment_leaves:
  "distinct (map rlAddress leaves) \<Longrightarrow>
     foldl add_segment_leaf (\<lambda>_. []) (leaf_map leaves) = segment_leaves_of leaves \<and>
     (\<forall>t. gm_wf (segment_leaves_of leaves t))"
proof (induction leaves rule: rev_induct)
  case Nil
  show ?case by (simp add: leaf_map_def segment_leaves_of_def fun_eq_iff)
next
  case (snoc l ls)
  let ?a = "rlAddress l"
  let ?t = "segmentTree (segment_key ?a)"
  have "?a \<notin> rlAddress ` set ls" using snoc.prems by auto
  then have new: "paLeafID ?a \<notin> set (gm_keys (segment_leaves_of ls ?t))"
    unfolding segment_leaves_keys by (metis address_of_leaf)
  have upd: "segment_leaves_of (ls @ [l]) =
      (segment_leaves_of ls)(?t := segment_leaves_of ls ?t @ [(paLeafID ?a, rlHash l)])"
    by (rule ext) (auto simp: segment_leaves_of_def)
  have "foldl add_segment_leaf (\<lambda>_. []) (leaf_map (ls @ [l])) =
      add_segment_leaf (segment_leaves_of ls) (?a, rlHash l)"
    using snoc by (simp add: leaf_map_def)
  also have "\<dots> = segment_leaves_of (ls @ [l])"
    unfolding upd add_segment_leaf_def using gm_put_absent [OF new] by (simp add: Let_def)
  finally have "foldl add_segment_leaf (\<lambda>_. []) (leaf_map (ls @ [l])) = segment_leaves_of (ls @ [l])" .
  moreover have "gm_wf (segment_leaves_of (ls @ [l]) t)" for t
    using snoc new by (auto simp: upd gm_wf_def)
  ultimately show ?case by blast
qed

section \<open>Links\<close>

definition children_of :: "ParentLink list \<Rightarrow> TreeRef \<Rightarrow> (int, TreeRef) gomap" where
  "children_of links t = map (\<lambda>k. (plParentLeafIndex k, plChild k)) (filter (\<lambda>k. plParent k = t) links)"

definition parent_of :: "ParentLink list \<Rightarrow> TreeRef \<rightharpoonup> TreeRef" where
  "parent_of links = map_of (map (\<lambda>k. (plChild k, plParent k)) links)"

definition link_ok :: "(TreeRef, TreePlan) gomap \<Rightarrow> ParentLink \<Rightarrow> bool" where
  "link_ok plans k \<longleftrightarrow> map_of plans (plChild k) \<noteq> None \<and> map_of plans (plParent k) \<noteq> None \<and>
     validParentLink (plChild k) (plParent k)"

text \<open>
  A child has one link, so two links to the same leaf of a parent have different children and
  are a conflict.
\<close>

lemma parent_of_None: "parent_of links c = None \<longleftrightarrow> c \<notin> plChild ` set links"
  unfolding parent_of_def map_of_None_keys by force

lemma add_links_Inr:
  "rfold (add_link plans) (\<lambda>_. [], Map.empty) links = Inr (children, parentOf) \<longleftrightarrow>
     children = children_of links \<and> parentOf = parent_of (rev links) \<and>
     (\<forall>k \<in> set links. link_ok plans k) \<and> distinct (map plChild links) \<and>
     (\<forall>t. gm_wf (children_of links t))"
proof (induction links arbitrary: children parentOf rule: rev_induct)
  case Nil
  show ?case by (auto simp: children_of_def parent_of_def fun_eq_iff)
next
  case (snoc k ks)
  let ?c = "plChild k" and ?p = "plParent k" and ?i = "plParentLeafIndex k"
  let ?s = "(children_of ks, parent_of (rev ks))"
  have par: "(parent_of (rev ks))(?c \<mapsto> ?p) = parent_of (rev (ks @ [k]))"
    by (simp add: parent_of_def)
  have child_in: "existing \<in> plChild ` set ks"
    if "map_of (children_of ks ?p) ?i = Some existing" for existing
    using map_of_SomeD [OF that] by (auto simp: children_of_def)
  have absent: "gm_put ?i ?c (children_of ks ?p) = children_of (ks @ [k]) ?p"
    if "?i \<notin> set (gm_keys (children_of ks ?p))"
    using gm_put_absent [OF that] by (simp add: children_of_def)
  have upd: "(children_of ks)(?p := children_of (ks @ [k]) ?p) = children_of (ks @ [k])"
    by (rule ext) (simp add: children_of_def)
  have wf: "(\<forall>t. gm_wf (children_of (ks @ [k]) t)) \<longleftrightarrow>
      (\<forall>t. gm_wf (children_of ks t)) \<and> ?i \<notin> set (gm_keys (children_of ks ?p))"
  proof
    assume *: "\<forall>t. gm_wf (children_of (ks @ [k]) t)"
    have "gm_wf (children_of ks t)" for t
      using * [THEN spec, of t] by (auto simp: children_of_def gm_wf_def split: if_splits)
    moreover have "?i \<notin> set (gm_keys (children_of ks ?p))"
      using * [THEN spec, of ?p] by (auto simp: children_of_def gm_wf_def)
    ultimately show "(\<forall>t. gm_wf (children_of ks t)) \<and> ?i \<notin> set (gm_keys (children_of ks ?p))" by blast
  qed (auto simp: children_of_def gm_wf_def)
  have step: "add_link plans ?s k = Inr q \<longleftrightarrow>
      q = (children_of (ks @ [k]), parent_of (rev (ks @ [k]))) \<and> link_ok plans k \<and>
      ?c \<notin> plChild ` set ks \<and> ?i \<notin> set (gm_keys (children_of ks ?p))" for q
  proof (cases "link_ok plans k \<and> ?c \<notin> plChild ` set ks")
    case True
    then have 1: "parent_of (rev ks) ?c = None" by (simp add: parent_of_None)
    show ?thesis
    proof (cases "map_of (children_of ks ?p) ?i")
      case None
      then have i: "?i \<notin> set (gm_keys (children_of ks ?p))" unfolding map_of_None_keys .
      then have "add_link plans ?s k = Inr (children_of (ks @ [k]), parent_of (rev (ks @ [k])))"
        using True 1 None absent [OF i] upd par by (simp add: add_link_def link_ok_def)
      with True i show ?thesis by auto
    next
      case (Some existing)
      then have "existing \<noteq> ?c" using child_in True by blast
      moreover have "?i \<in> set (gm_keys (children_of ks ?p))"
        using Some map_of_None_keys [of "children_of ks ?p" ?i] by fastforce
      ultimately show ?thesis using True 1 Some by (auto simp: add_link_def link_ok_def)
    qed
  next
    case False
    then have "\<exists>e. add_link plans ?s k = Inl e"
      using parent_of_None [of "rev ks" ?c] by (auto simp: add_link_def link_ok_def)
    with False show ?thesis by auto
  qed
  have "rfold (add_link plans) (\<lambda>_. [], Map.empty) (ks @ [k]) = Inr (children, parentOf) \<longleftrightarrow>
      (\<exists>s. rfold (add_link plans) (\<lambda>_. [], Map.empty) ks = Inr s \<and> add_link plans s k = Inr (children, parentOf))"
    by (simp add: rfold_snoc)
  also have "\<dots> \<longleftrightarrow> (\<forall>k \<in> set ks. link_ok plans k) \<and> distinct (map plChild ks) \<and>
      (\<forall>t. gm_wf (children_of ks t)) \<and> add_link plans ?s k = Inr (children, parentOf)"
    using snoc.IH by (metis surj_pair)
  also have "\<dots> \<longleftrightarrow> children = children_of (ks @ [k]) \<and> parentOf = parent_of (rev (ks @ [k])) \<and>
     (\<forall>k \<in> set (ks @ [k]). link_ok plans k) \<and> distinct (map plChild (ks @ [k])) \<and>
     (\<forall>t. gm_wf (children_of (ks @ [k]) t))"
    unfolding step wf by auto
  finally show ?case .
qed

lemma check_linked_Inr:
  "check_linked parentOf () (t, p) = Inr () \<longleftrightarrow>
     (if trLayer t = LayerGlobal then t = globalTree else parentOf t \<noteq> None)"
  by (auto simp: check_linked_def)

section \<open>Known leaves of the upper trees\<close>

definition leaf_count_of :: "(TreeRef, TreePlan) gomap \<Rightarrow> TreeRef \<Rightarrow> int" where
  "leaf_count_of plans t = tpLeafCount (gm_get zero_plan (map_of plans) t)"

definition child_roots ::
  "hash_fn \<Rightarrow> (TreeRef, TreePlan) gomap \<Rightarrow> (TreeRef \<rightharpoonup> hash) \<Rightarrow> (int, TreeRef) gomap \<Rightarrow> (int, hash) gomap" where
  "child_roots H plans roots cs =
     map (\<lambda>(i, c). (i, committedRoot H c (leaf_count_of plans c) (gm_get 0 roots c))) cs"

lemma gm_keys_child_roots [simp]: "gm_keys (child_roots H plans roots cs) = gm_keys cs"
  by (simp add: child_roots_def comp_def case_prod_beta)

lemma add_child_roots_Inr:
  "gm_wf cs \<Longrightarrow> rfold (add_child_root H plans roots) [] cs = Inr known \<longleftrightarrow>
     known = child_roots H plans roots cs \<and> snd ` set cs \<subseteq> dom roots"
proof (induction cs arbitrary: known rule: rev_induct)
  case Nil
  show ?case by (auto simp: child_roots_def)
next
  case (snoc ic cs)
  obtain i c where ic: "ic = (i, c)" by fastforce
  have wf: "gm_wf cs" "i \<notin> set (gm_keys (child_roots H plans roots cs))"
    using snoc.prems ic by (auto simp: gm_wf_def)
  have "child_roots H plans roots (cs @ [ic]) =
      gm_put i (committedRoot H c (leaf_count_of plans c) (gm_get 0 roots c)) (child_roots H plans roots cs)"
    using gm_put_absent [OF wf(2)] by (simp add: child_roots_def ic)
  then show ?case
    using snoc.IH [OF wf(1)] ic
    by (auto simp: rfold_snoc add_child_root_def leaf_count_of_def gm_get_def split: option.splits)
qed

lemma known_leaves_mono:
  assumes "known_leaves H plans sl ch roots t = Inr known" and "roots \<subseteq>\<^sub>m roots'"
    and "gm_wf (ch t)"
  shows "known_leaves H plans sl ch roots' t = Inr known"
proof (cases "trLayer t = LayerSegment")
  case False
  then have k: "known = child_roots H plans roots (ch t)" "snd ` set (ch t) \<subseteq> dom roots"
    using assms(1) add_child_roots_Inr [OF assms(3)] by (auto simp: known_leaves_def)
  have "gm_get 0 roots c = gm_get 0 roots' c" if "c \<in> dom roots" for c
    using assms(2) that by (auto simp: gm_get_def map_le_def dom_def)
  then have "child_roots H plans roots' (ch t) = known"
    using k by (force simp: child_roots_def)
  moreover have "snd ` set (ch t) \<subseteq> dom roots'" using k(2) assms(2) map_le_implies_dom_le by blast
  ultimately show ?thesis using False add_child_roots_Inr [OF assms(3)] by (simp add: known_leaves_def)
qed (use assms(1) in \<open>simp add: known_leaves_def\<close>)

section \<open>The layers\<close>

text \<open>The nested loops visit each tree of a layer once the layers below are done.\<close>

definition eval_order :: "(TreeRef, TreePlan) gomap \<Rightarrow> (TreeRef, TreePlan) gomap" where
  "eval_order plans = concat (map (\<lambda>layer. filter (\<lambda>(t, p). trLayer t = layer) plans)
     [LayerSegment, LayerShard, LayerRegion, LayerGlobal])"

lemma rfold_filter:
  "rfold (\<lambda>s x. if \<not> P x then Inr s else f s x) s xs = rfold f s (filter P xs)"
  by (induction xs arbitrary: s) auto

lemma rfold_concat: "rfold (\<lambda>s ys. rfold f s ys) s yss = rfold f s (concat yss)"
  by (induction yss arbitrary: s) (auto simp: rfold_append)

lemma rfold_map: "rfold f s (map g xs) = rfold (\<lambda>s x. f s (g x)) s xs"
  by (induction xs arbitrary: s) auto

lemma eval_layers_order:
  "rfold (eval_layer H record plans treeNodes sl ch) s [LayerSegment, LayerShard, LayerRegion, LayerGlobal] =
     rfold (eval_tree H record plans treeNodes sl ch) s (eval_order plans)"
proof -
  let ?f = "eval_tree H record plans treeNodes sl ch"
  have layer: "eval_layer H record plans treeNodes sl ch s layer =
      rfold ?f s (filter (\<lambda>(t, p). trLayer t = layer) plans)" for s layer
  proof -
    have "(\<lambda>state (treeRef, treePlan). if trLayer treeRef \<noteq> layer then Inr state else ?f state (treeRef, treePlan)) =
        (\<lambda>s x. if \<not> (case x of (t, p) \<Rightarrow> trLayer t = layer) then Inr s else ?f s x)"
      by (auto simp: fun_eq_iff)
    then show ?thesis unfolding eval_layer_def by (simp only: rfold_filter)
  qed
  show ?thesis unfolding eval_order_def rfold_concat [symmetric] rfold_map
    by (rule arg_cong [of _ _ "\<lambda>f. rfold f s _"]) (auto simp: fun_eq_iff layer)
qed

lemma layers_distinct: "distinct [LayerSegment, LayerShard, LayerRegion, LayerGlobal]"
  by (simp add: LayerSegment_def LayerShard_def LayerRegion_def LayerGlobal_def)

lemma set_eval_order:
  "set (eval_order plans) =
     {(t, p) \<in> set plans. trLayer t \<in> {LayerSegment, LayerShard, LayerRegion, LayerGlobal}}"
  by (auto simp: eval_order_def)

lemma distinct_eval_order:
  assumes "gm_wf plans"
  shows "gm_wf (eval_order plans)"
proof -
  have "distinct (map fst (concat (map (\<lambda>layer. filter (\<lambda>(t, p). trLayer t = layer) plans) ls)))"
    if "distinct ls" for ls
    using that
  proof (induction ls)
    case (Cons l ls)
    have "distinct (map fst (filter (\<lambda>(t, p). trLayer t = l) plans))"
      using assms distinct_map_filter [of fst plans] by (simp add: gm_wf_def)
    moreover have "fst ` set (filter (\<lambda>(t, p). trLayer t = l) plans) \<inter>
        fst ` set (concat (map (\<lambda>layer. filter (\<lambda>(t, p). trLayer t = layer) plans) ls)) = {}"
      using Cons.prems by auto
    ultimately show ?case using Cons by (simp add: image_Un)
  qed simp
  then show ?thesis using layers_distinct unfolding eval_order_def gm_wf_def by blast
qed

text \<open>The reconstruction of a tree does not depend on what is recorded.\<close>

definition recon_core ::
  "hash_fn \<Rightarrow> int \<Rightarrow> (int, hash) gomap \<Rightarrow> (NodePosition, hash) gomap \<Rightarrow> (hash \<times> (NodePosition \<times> hash) list) result" where
  "recon_core H n known nodes =
     (if n \<le> 0 \<or> length known = 0 then Inl (Errorf ''invalid tree leaf count or empty target set'')
      else if \<exists>(index, _) \<in> set known. index < 0 \<or> n \<le> index
      then Inl (Errorf ''known leaf index %d out of range'')
      else rbind (recon_levels H 0 n nodes (sort_Slice (\<lambda>a b. fst a < fst b) known)) (\<lambda>(top, used, recorded).
           if length top \<noteq> 1 then Inl (Errorf ''tree reconstruction produced %d roots'')
           else if used \<noteq> length nodes then Inl (Errorf ''%d of %d proof nodes were unused'')
           else Inr (snd (hd top), map (\<lambda>(i, h). (mk_pos 0 i, h)) known @ nodes @ recorded)))"

lemma reconstruct_core:
  "reconstructTreeTrace H n known nodes t out =
     rbind (recon_core H n known nodes) (\<lambda>(root, ns). Inr (root, map_option (record_nodes t ns) out))"
proof -
  have "map_option (\<lambda>o'. record_nodes t c (record_nodes t b (record_nodes t a o'))) out =
      map_option (record_nodes t (a @ b @ c)) out" for a b c
    by (cases out) simp_all
  then show ?thesis
    by (cases "recon_levels H 0 n nodes (sort_Slice (\<lambda>a b. fst a < fst b) known)")
      (auto simp: reconstructTreeTrace_def recon_core_def Let_def simp del: rbind_eq_Inr_iff)
qed

lemma reconstruct_out:
  assumes "reconstructTreeTrace H n known nodes t out = Inr (root, out')"
  shows "\<exists>ns. \<forall>o'. reconstructTreeTrace H n known nodes t o' = Inr (root, map_option (record_nodes t ns) o')"
  using assms unfolding reconstruct_core by auto

lemma map_of_record_nodes:
  "map_of (record_nodes t ns out) (mk_ref t' p) =
     (if t' = t then case map_of (rev ns) p of Some h \<Rightarrow> Some h | None \<Rightarrow> map_of out (mk_ref t p)
      else map_of out (mk_ref t' p))"
proof (induction ns arbitrary: out)
  case (Cons n ns)
  then show ?case
    by (cases n) (auto simp: record_nodes_def map_of_append map_add_def split: option.splits)
qed (simp add: record_nodes_def)

text \<open>What holds of each visited tree.\<close>

definition tree_done ::
  "hash_fn \<Rightarrow> (TreeRef, TreePlan) gomap \<Rightarrow> tree_nodes_map \<Rightarrow> (TreeRef \<Rightarrow> (int, hash) gomap) \<Rightarrow>
     (TreeRef \<Rightarrow> (int, TreeRef) gomap) \<Rightarrow> (TreeRef \<rightharpoonup> hash) \<Rightarrow> ProofTrace \<Rightarrow> TreeRef \<Rightarrow> TreePlan \<Rightarrow> bool" where
  "tree_done H plans treeNodes sl ch roots trace t p \<longleftrightarrow>
     (\<exists>known root ns. known_leaves H plans sl ch roots t = Inr known \<and> validateTargets p known = Inr () \<and>
        (\<forall>out. reconstructTreeTrace H (tpLeafCount p) known (treeNodes t) t out = Inr (root, map_option (record_nodes t ns) out)) \<and>
        roots t = Some root \<and> map_of (ptRawRoots trace) t = Some root \<and>
        map_of (ptCommittedRoots trace) t = Some (committedRoot H t (tpLeafCount p) root) \<and>
        (\<forall>pos. map_of (ptNodes trace) (mk_ref t pos) = map_of (rev ns) pos))"

lemma eval_trees_inv:
  assumes ch: "\<And>t. gm_wf (ch t)"
    and run: "rfold (eval_tree H True plans treeNodes sl ch) (Map.empty, empty_trace) xs = Inr (roots, trace)"
    and wf: "gm_wf xs"
  shows "dom roots = fst ` set xs \<and> (\<forall>ref \<in> fst ` set (ptNodes trace). nrTree ref \<in> fst ` set xs) \<and>
    (\<forall>(t, p) \<in> set xs. tree_done H plans treeNodes sl ch roots trace t p)"
  using run wf
proof (induction xs arbitrary: roots trace rule: rev_induct)
  case Nil
  then show ?case by (auto simp: empty_trace_def)
next
  case (snoc x xs)
  obtain t p where x: "x = (t, p)" by fastforce
  obtain roots0 trace0 where run0: "rfold (eval_tree H True plans treeNodes sl ch) (Map.empty, empty_trace) xs = Inr (roots0, trace0)"
    and step: "eval_tree H True plans treeNodes sl ch (roots0, trace0) (t, p) = Inr (roots, trace)"
    using snoc.prems(1) x by (auto simp: rfold_snoc)
  have new: "t \<notin> fst ` set xs" and wf: "gm_wf xs" using snoc.prems(2) x by (auto simp: gm_wf_def)
  note IH = snoc.IH [OF run0 wf]
  obtain known root out where known: "known_leaves H plans sl ch roots0 t = Inr known"
    and val: "validateTargets p known = Inr ()"
    and rec: "reconstructTreeTrace H (tpLeafCount p) known (treeNodes t) t (Some (ptNodes trace0)) = Inr (root, out)"
    and roots: "roots = roots0(t \<mapsto> root)"
    and trace: "ptRawRoots trace = gm_put t root (ptRawRoots trace0)" "ptNodes trace = (case out of Some ns \<Rightarrow> ns | None \<Rightarrow> [])"
      "ptCommittedRoots trace = gm_put t (committedRoot H t (tpLeafCount p) root) (ptCommittedRoots trace0)"
    using step by (auto simp: eval_tree_def)
  obtain ns where ns: "\<And>o'. reconstructTreeTrace H (tpLeafCount p) known (treeNodes t) t o' = Inr (root, map_option (record_nodes t ns) o')"
    using reconstruct_out [OF rec] by blast
  have nodes: "ptNodes trace = record_nodes t ns (ptNodes trace0)"
    using rec ns [of "Some (ptNodes trace0)"] trace(2) by auto
  have "\<forall>ref \<in> fst ` set (ptNodes trace0). nrTree ref \<in> fst ` set xs" using IH by blast
  then have fresh: "map_of (ptNodes trace0) (mk_ref t pos) = None" for pos
    unfolding map_of_None_keys using new by (metis NodeRef.select_convs(1) set_map)
  have dom0: "dom roots0 = fst ` set xs" using IH by blast
  then have "roots0 t = None" using new by blast
  then have le: "roots0 \<subseteq>\<^sub>m roots" by (auto simp: roots map_le_def)
  have old: "tree_done H plans treeNodes sl ch roots trace t' p'" if "(t', p') \<in> set xs" for t' p'
  proof -
    have ne: "t' \<noteq> t" using that new by force
    have "tree_done H plans treeNodes sl ch roots0 trace0 t' p'" using IH that by auto
    then obtain known' root' ns' where d: "known_leaves H plans sl ch roots0 t' = Inr known'" "validateTargets p' known' = Inr ()"
      "\<forall>out. reconstructTreeTrace H (tpLeafCount p') known' (treeNodes t') t' out = Inr (root', map_option (record_nodes t' ns') out)"
      "roots0 t' = Some root'" "map_of (ptRawRoots trace0) t' = Some root'"
      "map_of (ptCommittedRoots trace0) t' = Some (committedRoot H t' (tpLeafCount p') root')"
      "\<forall>pos. map_of (ptNodes trace0) (mk_ref t' pos) = map_of (rev ns') pos"
      unfolding tree_done_def by blast
    from known_leaves_mono [OF d(1) le ch] d(2-7) ne show ?thesis
      unfolding tree_done_def using roots trace(1,3) nodes
      by (intro exI [of _ known'] exI [of _ root'] exI [of _ ns']) (simp add: map_of_record_nodes)
  qed
  have "tree_done H plans treeNodes sl ch roots trace t p"
    unfolding tree_done_def using known_leaves_mono [OF known le ch] val ns roots trace(1,3) nodes fresh
    by (intro exI [of _ known] exI [of _ root] exI [of _ ns]) (simp add: map_of_record_nodes split: option.splits)
  moreover have "nrTree ref \<in> fst ` set (xs @ [x])" if "ref \<in> fst ` set (ptNodes trace)" for ref
  proof -
    have "map_of (ptNodes trace) ref \<noteq> None" using that unfolding map_of_None_keys by simp
    moreover have "ref = mk_ref (nrTree ref) (nrPosition ref)" by simp
    ultimately have "nrTree ref = t \<or> map_of (ptNodes trace0) ref \<noteq> None"
      unfolding nodes using map_of_record_nodes [of t ns "ptNodes trace0" "nrTree ref" "nrPosition ref"] by metis
    then show ?thesis using IH x unfolding map_of_None_keys by force
  qed
  moreover have "dom roots = fst ` set (xs @ [x])" using dom0 roots x by simp
  ultimately show ?case using old x by (simp del: fun_upd_apply) blast
qed

section \<open>A successful evaluation\<close>

abbreviation proof_plans :: "HMFProof \<Rightarrow> (TreeRef, TreePlan) gomap" where
  "proof_plans proof \<equiv> plan_map (ppTrees (hpPlan proof))"

abbreviation proof_children :: "HMFProof \<Rightarrow> TreeRef \<Rightarrow> (int, TreeRef) gomap" where
  "proof_children proof \<equiv> children_of (ppParentLinks (hpPlan proof))"

text \<open>The conditions the validation loops establish.\<close>

definition well_formed_proof :: "HMFProof \<Rightarrow> PhysicalAddress list \<Rightarrow> bool" where
  "well_formed_proof proof addresses \<longleftrightarrow>
     normalizeAddresses addresses = Inr (ppAddresses (hpPlan proof)) \<and>
     distinct (map rlAddress (hpLeaves proof)) \<and>
     length (hpLeaves proof) = length (ppAddresses (hpPlan proof)) \<and>
     set (ppAddresses (hpPlan proof)) \<subseteq> rlAddress ` set (hpLeaves proof) \<and>
     distinct (map tpTree (ppTrees (hpPlan proof))) \<and>
     (\<forall>p \<in> set (ppTrees (hpPlan proof)). validateTreePlanShape p = Inr () \<and>
        check_nodes (nodes_of (hpNodes proof)) () (tpTree p, p) = Inr () \<and>
        (if trLayer (tpTree p) = LayerGlobal then tpTree p = globalTree
         else tpTree p \<in> plChild ` set (ppParentLinks (hpPlan proof)))) \<and>
     distinct (map pnRef (hpNodes proof)) \<and>
     (\<forall>n \<in> set (hpNodes proof). \<exists>p. map_of (proof_plans proof) (nrTree (pnRef n)) = Some p \<and>
        containsPosition (tpRequired p) (nrPosition (pnRef n))) \<and>
     (\<forall>k \<in> set (ppParentLinks (hpPlan proof)). link_ok (proof_plans proof) k) \<and>
     distinct (map plChild (ppParentLinks (hpPlan proof))) \<and>
     (\<forall>t. gm_wf (proof_children proof t))"

lemma evaluate_eq:
  "evaluateHMFProof H proof addresses record = Inr trace \<longleftrightarrow>
     well_formed_proof proof addresses \<and>
     (\<exists>roots trace0 root.
        rfold (eval_tree H record (proof_plans proof) (nodes_of (hpNodes proof))
            (segment_leaves_of (hpLeaves proof)) (proof_children proof))
          (Map.empty, empty_trace) (eval_order (proof_plans proof)) = Inr (roots, trace0) \<and>
        roots globalTree = Some root \<and>
        trace = trace0\<lparr>ptGlobalRoot := committedRoot H globalTree (leaf_count_of (proof_plans proof) globalTree) root\<rparr>)"
  (is "?L \<longleftrightarrow> ?W \<and> ?R")
proof -
  let ?plan = "hpPlan proof"
  let ?run = "\<lambda>sl. rfold (eval_tree H record (proof_plans proof) (nodes_of (hpNodes proof)) sl (proof_children proof))
    (Map.empty, empty_trace) (eval_order (proof_plans proof))"
  let ?fin = "\<lambda>(roots, trace). case roots globalTree of
        None \<Rightarrow> Inl (Errorf ''verify HMF proof: global tree root was not reconstructed'')
      | Some root \<Rightarrow> Inr (trace\<lparr>ptGlobalRoot :=
            committedRoot H globalTree (tpLeafCount (gm_get zero_plan (map_of (proof_plans proof)) globalTree)) root\<rparr>)"
  have lk: "(\<forall>x \<in> set (proof_plans proof). check_linked (parent_of (rev (ppParentLinks ?plan))) () x = Inr ()) \<longleftrightarrow>
      (\<forall>p \<in> set (ppTrees ?plan). if trLayer (tpTree p) = LayerGlobal then tpTree p = globalTree
         else tpTree p \<in> plChild ` set (ppParentLinks ?plan))"
    by (simp add: plan_map_def check_linked_Inr parent_of_None)
  have cn: "(\<forall>x \<in> set (proof_plans proof). check_nodes (nodes_of (hpNodes proof)) () x = Inr ()) \<longleftrightarrow>
      (\<forall>p \<in> set (ppTrees ?plan). check_nodes (nodes_of (hpNodes proof)) () (tpTree p, p) = Inr ())"
    by (simp add: plan_map_def)
  have "?L \<longleftrightarrow> ?W \<and> rbind (?run (foldl add_segment_leaf (\<lambda>_. []) (leaf_map (hpLeaves proof)))) ?fin = Inr trace"
    unfolding evaluateHMFProof_def Let_def well_formed_proof_def
    by (simp only: rbind_eq_Inr_iff validateProofLeaves_Inr add_plans_Inr add_nodes_Inr rfold_unit
        split_paired_Ex prod.case add_links_Inr eval_layers_order lk cn ball_conj_distrib
        simp_thms ex_simps conj_assoc) blast
  also have "\<dots> \<longleftrightarrow> ?W \<and> rbind (?run (segment_leaves_of (hpLeaves proof))) ?fin = Inr trace"
    using add_segment_leaves [of "hpLeaves proof"] by (auto simp: well_formed_proof_def)
  also have "\<dots> \<longleftrightarrow> ?W \<and> ?R"
    by (auto simp: leaf_count_of_def split: option.splits)
  finally show ?thesis .
qed

text \<open>
  With the trace recorded, every tree of the proof is evaluated: a layer outside the hierarchy has
  no valid parent link.
\<close>

lemma plan_layers:
  assumes "well_formed_proof proof addresses" and "p \<in> set (ppTrees (hpPlan proof))"
  shows "trLayer (tpTree p) \<in> {LayerSegment, LayerShard, LayerRegion, LayerGlobal}"
proof (cases "trLayer (tpTree p) = LayerGlobal")
  case False
  have "if trLayer (tpTree p) = LayerGlobal then tpTree p = globalTree
      else tpTree p \<in> plChild ` set (ppParentLinks (hpPlan proof))"
    using assms unfolding well_formed_proof_def by blast
  with False obtain k where "k \<in> set (ppParentLinks (hpPlan proof))" "plChild k = tpTree p" by auto
  then have "validParentLink (tpTree p) (plParent k)"
    using assms(1) by (auto simp: well_formed_proof_def link_ok_def)
  then show ?thesis by (auto simp: validParentLink_def split: if_splits)
qed simp

lemma evaluate_trace:
  assumes "evaluateHMFProof H proof addresses True = Inr trace"
  obtains roots root where "well_formed_proof proof addresses"
    and "\<And>p. p \<in> set (ppTrees (hpPlan proof)) \<Longrightarrow>
      tree_done H (proof_plans proof) (nodes_of (hpNodes proof)) (segment_leaves_of (hpLeaves proof))
        (proof_children proof) roots trace (tpTree p) p"
    and "roots globalTree = Some root"
    and "globalTree \<in> tpTree ` set (ppTrees (hpPlan proof))"
    and "ptGlobalRoot trace = committedRoot H globalTree (leaf_count_of (proof_plans proof) globalTree) root"
proof -
  let ?plans = "proof_plans proof" and ?N = "nodes_of (hpNodes proof)"
    and ?sl = "segment_leaves_of (hpLeaves proof)" and ?ch = "proof_children proof"
  obtain roots trace0 root where wf: "well_formed_proof proof addresses"
    and run: "rfold (eval_tree H True ?plans ?N ?sl ?ch) (Map.empty, empty_trace) (eval_order ?plans) = Inr (roots, trace0)"
    and root: "roots globalTree = Some root"
    and trace: "trace = trace0\<lparr>ptGlobalRoot := committedRoot H globalTree (leaf_count_of ?plans globalTree) root\<rparr>"
    using assms unfolding evaluate_eq by blast
  have gm: "gm_wf (eval_order ?plans)" and ch: "\<And>t. gm_wf (?ch t)"
    using wf by (auto simp: well_formed_proof_def intro: distinct_eval_order gm_wf_plan_map)
  note inv = eval_trees_inv [OF ch run gm]
  have all: "tree_done H ?plans ?N ?sl ?ch roots trace (tpTree p) p" if "p \<in> set (ppTrees (hpPlan proof))" for p
  proof -
    have "(tpTree p, p) \<in> set (eval_order ?plans)"
      using that plan_layers [OF wf that] by (auto simp: set_eval_order plan_map_def)
    then have "tree_done H ?plans ?N ?sl ?ch roots trace0 (tpTree p) p" using inv by blast
    then show ?thesis by (simp add: tree_done_def trace)
  qed
  have gl: "globalTree \<in> tpTree ` set (ppTrees (hpPlan proof))"
  proof -
    have "globalTree \<in> fst ` set (eval_order ?plans)" using inv root by blast
    then show ?thesis by (auto simp: set_eval_order plan_map_def)
  qed
  have "ptGlobalRoot trace = committedRoot H globalTree (leaf_count_of ?plans globalTree) root"
    by (simp add: trace)
  with wf all root gl show thesis by (rule that)
qed

section \<open>Recording does not change the result\<close>

definition same_roots :: "('a \<times> 'b) result \<Rightarrow> ('a \<times> 'c) result \<Rightarrow> bool" where
  "same_roots r s \<longleftrightarrow> rbind r (\<lambda>(x, _). Inr x) = rbind s (\<lambda>(x, _). Inr x)"

lemma same_roots_cases:
  assumes "same_roots r s"
  obtains (err) e where "r = Inl e" "s = Inl e" | (ok) x y z where "r = Inr (x, y)" "s = Inr (x, z)"
  using assms by (cases r; cases s) (auto simp: same_roots_def)

lemma reconstruct_same:
  "same_roots (reconstructTreeTrace H n known nodes t out) (reconstructTreeTrace H n known nodes t out')"
  unfolding reconstruct_core same_roots_def by (cases "recon_core H n known nodes") auto

lemma eval_tree_same:
  "same_roots (eval_tree H True plans N sl ch (roots, tr) x) (eval_tree H False plans N sl ch (roots, tr') x)"
proof -
  obtain t p where x: "x = (t, p)" by fastforce
  show ?thesis
  proof (cases "known_leaves H plans sl ch roots t")
    case (Inr known)
    show ?thesis
    proof (cases "validateTargets p known")
      case val: (Inr u)
      show ?thesis
        using reconstruct_same [of H "tpLeafCount p" known "N t" t "Some (ptNodes tr)" None] Inr val x
        by (cases rule: same_roots_cases) (simp_all add: eval_tree_def same_roots_def)
    qed (use Inr x in \<open>simp add: eval_tree_def same_roots_def\<close>)
  qed (use x in \<open>simp add: eval_tree_def same_roots_def\<close>)
qed

lemma eval_trees_same:
  "same_roots (rfold (eval_tree H True plans N sl ch) (roots, tr) xs) (rfold (eval_tree H False plans N sl ch) (roots, tr') xs)"
proof (induction xs arbitrary: roots tr tr')
  case (Cons x xs)
  show ?case
    using eval_tree_same [of H plans N sl ch roots tr x tr']
  proof (cases rule: same_roots_cases)
    case (err e)
    then show ?thesis by (simp add: same_roots_def)
  next
    case (ok r y z)
    then show ?thesis using Cons.IH by simp
  qed
qed (simp add: same_roots_def)

lemma VerifyHMFProof_trace:
  "VerifyHMFProof H proof addresses = Inr root \<longleftrightarrow>
     (\<exists>trace. TraceHMFProof H proof addresses = Inr trace \<and> ptGlobalRoot trace = root)"
proof -
  let ?run = "\<lambda>record. rfold (eval_tree H record (proof_plans proof) (nodes_of (hpNodes proof))
    (segment_leaves_of (hpLeaves proof)) (proof_children proof)) (Map.empty, empty_trace) (eval_order (proof_plans proof))"
  let ?global = "\<lambda>r. committedRoot H globalTree (leaf_count_of (proof_plans proof) globalTree) r"
  have same: "same_roots (?run True) (?run False)" by (rule eval_trees_same)
  have "VerifyHMFProof H proof addresses = Inr root \<longleftrightarrow> well_formed_proof proof addresses \<and>
      (\<exists>roots tr r. ?run False = Inr (roots, tr) \<and> roots globalTree = Some r \<and> ?global r = root)"
    unfolding VerifyHMFProof_def rbind_eq_Inr_iff evaluate_eq by (force simp: ex_simps)
  also have "\<dots> \<longleftrightarrow> well_formed_proof proof addresses \<and>
      (\<exists>roots tr r. ?run True = Inr (roots, tr) \<and> roots globalTree = Some r \<and> ?global r = root)"
    using same by (cases rule: same_roots_cases) auto
  also have "\<dots> \<longleftrightarrow> (\<exists>trace. TraceHMFProof H proof addresses = Inr trace \<and> ptGlobalRoot trace = root)"
    unfolding TraceHMFProof_def evaluate_eq by (force simp: ex_simps)
  finally show ?thesis .
qed

end
