(* ===== verification/HPP_Soundness.thy ===== *)
theory HPP_Soundness
  imports HPP_Evaluation HMF_Forest
begin

text \<open>
  Soundness of hierarchical verification. The trusted root is the published root of a forest whose
  content is, for every shard, the list of its segments with their identifiers and leaf hashes. If
  a proof evaluates to that root, every requested leaf whose segment is planned in the proof is a
  leaf of the forest at the requested address, as long as the hash does not collide on the byte
  strings hashed on the two sides.
\<close>

section \<open>The content behind a trusted root\<close>

type_synonym content = "string \<times> int \<Rightarrow> (int \<times> hash list) list"

definition segment_commitment :: "hash_fn \<Rightarrow> string \<Rightarrow> int \<Rightarrow> int \<times> hash list \<Rightarrow> hash" where
  "segment_commitment H rid s = (\<lambda>(seg, ls).
     CommitSegmentRoot H rid s seg (int (length ls)) (merkle_root H ls))"

definition segs_of :: "hash_fn \<Rightarrow> content \<Rightarrow> segments" where
  "segs_of H content = (\<lambda>(rid, s). map (segment_commitment H rid s) (content (rid, s)))"

definition segment_inputs :: "hash_fn \<Rightarrow> string \<Rightarrow> int \<Rightarrow> int \<times> hash list \<Rightarrow> byte list set" where
  "segment_inputs H rid s = (\<lambda>(seg, ls). insert
     (commit_input ''SEGMENT'' rid s seg (int (length ls)) (merkle_root H ls)) (merkle_inputs H ls))"

definition content_inputs :: "hash_fn \<Rightarrow> string list \<Rightarrow> nat \<Rightarrow> content \<Rightarrow> byte list set" where
  "content_inputs H rids n content = forest_inputs H rids n (segs_of H content) \<union>
     (\<Union>rid \<in> set rids. \<Union>s < n. \<Union>c \<in> set (content (rid, int s)). segment_inputs H rid (int s) c)"

definition content_bounds :: "string list \<Rightarrow> nat \<Rightarrow> content \<Rightarrow> bool" where
  "content_bounds rids n content \<longleftrightarrow>
     int (length rids) < MaxInt64 \<and> int n < MaxInt64 \<and> (\<forall>rid \<in> set rids. length rid < 2 ^ 32) \<and>
     (\<forall>k. int (length (content k)) < MaxInt64 \<and>
        (\<forall>(seg, ls) \<in> set (content k). int64 seg \<and> int (length ls) < MaxInt64))"

lemma content_boundsD:
  assumes "content_bounds rids n content"
  shows "int (length rids) < MaxInt64" and "int n < MaxInt64" and "rid \<in> set rids \<Longrightarrow> length rid < 2 ^ 32"
    and "int (length (content k)) < MaxInt64"
    and "(seg, ls) \<in> set (content k) \<Longrightarrow> int64 seg" and "(seg, ls) \<in> set (content k) \<Longrightarrow> int (length ls) < MaxInt64"
  using assms unfolding content_bounds_def by blast+

text \<open>A leaf of the content at a physical address.\<close>

definition leaf_at :: "string list \<Rightarrow> nat \<Rightarrow> content \<Rightarrow> PhysicalAddress \<Rightarrow> hash \<Rightarrow> bool" where
  "leaf_at rids n content a h \<longleftrightarrow>
     paRegionID a \<in> set rids \<and> 0 \<le> paShardID a \<and> paShardID a < int n \<and>
     (\<exists>ls. (paSegmentID a, ls) \<in> set (content (paRegionID a, paShardID a)) \<and>
        0 \<le> paLeafID a \<and> paLeafID a < int (length ls) \<and> ls ! nat (paLeafID a) = h)"

section \<open>The byte strings of a proof\<close>

definition commit_bytes :: "TreeRef \<Rightarrow> int \<Rightarrow> hash \<Rightarrow> byte list" where
  "commit_bytes t n r =
     (if trLayer t = LayerSegment
      then commit_input ''SEGMENT'' (trRegionID t) (trShardID t) (trSegmentID t) n r
      else if trLayer t = LayerShard then commit_input ''SHARD'' (trRegionID t) (trShardID t) (-1) n r
      else if trLayer t = LayerRegion then commit_input ''REGION'' (trRegionID t) (-1) (-1) n r
      else commit_input ''GLOBAL'' '''' (-1) (-1) n r)"

lemma committedRoot_bytes:
  "trLayer t \<in> {LayerSegment, LayerShard, LayerRegion, LayerGlobal} \<Longrightarrow>
     committedRoot H t n r = H (commit_bytes t n r)"
  by (auto simp: committedRoot_def commit_bytes_def CommitSegmentRoot_def CommitShardRoot_def
      CommitRegionRoot_def CommitGlobalRoot_def commitTreeRoot_def)

definition proof_inputs :: "HMFProof \<Rightarrow> ProofTrace \<Rightarrow> byte list set" where
  "proof_inputs proof trace =
     {node_input a b | t l i a b. map_of (ptNodes trace) (mk_ref t (mk_pos l (i * 2))) = Some a \<and>
        map_of (ptNodes trace) (mk_ref t (mk_pos l (i * 2 + 1))) = Some b} \<union>
     {commit_bytes (tpTree p) (tpLeafCount p) r | p r. p \<in> set (ppTrees (hpPlan proof)) \<and>
        map_of (ptRawRoots trace) (tpTree p) = Some r}"

lemma commit_in_inputs:
  "p \<in> set (ppTrees (hpPlan proof)) \<Longrightarrow> map_of (ptRawRoots trace) (tpTree p) = Some r \<Longrightarrow>
     commit_bytes (tpTree p) (tpLeafCount p) r \<in> proof_inputs proof trace"
  unfolding proof_inputs_def by blast

text \<open>The Go types of a proof: 64-bit counts and identifiers; and names below 4 GB.\<close>

definition typed_proof :: "HMFProof \<Rightarrow> bool" where
  "typed_proof proof \<longleftrightarrow> (\<forall>p \<in> set (ppTrees (hpPlan proof)). int64 (tpLeafCount p) \<and>
     int64 (trShardID (tpTree p)) \<and> int64 (trSegmentID (tpTree p)) \<and> length (trRegionID (tpTree p)) < 2 ^ 32)"

section \<open>What the trace holds\<close>

lemma map_of_fun:
  assumes "\<And>k v. (k, v) \<in> set xs \<Longrightarrow> v = f k" and "k \<in> fst ` set xs"
  shows "map_of xs k = Some (f k)"
proof -
  obtain v where "map_of xs k = Some v" using assms(2) by (metis map_of_eq_None_iff not_Some_eq)
  with assms(1) map_of_SomeD show ?thesis by metis
qed

definition trace_hash ::
  "hash_fn \<Rightarrow> nat \<Rightarrow> int list \<Rightarrow> (int, hash) gomap \<Rightarrow> (NodePosition, hash) gomap \<Rightarrow> NodePosition \<Rightarrow> hash" where
  "trace_hash H n T known nodes p = mp_side H n T known nodes (nat (npLevel p)) (npIndex p)"

lemma trace_list_values:
  assumes T: "index_list (int n) T" and known: "gm_wf known" "set (gm_keys known) = set T"
    and nodes: "gm_wf nodes" "set (gm_keys nodes) = set (required_list 0 n T)"
    and "(p, h) \<in> set (trace_list H n T known nodes)"
  shows "h = trace_hash H n T known nodes p"
proof -
  consider (known) i where "p = mk_pos 0 i" "(i, h) \<in> set known" | (node) "(p, h) \<in> set nodes"
    | (rec) k i where "k < theight n" "i \<in> set (active T (Suc k))" "p = mk_pos (int k + 1) i"
        "h = pval H (map_of nodes) 0 n T (gm_get 0 (map_of known)) (Suc k) i"
    using assms(6) by (auto simp: trace_list_def recorded_list_def simp del: pval.simps)
  then show ?thesis
  proof cases
    case known': known
    then have "map_of known i = Some h" using known(1) by (simp add: gm_mem_iff [symmetric])
    moreover have "i \<in> set T" using known' known(2) by force
    ultimately show ?thesis by (simp add: trace_hash_def mp_side_def pside_def known' gm_get_def)
  next
    case node
    then have h: "map_of nodes p = Some h" using nodes(1) by (simp add: gm_mem_iff [symmetric])
    have "p \<in> set (required_list 0 n T)" using node nodes(2) by force
    then obtain k i where "p = mk_pos (int k) i" "i \<in> set (missing (int (level_width n k)) (active T k))"
      by (auto simp: required_list_def)
    with h set_missing [OF active_index_list [OF T], of i k] show ?thesis
      by (simp add: trace_hash_def mp_side_def pside_def gm_get_def)
  next
    case rec
    have "nat (int k + 1) = Suc k" by simp
    with rec show ?thesis by (simp add: trace_hash_def mp_side_def pside_def del: pval.simps)
  qed
qed

lemma trace_list_keys:
  assumes "set (gm_keys known) = set T" and "set (gm_keys nodes) = set (required_list 0 n T)" and "k < theight n"
    and "i \<in> set (active T k) \<or> i \<in> set (missing (int (level_width n k)) (active T k))"
  shows "mk_pos (int k) i \<in> fst ` set (trace_list H n T known nodes)"
proof -
  consider (miss) "i \<in> set (missing (int (level_width n k)) (active T k))" | (leaf) "k = 0" "i \<in> set T"
    | (inner) j where "k = Suc j" "i \<in> set (active T (Suc j))"
    using assms(4) by (cases k) auto
  then show ?thesis
  proof cases
    case miss
    then have "mk_pos (int k) i \<in> set (required_list 0 n T)" using assms(3) by (auto simp: required_list_def)
    then have "mk_pos (int k) i \<in> fst ` set nodes" using assms(2) by simp
    then show ?thesis by (auto simp: trace_list_def)
  next
    case leaf
    then have "i \<in> fst ` set known" using assms(1) by simp
    with leaf show ?thesis by (force simp: trace_list_def)
  next
    case inner
    have "(mk_pos (int j + 1) i, pval H (map_of nodes) 0 n T (gm_get 0 (map_of known)) (Suc j) i)
        \<in> set (recorded_list H (map_of nodes) 0 n T (gm_get 0 (map_of known)))"
      using inner assms(3) by (auto simp: recorded_list_def simp del: pval.simps)
    moreover have "int k = int j + 1" using inner by simp
    ultimately show ?thesis unfolding trace_list_def by force
  qed
qed

section \<open>One tree of an accepted proof\<close>

text \<open>
  What is known of one tree when its root is the root over a list of hashes: each known leaf is
  the hash at its index.
\<close>

lemma validateTargets_keys:
  assumes "validateTargets p known = Inr ()" and "gm_wf known" and "distinct (tpTargets p)"
  shows "set (gm_keys known) = set (tpTargets p)"
proof -
  have "length known = length (tpTargets p)" "\<forall>t \<in> set (tpTargets p). map_of known t \<noteq> None"
    using assms(1) by (auto simp: validateTargets_def split: if_splits)
  then have "set (tpTargets p) \<subseteq> set (gm_keys known)" unfolding map_of_None_keys by blast
  then show ?thesis
    using assms(2,3) \<open>length known = _\<close> length_subset_eq [of "tpTargets p" "gm_keys known"]
    by (simp add: gm_wf_def)
qed

lemma proof_tree_nodes:
  assumes "well_formed_proof proof addresses" and "p \<in> set (ppTrees (hpPlan proof))"
    and "p = plan_for (tpTree p) n (tpTargets p)" and "index_list (int n) (tpTargets p)"
  shows "gm_wf (nodes_of (hpNodes proof) (tpTree p))"
    and "set (gm_keys (nodes_of (hpNodes proof) (tpTree p))) = set (required_list 0 n (tpTargets p))"
proof -
  let ?N = "nodes_of (hpNodes proof)" and ?t = "tpTree p"
  have wf: "distinct (map pnRef (hpNodes proof))" "distinct (map tpTree (ppTrees (hpPlan proof)))"
    "check_nodes ?N () (?t, p) = Inr ()"
    and nodes: "\<And>m. m \<in> set (hpNodes proof) \<Longrightarrow> \<exists>q. map_of (proof_plans proof) (nrTree (pnRef m)) = Some q \<and>
        containsPosition (tpRequired q) (nrPosition (pnRef m))"
    using assms(1,2) unfolding well_formed_proof_def by blast+
  show gm: "gm_wf (?N ?t)" using wf(1) by (rule gm_wf_nodes_of)
  have req: "tpRequired p = required_list 0 n (tpTargets p)"
    using assms(3) by (metis TreePlan.select_convs(4) plan_for_def)
  have sorted: "sorted_wrt pos_less (tpRequired p)"
    unfolding req by (rule sorted_required_list [OF assms(4)])
  have mp: "map_of (proof_plans proof) ?t = Some p"
    using gm_mem_iff [OF gm_wf_plan_map [OF wf(2)], of ?t p] assms(2) by (auto simp: plan_map_def)
  have "set (gm_keys (?N ?t)) \<subseteq> set (tpRequired p)"
  proof
    fix pos
    assume "pos \<in> set (gm_keys (?N ?t))"
    then obtain m where m: "m \<in> set (hpNodes proof)" "pnRef m = mk_ref ?t pos"
      unfolding keys_nodes_of by force
    then have "containsPosition (tpRequired p) pos" using nodes [OF m(1)] mp by simp
    then show "pos \<in> set (tpRequired p)" using containsPosition_iff [OF sorted] by simp
  qed
  from check_nodes_keys [of ?N ?t p, OF gm pos_order.sorted_distinct [OF sorted] this] wf(3)
  show "set (gm_keys (?N ?t)) = set (required_list 0 n (tpTargets p))" unfolding req by blast
qed

lemma tree_sound:
  assumes wf: "well_formed_proof proof addresses" and p: "p \<in> set (ppTrees (hpPlan proof))"
    and td: "tree_done H plans (nodes_of (hpNodes proof)) sl ch roots trace (tpTree p) p"
    and kwf: "\<And>known. known_leaves H plans sl ch roots (tpTree p) = Inr known \<Longrightarrow> gm_wf known"
    and count: "tpLeafCount p = int (length hs)" "int (length hs) < MaxInt64"
    and root: "roots (tpTree p) = Some (merkle_root H hs)"
    and inj: "inj_on H S" "merkle_inputs H hs \<subseteq> S" "proof_inputs proof trace \<subseteq> S"
  obtains known where "known_leaves H plans sl ch roots (tpTree p) = Inr known"
    and "\<And>i h. (i, h) \<in> set known \<Longrightarrow> 0 \<le> i \<and> i < int (length hs) \<and> hs ! nat i = h"
proof -
  let ?n = "length hs" and ?T = "tpTargets p" and ?t = "tpTree p"
  let ?nodes = "nodes_of (hpNodes proof) ?t"
  obtain known rt ns where known: "known_leaves H plans sl ch roots ?t = Inr known"
    and val: "validateTargets p known = Inr ()"
    and rec: "\<And>out. reconstructTreeTrace H (tpLeafCount p) known ?nodes ?t out = Inr (rt, map_option (record_nodes ?t ns) out)"
    and rt: "roots ?t = Some rt" and tr: "\<And>pos. map_of (ptNodes trace) (mk_ref ?t pos) = map_of (rev ns) pos"
    using td unfolding tree_done_def by blast
  have gmk: "gm_wf known" by (rule kwf [OF known])
  have "validateTreePlanShape p = Inr ()" using wf p unfolding well_formed_proof_def by blast
  from validateTreePlanShape_Inr [OF this] count obtain m where
    m: "p = plan_for ?t m ?T" "index_list (int m) ?T" "?T \<noteq> []" by auto
  have "tpLeafCount p = int m" using m(1) by (metis TreePlan.select_convs(2) plan_for_def)
  then have mn: "m = ?n" using count(1) by simp
  note T = m(2,3) [unfolded mn]
  have dist: "distinct ?T" using T(1) int_less.sorted_distinct by (auto simp: index_list_def)
  note keys = validateTargets_keys [OF val gmk dist]
  note nodes = proof_tree_nodes [OF wf p m(1,2), unfolded mn]
  note eq = reconstruct_eq [OF count(2) T gmk keys nodes, of H ?t, folded count(1)]
  have "rt = mp_root H ?n ?T known ?nodes" using rec [of None] eq [of None] by simp
  then have mroot: "mp_root H ?n ?T known ?nodes = merkle_root H hs" using rt root by simp
  have ns: "map_of (rev ns) pos = map_of (rev (trace_list H ?n ?T known ?nodes)) pos" for pos
    using rec [of "Some []"] eq [of "Some []"]
      map_of_record_nodes [of ?t ns "[]" ?t pos] map_of_record_nodes [of ?t "trace_list H ?n ?T known ?nodes" "[]" ?t pos]
    by (auto split: option.splits)
  have side: "map_of (ptNodes trace) (mk_ref ?t (mk_pos (int k) i)) = Some (mp_side H ?n ?T known ?nodes k i)"
    if "k < theight ?n" "i \<in> set (active ?T k) \<or> i \<in> set (missing (int (level_width ?n k)) (active ?T k))" for k i
  proof -
    have "map_of (rev (trace_list H ?n ?T known ?nodes)) (mk_pos (int k) i) =
        Some (trace_hash H ?n ?T known ?nodes (mk_pos (int k) i))"
      using trace_list_values [OF T(1) gmk keys nodes] trace_list_keys [OF keys nodes(2) that, of H]
      by (intro map_of_fun) auto
    then show ?thesis unfolding tr ns by (simp add: trace_hash_def)
  qed
  have "mp_inputs H ?n ?T known ?nodes \<subseteq> proof_inputs proof trace"
  proof
    fix x
    assume "x \<in> mp_inputs H ?n ?T known ?nodes"
    then obtain k i where x: "x = node_input (mp_side H ?n ?T known ?nodes k (i * 2)) (mp_side H ?n ?T known ?nodes k (i * 2 + 1))"
      and k: "k < theight ?n" "i \<in> set (active ?T (Suc k))" "i * 2 + 1 < int (level_width ?n k)"
      by (auto simp: mp_inputs_def)
    have "map_of (ptNodes trace) (mk_ref ?t (mk_pos (int k) j)) = Some (mp_side H ?n ?T known ?nodes k j)"
      if "j \<in> {i * 2, i * 2 + 1}" for j
      using that k(3) by (intro side [OF k(1)] children_covered [OF T(1) k(2)]) auto
    then show "x \<in> proof_inputs proof trace" unfolding proof_inputs_def x by blast
  qed
  then have "inj_on H (merkle_inputs H hs \<union> mp_inputs H ?n ?T known ?nodes)"
    using inj by (blast intro: inj_on_subset)
  note sound = mp_sound(1) [OF T mroot this]
  have "0 \<le> i \<and> i < int ?n \<and> hs ! nat i = h" if ih: "(i, h) \<in> set known" for i h
  proof -
    have i: "i \<in> set ?T" using ih keys by force
    have "map_of known i = Some h" using ih gmk by (simp add: gm_mem_iff [symmetric])
    with sound [OF i] i T(1) show ?thesis by (auto simp: gm_get_def index_list_def)
  qed
  with known show thesis by (rule that)
qed

section \<open>Down the hierarchy\<close>

text \<open>
  The facts shared by the steps from one layer to the next: an accepted proof, and a set of byte
  strings on which the hash does not collide that holds those of the content and of the proof.
\<close>

definition accepted ::
  "hash_fn \<Rightarrow> HMFProof \<Rightarrow> PhysicalAddress list \<Rightarrow> (TreeRef \<rightharpoonup> hash) \<Rightarrow> ProofTrace \<Rightarrow> byte list set \<Rightarrow> bool" where
  "accepted H proof addresses roots trace S \<longleftrightarrow>
     well_formed_proof proof addresses \<and>
     (\<forall>p \<in> set (ppTrees (hpPlan proof)). tree_done H (proof_plans proof) (nodes_of (hpNodes proof))
        (segment_leaves_of (hpLeaves proof)) (proof_children proof) roots trace (tpTree p) p) \<and>
     typed_proof proof \<and> inj_on H S \<and> proof_inputs proof trace \<subseteq> S"

lemma wf_children: "well_formed_proof proof addresses \<Longrightarrow> gm_wf (proof_children proof t)"
  unfolding well_formed_proof_def by blast

lemma wf_leaves: "well_formed_proof proof addresses \<Longrightarrow> gm_wf (segment_leaves_of (hpLeaves proof) t)"
  unfolding well_formed_proof_def using add_segment_leaves by blast

lemma known_wf:
  assumes "well_formed_proof proof addresses"
    and "known_leaves H plans (segment_leaves_of (hpLeaves proof)) (proof_children proof) roots t = Inr known"
  shows "gm_wf known"
  using assms wf_leaves [OF assms(1)] wf_children [OF assms(1)] add_child_roots_Inr [OF wf_children [OF assms(1)]]
  by (auto simp: known_leaves_def gm_wf_def split: if_splits)

lemma accepted_leaf_count:
  assumes "well_formed_proof proof addresses" and "p \<in> set (ppTrees (hpPlan proof))"
  shows "leaf_count_of (proof_plans proof) (tpTree p) = tpLeafCount p"
proof -
  have "distinct (map tpTree (ppTrees (hpPlan proof)))" using assms(1) unfolding well_formed_proof_def by blast
  then have "map_of (proof_plans proof) (tpTree p) = Some p"
    using gm_mem_iff [OF gm_wf_plan_map, of "ppTrees (hpPlan proof)" "tpTree p" p] assms(2) by (auto simp: plan_map_def)
  then show ?thesis by (simp add: leaf_count_of_def gm_get_def)
qed

text \<open>
  A tree below the global one, seen from its parent: where the parent's root is the root over
  \<open>hs\<close>, the committed root of the child is an element of \<open>hs\<close>.
\<close>

lemma child_committed:
  assumes acc: "accepted H proof addresses roots trace S"
    and k: "k \<in> set (ppParentLinks (hpPlan proof))" "plChild k = tpTree c" "plParent k = tpTree p"
    and cp: "c \<in> set (ppTrees (hpPlan proof))" "p \<in> set (ppTrees (hpPlan proof))"
    and upper: "trLayer (tpTree p) \<noteq> LayerSegment"
    and p: "tpLeafCount p = int (length hs)" "int (length hs) < MaxInt64"
      "roots (tpTree p) = Some (merkle_root H hs)" "merkle_inputs H hs \<subseteq> S"
  obtains i r where "i < length hs" and "plParentLeafIndex k = int i" and "roots (tpTree c) = Some r"
    and "H (commit_bytes (tpTree c) (tpLeafCount c) r) = hs ! i"
    and "commit_bytes (tpTree c) (tpLeafCount c) r \<in> S"
proof -
  let ?plans = "proof_plans proof" and ?sl = "segment_leaves_of (hpLeaves proof)" and ?ch = "proof_children proof"
  have wf: "well_formed_proof proof addresses" and inj: "inj_on H S" "proof_inputs proof trace \<subseteq> S"
    and td: "\<And>q. q \<in> set (ppTrees (hpPlan proof)) \<Longrightarrow>
      tree_done H ?plans (nodes_of (hpNodes proof)) ?sl ?ch roots trace (tpTree q) q"
    using acc by (auto simp: accepted_def)
  obtain known where known: "known_leaves H ?plans ?sl ?ch roots (tpTree p) = Inr known"
    and at: "\<And>i h. (i, h) \<in> set known \<Longrightarrow> 0 \<le> i \<and> i < int (length hs) \<and> hs ! nat i = h"
    by (rule tree_sound [OF wf cp(2) td [OF cp(2)] known_wf [OF wf] p(1,2,3) inj(1) p(4) inj(2)])
      (assumption, erule that, blast)
  obtain r where r: "roots (tpTree c) = Some r" "map_of (ptRawRoots trace) (tpTree c) = Some r"
    using td [OF cp(1)] unfolding tree_done_def by blast
  have "known = child_roots H ?plans roots (?ch (tpTree p))"
    using known upper add_child_roots_Inr [OF wf_children [OF wf]] by (simp add: known_leaves_def)
  moreover have "(plParentLeafIndex k, tpTree c) \<in> set (?ch (tpTree p))"
    using k by (force simp: children_of_def)
  ultimately have "(plParentLeafIndex k, committedRoot H (tpTree c) (tpLeafCount c) r) \<in> set known"
    using r(1) accepted_leaf_count [OF wf cp(1)] by (force simp: child_roots_def gm_get_def)
  from at [OF this] have "0 \<le> plParentLeafIndex k" "plParentLeafIndex k < int (length hs)"
    "hs ! nat (plParentLeafIndex k) = H (commit_bytes (tpTree c) (tpLeafCount c) r)"
    using committedRoot_bytes [OF plan_layers [OF wf cp(1)]] by auto
  moreover have "commit_bytes (tpTree c) (tpLeafCount c) r \<in> S"
    using inj(2) commit_in_inputs [OF cp(1) r(2)] by blast
  ultimately show thesis
    using that [of "nat (plParentLeafIndex k)" r] r(1) by auto
qed

lemma commit_bytes_eq:
  assumes "inj_on H S" and "x \<in> S" and "y \<in> S" and "H x = H y"
  shows "x = y"
  using assms by (auto dest: inj_onD)

lemma plan_link:
  assumes "well_formed_proof proof addresses" and "c \<in> set (ppTrees (hpPlan proof))"
    and "trLayer (tpTree c) \<noteq> LayerGlobal"
  obtains k p where "k \<in> set (ppParentLinks (hpPlan proof))" and "plChild k = tpTree c"
    and "p \<in> set (ppTrees (hpPlan proof))" and "plParent k = tpTree p" and "validParentLink (tpTree c) (tpTree p)"
proof -
  have "if trLayer (tpTree c) = LayerGlobal then tpTree c = globalTree
      else tpTree c \<in> plChild ` set (ppParentLinks (hpPlan proof))"
    and ok: "\<And>k. k \<in> set (ppParentLinks (hpPlan proof)) \<Longrightarrow> link_ok (proof_plans proof) k"
    using assms(1,2) unfolding well_formed_proof_def by blast+
  with assms(3) obtain k where k: "k \<in> set (ppParentLinks (hpPlan proof))" "plChild k = tpTree c" by auto
  then have "map_of (proof_plans proof) (plParent k) \<noteq> None" "validParentLink (plChild k) (plParent k)"
    using ok [OF k(1)] by (auto simp: link_ok_def)
  moreover obtain p where "p \<in> set (ppTrees (hpPlan proof))" "plParent k = tpTree p"
    using calculation(1) unfolding map_of_None_keys gm_keys_plan_map by auto
  ultimately show thesis using that k by metis
qed

text \<open>The four steps, from the global tree to the segments.\<close>

definition trusted :: "hash_fn \<Rightarrow> string list \<Rightarrow> nat \<Rightarrow> content \<Rightarrow> byte list set \<Rightarrow> bool" where
  "trusted H rids n content S \<longleftrightarrow> content_inputs H rids n content \<subseteq> S \<and> content_bounds rids n content"

lemma int64_small: "0 \<le> x \<Longrightarrow> x < MaxInt64 \<Longrightarrow> int64 x"
  by (simp add: int64_def)

lemma layer_simps [simp]:
  "LayerSegment \<noteq> LayerShard" "LayerSegment \<noteq> LayerRegion" "LayerSegment \<noteq> LayerGlobal"
  "LayerShard \<noteq> LayerRegion" "LayerShard \<noteq> LayerGlobal" "LayerRegion \<noteq> LayerGlobal"
  "LayerShard \<noteq> LayerSegment" "LayerRegion \<noteq> LayerSegment" "LayerGlobal \<noteq> LayerSegment"
  "LayerRegion \<noteq> LayerShard" "LayerGlobal \<noteq> LayerShard" "LayerGlobal \<noteq> LayerRegion"
  "LayerSegment + 1 = LayerShard" "LayerShard + 1 = LayerRegion" "LayerRegion + 1 = LayerGlobal"
  by (simp_all add: LayerSegment_def LayerShard_def LayerRegion_def LayerGlobal_def)

lemma global_step:
  assumes acc: "accepted H proof addresses roots trace S" and tr: "trusted H rids n content S"
    and g: "g \<in> set (ppTrees (hpPlan proof))" "tpTree g = globalTree"
    and root: "roots globalTree = Some r" "H (commit_bytes globalTree (tpLeafCount g) r) = forest_root H rids n (segs_of H content)"
  shows "tpLeafCount g = int (length rids)"
    and "r = merkle_root H (map (region_commitment H n (segs_of H content)) rids)"
proof -
  let ?hs = "map (region_commitment H n (segs_of H content)) rids"
  have wf: "tree_done H (proof_plans proof) (nodes_of (hpNodes proof)) (segment_leaves_of (hpLeaves proof))
      (proof_children proof) roots trace globalTree g" "inj_on H S" "proof_inputs proof trace \<subseteq> S" "typed_proof proof"
    using acc g by (auto simp: accepted_def)
  then have "map_of (ptRawRoots trace) globalTree = Some r" using root(1) by (auto simp: tree_done_def)
  then have 1: "commit_bytes globalTree (tpLeafCount g) r \<in> S"
    using commit_in_inputs [OF g(1), of trace r] wf(3) g(2) by auto
  have cb: "commit_bytes globalTree x y = commit_input ''GLOBAL'' '''' (-1) (-1) x y" for x y
    by (simp add: commit_bytes_def globalTree_def)
  have 2: "commit_input ''GLOBAL'' '''' (-1) (-1) (int (length rids)) (merkle_root H ?hs) \<in> S"
    using tr by (auto simp: trusted_def content_inputs_def forest_inputs_def)
  have "commit_input ''GLOBAL'' '''' (-1) (-1) (tpLeafCount g) r =
      commit_input ''GLOBAL'' '''' (-1) (-1) (int (length rids)) (merkle_root H ?hs)"
    using root(2) 1 2 unfolding cb
    by (intro commit_bytes_eq [OF wf(2)]) (simp_all add: forest_root_def CommitGlobalRoot_def commitTreeRoot_def)
  from commit_input_inject [OF this] have "wrap64 (tpLeafCount g) = wrap64 (int (length rids)) \<and> r = merkle_root H ?hs"
    by simp
  moreover have "int64 (tpLeafCount g)" "int64 (int (length rids))"
    using wf(4) g(1) tr by (auto simp: typed_proof_def trusted_def content_bounds_def intro: int64_small)
  ultimately show "tpLeafCount g = int (length rids)" "r = merkle_root H ?hs" by simp_all
qed

lemma trusted_inputs:
  assumes "trusted H rids n content S"
  shows "merkle_inputs H (map (region_commitment H n (segs_of H content)) rids) \<subseteq> S"
    and "rid \<in> set rids \<Longrightarrow> region_inputs H n (segs_of H content) rid \<subseteq> S"
    and "rid \<in> set rids \<Longrightarrow> s < n \<Longrightarrow> shard_inputs H (segs_of H content) rid (int s) \<subseteq> S"
    and "rid \<in> set rids \<Longrightarrow> s < n \<Longrightarrow> c \<in> set (content (rid, int s)) \<Longrightarrow> segment_inputs H rid (int s) c \<subseteq> S"
proof -
  have f: "forest_inputs H rids n (segs_of H content) \<subseteq> S"
    and g: "(\<Union>rid \<in> set rids. \<Union>s < n. \<Union>c \<in> set (content (rid, int s)). segment_inputs H rid (int s) c) \<subseteq> S"
    using assms by (simp_all add: trusted_def content_inputs_def)
  show "merkle_inputs H (map (region_commitment H n (segs_of H content)) rids) \<subseteq> S"
    using f unfolding forest_inputs_def by blast
  show r: "rid \<in> set rids \<Longrightarrow> region_inputs H n (segs_of H content) rid \<subseteq> S"
    using f unfolding forest_inputs_def by blast
  show "rid \<in> set rids \<Longrightarrow> s < n \<Longrightarrow> shard_inputs H (segs_of H content) rid (int s) \<subseteq> S"
    using r unfolding region_inputs_def by blast
  show "rid \<in> set rids \<Longrightarrow> s < n \<Longrightarrow> c \<in> set (content (rid, int s)) \<Longrightarrow> segment_inputs H rid (int s) c \<subseteq> S"
    using g by blast
qed

lemma accepted_typed:
  assumes "accepted H proof addresses roots trace S" and "c \<in> set (ppTrees (hpPlan proof))"
  shows "int64 (tpLeafCount c)" "int64 (trShardID (tpTree c))" "int64 (trSegmentID (tpTree c))"
    "length (trRegionID (tpTree c)) < 2 ^ 32" "inj_on H S" "well_formed_proof proof addresses"
  using assms by (auto simp: accepted_def typed_proof_def)

lemma region_step:
  assumes acc: "accepted H proof addresses roots trace S" and tr: "trusted H rids n content S"
    and gl: "\<And>g. g \<in> set (ppTrees (hpPlan proof)) \<Longrightarrow> tpTree g = globalTree \<Longrightarrow> tpLeafCount g = int (length rids)"
      "roots globalTree = Some (merkle_root H (map (region_commitment H n (segs_of H content)) rids))"
    and c: "c \<in> set (ppTrees (hpPlan proof))" "trLayer (tpTree c) = LayerRegion"
  shows "trRegionID (tpTree c) \<in> set rids \<and> tpLeafCount c = int n \<and>
    roots (tpTree c) = Some (merkle_root H (region_spec H n (segs_of H content) (trRegionID (tpTree c))))"
proof -
  let ?segs = "segs_of H content"
  let ?hs = "map (region_commitment H n ?segs) rids"
  note ty = accepted_typed [OF acc c(1)]
  obtain k g where k: "k \<in> set (ppParentLinks (hpPlan proof))" "plChild k = tpTree c"
    "g \<in> set (ppTrees (hpPlan proof))" "plParent k = tpTree g" "validParentLink (tpTree c) (tpTree g)"
    using plan_link [OF ty(6) c(1)] c(2) by auto
  then have g: "tpTree g = globalTree" using c(2) by (auto simp: validParentLink_def split: if_splits)
  have b: "int (length ?hs) < MaxInt64" using tr by (simp add: trusted_def content_bounds_def)
  obtain i r where i: "i < length ?hs" "roots (tpTree c) = Some r"
    "H (commit_bytes (tpTree c) (tpLeafCount c) r) = ?hs ! i" "commit_bytes (tpTree c) (tpLeafCount c) r \<in> S"
    by (rule child_committed [OF acc k(1,2,4) c(1) k(3) _ _ b _ trusted_inputs(1) [OF tr]])
      (use g gl k(3) in \<open>auto simp: globalTree_def\<close>)
  let ?rid = "rids ! i"
  have rid: "?rid \<in> set rids" using i(1) by simp
  have "commit_input ''REGION'' ?rid (-1) (-1) (int n) (merkle_root H (region_spec H n ?segs ?rid)) \<in> S"
    using trusted_inputs(2) [OF tr rid] by (auto simp: region_inputs_def)
  moreover have "H (commit_bytes (tpTree c) (tpLeafCount c) r) =
      H (commit_input ''REGION'' ?rid (-1) (-1) (int n) (merkle_root H (region_spec H n ?segs ?rid)))"
    using i(1,3) by (simp add: region_commitment_def CommitRegionRoot_def commitTreeRoot_def)
  ultimately have eq: "commit_input ''REGION'' (trRegionID (tpTree c)) (-1) (-1) (tpLeafCount c) r =
      commit_input ''REGION'' ?rid (-1) (-1) (int n) (merkle_root H (region_spec H n ?segs ?rid))"
    using commit_bytes_eq [OF ty(5) i(4)] c(2) by (simp add: commit_bytes_def)
  have "length ?rid < 2 ^ 32" "int64 (int n)"
    using tr rid by (auto simp: trusted_def content_bounds_def intro: int64_small)
  with commit_input_inject [OF eq] ty(1,4) i(2) rid show ?thesis by simp
qed

lemma shard_step:
  assumes acc: "accepted H proof addresses roots trace S" and tr: "trusted H rids n content S"
    and reg: "\<And>p. p \<in> set (ppTrees (hpPlan proof)) \<Longrightarrow> trLayer (tpTree p) = LayerRegion \<Longrightarrow>
      trRegionID (tpTree p) \<in> set rids \<and> tpLeafCount p = int n \<and>
      roots (tpTree p) = Some (merkle_root H (region_spec H n (segs_of H content) (trRegionID (tpTree p))))"
    and c: "c \<in> set (ppTrees (hpPlan proof))" "trLayer (tpTree c) = LayerShard"
  shows "\<exists>s < n. trRegionID (tpTree c) \<in> set rids \<and> trShardID (tpTree c) = int s \<and>
    tpLeafCount c = int (length (content (trRegionID (tpTree c), int s))) \<and>
    roots (tpTree c) = Some (merkle_root H (segs_of H content (trRegionID (tpTree c), int s)))"
proof -
  let ?segs = "segs_of H content" and ?rid = "trRegionID (tpTree c)"
  note ty = accepted_typed [OF acc c(1)]
  obtain k p where k: "k \<in> set (ppParentLinks (hpPlan proof))" "plChild k = tpTree c"
    "p \<in> set (ppTrees (hpPlan proof))" "plParent k = tpTree p" "validParentLink (tpTree c) (tpTree p)"
    using plan_link [OF ty(6) c(1)] c(2) by auto
  have p: "trLayer (tpTree p) = LayerRegion" "trRegionID (tpTree p) = ?rid"
    using k(5) c(2) by (auto simp: validParentLink_def split: if_splits)
  note rp = reg [OF k(3) p(1), unfolded p(2)]
  let ?hs = "region_spec H n ?segs ?rid"
  have b: "int (length ?hs) < MaxInt64" using tr by (simp add: trusted_def content_bounds_def)
  have sub: "merkle_inputs H ?hs \<subseteq> S" using trusted_inputs(2) [OF tr, of ?rid] rp by (auto simp: region_inputs_def)
  obtain i r where i: "i < length ?hs" "roots (tpTree c) = Some r"
    "H (commit_bytes (tpTree c) (tpLeafCount c) r) = ?hs ! i" "commit_bytes (tpTree c) (tpLeafCount c) r \<in> S"
    by (rule child_committed [OF acc k(1,2,4) c(1) k(3) _ _ b _ sub]) (use p rp in auto)
  have n: "i < n" using i(1) by simp
  let ?ls = "?segs (?rid, int i)"
  have "commit_input ''SHARD'' ?rid (int i) (-1) (int (length ?ls)) (merkle_root H ?ls) \<in> S"
    using trusted_inputs(3) [OF tr _ n] rp by (auto simp: shard_inputs_def)
  moreover have "H (commit_bytes (tpTree c) (tpLeafCount c) r) =
      H (commit_input ''SHARD'' ?rid (int i) (-1) (int (length ?ls)) (merkle_root H ?ls))"
    using i(3) n by (simp add: region_spec_def shard_commitment_def CommitShardRoot_def commitTreeRoot_def)
  ultimately have eq: "commit_input ''SHARD'' ?rid (trShardID (tpTree c)) (-1) (tpLeafCount c) r =
      commit_input ''SHARD'' ?rid (int i) (-1) (int (length ?ls)) (merkle_root H ?ls)"
    using commit_bytes_eq [OF ty(5) i(4)] c(2) by (simp add: commit_bytes_def)
  have len: "length ?ls = length (content (?rid, int i))" by (simp add: segs_of_def)
  have "int64 (int i)" "int64 (int (length (content (?rid, int i))))"
    using tr n by (auto simp: trusted_def content_bounds_def intro!: int64_small)
  with commit_input_inject [OF eq] ty(1,2,4) i(2) rp n len show ?thesis by auto
qed

lemma segment_step:
  assumes acc: "accepted H proof addresses roots trace S" and tr: "trusted H rids n content S"
    and sh: "\<And>p. p \<in> set (ppTrees (hpPlan proof)) \<Longrightarrow> trLayer (tpTree p) = LayerShard \<Longrightarrow>
      \<exists>s < n. trRegionID (tpTree p) \<in> set rids \<and> trShardID (tpTree p) = int s \<and>
        tpLeafCount p = int (length (content (trRegionID (tpTree p), int s))) \<and>
        roots (tpTree p) = Some (merkle_root H (segs_of H content (trRegionID (tpTree p), int s)))"
    and c: "c \<in> set (ppTrees (hpPlan proof))" "trLayer (tpTree c) = LayerSegment"
  shows "\<exists>s < n. trRegionID (tpTree c) \<in> set rids \<and> trShardID (tpTree c) = int s \<and>
    (\<exists>ls. (trSegmentID (tpTree c), ls) \<in> set (content (trRegionID (tpTree c), int s)) \<and>
       tpLeafCount c = int (length ls) \<and> roots (tpTree c) = Some (merkle_root H ls))"
proof -
  let ?segs = "segs_of H content" and ?rid = "trRegionID (tpTree c)"
  note ty = accepted_typed [OF acc c(1)]
  obtain k p where k: "k \<in> set (ppParentLinks (hpPlan proof))" "plChild k = tpTree c"
    "p \<in> set (ppTrees (hpPlan proof))" "plParent k = tpTree p" "validParentLink (tpTree c) (tpTree p)"
    using plan_link [OF ty(6) c(1)] c(2) by auto
  have p: "trLayer (tpTree p) = LayerShard" "trRegionID (tpTree p) = ?rid" "trShardID (tpTree p) = trShardID (tpTree c)"
    using k(5) c(2) by (auto simp: validParentLink_def split: if_splits)
  obtain s where s: "s < n" "?rid \<in> set rids" "trShardID (tpTree c) = int s"
    "tpLeafCount p = int (length (content (?rid, int s)))" "roots (tpTree p) = Some (merkle_root H (?segs (?rid, int s)))"
    using sh [OF k(3) p(1)] p(2,3) by auto
  let ?hs = "?segs (?rid, int s)"
  have len: "length ?hs = length (content (?rid, int s))" by (simp add: segs_of_def)
  have b: "int (length ?hs) < MaxInt64" using tr len by (simp add: trusted_def content_bounds_def)
  have sub: "merkle_inputs H ?hs \<subseteq> S" using trusted_inputs(3) [OF tr s(2,1)] by (auto simp: shard_inputs_def)
  obtain i r where i: "i < length ?hs" "roots (tpTree c) = Some r"
    "H (commit_bytes (tpTree c) (tpLeafCount c) r) = ?hs ! i" "commit_bytes (tpTree c) (tpLeafCount c) r \<in> S"
    by (rule child_committed [OF acc k(1,2,4) c(1) k(3) _ _ b s(5) sub]) (use p s len in auto)
  obtain seg ls where sl: "content (?rid, int s) ! i = (seg, ls)" by fastforce
  have mem: "(seg, ls) \<in> set (content (?rid, int s))" using sl i(1) len nth_mem by metis
  have hs: "?hs ! i = H (commit_input ''SEGMENT'' ?rid (int s) seg (int (length ls)) (merkle_root H ls))"
    using sl i(1) len by (simp add: segs_of_def segment_commitment_def CommitSegmentRoot_def commitTreeRoot_def)
  have "commit_input ''SEGMENT'' ?rid (int s) seg (int (length ls)) (merkle_root H ls) \<in> S"
    using trusted_inputs(4) [OF tr s(2,1) mem] by (auto simp: segment_inputs_def)
  with i(3) hs have eq: "commit_input ''SEGMENT'' ?rid (int s) (trSegmentID (tpTree c)) (tpLeafCount c) r =
      commit_input ''SEGMENT'' ?rid (int s) seg (int (length ls)) (merkle_root H ls)"
    using commit_bytes_eq [OF ty(5) i(4)] c(2) s(3) by (simp add: commit_bytes_def)
  have "int64 seg" "int64 (int (length ls))"
    using tr mem int64_small by (auto simp: trusted_def dest: content_boundsD(5,6))
  with commit_input_inject [OF eq] ty(1,3,4) i(2) s mem show ?thesis by auto
qed

section \<open>Accepted leaves are leaves of the trusted forest\<close>

lemma accepted_leaves:
  assumes trace: "TraceHMFProof H proof addresses = Inr trace"
    and root: "ptGlobalRoot trace = forest_root H rids n (segs_of H content)"
    and inj: "inj_on H (content_inputs H rids n content \<union> proof_inputs proof trace)"
    and bounds: "content_bounds rids n content" and typed: "typed_proof proof"
    and l: "l \<in> set (hpLeaves proof)" "segmentTree (segment_key (rlAddress l)) \<in> tpTree ` set (ppTrees (hpPlan proof))"
  shows "leaf_at rids n content (rlAddress l) (rlHash l)"
proof -
  let ?S = "content_inputs H rids n content \<union> proof_inputs proof trace"
  let ?trees = "set (ppTrees (hpPlan proof))"
  obtain roots r where wf: "well_formed_proof proof addresses"
    and td: "\<And>p. p \<in> ?trees \<Longrightarrow> tree_done H (proof_plans proof) (nodes_of (hpNodes proof))
        (segment_leaves_of (hpLeaves proof)) (proof_children proof) roots trace (tpTree p) p"
    and r: "roots globalTree = Some r" "globalTree \<in> tpTree ` ?trees"
      "ptGlobalRoot trace = committedRoot H globalTree (leaf_count_of (proof_plans proof) globalTree) r"
    using evaluate_trace [OF trace [unfolded TraceHMFProof_def]] by metis
  have acc: "accepted H proof addresses roots trace ?S" using wf td typed inj by (auto simp: accepted_def)
  have tr: "trusted H rids n content ?S" using bounds by (auto simp: trusted_def)
  have gl: "H (commit_bytes globalTree (tpLeafCount g) r) = forest_root H rids n (segs_of H content)"
    if "g \<in> ?trees" "tpTree g = globalTree" for g
    using r(3) root accepted_leaf_count [OF wf that(1)] that(2) committedRoot_bytes [of globalTree H]
    by (simp add: globalTree_def)
  obtain g where g: "g \<in> ?trees" "tpTree g = globalTree" using r(2) by auto
  note gs = global_step [OF acc tr _ _ r(1) gl]
  have rm: "roots globalTree = Some (merkle_root H (map (region_commitment H n (segs_of H content)) rids))"
    using gs(2) [OF g g] r(1) by simp
  have gc: "tpLeafCount q = int (length rids)" if "q \<in> ?trees" "tpTree q = globalTree" for q
    using gs(1) [OF that that] .
  obtain c where c: "c \<in> ?trees" "tpTree c = segmentTree (segment_key (rlAddress l))" using l(2) by auto
  let ?a = "rlAddress l"
  have ct: "trLayer (tpTree c) = LayerSegment" "trRegionID (tpTree c) = paRegionID ?a"
    "trShardID (tpTree c) = paShardID ?a" "trSegmentID (tpTree c) = paSegmentID ?a"
    using c(2) by (auto simp: segmentTree_def)
  obtain s ls where s: "s < n" "paRegionID ?a \<in> set rids" "paShardID ?a = int s"
    "(paSegmentID ?a, ls) \<in> set (content (paRegionID ?a, int s))"
    "tpLeafCount c = int (length ls)" "roots (tpTree c) = Some (merkle_root H ls)"
  proof -
    have "\<exists>s < n. trRegionID (tpTree c) \<in> set rids \<and> trShardID (tpTree c) = int s \<and>
        (\<exists>ls. (trSegmentID (tpTree c), ls) \<in> set (content (trRegionID (tpTree c), int s)) \<and>
           tpLeafCount c = int (length ls) \<and> roots (tpTree c) = Some (merkle_root H ls))"
      by (rule segment_step [OF acc tr _ c(1) ct(1)])
        (assumption | rule shard_step [OF acc tr] region_step [OF acc tr gc rm])+
    with ct that show thesis by auto
  qed
  have lb: "int (length ls) < MaxInt64" by (rule content_boundsD(6) [OF bounds s(4)])
  have mi: "merkle_inputs H ls \<subseteq> ?S" using trusted_inputs(4) [OF tr s(2,1,4)] by (auto simp: segment_inputs_def)
  obtain known where known: "known_leaves H (proof_plans proof) (segment_leaves_of (hpLeaves proof))
      (proof_children proof) roots (tpTree c) = Inr known"
    and at: "\<And>i h. (i, h) \<in> set known \<Longrightarrow> 0 \<le> i \<and> i < int (length ls) \<and> ls ! nat i = h"
    by (rule tree_sound [OF wf c(1) td [OF c(1)] known_wf [OF wf] s(5) lb s(6) inj mi Un_upper2])
      (assumption, erule that, blast)
  have "(paLeafID ?a, rlHash l) \<in> set known"
    using known ct(1) l(1) c(2) by (force simp: known_leaves_def segment_leaves_of_def)
  from at [OF this] s show ?thesis by (auto simp: leaf_at_def)
qed

end
