(* ===== verification/HPP_Service.thy ===== *)
theory HPP_Service
  imports HPP_Planner HPP_Soundness
begin

text \<open>
  \<^verbatim>\<open>internal/hpp/proof.go\<close>: building a proof from stored metadata and nodes. The two readers are
  interfaces of the package; a service is the pair of their operations. A context and the failures
  of the database behind a reader are errors the reader returns.
\<close>

section \<open>The program\<close>

record ProofService =
  svcMetadata :: "PhysicalAddress list \<Rightarrow> HierarchyMetadata result"
  svcNodes :: "ProofPlan \<Rightarrow> ProofNode list result"

text \<open>A missing reader is \<open>None\<close>.\<close>

definition NewProofService ::
  "(PhysicalAddress list \<Rightarrow> HierarchyMetadata result) option \<Rightarrow> (ProofPlan \<Rightarrow> ProofNode list result) option \<Rightarrow>
     ProofService result" where
  "NewProofService metadata nodes =
     (case metadata of None \<Rightarrow> Inl (Errorf ''new HPP service: metadata reader is nil'')
      | Some metadata' \<Rightarrow>
        (case nodes of None \<Rightarrow> Inl (Errorf ''new HPP service: proof-node reader is nil'')
         | Some nodes' \<Rightarrow> Inr \<lparr>svcMetadata = metadata', svcNodes = nodes'\<rparr>))"

definition target_ref :: "PhysicalAddress \<Rightarrow> NodeRef" where
  "target_ref address = mk_ref (segmentTree (segment_key address)) (mk_pos 0 (paLeafID address))"

definition target_map :: "PhysicalAddress list \<Rightarrow> NodeRef \<rightharpoonup> PhysicalAddress" where
  "target_map addresses = foldl (\<lambda>m address. m(target_ref address \<mapsto> address)) Map.empty addresses"

text \<open>The loop over the fetched nodes: leaf hashes by address, and the rest.\<close>

definition split_node ::
  "(NodeRef \<rightharpoonup> PhysicalAddress) \<Rightarrow> (PhysicalAddress \<rightharpoonup> hash) \<times> ProofNode list \<Rightarrow> ProofNode \<Rightarrow>
     ((PhysicalAddress \<rightharpoonup> hash) \<times> ProofNode list) result" where
  "split_node targets = (\<lambda>(leafHashes, rest) node.
     case targets (pnRef node) of
       Some address \<Rightarrow>
         if leafHashes address \<noteq> None then Inl (Errorf ''duplicate target leaf %+v'')
         else Inr (leafHashes(address \<mapsto> pnHash node), rest)
     | None \<Rightarrow> Inr (leafHashes, rest @ [node]))"

definition splitTargetLeaves ::
  "PhysicalAddress list \<Rightarrow> ProofNode list \<Rightarrow> (RequestedLeaf list \<times> ProofNode list) result" where
  "splitTargetLeaves addresses nodes =
     (let targets = target_map addresses
      in rbind (rfold (split_node targets) (Map.empty, []) nodes) (\<lambda>(leafHashes, rest).
         rbind (rfold (\<lambda>leaves address.
             case leafHashes address of
               None \<Rightarrow> Inl (Errorf ''target leaf missing for address %+v'')
             | Some hash \<Rightarrow> Inr (leaves @ [\<lparr>rlAddress = address, rlHash = hash\<rparr>])) [] addresses) (\<lambda>leaves.
         Inr (leaves, rest))))"

definition BuildProof :: "ProofService \<Rightarrow> PhysicalAddress list \<Rightarrow> HMFProof result" where
  "BuildProof service addresses =
     rbind (rwrap ''build HMF proof: %w'' (normalizeAddresses addresses)) (\<lambda>normalized.
     if length normalized = 0
     then Inl (Errorf ''build HMF proof: at least one physical address is required'')
     else
     rbind (rwrap ''build HMF proof: load hierarchy metadata: %w'' (svcMetadata service normalized)) (\<lambda>metadata.
     rbind (rwrap ''build HMF proof: %w'' (Plan normalized metadata)) (\<lambda>plan.
     rbind (rwrap ''build HMF proof: fetch proof nodes: %w'' (svcNodes service plan)) (\<lambda>nodes.
     rbind (rwrap ''build HMF proof: %w'' (splitTargetLeaves (ppAddresses plan) nodes)) (\<lambda>(leaves, rest).
     Inr \<lparr>hpPlan = plan, hpLeaves = leaves, hpNodes = rest\<rparr>)))))"

definition ReferenceFromProof ::
  "hash_fn \<Rightarrow> ProofService \<Rightarrow> HMFProof \<Rightarrow> PhysicalAddress list \<Rightarrow> hash \<Rightarrow> VerificationResult result" where
  "ReferenceFromProof H service proof addresses trustedRoot =
     (let segments = map (\<lambda>tree. \<lparr>tpTree = tpTree tree, tpLeafCount = tpLeafCount tree,
            tpTargets = tpTargets tree, tpRequired = []\<rparr>)
            (filter (\<lambda>tree. trLayer (tpTree tree) = LayerSegment) (ppTrees (hpPlan proof)));
          leafPlan = \<lparr>ppAddresses = ppAddresses (hpPlan proof), ppTrees = [], ppParentLinks = [],
            ppSegmentRequests = fst (buildRequests segments), ppUpperRequests = []\<rparr>
      in rbind (rwrap ''rebuild reference proof: fetch stored leaves: %w'' (svcNodes service leafPlan)) (\<lambda>nodes.
         rbind (rwrap ''rebuild reference proof: %w'' (splitTargetLeaves (ppAddresses leafPlan) nodes)) (\<lambda>(leaves, rest).
         if length rest \<noteq> 0
         then Inl (Errorf ''rebuild reference proof: %d unrequested nodes returned'')
         else let reference = \<lparr>hpPlan = hpPlan proof, hpLeaves = leaves, hpNodes = hpNodes proof\<rparr>
         in rbind (rwrap ''rebuild reference proof: %w'' (TraceHMFProof H reference addresses)) (\<lambda>trace.
            rbind (rwrap ''rebuild reference proof: %w'' (matchTrustedRoot (ptGlobalRoot trace) trustedRoot)) (\<lambda>_.
            Inr \<lparr>vrCalculatedGlobalRoot = ptGlobalRoot trace, vrProof = reference, vrTrace = Some trace\<rparr>)))))"

definition BuildAndCalculate ::
  "hash_fn \<Rightarrow> ProofService \<Rightarrow> PhysicalAddress list \<Rightarrow> VerificationResult result" where
  "BuildAndCalculate H service addresses =
     rbind (BuildProof service addresses) (\<lambda>proof.
     rbind (VerifyHMFProof H proof addresses) (\<lambda>root.
     Inr \<lparr>vrCalculatedGlobalRoot = root, vrProof = proof, vrTrace = None\<rparr>))"

definition BuildAndVerify ::
  "hash_fn \<Rightarrow> ProofService \<Rightarrow> PhysicalAddress list \<Rightarrow> hash \<Rightarrow> VerificationResult result" where
  "BuildAndVerify H service addresses trustedRoot =
     rbind (BuildAndCalculate H service addresses) (\<lambda>result.
     rbind (matchTrustedRoot (vrCalculatedGlobalRoot result) trustedRoot) (\<lambda>_. Inr result))"

section \<open>Splitting the fetched nodes\<close>

lemma target_ref_inject [simp]: "target_ref a = target_ref b \<longleftrightarrow> a = b"
  by (cases a; cases b) (auto simp: target_ref_def segmentTree_def)

lemma target_map_foldl:
  "foldl (\<lambda>m a. m(target_ref a \<mapsto> a)) m as r =
     (if r \<in> target_ref ` set as then Some (THE a. target_ref a = r) else m r)"
proof (induction as arbitrary: m)
  case (Cons a as)
  have "(THE b. target_ref b = target_ref a) = a" by simp
  with Cons show ?case by auto
qed simp

lemma target_map_ref: "a \<in> set as \<Longrightarrow> target_map as (target_ref a) = Some a"
  by (simp add: target_map_def target_map_foldl)

lemma target_map_None: "target_map as r = None \<longleftrightarrow> r \<notin> target_ref ` set as"
  by (simp add: target_map_def target_map_foldl)

lemma split_nodes_Inr:
  assumes "rfold (split_node (target_map as)) (Map.empty, []) nodes = Inr (lh, rest)"
  shows "rest = filter (\<lambda>n. pnRef n \<notin> target_ref ` set as) nodes \<and>
    (\<forall>a h. lh a = Some h \<longleftrightarrow> a \<in> set as \<and> \<lparr>pnRef = target_ref a, pnHash = h\<rparr> \<in> set nodes)"
  using assms
proof (induction nodes arbitrary: lh rest rule: rev_induct)
  case (snoc n ns)
  let ?t = "target_map as"
  obtain lh0 rest0 where 0: "rfold (split_node ?t) (Map.empty, []) ns = Inr (lh0, rest0)"
    and 1: "split_node ?t (lh0, rest0) n = Inr (lh, rest)"
    using snoc.prems by (auto simp: rfold_snoc)
  note IH = snoc.IH [OF 0]
  show ?case
  proof (cases "pnRef n \<in> target_ref ` set as")
    case True
    then obtain a where a: "a \<in> set as" "pnRef n = target_ref a" by blast
    have new: "lh0 a = None" and upd: "lh = lh0(a \<mapsto> pnHash n)" "rest = rest0"
      using 1 target_map_ref [OF a(1)] a(2) by (auto simp: split_node_def split: if_splits)
    have n: "n = \<lparr>pnRef = target_ref a, pnHash = pnHash n\<rparr>" using a(2) by simp
    have "lh b = Some h \<longleftrightarrow> b \<in> set as \<and> \<lparr>pnRef = target_ref b, pnHash = h\<rparr> \<in> set (ns @ [n])" for b h
    proof (cases "b = a")
      case True
      have "\<lparr>pnRef = target_ref a, pnHash = h\<rparr> \<notin> set ns" using IH new a(1) by (metis option.distinct(1))
      with True upd a n show ?thesis by (metis Un_iff fun_upd_same list.set(1) list.set(2) option.inject set_append singletonD singletonI ProofNode.select_convs(2))
    next
      case False
      then have "\<lparr>pnRef = target_ref b, pnHash = h\<rparr> \<noteq> n" using n by (metis ProofNode.select_convs(1) target_ref_inject)
      with False IH upd show ?thesis by auto
    qed
    with IH upd True show ?thesis by auto
  next
    case False
    then have none: "?t (pnRef n) = None" by (simp add: target_map_None)
    have upd: "lh = lh0" "rest = rest0 @ [n]" using 1 none by (auto simp: split_node_def)
    have "\<lparr>pnRef = target_ref b, pnHash = h\<rparr> \<noteq> n" if "b \<in> set as" for b h
      using False that by auto
    with IH upd False show ?thesis by auto
  qed
qed auto

text \<open>
  A successful split returns one leaf per address, in the order of the addresses, with the hash of
  the fetched node at that position, and every other node unchanged.
\<close>

lemma splitTargetLeaves_Inr:
  assumes "splitTargetLeaves as nodes = Inr (leaves, rest)"
  shows "map rlAddress leaves = as \<and>
    (\<forall>l \<in> set leaves. \<lparr>pnRef = target_ref (rlAddress l), pnHash = rlHash l\<rparr> \<in> set nodes) \<and>
    rest = filter (\<lambda>n. pnRef n \<notin> target_ref ` set as) nodes"
proof -
  obtain lh where s: "rfold (split_node (target_map as)) (Map.empty, []) nodes = Inr (lh, rest)"
    and l: "rfold (\<lambda>leaves address. case lh address of
               None \<Rightarrow> Inl (Errorf ''target leaf missing for address %+v'')
             | Some hash \<Rightarrow> Inr (leaves @ [\<lparr>rlAddress = address, rlHash = hash\<rparr>])) [] as = Inr leaves"
    using assms by (auto simp: splitTargetLeaves_def Let_def)
  have "map rlAddress leaves = xs \<and> (\<forall>l \<in> set leaves. lh (rlAddress l) = Some (rlHash l))"
    if "rfold (\<lambda>leaves address. case lh address of
               None \<Rightarrow> Inl (Errorf ''target leaf missing for address %+v'')
             | Some hash \<Rightarrow> Inr (leaves @ [\<lparr>rlAddress = address, rlHash = hash\<rparr>])) [] xs = Inr leaves" for xs leaves
    using that
  proof (induction xs arbitrary: leaves rule: rev_induct)
    case (snoc x xs)
    then show ?case by (auto simp: rfold_snoc split: option.splits)
  qed simp
  from this [OF l] split_nodes_Inr [OF s] show ?thesis by blast
qed

text \<open>The trusted root is compared byte by byte.\<close>

lemma matchTrustedRoot_Inr [simp]: "matchTrustedRoot a b = Inr u \<longleftrightarrow> a = b"
  by (auto simp: matchTrustedRoot_def)

lemma BuildAndVerify_root:
  assumes "BuildAndVerify H service addresses trustedRoot = Inr result"
  shows "vrCalculatedGlobalRoot result = trustedRoot \<and>
    VerifyHMFProof H (vrProof result) addresses = Inr trustedRoot"
  using assms by (auto simp: BuildAndVerify_def BuildAndCalculate_def)

lemma ReferenceFromProof_root:
  assumes "ReferenceFromProof H service proof addresses trustedRoot = Inr result"
  shows "vrCalculatedGlobalRoot result = trustedRoot \<and> hpPlan (vrProof result) = hpPlan proof \<and>
    hpNodes (vrProof result) = hpNodes proof \<and>
    (\<exists>trace. vrTrace result = Some trace \<and> TraceHMFProof H (vrProof result) addresses = Inr trace \<and>
       ptGlobalRoot trace = trustedRoot)"
  using assms by (auto simp: ReferenceFromProof_def Let_def split: if_splits)

section \<open>The planner plans the segment tree of every address\<close>

lemma add_target_keys:
  "add_target metadata m a = Inr m' \<Longrightarrow> set (gm_keys m') = insert (segment_key a) (set (gm_keys m))"
proof -
  assume "add_target metadata m a = Inr m'"
  then obtain v where "m' = gm_put (segment_key a) v m" by (auto simp: add_target_def Let_def split: option.splits if_splits)
  then show ?thesis by (simp only: gm_keys_put)
qed

lemma add_targets_keys:
  "rfold (add_target metadata) m as = Inr m' \<Longrightarrow> set (gm_keys m') = set (gm_keys m) \<union> segment_key ` set as"
proof (induction as arbitrary: m)
  case (Cons a as)
  then obtain m1 where "add_target metadata m a = Inr m1" "rfold (add_target metadata) m1 as = Inr m'" by auto
  with Cons.IH [of m1] add_target_keys [of metadata m a m1] show ?case by simp
qed simp

lemma plan_segments_trees:
  "rfold (plan_segment metadata) (trees, c) ts = Inr (trees', c') \<Longrightarrow>
     set trees \<subseteq> set trees' \<and> (\<forall>k \<in> set (gm_keys ts). segmentTree k \<in> tpTree ` set trees')"
proof (induction ts arbitrary: trees c)
  case (Cons t ts)
  obtain k targets where t: "t = (k, targets)" by fastforce
  obtain p c1 where p: "planTree (segmentTree k) (smLeafCount (gm_get zero_segment (hmSegments metadata) k)) targets = Inr p"
    and rest: "rfold (plan_segment metadata) (trees @ [p], c1) ts = Inr (trees', c')"
    using Cons.prems by (auto simp: t plan_segment_def Let_def)
  have "tpTree p = segmentTree k" using planTree_Inr [OF p] by simp
  with Cons.IH [OF rest] show ?case by (auto simp: t intro!: rev_image_eqI)
qed simp

lemma plan_shards_trees:
  "rfold (plan_shard metadata) (trees, l, c) ts = Inr (trees', l', c') \<Longrightarrow> set trees \<subseteq> set trees'"
  by (induction ts arbitrary: trees l c) (fastforce simp: plan_shard_def Let_def split: option.splits)+

lemma plan_regions_trees:
  "rfold (plan_region metadata) (trees, l, c) ts = Inr (trees', l', c') \<Longrightarrow> set trees \<subseteq> set trees'"
  by (induction ts arbitrary: trees l c) (fastforce simp: plan_region_def Let_def split: option.splits)+

lemma Plan_covers:
  assumes "Plan as metadata = Inr plan"
  shows "set (ppAddresses plan) = set as \<and> (\<forall>a \<in> set as. segmentTree (segment_key a) \<in> tpTree ` set (ppTrees plan))"
proof -
  obtain normalized m trees1 c1 trees2 l2 c2 trees3 l3 c3 g where n: "normalizeAddresses as = Inr normalized"
    and m: "rfold (add_target metadata) [] normalized = Inr m"
    and t: "rfold (plan_segment metadata) ([], []) m = Inr (trees1, c1)"
      "rfold (plan_shard metadata) (trees1, [], []) c1 = Inr (trees2, l2, c2)"
      "rfold (plan_region metadata) (trees2, l2, []) c2 = Inr (trees3, l3, c3)"
    and plan: "ppAddresses plan = normalized" "set (ppTrees plan) = insert g (set trees3)"
    using assms by (auto simp: Plan_def Let_def split_beta split: if_splits)
  have s: "set normalized = set as" using normalizeAddresses_Inr [OF n] by blast
  have sub: "set trees1 \<subseteq> set (ppTrees plan)" using plan_shards_trees [OF t(2)] plan_regions_trees [OF t(3)] plan(2) by auto
  have "segmentTree (segment_key a) \<in> tpTree ` set (ppTrees plan)" if "a \<in> set as" for a
  proof -
    have "segment_key a \<in> set (gm_keys m)" unfolding add_targets_keys [OF m] s using that by simp
    then have "segmentTree (segment_key a) \<in> tpTree ` set trees1" by (rule plan_segments_trees [OF t(1), THEN conjunct2, THEN bspec])
    then show ?thesis by (rule subsetD [OF image_mono [OF sub]])
  qed
  then show ?thesis using plan(1) s by simp
qed

lemma BuildProof_covers:
  assumes "BuildProof service as = Inr pf"
  shows "rlAddress ` set (hpLeaves pf) = set as" and "a \<in> set as \<Longrightarrow> segmentTree (segment_key a) \<in> tpTree ` set (ppTrees (hpPlan pf))"
proof -
  obtain normalized metadata plan nodes leaves rest where n: "normalizeAddresses as = Inr normalized"
    and p: "Plan normalized metadata = Inr plan" and l: "splitTargetLeaves (ppAddresses plan) nodes = Inr (leaves, rest)"
    and pf: "pf = \<lparr>hpPlan = plan, hpLeaves = leaves, hpNodes = rest\<rparr>"
    using assms by (auto simp: BuildProof_def split: if_splits)
  have s: "set normalized = set as" using normalizeAddresses_Inr [OF n] by blast
  then show "rlAddress ` set (hpLeaves pf) = set as"
    using splitTargetLeaves_Inr [OF l] Plan_covers [OF p] by (metis HMFProof.select_convs(2) image_set pf)
  show "a \<in> set as \<Longrightarrow> segmentTree (segment_key a) \<in> tpTree ` set (ppTrees (hpPlan pf))"
    using Plan_covers [OF p] s by (simp add: pf)
qed

lemma BuildAndVerify_covers:
  assumes "BuildAndVerify H service as trustedRoot = Inr result"
  shows "rlAddress ` set (hpLeaves (vrProof result)) = set as"
    and "a \<in> set as \<Longrightarrow> segmentTree (segment_key a) \<in> tpTree ` set (ppTrees (hpPlan (vrProof result)))"
proof -
  have "BuildProof service as = Inr (vrProof result)" using assms by (auto simp: BuildAndVerify_def BuildAndCalculate_def)
  note covers = BuildProof_covers [OF this]
  show "rlAddress ` set (hpLeaves (vrProof result)) = set as" by (rule covers(1))
  show "a \<in> set as \<Longrightarrow> segmentTree (segment_key a) \<in> tpTree ` set (ppTrees (hpPlan (vrProof result)))" by (rule covers(2))
qed

end
