(* ===== verification/HPP_Properties.thy ===== *)
theory HPP_Properties
  imports HPP_Service
begin

text \<open>
  The properties of package \<^verbatim>\<open>internal/hpp\<close>: what a plan requires, when a single-tree multiproof
  reconstructs the right root, what an accepted hierarchical proof says about the forest, and what
  the proof service returns.
\<close>

section \<open>A small forest for concrete runs\<close>

text \<open>One region, one shard, one segment of one leaf.\<close>

definition tiny_content :: content where
  "tiny_content = (\<lambda>k. if k = (''eu'', 0) then [(0, [5])] else [])"

definition tiny_address :: PhysicalAddress where
  "tiny_address = \<lparr>paRegionID = ''eu'', paShardID = 0, paSegmentID = 0, paLeafID = 0\<rparr>"

definition tiny_segment :: TreeRef where
  "tiny_segment = \<lparr>trLayer = LayerSegment, trRegionID = ''eu'', trShardID = 0, trSegmentID = 0\<rparr>"
definition tiny_shard :: TreeRef where
  "tiny_shard = \<lparr>trLayer = LayerShard, trRegionID = ''eu'', trShardID = 0, trSegmentID = 0\<rparr>"
definition tiny_region :: TreeRef where
  "tiny_region = \<lparr>trLayer = LayerRegion, trRegionID = ''eu'', trShardID = 0, trSegmentID = 0\<rparr>"

definition tiny_proof :: HMFProof where
  "tiny_proof = \<lparr>hpPlan = \<lparr>ppAddresses = [tiny_address],
       ppTrees = map (\<lambda>t. \<lparr>tpTree = t, tpLeafCount = 1, tpTargets = [0], tpRequired = []\<rparr>)
         [tiny_segment, tiny_shard, tiny_region, globalTree],
       ppParentLinks = [\<lparr>plChild = tiny_segment, plParent = tiny_shard, plParentLeafIndex = 0\<rparr>,
         \<lparr>plChild = tiny_shard, plParent = tiny_region, plParentLeafIndex = 0\<rparr>,
         \<lparr>plChild = tiny_region, plParent = globalTree, plParentLeafIndex = 0\<rparr>],
       ppSegmentRequests = [], ppUpperRequests = []\<rparr>,
     hpLeaves = [\<lparr>rlAddress = tiny_address, rlHash = 5\<rparr>], hpNodes = []\<rparr>"

text \<open>What the verifier records for it.\<close>

definition tiny_roots :: "hash_fn \<Rightarrow> hash list" where
  "tiny_roots H = (let s = CommitSegmentRoot H ''eu'' 0 0 1 5; h = CommitShardRoot H ''eu'' 0 1 s;
     r = CommitRegionRoot H ''eu'' 1 h in [5, s, h, r, CommitGlobalRoot H 1 r])"

definition tiny_trace :: "hash_fn \<Rightarrow> ProofTrace" where
  "tiny_trace H = \<lparr>ptGlobalRoot = last (tiny_roots H),
     ptRawRoots = zip [tiny_segment, tiny_shard, tiny_region, globalTree] (tiny_roots H),
     ptCommittedRoots = zip [tiny_segment, tiny_shard, tiny_region, globalTree] (tl (tiny_roots H)),
     ptNodes = zip (map (\<lambda>t. mk_ref t (mk_pos 0 0)) [tiny_segment, tiny_shard, tiny_region, globalTree]) (tiny_roots H)\<rparr>"

lemmas tree_names = tiny_segment_def tiny_shard_def tiny_region_def globalTree_def LayerSegment_def LayerShard_def
  LayerRegion_def LayerGlobal_def

lemmas plan_run = planTree_def plan_levels.simps sort_Slice_def validateTreePlanShape_def
lemmas leaves_run = validateProofLeaves_def normalizeAddresses_def check_address_def set_add_def sort_Slice_def
lemmas evaluate_run = evaluateHMFProof_def leaves_run plan_run add_plan_def check_nodes_def add_link_def
  validParentLink_def check_linked_def eval_layer_def eval_tree_def known_leaves_def add_segment_leaf_def
  segmentTree_def validateTargets_def reconstructTreeTrace_def recon_levels.simps record_nodes_def add_child_root_def
  gm_get_def empty_trace_def committedRoot_def

lemma tiny_proof_trace: "TraceHMFProof H tiny_proof [tiny_address] = Inr (tiny_trace H)"
  by (simp add: TraceHMFProof_def tiny_proof_def tiny_address_def evaluate_run tree_names tiny_trace_def tiny_roots_def Let_def)

lemma tiny_root: "forest_root H [''eu''] 1 (segs_of H tiny_content) = ptGlobalRoot (tiny_trace H)"
  by (simp add: forest_root_def region_commitment_def region_spec_def shard_commitment_def segs_of_def tiny_content_def
      segment_commitment_def tiny_trace_def tiny_roots_def merkle_root.simps Let_def)

lemma tiny_commit_inputs:
  "proof_inputs tiny_proof (tiny_trace H) \<subseteq> content_inputs H [''eu''] 1 tiny_content"
  "content_inputs H [''eu''] 1 tiny_content \<subseteq>
     (\<lambda>(t, r). commit_bytes t 1 r) ` set (zip [tiny_segment, tiny_shard, tiny_region, globalTree] (tiny_roots H))"
proof -
  let ?r = "tiny_roots H"
  have c: "content_inputs H [''eu''] 1 tiny_content =
    {commit_bytes tiny_segment 1 (?r ! 0), commit_bytes tiny_shard 1 (?r ! 1), commit_bytes tiny_region 1 (?r ! 2),
     commit_bytes globalTree 1 (?r ! 3)}"
    by (auto simp: content_inputs_def forest_inputs_def region_inputs_def shard_inputs_def segment_inputs_def
        region_spec_def shard_commitment_def region_commitment_def segs_of_def tiny_content_def segment_commitment_def
        merkle_inputs.simps merkle_root.simps commit_bytes_def tree_names tiny_roots_def Let_def)
  show "content_inputs H [''eu''] 1 tiny_content \<subseteq>
     (\<lambda>(t, r). commit_bytes t 1 r) ` set (zip [tiny_segment, tiny_shard, tiny_region, globalTree] ?r)"
    unfolding c by (auto simp: tiny_roots_def Let_def)
  have odd: "i * 2 + 1 \<noteq> (0 :: int)" for i by presburger
  show "proof_inputs tiny_proof (tiny_trace H) \<subseteq> content_inputs H [''eu''] 1 tiny_content"
    unfolding c
    by (auto simp: proof_inputs_def tiny_trace_def tiny_proof_def tiny_roots_def Let_def tree_names odd split: if_splits)
qed

lemma length_commit_bytes:
  "length (commit_bytes tiny_segment n r) = 88" "length (commit_bytes tiny_shard n r) = 86"
  "length (commit_bytes tiny_region n r) = 87" "length (commit_bytes globalTree n r) = 85"
  by (simp_all add: commit_bytes_def tree_names length_commit_input)

lemma tiny_inj: "inj_on len_hash (content_inputs len_hash [''eu''] 1 tiny_content \<union> proof_inputs tiny_proof (tiny_trace len_hash))"
proof -
  let ?S = "(\<lambda>(t, r). commit_bytes t 1 r) ` set (zip [tiny_segment, tiny_shard, tiny_region, globalTree] (tiny_roots len_hash))"
  have "inj_on len_hash ?S"
    by (auto simp: tiny_roots_def Let_def inj_on_def len_hash_def length_commit_bytes)
  then show ?thesis by (rule inj_on_subset) (use tiny_commit_inputs in blast)
qed

lemma tiny_bounds: "content_bounds [''eu''] 1 tiny_content" "typed_proof tiny_proof"
  by (auto simp: content_bounds_def tiny_content_def typed_proof_def tiny_proof_def tree_names int64_def)

section \<open>Hierarchical proofs\<close>

text \<open>C2: Soundness of hierarchical verification. If \<^verbatim>\<open>VerifyHMFProofAgainstRoot\<close> accepts a proof for
  the published root of a forest, every leaf of the proof whose segment tree is part of the plan is
  a leaf of that forest, at its physical address and with its hash, unless the hash function
  collides on the byte strings hashed on the two sides.\<close>

theorem verified_leaves_are_in_forest:
  assumes "VerifyHMFProofAgainstRoot H proof addresses (forest_root H rids n (segs_of H content)) = Inr root"
    and "TraceHMFProof H proof addresses = Inr trace"
    and "inj_on H (content_inputs H rids n content \<union> proof_inputs proof trace)"
    and "content_bounds rids n content" and "typed_proof proof"
    and "l \<in> set (hpLeaves proof)"
    and "segmentTree (segment_key (rlAddress l)) \<in> tpTree ` set (ppTrees (hpPlan proof))"
  shows "leaf_at rids n content (rlAddress l) (rlHash l)"
proof -
  have "ptGlobalRoot trace = forest_root H rids n (segs_of H content)"
    using assms(1,2) VerifyHMFProof_trace [of H "proof" addresses]
    by (auto simp: VerifyHMFProofAgainstRoot_def)
  from accepted_leaves [OF assms(2) this assms(3-7)] show ?thesis .
qed

theorem verified_leaves_are_in_forest_witness:
  "leaf_at [''eu''] 1 tiny_content tiny_address 5"
proof -
  have "VerifyHMFProof len_hash tiny_proof [tiny_address] = Inr (ptGlobalRoot (tiny_trace len_hash))"
    using VerifyHMFProof_trace tiny_proof_trace by blast
  then have v: "VerifyHMFProofAgainstRoot len_hash tiny_proof [tiny_address]
      (forest_root len_hash [''eu''] 1 (segs_of len_hash tiny_content)) = Inr (ptGlobalRoot (tiny_trace len_hash))"
    unfolding tiny_root by (simp add: VerifyHMFProofAgainstRoot_def matchTrustedRoot_def)
  have "leaf_at [''eu''] 1 tiny_content (rlAddress \<lparr>rlAddress = tiny_address, rlHash = 5\<rparr>)
      (rlHash \<lparr>rlAddress = tiny_address, rlHash = 5\<rparr>)"
    by (rule verified_leaves_are_in_forest [OF v tiny_proof_trace tiny_inj tiny_bounds])
      (simp_all add: tiny_proof_def segmentTree_def tiny_segment_def tiny_address_def)
  then show ?thesis by simp
qed

text \<open>C20: The fast verifier and the tracing verifier agree: \<^verbatim>\<open>VerifyHMFProof\<close> accepts a proof with a
  root exactly when \<^verbatim>\<open>TraceHMFProof\<close> accepts it and records that root.\<close>

theorem verify_agrees_with_trace:
  "VerifyHMFProof H proof addresses = Inr root \<longleftrightarrow>
     (\<exists>trace. TraceHMFProof H proof addresses = Inr trace \<and> ptGlobalRoot trace = root)"
  by (rule VerifyHMFProof_trace)

section \<open>Plans and reconstruction of one tree\<close>

text \<open>C17: The planner asks for exactly the nodes a proof needs. For distinct targets inside a tree the
  plan lists, in order and without repetition, the positions that are siblings of a node on the
  path of a target and on no such path themselves.\<close>

theorem plan_requires_exactly_the_siblings:
  assumes "distinct targets" and "targets \<noteq> []" and "\<forall>t \<in> set targets. 0 \<le> t \<and> t < int n" and "int n < MaxInt64"
  shows "\<exists>plan. planTree tree (int n) targets = Inr plan \<and> tpLeafCount plan = int n \<and>
    tpTargets plan = sort_Slice (<) targets \<and> sorted_wrt pos_less (tpRequired plan) \<and>
    (\<lambda>p. (npLevel p, npIndex p)) ` set (tpRequired plan) = required n (set targets)"
proof -
  let ?T = "sort_Slice (<) targets"
  have il: "index_list (int n) ?T" by (rule sorted_targets [OF assms(1,3)])
  have "(\<lambda>p. (npLevel p, npIndex p)) ` set (required_list 0 n ?T) = required n (set targets)"
  proof -
    have eta: "mk_pos (npLevel p) (npIndex p) = p" for p by (cases p) simp
    have "(\<lambda>p. (npLevel p, npIndex p)) ` set (required_list 0 n ?T) = {(l, i). mk_pos l i \<in> set (required_list 0 n ?T)}"
      by (auto simp: eta intro!: rev_image_eqI)
    then show ?thesis using set_required_list [OF il] by auto
  qed
  then show ?thesis
    using planTree_ok [OF assms] sorted_required_list [OF il, of 0] by (simp add: plan_for_def)
qed

theorem plan_requires_exactly_the_siblings_witness:
  "\<exists>plan. planTree globalTree (int 5) [4, 1] = Inr plan \<and> tpTargets plan = [1, 4] \<and>
    (\<lambda>p. (npLevel p, npIndex p)) ` set (tpRequired plan) = required 5 {1, 4}"
  using plan_requires_exactly_the_siblings [of "[4, 1]" 5 globalTree]
  by (auto simp: sort_Slice_def insert_commute)

text \<open>C18: Completeness of one-tree multiproofs. For distinct targets inside a tree, \<^verbatim>\<open>planTree\<close> returns a plan, and
  the target leaves together with the nodes of the tree at exactly the positions this plan requires are
  enough: from them \<^verbatim>\<open>reconstructTreeRoot\<close> returns the Merkle root of the tree.\<close>

theorem multiproof_complete:
  assumes "distinct targets" and "targets \<noteq> []" and "\<forall>t \<in> set targets. 0 \<le> t \<and> t < int (length hs)"
    and "int (length hs) < MaxInt64"
  shows "\<exists>plan. planTree tree (int (length hs)) targets = Inr plan \<and>
    (\<forall>known nodes. gm_wf known \<and> set (gm_keys known) = set targets \<and> (\<forall>t \<in> set targets. map_of known t = Some (hs ! nat t)) \<and>
       gm_wf nodes \<and> set (gm_keys nodes) = set (tpRequired plan) \<and>
       (\<forall>p \<in> set (tpRequired plan). map_of nodes p = node_of H hs (npLevel p) (npIndex p)) \<longrightarrow>
       reconstructTreeRoot H (tpLeafCount plan) known nodes = Inr (merkle_root H hs))"
proof -
  let ?T = "sort_Slice (<) targets"
  have il: "index_list (int (length hs)) ?T" by (rule sorted_targets [OF assms(1,3)])
  have ne: "?T \<noteq> []" using assms(2) by (metis set_sort_Slice set_empty)
  show ?thesis
    using planTree_ok [OF assms] reconstruct_eq [OF assms(4) il ne] mp_root_honest [OF il ne]
    by (simp add: reconstructTreeRoot_def plan_for_def)
qed

theorem multiproof_complete_witness:
  "\<exists>plan. planTree globalTree (int (length [10 :: hash, 20, 30])) [1] = Inr plan \<and> tpRequired plan = [mk_pos 0 0, mk_pos 1 1] \<and>
    reconstructTreeRoot len_hash (tpLeafCount plan) [(1, 20)] [(mk_pos 0 0, 10), (mk_pos 1 1, 30)] = Inr (merkle_root len_hash [10, 20, 30])"
proof -
  let ?hs = "[10 :: hash, 20, 30]" and ?nodes = "[(mk_pos 0 0, 10 :: hash), (mk_pos 1 1, 30)]"
  obtain plan where plan: "planTree globalTree (int (length ?hs)) [1] = Inr plan"
    and complete: "\<forall>known nodes. gm_wf known \<and> set (gm_keys known) = set [1] \<and> (\<forall>t \<in> set [1]. map_of known t = Some (?hs ! nat t)) \<and>
       gm_wf nodes \<and> set (gm_keys nodes) = set (tpRequired plan) \<and>
       (\<forall>p \<in> set (tpRequired plan). map_of nodes p = node_of len_hash ?hs (npLevel p) (npIndex p)) \<longrightarrow>
       reconstructTreeRoot len_hash (tpLeafCount plan) known nodes = Inr (merkle_root len_hash ?hs)"
    using multiproof_complete [of "[1]" ?hs globalTree len_hash] by auto
  have "required_list 0 (length ?hs) [1] = [mk_pos 0 0, mk_pos 1 1]" by (simp add: required_list_step required_list_base)
  then have r: "tpRequired plan = [mk_pos 0 0, mk_pos 1 1]"
    using plan planTree_ok [of "[1]" "length ?hs" globalTree] by (simp add: plan_for_def sort_Slice_def)
  have "\<forall>p \<in> set (tpRequired plan). map_of ?nodes p = node_of len_hash ?hs (npLevel p) (npIndex p)"
    unfolding r by (simp add: node_of_def mlevel_def theight_step)
  then have "reconstructTreeRoot len_hash (tpLeafCount plan) [(1, 20)] ?nodes = Inr (merkle_root len_hash ?hs)"
    using complete [rule_format, of "[(1, 20)]" ?nodes] r by (simp add: gm_wf_def)
  with plan r show ?thesis by blast
qed

end
