(* ===== verification/HPP_Service_Properties.thy ===== *)
theory HPP_Service_Properties
  imports HPP_Properties
begin

text \<open>
  More properties of package \<^verbatim>\<open>internal/hpp\<close>: soundness of one-tree multiproofs, termination of the
  reconstruction, what the service returns, and a limit of the hierarchical verifier: it does not
  check that every requested address has a planned segment tree.
\<close>

section \<open>The reconstruction always returns\<close>

definition in_width :: "int \<Rightarrow> (int \<times> hash) list \<Rightarrow> bool" where
  "in_width w cs \<longleftrightarrow> (\<forall>(i, h) \<in> set cs. 0 \<le> i \<and> i < w)"

lemma in_width_simps [simp]: "in_width w []" "in_width w ((i, h) # cs) \<longleftrightarrow> 0 \<le> i \<and> i < w \<and> in_width w cs"
  by (auto simp: in_width_def)

lemma proofAt_error: "proofAt nodes l i = Inl e \<Longrightarrow> e \<noteq> Diverge"
  by (auto simp: proofAt_def split: option.splits)

lemma parent_in_width: "0 \<le> i \<Longrightarrow> i < w \<Longrightarrow> 0 \<le> i div 2 \<and> i div 2 < (w + 1) div 2" for i w :: int
  by linarith

lemma recon_level_returns:
  assumes "in_width w cs"
  shows "recon_level H l w nodes cs \<noteq> Inl Diverge"
    and "recon_level H l w nodes cs = Inr (next, used) \<Longrightarrow> in_width ((w + 1) div 2) next"
proof -
  have "recon_level H l w nodes cs \<noteq> Inl Diverge \<and>
    (\<forall>next used. recon_level H l w nodes cs = Inr (next, used) \<longrightarrow> in_width ((w + 1) div 2) next)"
    using assms
  proof (induction cs rule: length_induct)
    case (1 cs)
    let ?rec = "recon_level H l w nodes"
    have IH: "?rec xs \<noteq> Inl Diverge" "?rec xs = Inr (next, used) \<Longrightarrow> in_width ((w + 1) div 2) next"
      if "length xs < length cs" "in_width w xs" for xs "next" used
      using 1 that by blast+
    show ?case
    proof (cases cs)
      case (Cons c cs')
      obtain i h where c: "c = (i, h)" by fastforce
      have w: "0 \<le> i" "i < w" "in_width w cs'" using "1.prems" Cons c by auto
      have p: "0 \<le> i div 2 \<and> i div 2 < (w + 1) div 2" by (rule parent_in_width [OF w(1,2)])
      have ev: "(i = i div 2 * 2) = even i" by presburger
      note rec = recon_level.simps(2) [of H l w nodes i h cs', unfolded Let_def ev]
      show ?thesis
      proof (cases "even i")
        case True
        then have lr: "(if even i then a else b) = a" for a b :: "((int \<times> hash) list \<times> nat) result" by simp
        show ?thesis
        proof (cases cs')
          case Nil
          then show ?thesis unfolding Cons c rec lr
            using p by (auto simp: rbind_eq_Inl_iff dest: proofAt_error)
        next
          case (Cons d cs'')
          obtain j g where d: "d = (j, g)" by fastforce
          have "in_width w cs''" using w Cons d by simp
          then show ?thesis unfolding \<open>cs = c # cs'\<close> c rec lr
            using p w(3) Cons d IH [of cs''] IH [of cs'] \<open>cs = c # cs'\<close>
            by (auto simp: rbind_eq_Inl_iff dest: proofAt_error)
        qed
      next
        case False
        then have lr: "(if even i then a else b) = b" for a b :: "((int \<times> hash) list \<times> nat) result" by simp
        have "i div 2 * 2 + 1 = i" using False by presburger
        then have right: "i div 2 * 2 + 1 < w" using w(2) by simp
        then show ?thesis unfolding Cons c rec lr
          using p w(3) IH [of cs'] Cons by (auto simp: rbind_eq_Inl_iff dest: proofAt_error)
      qed
    qed simp
  qed
  then show "recon_level H l w nodes cs \<noteq> Inl Diverge"
    "recon_level H l w nodes cs = Inr (next, used) \<Longrightarrow> in_width ((w + 1) div 2) next" by auto
qed

lemma recon_levels_returns:
  "in_width w cs \<Longrightarrow> int64 w \<Longrightarrow> recon_levels H l w nodes cs \<noteq> Inl Diverge"
proof (induction H l w nodes cs rule: recon_levels.induct)
  case (1 H l w nodes cs)
  show ?case
  proof (cases "1 < w")
    case True
    let ?w = "wrap64 (w + 1) div 2"
    note lv = recon_level_returns [OF "1.prems"(1), of H l nodes]
    have up: "recon_levels H (l + 1) ?w nodes next \<noteq> Inl Diverge"
      if level: "recon_level H l w nodes cs = Inr (next, used)" for "next" used
    proof (cases "w = MaxInt64")
      case True
      then have "wrap64 (w + 1) < 0" by (simp add: wrap64_def)
      then have "\<not> 1 < ?w" by linarith
      then show ?thesis by (subst recon_levels.simps) simp
    next
      case False
      then have "int64 (w + 1)" using "1.prems"(2) True by (auto simp: int64_def)
      then have eq: "?w = (w + 1) div 2" by simp
      moreover have "int64 ?w" unfolding eq using \<open>int64 (w + 1)\<close> True by (auto simp: int64_def; linarith)
      ultimately show ?thesis
        using "1.IH" [OF True level refl] lv(2) [OF level] by simp
    qed
    then show ?thesis
      using True lv(1) by (subst recon_levels.simps) (fastforce simp: rbind_eq_Inl_iff)
  next
    case False
    then show ?thesis by (subst recon_levels.simps) simp
  qed
qed

text \<open>C34: The reconstruction of a tree always returns, with a root or with an error, for every leaf
  count, every set of known leaves and every set of proof nodes: neither loop can run forever, even
  where the doubling of the width overflows.\<close>

theorem reconstruction_returns:
  assumes "int64 leafCount"
  shows "reconstructTreeTrace H leafCount known nodes tree out \<noteq> Inl Diverge"
proof (cases "\<exists>(index, _) \<in> set known. index < 0 \<or> leafCount \<le> index")
  case True
  then show ?thesis by (simp add: reconstructTreeTrace_def)
next
  case False
  then have "in_width leafCount (sort_Slice (\<lambda>a b. fst a < fst b) known)"
    unfolding in_width_def by fastforce
  from recon_levels_returns [OF this assms, of H 0 nodes] show ?thesis
    using False by (auto simp: reconstructTreeTrace_def Let_def rbind_eq_Inl_iff)
qed

theorem reconstruction_returns_witness:
  "reconstructTreeTrace len_hash MaxInt64 [(MaxInt64 - 1, 7)] [] globalTree None \<noteq> Inl Diverge"
  by (rule reconstruction_returns) (simp add: int64_def)

section \<open>Soundness of one tree\<close>

text \<open>C19: Soundness of one-tree multiproofs: if the known leaves and the proof nodes reconstruct to the
  Merkle root of a tree with that many leaves, the known leaves are leaves of the tree at their
  positions, unless the hash collides on a node hashed on one of the two sides.\<close>

theorem multiproof_sound:
  assumes "index_list (int (length hs)) T" and "T \<noteq> []" and "int (length hs) < MaxInt64"
    and "gm_wf known" and "set (gm_keys known) = set T"
    and "gm_wf nodes" and "set (gm_keys nodes) = set (required_list 0 (length hs) T)"
    and "reconstructTreeRoot H (int (length hs)) known nodes = Inr (merkle_root H hs)"
    and "inj_on H (merkle_inputs H hs \<union> mp_inputs H (length hs) T known nodes)"
    and "t \<in> set T"
  shows "map_of known t = Some (hs ! nat t)"
proof -
  have "mp_root H (length hs) T known nodes = merkle_root H hs"
    using assms(8) reconstruct_eq [OF assms(3,1,2,4-7)] by (simp add: reconstructTreeRoot_def)
  from mp_sound(1) [OF assms(1,2) this assms(9,10)]
  have "gm_get 0 (map_of known) t = hs ! nat t" .
  moreover have "map_of known t \<noteq> None" using assms(5,10) by (simp add: map_of_eq_None_iff)
  ultimately show ?thesis by (auto simp: gm_get_def)
qed

theorem multiproof_sound_witness: "map_of [(0 :: int, 20 :: hash), (1, 30)] 1 = Some ([20, 30] ! nat 1)"
proof -
  let ?hs = "[20, 30 :: hash]" and ?k = "[(0 :: int, 20 :: hash), (1, 30)]" and ?T = "[0, 1 :: int]"
  have r: "required_list 0 (length ?hs) ?T = []" by (simp add: required_list_step required_list_base)
  have rec: "reconstructTreeRoot len_hash (int (length ?hs)) ?k [] = Inr (merkle_root len_hash ?hs)"
    by (simp add: reconstructTreeRoot_def reconstructTreeTrace_def sort_Slice_def recon_levels.simps wrap64_def
        merkle_root.simps Let_def)
  have "merkle_inputs len_hash ?hs \<union> mp_inputs len_hash (length ?hs) ?T ?k [] \<subseteq> {node_input 20 30}"
    by (auto simp: merkle_inputs.simps mp_inputs_def theight_step active_Suc active_0 mp_side_def pside_def gm_get_def)
  then have "inj_on len_hash (merkle_inputs len_hash ?hs \<union> mp_inputs len_hash (length ?hs) ?T ?k [])"
    by (rule inj_on_subset [rotated]) simp
  then show ?thesis
    by (intro multiproof_sound [where T = ?T and nodes = "[]"]) (use r rec in \<open>auto simp: gm_wf_def\<close>)
qed

section \<open>The proof service\<close>

text \<open>C21: \<^verbatim>\<open>BuildAndVerify\<close> returns only proofs of the trusted root for the requested addresses: the
  calculated root is the trusted one, the proof it returns verifies on its own to that root, and
  its plan and its leaves are for the requested addresses, sorted and without repetition, each
  leaf with the hash of a node the reader returned at the leaf's position.\<close>

theorem build_and_verify_result:
  assumes "BuildAndVerify H service addresses trustedRoot = Inr result"
  shows "vrCalculatedGlobalRoot result = trustedRoot \<and>
    VerifyHMFProof H (vrProof result) addresses = Inr trustedRoot \<and>
    normalizeAddresses addresses = Inr (ppAddresses (hpPlan (vrProof result))) \<and>
    map rlAddress (hpLeaves (vrProof result)) = ppAddresses (hpPlan (vrProof result)) \<and>
    (\<exists>nodes. svcNodes service (hpPlan (vrProof result)) = Inr nodes \<and>
       (\<forall>l \<in> set (hpLeaves (vrProof result)). \<lparr>pnRef = target_ref (rlAddress l), pnHash = rlHash l\<rparr> \<in> set nodes))"
proof -
  have root: "vrCalculatedGlobalRoot result = trustedRoot" "VerifyHMFProof H (vrProof result) addresses = Inr trustedRoot"
    using BuildAndVerify_root [OF assms] by auto
  have build: "BuildProof service addresses = Inr (vrProof result)"
    using assms by (auto simp: BuildAndVerify_def BuildAndCalculate_def)
  obtain plan nodes leaves rest where
      p: "vrProof result = \<lparr>hpPlan = plan, hpLeaves = leaves, hpNodes = rest\<rparr>"
        "svcNodes service plan = Inr nodes" "splitTargetLeaves (ppAddresses plan) nodes = Inr (leaves, rest)"
    using build by (auto simp: BuildProof_def dest: sym split: if_splits)
  obtain trace where "TraceHMFProof H (vrProof result) addresses = Inr trace"
    using root(2) VerifyHMFProof_trace by blast
  then have "normalizeAddresses addresses = Inr (ppAddresses plan)"
    using p(1) unfolding TraceHMFProof_def evaluate_eq well_formed_proof_def by simp
  with root p splitTargetLeaves_Inr [OF p(3)] show ?thesis by auto
qed

text \<open>Readers for the small forest: its metadata and its one leaf.\<close>

definition tiny_metadata :: HierarchyMetadata where
  "tiny_metadata = \<lparr>hmSegments = [\<lparr>skRegionID = ''eu'', skShardID = 0, skSegmentID = 0\<rparr> \<mapsto>
       \<lparr>smLeafCount = 1, smShardLeafIndex = 0, smSealed = True\<rparr>],
     hmShards = [\<lparr>hkRegionID = ''eu'', hkShardID = 0\<rparr> \<mapsto> \<lparr>umLeafCount = 1, umParentLeafIndex = 0\<rparr>],
     hmRegions = [''eu'' \<mapsto> \<lparr>umLeafCount = 1, umParentLeafIndex = 0\<rparr>],
     hmGlobal = \<lparr>umLeafCount = 1, umParentLeafIndex = 0\<rparr>\<rparr>"

definition tiny_service :: ProofService where
  "tiny_service = \<lparr>svcMetadata = (\<lambda>_. Inr tiny_metadata),
     svcNodes = (\<lambda>_. Inr [\<lparr>pnRef = mk_ref tiny_segment (mk_pos 0 0), pnHash = 5\<rparr>])\<rparr>"

lemma tiny_targets: "split_node (target_map [tiny_address]) (Map.empty, [])
    \<lparr>pnRef = mk_ref tiny_segment (mk_pos 0 0), pnHash = 5\<rparr> = Inr ([tiny_address \<mapsto> 5], [])"
  by (simp add: split_node_def target_map_def target_ref_def segmentTree_def tiny_address_def tiny_segment_def)

lemma tiny_plan: "\<exists>plan. Plan [tiny_address] tiny_metadata = Inr plan \<and> ppAddresses plan = [tiny_address] \<and>
    ppTrees plan = ppTrees (hpPlan tiny_proof) \<and> ppParentLinks plan = ppParentLinks (hpPlan tiny_proof)"
  by (simp add: Plan_def tiny_metadata_def tiny_address_def tiny_proof_def leaves_run plan_run add_target_def plan_segment_def
      plan_shard_def plan_region_def add_child_def link_child_def gm_get_def segmentTree_def shardTree_def regionTree_def
      tree_names treeRefLess_def linkLess_def buildRequests_def request_tree_def Let_def split: prod.split)

text \<open>The verifier reads the addresses, the trees and the links of a plan, not its requests.\<close>

lemma evaluate_cong:
  assumes "ppAddresses (hpPlan p) = ppAddresses (hpPlan q)" and "ppTrees (hpPlan p) = ppTrees (hpPlan q)"
    and "ppParentLinks (hpPlan p) = ppParentLinks (hpPlan q)" and "hpLeaves p = hpLeaves q" and "hpNodes p = hpNodes q"
  shows "evaluateHMFProof H p addresses record = evaluateHMFProof H q addresses record"
  using assms by (simp add: evaluateHMFProof_def Let_def)

lemma tiny_build: "\<exists>result. BuildAndVerify H tiny_service [tiny_address] (ptGlobalRoot (tiny_trace H)) = Inr result \<and>
    TraceHMFProof H (vrProof result) [tiny_address] = Inr (tiny_trace H) \<and> hpLeaves (vrProof result) = hpLeaves tiny_proof \<and>
    hpNodes (vrProof result) = hpNodes tiny_proof \<and> ppTrees (hpPlan (vrProof result)) = ppTrees (hpPlan tiny_proof)"
proof -
  have norm: "normalizeAddresses [tiny_address] = Inr [tiny_address]" by (simp add: leaves_run tiny_address_def)
  obtain plan where plan: "Plan [tiny_address] tiny_metadata = Inr plan" "ppAddresses plan = [tiny_address]"
      "ppTrees plan = ppTrees (hpPlan tiny_proof)" "ppParentLinks plan = ppParentLinks (hpPlan tiny_proof)"
    using tiny_plan by blast
  let ?p = "\<lparr>hpPlan = plan, hpLeaves = [\<lparr>rlAddress = tiny_address, rlHash = 5\<rparr>], hpNodes = []\<rparr>"
  have split: "splitTargetLeaves [tiny_address] [\<lparr>pnRef = mk_ref tiny_segment (mk_pos 0 0), pnHash = 5\<rparr>] =
      Inr ([\<lparr>rlAddress = tiny_address, rlHash = 5\<rparr>], [])"
    by (simp add: splitTargetLeaves_def Let_def tiny_targets)
  have build: "BuildProof tiny_service [tiny_address] = Inr ?p"
    using norm plan(1,2) split by (simp add: BuildProof_def tiny_service_def)
  have "evaluateHMFProof H ?p [tiny_address] r = evaluateHMFProof H tiny_proof [tiny_address] r" for r
    by (rule evaluate_cong) (use plan in \<open>simp_all add: tiny_proof_def\<close>)
  then have trace: "TraceHMFProof H ?p [tiny_address] = Inr (tiny_trace H)"
    using tiny_proof_trace by (simp add: TraceHMFProof_def)
  then have "VerifyHMFProof H ?p [tiny_address] = Inr (ptGlobalRoot (tiny_trace H))"
    using VerifyHMFProof_trace by blast
  with build trace plan show ?thesis by (simp add: BuildAndVerify_def BuildAndCalculate_def tiny_proof_def)
qed

theorem build_and_verify_result_witness:
  "\<exists>result. BuildAndVerify len_hash tiny_service [tiny_address] (ptGlobalRoot (tiny_trace len_hash)) = Inr result \<and>
    VerifyHMFProof len_hash (vrProof result) [tiny_address] = Inr (ptGlobalRoot (tiny_trace len_hash))"
proof -
  obtain result where r: "BuildAndVerify len_hash tiny_service [tiny_address] (ptGlobalRoot (tiny_trace len_hash)) = Inr result"
    using tiny_build by blast
  from build_and_verify_result [OF r] r show ?thesis by blast
qed

section \<open>Addresses without a planned segment\<close>

definition planned :: "HMFProof \<Rightarrow> PhysicalAddress \<Rightarrow> bool" where
  "planned proof a \<longleftrightarrow> segmentTree (segment_key a) \<in> tpTree ` set (ppTrees (hpPlan proof))"

text \<open>Replacing the hash of every leaf whose segment is not planned.\<close>

definition forge :: "(PhysicalAddress \<Rightarrow> hash) \<Rightarrow> HMFProof \<Rightarrow> HMFProof" where
  "forge f proof = proof\<lparr>hpLeaves := map (\<lambda>l. if planned proof (rlAddress l) then l else l\<lparr>rlHash := f (rlAddress l)\<rparr>)
     (hpLeaves proof)\<rparr>"

lemma forge_leaves:
  assumes "t \<in> tpTree ` set (ppTrees (hpPlan proof))"
  shows "segment_leaves_of (hpLeaves (forge f proof)) t = segment_leaves_of (hpLeaves proof) t"
proof -
  have "map (\<lambda>l. (paLeafID (rlAddress l), rlHash l)) (filter (\<lambda>l. segmentTree (segment_key (rlAddress l)) = t)
      (map (\<lambda>l. if planned proof (rlAddress l) then l else l\<lparr>rlHash := f (rlAddress l)\<rparr>) ls)) =
    map (\<lambda>l. (paLeafID (rlAddress l), rlHash l)) (filter (\<lambda>l. segmentTree (segment_key (rlAddress l)) = t) ls)" for ls
    using assms by (induction ls) (auto simp: planned_def)
  then show ?thesis by (simp add: segment_leaves_of_def forge_def)
qed

lemma eval_trees_cong:
  assumes "\<forall>x \<in> set ts. sl (fst x) = sl' (fst x)"
  shows "rfold (eval_tree H record plans nodes sl children) s ts = rfold (eval_tree H record plans nodes sl' children) s ts"
  using assms
proof (induction ts arbitrary: s)
  case (Cons x ts)
  have "eval_tree H record plans nodes sl children s x = eval_tree H record plans nodes sl' children s x"
    using Cons.prems by (cases s; cases x) (simp add: eval_tree_def known_leaves_def)
  with Cons show ?case by simp
qed simp

text \<open>C35: A limit of the verifier. The hash of a requested leaf whose segment tree is not among the
  planned trees takes no part in the verification: a proof that verifies to a root still verifies to
  the same root after the hashes of all such leaves have been replaced by arbitrary values, although
  the verifier reports success for the request that contains them.\<close>

theorem unplanned_leaves_are_not_authenticated:
  assumes "VerifyHMFProof H proof addresses = Inr root"
  shows "VerifyHMFProof H (forge f proof) addresses = Inr root"
proof -
  have fields: "hpPlan (forge f proof) = hpPlan proof" "hpNodes (forge f proof) = hpNodes proof"
    "map rlAddress (hpLeaves (forge f proof)) = map rlAddress (hpLeaves proof)"
    by (auto simp: forge_def)
  have leaves: "rlAddress ` set (hpLeaves (forge f proof)) = rlAddress ` set (hpLeaves proof)"
    "length (hpLeaves (forge f proof)) = length (hpLeaves proof)"
    using arg_cong [OF fields(3), of set] arg_cong [OF fields(3), of length] by simp_all
  have wf: "well_formed_proof (forge f proof) addresses = well_formed_proof proof addresses"
    unfolding well_formed_proof_def fields leaves ..
  have "fst ` set (eval_order (proof_plans proof)) \<subseteq> tpTree ` set (ppTrees (hpPlan proof))"
    by (auto simp: eval_order_def plan_map_def)
  then have run: "rfold (eval_tree H rc (proof_plans proof) (nodes_of (hpNodes proof))
      (segment_leaves_of (hpLeaves (forge f proof))) (proof_children proof)) (Map.empty, empty_trace) (eval_order (proof_plans proof)) =
    rfold (eval_tree H rc (proof_plans proof) (nodes_of (hpNodes proof))
      (segment_leaves_of (hpLeaves proof)) (proof_children proof)) (Map.empty, empty_trace) (eval_order (proof_plans proof))" for rc
    by (intro eval_trees_cong ballI forge_leaves) blast
  have "evaluateHMFProof H (forge f proof) addresses r = Inr t \<longleftrightarrow> evaluateHMFProof H proof addresses r = Inr t" for r t
    unfolding evaluate_eq fields wf run ..
  then show ?thesis using assms by (auto simp: VerifyHMFProof_def)
qed

text \<open>A request for two leaves, of which the plan covers the first.\<close>

definition other_address :: PhysicalAddress where
  "other_address = \<lparr>paRegionID = ''eu'', paShardID = 0, paSegmentID = 7, paLeafID = 3\<rparr>"

definition half_planned :: HMFProof where
  "half_planned = tiny_proof\<lparr>hpPlan := (hpPlan tiny_proof)\<lparr>ppAddresses := [tiny_address, other_address]\<rparr>,
     hpLeaves := [\<lparr>rlAddress = tiny_address, rlHash = 5\<rparr>, \<lparr>rlAddress = other_address, rlHash = 9\<rparr>]\<rparr>"

lemma half_planned_verifies:
  "VerifyHMFProof H half_planned [tiny_address, other_address] = Inr (ptGlobalRoot (tiny_trace H))"
proof -
  have "TraceHMFProof H half_planned [tiny_address, other_address] = Inr (tiny_trace H)"
    by (simp add: TraceHMFProof_def half_planned_def tiny_proof_def tiny_address_def other_address_def addressLess_def
        evaluate_run tree_names tiny_trace_def tiny_roots_def Let_def)
  then show ?thesis using VerifyHMFProof_trace by blast
qed

lemma forge_half_planned:
  "forge (\<lambda>_. 1) half_planned = half_planned\<lparr>hpLeaves :=
     [\<lparr>rlAddress = tiny_address, rlHash = 5\<rparr>, \<lparr>rlAddress = other_address, rlHash = 1\<rparr>]\<rparr>"
  by (simp add: forge_def half_planned_def planned_def tiny_proof_def segmentTree_def tiny_address_def other_address_def
      tree_names)

theorem unplanned_leaves_are_not_authenticated_witness:
  "VerifyHMFProof len_hash half_planned [tiny_address, other_address] = Inr (ptGlobalRoot (tiny_trace len_hash)) \<and>
   VerifyHMFProof len_hash (half_planned\<lparr>hpLeaves :=
     [\<lparr>rlAddress = tiny_address, rlHash = 5\<rparr>, \<lparr>rlAddress = other_address, rlHash = 1\<rparr>]\<rparr>)
     [tiny_address, other_address] = Inr (ptGlobalRoot (tiny_trace len_hash))"
  using unplanned_leaves_are_not_authenticated [OF half_planned_verifies [of len_hash], of "\<lambda>_. 1"]
  by (simp add: half_planned_verifies forge_half_planned)

end
