(* ===== verification/Checkpoint.thy ===== *)
theory Checkpoint
  imports HMF_Domain
begin

text \<open>
  Package \<^verbatim>\<open>internal/checkpoint\<close>: the state commitment that binds the locator root and the forest
  root to a sequence number, the validation of stored checkpoints, and the service that finalises
  one checkpoint after the other. The repository and the anchor are interfaces of the package: the
  records of operations the service is given. A service call leaves the state of both.
\<close>

section \<open>The types\<close>

definition ErrNotFound :: error where
  "ErrNotFound = Sentinel ''checkpoint not found''"

definition ErrInvalidCheckpoint :: error where
  "ErrInvalidCheckpoint = Sentinel ''invalid checkpoint''"

type_synonym Status = string

definition StatusPending :: Status where "StatusPending = ''PENDING''"
definition StatusFinalized :: Status where "StatusFinalized = ''FINALIZED''"

record RootSnapshot =
  rsLocatorTreeID :: string
  rsLocatorRoot :: hash
  rsGlobalHMFRoot :: hash

record AnchorReceipt =
  arTransactionHash :: string
  arBlockHeight :: int
  arAnchoredAt :: time

record Checkpoint =
  cpID :: string
  cpSystemID :: string
  cpSequence :: int
  cpLocatorTreeID :: string
  cpLocatorRoot :: hash
  cpGlobalHMFRoot :: hash
  cpStateCommitment :: hash
  cpStatus :: Status
  cpAnchor :: "AnchorReceipt option"
  cpCreatedAt :: time
  cpFinalizedAt :: "time option"

record 'r Repository =
  LatestCheckpoint :: "'r \<Rightarrow> string \<Rightarrow> ('r, Checkpoint) outcome"
  CurrentFinalized :: "'r \<Rightarrow> string \<Rightarrow> ('r, Checkpoint) outcome"
  SavePending :: "'r \<Rightarrow> Checkpoint \<Rightarrow> ('r, Checkpoint) outcome"
  PublishFinalized :: "'r \<Rightarrow> Checkpoint \<Rightarrow> ('r, unit) outcome"

section \<open>The state commitment\<close>

definition stateDomain :: string where "stateDomain = ''STATE''"

definition state_input :: "int \<Rightarrow> hash \<Rightarrow> hash \<Rightarrow> byte list" where
  "state_input sequence locatorRoot globalHMFRoot =
     string_bytes stateDomain @ writeInt64 sequence @ hash_bytes locatorRoot @ hash_bytes globalHMFRoot"

definition StateCommitment :: "hash_fn \<Rightarrow> int \<Rightarrow> hash \<Rightarrow> hash \<Rightarrow> hash result" where
  "StateCommitment H sequence locatorRoot globalHMFRoot =
     (if sequence \<le> 0 then Inl (Errorf ''checkpoint commitment: sequence must be positive'')
      else Inr (H (state_input sequence locatorRoot globalHMFRoot)))"

definition VerifyStateCommitment :: "hash_fn \<Rightarrow> Checkpoint \<Rightarrow> unit result" where
  "VerifyStateCommitment H value =
     rbind (StateCommitment H (cpSequence value) (cpLocatorRoot value) (cpGlobalHMFRoot value)) (\<lambda>expected.
     if hash_bytes expected \<noteq> hash_bytes (cpStateCommitment value)
     then Inl (Errorf ''checkpoint commitment does not match its sequence and roots'') else Inr ())"

section \<open>Validation\<close>

definition validateReceipt :: "AnchorReceipt \<Rightarrow> unit result" where
  "validateReceipt receipt =
     (if arTransactionHash receipt = ''''
      then Inl (Errorf ''finalize checkpoint: anchor returned an empty transaction hash'')
      else if arBlockHeight receipt < 0
      then Inl (Errorf ''finalize checkpoint: anchor returned a negative block height'')
      else if IsZero (arAnchoredAt receipt)
      then Inl (Errorf ''finalize checkpoint: anchor returned an empty timestamp'')
      else Inr ())"

text \<open>\<^verbatim>\<open>fmt.Errorf("%w: %v", ErrInvalidCheckpoint, err)\<close> wraps the sentinel, not \<^verbatim>\<open>err\<close>.\<close>

definition invalid :: "string \<Rightarrow> error" where
  "invalid m = Wrap m ErrInvalidCheckpoint"

definition validateStoredCheckpoint :: "hash_fn \<Rightarrow> Checkpoint \<Rightarrow> string \<Rightarrow> unit result" where
  "validateStoredCheckpoint H value systemID =
     (if cpSystemID value \<noteq> systemID then Inl (invalid ''%w: system ID %q does not match %q'')
      else if cpID value = '''' \<or> cpSequence value \<le> 0 \<or> cpLocatorTreeID value = '''' \<or> IsZero (cpCreatedAt value)
      then Inl (invalid ''%w: required checkpoint metadata is missing'')
      else case VerifyStateCommitment H value of Inl _ \<Rightarrow> Inl (invalid ''%w: %v'')
      | Inr _ \<Rightarrow>
        if cpStatus value = StatusPending
        then (if cpAnchor value \<noteq> None \<or> cpFinalizedAt value \<noteq> None
              then Inl (invalid ''%w: pending checkpoint contains finality metadata'') else Inr ())
        else if cpStatus value = StatusFinalized
        then (case cpAnchor value of
                None \<Rightarrow> Inl (invalid ''%w: finalized checkpoint lacks finality metadata'')
              | Some receipt \<Rightarrow>
                  if cpFinalizedAt value = None
                  then Inl (invalid ''%w: finalized checkpoint lacks finality metadata'')
                  else case validateReceipt receipt of Inl _ \<Rightarrow> Inl (invalid ''%w: %v'') | Inr _ \<Rightarrow> Inr ())
        else Inl (invalid ''%w: unsupported status %q''))"

section \<open>Readers\<close>

record 'r Reader =
  rdSystemID :: string
  rdRepo :: "'r Repository"

definition NewReader :: "string \<Rightarrow> 'r Repository option \<Rightarrow> 'r Reader result" where
  "NewReader systemID repository =
     (if systemID = '''' then Inl (Errorf ''new checkpoint reader: system ID is required'')
      else case repository of
        None \<Rightarrow> Inl (Errorf ''new checkpoint reader: repository is nil'')
      | Some repo \<Rightarrow> Inr \<lparr>rdSystemID = systemID, rdRepo = repo\<rparr>)"

definition readCurrent :: "hash_fn \<Rightarrow> 'r Repository \<Rightarrow> 'r \<Rightarrow> string \<Rightarrow> ('r, Checkpoint) outcome" where
  "readCurrent H repository r systemID =
     (case CurrentFinalized repository r systemID of
        (r', Inl e) \<Rightarrow> (r', Inl (Wrap ''current checkpoint: %w'' e))
      | (r', Inr value) \<Rightarrow> (r',
          rbind (validateStoredCheckpoint H value systemID) (\<lambda>_.
          if cpStatus value \<noteq> StatusFinalized \<or> cpAnchor value = None \<or> cpFinalizedAt value = None
          then Inl (Errorf ''current checkpoint: repository returned a non-finalized checkpoint'')
          else Inr value)))"

definition Reader_Current :: "hash_fn \<Rightarrow> 'r Reader \<Rightarrow> 'r \<Rightarrow> ('r, Checkpoint) outcome" where
  "Reader_Current H reader r = readCurrent H (rdRepo reader) r (rdSystemID reader)"

section \<open>The service\<close>

text \<open>
  The service reads its clock at most twice in a call: \<open>csClock k\<close> is the \<open>k\<close>-th reading. The
  state source is asked at most once in a call; what it returns is an argument of the call. The
  one-slot channel \<^verbatim>\<open>lock\<close> makes the calls of a service exclude each other: a call below is one
  that has taken the slot.
\<close>

record ('r, 'a) CheckpointService =
  csSystemID :: string
  csAnchor :: "'a \<Rightarrow> hash \<Rightarrow> ('a, AnchorReceipt) outcome"
  csRepo :: "'r Repository"
  csClock :: "nat \<Rightarrow> time"

record ('r, 'a) service_state =
  ssRepo :: 'r
  ssAnchor :: 'a
  ssReadings :: nat

definition anchorAndPublish ::
  "('r, 'a) CheckpointService \<Rightarrow> ('r, 'a) service_state \<Rightarrow> Checkpoint \<Rightarrow>
     (('r, 'a) service_state, Checkpoint) outcome" where
  "anchorAndPublish service s pending =
     (case csAnchor service (ssAnchor s) (cpStateCommitment pending) of
        (a, Inl e) \<Rightarrow> (s\<lparr>ssAnchor := a\<rparr>, Inl (Wrap ''finalize checkpoint: anchor commitment: %w'' e))
      | (a, Inr receipt) \<Rightarrow>
          (case validateReceipt receipt of Inl e \<Rightarrow> (s\<lparr>ssAnchor := a\<rparr>, Inl e)
           | Inr _ \<Rightarrow>
             let finalizedAt = csClock service (ssReadings s);
                 result = pending\<lparr>cpStatus := StatusFinalized, cpAnchor := Some receipt,
                   cpFinalizedAt := Some finalizedAt\<rparr>
             in (case PublishFinalized (csRepo service) (ssRepo s) result of
                   (r, Inl e) \<Rightarrow> (\<lparr>ssRepo = r, ssAnchor = a, ssReadings = Suc (ssReadings s)\<rparr>,
                      Inl (Wrap ''finalize checkpoint: publish finalized checkpoint: %w'' e))
                 | (r, Inr _) \<Rightarrow> (\<lparr>ssRepo = r, ssAnchor = a, ssReadings = Suc (ssReadings s)\<rparr>, Inr result))))"

text \<open>The second half of \<^verbatim>\<open>Finalize\<close>: a new checkpoint after the sequence number of the latest one.\<close>

definition new_checkpoint ::
  "hash_fn \<Rightarrow> ('r, 'a) CheckpointService \<Rightarrow> RootSnapshot result \<Rightarrow> ('r, 'a) service_state \<Rightarrow> int \<Rightarrow>
     (('r, 'a) service_state, Checkpoint) outcome" where
  "new_checkpoint H service source s latestSequence =
     (case source of
        Inl e \<Rightarrow> (s, Inl (Wrap ''finalize checkpoint: snapshot coordinated roots: %w'' e))
      | Inr snapshot \<Rightarrow>
        if rsLocatorTreeID snapshot = ''''
        then (s, Inl (Errorf ''finalize checkpoint: locator tree ID is required''))
        else let sequence = wrap64 (latestSequence + 1) in
        (case StateCommitment H sequence (rsLocatorRoot snapshot) (rsGlobalHMFRoot snapshot) of
           Inl e \<Rightarrow> (s, Inl e)
         | Inr commitment \<Rightarrow>
           let createdAt = csClock service (ssReadings s);
               s1 = s\<lparr>ssReadings := Suc (ssReadings s)\<rparr>;
               pending = \<lparr>cpID = '''', cpSystemID = csSystemID service, cpSequence = sequence,
                 cpLocatorTreeID = rsLocatorTreeID snapshot, cpLocatorRoot = rsLocatorRoot snapshot,
                 cpGlobalHMFRoot = rsGlobalHMFRoot snapshot, cpStateCommitment = commitment,
                 cpStatus = StatusPending, cpAnchor = None, cpCreatedAt = createdAt, cpFinalizedAt = None\<rparr>
           in (case SavePending (csRepo service) (ssRepo s1) pending of
                 (r, Inl e) \<Rightarrow> (s1\<lparr>ssRepo := r\<rparr>,
                   Inl (Wrap ''finalize checkpoint: persist pending checkpoint: %w'' e))
               | (r, Inr stored) \<Rightarrow>
                   let s2 = s1\<lparr>ssRepo := r\<rparr> in
                   (case validateStoredCheckpoint H stored (csSystemID service) of
                      Inl e \<Rightarrow> (s2, Inl (Wrap ''finalize checkpoint: repository returned invalid pending checkpoint: %w'' e))
                    | Inr _ \<Rightarrow>
                      if cpStatus stored \<noteq> StatusPending \<or> cpSequence stored \<noteq> cpSequence pending \<or>
                         cpLocatorTreeID stored \<noteq> cpLocatorTreeID pending \<or>
                         cpLocatorRoot stored \<noteq> cpLocatorRoot pending \<or>
                         cpGlobalHMFRoot stored \<noteq> cpGlobalHMFRoot pending \<or>
                         cpStateCommitment stored \<noteq> cpStateCommitment pending
                      then (s2, Inl (Errorf ''finalize checkpoint: repository changed pending checkpoint contents''))
                      else anchorAndPublish service s2 stored))))"

text \<open>The recovery of a finalised checkpoint whose publication as current state was interrupted.\<close>

definition recover_publication ::
  "('r, 'a) CheckpointService \<Rightarrow> ('r, 'a) service_state \<Rightarrow> Checkpoint \<Rightarrow>
     (('r, 'a) service_state, Checkpoint) outcome" where
  "recover_publication service s latest =
     (case PublishFinalized (csRepo service) (ssRepo s) latest of
        (r, Inl e) \<Rightarrow> (s\<lparr>ssRepo := r\<rparr>, Inl (Wrap ''finalize checkpoint: recover finality publication: %w'' e))
      | (r, Inr _) \<Rightarrow> (s\<lparr>ssRepo := r\<rparr>, Inr latest))"

text \<open>The checks of the current checkpoint against the latest one, when there is a current one.\<close>

definition check_current :: "hash_fn \<Rightarrow> string \<Rightarrow> Checkpoint \<Rightarrow> Checkpoint \<Rightarrow> unit result" where
  "check_current H systemID latest current =
     rbind (validateStoredCheckpoint H current systemID) (\<lambda>_.
     if cpStatus current \<noteq> StatusFinalized
     then Inl (Errorf ''finalize checkpoint: current checkpoint is not finalized'')
     else if cpSequence current > cpSequence latest
     then Inl (Errorf ''finalize checkpoint: current sequence exceeds latest history'')
     else if cpSequence current = cpSequence latest \<and> cpStateCommitment current \<noteq> cpStateCommitment latest
     then Inl (Errorf ''finalize checkpoint: current state conflicts with latest history'')
     else Inr ())"

definition Finalize ::
  "hash_fn \<Rightarrow> ('r, 'a) CheckpointService \<Rightarrow> RootSnapshot result \<Rightarrow> ('r, 'a) service_state \<Rightarrow>
     (('r, 'a) service_state, Checkpoint) outcome" where
  "Finalize H service source s =
     (case LatestCheckpoint (csRepo service) (ssRepo s) (csSystemID service) of
        (r, Inl e) \<Rightarrow>
          let s1 = s\<lparr>ssRepo := r\<rparr> in
          if errors_Is e ErrNotFound then new_checkpoint H service source s1 0
          else (s1, Inl (Wrap ''finalize checkpoint: load latest: %w'' e))
      | (r, Inr latest) \<Rightarrow>
          let s1 = s\<lparr>ssRepo := r\<rparr> in
          (case validateStoredCheckpoint H latest (csSystemID service) of
             Inl e \<Rightarrow> (s1, Inl e)
           | Inr _ \<Rightarrow>
             if cpStatus latest = StatusPending then anchorAndPublish service s1 latest
             else if cpStatus latest \<noteq> StatusFinalized
             then (s1, Inl (Errorf ''finalize checkpoint: unsupported latest status %q''))
             else
             (case CurrentFinalized (csRepo service) (ssRepo s1) (csSystemID service) of
                (r2, Inl currentErr) \<Rightarrow>
                  let s2 = s1\<lparr>ssRepo := r2\<rparr> in
                  if \<not> errors_Is currentErr ErrNotFound
                  then (s2, Inl (Wrap ''finalize checkpoint: load current finality: %w'' currentErr))
                  else recover_publication service s2 latest
              | (r2, Inr current) \<Rightarrow>
                  let s2 = s1\<lparr>ssRepo := r2\<rparr> in
                  (case check_current H (csSystemID service) latest current of
                     Inl e \<Rightarrow> (s2, Inl e)
                   | Inr _ \<Rightarrow>
                     if cpSequence current < cpSequence latest then recover_publication service s2 latest
                     else if cpSequence latest = MaxInt64
                     then (s2, Inl (Errorf ''finalize checkpoint: sequence exhausted''))
                     else new_checkpoint H service source s2 (cpSequence latest)))))"

definition Service_Current ::
  "hash_fn \<Rightarrow> ('r, 'a) CheckpointService \<Rightarrow> ('r, 'a) service_state \<Rightarrow> (('r, 'a) service_state, Checkpoint) outcome" where
  "Service_Current H service s =
     (case readCurrent H (csRepo service) (ssRepo s) (csSystemID service) of
        (r, res) \<Rightarrow> (s\<lparr>ssRepo := r\<rparr>, res))"

definition NewCheckpointService ::
  "string \<Rightarrow> (unit \<Rightarrow> RootSnapshot result) option \<Rightarrow> ('a \<Rightarrow> hash \<Rightarrow> ('a, AnchorReceipt) outcome) option \<Rightarrow>
     'r Repository option \<Rightarrow> (nat \<Rightarrow> time) \<Rightarrow> ('r, 'a) CheckpointService result" where
  "NewCheckpointService systemID source anchor repository clock =
     (if systemID = '''' then Inl (Errorf ''new checkpoint service: system ID is required'')
      else if source = None then Inl (Errorf ''new checkpoint service: state source is nil'')
      else case anchor of None \<Rightarrow> Inl (Errorf ''new checkpoint service: anchor is nil'')
      | Some commit \<Rightarrow>
        (case repository of None \<Rightarrow> Inl (Errorf ''new checkpoint service: repository is nil'')
         | Some repo \<Rightarrow> Inr \<lparr>csSystemID = systemID, csAnchor = commit, csRepo = repo, csClock = clock\<rparr>))"

end
