(* ===== verification/Checkpoint_History.thy ===== *)
theory Checkpoint_History
  imports Checkpoint
begin

text \<open>
  What the checkpoint service keeps true of the history it builds, for any repository and any
  anchor that keep their contracts. The contracts are the locales \<open>checkpoint_repository\<close> and
  \<open>anchor_provider\<close>; a write of the repository may fail before or after it took effect.
\<close>

section \<open>Commitments and validation\<close>

lemma state_input_inject:
  assumes "state_input j l g = state_input j' l' g'"
  shows "wrap64 j = wrap64 j' \<and> l = l' \<and> g = g'"
proof -
  have "writeInt64 (wrap64 j) @ hash_bytes l @ hash_bytes g = writeInt64 (wrap64 j') @ hash_bytes l' @ hash_bytes g'"
    using assms by (simp add: state_input_def)
  then have "wrap64 j = wrap64 j' \<and> hash_bytes l @ hash_bytes g = hash_bytes l' @ hash_bytes g'"
    by (intro int64_codec.enc_append_inject) auto
  then show ?thesis by simp
qed

definition valid_receipt :: "AnchorReceipt \<Rightarrow> bool" where
  "valid_receipt r \<longleftrightarrow> arTransactionHash r \<noteq> '''' \<and> 0 \<le> arBlockHeight r \<and> \<not> IsZero (arAnchoredAt r)"

lemma validateReceipt_Inr [simp]: "validateReceipt r = Inr u \<longleftrightarrow> valid_receipt r"
  by (auto simp: validateReceipt_def valid_receipt_def)

text \<open>The meaning of a checkpoint that passes validation.\<close>

definition committed :: "hash_fn \<Rightarrow> Checkpoint \<Rightarrow> bool" where
  "committed H c \<longleftrightarrow> 0 < cpSequence c \<and>
     cpStateCommitment c = H (state_input (cpSequence c) (cpLocatorRoot c) (cpGlobalHMFRoot c))"

definition pending :: "Checkpoint \<Rightarrow> bool" where
  "pending c \<longleftrightarrow> cpStatus c = StatusPending \<and> cpAnchor c = None \<and> cpFinalizedAt c = None"

definition finalized :: "Checkpoint \<Rightarrow> bool" where
  "finalized c \<longleftrightarrow> cpStatus c = StatusFinalized \<and> (\<exists>r. cpAnchor c = Some r \<and> valid_receipt r) \<and> cpFinalizedAt c \<noteq> None"

definition valid_checkpoint :: "hash_fn \<Rightarrow> string \<Rightarrow> Checkpoint \<Rightarrow> bool" where
  "valid_checkpoint H sys c \<longleftrightarrow> cpSystemID c = sys \<and> cpID c \<noteq> '''' \<and> cpLocatorTreeID c \<noteq> '''' \<and>
     \<not> IsZero (cpCreatedAt c) \<and> committed H c \<and> (pending c \<or> finalized c)"

lemma status_distinct [simp]: "StatusPending \<noteq> StatusFinalized" "StatusFinalized \<noteq> StatusPending"
  by (simp_all add: StatusPending_def StatusFinalized_def)

lemma VerifyStateCommitment_Inr [simp]: "VerifyStateCommitment H c = Inr u \<longleftrightarrow> committed H c"
  by (auto simp: VerifyStateCommitment_def StateCommitment_def committed_def)

lemma verify_case: "(case VerifyStateCommitment H c of Inl _ \<Rightarrow> x | Inr _ \<Rightarrow> y) = (if committed H c then y else x)"
  by (auto simp: VerifyStateCommitment_def StateCommitment_def committed_def)

lemma receipt_case: "(case validateReceipt r of Inl e \<Rightarrow> f e | Inr _ \<Rightarrow> y) =
    (if valid_receipt r then y else f (projl (validateReceipt r)))"
  by (auto simp: validateReceipt_def valid_receipt_def)

lemma validateStored_Inr [simp]: "validateStoredCheckpoint H c sys = Inr u \<longleftrightarrow> valid_checkpoint H sys c"
proof -
  have "committed H c \<Longrightarrow> 0 < cpSequence c" by (simp add: committed_def)
  then show ?thesis
    unfolding validateStoredCheckpoint_def valid_checkpoint_def pending_def finalized_def
      verify_case receipt_case
    by (auto split: option.splits)
qed

lemma stored_case:
  "(case validateStoredCheckpoint H c sys of Inl e \<Rightarrow> f e | Inr _ \<Rightarrow> y) =
     (if valid_checkpoint H sys c then y else f (projl (validateStoredCheckpoint H c sys)))"
  using validateStored_Inr [of H c sys "()"] by (cases "validateStoredCheckpoint H c sys") (auto simp del: validateStored_Inr)

section \<open>The contract of a repository\<close>

text \<open>
  \<open>view r\<close> is what a repository knows of one system: its checkpoints, the latest first, and the
  checkpoint published as current. \<open>col t\<close> is the instant read back from a timestamp column after
  \<open>t\<close> was written, and \<open>store\<close> applies it to a checkpoint. A write either leaves the view, and then
  reports an error, or takes effect, and then may still report one.
\<close>

type_synonym cp_view = "Checkpoint list \<times> Checkpoint option"

definition store :: "(time \<Rightarrow> time) \<Rightarrow> Checkpoint \<Rightarrow> Checkpoint" where
  "store col c = c\<lparr>cpCreatedAt := col (cpCreatedAt c),
     cpAnchor := map_option (\<lambda>r. r\<lparr>arAnchoredAt := col (arAnchoredAt r)\<rparr>) (cpAnchor c),
     cpFinalizedAt := map_option col (cpFinalizedAt c)\<rparr>"

definition lookup_answer :: "Checkpoint option \<Rightarrow> Checkpoint result \<Rightarrow> bool" where
  "lookup_answer found res \<longleftrightarrow>
     (case res of Inr c \<Rightarrow> found = Some c | Inl e \<Rightarrow> errors_Is e ErrNotFound \<longrightarrow> found = None)"

definition latest_of :: "cp_view \<Rightarrow> Checkpoint option" where
  "latest_of v = (case fst v of [] \<Rightarrow> None | c # _ \<Rightarrow> Some c)"

text \<open>The effects a write may have: none, or for a publication the history alone, or all of it.\<close>

definition save_effect :: "(time \<Rightarrow> time) \<Rightarrow> Checkpoint \<Rightarrow> cp_view \<Rightarrow> cp_view \<Rightarrow> Checkpoint result \<Rightarrow> bool" where
  "save_effect col c v v' res \<longleftrightarrow> v' = v \<and> isl res \<or>
     (\<exists>i. i \<noteq> '''' \<and> v' = (store col (c\<lparr>cpID := i\<rparr>) # fst v, snd v) \<and> (isl res \<or> res = Inr (c\<lparr>cpID := i\<rparr>)))"

definition publish_effect :: "(time \<Rightarrow> time) \<Rightarrow> Checkpoint \<Rightarrow> cp_view \<Rightarrow> cp_view \<Rightarrow> unit result \<Rightarrow> bool" where
  "publish_effect col c v v' res \<longleftrightarrow> v' = v \<and> isl res \<or> v' = (store col c # tl (fst v), snd v) \<and> isl res \<or>
     v' = (store col c # tl (fst v), Some (store col c))"

locale checkpoint_repository =
  fixes R :: "'r Repository" and sys :: string and ok :: "'r \<Rightarrow> bool" and view :: "'r \<Rightarrow> cp_view"
    and col :: "time \<Rightarrow> time"
  assumes latest_law: "ok r \<Longrightarrow> LatestCheckpoint R r sys = (r', res) \<Longrightarrow>
      ok r' \<and> view r' = view r \<and> lookup_answer (latest_of (view r)) res"
    and current_law: "ok r \<Longrightarrow> CurrentFinalized R r sys = (r', res) \<Longrightarrow>
      ok r' \<and> view r' = view r \<and> lookup_answer (snd (view r)) res"
    and save_law: "ok r \<Longrightarrow> SavePending R r c = (r', res) \<Longrightarrow> cpSystemID c = sys \<Longrightarrow> cpID c = '''' \<Longrightarrow> pending c \<Longrightarrow>
      \<forall>d \<in> set (fst (view r)). cpSequence d < cpSequence c \<Longrightarrow> ok r' \<and> save_effect col c (view r) (view r') res"
    and publish_law: "ok r \<Longrightarrow> PublishFinalized R r c = (r', pres) \<Longrightarrow> cpSystemID c = sys \<Longrightarrow> finalized c \<Longrightarrow>
      latest_of (view r) = Some d \<Longrightarrow> cpSequence d = cpSequence c \<Longrightarrow> cpID d = cpID c \<Longrightarrow>
      \<forall>k. snd (view r) = Some k \<longrightarrow> cpSequence k < cpSequence c \<Longrightarrow> ok r' \<and> publish_effect col c (view r) (view r') pres"
    and col_col: "col (col t) = col t"

section \<open>The history invariant\<close>

text \<open>
  The checkpoints are numbered from 1 without a gap; all of them are valid and as they are stored;
  all but the latest are finalised. The current checkpoint is the latest, or the one before it.
\<close>

fun history_ok :: "hash_fn \<Rightarrow> string \<Rightarrow> (time \<Rightarrow> time) \<Rightarrow> Checkpoint list \<Rightarrow> bool" where
  "history_ok H sys col [] \<longleftrightarrow> True"
| "history_ok H sys col (c # h) \<longleftrightarrow> valid_checkpoint H sys c \<and> cpSequence c = int (length h) + 1 \<and>
     int64 (int (length h) + 1) \<and> store col c = c \<and> (\<forall>d \<in> set h. finalized d) \<and> history_ok H sys col h"

definition head_of :: "'a list \<Rightarrow> 'a option" where
  "head_of xs = (case xs of [] \<Rightarrow> None | x # _ \<Rightarrow> Some x)"

definition history_inv :: "hash_fn \<Rightarrow> string \<Rightarrow> (time \<Rightarrow> time) \<Rightarrow> cp_view \<Rightarrow> bool" where
  "history_inv H sys col v \<longleftrightarrow> history_ok H sys col (fst v) \<and>
     (case fst v of [] \<Rightarrow> snd v = None
      | c # h \<Rightarrow> finalized c \<and> snd v = Some c \<or> snd v = head_of h)"

text \<open>
  What a call may do to a history: finalised checkpoints stay as they are, at most \<open>n\<close>
  checkpoints are added, and the current checkpoint does not go back.
\<close>

definition current_sequence :: "cp_view \<Rightarrow> int" where
  "current_sequence v = (case snd v of None \<Rightarrow> 0 | Some c \<Rightarrow> cpSequence c)"

definition advances :: "nat \<Rightarrow> cp_view \<Rightarrow> cp_view \<Rightarrow> bool" where
  "advances n v v' \<longleftrightarrow> {c \<in> set (fst v). finalized c} \<subseteq> set (fst v') \<and> length (fst v) \<le> length (fst v') \<and>
     length (fst v') \<le> length (fst v) + n \<and> current_sequence v \<le> current_sequence v'"

lemma advances_refl [simp]: "advances n v v"
  by (auto simp: advances_def)

lemma advances_trans: "advances m u v \<Longrightarrow> advances n v w \<Longrightarrow> advances (m + n) u w"
  unfolding advances_def by (intro conjI) (blast, linarith+)

lemma store_simps [simp]:
  "cpID (store col c) = cpID c" "cpSystemID (store col c) = cpSystemID c" "cpSequence (store col c) = cpSequence c"
  "cpLocatorTreeID (store col c) = cpLocatorTreeID c" "cpLocatorRoot (store col c) = cpLocatorRoot c"
  "cpGlobalHMFRoot (store col c) = cpGlobalHMFRoot c" "cpStateCommitment (store col c) = cpStateCommitment c"
  "cpStatus (store col c) = cpStatus c" "cpCreatedAt (store col c) = col (cpCreatedAt c)"
  by (simp_all add: store_def)

lemma pending_not_finalized: "pending c \<Longrightarrow> \<not> finalized c"
  by (auto simp: pending_def finalized_def)

lemma history_ok_sequences: "history_ok H sys col h \<Longrightarrow> c \<in> set h \<Longrightarrow> cpSequence c \<le> int (length h)"
  by (induction h) auto

lemma head_of_mem: "head_of xs = Some x \<Longrightarrow> x \<in> set xs"
  by (cases xs) (auto simp: head_of_def)

text \<open>Where the latest checkpoint is the current one, it is finalised.\<close>

lemma history_current:
  assumes "history_inv H sys col v" and "fst v = c # h" and "snd v = Some c"
  shows "valid_checkpoint H sys c \<and> finalized c"
proof -
  have ho: "history_ok H sys col (c # h)" and "finalized c \<and> snd v = Some c \<or> snd v = head_of h"
    using assms(1) unfolding history_inv_def assms(2) by (simp_all only: list.case)
  moreover have "cpSequence c = int (length h) + 1" "history_ok H sys col h" using ho by (simp_all only: history_ok.simps)
  then have "c \<notin> set h" using history_ok_sequences [of H sys col h c] by auto
  moreover have "head_of h \<noteq> Some c" using \<open>c \<notin> set h\<close> head_of_mem by metis
  ultimately show ?thesis using assms(3) by (metis history_ok.simps(2))
qed

lemma history_ok_valid: "history_ok H sys col h \<Longrightarrow> c \<in> set h \<Longrightarrow> valid_checkpoint H sys c \<and> store col c = c"
  by (induction h) auto

lemma valid_statusD:
  assumes "valid_checkpoint H sys c"
  shows "cpStatus c = StatusPending \<longleftrightarrow> pending c" and "cpStatus c = StatusFinalized \<longleftrightarrow> finalized c"
  using assms by (auto simp: valid_checkpoint_def pending_def finalized_def)

text \<open>Timestamps that survive a column: what the service's clock and its anchor have to deliver.\<close>

definition sane_time :: "(time \<Rightarrow> time) \<Rightarrow> time \<Rightarrow> bool" where
  "sane_time col t \<longleftrightarrow> \<not> IsZero t \<and> \<not> IsZero (col t)"

lemma store_pending:
  "pending c \<Longrightarrow> pending (store col c)"
  by (auto simp: pending_def store_def)

lemma store_finalized:
  assumes "finalized c" and "\<And>r. cpAnchor c = Some r \<Longrightarrow> \<not> IsZero (col (arAnchoredAt r))"
  shows "finalized (store col c)"
  using assms by (auto simp: finalized_def store_def valid_receipt_def)

lemma store_store: "(\<And>t. col (col t) = col t) \<Longrightarrow> store col (store col c) = store col c"
  by (cases "cpAnchor c"; cases "cpFinalizedAt c") (auto simp: store_def)

lemma store_fixed:
  assumes "store col d = d"
  shows "col (cpCreatedAt d) = cpCreatedAt d" and "cpAnchor d = Some x \<Longrightarrow> col (arAnchoredAt x) = arAnchoredAt x"
proof -
  show "col (cpCreatedAt d) = cpCreatedAt d" using arg_cong [OF assms, of cpCreatedAt] by simp
  assume "cpAnchor d = Some x"
  with arg_cong [OF assms, of cpAnchor] have "x\<lparr>arAnchoredAt := col (arAnchoredAt x)\<rparr> = x" by (simp add: store_def)
  from arg_cong [OF this, of arAnchoredAt] show "col (arAnchoredAt x) = arAnchoredAt x" by simp
qed

text \<open>The checkpoint that \<^verbatim>\<open>anchorAndPublish\<close> publishes.\<close>

definition finalize_with :: "AnchorReceipt \<Rightarrow> time \<Rightarrow> Checkpoint \<Rightarrow> Checkpoint" where
  "finalize_with receipt t c = c\<lparr>cpStatus := StatusFinalized, cpAnchor := Some receipt, cpFinalizedAt := Some t\<rparr>"

lemma finalize_with_simps [simp]:
  "cpID (finalize_with r t c) = cpID c" "cpSystemID (finalize_with r t c) = cpSystemID c"
  "cpSequence (finalize_with r t c) = cpSequence c" "cpCreatedAt (finalize_with r t c) = cpCreatedAt c"
  "cpStatus (finalize_with r t c) = StatusFinalized" "cpAnchor (finalize_with r t c) = Some r"
  "cpLocatorTreeID (finalize_with r t c) = cpLocatorTreeID c" "cpLocatorRoot (finalize_with r t c) = cpLocatorRoot c"
  "cpGlobalHMFRoot (finalize_with r t c) = cpGlobalHMFRoot c"
  "cpStateCommitment (finalize_with r t c) = cpStateCommitment c"
  by (simp_all add: finalize_with_def)

lemma finalized_finalize_with [simp]: "finalized (finalize_with r t c) \<longleftrightarrow> valid_receipt r"
  by (auto simp: finalized_def finalize_with_def)

lemma committed_cong:
  "cpSequence c = cpSequence d \<Longrightarrow> cpLocatorRoot c = cpLocatorRoot d \<Longrightarrow> cpGlobalHMFRoot c = cpGlobalHMFRoot d \<Longrightarrow>
     cpStateCommitment c = cpStateCommitment d \<Longrightarrow> committed H c = committed H d"
  by (simp add: committed_def)

text \<open>Publishing the finalised latest checkpoint keeps the invariant, whatever the write does.\<close>

lemma publish_history:
  assumes inv: "history_inv H sys col v" and v: "fst v = d # h"
    and c: "valid_checkpoint H sys c" "finalized c" "cpSequence c = cpSequence d"
      "\<not> IsZero (col (cpCreatedAt c))" "\<And>r. cpAnchor c = Some r \<Longrightarrow> \<not> IsZero (col (arAnchoredAt r))"
    and d: "pending d \<or> store col c = d" and cur: "snd v = head_of h"
    and col: "\<And>t. col (col t) = col t"
    and eff: "publish_effect col c v v' res"
  shows "history_inv H sys col v' \<and> advances 0 v v' \<and> (\<not> isl res \<longrightarrow> v' = (store col c # h, Some (store col c)))"
proof -
  let ?s = "store col c"
  have s: "finalized ?s" by (rule store_finalized) (use c in auto)
  have "committed H ?s" using c(1) by (simp add: valid_checkpoint_def committed_def)
  then have vs: "valid_checkpoint H sys ?s" using c(1,4) s by (simp add: valid_checkpoint_def)
  have ho: "history_ok H sys col (d # h)" using inv v by (simp add: history_inv_def)
  then have ho': "history_ok H sys col (?s # h)" using vs c(3) store_store [OF col] by simp
  have keep: "{x \<in> set (d # h). finalized x} \<subseteq> set (?s # h)" using d pending_not_finalized by auto
  have cs: "current_sequence v \<le> cpSequence d"
    using ho by (cases h) (auto simp: current_sequence_def cur head_of_def)
  from eff v consider "v' = v" "isl res" | "v' = (?s # h, snd v)" "isl res" | "v' = (?s # h, Some ?s)"
    by (auto simp: publish_effect_def)
  then show ?thesis
  proof cases
    case 1
    then show ?thesis using inv by (auto simp: advances_def)
  next
    case 2
    then show ?thesis using ho' keep v cur by (auto simp: history_inv_def advances_def current_sequence_def)
  next
    case 3
    then show ?thesis using ho' keep v cs s c(3) by (auto simp: history_inv_def advances_def current_sequence_def)
  qed
qed

section \<open>The contract of an anchor\<close>

text \<open>
  An anchor keeps the receipts it has given: committing the same value again returns the same
  receipt.
\<close>

locale anchor_provider =
  fixes commit :: "'a \<Rightarrow> hash \<Rightarrow> ('a, AnchorReceipt) outcome" and aok :: "'a \<Rightarrow> bool"
    and receipt_of :: "'a \<Rightarrow> hash \<rightharpoonup> AnchorReceipt" and col :: "time \<Rightarrow> time"
  assumes commit_law: "aok a \<Longrightarrow> commit a h = (a', res) \<Longrightarrow> aok a' \<and> receipt_of a \<subseteq>\<^sub>m receipt_of a' \<and>
      (\<forall>r. res = Inr r \<longrightarrow> receipt_of a' h = Some r)"
    and receipt_time: "aok a \<Longrightarrow> receipt_of a h = Some r \<Longrightarrow> sane_time col (arAnchoredAt r)"
begin

lemma commit_again:
  "aok a \<Longrightarrow> receipt_of a h = Some r \<Longrightarrow> commit a h = (a', Inr r') \<Longrightarrow> r' = r"
  using commit_law [of a h a' "Inr r'"] by (auto simp: map_le_def dom_def)

end

section \<open>The service\<close>

locale checkpoint_service = checkpoint_repository R sys ok view col + anchor_provider commit aok receipt_of col
  for R :: "'r Repository" and sys and ok and view and col
    and commit :: "'a \<Rightarrow> hash \<Rightarrow> ('a, AnchorReceipt) outcome" and aok and receipt_of +
  fixes svc :: "('r, 'a) CheckpointService"
  assumes svc_repo: "csRepo svc = R" and svc_system: "csSystemID svc = sys" and svc_anchor: "csAnchor svc = commit"
    and svc_clock: "sane_time col (csClock svc k)"
begin

definition good :: "hash_fn \<Rightarrow> ('r, 'a) service_state \<Rightarrow> bool" where
  "good H s \<longleftrightarrow> ok (ssRepo s) \<and> aok (ssAnchor s) \<and> history_inv H sys col (view (ssRepo s))"

text \<open>
  A call is accountable when it keeps the invariant and moves the history forward, and when its
  success means that the returned checkpoint is published.
\<close>

definition accountable ::
  "nat \<Rightarrow> hash_fn \<Rightarrow> ('r, 'a) service_state \<Rightarrow> (('r, 'a) service_state, Checkpoint) outcome \<Rightarrow> bool" where
  "accountable n H s = (\<lambda>(s', res). good H s' \<and> advances n (view (ssRepo s)) (view (ssRepo s')) \<and>
     receipt_of (ssAnchor s) \<subseteq>\<^sub>m receipt_of (ssAnchor s') \<and>
     (\<forall>c. res = Inr c \<longrightarrow> snd (view (ssRepo s')) = Some (store col c) \<and>
        latest_of (view (ssRepo s')) = Some (store col c)))"

lemma accountable_error:
  assumes "good H s'" and "view (ssRepo s') = view (ssRepo s)" and "receipt_of (ssAnchor s) \<subseteq>\<^sub>m receipt_of (ssAnchor s')"
  shows "accountable n H s (s', Inl e)"
  using assms by (simp add: accountable_def)

lemma accountable_step:
  assumes "advances m (view (ssRepo s)) (view (ssRepo s1))"
    and "receipt_of (ssAnchor s) \<subseteq>\<^sub>m receipt_of (ssAnchor s1)" and "accountable n H s1 p"
  shows "accountable (m + n) H s p"
  using assms by (auto simp: accountable_def intro: map_le_trans advances_trans)

lemmas accountable_read = accountable_step [where m = 0, simplified]

lemma publish_accountable:
  assumes good: "good H s" and v: "fst (view (ssRepo s)) = d # h" and cur: "snd (view (ssRepo s)) = head_of h"
    and c: "valid_checkpoint H sys c" "finalized c" "cpSequence c = cpSequence d" "cpID c = cpID d"
      "\<not> IsZero (col (cpCreatedAt c))" "\<And>r. cpAnchor c = Some r \<Longrightarrow> \<not> IsZero (col (arAnchoredAt r))"
    and d: "pending d \<or> store col c = d"
    and pub: "PublishFinalized R (ssRepo s) c = (r, res)"
    and s': "ssRepo s' = r" "aok (ssAnchor s')" "receipt_of (ssAnchor s) \<subseteq>\<^sub>m receipt_of (ssAnchor s')"
  shows "accountable 0 H s (s', rbind (rwrap m res) (\<lambda>_. Inr c))"
proof -
  have inv: "history_inv H sys col (view (ssRepo s))" and k: "ok (ssRepo s)" using good by (auto simp: good_def)
  have "history_ok H sys col (d # h)" using inv v by (simp add: history_inv_def)
  then have before: "\<forall>k. snd (view (ssRepo s)) = Some k \<longrightarrow> cpSequence k < cpSequence c"
    using cur c(3) by (cases h) (auto simp: head_of_def)
  have "ok r \<and> publish_effect col c (view (ssRepo s)) (view r) res"
    by (rule publish_law [OF k pub _ c(2), where d = d]) (use v c before in \<open>auto simp: valid_checkpoint_def latest_of_def\<close>)
  moreover from this have "history_inv H sys col (view r) \<and> advances 0 (view (ssRepo s)) (view r) \<and>
      (\<not> isl res \<longrightarrow> view r = (store col c # h, Some (store col c)))"
    by (intro publish_history [OF inv v c(1-3,5,6) d cur col_col]) auto
  ultimately show ?thesis
    using s' by (cases res) (auto simp: accountable_def good_def latest_of_def)
qed

lemma anchorAndPublish_accountable:
  assumes good: "good H s" and v: "fst (view (ssRepo s)) = d # h" and cur: "snd (view (ssRepo s)) = head_of h"
    and d: "pending d" "store col p = d" and p: "pending p" "valid_checkpoint H sys p"
  shows "accountable 0 H s (anchorAndPublish svc s p)"
proof -
  obtain a res where com: "commit (ssAnchor s) (cpStateCommitment p) = (a, res)" by fastforce
  have aok: "aok (ssAnchor s)" using good by (simp add: good_def)
  note law = commit_law [OF aok com]
  have d': "\<not> IsZero (col (cpCreatedAt p))"
    using history_ok_valid [of H sys col "d # h" d] good v d(2) by (auto simp: good_def history_inv_def valid_checkpoint_def)
  have good': "good H (s\<lparr>ssAnchor := a\<rparr>)" using good law by (simp add: good_def)
  show ?thesis
  proof (cases res)
    case (Inl e)
    then show ?thesis using good' law com
      by (simp add: anchorAndPublish_def svc_anchor accountable_error)
  next
    case (Inr receipt)
    show ?thesis
    proof (cases "valid_receipt receipt")
      case False
      then show ?thesis using good' law com Inr
        by (simp add: anchorAndPublish_def svc_anchor receipt_case accountable_error)
    next
      case True
      let ?t = "csClock svc (ssReadings s)"
      let ?c = "finalize_with receipt ?t p"
      obtain r pres where pub: "PublishFinalized R (ssRepo s) ?c = (r, pres)" by fastforce
      have sane: "sane_time col (arAnchoredAt receipt)" using law Inr receipt_time by blast
      have vc: "valid_checkpoint H sys ?c"
        using p(2) True committed_cong [of ?c p] by (simp add: valid_checkpoint_def)
      have eq: "anchorAndPublish svc s p = (\<lparr>ssRepo = r, ssAnchor = a, ssReadings = Suc (ssReadings s)\<rparr>,
          rbind (rwrap ''finalize checkpoint: publish finalized checkpoint: %w'' pres) (\<lambda>_. Inr ?c))"
        using com Inr True pub
        by (cases pres) (simp_all add: anchorAndPublish_def svc_anchor svc_repo receipt_case finalize_with_def)
      show ?thesis unfolding eq
      proof (rule publish_accountable [OF good v cur vc])
        show "cpSequence ?c = cpSequence d" "cpID ?c = cpID d" using d(2) by auto
      qed (use True d d' sane pub law in \<open>auto simp: sane_time_def\<close>)
    qed
  qed
qed

lemma recover_accountable:
  assumes good: "good H s" and v: "fst (view (ssRepo s)) = d # h" and cur: "snd (view (ssRepo s)) = head_of h"
    and d: "finalized d"
  shows "accountable 0 H s (recover_publication svc s d)"
proof -
  have h: "valid_checkpoint H sys d" "store col d = d"
    using good v by (auto simp: good_def history_inv_def)
  obtain r pres where pub: "PublishFinalized R (ssRepo s) d = (r, pres)" by fastforce
  have eq: "recover_publication svc s d = (s\<lparr>ssRepo := r\<rparr>,
      rbind (rwrap ''finalize checkpoint: recover finality publication: %w'' pres) (\<lambda>_. Inr d))"
    using pub by (cases pres) (simp_all add: recover_publication_def svc_repo)
  have times: "\<not> IsZero (col (cpCreatedAt d))" "cpAnchor d = Some x \<Longrightarrow> \<not> IsZero (col (arAnchoredAt x))" for x
    using h(1) d store_fixed [OF h(2)] by (auto simp: valid_checkpoint_def finalized_def valid_receipt_def)
  show ?thesis unfolding eq
    by (rule publish_accountable [OF good v cur h(1) d _ _ times _ pub]) (use h good in \<open>auto simp: good_def\<close>)
qed

text \<open>The pending checkpoint of a snapshot, before the repository names it.\<close>

definition snapshot_checkpoint :: "hash_fn \<Rightarrow> RootSnapshot \<Rightarrow> int \<Rightarrow> time \<Rightarrow> Checkpoint" where
  "snapshot_checkpoint H snapshot j t = \<lparr>cpID = '''', cpSystemID = sys, cpSequence = j,
     cpLocatorTreeID = rsLocatorTreeID snapshot, cpLocatorRoot = rsLocatorRoot snapshot,
     cpGlobalHMFRoot = rsGlobalHMFRoot snapshot,
     cpStateCommitment = H (state_input j (rsLocatorRoot snapshot) (rsGlobalHMFRoot snapshot)),
     cpStatus = StatusPending, cpAnchor = None, cpCreatedAt = t, cpFinalizedAt = None\<rparr>"

lemma snapshot_checkpoint_ok:
  assumes "0 < j" and "rsLocatorTreeID snapshot \<noteq> ''''" and "sane_time col t" and "i \<noteq> ''''"
  shows "pending ((snapshot_checkpoint H snapshot j t)\<lparr>cpID := i\<rparr>)"
    and "valid_checkpoint H sys ((snapshot_checkpoint H snapshot j t)\<lparr>cpID := i\<rparr>)"
    and "valid_checkpoint H sys (store col ((snapshot_checkpoint H snapshot j t)\<lparr>cpID := i\<rparr>))"
  using assms
  by (auto simp: snapshot_checkpoint_def valid_checkpoint_def pending_def committed_def sane_time_def store_def)

lemma new_checkpoint_accountable:
  assumes good: "good H s" and n: "latestSequence = int (length (fst (view (ssRepo s))))" "latestSequence < MaxInt64"
    and cur: "snd (view (ssRepo s)) = head_of (fst (view (ssRepo s)))"
    and fin: "\<forall>c \<in> set (fst (view (ssRepo s))). finalized c"
  shows "accountable 1 H s (new_checkpoint H svc source s latestSequence)"
proof (cases source)
  case (Inl e)
  then show ?thesis using good by (simp add: new_checkpoint_def accountable_error map_le_def)
next
  case (Inr snapshot)
  let ?j = "latestSequence + 1" and ?t = "csClock svc (ssReadings s)" and ?v = "view (ssRepo s)"
  let ?c = "snapshot_checkpoint H snapshot ?j ?t" and ?s1 = "s\<lparr>ssReadings := Suc (ssReadings s)\<rparr>"
  have j: "wrap64 ?j = ?j" "0 < ?j" "int64 (int (length (fst ?v)) + 1)" using n by (auto simp: int64_def)
  show ?thesis
  proof (cases "rsLocatorTreeID snapshot = ''''")
    case True
    then show ?thesis using Inr good by (simp add: new_checkpoint_def accountable_error map_le_def)
  next
    case tree: False
    note ok = snapshot_checkpoint_ok [OF j(2) tree svc_clock]
    obtain r res where save: "SavePending R (ssRepo s) ?c = (r, res)" by fastforce
    have pc: "pending ?c" "cpID ?c = ''''" "cpSystemID ?c = sys" "cpSequence ?c = ?j"
      by (simp_all add: snapshot_checkpoint_def pending_def)
    have inv: "history_inv H sys col ?v" and rok: "ok (ssRepo s)" using good by (auto simp: good_def)
    have ho: "history_ok H sys col (fst ?v)" using inv by (simp add: history_inv_def)
    have "\<forall>d \<in> set (fst ?v). cpSequence d < cpSequence ?c"
      using history_ok_sequences [OF ho] n(1) pc(4) by fastforce
    from save_law [OF rok save pc(3,2,1) this] have rok': "ok r" and eff: "save_effect col ?c ?v (view r) res" by auto
    let ?s2 = "?s1\<lparr>ssRepo := r\<rparr>"
    have body: "new_checkpoint H svc source s latestSequence =
      (case res of Inl e \<Rightarrow> (?s2, Inl (Wrap ''finalize checkpoint: persist pending checkpoint: %w'' e))
       | Inr p \<Rightarrow> (case validateStoredCheckpoint H p sys of
           Inl e \<Rightarrow> (?s2, Inl (Wrap ''finalize checkpoint: repository returned invalid pending checkpoint: %w'' e))
         | Inr _ \<Rightarrow> if cpStatus p \<noteq> StatusPending \<or> cpSequence p \<noteq> cpSequence ?c \<or>
             cpLocatorTreeID p \<noteq> cpLocatorTreeID ?c \<or> cpLocatorRoot p \<noteq> cpLocatorRoot ?c \<or>
             cpGlobalHMFRoot p \<noteq> cpGlobalHMFRoot ?c \<or> cpStateCommitment p \<noteq> cpStateCommitment ?c
           then (?s2, Inl (Errorf ''finalize checkpoint: repository changed pending checkpoint contents''))
           else anchorAndPublish svc ?s2 p))"
      using Inr tree j(1,2) save
      by (cases res) (auto simp: new_checkpoint_def StateCommitment_def snapshot_checkpoint_def svc_repo svc_system Let_def)
    from eff consider (none) e where "view r = ?v" "res = Inl e"
      | (error) i e where "i \<noteq> ''''" "view r = (store col (?c\<lparr>cpID := i\<rparr>) # fst ?v, snd ?v)" "res = Inl e"
      | (saved) i where "i \<noteq> ''''" "view r = (store col (?c\<lparr>cpID := i\<rparr>) # fst ?v, snd ?v)" "res = Inr (?c\<lparr>cpID := i\<rparr>)"
      by (auto simp: save_effect_def isl_def)
    note cases = this
    have grown: "good H ?s2 \<and> advances 1 ?v (view r)"
      if "i \<noteq> ''''" "view r = (store col (?c\<lparr>cpID := i\<rparr>) # fst ?v, snd ?v)" for i
    proof -
      have "history_ok H sys col (fst (view r))"
        using that ok(3) [OF that(1)] ho fin n(1) j(3) pc(4) store_store [OF col_col] by simp
      then show ?thesis using that rok' good cur fin
        by (auto simp: good_def history_inv_def advances_def current_sequence_def)
    qed
    show ?thesis
    proof (cases rule: cases [case_names none error saved])
      case none
      then show ?thesis using good rok' body by (simp add: accountable_error good_def map_le_def)
    next
      case error
      then show ?thesis using grown body by (simp add: accountable_def map_le_def)
    next
      case saved
      let ?p = "?c\<lparr>cpID := i\<rparr>"
      have eq: "new_checkpoint H svc source s latestSequence = anchorAndPublish svc ?s2 ?p"
        unfolding body saved(3) stored_case sum.case using ok(2) [OF saved(1)]
        by (simp add: snapshot_checkpoint_def)
      have "accountable 0 H ?s2 (anchorAndPublish svc ?s2 ?p)"
        by (rule anchorAndPublish_accountable [where d = "store col ?p" and h = "fst ?v"])
          (use grown [OF saved(1,2)] saved cur ok [OF saved(1)] store_pending in auto)
      then show ?thesis
        unfolding eq using grown [OF saved(1,2)] accountable_step [of 1 s ?s2 0] by (simp add: map_le_def)
    qed
  qed
qed

lemma Finalize_accountable:
  assumes good: "good H s"
  shows "accountable 1 H s (Finalize H svc source s)"
proof -
  let ?v = "view (ssRepo s)"
  obtain r res where lat: "LatestCheckpoint R (ssRepo s) sys = (r, res)" by fastforce
  have inv: "history_inv H sys col ?v" and rok: "ok (ssRepo s)" using good by (auto simp: good_def)
  note law = latest_law [OF rok lat]
  let ?s1 = "s\<lparr>ssRepo := r\<rparr>"
  have good1: "good H ?s1" using good law by (simp add: good_def)
  have v1: "view (ssRepo ?s1) = ?v" using law by simp
  have step: "accountable 1 H s p" if "accountable 1 H ?s1 p" for p
    by (rule accountable_read [OF _ _ that]) (use law in auto)
  have weaken: "accountable 1 H s' p" if "accountable 0 H s' p" for s' p
    using that by (auto simp: accountable_def advances_def)
  show ?thesis
  proof (cases res)
    case (Inl e)
    show ?thesis
    proof (cases "errors_Is e ErrNotFound")
      case True
      then have empty: "fst ?v = []" using law Inl by (simp add: lookup_answer_def latest_of_def split: list.splits)
      have "accountable 1 H ?s1 (new_checkpoint H svc source ?s1 0)"
        by (rule new_checkpoint_accountable [OF good1])
          (use empty inv v1 in \<open>auto simp: history_inv_def head_of_def\<close>)
      with step Inl True lat show ?thesis by (simp add: Finalize_def svc_repo svc_system)
    next
      case False
      then show ?thesis using Inl lat good1 law
        by (simp add: Finalize_def svc_repo svc_system accountable_error)
    qed
  next
    case (Inr d)
    then obtain h where v: "fst ?v = d # h" using law by (auto simp: lookup_answer_def latest_of_def split: list.splits)
    have ho: "history_ok H sys col (d # h)" using inv v by (simp add: history_inv_def)
    then have vd: "valid_checkpoint H sys d" and sd: "store col d = d" by auto
    note st = valid_statusD [OF vd]
    have fin: "finalized c" if "c \<in> set h" for c using that ho by simp
    have cv: "finalized d \<and> snd ?v = Some d \<or> snd ?v = head_of h" using inv v by (simp add: history_inv_def)
    have v1': "fst (view (ssRepo ?s1)) = d # h" using v v1 by simp
    show ?thesis
    proof (cases "pending d")
      case True
      then have cur: "snd (view (ssRepo ?s1)) = head_of h" using cv pending_not_finalized v1 by auto
      have "accountable 0 H ?s1 (anchorAndPublish svc ?s1 d)"
        by (rule anchorAndPublish_accountable [OF good1 v1' cur True sd True vd])
      with step weaken True st Inr lat vd show ?thesis
        by (simp add: Finalize_def svc_repo svc_system stored_case)
    next
      case np: False
      then have fd: "finalized d" using vd by (simp add: valid_checkpoint_def)
      have fs: "cpStatus d \<noteq> StatusPending" "cpStatus d = StatusFinalized" using st np fd by auto
      obtain r2 cres where curr: "CurrentFinalized R r sys = (r2, cres)" by fastforce
      have "ok r" using law by simp
      note law2 = current_law [OF this curr]
      let ?s2 = "s\<lparr>ssRepo := r2\<rparr>"
      have good2: "good H ?s2" using good1 law law2 by (simp add: good_def)
      have v2: "view (ssRepo ?s2) = ?v" using law law2 by simp
      then have v2': "fst (view (ssRepo ?s2)) = d # h" using v by simp
      have step2: "accountable 1 H s p" if "accountable n H ?s2 p" "n \<le> 1" for p n
        by (rule accountable_read [OF _ _ ]) (use law law2 that in \<open>auto simp: accountable_def advances_def\<close>)
      have recover: "accountable 0 H ?s2 (recover_publication svc ?s2 d)" if "snd ?v = head_of h"
        by (rule recover_accountable [OF good2 v2' _ fd]) (use that v2 in simp)
      have body: "Finalize H svc source s = (case cres of
          Inl e \<Rightarrow> if \<not> errors_Is e ErrNotFound
            then (?s2, Inl (Wrap ''finalize checkpoint: load current finality: %w'' e))
            else recover_publication svc ?s2 d
        | Inr c \<Rightarrow> (case check_current H sys d c of Inl e \<Rightarrow> (?s2, Inl e)
          | Inr _ \<Rightarrow> if cpSequence c < cpSequence d then recover_publication svc ?s2 d
            else if cpSequence d = MaxInt64
            then (?s2, Inl (Errorf ''finalize checkpoint: sequence exhausted''))
            else new_checkpoint H svc source ?s2 (cpSequence d)))"
        using lat Inr vd fs curr by (cases cres) (simp_all add: Finalize_def svc_repo svc_system stored_case Let_def split del: if_split)
      have err: "accountable 1 H s (?s2, Inl e)" for e
        by (rule accountable_error) (use good2 law law2 in auto)
      show ?thesis
      proof (cases cres)
        case (Inl e)
        show ?thesis
        proof (cases "errors_Is e ErrNotFound")
          case True
          then have "snd ?v = None" using law law2 Inl by (simp add: lookup_answer_def)
          then have "snd ?v = head_of h" using cv by auto
          from step2 [OF recover [OF this]] show ?thesis unfolding body using Inl True by simp
        next
          case False
          then show ?thesis unfolding body using Inl err by simp
        qed
      next
        case (Inr c)
        then have c: "snd ?v = Some c" using law law2 by (simp add: lookup_answer_def)
        show ?thesis
        proof (cases "check_current H sys d c")
          case (Inl e)
          then show ?thesis unfolding body using Inr err by simp
        next
          case ok: (Inr u)
          show ?thesis
          proof (cases "cpSequence c < cpSequence d")
            case True
            then have "snd ?v = head_of h" using cv c by auto
            from step2 [OF recover [OF this]] show ?thesis unfolding body using Inr ok True by simp
          next
            case False
            have "c = d"
            proof (rule ccontr)
              assume "c \<noteq> d"
              then have "head_of h = Some c" using cv c by auto
              then show False using False ho by (cases h) (auto simp: head_of_def)
            qed
            have "accountable 1 H s (new_checkpoint H svc source ?s2 (cpSequence d))" if "cpSequence d \<noteq> MaxInt64"
              by (rule step2 [OF new_checkpoint_accountable [OF good2] order_refl])
                (use that ho v2 v2' c \<open>c = d\<close> fd fin in \<open>auto simp: head_of_def int64_def\<close>)
            then show ?thesis unfolding body using Inr ok False err by simp
          qed
        qed
      qed
    qed
  qed
qed

end

end
