(* ===== verification/Cassandra.thy ===== *)
theory Cassandra
  imports HMF_Domain
begin

text \<open>
  What the repositories use of the database driver. The session is a parameter: what a timestamp
  column makes of an instant, and the UUID functions of the driver. A statement may be refused, or
  applied although the driver reports an error. The tables of a repository extend \<open>database\<close>, which
  holds the outcomes of the statements to come; once they are used up, every statement is applied.
\<close>

record cql =
  cqlTimestamp :: "time \<Rightarrow> time"
  UUIDFromTime :: "time \<Rightarrow> uuid"
  uuidString :: "uuid \<Rightarrow> string"
  ParseUUID :: "string \<Rightarrow> uuid result"

definition gocql_ErrNotFound :: error where
  "gocql_ErrNotFound = Sentinel ''not found''"

datatype statement_outcome = Applied | Refused error | Unacknowledged error

record database =
  dbOutcomes :: "statement_outcome list"

definition next_outcome :: "'t database_scheme \<Rightarrow> 't database_scheme \<times> statement_outcome" where
  "next_outcome db = (case dbOutcomes db of [] \<Rightarrow> (db, Applied) | o1 # os \<Rightarrow> (db\<lparr>dbOutcomes := os\<rparr>, o1))"

definition exec_statement ::
  "'t database_scheme \<Rightarrow> ('t database_scheme \<Rightarrow> 't database_scheme) \<Rightarrow> ('t database_scheme, unit) outcome" where
  "exec_statement db f = (case next_outcome db of
     (db', Applied) \<Rightarrow> (f db', Inr ()) | (db', Refused e) \<Rightarrow> (db', Inl e) | (db', Unacknowledged e) \<Rightarrow> (f db', Inl e))"

definition scan_row :: "'t database_scheme \<Rightarrow> 'row option \<Rightarrow> ('t database_scheme, 'row) outcome" where
  "scan_row db row = (case next_outcome db of
     (db', Applied) \<Rightarrow> (db', case row of None \<Rightarrow> Inl gocql_ErrNotFound | Some x \<Rightarrow> Inr x)
   | (db', Refused e) \<Rightarrow> (db', Inl e) | (db', Unacknowledged e) \<Rightarrow> (db', Inl e))"

text \<open>Two databases with the same tables.\<close>

definition same_tables :: "'t database_scheme \<Rightarrow> 't database_scheme \<Rightarrow> bool" where
  "same_tables db db' \<longleftrightarrow> database.more db' = database.more db"

lemma next_outcome_tables: "next_outcome db = (db', x) \<Longrightarrow> same_tables db db'"
  by (auto simp: next_outcome_def same_tables_def split: list.splits)

lemma no_fault [simp]:
  "dbOutcomes db = [] \<Longrightarrow> exec_statement db f = (f db, Inr ())"
  "dbOutcomes db = [] \<Longrightarrow> scan_row db row = (db, case row of None \<Rightarrow> Inl gocql_ErrNotFound | Some x \<Rightarrow> Inr x)"
  by (simp_all add: exec_statement_def scan_row_def next_outcome_def)

lemma scan_row_Inr: "scan_row db row = (db', Inr x) \<Longrightarrow> row = Some x \<and> same_tables db db'"
  by (auto simp: scan_row_def next_outcome_tables split: prod.splits statement_outcome.splits option.splits)

lemma scan_row_tables: "scan_row db row = (db', res) \<Longrightarrow> same_tables db db'"
  by (auto simp: scan_row_def next_outcome_tables split: prod.splits statement_outcome.splits)

text \<open>A query that returns the rows it finds.\<close>

definition scan_rows :: "'t database_scheme \<Rightarrow> 'row list \<Rightarrow> ('t database_scheme, 'row list) outcome" where
  "scan_rows db rows = scan_row db (Some rows)"

lemma same_tables_refl [simp]: "same_tables db db"
  by (simp add: same_tables_def)

lemma same_tables_trans: "same_tables a b \<Longrightarrow> same_tables b c \<Longrightarrow> same_tables a c"
  by (simp add: same_tables_def)

lemma exec_statement_Inr: "exec_statement db f = (db', Inr u) \<Longrightarrow> \<exists>db0. same_tables db db0 \<and> db' = f db0"
  using next_outcome_tables by (fastforce simp: exec_statement_def split: prod.splits statement_outcome.splits)

section \<open>Batches by partition\<close>

text \<open>Concurrent batches run in some order.\<close>

definition arranges :: "('a list \<Rightarrow> 'a list) \<Rightarrow> bool" where
  "arranges f \<longleftrightarrow> (\<forall>xs. mset (f xs) = mset xs)"

text \<open>Rows grouped by a partition key, in the order of their first row.\<close>

definition group_rows :: "('row \<Rightarrow> 'key) \<Rightarrow> 'row list \<Rightarrow> ('key, 'row list) gomap" where
  "group_rows key rows = foldl (\<lambda>m row. gm_put (key row) (gm_get [] (map_of m) (key row) @ [row]) m) [] rows"

lemma group_rows_wf: "gm_wf (group_rows key rows)"
  by (induction rows rule: rev_induct) (simp_all add: group_rows_def)

lemma group_rows_get: "gm_get [] (map_of (group_rows key rows)) k = filter (\<lambda>row. key row = k) rows"
  by (induction rows rule: rev_induct) (auto simp: group_rows_def gm_get_def)

lemma group_rows_keys: "set (gm_keys (group_rows key rows)) = key ` set rows"
  by (induction rows rule: rev_induct) (simp_all add: group_rows_def dom_update)

lemma group_rows_member: "(k, rs) \<in> set (group_rows key rows) \<longleftrightarrow> k \<in> key ` set rows \<and> rs = filter (\<lambda>row. key row = k) rows"
proof
  assume m: "(k, rs) \<in> set (group_rows key rows)"
  then have "map_of (group_rows key rows) k = Some rs" using group_rows_wf [of key rows] by (simp add: gm_wf_def)
  moreover have "k \<in> key ` set rows" using m group_rows_keys [of key rows] by force
  ultimately show "k \<in> key ` set rows \<and> rs = filter (\<lambda>row. key row = k) rows" using group_rows_get [of key rows k] by (simp add: gm_get_def)
next
  assume k: "k \<in> key ` set rows \<and> rs = filter (\<lambda>row. key row = k) rows"
  then obtain rs' where rs': "(k, rs') \<in> set (group_rows key rows)" using group_rows_keys [of key rows] by (metis (no_types) imageE list.set_map prod.collapse)
  then have "map_of (group_rows key rows) k = Some rs'" using group_rows_wf [of key rows] by (simp add: gm_wf_def)
  then show "(k, rs) \<in> set (group_rows key rows)" using rs' k group_rows_get [of key rows k] by (simp add: gm_get_def)
qed

text \<open>What the last row for a key is depends on the rows with that key only.\<close>

lemma map_of_rev_filter: "map_of (rev (map (\<lambda>r. (K r, V r)) rs)) x = map_option V (if filter (\<lambda>r. K r = x) rs = [] then None else Some (last (filter (\<lambda>r. K r = x) rs)))"
  by (induction rs rule: rev_induct) auto

lemma concat_single: "distinct L \<Longrightarrow> p \<in> set L \<Longrightarrow> (\<And>q. q \<in> set L \<Longrightarrow> q \<noteq> p \<Longrightarrow> g q = []) \<Longrightarrow> concat (map g L) = g p"
proof (induction L)
  case (Cons q L)
  show ?case
  proof (cases "q = p")
    case True
    then have "concat (map g L) = []" using Cons.prems by (auto simp: concat_eq_Nil_conv)
    with True show ?thesis by simp
  next
    case False
    then show ?thesis using Cons by auto
  qed
qed simp

lemma arranged_groups:
  assumes "arranges f" and "\<And>r s. K r = K s \<Longrightarrow> key r = key s"
  shows "map_of (rev (map (\<lambda>r. (K r, V r)) (concat (map snd (f (group_rows key rows)))))) = map_of (rev (map (\<lambda>r. (K r, V r)) rows))"
proof
  fix x
  let ?L = "f (group_rows key rows)" and ?g = "\<lambda>p. filter (\<lambda>r. K r = x) (snd p)"
  have ms: "mset ?L = mset (group_rows key rows)" using assms(1) by (simp add: arranges_def)
  then have L: "set ?L = set (group_rows key rows)" by (metis set_mset_mset)
  have d: "distinct ?L"
    using ms group_rows_wf [of key rows] by (metis distinct_map gm_wf_def mset_eq_imp_distinct_iff)
  have "filter (\<lambda>r. K r = x) (concat (map snd ?L)) = filter (\<lambda>r. K r = x) rows"
  proof (cases "\<exists>r \<in> set rows. K r = x")
    case False
    moreover have "set (concat (map snd ?L)) \<subseteq> set rows" unfolding set_concat using L by (auto simp: group_rows_member)
    ultimately show ?thesis by (auto simp: filter_empty_conv)
  next
    case True
    then obtain r where r: "r \<in> set rows" "K r = x" by blast
    let ?p = "(key r, filter (\<lambda>row. key row = key r) rows)"
    have "concat (map ?g ?L) = ?g ?p"
    proof (rule concat_single [OF d])
      show "?p \<in> set ?L" using L r(1) by (simp add: group_rows_member)
      show "?g q = []" if "q \<in> set ?L" "q \<noteq> ?p" for q
      proof -
        obtain k rs where q: "q = (k, rs)" by fastforce
        then have k: "rs = filter (\<lambda>row. key row = k) rows" "k \<noteq> key r" using that L by (auto simp: group_rows_member)
        have "K s \<noteq> x" if "s \<in> set rs" for s using that k assms(2) [of s r] r(2) by auto
        then show ?thesis by (simp add: q filter_empty_conv)
      qed
    qed
    moreover have "(\<lambda>s. key s = key r \<and> K s = x) = (\<lambda>s. K s = x)" using r(2) assms(2) by (intro ext) metis
    then have "?g ?p = filter (\<lambda>r. K r = x) rows" by simp
    ultimately show ?thesis by (simp add: filter_concat comp_def)
  qed
  then show "map_of (rev (map (\<lambda>r. (K r, V r)) (concat (map snd ?L)))) x = map_of (rev (map (\<lambda>r. (K r, V r)) rows)) x"
    unfolding map_of_rev_filter by simp
qed

end
