(* ===== verification/Checkpoint_Store.thy ===== *)
theory Checkpoint_Store
  imports Checkpoint_History Cassandra
begin

text \<open>
  \<^verbatim>\<open>internal/storage/cassandra/checkpoint_repo.go\<close> and \<^verbatim>\<open>checkpoint_store.go\<close>: the repository of the
  checkpoint service over two Cassandra tables, and \<^verbatim>\<open>internal/checkpoint/mock_anchor.go\<close>. The
  statements may fail in the two ways of theory \<open>Cassandra\<close>.
\<close>

section \<open>The tables\<close>

record CheckpointRoot =
  crSystemID :: string
  crCheckpointID :: uuid
  crCheckpointSequence :: int
  crLocatorRoot :: "byte list"
  crGlobalHMFRoot :: "byte list"
  crStateCommitment :: "byte list"
  crBlockchainTxHash :: "string option"
  crBlockchainBlockHeight :: "int option"
  crAnchoredAt :: "time option"
  crFinalizedAt :: "time option"
  crCreatedAt :: time

record FinalityState =
  fsSystemID :: string
  fsFinalizedCheckpointID :: uuid
  fsCheckpointSequence :: int
  fsLocatorTreeID :: string
  fsLocatorRoot :: "byte list"
  fsGlobalHMFRoot :: "byte list"
  fsStateCommitment :: "byte list"
  fsBlockchainTxHash :: string
  fsBlockchainBlockHeight :: int
  fsAnchoredAt :: time
  fsFinalizedAt :: time
  fsUpdatedAt :: time

text \<open>
  \<^verbatim>\<open>checkpoint_roots\<close> is partitioned by system and clustered by descending sequence;
  \<^verbatim>\<open>finality_state\<close> has one row per system.
\<close>

record checkpoint_db = database +
  dbRoots :: "string \<Rightarrow> CheckpointRoot list"
  dbFinality :: "string \<rightharpoonup> FinalityState"

section \<open>The statements\<close>

fun put_row :: "CheckpointRoot \<Rightarrow> CheckpointRoot list \<Rightarrow> CheckpointRoot list" where
  "put_row row [] = [row]"
| "put_row row (x # xs) =
     (if crCheckpointSequence x < crCheckpointSequence row then row # x # xs
      else if crCheckpointSequence x = crCheckpointSequence row then row # xs else x # put_row row xs)"

definition column_row :: "cql \<Rightarrow> CheckpointRoot \<Rightarrow> CheckpointRoot" where
  "column_row cq row = row\<lparr>crAnchoredAt := map_option (cqlTimestamp cq) (crAnchoredAt row),
     crFinalizedAt := map_option (cqlTimestamp cq) (crFinalizedAt row), crCreatedAt := cqlTimestamp cq (crCreatedAt row)\<rparr>"

definition column_state :: "cql \<Rightarrow> FinalityState \<Rightarrow> FinalityState" where
  "column_state cq st = st\<lparr>fsAnchoredAt := cqlTimestamp cq (fsAnchoredAt st),
     fsFinalizedAt := cqlTimestamp cq (fsFinalizedAt st), fsUpdatedAt := cqlTimestamp cq (fsUpdatedAt st)\<rparr>"

definition UpsertCheckpoint :: "cql \<Rightarrow> checkpoint_db \<Rightarrow> CheckpointRoot \<Rightarrow> (checkpoint_db, unit) outcome" where
  "UpsertCheckpoint cq db row = swrap ''upsert checkpoint %s: %w''
     (exec_statement db (\<lambda>db. db\<lparr>dbRoots := (dbRoots db)(crSystemID row :=
        put_row (column_row cq row) (dbRoots db (crSystemID row)))\<rparr>))"

definition GetCheckpoint :: "checkpoint_db \<Rightarrow> string \<Rightarrow> int \<Rightarrow> (checkpoint_db, CheckpointRoot) outcome" where
  "GetCheckpoint db systemID sequence = swrap ''get checkpoint %d: %w''
     (scan_row db (find (\<lambda>row. crCheckpointSequence row = sequence) (dbRoots db systemID)))"

definition GetLatestCheckpoint :: "checkpoint_db \<Rightarrow> string \<Rightarrow> (checkpoint_db, CheckpointRoot) outcome" where
  "GetLatestCheckpoint db systemID = swrap ''get latest checkpoint: %w''
     (scan_row db (head_of (dbRoots db systemID)))"

definition UpsertFinalityState :: "cql \<Rightarrow> checkpoint_db \<Rightarrow> FinalityState \<Rightarrow> (checkpoint_db, unit) outcome" where
  "UpsertFinalityState cq db st = swrap ''upsert finality state %s: %w''
     (exec_statement db (\<lambda>db. db\<lparr>dbFinality := (dbFinality db)(fsSystemID st \<mapsto> column_state cq st)\<rparr>))"

definition GetFinalityState :: "checkpoint_db \<Rightarrow> string \<Rightarrow> (checkpoint_db, FinalityState) outcome" where
  "GetFinalityState db systemID = swrap ''get finality state %s: %w'' (scan_row db (dbFinality db systemID))"

section \<open>The store\<close>

definition checkpointHash :: "byte list \<Rightarrow> hash result" where
  "checkpointHash value = (if length value \<noteq> 32 then Inl (Errorf ''hash has %d bytes, want 32'')
     else Inr (hash_of_bytes value))"

definition checkpointBytes :: "hash \<Rightarrow> byte list" where
  "checkpointBytes value = hash_bytes value"

definition checkpointStoreError :: "error \<Rightarrow> error" where
  "checkpointStoreError e = (if errors_Is e gocql_ErrNotFound then ErrNotFound else e)"

definition checkpointFromRow :: "cql \<Rightarrow> CheckpointRoot \<Rightarrow> string \<Rightarrow> Checkpoint result" where
  "checkpointFromRow cq row locatorTreeID =
     rbind (rwrap ''decode locator root: %w'' (checkpointHash (crLocatorRoot row))) (\<lambda>locatorRoot.
     rbind (rwrap ''decode global HMF root: %w'' (checkpointHash (crGlobalHMFRoot row))) (\<lambda>globalRoot.
     rbind (rwrap ''decode state commitment: %w'' (checkpointHash (crStateCommitment row))) (\<lambda>commitment.
     let result = \<lparr>cpID = uuidString cq (crCheckpointID row), cpSystemID = crSystemID row,
           cpSequence = crCheckpointSequence row, cpLocatorTreeID = locatorTreeID, cpLocatorRoot = locatorRoot,
           cpGlobalHMFRoot = globalRoot, cpStateCommitment = commitment, cpStatus = StatusPending,
           cpAnchor = None, cpCreatedAt = crCreatedAt row, cpFinalizedAt = None\<rparr>
     in case (crBlockchainTxHash row, crBlockchainBlockHeight row, crAnchoredAt row, crFinalizedAt row) of
          (None, None, None, None) \<Rightarrow> Inr result
        | (Some tx, Some height, Some anchoredAt, Some finalizedAt) \<Rightarrow>
            Inr (result\<lparr>cpStatus := StatusFinalized,
              cpAnchor := Some \<lparr>arTransactionHash = tx, arBlockHeight = height, arAnchoredAt = anchoredAt\<rparr>,
              cpFinalizedAt := Some finalizedAt\<rparr>)
        | _ \<Rightarrow> Inl (Errorf ''decode checkpoint: partial finality metadata''))))"

definition Store_LatestCheckpoint :: "cql \<Rightarrow> string \<Rightarrow> checkpoint_db \<Rightarrow> string \<Rightarrow> (checkpoint_db, Checkpoint) outcome" where
  "Store_LatestCheckpoint cq tree db systemID =
     (case GetLatestCheckpoint db systemID of
        (db', Inl e) \<Rightarrow> (db', Inl (checkpointStoreError e))
      | (db', Inr row) \<Rightarrow> (db', checkpointFromRow cq row tree))"

text \<open>The comparison of the finality row with the checkpoint row it names.\<close>

definition finality_agrees :: "string \<Rightarrow> FinalityState \<Rightarrow> CheckpointRoot \<Rightarrow> bool" where
  "finality_agrees tree st row \<longleftrightarrow>
     crBlockchainTxHash row \<noteq> None \<and> crBlockchainBlockHeight row \<noteq> None \<and> crAnchoredAt row \<noteq> None \<and>
     crFinalizedAt row \<noteq> None \<and> crCheckpointID row = fsFinalizedCheckpointID st \<and> fsLocatorTreeID st = tree \<and>
     crLocatorRoot row = fsLocatorRoot st \<and> crGlobalHMFRoot row = fsGlobalHMFRoot st \<and>
     crStateCommitment row = fsStateCommitment st \<and> crBlockchainTxHash row = Some (fsBlockchainTxHash st) \<and>
     crBlockchainBlockHeight row = Some (fsBlockchainBlockHeight st) \<and> crAnchoredAt row = Some (fsAnchoredAt st) \<and>
     crFinalizedAt row = Some (fsFinalizedAt st)"

definition Store_CurrentFinalized :: "cql \<Rightarrow> string \<Rightarrow> checkpoint_db \<Rightarrow> string \<Rightarrow> (checkpoint_db, Checkpoint) outcome" where
  "Store_CurrentFinalized cq tree db systemID =
     (case GetFinalityState db systemID of
        (db1, Inl e) \<Rightarrow> (db1, Inl (checkpointStoreError e))
      | (db1, Inr st) \<Rightarrow>
          (case GetCheckpoint db1 systemID (fsCheckpointSequence st) of
             (db2, Inl e) \<Rightarrow> (db2, Inl (checkpointStoreError e))
           | (db2, Inr row) \<Rightarrow>
               if \<not> finality_agrees tree st row
               then (db2, Inl (Errorf ''current checkpoint: finality state conflicts with checkpoint history''))
               else (db2, checkpointFromRow cq row (fsLocatorTreeID st))))"

definition pending_row :: "Checkpoint \<Rightarrow> uuid \<Rightarrow> CheckpointRoot" where
  "pending_row value checkpointID = \<lparr>crSystemID = cpSystemID value, crCheckpointID = checkpointID,
     crCheckpointSequence = cpSequence value, crLocatorRoot = checkpointBytes (cpLocatorRoot value),
     crGlobalHMFRoot = checkpointBytes (cpGlobalHMFRoot value),
     crStateCommitment = checkpointBytes (cpStateCommitment value), crBlockchainTxHash = None,
     crBlockchainBlockHeight = None, crAnchoredAt = None, crFinalizedAt = None, crCreatedAt = cpCreatedAt value\<rparr>"

definition Store_SavePending :: "cql \<Rightarrow> string \<Rightarrow> checkpoint_db \<Rightarrow> Checkpoint \<Rightarrow> (checkpoint_db, Checkpoint) outcome" where
  "Store_SavePending cq tree db value =
     (if cpStatus value \<noteq> StatusPending \<or> cpAnchor value \<noteq> None \<or> cpFinalizedAt value \<noteq> None
      then (db, Inl (Errorf ''save pending checkpoint: value is not pending''))
      else if cpLocatorTreeID value \<noteq> tree
      then (db, Inl (Errorf ''save pending checkpoint: locator tree ID does not match store configuration''))
      else case (if cpID value \<noteq> '''' then rwrap ''save pending checkpoint: parse ID: %w'' (ParseUUID cq (cpID value))
                 else Inr (UUIDFromTime cq (cpCreatedAt value))) of
        Inl e \<Rightarrow> (db, Inl e)
      | Inr checkpointID \<Rightarrow>
          sbind (UpsertCheckpoint cq db (pending_row value checkpointID)) (\<lambda>db' _.
          (db', Inr (value\<lparr>cpID := uuidString cq checkpointID\<rparr>))))"

definition Store_PublishFinalized :: "cql \<Rightarrow> string \<Rightarrow> checkpoint_db \<Rightarrow> Checkpoint \<Rightarrow> (checkpoint_db, unit) outcome" where
  "Store_PublishFinalized cq tree db value =
     (case (cpAnchor value, cpFinalizedAt value) of
        (Some receipt, Some finalizedAt) \<Rightarrow>
          if cpStatus value \<noteq> StatusFinalized
          then (db, Inl (Errorf ''publish finalized checkpoint: finality metadata is incomplete''))
          else if cpLocatorTreeID value \<noteq> tree
          then (db, Inl (Errorf ''publish finalized checkpoint: locator tree ID does not match store configuration''))
          else (case rwrap ''publish finalized checkpoint: parse ID: %w'' (ParseUUID cq (cpID value)) of
             Inl e \<Rightarrow> (db, Inl e)
           | Inr checkpointID \<Rightarrow>
             sbind (UpsertCheckpoint cq db ((pending_row value checkpointID)
               \<lparr>crBlockchainTxHash := Some (arTransactionHash receipt),
                crBlockchainBlockHeight := Some (arBlockHeight receipt),
                crAnchoredAt := Some (arAnchoredAt receipt), crFinalizedAt := Some finalizedAt\<rparr>)) (\<lambda>db' _.
             UpsertFinalityState cq db' \<lparr>fsSystemID = cpSystemID value, fsFinalizedCheckpointID = checkpointID,
               fsCheckpointSequence = cpSequence value, fsLocatorTreeID = cpLocatorTreeID value,
               fsLocatorRoot = checkpointBytes (cpLocatorRoot value),
               fsGlobalHMFRoot = checkpointBytes (cpGlobalHMFRoot value),
               fsStateCommitment = checkpointBytes (cpStateCommitment value),
               fsBlockchainTxHash = arTransactionHash receipt, fsBlockchainBlockHeight = arBlockHeight receipt,
               fsAnchoredAt = arAnchoredAt receipt, fsFinalizedAt = finalizedAt, fsUpdatedAt = finalizedAt\<rparr>))
      | _ \<Rightarrow> (db, Inl (Errorf ''publish finalized checkpoint: finality metadata is incomplete'')))"

definition CheckpointStore :: "cql \<Rightarrow> string \<Rightarrow> checkpoint_db Repository" where
  "CheckpointStore cq tree = \<lparr>LatestCheckpoint = Store_LatestCheckpoint cq tree,
     CurrentFinalized = Store_CurrentFinalized cq tree, SavePending = Store_SavePending cq tree,
     PublishFinalized = Store_PublishFinalized cq tree\<rparr>"

definition NewCheckpointStore :: "cql option \<Rightarrow> string \<Rightarrow> checkpoint_db Repository result" where
  "NewCheckpointStore session locatorTreeID =
     (case session of None \<Rightarrow> Inl (Errorf ''new checkpoint store: Cassandra session is nil'')
      | Some cq \<Rightarrow>
        if locatorTreeID = '''' then Inl (Errorf ''new checkpoint store: locator tree ID is required'')
        else Inr (CheckpointStore cq locatorTreeID))"

section \<open>The mock anchor\<close>

record MockAnchor =
  maNextBlock :: int
  maReceipts :: "hash \<rightharpoonup> AnchorReceipt"
  maCommitCount :: int
  maClock :: "int \<Rightarrow> time"

text \<open>The anchor reads its clock once per new commitment: \<open>maClock n\<close> is the reading at the count \<open>n\<close>.\<close>

definition NewMockAnchor :: "(int \<Rightarrow> time) \<Rightarrow> int \<Rightarrow> MockAnchor" where
  "NewMockAnchor clock startBlockHeight =
     \<lparr>maNextBlock = (if startBlockHeight < 0 then 0 else startBlockHeight), maReceipts = Map.empty,
      maCommitCount = 0, maClock = clock\<rparr>"

definition hex_digit :: "nat \<Rightarrow> char" where
  "hex_digit n = ''0123456789abcdef'' ! n"

definition hex_EncodeToString :: "byte list \<Rightarrow> string" where
  "hex_EncodeToString bs = concat (map (\<lambda>b. [hex_digit (unat b div 16), hex_digit (unat b mod 16)]) bs)"

text \<open>\<open>ctxErr\<close> is \<^verbatim>\<open>ctx.Err()\<close>.\<close>

definition MockAnchor_Commit :: "hash_fn \<Rightarrow> error option \<Rightarrow> MockAnchor \<Rightarrow> hash \<Rightarrow> (MockAnchor, AnchorReceipt) outcome" where
  "MockAnchor_Commit H ctxErr anchor commitment =
     (case ctxErr of Some e \<Rightarrow> (anchor, Inl e)
      | None \<Rightarrow>
        (case maReceipts anchor commitment of Some receipt \<Rightarrow> (anchor, Inr receipt)
         | None \<Rightarrow>
           let receipt = \<lparr>arTransactionHash = ''0x'' @ hex_EncodeToString (hash_bytes
                 (H (string_bytes ''MOCK_ETH_TX'' @ hash_bytes commitment))),
               arBlockHeight = maNextBlock anchor, arAnchoredAt = maClock anchor (maCommitCount anchor)\<rparr>
           in (anchor\<lparr>maNextBlock := wrap64 (maNextBlock anchor + 1), maCommitCount := wrap64 (maCommitCount anchor + 1),
                 maReceipts := (maReceipts anchor)(commitment \<mapsto> receipt)\<rparr>, Inr receipt)))"

definition MockAnchor_Receipt :: "MockAnchor \<Rightarrow> hash \<Rightarrow> AnchorReceipt option" where
  "MockAnchor_Receipt anchor commitment = maReceipts anchor commitment"

definition MockAnchor_CommitCount :: "MockAnchor \<Rightarrow> int" where
  "MockAnchor_CommitCount anchor = maCommitCount anchor"

section \<open>The store keeps the contract of a repository\<close>

text \<open>An error the driver reports for a failed statement is not one of the two not-found values.\<close>

definition fault :: "error \<Rightarrow> bool" where
  "fault e \<longleftrightarrow> \<not> errors_Is e gocql_ErrNotFound \<and> \<not> errors_Is e ErrNotFound"

primrec outcome_ok :: "statement_outcome \<Rightarrow> bool" where
  "outcome_ok Applied \<longleftrightarrow> True"
| "outcome_ok (Refused e) \<longleftrightarrow> fault e"
| "outcome_ok (Unacknowledged e) \<longleftrightarrow> fault e"

definition faults_ok :: "checkpoint_db \<Rightarrow> bool" where
  "faults_ok db \<longleftrightarrow> (\<forall>x \<in> set (dbOutcomes db). outcome_ok x)"

lemma same_tables_iff: "same_tables (db :: checkpoint_db) db' \<longleftrightarrow> dbRoots db' = dbRoots db \<and> dbFinality db' = dbFinality db"
  by (cases db; cases db') (auto simp: same_tables_def)

lemma next_outcome_law:
  "next_outcome db = (db', x) \<Longrightarrow> faults_ok db \<Longrightarrow> same_tables db db' \<and> faults_ok db' \<and> outcome_ok x"
  by (auto simp: next_outcome_def faults_ok_def same_tables_iff split: list.splits)

lemma errors_Is_simps [simp]:
  "errors_Is gocql_ErrNotFound gocql_ErrNotFound" "errors_Is ErrNotFound ErrNotFound"
  "\<not> errors_Is (Errorf m) ErrNotFound" "errors_Is (Wrap m e) ErrNotFound \<longleftrightarrow> errors_Is e ErrNotFound"
  "errors_Is (Wrap m e) gocql_ErrNotFound \<longleftrightarrow> errors_Is e gocql_ErrNotFound"
  "Wrap m e \<noteq> gocql_ErrNotFound" "Wrap m e \<noteq> ErrNotFound"
  by (simp_all add: gocql_ErrNotFound_def ErrNotFound_def)

lemma checkpointStoreError_Is [simp]:
  "errors_Is (checkpointStoreError e) ErrNotFound \<longleftrightarrow> errors_Is e gocql_ErrNotFound \<or> errors_Is e ErrNotFound"
  by (auto simp: checkpointStoreError_def)

text \<open>A read does not change the tables, and answers \<open>not found\<close> only when there is no row.\<close>

lemma scan_law:
  assumes "swrap m (scan_row db row) = (db', res)" and "faults_ok db"
  shows "same_tables db db'" and "faults_ok db'" and "res = Inr x \<Longrightarrow> row = Some x"
    and "res = Inl e \<Longrightarrow> errors_Is e gocql_ErrNotFound \<or> errors_Is e ErrNotFound \<Longrightarrow> row = None"
proof -
  obtain d q where n: "next_outcome db = (d, q)" by fastforce
  note law = next_outcome_law [OF n assms(2)]
  from assms(1) n law show "same_tables db db'" "faults_ok db'"
    by (auto simp: swrap_def scan_row_def split: statement_outcome.splits)
  from assms(1) n show "res = Inr x \<Longrightarrow> row = Some x"
    by (auto simp: swrap_def scan_row_def split: statement_outcome.splits option.splits)
  from assms(1) n law show "res = Inl e \<Longrightarrow> errors_Is e gocql_ErrNotFound \<or> errors_Is e ErrNotFound \<Longrightarrow> row = None"
    by (auto simp: swrap_def scan_row_def fault_def split: statement_outcome.splits option.splits)
qed

lemma exec_law:
  assumes "swrap m (exec_statement db f) = (db', res)" and "faults_ok db"
  obtains db0 where "same_tables db db0" and "faults_ok db0" and "db' = db0 \<and> isl res \<or> db' = f db0"
proof -
  obtain d q where n: "next_outcome db = (d, q)" by fastforce
  with next_outcome_law [OF n assms(2)] assms(1) that [of d] show thesis
    by (cases q) (auto simp: swrap_def exec_statement_def)
qed

definition row_ok :: "string \<Rightarrow> CheckpointRoot \<Rightarrow> bool" where
  "row_ok sys row \<longleftrightarrow> crSystemID row = sys \<and> length (crLocatorRoot row) = 32 \<and> length (crGlobalHMFRoot row) = 32 \<and>
     length (crStateCommitment row) = 32 \<and>
     (crBlockchainTxHash row = None \<longleftrightarrow> crFinalizedAt row = None) \<and>
     (crBlockchainBlockHeight row = None \<longleftrightarrow> crFinalizedAt row = None) \<and>
     (crAnchoredAt row = None \<longleftrightarrow> crFinalizedAt row = None)"

text \<open>
  A database in order: rows that decode, clustered by descending sequence, and a finality row that
  agrees with the checkpoint row it names.
\<close>

definition store_ok :: "string \<Rightarrow> string \<Rightarrow> checkpoint_db \<Rightarrow> bool" where
  "store_ok tree sys db \<longleftrightarrow> faults_ok db \<and> (\<forall>row \<in> set (dbRoots db sys). row_ok sys row) \<and>
     sorted_wrt (\<lambda>a b. crCheckpointSequence b < crCheckpointSequence a) (dbRoots db sys) \<and>
     (\<forall>st. dbFinality db sys = Some st \<longrightarrow> (\<exists>row \<in> set (dbRoots db sys).
        crCheckpointSequence row = fsCheckpointSequence st \<and> finality_agrees tree st row))"

definition decode :: "cql \<Rightarrow> string \<Rightarrow> CheckpointRoot \<Rightarrow> Checkpoint" where
  "decode cq tree row = projr (checkpointFromRow cq row tree)"

definition row_at :: "CheckpointRoot list \<Rightarrow> int \<Rightarrow> CheckpointRoot option" where
  "row_at rows j = find (\<lambda>row. crCheckpointSequence row = j) rows"

definition store_view :: "cql \<Rightarrow> string \<Rightarrow> string \<Rightarrow> checkpoint_db \<Rightarrow> cp_view" where
  "store_view cq tree sys db = (map (decode cq tree) (dbRoots db sys),
     case dbFinality db sys of None \<Rightarrow> None
     | Some st \<Rightarrow> map_option (decode cq tree) (row_at (dbRoots db sys) (fsCheckpointSequence st)))"

lemma same_tables_view: "same_tables db db' \<Longrightarrow> store_view cq tree sys db' = store_view cq tree sys db"
  by (auto simp: same_tables_iff store_view_def split: option.split)

lemma same_tables_ok: "same_tables db db' \<Longrightarrow> faults_ok db' \<Longrightarrow> store_ok tree sys db \<Longrightarrow> store_ok tree sys db'"
  by (simp add: same_tables_iff store_ok_def)

lemma row_decodes:
  assumes "row_ok sys row"
  shows "checkpointFromRow cq row tree = Inr (decode cq tree row)"
  using assms
  by (auto simp: row_ok_def decode_def checkpointFromRow_def checkpointHash_def Let_def split: option.splits)

lemma row_at_sorted:
  "sorted_wrt (\<lambda>a b. crCheckpointSequence b < crCheckpointSequence a) rows \<Longrightarrow> row \<in> set rows \<Longrightarrow>
     row_at rows (crCheckpointSequence row) = Some row"
  by (induction rows) (auto simp: row_at_def)

lemma store_latest_law:
  assumes "store_ok tree sys db" and "Store_LatestCheckpoint cq tree db sys = (db', res)"
  shows "store_ok tree sys db' \<and> store_view cq tree sys db' = store_view cq tree sys db \<and>
    lookup_answer (latest_of (store_view cq tree sys db)) res"
proof -
  obtain d r where g: "GetLatestCheckpoint db sys = (d, r)" by fastforce
  note law = scan_law [OF g [unfolded GetLatestCheckpoint_def]]
  have f: "faults_ok db" using assms(1) by (simp add: store_ok_def)
  have db': "db' = d" using assms(2) g by (auto simp: Store_LatestCheckpoint_def split: sum.splits)
  have "lookup_answer (latest_of (store_view cq tree sys db)) res"
  proof (cases r)
    case (Inl e)
    with assms(2) g law(4) [OF f Inl] show ?thesis
      by (auto simp: Store_LatestCheckpoint_def lookup_answer_def latest_of_def store_view_def head_of_def split: list.splits)
  next
    case (Inr row)
    with law(3) [OF f Inr] obtain rows where rows: "dbRoots db sys = row # rows"
      by (auto simp: head_of_def split: list.splits)
    then have "row_ok sys row" using assms(1) by (simp add: store_ok_def)
    note dec = row_decodes [OF this, of cq tree]
    from rows Inr assms(2) g show ?thesis
      by (auto simp: Store_LatestCheckpoint_def lookup_answer_def latest_of_def store_view_def dec)
  qed
  with law(1,2) [OF f] db' assms(1) same_tables_view same_tables_ok show ?thesis by blast
qed

lemma store_current_law:
  assumes "store_ok tree sys db" and "Store_CurrentFinalized cq tree db sys = (db', res)"
  shows "store_ok tree sys db' \<and> store_view cq tree sys db' = store_view cq tree sys db \<and>
    lookup_answer (snd (store_view cq tree sys db)) res"
proof -
  obtain d r where g: "GetFinalityState db sys = (d, r)" by fastforce
  note law = scan_law [OF g [unfolded GetFinalityState_def]]
  have f: "faults_ok db" using assms(1) by (simp add: store_ok_def)
  note same = law(1,2) [OF f]
  have ok: "store_ok tree sys d" and v: "store_view cq tree sys d = store_view cq tree sys db"
    using same same_tables_ok assms(1) same_tables_view by blast+
  show ?thesis
  proof (cases r)
    case (Inl e)
    with assms(2) g law(4) [OF f Inl] ok v show ?thesis
      by (auto simp: Store_CurrentFinalized_def lookup_answer_def store_view_def)
  next
    case (Inr st)
    have st: "dbFinality db sys = Some st" using law(3) [OF f Inr] .
    then obtain row where row: "row \<in> set (dbRoots db sys)" "crCheckpointSequence row = fsCheckpointSequence st"
        "finality_agrees tree st row" "row_ok sys row"
      using assms(1) by (auto simp: store_ok_def)
    have at: "row_at (dbRoots db sys) (fsCheckpointSequence st) = Some row"
      using row_at_sorted [of "dbRoots db sys" row] row(1,2) assms(1) by (simp add: store_ok_def)
    have cur: "snd (store_view cq tree sys db) = Some (decode cq tree row)" using st at by (simp add: store_view_def)
    obtain d2 r2 where g2: "GetCheckpoint d sys (fsCheckpointSequence st) = (d2, r2)" by fastforce
    note law2 = scan_law [OF g2 [unfolded GetCheckpoint_def]]
    have ok2: "store_ok tree sys d2" and v2: "store_view cq tree sys d2 = store_view cq tree sys db"
      using law2(1,2) [OF same(2)] same_tables_ok ok same_tables_view v by metis+
    have roots: "dbRoots d = dbRoots db" using same(1) by (simp add: same_tables_iff)
    show ?thesis
    proof (cases r2)
      case (Inl e)
      with law2(4) [OF same(2) Inl] at assms(2) g g2 Inr ok2 v2 show ?thesis
        by (auto simp: Store_CurrentFinalized_def lookup_answer_def row_at_def roots)
    next
      case row2: (Inr row2)
      then have "row2 = row" using law2(3) [OF same(2) row2] at by (simp add: row_at_def roots)
      moreover have "fsLocatorTreeID st = tree" using row(3) by (simp add: finality_agrees_def)
      ultimately have "res = Inr (decode cq tree row)" "db' = d2"
        using assms(2) g g2 Inr row2 row(3) row_decodes [OF row(4)] by (auto simp: Store_CurrentFinalized_def)
      with ok2 v2 cur show ?thesis by (simp add: lookup_answer_def)
    qed
  qed
qed

lemma decode_row:
  assumes "row_ok sys row"
  shows "cpSequence (decode cq tree row) = crCheckpointSequence row"
    and "cpID (decode cq tree row) = uuidString cq (crCheckpointID row)"
    and "cpLocatorTreeID (decode cq tree row) = tree"
  using assms
  by (auto simp: row_ok_def decode_def checkpointFromRow_def checkpointHash_def Let_def split: option.splits)

lemma put_row_greatest: "\<forall>x \<in> set rows. crCheckpointSequence x < crCheckpointSequence row \<Longrightarrow> put_row row rows = row # rows"
  by (cases rows) auto

lemma view_current:
  assumes "store_ok tree sys db" and "dbFinality db sys = Some st"
  obtains row where "row \<in> set (dbRoots db sys)" and "crCheckpointSequence row = fsCheckpointSequence st"
    and "finality_agrees tree st row" and "snd (store_view cq tree sys db) = Some (decode cq tree row)" and "row_ok sys row"
proof -
  obtain row where "row \<in> set (dbRoots db sys)" "crCheckpointSequence row = fsCheckpointSequence st" "finality_agrees tree st row"
    using assms by (auto simp: store_ok_def)
  then show thesis
    using that [of row] row_at_sorted [of "dbRoots db sys" row] assms by (auto simp: store_ok_def store_view_def)
qed

text \<open>Writing the checkpoint with the greatest sequence: added in front, or in the place of the first row.\<close>

lemma write_row:
  assumes ok: "store_ok tree sys db" and same: "same_tables db db0" "faults_ok db0" and row: "row_ok sys row"
    and xs: "dbRoots db sys = xs \<or> (\<exists>x. dbRoots db sys = x # xs \<and> crCheckpointSequence x = crCheckpointSequence row)"
    and less: "\<forall>y \<in> set xs. crCheckpointSequence y < crCheckpointSequence row"
    and cur: "\<forall>k. snd (store_view cq tree sys db) = Some k \<longrightarrow> cpSequence k < crCheckpointSequence row"
  shows "store_ok tree sys (db0\<lparr>dbRoots := (dbRoots db0)(sys := put_row row (dbRoots db0 sys))\<rparr>)"
    and "store_view cq tree sys (db0\<lparr>dbRoots := (dbRoots db0)(sys := put_row row (dbRoots db0 sys))\<rparr>) =
      (decode cq tree row # map (decode cq tree) xs, snd (store_view cq tree sys db))"
proof -
  have t: "dbRoots db0 = dbRoots db" "dbFinality db0 = dbFinality db" using same(1) by (auto simp: same_tables_iff)
  have put: "put_row row (dbRoots db0 sys) = row # xs" using xs put_row_greatest [OF less] t by auto
  have rows: "\<forall>y \<in> set xs. row_ok sys y" "sorted_wrt (\<lambda>a b. crCheckpointSequence b < crCheckpointSequence a) xs"
    using ok xs by (auto simp: store_ok_def)
  have old: "\<exists>y \<in> set xs. crCheckpointSequence y = fsCheckpointSequence st \<and> finality_agrees tree st y \<and>
      snd (store_view cq tree sys db) = Some (decode cq tree y)" if fin: "dbFinality db sys = Some st" for st
  proof -
    obtain y where y: "y \<in> set (dbRoots db sys)" "crCheckpointSequence y = fsCheckpointSequence st"
      "finality_agrees tree st y" "snd (store_view cq tree sys db) = Some (decode cq tree y)" "row_ok sys y"
      by (rule view_current [OF ok fin])
    then have "crCheckpointSequence y < crCheckpointSequence row" using cur decode_row(1) by force
    with y xs show ?thesis by auto
  qed
  show "store_ok tree sys (db0\<lparr>dbRoots := (dbRoots db0)(sys := put_row row (dbRoots db0 sys))\<rparr>)"
    using rows less row same(2) old t unfolding put by (fastforce simp: store_ok_def faults_ok_def)
  have "row_at (row # xs) (fsCheckpointSequence st) = row_at xs (fsCheckpointSequence st)"
    "row_at (dbRoots db sys) (fsCheckpointSequence st) = row_at xs (fsCheckpointSequence st)"
    if "dbFinality db sys = Some st" for st
    using old [OF that] less xs by (auto simp: row_at_def)
  then show "store_view cq tree sys (db0\<lparr>dbRoots := (dbRoots db0)(sys := put_row row (dbRoots db0 sys))\<rparr>) =
      (decode cq tree row # map (decode cq tree) xs, snd (store_view cq tree sys db))"
    unfolding put by (auto simp: store_view_def t split: option.split)
qed

section \<open>The laws of the driver\<close>

locale cassandra_session =
  fixes cq :: cql
  assumes timestamp_idem: "cqlTimestamp cq (cqlTimestamp cq t) = cqlTimestamp cq t"
    and parse_string: "ParseUUID cq (uuidString cq u) = Inr u"
    and string_nonempty: "uuidString cq u \<noteq> ''''"
begin

lemma pending_row_ok: "row_ok (cpSystemID c) (column_row cq (pending_row c u))"
  by (simp add: row_ok_def column_row_def pending_row_def checkpointBytes_def)

lemma pending_row_decode:
  assumes "pending c" and "cpLocatorTreeID c = tree"
  shows "decode cq tree (column_row cq (pending_row c u)) = store (cqlTimestamp cq) (c\<lparr>cpID := uuidString cq u\<rparr>)"
  using assms by (cases c)
    (simp add: decode_def checkpointFromRow_def checkpointHash_def checkpointBytes_def column_row_def pending_row_def
      store_def pending_def)

lemma store_save_law:
  assumes ok: "store_ok tree sys db" and save: "Store_SavePending cq tree db c = (db', res)"
    and c: "cpSystemID c = sys" "cpID c = ''''" "pending c"
    and new: "\<forall>d \<in> set (fst (store_view cq tree sys db)). cpSequence d < cpSequence c"
  shows "store_ok tree sys db' \<and>
    save_effect (cqlTimestamp cq) c (store_view cq tree sys db) (store_view cq tree sys db') res"
proof (cases "cpLocatorTreeID c = tree")
  case False
  then show ?thesis using save ok c(3) by (auto simp: Store_SavePending_def pending_def save_effect_def)
next
  case True
  let ?u = "UUIDFromTime cq (cpCreatedAt c)"
  let ?row = "column_row cq (pending_row c ?u)"
  obtain d ures where up: "UpsertCheckpoint cq db (pending_row c ?u) = (d, ures)" by fastforce
  have f: "faults_ok db" using ok by (simp add: store_ok_def)
  have seq: "crCheckpointSequence ?row = cpSequence c" "crSystemID (pending_row c ?u) = sys"
    by (simp_all add: column_row_def pending_row_def c)
  obtain db0 where db0: "same_tables db db0" "faults_ok db0"
      "d = db0 \<and> isl ures \<or> d = db0\<lparr>dbRoots := (dbRoots db0)(sys := put_row ?row (dbRoots db0 sys))\<rparr>"
    by (rule exec_law [OF up [unfolded UpsertCheckpoint_def] f]) (use seq in auto)
  have less: "\<forall>y \<in> set (dbRoots db sys). crCheckpointSequence y < crCheckpointSequence ?row"
    using new ok seq(1) decode_row(1) by (fastforce simp: store_view_def store_ok_def)
  have cur: "\<forall>k. snd (store_view cq tree sys db) = Some k \<longrightarrow> cpSequence k < crCheckpointSequence ?row"
    using new seq(1) by (auto simp: store_view_def row_at_def find_Some_iff split: option.splits)
  note w = write_row [OF ok db0(1,2) pending_row_ok [of c ?u, unfolded c(1)] disjI1 [OF refl] less cur]
  have vd: "decode cq tree ?row = store (cqlTimestamp cq) (c\<lparr>cpID := uuidString cq ?u\<rparr>)"
    by (rule pending_row_decode [OF c(3) True])
  have res: "db' = d \<and> res = (case ures of Inl e \<Rightarrow> Inl e | Inr _ \<Rightarrow> Inr (c\<lparr>cpID := uuidString cq ?u\<rparr>))"
    using save up c True by (cases ures) (auto simp: Store_SavePending_def pending_def)
  show ?thesis
    using db0(3)
  proof
    assume "d = db0 \<and> isl ures"
    then show ?thesis
      using res same_tables_ok [OF db0(1,2) ok] same_tables_view [OF db0(1), of cq tree sys]
      by (auto simp: save_effect_def isl_def)
  next
    assume d: "d = db0\<lparr>dbRoots := (dbRoots db0)(sys := put_row ?row (dbRoots db0 sys))\<rparr>"
    have "fst (store_view cq tree sys db) = map (decode cq tree) (dbRoots db sys)" by (simp add: store_view_def)
    with w [folded d] vd res string_nonempty [of ?u] show ?thesis
      by (cases ures) (auto simp: save_effect_def)
  qed
qed

text \<open>The rows a publication writes.\<close>

definition final_row :: "Checkpoint \<Rightarrow> uuid \<Rightarrow> AnchorReceipt \<Rightarrow> time \<Rightarrow> CheckpointRoot" where
  "final_row c u r t = (pending_row c u)\<lparr>crBlockchainTxHash := Some (arTransactionHash r),
     crBlockchainBlockHeight := Some (arBlockHeight r), crAnchoredAt := Some (arAnchoredAt r), crFinalizedAt := Some t\<rparr>"

definition final_state :: "Checkpoint \<Rightarrow> uuid \<Rightarrow> AnchorReceipt \<Rightarrow> time \<Rightarrow> FinalityState" where
  "final_state c u r t = \<lparr>fsSystemID = cpSystemID c, fsFinalizedCheckpointID = u, fsCheckpointSequence = cpSequence c,
     fsLocatorTreeID = cpLocatorTreeID c, fsLocatorRoot = checkpointBytes (cpLocatorRoot c),
     fsGlobalHMFRoot = checkpointBytes (cpGlobalHMFRoot c), fsStateCommitment = checkpointBytes (cpStateCommitment c),
     fsBlockchainTxHash = arTransactionHash r, fsBlockchainBlockHeight = arBlockHeight r,
     fsAnchoredAt = arAnchoredAt r, fsFinalizedAt = t, fsUpdatedAt = t\<rparr>"

lemma final_row_simps:
  "crCheckpointSequence (column_row cq (final_row c u r t)) = cpSequence c"
  "row_ok (cpSystemID c) (column_row cq (final_row c u r t))"
  "finality_agrees (cpLocatorTreeID c) (column_state cq (final_state c u r t)) (column_row cq (final_row c u r t))"
  by (simp_all add: row_ok_def column_row_def final_row_def pending_row_def checkpointBytes_def
      finality_agrees_def column_state_def final_state_def)

lemma final_row_decode:
  assumes "cpStatus c = StatusFinalized" and "cpAnchor c = Some r" and "cpFinalizedAt c = Some t"
    and "cpLocatorTreeID c = tree" and "cpID c = uuidString cq u"
  shows "decode cq tree (column_row cq (final_row c u r t)) = store (cqlTimestamp cq) c"
  using assms by (cases c)
    (simp add: decode_def checkpointFromRow_def checkpointHash_def checkpointBytes_def column_row_def pending_row_def
      final_row_def store_def)

text \<open>Publishing the row just written: the current checkpoint is the first of the history.\<close>

lemma write_state:
  assumes ok: "store_ok tree sys db" and rows: "dbRoots db sys = row # xs"
    and st: "crCheckpointSequence row = fsCheckpointSequence st" "finality_agrees tree st row"
    and same: "same_tables db db0" "faults_ok db0"
  shows "store_ok tree sys (db0\<lparr>dbFinality := (dbFinality db0)(sys \<mapsto> st)\<rparr>)"
    and "store_view cq tree sys (db0\<lparr>dbFinality := (dbFinality db0)(sys \<mapsto> st)\<rparr>) =
      (map (decode cq tree) (row # xs), Some (decode cq tree row))"
  using assms by (auto simp: store_ok_def same_tables_iff faults_ok_def store_view_def row_at_def)

lemma store_publish_law:
  assumes ok: "store_ok tree sys db" and pub: "Store_PublishFinalized cq tree db c = (db', res)"
    and c: "cpSystemID c = sys" "finalized c" and d: "latest_of (store_view cq tree sys db) = Some d"
      "cpSequence d = cpSequence c" "cpID d = cpID c"
    and cur: "\<forall>k. snd (store_view cq tree sys db) = Some k \<longrightarrow> cpSequence k < cpSequence c"
  shows "store_ok tree sys db' \<and>
    publish_effect (cqlTimestamp cq) c (store_view cq tree sys db) (store_view cq tree sys db') res"
proof (cases "cpLocatorTreeID c = tree")
  case False
  then show ?thesis using pub ok c(2)
    by (auto simp: Store_PublishFinalized_def finalized_def publish_effect_def split: option.splits if_splits)
next
  case tree: True
  obtain r t where rt: "cpStatus c = StatusFinalized" "cpAnchor c = Some r" "cpFinalizedAt c = Some t"
    using c(2) by (auto simp: finalized_def)
  obtain x xs where rows: "dbRoots db sys = x # xs" and dx: "d = decode cq tree x"
    using d(1) by (auto simp: latest_of_def store_view_def split: list.splits)
  have x: "row_ok sys x" and srt: "\<forall>y \<in> set xs. crCheckpointSequence y < crCheckpointSequence x" and f: "faults_ok db"
    using ok rows by (auto simp: store_ok_def)
  let ?u = "crCheckpointID x"
  have u: "cpID c = uuidString cq ?u" "crCheckpointSequence x = cpSequence c" using dx d(2,3) decode_row [OF x] by auto
  let ?row = "column_row cq (final_row c ?u r t)" and ?st = "final_state c ?u r t"
  note fr = final_row_simps [of c ?u r t, unfolded c(1) tree]
  have dec: "decode cq tree ?row = store (cqlTimestamp cq) c" by (rule final_row_decode [OF rt tree u(1)])
  obtain d1 r1 where up: "UpsertCheckpoint cq db (final_row c ?u r t) = (d1, r1)" by fastforce
  have body: "Store_PublishFinalized cq tree db c = sbind (d1, r1) (\<lambda>db' _. UpsertFinalityState cq db' ?st)"
    using rt tree u(1) up parse_string by (simp add: Store_PublishFinalized_def final_row_def final_state_def)
  have sysr: "crSystemID (final_row c ?u r t) = sys" "fsSystemID ?st = sys"
    by (simp_all add: final_row_def pending_row_def final_state_def c)
  obtain db0 where db0: "same_tables db db0" "faults_ok db0"
      "d1 = db0 \<and> isl r1 \<or> d1 = db0\<lparr>dbRoots := (dbRoots db0)(sys := put_row ?row (dbRoots db0 sys))\<rparr>"
    by (rule exec_law [OF up [unfolded UpsertCheckpoint_def] f]) (use sysr in auto)
  have less: "\<forall>y \<in> set xs. crCheckpointSequence y < crCheckpointSequence ?row" using srt u(2) fr(1) by simp
  have cur': "\<forall>k. snd (store_view cq tree sys db) = Some k \<longrightarrow> cpSequence k < crCheckpointSequence ?row"
    using cur fr(1) by simp
  have hd: "dbRoots db sys = xs \<or> (\<exists>x. dbRoots db sys = x # xs \<and> crCheckpointSequence x = crCheckpointSequence ?row)"
    using rows u(2) fr(1) by simp
  note w = write_row [OF ok db0(1,2) fr(2) hd less cur']
  have tl: "tl (fst (store_view cq tree sys db)) = map (decode cq tree) xs" by (simp add: store_view_def rows)
  show ?thesis
    using db0(3)
  proof
    assume "d1 = db0 \<and> isl r1"
    then show ?thesis
      using pub body same_tables_ok [OF db0(1,2) ok] same_tables_view [OF db0(1), of cq tree sys]
      by (auto simp: publish_effect_def isl_def)
  next
    assume d1: "d1 = db0\<lparr>dbRoots := (dbRoots db0)(sys := put_row ?row (dbRoots db0 sys))\<rparr>"
    note w1 = w [folded d1]
    show ?thesis
    proof (cases r1)
      case (Inl e)
      then show ?thesis using w1 dec tl pub body by (auto simp: publish_effect_def)
    next
      case (Inr un)
      then have up2: "UpsertFinalityState cq d1 ?st = (db', res)" using pub body by simp
      have rows1: "dbRoots d1 sys = ?row # xs"
        using d1 db0(1) rows u(2) fr(1) by (simp add: same_tables_iff)
      have f1: "faults_ok d1" using w1(1) by (simp add: store_ok_def)
      obtain d0 where d0: "same_tables d1 d0" "faults_ok d0"
          "db' = d0 \<and> isl res \<or> db' = d0\<lparr>dbFinality := (dbFinality d0)(sys \<mapsto> column_state cq ?st)\<rparr>"
        by (rule exec_law [OF up2 [unfolded UpsertFinalityState_def] f1]) (use sysr in auto)
      have st: "crCheckpointSequence ?row = fsCheckpointSequence (column_state cq ?st)"
        using fr(1) by (simp add: column_state_def final_state_def)
      note ws = write_state [OF w1(1) rows1 st fr(3) d0(1,2)]
      show ?thesis
        using d0(3) ws w1 dec tl same_tables_ok [OF d0(1,2) w1(1)] same_tables_view [OF d0(1), of cq tree sys]
        by (auto simp: publish_effect_def)
    qed
  qed
qed

end

locale checkpoint_store = cassandra_session cq for cq :: cql +
  fixes tree :: string and sys :: string

sublocale checkpoint_store \<subseteq>
  checkpoint_repository "CheckpointStore cq tree" sys "store_ok tree sys" "store_view cq tree sys" "cqlTimestamp cq"
proof unfold_locales
  show "store_ok tree sys r \<Longrightarrow> LatestCheckpoint (CheckpointStore cq tree) r sys = (r', res) \<Longrightarrow>
      store_ok tree sys r' \<and> store_view cq tree sys r' = store_view cq tree sys r \<and>
      lookup_answer (latest_of (store_view cq tree sys r)) res" for r r' res
    using store_latest_law by (simp add: CheckpointStore_def)
  show "store_ok tree sys r \<Longrightarrow> CurrentFinalized (CheckpointStore cq tree) r sys = (r', res) \<Longrightarrow>
      store_ok tree sys r' \<and> store_view cq tree sys r' = store_view cq tree sys r \<and>
      lookup_answer (snd (store_view cq tree sys r)) res" for r r' res
    using store_current_law by (simp add: CheckpointStore_def)
  show "store_ok tree sys r' \<and> save_effect (cqlTimestamp cq) c (store_view cq tree sys r) (store_view cq tree sys r') res"
    if "store_ok tree sys r" "SavePending (CheckpointStore cq tree) r c = (r', res)" "cpSystemID c = sys" "cpID c = []"
      "pending c" "\<forall>d \<in> set (fst (store_view cq tree sys r)). cpSequence d < cpSequence c" for r c r' res
    using that store_save_law [of tree sys r c r' res] by (simp add: CheckpointStore_def)
  show "store_ok tree sys r' \<and> publish_effect (cqlTimestamp cq) c (store_view cq tree sys r) (store_view cq tree sys r') pres"
    if "store_ok tree sys r" "PublishFinalized (CheckpointStore cq tree) r c = (r', pres)" "cpSystemID c = sys" "finalized c"
      "latest_of (store_view cq tree sys r) = Some d" "cpSequence d = cpSequence c" "cpID d = cpID c"
      "\<forall>k. snd (store_view cq tree sys r) = Some k \<longrightarrow> cpSequence k < cpSequence c" for r c r' pres d
    using that store_publish_law [of tree sys r c r' pres d] by (simp add: CheckpointStore_def)
  show "cqlTimestamp cq (cqlTimestamp cq t) = cqlTimestamp cq t" for t by (rule timestamp_idem)
qed

section \<open>The mock anchor keeps the contract of an anchor\<close>

definition mock_ok :: "(time \<Rightarrow> time) \<Rightarrow> MockAnchor \<Rightarrow> bool" where
  "mock_ok col a \<longleftrightarrow> (\<forall>k. sane_time col (maClock a k)) \<and>
     (\<forall>h r. maReceipts a h = Some r \<longrightarrow> sane_time col (arAnchoredAt r))"

interpretation mock: anchor_provider "MockAnchor_Commit H ctxErr" "mock_ok col" MockAnchor_Receipt col for H ctxErr col
proof unfold_locales
  fix a h a' res
  assume "mock_ok col a" and "MockAnchor_Commit H ctxErr a h = (a', res)"
  then show "mock_ok col a' \<and> MockAnchor_Receipt a \<subseteq>\<^sub>m MockAnchor_Receipt a' \<and>
      (\<forall>r. res = Inr r \<longrightarrow> MockAnchor_Receipt a' h = Some r)"
    by (auto simp: MockAnchor_Commit_def MockAnchor_Receipt_def mock_ok_def map_le_def Let_def split: option.splits if_splits)
qed (auto simp: mock_ok_def MockAnchor_Receipt_def)

section \<open>Statements without a fault\<close>

lemma store_latest_total:
  assumes "store_ok tree sys db" and "dbOutcomes db = []"
  shows "Store_LatestCheckpoint cq tree db sys =
    (db, case latest_of (store_view cq tree sys db) of None \<Rightarrow> Inl ErrNotFound | Some c \<Rightarrow> Inr c)"
proof (cases "dbRoots db sys")
  case Nil
  then show ?thesis using assms(2)
    by (simp add: Store_LatestCheckpoint_def GetLatestCheckpoint_def swrap_def head_of_def latest_of_def store_view_def
        checkpointStoreError_def)
next
  case (Cons row rows)
  then have "row_ok sys row" using assms(1) by (simp add: store_ok_def)
  from row_decodes [OF this] Cons assms(2) show ?thesis
    by (simp add: Store_LatestCheckpoint_def GetLatestCheckpoint_def swrap_def head_of_def latest_of_def store_view_def)
qed

lemma store_current_total:
  assumes "store_ok tree sys db" and "dbOutcomes db = []"
  shows "Store_CurrentFinalized cq tree db sys =
    (db, case snd (store_view cq tree sys db) of None \<Rightarrow> Inl ErrNotFound | Some c \<Rightarrow> Inr c)"
proof (cases "dbFinality db sys")
  case None
  then show ?thesis using assms(2)
    by (simp add: Store_CurrentFinalized_def GetFinalityState_def swrap_def store_view_def checkpointStoreError_def)
next
  case (Some st)
  obtain row where row: "row \<in> set (dbRoots db sys)" "crCheckpointSequence row = fsCheckpointSequence st"
    "finality_agrees tree st row" "snd (store_view cq tree sys db) = Some (decode cq tree row)" "row_ok sys row"
    by (rule view_current [OF assms(1) Some])
  have "find (\<lambda>row. crCheckpointSequence row = fsCheckpointSequence st) (dbRoots db sys) = Some row"
    using row_at_sorted [of "dbRoots db sys" row] row(1,2) assms(1) by (simp add: store_ok_def row_at_def)
  moreover have "fsLocatorTreeID st = tree" using row(3) by (simp add: finality_agrees_def)
  ultimately show ?thesis
    using Some assms(2) row(3,4) row_decodes [OF row(5)]
    by (simp add: Store_CurrentFinalized_def GetFinalityState_def GetCheckpoint_def swrap_def)
qed

lemma store_save_total:
  assumes "dbOutcomes db = []" and "pending c" and "cpID c = ''''" and "cpLocatorTreeID c = tree"
  shows "\<exists>db'. dbOutcomes db' = [] \<and>
    Store_SavePending cq tree db c = (db', Inr (c\<lparr>cpID := uuidString cq (UUIDFromTime cq (cpCreatedAt c))\<rparr>))"
  using assms by (simp add: Store_SavePending_def pending_def UpsertCheckpoint_def swrap_def)

lemma store_publish_total:
  assumes "dbOutcomes db = []" and "finalized c" and "ParseUUID cq (cpID c) = Inr u" and "cpLocatorTreeID c = tree"
  shows "\<exists>db'. dbOutcomes db' = [] \<and> Store_PublishFinalized cq tree db c = (db', Inr ())"
  using assms by (auto simp: Store_PublishFinalized_def finalized_def UpsertCheckpoint_def UpsertFinalityState_def swrap_def)

end
