(* ===== verification/Checkpoint_Properties.thy ===== *)
theory Checkpoint_Properties
  imports Checkpoint_Store
begin

text \<open>
  The checkpoint service on the Cassandra store and the mock anchor: the contracts of
  \<open>Checkpoint_History\<close> are discharged for the two, and the properties of the composed system stated.
\<close>

definition cassandra_service ::
  "hash_fn \<Rightarrow> cql \<Rightarrow> string \<Rightarrow> string \<Rightarrow> error option \<Rightarrow> (nat \<Rightarrow> time) \<Rightarrow> (checkpoint_db, MockAnchor) CheckpointService" where
  "cassandra_service H cq tree sys ctxErr clock = \<lparr>csSystemID = sys, csAnchor = MockAnchor_Commit H ctxErr,
     csRepo = CheckpointStore cq tree, csClock = clock\<rparr>"

locale service_on_store = checkpoint_store cq tree sys for cq tree sys +
  fixes H :: hash_fn and ctxErr :: "error option" and clock :: "nat \<Rightarrow> time"
  assumes clock_sane: "sane_time (cqlTimestamp cq) (clock k)"

sublocale service_on_store \<subseteq>
  checkpoint_service "CheckpointStore cq tree" sys "store_ok tree sys" "store_view cq tree sys" "cqlTimestamp cq"
    "MockAnchor_Commit H ctxErr" "mock_ok (cqlTimestamp cq)" MockAnchor_Receipt
    "cassandra_service H cq tree sys ctxErr clock"
  by unfold_locales (auto simp: cassandra_service_def clock_sane)

text \<open>The invariant of the composed system, written out.\<close>

definition service_inv :: "hash_fn \<Rightarrow> cql \<Rightarrow> string \<Rightarrow> string \<Rightarrow> (checkpoint_db, MockAnchor) service_state \<Rightarrow> bool" where
  "service_inv H cq tree sys s \<longleftrightarrow> store_ok tree sys (ssRepo s) \<and> mock_ok (cqlTimestamp cq) (ssAnchor s) \<and>
     history_inv H sys (cqlTimestamp cq) (store_view cq tree sys (ssRepo s))"

context service_on_store
begin

lemma finalize_run:
  assumes "service_inv H cq tree sys s"
    and "Finalize H (cassandra_service H cq tree sys ctxErr clock) source s = (s', res)"
  shows "service_inv H cq tree sys s' \<and>
    advances 1 (store_view cq tree sys (ssRepo s)) (store_view cq tree sys (ssRepo s')) \<and>
    maReceipts (ssAnchor s) \<subseteq>\<^sub>m maReceipts (ssAnchor s') \<and>
    (\<forall>c. res = Inr c \<longrightarrow> snd (store_view cq tree sys (ssRepo s')) = Some (store (cqlTimestamp cq) c) \<and>
       latest_of (store_view cq tree sys (ssRepo s')) = Some (store (cqlTimestamp cq) c))"
  using Finalize_accountable [of H s source, unfolded accountable_def good_def] assms
  by (auto simp: service_inv_def MockAnchor_Receipt_def [abs_def])

end

lemma service_on_storeI:
  "cassandra_session cq \<Longrightarrow> \<forall>k. sane_time (cqlTimestamp cq) (clock k) \<Longrightarrow> service_on_store cq clock"
  by (simp add: service_on_store_def service_on_store_axioms_def checkpoint_store_def)

section \<open>A session for concrete runs\<close>

text \<open>
  Timestamps rounded down to a millisecond, as the table type has it, and UUIDs printed byte by byte.
\<close>

definition plain_cql :: cql where
  "plain_cql = \<lparr>cqlTimestamp = (\<lambda>t. t - t mod 10 ^ 6), UUIDFromTime = word_of_int,
     uuidString = (\<lambda>u. CHR ''u'' # bytes_string (uuid_bytes u)),
     ParseUUID = (\<lambda>s. Inr (uuid_of_bytes (string_bytes (tl s))))\<rparr>"

interpretation plain: cassandra_session plain_cql
  by unfold_locales (simp_all add: plain_cql_def)

interpretation plain_service: service_on_store plain_cql "''t''" "''s''" H None "\<lambda>_. 10 ^ 18" for H
  by unfold_locales (simp add: sane_time_def IsZero_def time_zero_def plain_cql_def)

text \<open>A history of one pending checkpoint, left by a call whose anchoring failed.\<close>

definition zero_hash :: hash_fn where "zero_hash _ = 0"

definition pending_row1 :: CheckpointRoot where
  "pending_row1 = \<lparr>crSystemID = ''s'', crCheckpointID = 1, crCheckpointSequence = 1, crLocatorRoot = hash_bytes 2,
     crGlobalHMFRoot = hash_bytes 3, crStateCommitment = hash_bytes 0, crBlockchainTxHash = None,
     crBlockchainBlockHeight = None, crAnchoredAt = None, crFinalizedAt = None, crCreatedAt = 10 ^ 18\<rparr>"

definition pending_state :: "statement_outcome list \<Rightarrow> (checkpoint_db, MockAnchor) service_state" where
  "pending_state outcomes = \<lparr>ssRepo = \<lparr>dbOutcomes = outcomes, dbRoots = (\<lambda>_. [])(''s'' := [pending_row1]),
     dbFinality = Map.empty\<rparr>, ssAnchor = NewMockAnchor (\<lambda>_. 10 ^ 18) 7, ssReadings = 1\<rparr>"

lemma pending_state_inv:
  assumes "\<forall>x \<in> set outcomes. outcome_ok x"
  shows "service_inv zero_hash plain_cql ''t'' ''s'' (pending_state outcomes)"
  using assms
  by (simp add: service_inv_def pending_state_def store_ok_def faults_ok_def row_ok_def pending_row1_def mock_ok_def
      NewMockAnchor_def sane_time_def IsZero_def time_zero_def plain_cql_def history_inv_def store_view_def decode_def
      checkpointFromRow_def checkpointHash_def valid_checkpoint_def committed_def pending_def zero_hash_def
      int64_def store_def head_of_def)

section \<open>Calls without a fault\<close>

text \<open>What the calls of the composed service compute when the database has no fault.\<close>

lemma service_fields [simp]:
  "csSystemID (cassandra_service H cq tree sys ctxErr clock) = sys"
  "csAnchor (cassandra_service H cq tree sys ctxErr clock) = MockAnchor_Commit H ctxErr"
  "csClock (cassandra_service H cq tree sys ctxErr clock) = clock"
  "LatestCheckpoint (csRepo (cassandra_service H cq tree sys ctxErr clock)) = Store_LatestCheckpoint cq tree"
  "CurrentFinalized (csRepo (cassandra_service H cq tree sys ctxErr clock)) = Store_CurrentFinalized cq tree"
  "SavePending (csRepo (cassandra_service H cq tree sys ctxErr clock)) = Store_SavePending cq tree"
  "PublishFinalized (csRepo (cassandra_service H cq tree sys ctxErr clock)) = Store_PublishFinalized cq tree"
  by (simp_all add: cassandra_service_def CheckpointStore_def)

text \<open>An anchor that gives valid receipts: its next block and the receipts it holds are in range.\<close>

definition mock_live :: "MockAnchor \<Rightarrow> bool" where
  "mock_live a \<longleftrightarrow> 0 \<le> maNextBlock a \<and> (\<forall>h r. maReceipts a h = Some r \<longrightarrow> valid_receipt r)"

lemma mock_commit_live:
  assumes "mock_live a" and "mock_ok col a"
  shows "\<exists>a' r. MockAnchor_Commit H None a h = (a', Inr r) \<and> valid_receipt r"
  using assms
  by (cases "maReceipts a h")
    (auto simp: MockAnchor_Commit_def mock_live_def mock_ok_def valid_receipt_def sane_time_def Let_def)

lemma anchorAndPublish_live:
  assumes a: "mock_live (ssAnchor s)" "mock_ok col (ssAnchor s)" and db: "dbOutcomes (ssRepo s) = []"
    and c: "ParseUUID cq (cpID c) = Inr u" "cpLocatorTreeID c = tree"
  shows "\<exists>s' r t. anchorAndPublish (cassandra_service H cq tree sys None clock) s c = (s', Inr (finalize_with r t c)) \<and>
    dbOutcomes (ssRepo s') = []"
proof -
  obtain a' r where r: "MockAnchor_Commit H None (ssAnchor s) (cpStateCommitment c) = (a', Inr r)" "valid_receipt r"
    using mock_commit_live [OF a] by blast
  let ?c = "finalize_with r (clock (ssReadings s)) c"
  obtain db' where db': "dbOutcomes db' = []" "Store_PublishFinalized cq tree (ssRepo s) ?c = (db', Inr ())"
    using store_publish_total [OF db, of ?c cq u tree] c r(2) by auto
  have "anchorAndPublish (cassandra_service H cq tree sys None clock) s c =
      (\<lparr>ssRepo = db', ssAnchor = a', ssReadings = Suc (ssReadings s)\<rparr>, Inr ?c)"
    using r db'(2) by (simp add: anchorAndPublish_def receipt_case finalize_with_def)
  with db'(1) show ?thesis by fastforce
qed

lemma view_named:
  assumes "store_ok tree sys db" and "c \<in> set (fst (store_view cq tree sys db))"
  shows "\<exists>u. cpID c = uuidString cq u" and "cpLocatorTreeID c = tree"
  using assms decode_row(2,3) by (fastforce simp: store_ok_def store_view_def)+

lemma new_checkpoint_live:
  assumes cq: "cassandra_session cq" and clock: "\<forall>k. sane_time (cqlTimestamp cq) (clock k)"
    and a: "mock_live (ssAnchor s)" "mock_ok (cqlTimestamp cq) (ssAnchor s)" and db: "dbOutcomes (ssRepo s) = []"
    and snap: "rsLocatorTreeID snapshot = tree" "tree \<noteq> ''''" and j: "0 \<le> j" "j < MaxInt64"
  shows "\<exists>s' c. new_checkpoint H (cassandra_service H cq tree sys None clock) (Inr snapshot) s j = (s', Inr c) \<and>
    dbOutcomes (ssRepo s') = []"
proof -
  let ?svc = "cassandra_service H cq tree sys None clock" and ?t = "clock (ssReadings s)"
  have w: "wrap64 (j + 1) = j + 1" "0 < j + 1" using j by (auto simp: int64_def)
  define p where "p = \<lparr>cpID = '''', cpSystemID = sys, cpSequence = j + 1, cpLocatorTreeID = rsLocatorTreeID snapshot,
     cpLocatorRoot = rsLocatorRoot snapshot, cpGlobalHMFRoot = rsGlobalHMFRoot snapshot,
     cpStateCommitment = H (state_input (j + 1) (rsLocatorRoot snapshot) (rsGlobalHMFRoot snapshot)),
     cpStatus = StatusPending, cpAnchor = None, cpCreatedAt = ?t, cpFinalizedAt = None\<rparr>"
  let ?u = "UUIDFromTime cq (cpCreatedAt p)"
  let ?q = "p\<lparr>cpID := uuidString cq ?u\<rparr>"
  obtain db' where sv: "dbOutcomes db' = []" "Store_SavePending cq tree (ssRepo s) p = (db', Inr ?q)"
    using store_save_total [OF db, of p tree cq] snap by (auto simp: p_def pending_def)
  have id: "uuidString cq ?u \<noteq> ''''" "ParseUUID cq (cpID ?q) = Inr ?u" "cpLocatorTreeID ?q = tree"
    using cassandra_session.string_nonempty [OF cq] cassandra_session.parse_string [OF cq] snap(1) by (auto simp: p_def)
  have valid: "valid_checkpoint H sys ?q"
    using id(1) snap clock w(2) by (simp add: valid_checkpoint_def p_def committed_def pending_def sane_time_def)
  let ?s2 = "s\<lparr>ssReadings := Suc (ssReadings s), ssRepo := db'\<rparr>"
  have "new_checkpoint H ?svc (Inr snapshot) s j = anchorAndPublish ?svc ?s2 ?q"
    using w snap sv(2) valid
    by (simp add: new_checkpoint_def StateCommitment_def p_def [symmetric] stored_case) (simp add: p_def Let_def)
  moreover have "\<exists>s' r t. anchorAndPublish ?svc ?s2 ?q = (s', Inr (finalize_with r t ?q)) \<and> dbOutcomes (ssRepo s') = []"
    by (rule anchorAndPublish_live [OF _ _ _ id(2,3)]) (use a sv in auto)
  ultimately show ?thesis by auto
qed

lemma plain_clock: "\<forall>k :: nat. sane_time (cqlTimestamp plain_cql) (10 ^ 18)"
  by (simp add: sane_time_def IsZero_def time_zero_def plain_cql_def)

lemma pending_state_live: "mock_live (ssAnchor (pending_state outcomes))"
  by (simp add: pending_state_def mock_live_def NewMockAnchor_def)

lemma pending_state_latest:
  "latest_of (store_view plain_cql ''t'' ''s'' (ssRepo (pending_state outcomes))) = Some (decode plain_cql ''t'' pending_row1)"
  by (simp add: pending_state_def latest_of_def store_view_def)

lemma pending_row1_decode:
  "pending (decode plain_cql ''t'' pending_row1)" "cpID (decode plain_cql ''t'' pending_row1) = uuidString plain_cql 1"
  "cpLocatorTreeID (decode plain_cql ''t'' pending_row1) = ''t''" "cpSequence (decode plain_cql ''t'' pending_row1) = 1"
  by (simp_all add: decode_def checkpointFromRow_def checkpointHash_def pending_row1_def pending_def)

text \<open>The interrupted finalisation runs to its end.\<close>

lemma pending_state_run:
  "\<exists>s' c. Finalize zero_hash (cassandra_service zero_hash plain_cql ''t'' ''s'' None (\<lambda>_. 10 ^ 18)) (Inl Diverge)
     (pending_state []) = (s', Inr c) \<and> dbOutcomes (ssRepo s') = []"
proof -
  let ?s = "pending_state []" and ?d = "decode plain_cql ''t'' pending_row1"
  let ?svc = "cassandra_service zero_hash plain_cql ''t'' ''s'' None (\<lambda>_. 10 ^ 18)"
  have inv: "service_inv zero_hash plain_cql ''t'' ''s'' ?s" by (rule pending_state_inv) simp
  have db: "dbOutcomes (ssRepo ?s) = []" by (simp add: pending_state_def)
  have ok: "store_ok ''t'' ''s'' (ssRepo ?s)" and mok: "mock_ok (cqlTimestamp plain_cql) (ssAnchor ?s)"
    using inv by (auto simp: service_inv_def)
  have lat: "Store_LatestCheckpoint plain_cql ''t'' (ssRepo ?s) ''s'' = (ssRepo ?s, Inr ?d)"
    using store_latest_total [OF ok db] pending_state_latest by simp
  have "valid_checkpoint zero_hash ''s'' ?d"
    using inv by (simp add: service_inv_def history_inv_def store_view_def pending_state_def)
  then have "Finalize zero_hash ?svc (Inl Diverge) ?s = anchorAndPublish ?svc ?s ?d"
    using lat pending_row1_decode(1) by (simp add: Finalize_def stored_case pending_def)
  moreover have "\<exists>s' r t. anchorAndPublish ?svc ?s ?d = (s', Inr (finalize_with r t ?d)) \<and> dbOutcomes (ssRepo s') = []"
    by (rule anchorAndPublish_live [OF pending_state_live mok db])
      (simp_all add: pending_row1_decode plain.parse_string)
  ultimately show ?thesis by auto
qed

section \<open>Properties\<close>

text \<open>C25: \<^verbatim>\<open>Finalize\<close> keeps the checkpoint history in order, whatever statements of the database fail
  before or after they took effect. From a state in which the history is numbered without a gap,
  every checkpoint is valid, all but the latest are finalised and the published one is the latest
  or the one before it, a call leaves such a state; it adds at most one checkpoint, changes no
  finalised one, does not move the published one back and keeps every anchor receipt.\<close>

theorem finalize_keeps_history:
  assumes "cassandra_session cq" and "\<forall>k. sane_time (cqlTimestamp cq) (clock k)"
    and "service_inv H cq tree sys s"
    and "Finalize H (cassandra_service H cq tree sys ctxErr clock) source s = (s', res)"
  shows "service_inv H cq tree sys s' \<and>
    advances 1 (store_view cq tree sys (ssRepo s)) (store_view cq tree sys (ssRepo s')) \<and>
    maReceipts (ssAnchor s) \<subseteq>\<^sub>m maReceipts (ssAnchor s')"
  using service_on_store.finalize_run [OF service_on_storeI [OF assms(1,2)] assms(3,4)] by blast

theorem finalize_keeps_history_witness:
  "\<exists>s' res. Finalize zero_hash (cassandra_service zero_hash plain_cql ''t'' ''s'' None (\<lambda>_. 10 ^ 18)) (Inl Diverge)
      (pending_state [Applied, Unacknowledged (Errorf ''timeout'')]) = (s', res) \<and>
    service_inv zero_hash plain_cql ''t'' ''s'' s'"
proof -
  let ?s = "pending_state [Applied, Unacknowledged (Errorf ''timeout'')]"
  have "service_inv zero_hash plain_cql ''t'' ''s'' ?s"
    by (rule pending_state_inv) (simp add: fault_def gocql_ErrNotFound_def ErrNotFound_def)
  moreover have "\<forall>k :: nat. sane_time (cqlTimestamp plain_cql) (10 ^ 18)"
    by (simp add: sane_time_def IsZero_def time_zero_def plain_cql_def)
  ultimately show ?thesis
    using finalize_keeps_history [OF plain.cassandra_session_axioms, where clock = "\<lambda>_. 10 ^ 18"]
    by (metis surj_pair)
qed

text \<open>C27: What \<^verbatim>\<open>Finalize\<close> returns is what readers trust: once the call returns a checkpoint, a
  reader without a database fault gets that checkpoint from \<^verbatim>\<open>Current\<close>, as the table stores it.\<close>

theorem finalize_is_current:
  assumes "cassandra_session cq" and "\<forall>k. sane_time (cqlTimestamp cq) (clock k)"
    and "service_inv H cq tree sys s"
    and "Finalize H (cassandra_service H cq tree sys ctxErr clock) source s = (s', Inr c)"
    and "dbOutcomes (ssRepo s') = []"
  shows "snd (readCurrent H (CheckpointStore cq tree) (ssRepo s') sys) = Inr (store (cqlTimestamp cq) c)"
proof -
  let ?v = "store_view cq tree sys (ssRepo s')" and ?c = "store (cqlTimestamp cq) c"
  have run: "service_inv H cq tree sys s'" "snd ?v = Some ?c" "latest_of ?v = Some ?c"
    using service_on_store.finalize_run [OF service_on_storeI [OF assms(1,2)] assms(3,4)] by auto
  then obtain h where h: "fst ?v = ?c # h" by (auto simp: latest_of_def split: list.splits)
  have inv: "history_inv H sys (cqlTimestamp cq) ?v" and ok: "store_ok tree sys (ssRepo s')"
    using run(1) by (auto simp: service_inv_def)
  have valid: "valid_checkpoint H sys ?c" and "finalized ?c"
    using history_current [OF inv h run(2)] by auto
  then have "cpStatus ?c = StatusFinalized" "cpAnchor ?c \<noteq> None" "cpFinalizedAt ?c \<noteq> None"
    by (auto simp: finalized_def)
  with valid run(2) store_current_total [OF ok assms(5), of cq] show ?thesis
    by (simp add: readCurrent_def CheckpointStore_def)
qed
theorem finalize_is_current_witness:
  "\<exists>s' c. Finalize zero_hash (cassandra_service zero_hash plain_cql ''t'' ''s'' None (\<lambda>_. 10 ^ 18)) (Inl Diverge)
      (pending_state []) = (s', Inr c) \<and>
    snd (readCurrent zero_hash (CheckpointStore plain_cql ''t'') (ssRepo s') ''s'') = Inr (store (cqlTimestamp plain_cql) c)"
proof -
  have inv: "service_inv zero_hash plain_cql ''t'' ''s'' (pending_state [])" by (rule pending_state_inv) simp
  obtain s' c where run: "Finalize zero_hash (cassandra_service zero_hash plain_cql ''t'' ''s'' None (\<lambda>_. 10 ^ 18))
      (Inl Diverge) (pending_state []) = (s', Inr c)" and db: "dbOutcomes (ssRepo s') = []"
    using pending_state_run by blast
  from finalize_is_current [OF plain.cassandra_session_axioms plain_clock inv run db] run show ?thesis by blast
qed

text \<open>C28: An interrupted finalisation is resumed, not repeated. When the latest checkpoint is
  pending, a successful \<^verbatim>\<open>Finalize\<close> returns that checkpoint with its identifier, sequence number,
  roots and commitment, finalised with the receipt the anchor holds for its commitment; the current
  roots of the state source are not looked at.\<close>

theorem finalize_resumes_pending:
  assumes "service_inv H cq tree sys s"
    and "latest_of (store_view cq tree sys (ssRepo s)) = Some d" and "pending d"
    and "Finalize H (cassandra_service H cq tree sys ctxErr clock) source s = (s', Inr c)"
  shows "\<exists>receipt. maReceipts (ssAnchor s') (cpStateCommitment d) = Some receipt \<and>
    c = d\<lparr>cpStatus := StatusFinalized, cpAnchor := Some receipt, cpFinalizedAt := Some (clock (ssReadings s))\<rparr>"
proof -
  let ?svc = "cassandra_service H cq tree sys ctxErr clock"
  obtain r res where lat: "Store_LatestCheckpoint cq tree (ssRepo s) sys = (r, res)" by fastforce
  have ok: "store_ok tree sys (ssRepo s)" and mok: "mock_ok (cqlTimestamp cq) (ssAnchor s)"
    and inv: "history_inv H sys (cqlTimestamp cq) (store_view cq tree sys (ssRepo s))"
    using assms(1) by (auto simp: service_inv_def)
  have ans: "lookup_answer (Some d) res" using store_latest_law [OF ok lat] assms(2) by simp
  obtain h where "fst (store_view cq tree sys (ssRepo s)) = d # h"
    using assms(2) by (auto simp: latest_of_def split: list.splits)
  then have vd: "valid_checkpoint H sys d" using inv unfolding history_inv_def by (auto simp only: history_ok.simps)
  have res: "res = Inr d"
    using ans assms(4) lat by (cases res) (auto simp: lookup_answer_def Finalize_def Let_def)
  let ?s1 = "s\<lparr>ssRepo := r\<rparr>"
  have fin: "anchorAndPublish ?svc ?s1 d = (s', Inr c)"
    using assms(3,4) lat res vd by (simp add: Finalize_def stored_case pending_def)
  obtain a rc where com: "MockAnchor_Commit H ctxErr (ssAnchor s) (cpStateCommitment d) = (a, rc)" by fastforce
  then obtain receipt where rc: "rc = Inr receipt" "valid_receipt receipt"
    using fin by (cases rc) (auto simp: anchorAndPublish_def receipt_case split: if_splits)
  have "ssAnchor s' = a" "c = finalize_with receipt (clock (ssReadings s)) d"
    using fin com rc by (auto simp: anchorAndPublish_def receipt_case finalize_with_def Let_def split: prod.splits sum.splits)
  moreover have "maReceipts a (cpStateCommitment d) = Some receipt"
    using mock.commit_law [OF mok com] rc by (simp add: MockAnchor_Receipt_def)
  ultimately show ?thesis by (simp add: finalize_with_def)
qed
theorem finalize_resumes_pending_witness:
  "\<exists>s' c receipt. Finalize zero_hash (cassandra_service zero_hash plain_cql ''t'' ''s'' None (\<lambda>_. 10 ^ 18)) (Inl Diverge)
      (pending_state []) = (s', Inr c) \<and> cpSequence c = 1 \<and> cpAnchor c = Some receipt"
proof -
  have inv: "service_inv zero_hash plain_cql ''t'' ''s'' (pending_state [])" by (rule pending_state_inv) simp
  obtain s' c where run: "Finalize zero_hash (cassandra_service zero_hash plain_cql ''t'' ''s'' None (\<lambda>_. 10 ^ 18))
      (Inl Diverge) (pending_state []) = (s', Inr c)"
    using pending_state_run by blast
  from finalize_resumes_pending [OF inv pending_state_latest pending_row1_decode(1) run] run pending_row1_decode(4)
  show ?thesis by auto
qed

text \<open>C32: A call of \<^verbatim>\<open>Finalize\<close> in which no database statement fails returns a checkpoint, from every
  state of the invariant: a pending checkpoint left behind, a publication interrupted after the
  history row, or a settled history never block the service. It needs an anchor whose receipts are
  valid, a snapshot of the configured locator tree and a sequence number that is not exhausted.\<close>

theorem finalize_makes_progress:
  assumes cq: "cassandra_session cq" and clock: "\<forall>k. sane_time (cqlTimestamp cq) (clock k)"
    and inv: "service_inv H cq tree sys s" and db: "dbOutcomes (ssRepo s) = []" and live: "mock_live (ssAnchor s)"
    and snap: "rsLocatorTreeID snapshot = tree" "tree \<noteq> ''''"
    and room: "int (length (dbRoots (ssRepo s) sys)) < MaxInt64"
  shows "\<exists>s' c. Finalize H (cassandra_service H cq tree sys None clock) (Inr snapshot) s = (s', Inr c)"
proof -
  let ?svc = "cassandra_service H cq tree sys None clock" and ?v = "store_view cq tree sys (ssRepo s)"
  have ok: "store_ok tree sys (ssRepo s)" and mok: "mock_ok (cqlTimestamp cq) (ssAnchor s)"
    and hist: "history_inv H sys (cqlTimestamp cq) ?v"
    using inv by (auto simp: service_inv_def)
  note lat = store_latest_total [OF ok db, of cq] and cur = store_current_total [OF ok db, of cq]
  note new = new_checkpoint_live [OF cq clock live mok db snap]
  show ?thesis
  proof (cases "fst ?v")
    case Nil
    then have "Finalize H ?svc (Inr snapshot) s = new_checkpoint H ?svc (Inr snapshot) s 0"
      using lat by (simp add: Finalize_def latest_of_def)
    with new [of 0] show ?thesis by fastforce
  next
    case (Cons d h)
    have ho: "history_ok H sys (cqlTimestamp cq) (d # h)" and cv: "finalized d \<and> snd ?v = Some d \<or> snd ?v = head_of h"
      using hist unfolding history_inv_def Cons by (simp_all only: list.case)
    have d: "valid_checkpoint H sys d" "cpSequence d = int (length h) + 1" "\<forall>k \<in> set h. finalized k"
        "history_ok H sys (cqlTimestamp cq) h"
      using ho by (simp_all only: history_ok.simps) blast
    obtain u where u: "ParseUUID cq (cpID d) = Inr u" "cpLocatorTreeID d = tree"
      using view_named [OF ok, of d cq] Cons cassandra_session.parse_string [OF cq] by auto
    have lat': "Store_LatestCheckpoint cq tree (ssRepo s) sys = (ssRepo s, Inr d)" using lat Cons by (simp add: latest_of_def)
    have n: "int (length h) + 1 = int (length (dbRoots (ssRepo s) sys))" using arg_cong [OF Cons, of length] by (simp add: store_view_def)
    have recover: "\<exists>s' c. recover_publication ?svc s d = (s', Inr c)" if "finalized d"
      using store_publish_total [OF db that u] by (auto simp: recover_publication_def)
    show ?thesis
    proof (cases "pending d")
      case True
      then have "Finalize H ?svc (Inr snapshot) s = anchorAndPublish ?svc s d"
        using lat' d(1) by (simp add: Finalize_def stored_case pending_def)
      with anchorAndPublish_live [OF live mok db u] show ?thesis by fastforce
    next
      case False
      then have f: "finalized d" using d(1) by (simp add: valid_checkpoint_def)
      then have st: "cpStatus d = StatusFinalized" "cpStatus d \<noteq> StatusPending" by (simp_all add: finalized_def)
      show ?thesis
      proof (cases "snd ?v")
        case None
        then have "Finalize H ?svc (Inr snapshot) s = recover_publication ?svc s d"
          using lat' d(1) st cur by (simp add: Finalize_def stored_case)
        with recover [OF f] show ?thesis by simp
      next
        case (Some k)
        have k: "k = d \<or> k \<in> set h \<and> cpSequence k \<le> int (length h)"
          using cv Some head_of_mem [of h k] history_ok_sequences [OF d(4), of k] by auto
        have vk: "valid_checkpoint H sys k" "finalized k"
          using k d f history_ok_valid [OF d(4)] by auto
        have chk: "check_current H sys d k = Inr ()"
          using vk k d(2) by (auto simp: check_current_def finalized_def)
        have "Finalize H ?svc (Inr snapshot) s =
            (if cpSequence k < cpSequence d then recover_publication ?svc s d
             else new_checkpoint H ?svc (Inr snapshot) s (cpSequence d))"
          using lat' d(1,2) st cur Some chk n room by (simp add: Finalize_def stored_case)
        moreover have "\<exists>s' c. new_checkpoint H ?svc (Inr snapshot) s (cpSequence d) = (s', Inr c)"
          using new [of "cpSequence d"] d(2) n room by fastforce
        ultimately show ?thesis using recover [OF f] by (cases "cpSequence k < cpSequence d") simp_all
      qed
    qed
  qed
qed
theorem finalize_makes_progress_witness:
  "\<exists>s' c. Finalize zero_hash (cassandra_service zero_hash plain_cql ''t'' ''s'' None (\<lambda>_. 10 ^ 18))
     (Inr \<lparr>rsLocatorTreeID = ''t'', rsLocatorRoot = 5, rsGlobalHMFRoot = 6\<rparr>) (pending_state []) = (s', Inr c)"
proof -
  have inv: "service_inv zero_hash plain_cql ''t'' ''s'' (pending_state [])" by (rule pending_state_inv) simp
  show ?thesis
    by (rule finalize_makes_progress [OF plain.cassandra_session_axioms plain_clock inv _ pending_state_live])
      (simp_all add: pending_state_def)
qed

text \<open>C33: A state commitment binds what it commits to: two checkpoints that pass the validation of
  stored checkpoints and carry the same commitment have the same sequence number, locator root and
  forest root, unless the hash collides on the two committed byte strings.\<close>

theorem checkpoint_commitment_binds:
  assumes "validateStoredCheckpoint H c sys = Inr ()" and "validateStoredCheckpoint H d sys = Inr ()"
    and "cpStateCommitment c = cpStateCommitment d" and "int64 (cpSequence c)" and "int64 (cpSequence d)"
    and "inj_on H {state_input (cpSequence c) (cpLocatorRoot c) (cpGlobalHMFRoot c),
      state_input (cpSequence d) (cpLocatorRoot d) (cpGlobalHMFRoot d)}"
  shows "cpSequence c = cpSequence d \<and> cpLocatorRoot c = cpLocatorRoot d \<and> cpGlobalHMFRoot c = cpGlobalHMFRoot d"
proof -
  let ?i = "state_input (cpSequence c) (cpLocatorRoot c) (cpGlobalHMFRoot c)"
  let ?j = "state_input (cpSequence d) (cpLocatorRoot d) (cpGlobalHMFRoot d)"
  have "cpStateCommitment c = H ?i" "cpStateCommitment d = H ?j"
    using assms(1,2) by (simp_all add: valid_checkpoint_def committed_def)
  with assms(3) have "H ?i = H ?j" by metis
  then have "?i = ?j" by (rule inj_onD [OF assms(6)]) simp_all
  from state_input_inject [OF this] assms(4,5) show ?thesis by simp
qed

theorem checkpoint_commitment_binds_witness:
  "let c = decode plain_cql ''t'' pending_row1 in
     cpLocatorRoot c = cpLocatorRoot (finalize_with \<lparr>arTransactionHash = ''0x'', arBlockHeight = 3, arAnchoredAt = 0\<rparr> 1 c)"
proof -
  let ?c = "decode plain_cql ''t'' pending_row1"
  let ?d = "finalize_with \<lparr>arTransactionHash = ''0x'', arBlockHeight = 3, arAnchoredAt = 0\<rparr> 1 ?c"
  have "service_inv zero_hash plain_cql ''t'' ''s'' (pending_state [])" by (rule pending_state_inv) simp
  then have c: "valid_checkpoint zero_hash ''s'' ?c"
    by (simp add: service_inv_def history_inv_def store_view_def pending_state_def)
  then have "valid_checkpoint zero_hash ''s'' ?d"
    by (simp add: valid_checkpoint_def committed_def valid_receipt_def IsZero_def time_zero_def)
  moreover have "int64 (cpSequence ?c)" by (simp add: pending_row1_decode int64_def)
  ultimately show ?thesis
    using checkpoint_commitment_binds [of zero_hash ?c "''s''" ?d] c by (simp only: validateStored_Inr finalize_with_simps) simp
qed

end
