(* ===== verification/Locator_Key.thy ===== *)
theory Locator_Key
  imports HMF_Domain
begin

text \<open>
  \<^verbatim>\<open>internal/all/locator_key.go\<close> and the key and value types of \<^verbatim>\<open>locator_types.go\<close>: the order of
  locator keys and the encodings that page hashes are computed over. The order is a strict total
  order; an encoding determines its key as long as the event time fits the 64-bit nanosecond clock,
  and does not determine it otherwise.
\<close>

record LocatorKey =
  lkLogID :: uuid
  lkEventTime :: time
  lkRegionID :: string
  lkTenantID :: string
  lkServiceID :: string
  lkLogType :: string

record LocatorValue =
  lvRegionID :: string
  lvShardID :: string
  lvSegmentID :: string
  lvLeafID :: string

text \<open>\<^verbatim>\<open>uuid.UUID.Compare\<close> compares the sixteen bytes lexicographically, which is the order of the
  big-endian numbers.\<close>

definition uuid_Compare :: "uuid \<Rightarrow> uuid \<Rightarrow> int" where
  "uuid_Compare a b = (if a < b then -1 else if a = b then 0 else 1)"

definition Compare :: "LocatorKey \<Rightarrow> LocatorKey \<Rightarrow> int" where
  "Compare key other =
     (if lkTenantID key \<noteq> lkTenantID other then (if lkTenantID key < lkTenantID other then -1 else 1)
      else if lkServiceID key \<noteq> lkServiceID other then (if lkServiceID key < lkServiceID other then -1 else 1)
      else if lkLogType key \<noteq> lkLogType other then (if lkLogType key < lkLogType other then -1 else 1)
      else if lkRegionID key \<noteq> lkRegionID other then (if lkRegionID key < lkRegionID other then -1 else 1)
      else if lkEventTime key \<noteq> lkEventTime other then (if lkEventTime key < lkEventTime other then -1 else 1)
      else uuid_Compare (lkLogID key) (lkLogID other))"

definition key_Less :: "LocatorKey \<Rightarrow> LocatorKey \<Rightarrow> bool" where
  "key_Less key other \<longleftrightarrow> Compare key other < 0"

definition encodeKey :: "LocatorKey \<Rightarrow> byte list" where
  "encodeKey key =
     writeString (lkTenantID key) @ writeString (lkServiceID key) @ writeString (lkLogType key) @
     writeString (lkRegionID key) @ writeInt64 (UnixNano (lkEventTime key)) @ uuid_bytes (lkLogID key)"

definition encodeValue :: "LocatorValue option \<Rightarrow> byte list" where
  "encodeValue value =
     (case value of None \<Rightarrow> [0]
      | Some v \<Rightarrow> 1 # writeString (lvRegionID v) @ writeString (lvShardID v) @ writeString (lvSegmentID v) @
          writeString (lvLeafID v))"

section \<open>The order\<close>

text \<open>The key order is the lexicographic order of the six attributes.\<close>

definition key_tuple :: "LocatorKey \<Rightarrow> string \<times> string \<times> string \<times> string \<times> time \<times> uuid" where
  "key_tuple k = (lkTenantID k, lkServiceID k, lkLogType k, lkRegionID k, lkEventTime k, lkLogID k)"

lemma key_tuple_inject [simp]: "key_tuple a = key_tuple b \<longleftrightarrow> a = b"
  by (cases a; cases b) (auto simp: key_tuple_def)

lemma Compare_less: "Compare a b < 0 \<longleftrightarrow> key_tuple a < key_tuple b"
  by (auto simp: Compare_def uuid_Compare_def key_tuple_def less_prod_simp)

lemma Compare_eq: "Compare a b = 0 \<longleftrightarrow> a = b"
  by (cases a; cases b) (auto simp: Compare_def uuid_Compare_def split: if_splits)

lemma Compare_values: "Compare a b \<in> {-1, 0, 1}"
  by (auto simp: Compare_def uuid_Compare_def)

lemma Compare_swap: "Compare b a = - Compare a b"
  using Compare_values [of a b] Compare_values [of b a] Compare_eq [of a b] Compare_eq [of b a]
    Compare_less [of a b] Compare_less [of b a] less_linear [of "key_tuple a" "key_tuple b"]
    less_not_sym [of "key_tuple a" "key_tuple b"]
  by auto

interpretation key_order: strict_total key_Less
proof unfold_locales
  show "x \<noteq> y \<Longrightarrow> key_Less x y \<or> key_Less y x" for x y
    using less_linear [of "key_tuple x" "key_tuple y"] by (auto simp: key_Less_def Compare_less)
qed (auto simp: key_Less_def Compare_less)

lemma Compare_ge: "0 \<le> Compare a b \<longleftrightarrow> \<not> key_Less a b"
  by (auto simp: key_Less_def)

section \<open>The encodings\<close>

definition encodable_key :: "LocatorKey \<Rightarrow> bool" where
  "encodable_key k \<longleftrightarrow> length (lkTenantID k) < 2 ^ 32 \<and> length (lkServiceID k) < 2 ^ 32 \<and>
     length (lkLogType k) < 2 ^ 32 \<and> length (lkRegionID k) < 2 ^ 32 \<and> int64 (lkEventTime k)"

definition encodable_value :: "LocatorValue option \<Rightarrow> bool" where
  "encodable_value v \<longleftrightarrow> (\<forall>w. v = Some w \<longrightarrow> length (lvRegionID w) < 2 ^ 32 \<and> length (lvShardID w) < 2 ^ 32 \<and>
     length (lvSegmentID w) < 2 ^ 32 \<and> length (lvLeafID w) < 2 ^ 32)"

text \<open>Readers that consume one encoded key or value and leave the rest.\<close>

definition readKey :: "LocatorKey reader" where
  "readKey r =
     rbind (readString r) (\<lambda>(tenantID, r). rbind (readString r) (\<lambda>(serviceID, r).
     rbind (readString r) (\<lambda>(logType, r). rbind (readString r) (\<lambda>(regionID, r).
     rbind (readInt64 r) (\<lambda>(eventTime, r). rbind (readUUID r) (\<lambda>(logID, r).
     Inr (\<lparr>lkLogID = logID, lkEventTime = eventTime, lkRegionID = regionID, lkTenantID = tenantID,
       lkServiceID = serviceID, lkLogType = logType\<rparr>, r)))))))"

definition readValue :: "LocatorValue option reader" where
  "readValue r = rbind (readByte r) (\<lambda>(present, r).
     if present = 0 then Inr (None, r)
     else rbind (readString r) (\<lambda>(regionID, r). rbind (readString r) (\<lambda>(shardID, r).
       rbind (readString r) (\<lambda>(segmentID, r). rbind (readString r) (\<lambda>(leafID, r).
       Inr (Some \<lparr>lvRegionID = regionID, lvShardID = shardID, lvSegmentID = segmentID, lvLeafID = leafID\<rparr>, r))))))"

interpretation key_codec: codec encodeKey readKey encodable_key
  by unfold_locales
    (simp add: encodeKey_def readKey_def encodable_key_def UnixNano_def string_codec.dec_enc int64_codec.dec_enc
      uuid_codec.dec_enc)

interpretation value_codec: codec encodeValue readValue encodable_value
proof
  fix v :: "LocatorValue option" and rest :: "byte list"
  assume "encodable_value v"
  then show "readValue (encodeValue v @ rest) = Inr (v, rest)"
    by (cases v) (simp_all add: encodeValue_def readValue_def encodable_value_def readByte_def string_codec.dec_enc)
qed

text \<open>A key whose event time does not fit is encoded like the key with the wrapped event time.\<close>

lemma encodeKey_wrap: "encodeKey k = encodeKey (k\<lparr>lkEventTime := wrap64 (lkEventTime k)\<rparr>)"
  by (simp add: encodeKey_def UnixNano_def)

lemma length_encodeKey: "length (encodeKey k) = 40 + length (lkTenantID k) + length (lkServiceID k) +
    length (lkLogType k) + length (lkRegionID k)"
  by (simp add: encodeKey_def writeString_def writeUint32_def writeInt64_def)

end
