(* ===== verification/Locator_Page.thy ===== *)
theory Locator_Page
  imports Locator_Key
begin

text \<open>
  \<^verbatim>\<open>internal/all/locator_page.go\<close> and \<^verbatim>\<open>page_codec.go\<close>: pages of the locator tree, their hashes and
  their stored form. A page is generic in what a page pointer is: a decoded page points to stubs
  that hold the identifier and the hash of another page (\<open>PageRef\<close>); a page of the tree in memory
  points into a heap. The hash input of a page determines its contents, whatever the number of its
  keys, and unmarshalling inverts marshalling.
\<close>

section \<open>Pages and their hashes\<close>

record PageRef =
  prPageID :: int
  prHash :: hash

record 'p Page =
  pgPageID :: int
  pgHash :: hash
  pgIsLeaf :: bool
  pgKeys :: "LocatorKey list"
  pgParent :: "'p option"
  pgParentPageID :: "int option"
  pgValues :: "LocatorValue option list"
  pgNext :: "'p option"
  pgChildren :: "'p list"

record 'p LocatorUpdate =
  luPages :: "'p Page list"
  luRootPageID :: int
  luRootHash :: hash
  luNextPageID :: int
  luHeight :: int
  luRecordCount :: int

definition concatEncKeys :: "LocatorKey list \<Rightarrow> byte list \<Rightarrow> byte list" where
  "concatEncKeys keys prefix = prefix @ concat (map encodeKey keys)"

definition concatEncChild :: "hash list \<Rightarrow> byte list \<Rightarrow> byte list" where
  "concatEncChild hashes prefix = prefix @ concat (map hash_bytes hashes)"

fun findKeyIdx :: "LocatorKey list \<Rightarrow> LocatorKey \<Rightarrow> nat" where
  "findKeyIdx [] currKey = 0"
| "findKeyIdx (key # keys) currKey = (if key_Less currKey key then 0 else Suc (findKeyIdx keys currKey))"

definition leaf_input :: "int \<Rightarrow> int option \<Rightarrow> LocatorKey list \<Rightarrow> LocatorValue option list \<Rightarrow> byte list" where
  "leaf_input pageID nextPageID keys values =
     string_bytes ''LEAF'' @ writeInt64 pageID @
     (case nextPageID of None \<Rightarrow> [0] | Some n \<Rightarrow> 1 # writeInt64 n) @
     concat (map (\<lambda>(key, value). encodeKey key @ encodeValue value) (zip keys values))"

definition internal_input :: "LocatorKey list \<Rightarrow> hash list \<Rightarrow> byte list" where
  "internal_input keys hashes = concatEncChild hashes (concatEncKeys keys (string_bytes ''INTERNAL''))"

text \<open>\<open>deref\<close> gives what a page pointer points to. A leaf with more keys than values panics.\<close>

definition leafHash :: "hash_fn \<Rightarrow> ('p \<Rightarrow> PageRef) \<Rightarrow> 'p Page \<Rightarrow> hash result" where
  "leafHash H deref page =
     (if length (pgValues page) < length (pgKeys page) then Inl (Panic ''index out of range'')
      else Inr (H (leaf_input (pgPageID page) (map_option (prPageID \<circ> deref) (pgNext page)) (pgKeys page) (pgValues page))))"

definition internalHash :: "hash_fn \<Rightarrow> ('p \<Rightarrow> PageRef) \<Rightarrow> 'p Page \<Rightarrow> hash" where
  "internalHash H deref page = H (internal_input (pgKeys page) (map (prHash \<circ> deref) (pgChildren page)))"

section \<open>The stored form\<close>

definition PageFormatVersion :: nat where "PageFormatVersion = 2"

definition MarshalPage :: "('p \<Rightarrow> PageRef) \<Rightarrow> 'p Page \<Rightarrow> byte list result" where
  "MarshalPage deref page =
     (if pgIsLeaf page \<and> length (pgKeys page) \<noteq> length (pgValues page)
      then Inl (Errorf ''marshal page %d: leaf keys and values do not match'')
      else if \<not> pgIsLeaf page \<and> length (pgChildren page) \<noteq> length (pgKeys page) + 1
      then Inl (Errorf ''marshal page %d: internal keys and children do not match'')
      else Inr ([word_of_nat PageFormatVersion, if pgIsLeaf page then 1 else 0] @
        writeUint32 (length (pgKeys page) mod 2 ^ 32) @ concat (map (writeBytes \<circ> encodeKey) (pgKeys page)) @
        (if pgIsLeaf page then concat (map (writeBytes \<circ> encodeValue) (pgValues page))
         else concat (map (\<lambda>c. writeInt64 (prPageID (deref c)) @ hash_bytes (prHash (deref c))) (pgChildren page)))))"

definition unmarshalKey :: "byte list \<Rightarrow> LocatorKey result" where
  "unmarshalKey data =
     rbind (rwrap ''unmarshal key: tenant ID: %w'' (readString data)) (\<lambda>(tenantID, r).
     rbind (rwrap ''unmarshal key: service ID: %w'' (readString r)) (\<lambda>(serviceID, r).
     rbind (rwrap ''unmarshal key: log type: %w'' (readString r)) (\<lambda>(logType, r).
     rbind (rwrap ''unmarshal key: region ID: %w'' (readString r)) (\<lambda>(regionID, r).
     rbind (rwrap ''unmarshal key: event time: %w'' (readInt64 r)) (\<lambda>(eventTime, r).
     rbind (rwrap ''unmarshal key: log ID: %w'' (readUUID r)) (\<lambda>(logID, r).
     if length r \<noteq> 0 then Inl (Errorf ''unmarshal key: unexpected trailing data'')
     else Inr \<lparr>lkLogID = logID, lkEventTime = eventTime, lkRegionID = regionID, lkTenantID = tenantID,
       lkServiceID = serviceID, lkLogType = logType\<rparr>))))))"

definition unmarshalValue :: "byte list \<Rightarrow> LocatorValue option result" where
  "unmarshalValue data =
     rbind (rwrap ''unmarshal value: read presence: %w'' (readByte data)) (\<lambda>(present, r).
     if present = 0
     then (if length r \<noteq> 0 then Inl (Errorf ''unmarshal value: unexpected trailing data'') else Inr None)
     else if present \<noteq> 1 then Inl (Errorf ''unmarshal value: invalid presence %d'')
     else
     rbind (rwrap ''unmarshal value: region ID: %w'' (readString r)) (\<lambda>(regionID, r).
     rbind (rwrap ''unmarshal value: shard ID: %w'' (readString r)) (\<lambda>(shardID, r).
     rbind (rwrap ''unmarshal value: segment ID: %w'' (readString r)) (\<lambda>(segmentID, r).
     rbind (rwrap ''unmarshal value: leaf ID: %w'' (readString r)) (\<lambda>(leafID, r).
     if length r \<noteq> 0 then Inl (Errorf ''unmarshal value: unexpected trailing data'')
     else Inr (Some \<lparr>lvRegionID = regionID, lvShardID = shardID, lvSegmentID = segmentID, lvLeafID = leafID\<rparr>))))))"

text \<open>A loop that reads \<open>n\<close> items one after the other.\<close>

fun read_items :: "'a reader \<Rightarrow> nat \<Rightarrow> 'a list reader" where
  "read_items rd 0 r = Inr ([], r)"
| "read_items rd (Suc n) r = rbind (rd r) (\<lambda>(x, r'). rbind (read_items rd n r') (\<lambda>(xs, r''). Inr (x # xs, r'')))"

definition read_key :: "LocatorKey reader" where
  "read_key r = rbind (rwrap ''unmarshal page: read key: %w'' (readBytes r)) (\<lambda>(keyData, r').
     rbind (unmarshalKey keyData) (\<lambda>key. Inr (key, r')))"

definition read_value :: "LocatorValue option reader" where
  "read_value r = rbind (rwrap ''unmarshal page: read value: %w'' (readBytes r)) (\<lambda>(valueData, r').
     rbind (unmarshalValue valueData) (\<lambda>value. Inr (value, r')))"

definition read_child :: "PageRef reader" where
  "read_child r = rbind (rwrap ''unmarshal page: read child page ID: %w'' (readInt64 r)) (\<lambda>(pageID, r').
     rbind (rwrap ''unmarshal page: read child hash: %w'' (readHash r')) (\<lambda>(hash, r'').
     Inr (\<lparr>prPageID = pageID, prHash = hash\<rparr>, r'')))"

text \<open>
  The counts are 32-bit: \<^verbatim>\<open>keyCount + 1\<close> cannot wrap because a count of \<open>2 ^ 32 - 1\<close> keys needs more
  bytes than were read.
\<close>

definition UnmarshalPage :: "byte list \<Rightarrow> PageRef Page result" where
  "UnmarshalPage data =
     rbind (rwrap ''unmarshal page: read format version: %w'' (readByte data)) (\<lambda>(version, r).
     if unat version \<noteq> PageFormatVersion then Inl (Errorf ''unmarshal page: unsupported format version %d'')
     else
     rbind (rwrap ''unmarshal page: read page type: %w'' (readByte r)) (\<lambda>(isLeaf, r).
     if isLeaf \<noteq> 0 \<and> isLeaf \<noteq> 1 then Inl (Errorf ''unmarshal page: invalid page type %d'')
     else
     rbind (rwrap ''unmarshal page: read key count: %w'' (readUint32 r)) (\<lambda>(keyCount, r).
     if keyCount > length r div 4 then Inl (Errorf ''unmarshal page: invalid key count %d'')
     else
     rbind (read_items read_key keyCount r) (\<lambda>(keys, r).
     rbind (if isLeaf = 1
       then (if keyCount > length r div 4 then Inl (Errorf ''unmarshal page: invalid value count %d'')
             else rbind (read_items read_value keyCount r) (\<lambda>(values, r). Inr ((values, []), r)))
       else (if keyCount + 1 > length r div 40 then Inl (Errorf ''unmarshal page: invalid child count %d'')
             else rbind (read_items read_child ((keyCount + 1) mod 2 ^ 32) r) (\<lambda>(children, r). Inr (([], children), r))))
     (\<lambda>((values, children), r).
     if length r \<noteq> 0 then Inl (Errorf ''unmarshal page: unexpected trailing data'')
     else Inr \<lparr>pgPageID = 0, pgHash = 0, pgIsLeaf = (isLeaf = 1), pgKeys = keys, pgParent = None,
       pgParentPageID = None, pgValues = values, pgNext = None, pgChildren = children\<rparr>)))))"

definition copyInt64Pointer :: "int option \<Rightarrow> int option" where
  "copyInt64Pointer value = (case value of None \<Rightarrow> None | Some copy \<Rightarrow> Some copy)"

definition UnmarshalStoredPage ::
  "hash_fn \<Rightarrow> byte list \<Rightarrow> int \<Rightarrow> int option \<Rightarrow> int option \<Rightarrow> byte list \<Rightarrow> PageRef Page result" where
  "UnmarshalStoredPage H data pageID parentPageID nextPageID pageHash =
     (if length pageHash \<noteq> 32 then Inl (Errorf ''unmarshal stored page %d: page hash has %d bytes, want 32'')
      else rbind (rwrap ''unmarshal stored page %d: %w'' (UnmarshalPage data)) (\<lambda>page0.
        let page = page0\<lparr>pgPageID := pageID, pgParentPageID := copyInt64Pointer parentPageID,
              pgNext := map_option (\<lambda>n. \<lparr>prPageID = n, prHash = 0\<rparr>) nextPageID, pgHash := hash_of_bytes pageHash\<rparr>
        in rbind (if pgIsLeaf page then leafHash H (\<lambda>r. r) page else Inr (internalHash H (\<lambda>r. r) page)) (\<lambda>computed.
           if hash_bytes computed \<noteq> hash_bytes (pgHash page)
           then Inl (Errorf ''unmarshal stored page %d: page hash does not match page data'')
           else Inr page)))"

section \<open>Canonical readers\<close>

text \<open>
  A reader is canonical when what it accepts is what the writer writes: no two byte strings are
  read as the same value.
\<close>

locale canonical_codec = codec enc dec valid for enc :: "'a \<Rightarrow> byte list" and dec :: "'a reader" and valid +
  assumes enc_dec: "dec bs = Inr (x, r) \<Longrightarrow> bs = enc x @ r \<and> valid x"
begin

lemma read_items_enc: "\<forall>x \<in> set xs. valid x \<Longrightarrow> read_items dec (length xs) (concat (map enc xs) @ rest) = Inr (xs, rest)"
  by (induction xs) (simp_all add: dec_enc)

lemma read_items_dec:
  "read_items dec n bs = Inr (xs, r) \<Longrightarrow> bs = concat (map enc xs) @ r \<and> length xs = n \<and> (\<forall>x \<in> set xs. valid x)"
proof (induction n arbitrary: bs xs)
  case (Suc n)
  then obtain x r' ys where step: "dec bs = Inr (x, r')" "read_items dec n r' = Inr (ys, r)" "xs = x # ys"
    by auto
  with Suc.IH [OF step(2)] enc_dec [OF step(1)] show ?case by simp
qed simp

end

lemma readFull_Inr: "readFull n r = Inr (bs, r') \<Longrightarrow> r = bs @ r' \<and> length bs = n"
  by (auto simp: readFull_def split: if_splits)

interpretation uint32_canonical: canonical_codec writeUint32 readUint32 "\<lambda>v. v < 2 ^ 32"
proof
  fix bs r :: "byte list" and x
  assume "readUint32 bs = Inr (x, r)"
  then obtain b where "readFull 4 bs = Inr (b, r)" "x = be_nat b" by (auto simp: readUint32_def)
  with readFull_Inr [of 4 bs b r] be_bytes_be_nat [of b] be_nat_less [of b] show "bs = writeUint32 x @ r \<and> x < 2 ^ 32"
    by (auto simp: writeUint32_def)
qed

interpretation int64_canonical: canonical_codec writeInt64 readInt64 int64
proof
  fix bs r :: "byte list" and x
  assume "readInt64 bs = Inr (x, r)"
  then obtain b where b: "readFull 8 bs = Inr (b, r)" "x = wrap64 (int (be_nat b))" by (auto simp: readInt64_def)
  then have len: "length b = 8" "bs = b @ r" using readFull_Inr by auto
  then have "be_nat b < 2 ^ 64" using be_nat_less [of b] by simp
  then have "writeInt64 x = be_bytes 8 (be_nat b)" unfolding b(2) writeInt64_wrap64 by (simp add: writeInt64_def)
  with len be_bytes_be_nat [of b] b(2) show "bs = writeInt64 x @ r \<and> int64 x" by simp
qed

interpretation hash_canonical: canonical_codec hash_bytes readHash "\<lambda>_. True"
proof
  fix bs r :: "byte list" and x
  assume "readHash bs = Inr (x, r)"
  then obtain b where "readFull 32 bs = Inr (b, r)" "x = hash_of_bytes b" by (auto simp: readHash_def)
  with readFull_Inr [of 32 bs b r] hash_bytes_of_bytes [of b] show "bs = hash_bytes x @ r \<and> True" by auto
qed

lemma uuid_bytes_of_bytes: "length bs = 16 \<Longrightarrow> uuid_bytes (uuid_of_bytes bs) = bs"
  using be_nat_less [of bs] be_bytes_be_nat [of bs]
  by (simp add: uuid_bytes_def uuid_of_bytes_def unsigned_of_nat take_bit_eq_mod)

interpretation uuid_canonical: canonical_codec uuid_bytes readUUID "\<lambda>_. True"
proof
  fix bs r :: "byte list" and x
  assume "readUUID bs = Inr (x, r)"
  then obtain b where "readFull 16 bs = Inr (b, r)" "x = uuid_of_bytes b" by (auto simp: readUUID_def)
  with readFull_Inr [of 16 bs b r] uuid_bytes_of_bytes [of b] show "bs = uuid_bytes x @ r \<and> True" by auto
qed

interpretation bytes_canonical: canonical_codec writeBytes readBytes "\<lambda>v. length v < 2 ^ 32"
proof
  fix bs r x
  assume "readBytes bs = Inr (x, r)"
  then obtain n r' where n: "readUint32 bs = Inr (n, r')" "readFull n r' = Inr (x, r)"
    by (auto simp: readBytes_def split: if_splits)
  with uint32_canonical.enc_dec [OF n(1)] readFull_Inr [OF n(2)] show "bs = writeBytes x @ r \<and> length x < 2 ^ 32"
    by (auto simp: writeBytes_def)
qed

interpretation string_canonical: canonical_codec writeString readString "\<lambda>s. length s < 2 ^ 32"
proof
  fix bs r x
  assume "readString bs = Inr (x, r)"
  then obtain v where v: "readBytes bs = Inr (v, r)" "x = bytes_string v" by (auto simp: readString_def)
  with bytes_canonical.enc_dec [OF v(1)] show "bs = writeString x @ r \<and> length x < 2 ^ 32"
    by (simp add: writeString_writeBytes) (simp add: bytes_string_def)
qed

lemma unmarshalKey_iff: "unmarshalKey data = Inr k \<longleftrightarrow> data = encodeKey k \<and> encodable_key k"
proof
  assume "unmarshalKey data = Inr k"
  then obtain t r1 s r2 l r3 g r4 e r5 u r6 where st: "readString data = Inr (t, r1)" "readString r1 = Inr (s, r2)"
    "readString r2 = Inr (l, r3)" "readString r3 = Inr (g, r4)" "readInt64 r4 = Inr (e, r5)" "readUUID r5 = Inr (u, r6)"
    "r6 = []" "k = \<lparr>lkLogID = u, lkEventTime = e, lkRegionID = g, lkTenantID = t, lkServiceID = s, lkLogType = l\<rparr>"
    by (auto simp: unmarshalKey_def split: if_splits)
  note dec = string_canonical.enc_dec [OF st(1)] string_canonical.enc_dec [OF st(2)] string_canonical.enc_dec [OF st(3)]
    string_canonical.enc_dec [OF st(4)] int64_canonical.enc_dec [OF st(5)] uuid_canonical.enc_dec [OF st(6)]
  then show "data = encodeKey k \<and> encodable_key k"
    using st(7,8) by (simp add: encodeKey_def encodable_key_def UnixNano_def)
next
  assume "data = encodeKey k \<and> encodable_key k"
  then show "unmarshalKey data = Inr k"
    by (simp add: unmarshalKey_def encodeKey_def encodable_key_def UnixNano_def string_codec.dec_enc int64_codec.dec_enc
        uuid_codec.dec_enc_all)
qed

lemma unmarshalValue_iff: "unmarshalValue data = Inr v \<longleftrightarrow> data = encodeValue v \<and> encodable_value v"
proof
  assume L: "unmarshalValue data = Inr v"
  then obtain b r where b: "data = b # r" by (auto simp: unmarshalValue_def readByte_def split: list.splits)
  show "data = encodeValue v \<and> encodable_value v"
  proof (cases "b = 0")
    case True
    then show ?thesis using L b
      by (auto simp: unmarshalValue_def readByte_def encodeValue_def encodable_value_def split: if_splits)
  next
    case False
    then obtain g r1 s r2 m r3 l r4 where st: "readString r = Inr (g, r1)" "readString r1 = Inr (s, r2)"
      "readString r2 = Inr (m, r3)" "readString r3 = Inr (l, r4)" "r4 = []" "b = 1"
      "v = Some \<lparr>lvRegionID = g, lvShardID = s, lvSegmentID = m, lvLeafID = l\<rparr>"
      using L b by (auto simp: unmarshalValue_def readByte_def split: if_splits)
    note dec = string_canonical.enc_dec [OF st(1)] string_canonical.enc_dec [OF st(2)] string_canonical.enc_dec [OF st(3)]
      string_canonical.enc_dec [OF st(4)]
    then show ?thesis using st b by (simp add: encodeValue_def encodable_value_def)
  qed
next
  assume "data = encodeValue v \<and> encodable_value v"
  then show "unmarshalValue data = Inr v"
    by (cases v) (simp_all add: unmarshalValue_def encodeValue_def encodable_value_def readByte_def string_codec.dec_enc
        string_codec.dec_enc_all)
qed

section \<open>Round trips\<close>

interpretation page_key: canonical_codec "writeBytes \<circ> encodeKey" read_key
  "\<lambda>k. encodable_key k \<and> length (encodeKey k) < 2 ^ 32"
proof
  fix x rest
  assume "encodable_key x \<and> length (encodeKey x) < 2 ^ 32"
  then show "read_key ((writeBytes \<circ> encodeKey) x @ rest) = Inr (x, rest)"
    by (simp add: read_key_def bytes_codec.dec_enc unmarshalKey_iff)
next
  fix bs x r
  assume "read_key bs = Inr (x, r)"
  then obtain d where "readBytes bs = Inr (d, r)" "unmarshalKey d = Inr x" by (auto simp: read_key_def)
  with bytes_canonical.enc_dec [of bs d r]
  show "bs = (writeBytes \<circ> encodeKey) x @ r \<and> encodable_key x \<and> length (encodeKey x) < 2 ^ 32"
    by (auto simp: unmarshalKey_iff)
qed

interpretation page_value: canonical_codec "writeBytes \<circ> encodeValue" read_value
  "\<lambda>v. encodable_value v \<and> length (encodeValue v) < 2 ^ 32"
proof
  fix x rest
  assume "encodable_value x \<and> length (encodeValue x) < 2 ^ 32"
  then show "read_value ((writeBytes \<circ> encodeValue) x @ rest) = Inr (x, rest)"
    by (simp add: read_value_def bytes_codec.dec_enc unmarshalValue_iff)
next
  fix bs x r
  assume "read_value bs = Inr (x, r)"
  then obtain d where "readBytes bs = Inr (d, r)" "unmarshalValue d = Inr x" by (auto simp: read_value_def)
  with bytes_canonical.enc_dec [of bs d r]
  show "bs = (writeBytes \<circ> encodeValue) x @ r \<and> encodable_value x \<and> length (encodeValue x) < 2 ^ 32"
    by (auto simp: unmarshalValue_iff)
qed

definition encodeChild :: "PageRef \<Rightarrow> byte list" where
  "encodeChild c = writeInt64 (prPageID c) @ hash_bytes (prHash c)"

interpretation page_child: canonical_codec encodeChild read_child "\<lambda>c. int64 (prPageID c)"
proof
  fix x :: PageRef and rest
  assume "int64 (prPageID x)"
  then show "read_child (encodeChild x @ rest) = Inr (x, rest)"
    by (simp add: read_child_def encodeChild_def int64_codec.dec_enc hash_codec.dec_enc)
next
  fix bs x r
  assume "read_child bs = Inr (x, r)"
  then obtain i r' h where c: "readInt64 bs = Inr (i, r')" "readHash r' = Inr (h, r)" "x = \<lparr>prPageID = i, prHash = h\<rparr>"
    by (auto simp: read_child_def)
  with int64_canonical.enc_dec [OF c(1)] hash_canonical.enc_dec [OF c(2)] show "bs = encodeChild x @ r \<and> int64 (prPageID x)"
    by (simp add: encodeChild_def)
qed

text \<open>The contents a stored page can hold.\<close>

definition storable :: "PageRef Page \<Rightarrow> bool" where
  "storable page \<longleftrightarrow> length (pgKeys page) + 1 < 2 ^ 32 \<and>
     (\<forall>k \<in> set (pgKeys page). encodable_key k \<and> length (encodeKey k) < 2 ^ 32) \<and>
     (if pgIsLeaf page then length (pgValues page) = length (pgKeys page) \<and> pgChildren page = [] \<and>
        (\<forall>v \<in> set (pgValues page). encodable_value v \<and> length (encodeValue v) < 2 ^ 32)
      else length (pgChildren page) = length (pgKeys page) + 1 \<and> pgValues page = [] \<and>
        (\<forall>c \<in> set (pgChildren page). int64 (prPageID c)))"

text \<open>What the columns beside \<^verbatim>\<open>page_data\<close> hold is not part of the stored form.\<close>

definition page_content :: "PageRef Page \<Rightarrow> PageRef Page" where
  "page_content page = page\<lparr>pgPageID := 0, pgHash := 0, pgParent := None, pgParentPageID := None, pgNext := None\<rparr>"

definition page_bytes :: "PageRef Page \<Rightarrow> byte list" where
  "page_bytes page = [2, if pgIsLeaf page then 1 else 0] @ writeUint32 (length (pgKeys page)) @
     concat (map (writeBytes \<circ> encodeKey) (pgKeys page)) @
     (if pgIsLeaf page then concat (map (writeBytes \<circ> encodeValue) (pgValues page))
      else concat (map encodeChild (pgChildren page)))"

lemma MarshalPage_storable: "storable page \<Longrightarrow> MarshalPage (\<lambda>r. r) page = Inr (page_bytes page)"
  by (auto simp: MarshalPage_def storable_def page_bytes_def PageFormatVersion_def encodeChild_def [abs_def])

lemma length_concat_ge: "\<forall>x \<in> set xs. n \<le> length (f x) \<Longrightarrow> n * length xs \<le> length (concat (map f xs))"
  by (induction xs) auto

lemma item_sizes:
  "4 * length ks \<le> length (concat (map (writeBytes \<circ> encodeKey) ks))"
  "4 * length vs \<le> length (concat (map (writeBytes \<circ> encodeValue) vs))"
  "40 * length cs \<le> length (concat (map encodeChild cs))"
  by (auto intro!: length_concat_ge simp: writeBytes_def writeUint32_def encodeChild_def writeInt64_def)

lemma UnmarshalPage_bytes:
  assumes "storable page"
  shows "UnmarshalPage (page_bytes page) = Inr (page_content page)"
proof -
  let ?ks = "pgKeys page"
  have n: "length ?ks + 1 < 2 ^ 32" using assms by (simp add: storable_def)
  have keys: "read_items read_key (length ?ks) (concat (map (writeBytes \<circ> encodeKey) ?ks) @ rest) = Inr (?ks, rest)" for rest
    using assms by (intro page_key.read_items_enc) (simp add: storable_def)
  have count: "readUint32 (writeUint32 (length ?ks) @ rest) = Inr (length ?ks, rest)" for rest
    using n by (simp add: uint32_codec.dec_enc)
  have ksz: "\<not> length ?ks > length (concat (map (writeBytes \<circ> encodeKey) ?ks) @ rest) div 4" for rest
    using item_sizes(1) [of ?ks] by (simp add: not_less)
  show ?thesis
  proof (cases "pgIsLeaf page")
    case True
    have vs: "read_items read_value (length ?ks) (concat (map (writeBytes \<circ> encodeValue) (pgValues page))) = Inr (pgValues page, [])"
      using assms True page_value.read_items_enc [of "pgValues page" "[]"] by (simp add: storable_def)
    have vsz: "\<not> length ?ks > length (concat (map (writeBytes \<circ> encodeValue) (pgValues page))) div 4"
      using item_sizes(2) [of "pgValues page"] assms True by (simp add: not_less storable_def)
    have "pgChildren page = []" using assms True by (simp add: storable_def)
    then show ?thesis
      using True keys count ksz vs vsz
      by (cases page) (simp add: UnmarshalPage_def page_bytes_def page_content_def readByte_def PageFormatVersion_def)
  next
    case False
    have m: "(length ?ks + 1) mod 2 ^ 32 = length (pgChildren page)" "length (pgChildren page) = length ?ks + 1"
      using n assms False by (simp_all add: storable_def)
    have cs: "read_items read_child (length (pgChildren page)) (concat (map encodeChild (pgChildren page))) = Inr (pgChildren page, [])"
      using assms False page_child.read_items_enc [of "pgChildren page" "[]"] by (simp add: storable_def)
    have csz: "\<not> length ?ks + 1 > length (concat (map encodeChild (pgChildren page))) div 40"
      using item_sizes(3) [of "pgChildren page"] m(2) by simp
    have "pgValues page = []" using assms False by (simp add: storable_def)
    then show ?thesis
      using False keys count ksz cs csz m(1)
      by (cases page) (simp add: UnmarshalPage_def page_bytes_def page_content_def readByte_def PageFormatVersion_def)
  qed
qed

lemma UnmarshalPage_Inr:
  assumes "UnmarshalPage data = Inr page" and "length data < 2 ^ 32"
  shows "storable page \<and> data = page_bytes page \<and> page_content page = page"
proof -
  obtain b0 b1 r0 n r1 keys r2 where st: "data = b0 # b1 # r0" "unat b0 = 2" "b1 = 0 \<or> b1 = 1"
      "readUint32 r0 = Inr (n, r1)" "n \<le> length r1 div 4" "read_items read_key n r1 = Inr (keys, r2)"
    and tail: "(b1 = 1 \<and> (\<exists>vs. read_items read_value n r2 = Inr (vs, []) \<and>
        page = \<lparr>pgPageID = 0, pgHash = 0, pgIsLeaf = True, pgKeys = keys, pgParent = None, pgParentPageID = None,
          pgValues = vs, pgNext = None, pgChildren = []\<rparr>)) \<or>
      (b1 = 0 \<and> (\<exists>cs. read_items read_child ((n + 1) mod 2 ^ 32) r2 = Inr (cs, []) \<and>
        page = \<lparr>pgPageID = 0, pgHash = 0, pgIsLeaf = False, pgKeys = keys, pgParent = None, pgParentPageID = None,
          pgValues = [], pgNext = None, pgChildren = cs\<rparr>))"
    using assms(1)
    by (auto simp: UnmarshalPage_def readByte_def PageFormatVersion_def split: if_splits list.splits)
  have c: "r0 = writeUint32 n @ r1" using uint32_canonical.enc_dec [OF st(4)] by simp
  note ks = page_key.read_items_dec [OF st(6)]
  have b0: "b0 = 2" using st(2) by (simp add: word_unat_eq_iff)
  have "length r1 < 2 ^ 32" using assms(2) st(1) c by simp
  then have n: "n + 1 < 2 ^ 32" using st(5) by simp
  from tail show ?thesis
  proof (elim disjE conjE exE)
    fix vs
    assume leaf: "b1 = 1" "read_items read_value n r2 = Inr (vs, [])"
      "page = \<lparr>pgPageID = 0, pgHash = 0, pgIsLeaf = True, pgKeys = keys, pgParent = None, pgParentPageID = None,
          pgValues = vs, pgNext = None, pgChildren = []\<rparr>"
    with page_value.read_items_dec [OF leaf(2)] ks n show ?thesis
      by (simp add: storable_def page_bytes_def page_content_def st(1) c b0)
  next
    fix cs
    assume node: "b1 = 0" "read_items read_child ((n + 1) mod 2 ^ 32) r2 = Inr (cs, [])"
      "page = \<lparr>pgPageID = 0, pgHash = 0, pgIsLeaf = False, pgKeys = keys, pgParent = None, pgParentPageID = None,
          pgValues = [], pgNext = None, pgChildren = cs\<rparr>"
    have "(n + 1) mod 2 ^ 32 = n + 1" using n by simp
    with page_child.read_items_dec [OF node(2)] ks n node(1,3) show ?thesis
      by (simp add: storable_def page_bytes_def page_content_def st(1) c b0)
  qed
qed

section \<open>What a page hash commits to\<close>

lemma concat_enc_items:
  assumes "\<And>x r y s. x \<in> A \<Longrightarrow> y \<in> A \<Longrightarrow> enc x @ r = enc y @ s \<Longrightarrow> x = y \<and> r = s" and "\<And>x. enc x \<noteq> []"
    and "set xs \<subseteq> A" and "set ys \<subseteq> A" and "concat (map enc xs) = concat (map enc ys)"
  shows "xs = ys"
  using assms(3-5)
proof (induction xs arbitrary: ys)
  case Nil
  then show ?case using assms(2) by (cases ys) auto
next
  case (Cons x xs)
  then obtain y ys' where ys: "ys = y # ys'" using assms(2) [of x] by (cases ys) auto
  have "x = y \<and> concat (map enc xs) = concat (map enc ys')"
    using Cons.prems ys by (intro assms(1)) auto
  with Cons ys show ?case by auto
qed

definition encodable_entry :: "LocatorKey \<times> LocatorValue option \<Rightarrow> bool" where
  "encodable_entry kv \<longleftrightarrow> encodable_key (fst kv) \<and> encodable_value (snd kv)"

lemma entry_inject:
  assumes "encodable_entry e" and "encodable_entry f"
    and "(encodeKey (fst e) @ encodeValue (snd e)) @ r = (encodeKey (fst f) @ encodeValue (snd f)) @ s"
  shows "e = f \<and> r = s"
proof -
  have k: "fst e = fst f \<and> encodeValue (snd e) @ r = encodeValue (snd f) @ s"
    using assms by (intro key_codec.enc_append_inject) (auto simp: encodable_entry_def)
  then have "snd e = snd f \<and> r = s"
    using assms(1,2) by (intro value_codec.enc_append_inject) (auto simp: encodable_entry_def)
  with k show ?thesis by (simp add: prod_eq_iff)
qed

text \<open>A leaf hash commits to the identifier, the successor, the keys and the values.\<close>

lemma leaf_input_inject:
  assumes eq: "leaf_input i n ks vs = leaf_input i' n' ks' vs'"
    and len: "length ks = length vs" "length ks' = length vs'"
    and ids: "int64 i" "int64 i'" "\<forall>m. n = Some m \<longrightarrow> int64 m" "\<forall>m. n' = Some m \<longrightarrow> int64 m"
    and enc: "\<forall>e \<in> set (zip ks vs). encodable_entry e" "\<forall>e \<in> set (zip ks' vs'). encodable_entry e"
  shows "i = i' \<and> n = n' \<and> ks = ks' \<and> vs = vs'"
proof -
  let ?es = "\<lambda>ks vs. concat (map (\<lambda>(key, value). encodeKey key @ encodeValue value) (zip ks vs))"
  let ?n = "\<lambda>n. case n of None \<Rightarrow> [0] | Some m \<Rightarrow> 1 # writeInt64 m"
  have 1: "i = i' \<and> ?n n @ ?es ks vs = ?n n' @ ?es ks' vs'"
    using eq ids(1,2) by (intro int64_codec.enc_append_inject) (auto simp: leaf_input_def)
  then have 2: "n = n' \<and> ?es ks vs = ?es ks' vs'"
    using ids(3,4) by (auto dest: int64_codec.enc_append_inject [rotated 2] split: option.splits)
  have f: "(\<lambda>(key, value). encodeKey key @ encodeValue value) = (\<lambda>e. encodeKey (fst e) @ encodeValue (snd e))" by auto
  have "zip ks vs = zip ks' vs'"
  proof (rule concat_enc_items [where A = "Collect encodable_entry" and enc = "\<lambda>e. encodeKey (fst e) @ encodeValue (snd e)"])
    show "encodeKey (fst e) @ encodeValue (snd e) \<noteq> []" for e
      using length_encodeKey [of "fst e"] by (metis Nil_is_append_conv list.size(3) add_is_0 zero_neq_numeral)
    show "x = y \<and> r = s" if "x \<in> Collect encodable_entry" "y \<in> Collect encodable_entry"
      "(encodeKey (fst x) @ encodeValue (snd x)) @ r = (encodeKey (fst y) @ encodeValue (snd y)) @ s" for x y r s
      using that by (intro entry_inject) simp_all
    show "set (zip ks vs) \<subseteq> Collect encodable_entry" "set (zip ks' vs') \<subseteq> Collect encodable_entry"
      using enc by blast+
    show "concat (map (\<lambda>e. encodeKey (fst e) @ encodeValue (snd e)) (zip ks vs)) =
        concat (map (\<lambda>e. encodeKey (fst e) @ encodeValue (snd e)) (zip ks' vs'))"
      using 2 unfolding f by blast
  qed
  with 1 2 len show ?thesis by (metis map_fst_zip map_snd_zip)
qed

text \<open>
  An internal hash commits to the keys and the child hashes although it does not hash their number:
  one more key comes with one more child hash, so the two sides would differ in length.
\<close>

lemma internal_input_inject:
  assumes eq: "internal_input ks hs = internal_input ks' hs'"
    and len: "length hs = length ks + 1" "length hs' = length ks' + 1"
    and enc: "\<forall>k \<in> set ks. encodable_key k" "\<forall>k \<in> set ks'. encodable_key k"
  shows "ks = ks' \<and> hs = hs'"
proof -
  have sz: "length (concat (map hash_bytes xs)) = 32 * length xs" for xs by (induction xs) auto
  have gen: "ks = ks' \<and> hs = hs'"
    if "concat (map encodeKey ks) @ concat (map hash_bytes hs) = concat (map encodeKey ks') @ concat (map hash_bytes hs')"
      "length hs = length ks + d" "length hs' = length ks' + d" "\<forall>k \<in> set ks. encodable_key k" "\<forall>k \<in> set ks'. encodable_key k" for d
    using that
  proof (induction ks arbitrary: ks' d)
    case Nil
    have "length (concat (map hash_bytes hs)) = length (concat (map encodeKey ks')) + length (concat (map hash_bytes hs'))"
      using arg_cong [OF Nil(1), of length] by simp
    then have "ks' = []" using Nil(2,3) sz by simp
    then show ?case
      using Nil hash_codec.concat_enc_inject [of hs hs' "[]" "[]"] by simp
  next
    case (Cons k ks)
    show ?case
    proof (cases ks')
      case Nil
      have "length (concat (map hash_bytes hs')) = length (concat (map encodeKey (k # ks))) + length (concat (map hash_bytes hs))"
        using arg_cong [OF Cons.prems(1), of length] Nil by simp
      then show ?thesis using Cons.prems(2,3) sz Nil by simp
    next
      case (Cons k' ks'')
      have "k = k' \<and> concat (map encodeKey ks) @ concat (map hash_bytes hs) = concat (map encodeKey ks'') @ concat (map hash_bytes hs')"
        using Cons.prems Cons by (intro key_codec.enc_append_inject) auto
      with Cons.IH [of ks'' "Suc d"] Cons.prems Cons show ?thesis by simp
    qed
  qed
  show ?thesis
    using eq len enc by (intro gen [of 1]) (simp_all add: internal_input_def concatEncKeys_def concatEncChild_def)
qed

lemma leaf_not_internal: "leaf_input i n ks vs \<noteq> internal_input ks' hs"
proof
  assume "leaf_input i n ks vs = internal_input ks' hs"
  then have "hd (leaf_input i n ks vs) = hd (internal_input ks' hs)" by simp
  then show False
    by (simp add: leaf_input_def internal_input_def concatEncKeys_def concatEncChild_def string_bytes_def)
qed

end
