(* ===== verification/Locator_Proof.thy ===== *)
theory Locator_Proof
  imports Locator_Page
begin

text \<open>
  The proof half of \<^verbatim>\<open>internal/all/locator_range.go\<close>, and its types of \<^verbatim>\<open>locator_types.go\<close>: the key
  range of a query, the reconstruction of the locator root from one leaf and its path, and the
  verification of a range result against a trusted root.
\<close>

section \<open>The types\<close>

record LocatorQuery =
  lqTenantID :: string
  lqServiceID :: string
  lqLogType :: string
  lqRegionID :: string
  lqStartTime :: time
  lqEndTime :: time

record LocatorEntry =
  lePageID :: int
  leKey :: LocatorKey
  leValue :: "LocatorValue option"

record LocatorProofStep =
  psPageID :: int
  psKeys :: "LocatorKey list"
  psChildIndex :: int
  psChildHashes :: "hash list"

record LocatorLeafProof =
  lpPageID :: int
  lpNextPageID :: "int option"
  lpKeys :: "LocatorKey list"
  lpValues :: "LocatorValue option list"
  lpPath :: "LocatorProofStep list"

record LocatorRangeProof =
  rpLeaves :: "LocatorLeafProof list"
  rpReconstructedRoot :: hash

record LocatorRangeResult =
  rrEntries :: "LocatorEntry list"
  rrPredecessor :: "LocatorEntry option"
  rrSuccessor :: "LocatorEntry option"
  rrProof :: LocatorRangeProof

section \<open>Queries\<close>

definition Bounds :: "LocatorQuery \<Rightarrow> (LocatorKey \<times> LocatorKey) result" where
  "Bounds query =
     (if lqTenantID query = '''' \<or> lqServiceID query = '''' \<or> lqLogType query = '''' \<or> lqRegionID query = ''''
      then Inl (Errorf ''locator query: tenant, service, log type, and region are required'')
      else if IsZero (lqStartTime query) \<or> IsZero (lqEndTime query)
      then Inl (Errorf ''locator query: start and end times are required'')
      else if \<not> lqStartTime query < lqEndTime query
      then Inl (Errorf ''locator query: start time must be before end time'')
      else let key = \<lparr>lkLogID = 0, lkEventTime = time_zero, lkRegionID = lqRegionID query,
             lkTenantID = lqTenantID query, lkServiceID = lqServiceID query, lkLogType = lqLogType query\<rparr>
           in Inr (key\<lparr>lkEventTime := lqStartTime query\<rparr>, key\<lparr>lkEventTime := lqEndTime query\<rparr>))"

section \<open>Reconstruction\<close>

text \<open>One step up the path: the reconstructed hash takes the place of the child it belongs to.\<close>

definition path_up :: "hash_fn \<Rightarrow> hash \<Rightarrow> LocatorProofStep \<Rightarrow> hash result" where
  "path_up H current step =
     (if length (psChildHashes step) \<noteq> length (psKeys step) + 1
      then Inl (Errorf ''reconstruct locator root: page %d has inconsistent keys and child hashes'')
      else if psChildIndex step < 0 \<or> int (length (psChildHashes step)) \<le> psChildIndex step
      then Inl (Errorf ''reconstruct locator root: child index %d out of range for page %d'')
      else Inr (H (internal_input (psKeys step) ((psChildHashes step)[nat (psChildIndex step) := current]))))"

definition ReconstructLocatorRoot :: "hash_fn \<Rightarrow> LocatorLeafProof \<Rightarrow> hash result" where
  "ReconstructLocatorRoot H proof =
     (if length (lpKeys proof) \<noteq> length (lpValues proof)
      then Inl (Errorf ''reconstruct locator root: leaf keys and values do not match'')
      else let leaf = \<lparr>pgPageID = lpPageID proof, pgHash = 0, pgIsLeaf = True, pgKeys = lpKeys proof, pgParent = None,
             pgParentPageID = None, pgValues = lpValues proof,
             pgNext = map_option (\<lambda>n. \<lparr>prPageID = n, prHash = 0\<rparr>) (lpNextPageID proof), pgChildren = []\<rparr>
           in rbind (leafHash H (\<lambda>r. r) leaf) (\<lambda>current. rfold (path_up H) current (lpPath proof)))"

definition VerifyLocatorPathProofs :: "hash_fn \<Rightarrow> LocatorRangeProof \<Rightarrow> hash \<Rightarrow> unit result" where
  "VerifyLocatorPathProofs H proof trustedRoot =
     (if length (rpLeaves proof) = 0 then Inl (Errorf ''verify locator path proofs: proof has no leaves'')
      else rbind (rfold (\<lambda>_ leaf. rbind (ReconstructLocatorRoot H leaf) (\<lambda>reconstructed.
          if hash_bytes reconstructed \<noteq> hash_bytes trustedRoot
          then Inl (Errorf ''verify locator path proofs: leaf page %d does not reconstruct the trusted root'')
          else Inr ())) () (rpLeaves proof)) (\<lambda>_.
        if hash_bytes (rpReconstructedRoot proof) \<noteq> hash_bytes trustedRoot
        then Inl (Errorf ''verify locator path proofs: reported reconstructed root does not match trusted root'')
        else Inr ()))"

section \<open>Verification of a range result\<close>

text \<open>The keys of one leaf in the loop of \<^verbatim>\<open>verifyConsecutiveLeafProofs\<close>.\<close>

definition check_key :: "LocatorKey option \<Rightarrow> LocatorKey \<Rightarrow> LocatorKey option result" where
  "check_key previous key =
     (case previous of
        Some p \<Rightarrow> if Compare p key \<ge> 0 then Inl (Errorf ''verify locator range: proof leaf keys are not strictly ordered'')
          else Inr (Some key)
      | None \<Rightarrow> Inr (Some key))"

text \<open>One leaf of that loop; \<open>rest\<close> are the leaves after it, \<open>seenIDs\<close> the identifiers before it.\<close>

definition check_leaf ::
  "nat \<Rightarrow> bool \<Rightarrow> int list \<times> LocatorKey option \<Rightarrow> LocatorLeafProof \<Rightarrow> LocatorLeafProof list \<Rightarrow>
     (int list \<times> LocatorKey option) result" where
  "check_leaf height several = (\<lambda>(seenIDs, previous) leaf rest.
     if lpPageID leaf \<in> set seenIDs then Inl (Errorf ''verify locator range: duplicate leaf page ID %d'')
     else if length (lpPath leaf) \<noteq> height then Inl (Errorf ''verify locator range: leaf page %d has inconsistent tree depth'')
     else if length (lpKeys leaf) \<noteq> length (lpValues leaf)
     then Inl (Errorf ''verify locator range: leaf page %d has inconsistent keys and values'')
     else if several \<and> length (lpKeys leaf) = 0 then Inl (Errorf ''verify locator range: non-root leaf page %d is empty'')
     else if (case rest of [] \<Rightarrow> False | next # _ \<Rightarrow> lpNextPageID leaf \<noteq> Some (lpPageID next))
     then Inl (Errorf ''verify locator range: leaf pages %d and %d are not consecutive'')
     else rbind (rfold check_key previous (lpKeys leaf)) (\<lambda>previous'. Inr (lpPageID leaf # seenIDs, previous')))"

fun check_leaves ::
  "nat \<Rightarrow> bool \<Rightarrow> int list \<times> LocatorKey option \<Rightarrow> LocatorLeafProof list \<Rightarrow> unit result" where
  "check_leaves height several state [] = Inr ()"
| "check_leaves height several state (leaf # rest) =
     rbind (check_leaf height several state leaf rest) (\<lambda>state'. check_leaves height several state' rest)"

definition verifyConsecutiveLeafProofs :: "LocatorLeafProof list \<Rightarrow> unit result" where
  "verifyConsecutiveLeafProofs leaves =
     (case leaves of [] \<Rightarrow> Inl (Errorf ''verify locator range: proof has no leaves'')
      | first # _ \<Rightarrow> check_leaves (length (lpPath first)) (length leaves > 1) ([], None) leaves)"

definition flattenProofEntries :: "LocatorLeafProof list \<Rightarrow> LocatorEntry list" where
  "flattenProofEntries leaves = concat (map (\<lambda>leaf.
     map (\<lambda>(key, value). \<lparr>lePageID = lpPageID leaf, leKey = key, leValue = value\<rparr>) (zip (lpKeys leaf) (lpValues leaf))) leaves)"

definition isLeftmostProof :: "LocatorLeafProof \<Rightarrow> bool" where
  "isLeftmostProof leaf \<longleftrightarrow> (\<forall>step \<in> set (lpPath leaf). psChildIndex step = 0)"

definition isRightmostProof :: "LocatorLeafProof \<Rightarrow> bool" where
  "isRightmostProof leaf \<longleftrightarrow> (\<forall>step \<in> set (lpPath leaf).
     length (psChildHashes step) \<noteq> 0 \<and> psChildIndex step = int (length (psChildHashes step)) - 1)"

definition locatorEntryEqual :: "LocatorEntry \<Rightarrow> LocatorEntry \<Rightarrow> bool" where
  "locatorEntryEqual left right =
     (if lePageID left \<noteq> lePageID right \<or> Compare (leKey left) (leKey right) \<noteq> 0 then False
      else leValue left = leValue right)"

definition optionalEntryEqual :: "LocatorEntry option \<Rightarrow> LocatorEntry option \<Rightarrow> bool" where
  "optionalEntryEqual left right =
     (case (left, right) of (Some l, Some r) \<Rightarrow> locatorEntryEqual l r | (None, None) \<Rightarrow> True | _ \<Rightarrow> False)"

text \<open>The three expectations the loop of \<^verbatim>\<open>VerifyLocatorRangeResult\<close> collects.\<close>

definition classify ::
  "LocatorKey \<Rightarrow> LocatorKey \<Rightarrow> LocatorEntry list \<times> LocatorEntry option \<times> LocatorEntry option \<Rightarrow> LocatorEntry \<Rightarrow>
     LocatorEntry list \<times> LocatorEntry option \<times> LocatorEntry option" where
  "classify lower upper = (\<lambda>(matches, predecessor, successor) entry.
     if Compare (leKey entry) lower < 0 then (matches, Some entry, successor)
     else if Compare (leKey entry) upper < 0 then (matches @ [entry], predecessor, successor)
     else if successor = None then (matches, predecessor, Some entry)
     else (matches, predecessor, successor))"

definition VerifyLocatorRangeResult ::
  "hash_fn \<Rightarrow> LocatorKey \<Rightarrow> LocatorKey \<Rightarrow> LocatorRangeResult \<Rightarrow> hash \<Rightarrow> unit result" where
  "VerifyLocatorRangeResult H lower upper result trustedRoot =
     (if Compare lower upper \<ge> 0 then Inl (Errorf ''verify locator range: lower bound must sort before upper bound'')
      else rbind (VerifyLocatorPathProofs H (rrProof result) trustedRoot) (\<lambda>_.
      rbind (verifyConsecutiveLeafProofs (rpLeaves (rrProof result))) (\<lambda>_.
      let leaves = rpLeaves (rrProof result);
          (expectedMatches, expectedPredecessor, expectedSuccessor) =
            foldl (classify lower upper) ([], None, None) (flattenProofEntries leaves)
      in if expectedPredecessor = None \<and> \<not> isLeftmostProof (hd leaves)
         then Inl (Errorf ''verify locator range: missing predecessor or authenticated left tree edge'')
         else if expectedSuccessor = None \<and> (lpNextPageID (last leaves) \<noteq> None \<or> \<not> isRightmostProof (last leaves))
         then Inl (Errorf ''verify locator range: missing successor or authenticated right tree edge'')
         else if \<not> optionalEntryEqual (rrPredecessor result) expectedPredecessor
         then Inl (Errorf ''verify locator range: predecessor is not the immediate entry before the lower bound'')
         else if \<not> optionalEntryEqual (rrSuccessor result) expectedSuccessor
         then Inl (Errorf ''verify locator range: successor is not the immediate entry at or after the upper bound'')
         else if length (rrEntries result) \<noteq> length expectedMatches
         then Inl (Errorf ''verify locator range: got %d returned entries, proof contains %d matching entries'')
         else if \<not> list_all2 locatorEntryEqual (rrEntries result) expectedMatches
         then Inl (Errorf ''verify locator range: returned entry %d does not match authenticated leaf contents'')
         else Inr ())))"

definition VerifyLocatorQueryResult :: "hash_fn \<Rightarrow> LocatorQuery \<Rightarrow> LocatorRangeResult \<Rightarrow> hash \<Rightarrow> unit result" where
  "VerifyLocatorQueryResult H query result trustedRoot =
     rbind (Bounds query) (\<lambda>(lower, upper). VerifyLocatorRangeResult H lower upper result trustedRoot)"

end
