(* ===== verification/Locator_Verify.thy ===== *)
theory Locator_Verify
  imports Locator_Proof
begin

text \<open>
  Soundness and completeness of the range proofs of \<^verbatim>\<open>internal/all/locator_range.go\<close>. The tree that
  a trusted root commits to is a B+ tree with linked leaves (\<open>btree\<close>, hashed as the pages are). A
  range result that the verifier accepts against the root of such a tree contains exactly the
  entries of the tree in the range, and the entries next to it.
\<close>

section \<open>Locator trees as a specification\<close>

datatype btree =
    BLeaf int "int option" "(LocatorKey \<times> LocatorValue option) list"
  | BNode int "LocatorKey list" "btree list"

type_synonym bleaf = "int \<times> int option \<times> (LocatorKey \<times> LocatorValue option) list"

fun bleaf_input :: "bleaf \<Rightarrow> byte list" where
  "bleaf_input (i, n, es) = leaf_input i n (map fst es) (map snd es)"

fun bhash :: "hash_fn \<Rightarrow> btree \<Rightarrow> hash" where
  "bhash H (BLeaf i n es) = H (bleaf_input (i, n, es))"
| "bhash H (BNode pid ks ts) = H (internal_input ks (map (bhash H) ts))"

fun binput :: "hash_fn \<Rightarrow> btree \<Rightarrow> byte list" where
  "binput H (BLeaf i n es) = bleaf_input (i, n, es)"
| "binput H (BNode pid ks ts) = internal_input ks (map (bhash H) ts)"

fun binputs :: "hash_fn \<Rightarrow> btree \<Rightarrow> byte list set" where
  "binputs H (BLeaf i n es) = {bleaf_input (i, n, es)}"
| "binputs H (BNode pid ks ts) = insert (internal_input ks (map (bhash H) ts)) (\<Union> (binputs H ` set ts))"

fun bleaves :: "btree \<Rightarrow> bleaf list" where
  "bleaves (BLeaf i n es) = [(i, n, es)]"
| "bleaves (BNode pid ks ts) = concat (map bleaves ts)"

fun typed_leaf :: "bleaf \<Rightarrow> bool" where
  "typed_leaf (i, n, es) \<longleftrightarrow> int64 i \<and> (\<forall>m. n = Some m \<longrightarrow> int64 m) \<and>
     (\<forall>e \<in> set es. encodable_entry e)"

fun typed_tree :: "btree \<Rightarrow> bool" where
  "typed_tree (BLeaf i n es) \<longleftrightarrow> typed_leaf (i, n, es)"
| "typed_tree (BNode pid ks ts) \<longleftrightarrow> length ts = length ks + 1 \<and> (\<forall>k \<in> set ks. encodable_key k) \<and> (\<forall>t \<in> set ts. typed_tree t)"

text \<open>Every leaf names its successor and the last one names none.\<close>

fun linked :: "bleaf list \<Rightarrow> bool" where
  "linked [] \<longleftrightarrow> True"
| "linked [(i, n, es)] \<longleftrightarrow> n = None"
| "linked ((i, n, es) # (j, m, fs) # ls) \<longleftrightarrow> n = Some j \<and> linked ((j, m, fs) # ls)"

definition leaf_entries :: "bleaf \<Rightarrow> LocatorEntry list" where
  "leaf_entries = (\<lambda>(i, n, es). map (\<lambda>(k, v). \<lparr>lePageID = i, leKey = k, leValue = v\<rparr>) es)"

definition bentries :: "btree \<Rightarrow> LocatorEntry list" where
  "bentries t = concat (map leaf_entries (bleaves t))"

definition ordered :: "LocatorEntry list \<Rightarrow> bool" where
  "ordered es \<longleftrightarrow> sorted_wrt key_Less (map leKey es)"

definition locator_tree :: "btree \<Rightarrow> bool" where
  "locator_tree t \<longleftrightarrow> typed_tree t \<and> linked (bleaves t) \<and> distinct (map fst (bleaves t)) \<and> ordered (bentries t)"

text \<open>What a range query has to return.\<close>

definition below :: "LocatorKey \<Rightarrow> LocatorEntry \<Rightarrow> bool" where
  "below b e \<longleftrightarrow> key_Less (leKey e) b"

definition entries_in :: "LocatorKey \<Rightarrow> LocatorKey \<Rightarrow> LocatorEntry list \<Rightarrow> LocatorEntry list" where
  "entries_in lower upper es = filter (\<lambda>e. \<not> below lower e \<and> below upper e) es"

definition entry_before :: "LocatorKey \<Rightarrow> LocatorEntry list \<Rightarrow> LocatorEntry option" where
  "entry_before lower es = (case rev (filter (below lower) es) of [] \<Rightarrow> None | e # _ \<Rightarrow> Some e)"

definition entry_from :: "LocatorKey \<Rightarrow> LocatorEntry list \<Rightarrow> LocatorEntry option" where
  "entry_from upper es = (case filter (\<lambda>e. \<not> below upper e) es of [] \<Rightarrow> None | e # _ \<Rightarrow> Some e)"

section \<open>What a proof hashes\<close>

definition proof_leaf :: "LocatorLeafProof \<Rightarrow> bleaf" where
  "proof_leaf lp = (lpPageID lp, lpNextPageID lp, zip (lpKeys lp) (lpValues lp))"

definition step_input :: "hash \<Rightarrow> LocatorProofStep \<Rightarrow> byte list" where
  "step_input current step = internal_input (psKeys step) ((psChildHashes step)[nat (psChildIndex step) := current])"

fun path_inputs :: "hash_fn \<Rightarrow> hash \<Rightarrow> LocatorProofStep list \<Rightarrow> byte list set" where
  "path_inputs H current [] = {}"
| "path_inputs H current (step # path) =
     insert (step_input current step) (path_inputs H (H (step_input current step)) path)"

definition leaf_proof_inputs :: "hash_fn \<Rightarrow> LocatorLeafProof \<Rightarrow> byte list set" where
  "leaf_proof_inputs H lp =
     insert (bleaf_input (proof_leaf lp)) (path_inputs H (H (bleaf_input (proof_leaf lp))) (lpPath lp))"

definition proof_inputs :: "hash_fn \<Rightarrow> LocatorRangeProof \<Rightarrow> byte list set" where
  "proof_inputs H p = \<Union> (leaf_proof_inputs H ` set (rpLeaves p))"

text \<open>The values of a proof fit their types. For the event times that is a real restriction, which the
  program does not check: a time outside the range of 64-bit nanoseconds wraps in the encoding of a key.\<close>

definition typed_leaf_proof :: "LocatorLeafProof \<Rightarrow> bool" where
  "typed_leaf_proof lp \<longleftrightarrow> typed_leaf (proof_leaf lp) \<and> (\<forall>step \<in> set (lpPath lp). \<forall>k \<in> set (psKeys step). encodable_key k)"

definition typed_proof :: "LocatorRangeProof \<Rightarrow> bool" where
  "typed_proof p \<longleftrightarrow> (\<forall>lp \<in> set (rpLeaves p). typed_leaf_proof lp)"

section \<open>A leaf that reconstructs the root is a leaf of the tree\<close>

fun subtree :: "btree \<Rightarrow> nat list \<Rightarrow> btree option" where
  "subtree t [] = Some t"
| "subtree (BLeaf i n es) (j # js) = None"
| "subtree (BNode pid ks ts) (j # js) = (if j < length ts then subtree (ts ! j) js else None)"

lemma bhash_binput: "bhash H t = H (binput H t)"
  by (cases t) auto

lemma binput_in_binputs: "binput H t \<in> binputs H t"
  by (cases t) auto

lemma subtree_inputs: "subtree t js = Some s \<Longrightarrow> binputs H s \<subseteq> binputs H t"
proof (induction t js rule: subtree.induct)
  case (3 pid ks ts j js)
  then have j: "j < length ts" "binputs H s \<subseteq> binputs H (ts ! j)" by (auto split: if_splits)
  moreover have "binputs H (ts ! j) \<subseteq> binputs H (BNode pid ks ts)" using j(1) by (auto intro!: bexI [of _ "ts ! j"])
  ultimately show ?case by blast
qed auto

lemma subtree_typed: "subtree t js = Some s \<Longrightarrow> typed_tree t \<Longrightarrow> typed_tree s"
  by (induction t js rule: subtree.induct) (auto split: if_splits)

lemma subtree_leaves: "subtree t js = Some s \<Longrightarrow> set (bleaves s) \<subseteq> set (bleaves t)"
  by (induction t js rule: subtree.induct) (fastforce split: if_splits)+

lemma subtree_snoc: "subtree t (js @ [j]) =
    (case subtree t js of Some (BNode pid ks ts) \<Rightarrow> if j < length ts then Some (ts ! j) else None | _ \<Rightarrow> None)"
  by (induction t js rule: subtree.induct) (auto split: btree.splits)

lemma subtree_leftmost:
  "subtree t js = Some (BLeaf i n es) \<Longrightarrow> \<forall>j \<in> set js. j = 0 \<Longrightarrow> \<exists>ls. bleaves t = (i, n, es) # ls"
proof (induction t js rule: subtree.induct)
  case (3 pid ks ts j js)
  then have "ts \<noteq> []" "subtree (hd ts) js = Some (BLeaf i n es)" by (auto split: if_splits simp: hd_conv_nth)
  with 3 obtain ls where "bleaves (hd ts) = (i, n, es) # ls" by (auto split: if_splits simp: hd_conv_nth)
  with \<open>ts \<noteq> []\<close> show ?case by (cases ts) auto
qed auto

lemma path_up_Inr: "path_up H c step = Inr d \<longleftrightarrow> length (psChildHashes step) = length (psKeys step) + 1 \<and>
    0 \<le> psChildIndex step \<and> psChildIndex step < int (length (psChildHashes step)) \<and> d = H (step_input c step)"
  by (auto simp: path_up_def step_input_def)

abbreviation path_indexes :: "LocatorProofStep list \<Rightarrow> nat list" where
  "path_indexes path \<equiv> rev (map (\<lambda>step. nat (psChildIndex step)) path)"

lemma step_sound:
  assumes "binput H t = step_input c step" and "typed_tree t" and "\<forall>k \<in> set (psKeys step). encodable_key k"
    and "path_up H c step = Inr d"
  obtains pid ks ts where "t = BNode pid ks ts" "nat (psChildIndex step) < length ts" "bhash H (ts ! nat (psChildIndex step)) = c"
proof (cases t)
  case (BLeaf i n es)
  then show ?thesis using assms(1) leaf_not_internal by (simp add: step_input_def)
next
  case (BNode pid ks ts)
  let ?hs = "(psChildHashes step)[nat (psChildIndex step) := c]"
  have "ks = psKeys step \<and> map (bhash H) ts = ?hs"
    by (rule internal_input_inject) (use assms BNode in \<open>auto simp: step_input_def path_up_Inr\<close>)
  then have hs: "map (bhash H) ts = ?hs" by simp
  have j: "nat (psChildIndex step) < length ?hs" using assms(4) by (auto simp: path_up_Inr)
  then have "nat (psChildIndex step) < length ts" using arg_cong [OF hs, of length] by simp
  moreover have "bhash H (ts ! nat (psChildIndex step)) = c"
    using arg_cong [OF hs, of "\<lambda>xs. xs ! nat (psChildIndex step)"] calculation j by simp
  ultimately show ?thesis using that BNode by blast
qed

lemma path_sound:
  assumes "rfold (path_up H) c path = Inr (bhash H t)" and "typed_tree t"
    and "\<forall>step \<in> set path. \<forall>k \<in> set (psKeys step). encodable_key k"
    and "inj_on H (binputs H t \<union> path_inputs H c path)"
  shows "\<exists>s. subtree t (path_indexes path) = Some s \<and> bhash H s = c"
  using assms
proof (induction path arbitrary: c)
  case (Cons step path)
  let ?in = "step_input c step"
  from Cons.prems(1) obtain up: "path_up H c step = Inr (H ?in)" "rfold (path_up H) (H ?in) path = Inr (bhash H t)"
    by (auto simp: path_up_Inr)
  have "inj_on H (binputs H t \<union> path_inputs H (H ?in) path)" using Cons.prems(4) by (rule inj_on_subset) auto
  then obtain s where s: "subtree t (path_indexes path) = Some s" "bhash H s = H ?in"
    using Cons.IH [OF up(2) Cons.prems(2)] Cons.prems(3) by auto
  have "binput H s \<in> binputs H t" using subtree_inputs [OF s(1)] binput_in_binputs by blast
  then have "binput H s = ?in" using s(2) by (intro inj_onD [OF Cons.prems(4)]) (auto simp: bhash_binput)
  from step_sound [OF this subtree_typed [OF s(1) Cons.prems(2)] _ up(1)] Cons.prems(3)
  obtain pid ks ts where "s = BNode pid ks ts" "nat (psChildIndex step) < length ts" "bhash H (ts ! nat (psChildIndex step)) = c"
    by auto
  with s(1) show ?case by (simp add: subtree_snoc)
qed simp

lemma ReconstructLocatorRoot_Inr: "ReconstructLocatorRoot H lp = Inr h \<longleftrightarrow>
    length (lpKeys lp) = length (lpValues lp) \<and> rfold (path_up H) (H (bleaf_input (proof_leaf lp))) (lpPath lp) = Inr h"
proof -
  have "map_option (prPageID \<circ> (\<lambda>n. \<lparr>prPageID = n, prHash = 0\<rparr>)) x = x" for x by (cases x) auto
  then show ?thesis
    by (auto simp: ReconstructLocatorRoot_def leafHash_def proof_leaf_def option.map_comp comp_def Let_def)
qed

lemma leaf_proof_sound:
  assumes "ReconstructLocatorRoot H lp = Inr (bhash H t)" and "typed_tree t" and "typed_leaf_proof lp"
    and "inj_on H (binputs H t \<union> leaf_proof_inputs H lp)"
  obtains i n es where "proof_leaf lp = (i, n, es)" "subtree t (path_indexes (lpPath lp)) = Some (BLeaf i n es)"
proof -
  let ?in = "bleaf_input (proof_leaf lp)"
  have len: "length (lpKeys lp) = length (lpValues lp)"
    and up: "rfold (path_up H) (H ?in) (lpPath lp) = Inr (bhash H t)"
    using assms(1) by (auto simp: ReconstructLocatorRoot_Inr)
  have "inj_on H (binputs H t \<union> path_inputs H (H ?in) (lpPath lp))"
    using assms(4) by (rule inj_on_subset) (auto simp: leaf_proof_inputs_def)
  then obtain s where s: "subtree t (path_indexes (lpPath lp)) = Some s" "bhash H s = H ?in"
    using path_sound [OF up assms(2)] assms(3) by (auto simp: typed_leaf_proof_def)
  have "binput H s \<in> binputs H t" using subtree_inputs [OF s(1)] binput_in_binputs by blast
  then have eq: "binput H s = ?in"
    using s(2) by (intro inj_onD [OF assms(4)]) (auto simp: bhash_binput leaf_proof_inputs_def)
  show ?thesis
  proof (cases s)
    case (BLeaf i n es)
    let ?p = "proof_leaf lp"
    have "typed_leaf (i, n, es)" "typed_leaf ?p"
      using subtree_typed [OF s(1) assms(2)] assms(3) BLeaf by (auto simp: typed_leaf_proof_def)
    then have "i = lpPageID lp \<and> n = lpNextPageID lp \<and> map fst es = lpKeys lp \<and> map snd es = lpValues lp"
      using eq BLeaf len by (intro leaf_input_inject) (auto simp: proof_leaf_def zip_map_fst_snd)
    then have "proof_leaf lp = (i, n, es)" by (metis proof_leaf_def zip_map_fst_snd)
    with s(1) BLeaf that show ?thesis by blast
  next
    case (BNode pid ks ts)
    then show ?thesis using eq leaf_not_internal by (metis binput.simps(2) bleaf_input.cases bleaf_input.simps)
  qed
qed

section \<open>Consecutive leaves\<close>

fun leaf_links :: "bleaf list \<Rightarrow> bool" where
  "leaf_links [] \<longleftrightarrow> True"
| "leaf_links [l] \<longleftrightarrow> True"
| "leaf_links ((i, n, es) # (j, m, fs) # ls) \<longleftrightarrow> n = Some j \<and> leaf_links ((j, m, fs) # ls)"

lemma linked_append: "linked (xs @ ys) \<Longrightarrow> linked ys"
  by (induction xs rule: linked.induct) (auto elim: linked.elims)

lemma linked_next: "linked (pre @ (i, n, es) # post) \<Longrightarrow> n = map_option fst (if post = [] then None else Some (hd post))"
  using linked_append [of pre "(i, n, es) # post"] by (cases post) auto

lemma distinct_split_unique:
  assumes "distinct (map f xs)" and "xs = a @ x # b" and "xs = c @ y # d" and "f x = f y"
  shows "a = c"
proof -
  have "map f a @ f x # map f b = map f c @ f x # map f d" using assms(2-4) by (metis list.simps(9) map_append)
  then have "map f a = map f c" using assms(1,2) by (subst (asm) append_Cons_eq_iff) auto
  then have "length a = length c" by (rule map_eq_imp_length_eq)
  with assms(2,3) show ?thesis by simp
qed

text \<open>Leaves of the chain that name each other follow each other in the chain.\<close>

lemma consecutive_leaves:
  assumes "linked ls" and "distinct (map fst ls)" and "leaf_links ps" and "set ps \<subseteq> set ls"
  shows "\<exists>pre post. ls = pre @ ps @ post"
  using assms(3,4)
proof (induction ps rule: leaf_links.induct)
  case (3 i n es j m fs ps)
  then obtain pre post where ls: "ls = pre @ ((j, m, fs) # ps) @ post" by auto
  from 3 have "(i, n, es) \<in> set ls" by auto
  then obtain pre' post' where ls': "ls = pre' @ (i, n, es) # post'" by (meson split_list)
  with linked_next [of pre' i n es post'] assms(1) 3(2) obtain p where "post' = p # tl post'" "fst p = j"
    by (cases post') auto
  then have "pre' @ [(i, n, es)] = pre"
    using distinct_split_unique [OF assms(2), of "pre' @ [(i, n, es)]" p "tl post'" pre "(j, m, fs)" "ps @ post"] ls ls'
    by simp
  with ls have "ls = pre' @ ((i, n, es) # (j, m, fs) # ps) @ post" by simp
  then show ?case by blast
next
  case (2 l)
  then show ?case using split_list [of l ls] by auto
qed auto

lemma check_leaves_links: "check_leaves h several st leaves = Inr () \<Longrightarrow> leaf_links (map proof_leaf leaves)"
proof (induction leaves arbitrary: st)
  case (Cons leaf rest)
  then obtain st' where st: "check_leaf h several st leaf rest = Inr st'" "check_leaves h several st' rest = Inr ()"
    by auto
  from st(1) have "case rest of [] \<Rightarrow> True | l # _ \<Rightarrow> lpNextPageID leaf = Some (lpPageID l)"
    by (cases st; cases rest) (auto simp: check_leaf_def split: if_splits)
  with Cons.IH [OF st(2)] show ?case by (cases rest) (simp_all add: proof_leaf_def)
qed simp

lemma verifyConsecutive_links: "verifyConsecutiveLeafProofs leaves = Inr () \<Longrightarrow> leaf_links (map proof_leaf leaves)"
  unfolding verifyConsecutiveLeafProofs_def by (cases leaves) (simp, simp only: list.case, erule check_leaves_links)

lemma flatten_proof_leaves: "flattenProofEntries leaves = concat (map leaf_entries (map proof_leaf leaves))"
  by (simp add: flattenProofEntries_def leaf_entries_def proof_leaf_def comp_def)

lemma VerifyLocatorPathProofs_Inr: "VerifyLocatorPathProofs H p root = Inr () \<longleftrightarrow>
    rpLeaves p \<noteq> [] \<and> (\<forall>lp \<in> set (rpLeaves p). ReconstructLocatorRoot H lp = Inr root) \<and> rpReconstructedRoot p = root"
proof -
  have "rfold (\<lambda>_ leaf. rbind (ReconstructLocatorRoot H leaf) (\<lambda>r. if hash_bytes r \<noteq> hash_bytes root then Inl (E leaf) else Inr ())) () ls
      = Inr () \<longleftrightarrow> (\<forall>lp \<in> set ls. ReconstructLocatorRoot H lp = Inr root)" for E ls
    by (induction ls) auto
  then show ?thesis by (auto simp: VerifyLocatorPathProofs_def)
qed

section \<open>The expected answer\<close>

definition or_else :: "'a option \<Rightarrow> 'a option \<Rightarrow> 'a option" where
  "or_else x y = (case x of None \<Rightarrow> y | Some _ \<Rightarrow> x)"

lemma or_else_assoc: "or_else (or_else x y) z = or_else x (or_else y z)"
  by (simp add: or_else_def split: option.splits)

lemma entry_before_append: "entry_before lower (xs @ ys) = or_else (entry_before lower ys) (entry_before lower xs)"
  by (auto simp: entry_before_def or_else_def split: list.splits)

lemma entry_from_append: "entry_from upper (xs @ ys) = or_else (entry_from upper xs) (entry_from upper ys)"
  by (auto simp: entry_from_def or_else_def split: list.splits)

lemma classify_foldl:
  assumes "key_Less lower upper"
  shows "foldl (classify lower upper) (ms, p, s) es =
     (ms @ entries_in lower upper es, or_else (entry_before lower es) p, or_else s (entry_from upper es))"
proof (induction es arbitrary: ms p s)
  case Nil
  show ?case by (simp add: entries_in_def entry_before_def entry_from_def or_else_def split: option.splits)
next
  case (Cons e es)
  have up: "below lower e \<Longrightarrow> below upper e" using assms key_order.less_trans by (auto simp: below_def)
  have "classify lower upper (ms, p, s) e =
      (ms @ entries_in lower upper [e], or_else (entry_before lower [e]) p, or_else s (entry_from upper [e]))"
    using up by (auto simp: classify_def below_def key_Less_def entries_in_def entry_before_def entry_from_def or_else_def
      split: option.splits)
  then have "foldl (classify lower upper) (ms, p, s) (e # es) =
      (ms @ entries_in lower upper ([e] @ es), or_else (or_else (entry_before lower es) (entry_before lower [e])) p,
       or_else s (or_else (entry_from upper [e]) (entry_from upper es)))"
    by (simp add: Cons.IH or_else_assoc) (simp add: entries_in_def)
  then show ?case unfolding entry_before_append [symmetric] entry_from_append [symmetric] by simp
qed

lemma entry_before_None: "entry_before lower es = None \<longleftrightarrow> (\<forall>e \<in> set es. \<not> below lower e)"
proof -
  have "entry_before lower es = None \<longleftrightarrow> filter (below lower) es = []"
    by (cases "filter (below lower) es" rule: rev_cases) (simp_all add: entry_before_def)
  then show ?thesis by (simp add: filter_empty_conv)
qed

lemma entry_from_None: "entry_from upper es = None \<longleftrightarrow> (\<forall>e \<in> set es. below upper e)"
proof -
  have "entry_from upper es = None \<longleftrightarrow> filter (\<lambda>e. \<not> below upper e) es = []"
    by (cases "filter (\<lambda>e. \<not> below upper e) es") (simp_all add: entry_from_def)
  then show ?thesis by (simp add: filter_empty_conv)
qed

lemma ordered_append: "ordered (xs @ ys) \<longleftrightarrow>
    ordered xs \<and> ordered ys \<and> (\<forall>x \<in> set xs. \<forall>y \<in> set ys. key_Less (leKey x) (leKey y))"
  by (auto simp: ordered_def sorted_wrt_append)

text \<open>
  A stretch of an ordered list gives the answer for the whole list if it holds an entry below the
  range or starts the list, and holds an entry above the range or ends the list.
\<close>

lemma stretch_answers:
  assumes "ordered (xs @ es @ ys)" and "key_Less lower upper"
    and left: "entry_before lower es = None \<Longrightarrow> xs = []" and right: "entry_from upper es = None \<Longrightarrow> ys = []"
  shows "entries_in lower upper (xs @ es @ ys) = entries_in lower upper es"
    and "entry_before lower (xs @ es @ ys) = entry_before lower es"
    and "entry_from upper (xs @ es @ ys) = entry_from upper es"
proof -
  have up: "below lower e \<Longrightarrow> below upper e" for e using assms(2) key_order.less_trans by (auto simp: below_def)
  have x: "below lower x" if "x \<in> set xs" for x
  proof (cases "entry_before lower es")
    case (Some e)
    then obtain f where "f \<in> set es" "below lower f" using entry_before_None [of lower es] by auto
    with that assms(1) have "key_Less (leKey x) (leKey f)" "key_Less (leKey f) lower"
      by (simp_all add: below_def ordered_append)
    then show ?thesis unfolding below_def by (rule key_order.less_trans)
  qed (use that left in simp)
  have y: "\<not> below upper y" if "y \<in> set ys" for y
  proof (cases "entry_from upper es")
    case (Some e)
    then obtain f where "f \<in> set es" "\<not> below upper f" using entry_from_None [of upper es] by auto
    with that assms(1) show ?thesis by (auto simp: below_def ordered_append intro: key_order.less_trans)
  qed (use that right in simp)
  show "entries_in lower upper (xs @ es @ ys) = entries_in lower upper es"
    using x y by (auto simp: entries_in_def filter_empty_conv)
  have "entry_before lower ys = None" using y up by (auto simp: entry_before_None)
  then show "entry_before lower (xs @ es @ ys) = entry_before lower es"
    using left by (cases "entry_before lower es") (auto simp: entry_before_append or_else_def)
  have "entry_from upper xs = None" using x up by (auto simp: entry_from_None)
  then show "entry_from upper (xs @ es @ ys) = entry_from upper es"
    using right by (cases "entry_from upper es") (auto simp: entry_from_append or_else_def)
qed

lemma locatorEntryEqual_iff: "locatorEntryEqual a b \<longleftrightarrow> a = b"
  by (cases a; cases b) (auto simp: locatorEntryEqual_def Compare_eq)

lemma optionalEntryEqual_iff: "optionalEntryEqual a b \<longleftrightarrow> a = b"
  by (auto simp: optionalEntryEqual_def locatorEntryEqual_iff split: option.splits)

text \<open>What an accepted result satisfies.\<close>

lemma VerifyLocatorRangeResult_Inr:
  assumes "VerifyLocatorRangeResult H lower upper result root = Inr ()"
  defines "leaves \<equiv> rpLeaves (rrProof result)"
  defines "es \<equiv> flattenProofEntries leaves"
  shows "key_Less lower upper" and "VerifyLocatorPathProofs H (rrProof result) root = Inr ()"
    and "verifyConsecutiveLeafProofs leaves = Inr ()"
    and "entry_before lower es = None \<Longrightarrow> isLeftmostProof (hd leaves)"
    and "entry_from upper es = None \<Longrightarrow> lpNextPageID (last leaves) = None"
    and "rrPredecessor result = entry_before lower es" and "rrSuccessor result = entry_from upper es"
    and "rrEntries result = entries_in lower upper es"
proof -
  show less: "key_Less lower upper" using assms(1) by (auto simp: VerifyLocatorRangeResult_def key_Less_def split: if_splits)
  have fold: "foldl (classify lower upper) ([], None, None) es = (entries_in lower upper es, entry_before lower es, entry_from upper es)"
    using classify_foldl [OF less] by (simp add: or_else_def split: option.splits)
  have all: "VerifyLocatorPathProofs H (rrProof result) root = Inr () \<and> verifyConsecutiveLeafProofs leaves = Inr () \<and>
    (entry_before lower es = None \<longrightarrow> isLeftmostProof (hd leaves)) \<and>
    (entry_from upper es = None \<longrightarrow> lpNextPageID (last leaves) = None) \<and>
    rrPredecessor result = entry_before lower es \<and> rrSuccessor result = entry_from upper es \<and>
    list_all2 (=) (rrEntries result) (entries_in lower upper es)"
    using assms(1) less fold unfolding leaves_def es_def
    by (simp add: VerifyLocatorRangeResult_def Let_def Compare_ge locatorEntryEqual_iff [abs_def] optionalEntryEqual_iff
      split: if_splits) auto
  then show "VerifyLocatorPathProofs H (rrProof result) root = Inr ()" "verifyConsecutiveLeafProofs leaves = Inr ()"
    "entry_before lower es = None \<Longrightarrow> isLeftmostProof (hd leaves)"
    "entry_from upper es = None \<Longrightarrow> lpNextPageID (last leaves) = None"
    "rrPredecessor result = entry_before lower es" "rrSuccessor result = entry_from upper es"
    "rrEntries result = entries_in lower upper es"
    by (auto simp: list.rel_eq)
qed

section \<open>Range results\<close>

lemma proof_leaves_in_tree:
  assumes "VerifyLocatorPathProofs H p (bhash H t) = Inr ()" and "typed_tree t" and "typed_proof p"
    and "inj_on H (binputs H t \<union> proof_inputs H p)" and "lp \<in> set (rpLeaves p)"
  obtains i n es where "proof_leaf lp = (i, n, es)" "subtree t (path_indexes (lpPath lp)) = Some (BLeaf i n es)"
proof -
  have "ReconstructLocatorRoot H lp = Inr (bhash H t)" "typed_leaf_proof lp"
    using assms(1,3,5) by (auto simp: VerifyLocatorPathProofs_Inr typed_proof_def)
  moreover have "inj_on H (binputs H t \<union> leaf_proof_inputs H lp)"
    using assms(4) by (rule inj_on_subset) (use assms(5) in \<open>auto simp: proof_inputs_def\<close>)
  ultimately show ?thesis using leaf_proof_sound assms(2) that by blast
qed

lemma verified_range:
  assumes ok: "VerifyLocatorRangeResult H lower upper result (bhash H t) = Inr ()"
    and t: "locator_tree t" and p: "typed_proof (rrProof result)"
    and inj: "inj_on H (binputs H t \<union> proof_inputs H (rrProof result))"
  shows "rrEntries result = entries_in lower upper (bentries t)"
    and "rrPredecessor result = entry_before lower (bentries t)"
    and "rrSuccessor result = entry_from upper (bentries t)"
proof -
  let ?leaves = "rpLeaves (rrProof result)" and ?es = "flattenProofEntries (rpLeaves (rrProof result))"
  note acc = VerifyLocatorRangeResult_Inr [OF ok]
  have typed: "typed_tree t" and chain: "linked (bleaves t)" "distinct (map fst (bleaves t))" and ord: "ordered (bentries t)"
    using t by (auto simp: locator_tree_def)
  note leaf = proof_leaves_in_tree [OF acc(2) typed p inj]
  have mem: "proof_leaf lp \<in> set (bleaves t)" if "lp \<in> set ?leaves" for lp
    using leaf [OF that] subtree_leaves by (metis bleaves.simps(1) list.set_intros(1) subsetD)
  obtain pre post where ls: "bleaves t = pre @ map proof_leaf ?leaves @ post"
    using consecutive_leaves [OF chain verifyConsecutive_links [OF acc(3)]] mem by auto
  have ne: "?leaves \<noteq> []" using acc(2) by (simp add: VerifyLocatorPathProofs_Inr)
  have left: "pre = []" if none: "entry_before lower ?es = None"
  proof -
    from leaf [of "hd ?leaves"] ne obtain i n es where h: "proof_leaf (hd ?leaves) = (i, n, es)"
      "subtree t (path_indexes (lpPath (hd ?leaves))) = Some (BLeaf i n es)" by auto
    then obtain ls' where "bleaves t = [] @ (i, n, es) # ls'"
      using subtree_leftmost [OF h(2)] acc(4) [OF none] by (auto simp: isLeftmostProof_def)
    moreover have "bleaves t = pre @ (i, n, es) # tl (map proof_leaf ?leaves) @ post"
      using ls ne h(1) by (cases ?leaves) auto
    ultimately show ?thesis using distinct_split_unique [OF chain(2)] by (metis)
  qed
  have right: "post = []" if none: "entry_from upper ?es = None"
  proof -
    have "map proof_leaf ?leaves = map proof_leaf (butlast ?leaves) @ [proof_leaf (last ?leaves)]"
      using ne by (metis append_butlast_last_id list.simps(8,9) map_append)
    then have "linked ((pre @ map proof_leaf (butlast ?leaves)) @ proof_leaf (last ?leaves) # post)"
      using ls chain(1) by simp
    then show ?thesis
      using linked_next acc(5) [OF none] unfolding proof_leaf_def by (fastforce split: if_splits)
  qed
  let ?x = "concat (map leaf_entries pre)" and ?y = "concat (map leaf_entries post)"
  have split: "bentries t = ?x @ ?es @ ?y" unfolding bentries_def ls flatten_proof_leaves by simp
  note ans = stretch_answers [of ?x ?es ?y lower upper]
  show "rrEntries result = entries_in lower upper (bentries t)" "rrPredecessor result = entry_before lower (bentries t)"
    "rrSuccessor result = entry_from upper (bentries t)"
    unfolding split using ans ord split acc(1,6-8) left right by auto
qed

end
