(* ===== verification/Locator_Properties.thy ===== *)
theory Locator_Properties
  imports Locator_Verify HMF_Forest
begin

text \<open>
  The properties of the locator's pages and range proofs: what an accepted range result or query
  result says about the tree, the stored form of pages, and the limit of the proofs that comes from
  the 64-bit event times in page hashes.
\<close>

section \<open>Queries\<close>

definition matches_query :: "LocatorQuery \<Rightarrow> LocatorEntry \<Rightarrow> bool" where
  "matches_query query e \<longleftrightarrow> lkTenantID (leKey e) = lqTenantID query \<and> lkServiceID (leKey e) = lqServiceID query \<and>
     lkLogType (leKey e) = lqLogType query \<and> lkRegionID (leKey e) = lqRegionID query \<and>
     lqStartTime query \<le> lkEventTime (leKey e) \<and> lkEventTime (leKey e) < lqEndTime query"

text \<open>The two bounds delimit exactly the entries the query describes.\<close>

definition key_prefix :: "LocatorKey \<Rightarrow> string \<times> string \<times> string \<times> string" where
  "key_prefix k = (lkTenantID k, lkServiceID k, lkLogType k, lkRegionID k)"

lemma below_bound:
  assumes "lkLogID b = 0"
  shows "below b e \<longleftrightarrow> key_prefix (leKey e) < key_prefix b \<or> key_prefix (leKey e) = key_prefix b \<and> lkEventTime (leKey e) < lkEventTime b"
  using assms by (cases "leKey e"; cases b) (auto simp: below_def key_Less_def Compare_less key_tuple_def key_prefix_def)

lemma Bounds_entries:
  assumes "Bounds query = Inr (lower, upper)"
  shows "entries_in lower upper es = filter (matches_query query) es"
proof -
  let ?p = "(lqTenantID query, lqServiceID query, lqLogType query, lqRegionID query)"
  have b: "lkLogID lower = 0" "lkLogID upper = 0" "key_prefix lower = ?p" "key_prefix upper = ?p"
    "lkEventTime lower = lqStartTime query" "lkEventTime upper = lqEndTime query"
    using assms by (auto simp: Bounds_def Let_def key_prefix_def split: if_splits)
  have "matches_query query e \<longleftrightarrow>
      key_prefix (leKey e) = ?p \<and> lqStartTime query \<le> lkEventTime (leKey e) \<and> lkEventTime (leKey e) < lqEndTime query" for e
    by (auto simp: matches_query_def key_prefix_def)
  moreover have "\<not> (x < p \<or> x = p \<and> t < u) \<and> (x < p \<or> x = p \<and> t < v) \<longleftrightarrow> x = p \<and> u \<le> t \<and> t < v"
    for x p :: "string \<times> string \<times> string \<times> string" and t u v :: time
    by auto
  ultimately have "\<not> below lower e \<and> below upper e \<longleftrightarrow> matches_query query e" for e
    unfolding below_bound [OF b(1)] below_bound [OF b(2)] b by (simp only:)
  then show ?thesis by (simp add: entries_in_def)
qed

section \<open>A concrete tree\<close>

definition key_at :: "time \<Rightarrow> LocatorKey" where
  "key_at time = \<lparr>lkLogID = 0, lkEventTime = time, lkRegionID = ''r'', lkTenantID = ''t'', lkServiceID = ''s'', lkLogType = ''l''\<rparr>"

definition two_leaves :: btree where
  "two_leaves = BNode 3 [key_at 20] [BLeaf 1 (Some 2) [(key_at 10, None)], BLeaf 2 None [(key_at 20, None), (key_at 30, None)]]"

definition two_leaf_hashes :: "hash list" where
  "two_leaf_hashes = [bhash len_hash (BLeaf 1 (Some 2) [(key_at 10, None)]),
     bhash len_hash (BLeaf 2 None [(key_at 20, None), (key_at 30, None)])]"

definition two_leaf_proof :: LocatorRangeProof where
  "two_leaf_proof = \<lparr>rpLeaves = [
      \<lparr>lpPageID = 1, lpNextPageID = Some 2, lpKeys = [key_at 10], lpValues = [None],
        lpPath = [\<lparr>psPageID = 3, psKeys = [key_at 20], psChildIndex = 0, psChildHashes = two_leaf_hashes\<rparr>]\<rparr>,
      \<lparr>lpPageID = 2, lpNextPageID = None, lpKeys = [key_at 20, key_at 30], lpValues = [None, None],
        lpPath = [\<lparr>psPageID = 3, psKeys = [key_at 20], psChildIndex = 1, psChildHashes = two_leaf_hashes\<rparr>]\<rparr>],
    rpReconstructedRoot = bhash len_hash two_leaves\<rparr>"

definition two_leaf_result :: LocatorRangeResult where
  "two_leaf_result = \<lparr>rrEntries = [\<lparr>lePageID = 2, leKey = key_at 20, leValue = None\<rparr>],
     rrPredecessor = Some \<lparr>lePageID = 1, leKey = key_at 10, leValue = None\<rparr>,
     rrSuccessor = Some \<lparr>lePageID = 2, leKey = key_at 30, leValue = None\<rparr>, rrProof = two_leaf_proof\<rparr>"

definition two_leaf_query :: LocatorQuery where
  "two_leaf_query = \<lparr>lqTenantID = ''t'', lqServiceID = ''s'', lqLogType = ''l'', lqRegionID = ''r'',
     lqStartTime = 15, lqEndTime = 25\<rparr>"

lemma key_at_simps [simp]: "encodable_key (key_at t) \<longleftrightarrow> int64 t" "Compare (key_at s) (key_at t) = (if s < t then -1 else if s = t then 0 else 1)"
  "key_Less (key_at s) (key_at t) \<longleftrightarrow> s < t" "length (encodeKey (key_at t)) = 44" "key_at s = key_at t \<longleftrightarrow> s = t"
  by (simp_all add: key_at_def encodable_key_def Compare_def uuid_Compare_def key_Less_def length_encodeKey)

lemma two_leaves_tree: "locator_tree two_leaves"
  by (simp add: locator_tree_def two_leaves_def encodable_entry_def encodable_value_def ordered_def bentries_def
      leaf_entries_def int64_def)

lemma two_leaf_bounds: "Bounds two_leaf_query = Inr (key_at 15, key_at 25)"
  by (simp add: Bounds_def two_leaf_query_def key_at_def IsZero_def time_zero_def)

lemma two_leaf_accepted:
  "VerifyLocatorRangeResult len_hash (key_at 15) (key_at 25) two_leaf_result (bhash len_hash two_leaves) = Inr ()"
  by (simp add: VerifyLocatorRangeResult_def two_leaf_result_def two_leaf_proof_def VerifyLocatorPathProofs_def
      ReconstructLocatorRoot_def leafHash_def path_up_def two_leaf_hashes_def two_leaves_def verifyConsecutiveLeafProofs_def
      check_leaf_def check_key_def flattenProofEntries_def classify_def optionalEntryEqual_def locatorEntryEqual_def Let_def)

lemma two_leaf_inputs: "inj_on len_hash (binputs len_hash two_leaves \<union> proof_inputs len_hash two_leaf_proof)"
proof -
  let ?a = "leaf_input 1 (Some 2) [key_at 10] [None]" and ?b = "leaf_input 2 None [key_at 20, key_at 30] [None, None]"
    and ?c = "internal_input [key_at 20] two_leaf_hashes"
  have "binputs len_hash two_leaves \<union> proof_inputs len_hash two_leaf_proof \<subseteq> {?a, ?b, ?c}"
    by (auto simp: two_leaves_def two_leaf_proof_def proof_inputs_def leaf_proof_inputs_def proof_leaf_def step_input_def
        two_leaf_hashes_def)
  moreover have "length ?a = 66" "length ?b = 103" "length ?c = 116"
    by (simp_all add: leaf_input_def internal_input_def concatEncKeys_def concatEncChild_def encodeValue_def writeInt64_def
        two_leaf_hashes_def)
  then have "inj_on len_hash {?a, ?b, ?c}" by (auto simp: len_hash_def)
  ultimately show ?thesis by (rule inj_on_subset [rotated])
qed

lemma two_leaf_typed: "typed_proof two_leaf_proof"
  by (simp add: typed_proof_def two_leaf_proof_def typed_leaf_proof_def proof_leaf_def encodable_entry_def
      encodable_value_def int64_def)

section \<open>Range results\<close>

text \<open>C16: Range proofs are sound and complete. If \<^verbatim>\<open>VerifyLocatorRangeResult\<close> accepts a result against the
  root of a locator tree (linked leaves with distinct page identifiers, strictly ordered entries),
  the returned entries are exactly the entries of the tree in \<open>[lower, upper)\<close>, in order, and the
  two boundaries are the last entry before and the first entry from \<open>upper\<close> on, unless the hash
  collides on an input of the tree or of the proof. The event times of the keys of the tree and of the
  proof are assumed to be within the range of 64-bit nanoseconds (the years 1678 to 2262): the verifier
  does not check this, and beyond it a result can be accepted that is not exact, as the section on event
  times shows. The other values fit their Go types, and strings are shorter than
  \<open>2 ^ 32\<close> bytes.\<close>

theorem verified_range_is_exact:
  assumes "VerifyLocatorRangeResult H lower upper result (bhash H t) = Inr ()" and "locator_tree t"
    and "typed_proof (rrProof result)" and "inj_on H (binputs H t \<union> proof_inputs H (rrProof result))"
  shows "rrEntries result = entries_in lower upper (bentries t) \<and>
    rrPredecessor result = entry_before lower (bentries t) \<and> rrSuccessor result = entry_from upper (bentries t)"
  using verified_range [OF assms] by blast

theorem verified_range_is_exact_witness:
  "rrEntries two_leaf_result = entries_in (key_at 15) (key_at 25) (bentries two_leaves) \<and>
   rrPredecessor two_leaf_result = entry_before (key_at 15) (bentries two_leaves) \<and>
   rrSuccessor two_leaf_result = entry_from (key_at 25) (bentries two_leaves)"
  by (rule verified_range_is_exact [OF two_leaf_accepted two_leaves_tree])
    (simp_all add: two_leaf_result_def two_leaf_typed two_leaf_inputs)

text \<open>C3: A query result that \<^verbatim>\<open>VerifyLocatorQueryResult\<close> accepts against the root of a locator tree
  contains exactly the entries of the tree with the query's tenant, service, log type and region
  and an event time in the half-open interval: nothing is left out and nothing is added, unless the
  hash collides. As for ranges, the event times of the keys of the tree and of the proof are assumed to be
  within the range of 64-bit nanoseconds, which the verifier does not check.\<close>

theorem verified_query_is_exact:
  assumes "VerifyLocatorQueryResult H query result (bhash H t) = Inr ()" and "locator_tree t"
    and "typed_proof (rrProof result)" and "inj_on H (binputs H t \<union> proof_inputs H (rrProof result))"
  shows "rrEntries result = filter (matches_query query) (bentries t)"
proof -
  obtain lower upper where "Bounds query = Inr (lower, upper)"
    "VerifyLocatorRangeResult H lower upper result (bhash H t) = Inr ()"
    using assms(1) by (auto simp: VerifyLocatorQueryResult_def)
  then show ?thesis using verified_range(1) [OF _ assms(2-4)] Bounds_entries by simp
qed

theorem verified_query_is_exact_witness:
  "rrEntries two_leaf_result = filter (matches_query two_leaf_query) (bentries two_leaves)"
  by (rule verified_query_is_exact [of len_hash, OF _ two_leaves_tree])
    (simp_all add: VerifyLocatorQueryResult_def two_leaf_bounds two_leaf_accepted two_leaf_result_def [symmetric],
     simp_all add: two_leaf_result_def two_leaf_typed two_leaf_inputs)

section \<open>Event times beyond the nanosecond clock\<close>

text \<open>The proof of a one-leaf tree, with the key \<open>k\<close> shown as the key \<open>k'\<close>.\<close>

definition one_leaf_result :: "hash_fn \<Rightarrow> int \<Rightarrow> LocatorKey \<Rightarrow> LocatorKey \<Rightarrow> LocatorValue option \<Rightarrow> LocatorRangeResult" where
  "one_leaf_result H i k k' v = \<lparr>rrEntries = [\<lparr>lePageID = i, leKey = k', leValue = v\<rparr>], rrPredecessor = None, rrSuccessor = None,
     rrProof = \<lparr>rpLeaves = [\<lparr>lpPageID = i, lpNextPageID = None, lpKeys = [k'], lpValues = [v], lpPath = []\<rparr>],
       rpReconstructedRoot = bhash H (BLeaf i None [(k, v)])\<rparr>\<rparr>"

lemma encodeKey_shift: "encodeKey (k\<lparr>lkEventTime := lkEventTime k + 2 ^ 64\<rparr>) = encodeKey k"
proof -
  have "wrap64 (lkEventTime k + 2 ^ 64) = wrap64 (lkEventTime k)" by (subst wrap64_eq_iff) (rule mod_add_self2)
  then show ?thesis by (simp add: encodeKey_def UnixNano_def)
qed

text \<open>C36: The limit of range proofs. Page hashes see an event time only as 64-bit nanoseconds while the
  key order compares the full instant, so a proof can show an entry under an event time \<open>2 ^ 64\<close>
  nanoseconds later than the one stored: \<^verbatim>\<open>VerifyLocatorRangeResult\<close> accepts the changed key, for
  every hash function and for every range that contains the later and not the stored time.\<close>

theorem wrapped_event_time_is_accepted:
  assumes "k' = k\<lparr>lkEventTime := lkEventTime k + 2 ^ 64\<rparr>" and "\<not> key_Less k' lower" and "key_Less k' upper"
  shows "VerifyLocatorRangeResult H lower upper (one_leaf_result H i k k' v) (bhash H (BLeaf i None [(k, v)])) = Inr ()"
proof -
  have e: "encodeKey k' = encodeKey k" unfolding assms(1) by (rule encodeKey_shift)
  have lu: "\<not> 0 \<le> Compare lower upper"
    using assms(2,3) key_order.less_total [of k' lower] key_order.less_trans by (auto simp: Compare_ge)
  have "ReconstructLocatorRoot H \<lparr>lpPageID = i, lpNextPageID = None, lpKeys = [k'], lpValues = [v], lpPath = []\<rparr> =
      Inr (bhash H (BLeaf i None [(k, v)]))"
    by (simp add: ReconstructLocatorRoot_def leafHash_def leaf_input_def e Let_def)
  moreover have "\<not> Compare k' lower < 0" "Compare k' upper < 0" using assms(2,3) by (simp_all add: key_Less_def)
  ultimately show ?thesis
    using lu by (simp add: VerifyLocatorRangeResult_def one_leaf_result_def VerifyLocatorPathProofs_def
      verifyConsecutiveLeafProofs_def check_leaf_def check_key_def flattenProofEntries_def classify_def isLeftmostProof_def
      isRightmostProof_def optionalEntryEqual_def locatorEntryEqual_iff Let_def)
qed

theorem wrapped_event_time_is_accepted_witness:
  "VerifyLocatorRangeResult len_hash (key_at (2 ^ 64)) (key_at (2 ^ 64 + 100))
     (one_leaf_result len_hash 1 (key_at 10) (key_at (2 ^ 64 + 10)) None) (bhash len_hash (BLeaf 1 None [(key_at 10, None)])) = Inr ()
   \<and> entries_in (key_at (2 ^ 64)) (key_at (2 ^ 64 + 100)) (bentries (BLeaf 1 None [(key_at 10, None)])) = []"
proof
  show "entries_in (key_at (2 ^ 64)) (key_at (2 ^ 64 + 100)) (bentries (BLeaf 1 None [(key_at 10, None)])) = []"
    by (simp add: entries_in_def bentries_def leaf_entries_def below_def)
qed (rule wrapped_event_time_is_accepted, simp_all add: key_at_def [of "2 ^ 64 + 10"] key_at_def [of 10], simp_all add: key_at_def key_Less_def Compare_def)

section \<open>Stored pages\<close>

text \<open>A page with its pointers followed one step.\<close>

definition deref_page :: "('p \<Rightarrow> PageRef) \<Rightarrow> 'p Page \<Rightarrow> PageRef Page" where
  "deref_page deref page = \<lparr>pgPageID = pgPageID page, pgHash = pgHash page, pgIsLeaf = pgIsLeaf page, pgKeys = pgKeys page,
     pgParent = map_option deref (pgParent page), pgParentPageID = pgParentPageID page, pgValues = pgValues page,
     pgNext = map_option deref (pgNext page), pgChildren = map deref (pgChildren page)\<rparr>"

definition page_hash :: "hash_fn \<Rightarrow> ('p \<Rightarrow> PageRef) \<Rightarrow> 'p Page \<Rightarrow> hash result" where
  "page_hash H deref page = (if pgIsLeaf page then leafHash H deref page else Inr (internalHash H deref page))"

lemma MarshalPage_deref: "MarshalPage deref page = MarshalPage (\<lambda>r. r) (deref_page deref page)"
  by (simp add: MarshalPage_def deref_page_def comp_def)

text \<open>What comes back from the columns of a page: the next page is a stub that has only its identifier.\<close>

definition restored_page :: "hash \<Rightarrow> int option \<Rightarrow> ('p \<Rightarrow> PageRef) \<Rightarrow> 'p Page \<Rightarrow> PageRef Page" where
  "restored_page h parentPageID deref page = (deref_page deref page)\<lparr>pgHash := h, pgParent := None, pgParentPageID := parentPageID,
     pgNext := map_option (\<lambda>n. \<lparr>prPageID = prPageID (deref n), prHash = 0\<rparr>) (pgNext page)\<rparr>"

lemma page_hash_restored: "page_hash H (\<lambda>r. r) (restored_page h p deref page) = page_hash H deref page"
  by (simp add: page_hash_def leafHash_def internalHash_def restored_page_def deref_page_def option.map_comp comp_def)

lemma copyInt64Pointer_id [simp]: "copyInt64Pointer p = p"
  by (simp add: copyInt64Pointer_def split: option.splits)

lemma UnmarshalStoredPage_Inr: "UnmarshalStoredPage H data i p n h = Inr page \<longleftrightarrow> length h = 32 \<and>
    (\<exists>page0. UnmarshalPage data = Inr page0 \<and> page = page0\<lparr>pgPageID := i, pgParentPageID := p,
       pgNext := map_option (\<lambda>n. \<lparr>prPageID = n, prHash = 0\<rparr>) n, pgHash := hash_of_bytes h\<rparr>) \<and>
    page_hash H (\<lambda>r. r) page = Inr (hash_of_bytes h)"
proof (cases "UnmarshalPage data")
  case (Inr page0)
  define page1 where "page1 = page0\<lparr>pgPageID := i, pgParentPageID := p,
    pgNext := map_option (\<lambda>n. \<lparr>prPageID = n, prHash = 0\<rparr>) n, pgHash := hash_of_bytes h\<rparr>"
  have "UnmarshalStoredPage H data i p n h = Inr page \<longleftrightarrow> length h = 32 \<and>
      rbind (page_hash H (\<lambda>r. r) page1) (\<lambda>computed. if hash_bytes computed \<noteq> hash_bytes (pgHash page1)
        then Inl (Errorf ''unmarshal stored page %d: page hash does not match page data'') else Inr page1) = Inr page"
    by (simp add: UnmarshalStoredPage_def Inr page_hash_def page1_def Let_def)
  moreover have "pgHash page1 = hash_of_bytes h" by (simp add: page1_def)
  ultimately show ?thesis by (auto simp: Inr page1_def [symmetric] split: if_splits)
qed (simp add: UnmarshalStoredPage_def)

text \<open>The bytes a page hash covers.\<close>

definition page_input :: "PageRef Page \<Rightarrow> byte list" where
  "page_input page = (if pgIsLeaf page
     then leaf_input (pgPageID page) (map_option prPageID (pgNext page)) (pgKeys page) (pgValues page)
     else internal_input (pgKeys page) (map prHash (pgChildren page)))"

lemma page_hash_input: "page_hash H (\<lambda>r. r) page = Inr h \<Longrightarrow> h = H (page_input page)"
  by (auto simp: page_hash_def leafHash_def internalHash_def page_input_def comp_def split: if_splits)

lemma storable_entries: "storable page \<Longrightarrow> pgIsLeaf page \<Longrightarrow> \<forall>e \<in> set (zip (pgKeys page) (pgValues page)). encodable_entry e"
  by (auto simp: storable_def encodable_entry_def dest: set_zip_leftD set_zip_rightD)

lemma storable_columns: "storable (page\<lparr>pgPageID := i, pgParentPageID := p, pgNext := n, pgHash := h\<rparr>) = storable page"
  by (simp add: storable_def)

lemma page_input_inject:
  assumes "page_input page = page_input page'" and "storable page" and "storable page'"
    and "int64 (pgPageID page)" and "int64 (pgPageID page')"
    and "\<forall>m. map_option prPageID (pgNext page) = Some m \<longrightarrow> int64 m" and "\<forall>m. map_option prPageID (pgNext page') = Some m \<longrightarrow> int64 m"
  shows "pgIsLeaf page = pgIsLeaf page' \<and> pgKeys page = pgKeys page' \<and> pgValues page = pgValues page' \<and>
    map prHash (pgChildren page) = map prHash (pgChildren page') \<and>
    (pgIsLeaf page \<longrightarrow> pgPageID page = pgPageID page' \<and> map_option prPageID (pgNext page) = map_option prPageID (pgNext page'))"
proof -
  have same: "pgIsLeaf page = pgIsLeaf page'"
    using assms(1) leaf_not_internal by (metis page_input_def)
  show ?thesis
  proof (cases "pgIsLeaf page")
    case True
    then have "leaf_input (pgPageID page) (map_option prPageID (pgNext page)) (pgKeys page) (pgValues page) =
        leaf_input (pgPageID page') (map_option prPageID (pgNext page')) (pgKeys page') (pgValues page')"
      using assms(1) same by (simp add: page_input_def)
    from leaf_input_inject [OF this _ _ assms(4-7) storable_entries [OF assms(2)] storable_entries [OF assms(3)]]
    show ?thesis using True same assms(2,3) by (simp add: storable_def)
  next
    case False
    then have "internal_input (pgKeys page) (map prHash (pgChildren page)) = internal_input (pgKeys page') (map prHash (pgChildren page'))"
      using assms(1) same by (simp add: page_input_def)
    from internal_input_inject [OF this] show ?thesis using False same assms(2,3) by (simp add: storable_def)
  qed
qed

lemma stored_page_restored:
  assumes "storable (deref_page deref page)" and "page_hash H deref page = Inr h"
  shows "UnmarshalStoredPage H (page_bytes (deref_page deref page)) (pgPageID page) parentPageID
    (map_option (prPageID \<circ> deref) (pgNext page)) (hash_bytes h) = Inr (restored_page h parentPageID deref page)"
proof -
  let ?page = "restored_page h parentPageID deref page"
  have "?page = (page_content (deref_page deref page))\<lparr>pgPageID := pgPageID page, pgParentPageID := parentPageID,
      pgNext := map_option (\<lambda>n. \<lparr>prPageID = n, prHash = 0\<rparr>) (map_option (prPageID \<circ> deref) (pgNext page)),
      pgHash := hash_of_bytes (hash_bytes h)\<rparr>"
    by (simp add: restored_page_def page_content_def deref_page_def option.map_comp comp_def)
  then show ?thesis
    unfolding UnmarshalStoredPage_Inr page_hash_restored using assms(2) UnmarshalPage_bytes [OF assms(1)] by auto
qed

text \<open>C29: Pages survive storage. A page whose contents fit the stored form is marshalled, and
  \<^verbatim>\<open>UnmarshalStoredPage\<close> with the page's identifiers and its hash gives back the page with the same
  keys, values and child references, the given parent and the identifier of the next page.\<close>

theorem stored_page_round_trip:
  assumes "storable (deref_page deref page)" and "page_hash H deref page = Inr h"
  shows "\<exists>data. MarshalPage deref page = Inr data \<and>
    UnmarshalStoredPage H data (pgPageID page) parentPageID (map_option (prPageID \<circ> deref) (pgNext page)) (hash_bytes h) =
      Inr (restored_page h parentPageID deref page)"
  using stored_page_restored [OF assms] MarshalPage_storable [OF assms(1)] MarshalPage_deref [of deref page] by auto

definition example_page :: "PageRef Page" where
  "example_page = \<lparr>pgPageID = 3, pgHash = 0, pgIsLeaf = False, pgKeys = [key_at 20], pgParent = None, pgParentPageID = None,
     pgValues = [], pgNext = None, pgChildren = [\<lparr>prPageID = 1, prHash = 7\<rparr>, \<lparr>prPageID = 2, prHash = 8\<rparr>]\<rparr>"

theorem stored_page_round_trip_witness:
  "\<exists>data. MarshalPage (\<lambda>r. r) example_page = Inr data \<and>
    UnmarshalStoredPage len_hash data (pgPageID example_page) None (map_option (prPageID \<circ> (\<lambda>r. r)) (pgNext example_page))
      (hash_bytes (internalHash len_hash (\<lambda>r. r) example_page)) =
      Inr (restored_page (internalHash len_hash (\<lambda>r. r) example_page) None (\<lambda>r. r) example_page)"
  by (rule stored_page_round_trip) (simp_all add: example_page_def deref_page_def storable_def int64_def page_hash_def)

text \<open>The stored form is canonical: whatever \<^verbatim>\<open>UnmarshalPage\<close> accepts is what \<^verbatim>\<open>MarshalPage\<close> writes for
  the page it returns, so a page has one stored form.\<close>

theorem page_encoding_is_canonical:
  assumes "UnmarshalPage data = Inr page" and "length data < 2 ^ 32"
  shows "MarshalPage (\<lambda>r. r) page = Inr data"
  using UnmarshalPage_Inr [OF assms] MarshalPage_storable by auto

theorem page_encoding_is_canonical_witness:
  "MarshalPage (\<lambda>r. r) \<lparr>pgPageID = 0, pgHash = 0, pgIsLeaf = True, pgKeys = [], pgParent = None, pgParentPageID = None,
     pgValues = [], pgNext = None, pgChildren = []\<rparr> = Inr [2, 1, 0, 0, 0, 0]"
  by (rule page_encoding_is_canonical)
    (simp_all add: UnmarshalPage_def readByte_def readUint32_def readFull_def PageFormatVersion_def be_nat_def)

text \<open>C31: A stored page is authentic: two stored pages accepted with the same page hash are of the same kind,
  with the same keys, values and child hashes, and two leaves also have the same identifier and the
  same next page, unless the hash collides on the two pages. The hash does not cover the identifiers of
  the children, nor the page's own identifier when the page is internal: pages that differ only in these
  are accepted under the same hash.\<close>

theorem stored_page_is_authentic:
  assumes "UnmarshalStoredPage H data i p n h = Inr page" and "UnmarshalStoredPage H data' i' p' n' h = Inr page'"
    and "length data < 2 ^ 32" and "length data' < 2 ^ 32"
    and "int64 i" and "int64 i'" and "\<forall>m. n = Some m \<longrightarrow> int64 m" and "\<forall>m. n' = Some m \<longrightarrow> int64 m"
    and "inj_on H {page_input page, page_input page'}"
  shows "pgIsLeaf page = pgIsLeaf page' \<and> pgKeys page = pgKeys page' \<and> pgValues page = pgValues page' \<and>
    map prHash (pgChildren page) = map prHash (pgChildren page') \<and> (pgIsLeaf page \<longrightarrow> i = i' \<and> n = n')"
proof -
  note stored = assms(1,2) [unfolded UnmarshalStoredPage_Inr]
  from stored obtain page0 page0' where raw: "UnmarshalPage data = Inr page0" "UnmarshalPage data' = Inr page0'"
    and page: "page = page0\<lparr>pgPageID := i, pgParentPageID := p,
       pgNext := map_option (\<lambda>n. \<lparr>prPageID = n, prHash = 0\<rparr>) n, pgHash := hash_of_bytes h\<rparr>"
    and page': "page' = page0'\<lparr>pgPageID := i', pgParentPageID := p',
       pgNext := map_option (\<lambda>n. \<lparr>prPageID = n, prHash = 0\<rparr>) n', pgHash := hash_of_bytes h\<rparr>" by blast
  have st: "storable page" "storable page'"
    using UnmarshalPage_Inr [OF raw(1) assms(3)] UnmarshalPage_Inr [OF raw(2) assms(4)]
    by (simp_all add: page page' storable_columns)
  have ids: "pgPageID page = i" "pgPageID page' = i'" "map_option prPageID (pgNext page) = n" "map_option prPageID (pgNext page') = n'"
    by (simp_all add: page page' option.map_comp comp_def option.map_ident)
  have "H (page_input page) = H (page_input page')" using stored by (metis page_hash_input)
  then have "page_input page = page_input page'" using assms(9) by (auto dest: inj_onD)
  from page_input_inject [OF this st, unfolded ids, OF assms(5-8)] show ?thesis .
qed

definition empty_leaf :: "int option \<Rightarrow> PageRef Page" where
  "empty_leaf parent = \<lparr>pgPageID = 5, pgHash = 13, pgIsLeaf = True, pgKeys = [], pgParent = None, pgParentPageID = parent,
     pgValues = [], pgNext = None, pgChildren = []\<rparr>"

lemma empty_leaf_stored: "UnmarshalStoredPage len_hash [2, 1, 0, 0, 0, 0] 5 p None (hash_bytes 13) = Inr (empty_leaf p)"
proof -
  have "length (leaf_input 5 None [] []) = 13" by (simp add: leaf_input_def writeInt64_def)
  then show ?thesis
    by (simp add: UnmarshalStoredPage_Inr UnmarshalPage_def readByte_def readUint32_def readFull_def PageFormatVersion_def
        be_nat_def empty_leaf_def page_hash_def leafHash_def len_hash_def)
qed

theorem stored_page_is_authentic_witness:
  "pgIsLeaf (empty_leaf None) = pgIsLeaf (empty_leaf (Some 9)) \<and> pgKeys (empty_leaf None) = pgKeys (empty_leaf (Some 9)) \<and>
   pgValues (empty_leaf None) = pgValues (empty_leaf (Some 9)) \<and>
   map prHash (pgChildren (empty_leaf None)) = map prHash (pgChildren (empty_leaf (Some 9)))"
proof -
  note same = stored_page_is_authentic [OF empty_leaf_stored [of None] empty_leaf_stored [of "Some 9"]]
  show ?thesis using same by (simp add: int64_def page_input_def empty_leaf_def)
qed

end
