(* ===== verification/Locator_Resolve.thy ===== *)
theory Locator_Resolve
  imports Locator_Proof
begin

text \<open>
  The resolving half of \<^verbatim>\<open>internal/all/locator_range.go\<close>: a range is resolved by reading pages on
  demand from a page source, and its proof is built from the pages read. A source may fail, return
  no page or return any page; the context of the calls may be cancelled between two reads. Children
  of a page that was read are never nil, so the two checks for nil children have no counterpart.
\<close>

section \<open>Reading pages\<close>

text \<open>\<^verbatim>\<open>PageReader\<close>, with the state of the world it reads from and the context of the calls.\<close>

record 's PageReader =
  ctx_Err :: "'s \<Rightarrow> ('s, unit) outcome"
  ReadPage :: "'s \<Rightarrow> int \<Rightarrow> ('s, PageRef Page option) outcome"

record 's cachingPageReader =
  crSource :: 's
  crPages :: "int \<rightharpoonup> PageRef Page option"

definition newCachingPageReader :: "'s \<Rightarrow> 's cachingPageReader" where
  "newCachingPageReader source = \<lparr>crSource = source, crPages = Map.empty\<rparr>"

definition caching_ReadPage ::
  "'s PageReader \<Rightarrow> 's cachingPageReader \<Rightarrow> int \<Rightarrow> ('s cachingPageReader, PageRef Page option) outcome" where
  "caching_ReadPage rd reader pageID =
     (case ctx_Err rd (crSource reader) of
        (s, Inl e) \<Rightarrow> (reader\<lparr>crSource := s\<rparr>, Inl e)
      | (s, Inr _) \<Rightarrow>
        (case crPages reader pageID of
           Some page \<Rightarrow> (reader\<lparr>crSource := s\<rparr>, Inr page)
         | None \<Rightarrow>
           (case ReadPage rd s pageID of
              (s', Inl e) \<Rightarrow> (reader\<lparr>crSource := s'\<rparr>, Inl e)
            | (s', Inr page) \<Rightarrow> (reader\<lparr>crSource := s', crPages := (crPages reader)(pageID \<mapsto> page)\<rparr>, Inr page))))"

definition readChild ::
  "'s PageReader \<Rightarrow> 's cachingPageReader \<Rightarrow> PageRef Page \<Rightarrow> nat \<Rightarrow> ('s cachingPageReader, PageRef Page) outcome" where
  "readChild rd reader parent childIndex =
     (if length (pgChildren parent) \<le> childIndex
      then (reader, Inl (Errorf ''read child: child index %d out of range for page %d''))
      else let expected = pgChildren parent ! childIndex in
        sbind (swrap ''read child page %d: %w'' (caching_ReadPage rd reader (prPageID expected))) (\<lambda>reader child.
          case child of
            None \<Rightarrow> (reader, Inl (Errorf ''read child page %d: page is nil''))
          | Some child \<Rightarrow>
              if hash_bytes (pgHash child) \<noteq> hash_bytes (prHash expected)
              then (reader, Inl (Errorf ''read child page %d: hash does not match parent reference''))
              else (reader, Inr child)))"

section \<open>Finding leaves and entries\<close>

record pathStep =
  stPage :: "PageRef Page"
  stChildIndex :: nat

text \<open>
  The loops that follow page references run as long as the source supplies internal pages: \<open>n\<close>
  bounds the pages one loop visits, and a loop that exhausts it is the value \<open>Diverge\<close>.
\<close>

fun find_leaf_loop ::
  "'s PageReader \<Rightarrow> LocatorKey \<Rightarrow> nat \<Rightarrow> 's cachingPageReader \<Rightarrow> PageRef Page \<Rightarrow> pathStep list \<Rightarrow>
     ('s cachingPageReader, PageRef Page \<times> pathStep list) outcome" where
  "find_leaf_loop rd key 0 reader page path =
     (if pgIsLeaf page then (reader, Inr (page, path)) else (reader, Inl Diverge))"
| "find_leaf_loop rd key (Suc n) reader page path =
     (if pgIsLeaf page then (reader, Inr (page, path))
      else let childIndex = findKeyIdx (pgKeys page) key in
        if length (pgChildren page) \<le> childIndex
        then (reader, Inl (Errorf ''find locator leaf: child index %d out of range for page %d''))
        else sbind (readChild rd reader page childIndex) (\<lambda>reader child.
          find_leaf_loop rd key n reader child (path @ [\<lparr>stPage = page, stChildIndex = childIndex\<rparr>])))"

definition findLeaf ::
  "'s PageReader \<Rightarrow> nat \<Rightarrow> 's cachingPageReader \<Rightarrow> PageRef Page \<Rightarrow> LocatorKey \<Rightarrow>
     ('s cachingPageReader, PageRef Page \<times> pathStep list) outcome" where
  "findLeaf rd n reader root key = find_leaf_loop rd key n reader root []"

definition lowerBound :: "LocatorKey list \<Rightarrow> LocatorKey \<Rightarrow> nat" where
  "lowerBound keys target = sort_Search (length keys) (\<lambda>index. Compare (keys ! index) target \<ge> 0)"

definition entryAt :: "PageRef Page \<Rightarrow> nat \<Rightarrow> LocatorEntry result" where
  "entryAt page index =
     (if length (pgKeys page) \<le> index \<or> length (pgValues page) \<le> index then Inl (Panic ''index out of range'')
      else Inr \<lparr>lePageID = pgPageID page, leKey = pgKeys page ! index, leValue = pgValues page ! index\<rparr>)"

text \<open>Down the right edge, and down the left edge, of a subtree.\<close>

fun right_edge ::
  "'s PageReader \<Rightarrow> nat \<Rightarrow> 's cachingPageReader \<Rightarrow> PageRef Page \<Rightarrow> ('s cachingPageReader, PageRef Page) outcome" where
  "right_edge rd 0 reader page = (if pgIsLeaf page then (reader, Inr page) else (reader, Inl Diverge))"
| "right_edge rd (Suc n) reader page =
     (if pgIsLeaf page then (reader, Inr page)
      else if length (pgChildren page) = 0
      then (reader, Inl (Errorf ''find predecessor: internal page %d has no children''))
      else sbind (readChild rd reader page (length (pgChildren page) - 1)) (right_edge rd n))"

fun left_edge ::
  "'s PageReader \<Rightarrow> nat \<Rightarrow> 's cachingPageReader \<Rightarrow> PageRef Page \<Rightarrow> ('s cachingPageReader, PageRef Page) outcome" where
  "left_edge rd 0 reader page = (if pgIsLeaf page then (reader, Inr page) else (reader, Inl Diverge))"
| "left_edge rd (Suc n) reader page =
     (if pgIsLeaf page then (reader, Inr page)
      else if length (pgChildren page) = 0
      then (reader, Inl (Errorf ''find successor: internal page %d has no children''))
      else sbind (readChild rd reader page 0) (left_edge rd n))"

text \<open>The loops over the path go from the leaf to the root: \<open>steps\<close> is the reversed path.\<close>

fun predecessor_up ::
  "'s PageReader \<Rightarrow> nat \<Rightarrow> 's cachingPageReader \<Rightarrow> pathStep list \<Rightarrow> ('s cachingPageReader, LocatorEntry option) outcome" where
  "predecessor_up rd n reader [] = (reader, Inr None)"
| "predecessor_up rd n reader (step # steps) =
     (if stChildIndex step = 0 then predecessor_up rd n reader steps
      else sbind (readChild rd reader (stPage step) (stChildIndex step - 1)) (\<lambda>reader page.
        sbind (right_edge rd n reader page) (\<lambda>reader page.
          if length (pgKeys page) = 0 then (reader, Inr None)
          else (reader, rbind (entryAt page (length (pgKeys page) - 1)) (\<lambda>entry. Inr (Some entry))))))"

definition predecessorEntry ::
  "'s PageReader \<Rightarrow> nat \<Rightarrow> 's cachingPageReader \<Rightarrow> PageRef Page \<Rightarrow> nat \<Rightarrow> pathStep list \<Rightarrow>
     ('s cachingPageReader, LocatorEntry option) outcome" where
  "predecessorEntry rd n reader leaf index path =
     (if index > 0 then (reader, rbind (entryAt leaf (index - 1)) (\<lambda>entry. Inr (Some entry)))
      else predecessor_up rd n reader (rev path))"

fun successor_up ::
  "'s PageReader \<Rightarrow> nat \<Rightarrow> 's cachingPageReader \<Rightarrow> pathStep list \<Rightarrow> ('s cachingPageReader, LocatorEntry option) outcome" where
  "successor_up rd n reader [] = (reader, Inr None)"
| "successor_up rd n reader (step # steps) =
     (if stChildIndex step + 1 \<ge> length (pgChildren (stPage step)) then successor_up rd n reader steps
      else sbind (readChild rd reader (stPage step) (stChildIndex step + 1)) (\<lambda>reader page.
        sbind (left_edge rd n reader page) (\<lambda>reader page.
          if length (pgKeys page) = 0 then (reader, Inr None)
          else (reader, rbind (entryAt page 0) (\<lambda>entry. Inr (Some entry))))))"

definition successorEntry ::
  "'s PageReader \<Rightarrow> nat \<Rightarrow> 's cachingPageReader \<Rightarrow> PageRef Page \<Rightarrow> nat \<Rightarrow> pathStep list \<Rightarrow>
     ('s cachingPageReader, LocatorEntry option) outcome" where
  "successorEntry rd n reader leaf index path =
     (if index < length (pgKeys leaf) then (reader, rbind (entryAt leaf index) (\<lambda>entry. Inr (Some entry)))
      else successor_up rd n reader (rev path))"

definition lowerBoundEntry ::
  "'s PageReader \<Rightarrow> nat \<Rightarrow> 's cachingPageReader \<Rightarrow> PageRef Page \<Rightarrow> LocatorKey \<Rightarrow>
     ('s cachingPageReader, LocatorEntry option) outcome" where
  "lowerBoundEntry rd n reader root key =
     sbind (findLeaf rd n reader root key) (\<lambda>reader (leaf, path).
       successorEntry rd n reader leaf (lowerBound (pgKeys leaf) key) path)"

section \<open>The leaf scan\<close>

function scan_keys ::
  "LocatorKey \<Rightarrow> PageRef Page \<Rightarrow> nat \<Rightarrow> LocatorEntry list \<Rightarrow> (LocatorEntry list \<times> bool) result" where
  "scan_keys upper leaf index entries =
     (if index < length (pgKeys leaf)
      then (if Compare (pgKeys leaf ! index) upper \<ge> 0 then Inr (entries, True)
            else rbind (entryAt leaf index) (\<lambda>entry. scan_keys upper leaf (index + 1) (entries @ [entry])))
      else Inr (entries, False))"
  by pat_completeness auto
termination
  by (relation "measure (\<lambda>(upper, leaf, index, entries). length (pgKeys leaf) - index)") auto

declare scan_keys.simps [simp del]

text \<open>One pass of the loop over the leaf chain, and the loop.\<close>

definition scan_leaf ::
  "LocatorKey \<Rightarrow> int \<Rightarrow> nat \<Rightarrow> PageRef Page \<Rightarrow> LocatorEntry list \<Rightarrow> (LocatorEntry list \<times> bool) result" where
  "scan_leaf upper startID startIndex leaf entries =
     scan_keys upper leaf (if pgPageID leaf = startID then startIndex else 0) entries"

fun scan_leaves ::
  "'s PageReader \<Rightarrow> LocatorKey \<Rightarrow> int \<Rightarrow> nat \<Rightarrow> nat \<Rightarrow> 's cachingPageReader \<Rightarrow> PageRef Page \<Rightarrow> int list \<Rightarrow> LocatorEntry list \<Rightarrow>
     ('s cachingPageReader, LocatorEntry list) outcome" where
  "scan_leaves rd upper startID startIndex n reader leaf visitedLeaves entries =
     (if pgPageID leaf \<in> set visitedLeaves
      then (reader, Inl (Errorf ''resolve locator range: leaf chain contains cycle at page %d''))
      else case scan_leaf upper startID startIndex leaf entries of
        Inl e \<Rightarrow> (reader, Inl e)
      | Inr (entries', scanComplete) \<Rightarrow>
        if scanComplete then (reader, Inr entries')
        else case pgNext leaf of
          None \<Rightarrow> (reader, Inr entries')
        | Some nextPage \<Rightarrow>
          (case n of
             0 \<Rightarrow> (reader, Inl Diverge)
           | Suc n' \<Rightarrow>
             sbind (swrap ''resolve locator range: read next leaf page %d: %w'' (caching_ReadPage rd reader (prPageID nextPage)))
               (\<lambda>reader nextLeaf.
                 case nextLeaf of
                   None \<Rightarrow> (reader, Inl (Errorf ''resolve locator range: next page %d is not a leaf''))
                 | Some leaf' \<Rightarrow>
                     if \<not> pgIsLeaf leaf' then (reader, Inl (Errorf ''resolve locator range: next page %d is not a leaf''))
                     else scan_leaves rd upper startID startIndex n' reader leaf' (pgPageID leaf # visitedLeaves) entries')))"

declare scan_leaves.simps [simp del]

section \<open>Building the proof\<close>

definition copyLocatorValues :: "LocatorValue option list \<Rightarrow> LocatorValue option list" where
  "copyLocatorValues values = map (\<lambda>value. case value of None \<Rightarrow> None | Some copy \<Rightarrow> Some copy) values"

definition proof_step :: "pathStep \<Rightarrow> LocatorProofStep" where
  "proof_step step = \<lparr>psPageID = pgPageID (stPage step), psKeys = pgKeys (stPage step),
     psChildIndex = int (stChildIndex step), psChildHashes = map prHash (pgChildren (stPage step))\<rparr>"

definition makeLeafProof :: "PageRef Page \<Rightarrow> pathStep list \<Rightarrow> LocatorLeafProof result" where
  "makeLeafProof leaf path =
     (if \<not> pgIsLeaf leaf then Inl (Errorf ''make locator proof: page is not a leaf'')
      else Inr \<lparr>lpPageID = pgPageID leaf, lpNextPageID = map_option prPageID (pgNext leaf), lpKeys = pgKeys leaf,
        lpValues = copyLocatorValues (pgValues leaf), lpPath = map proof_step (rev path)\<rparr>)"

text \<open>The closure \<^verbatim>\<open>add\<close>; \<open>included\<close> are the identifiers of the leaves in the proof.\<close>

definition add_leaf_proof ::
  "hash_fn \<Rightarrow> hash \<Rightarrow> LocatorRangeProof \<times> int list \<Rightarrow> PageRef Page \<Rightarrow> pathStep list \<Rightarrow> (LocatorRangeProof \<times> int list) result" where
  "add_leaf_proof H trustedRoot = (\<lambda>(proof, included) leaf path.
     if pgPageID leaf \<in> set included then Inr (proof, included)
     else rbind (makeLeafProof leaf path) (\<lambda>leafProof.
       rbind (ReconstructLocatorRoot H leafProof) (\<lambda>reconstructed.
         if hash_bytes reconstructed \<noteq> hash_bytes trustedRoot
         then Inl (Errorf ''build locator proof: leaf page %d reconstructs an untrusted root'')
         else let proof' = (if length (rpLeaves proof) = 0 then proof\<lparr>rpReconstructedRoot := reconstructed\<rparr> else proof)
           in Inr (proof'\<lparr>rpLeaves := rpLeaves proof' @ [leafProof]\<rparr>, pgPageID leaf # included))))"

fun add_entry_leaves ::
  "hash_fn \<Rightarrow> 's PageReader \<Rightarrow> nat \<Rightarrow> PageRef Page \<Rightarrow> hash \<Rightarrow> 's cachingPageReader \<Rightarrow> LocatorRangeProof \<times> int list \<Rightarrow>
     LocatorEntry list \<Rightarrow> ('s cachingPageReader, LocatorRangeProof \<times> int list) outcome" where
  "add_entry_leaves H rd n root trustedRoot reader acc [] = (reader, Inr acc)"
| "add_entry_leaves H rd n root trustedRoot reader acc (entry # entries) =
     (if lePageID entry \<in> set (snd acc) then add_entry_leaves H rd n root trustedRoot reader acc entries
      else sbind (findLeaf rd n reader root (leKey entry)) (\<lambda>reader (leaf, path).
        if pgPageID leaf \<noteq> lePageID entry
        then (reader, Inl (Errorf ''build locator proof: key resolved to page %d, expected page %d''))
        else sbind (reader, add_leaf_proof H trustedRoot acc leaf path) (\<lambda>reader acc'.
          add_entry_leaves H rd n root trustedRoot reader acc' entries)))"

text \<open>The three loops of \<^verbatim>\<open>orderLeafProofs\<close> before the chain is walked.\<close>

definition add_by_id :: "(int \<rightharpoonup> LocatorLeafProof) \<Rightarrow> LocatorLeafProof \<Rightarrow> (int \<rightharpoonup> LocatorLeafProof) result" where
  "add_by_id byID leaf =
     (if byID (lpPageID leaf) \<noteq> None then Inl (Errorf ''order locator proofs: duplicate leaf page ID %d'')
      else Inr (byID(lpPageID leaf \<mapsto> leaf)))"

definition incoming_ids :: "(int \<rightharpoonup> LocatorLeafProof) \<Rightarrow> LocatorLeafProof list \<Rightarrow> int list" where
  "incoming_ids byID leaves =
     concat (map (\<lambda>leaf. case lpNextPageID leaf of None \<Rightarrow> [] | Some nid \<Rightarrow> if byID nid = None then [] else [nid]) leaves)"

definition find_head :: "int list \<Rightarrow> LocatorLeafProof option \<Rightarrow> LocatorLeafProof \<Rightarrow> LocatorLeafProof option result" where
  "find_head incoming head leaf =
     (if lpPageID leaf \<in> set incoming then Inr head
      else if head \<noteq> None then Inl (Errorf ''order locator proofs: represented leaves are not one chain'')
      else Inr (Some leaf))"

text \<open>The walk visits no leaf twice, so more steps than there are leaves are never made.\<close>

fun walk_chain ::
  "nat \<Rightarrow> (int \<rightharpoonup> LocatorLeafProof) \<Rightarrow> LocatorLeafProof \<Rightarrow> LocatorLeafProof list \<Rightarrow> LocatorLeafProof list result" where
  "walk_chain 0 byID current ordered = Inl Diverge"
| "walk_chain (Suc n) byID current ordered =
     (if lpPageID current \<in> lpPageID ` set ordered then Inl (Errorf ''order locator proofs: cycle at leaf page %d'')
      else case lpNextPageID current of
        None \<Rightarrow> Inr (ordered @ [current])
      | Some nextID \<Rightarrow>
          (case byID nextID of
             None \<Rightarrow> Inr (ordered @ [current])
           | Some nextLeaf \<Rightarrow> walk_chain n byID nextLeaf (ordered @ [current])))"

definition orderLeafProofs :: "LocatorLeafProof list \<Rightarrow> LocatorLeafProof list result" where
  "orderLeafProofs leaves =
     rbind (rfold add_by_id Map.empty leaves) (\<lambda>byID.
     rbind (rfold (find_head (incoming_ids byID leaves)) None leaves) (\<lambda>head.
     case head of
       None \<Rightarrow> Inl (Errorf ''order locator proofs: represented leaf chain has no head'')
     | Some first \<Rightarrow>
       rbind (walk_chain (length leaves + 1) byID first []) (\<lambda>ordered.
         if length ordered \<noteq> length leaves
         then Inl (Errorf ''order locator proofs: represented leaves are not consecutive'')
         else Inr ordered)))"

definition buildRangeProof ::
  "hash_fn \<Rightarrow> 's PageReader \<Rightarrow> nat \<Rightarrow> 's cachingPageReader \<Rightarrow> PageRef Page \<Rightarrow> PageRef Page \<Rightarrow> pathStep list \<Rightarrow>
     LocatorRangeResult \<Rightarrow> hash \<Rightarrow> ('s cachingPageReader, LocatorRangeProof) outcome" where
  "buildRangeProof H rd n reader root startLeaf startPath result trustedRoot =
     sbind (reader, add_leaf_proof H trustedRoot (\<lparr>rpLeaves = [], rpReconstructedRoot = 0\<rparr>, []) startLeaf startPath) (\<lambda>reader acc.
     let entries = (case rrPredecessor result of None \<Rightarrow> [] | Some entry \<Rightarrow> [entry]) @ rrEntries result @
           (case rrSuccessor result of None \<Rightarrow> [] | Some entry \<Rightarrow> [entry])
     in sbind (add_entry_leaves H rd n root trustedRoot reader acc entries) (\<lambda>reader (proof, included).
        sbind (reader, orderLeafProofs (rpLeaves proof)) (\<lambda>reader ordered.
        (reader, Inr (proof\<lparr>rpLeaves := ordered\<rparr>)))))"

section \<open>Resolving\<close>

definition resolve_from_root ::
  "hash_fn \<Rightarrow> 's PageReader \<Rightarrow> nat \<Rightarrow> 's cachingPageReader \<Rightarrow> PageRef Page \<Rightarrow> hash \<Rightarrow> LocatorKey \<Rightarrow> LocatorKey \<Rightarrow>
     ('s cachingPageReader, LocatorRangeResult) outcome" where
  "resolve_from_root H rd n reader root trustedRoot lower upper =
     sbind (findLeaf rd n reader root lower) (\<lambda>reader (startLeaf, startPath).
     let startIndex = lowerBound (pgKeys startLeaf) lower in
     sbind (predecessorEntry rd n reader startLeaf startIndex startPath) (\<lambda>reader predecessor.
     sbind (lowerBoundEntry rd n reader root upper) (\<lambda>reader successor.
     sbind (scan_leaves rd upper (pgPageID startLeaf) startIndex n reader startLeaf [] []) (\<lambda>reader entries.
     let result = \<lparr>rrEntries = entries, rrPredecessor = predecessor, rrSuccessor = successor,
           rrProof = \<lparr>rpLeaves = [], rpReconstructedRoot = 0\<rparr>\<rparr>
     in sbind (buildRangeProof H rd n reader root startLeaf startPath result trustedRoot) (\<lambda>reader proof.
        sbind (reader, rwrap ''resolve locator range: verify generated proof: %w''
            (VerifyLocatorRangeResult H lower upper (result\<lparr>rrProof := proof\<rparr>) trustedRoot)) (\<lambda>reader _.
        (reader, Inr (result\<lparr>rrProof := proof\<rparr>))))))))"

definition ResolveRangeWithReader ::
  "hash_fn \<Rightarrow> 's PageReader option \<Rightarrow> nat \<Rightarrow> 's \<Rightarrow> int \<Rightarrow> hash \<Rightarrow> LocatorKey \<Rightarrow> LocatorKey \<Rightarrow>
     ('s, LocatorRangeResult) outcome" where
  "ResolveRangeWithReader H reader n s rootPageID trustedRoot lower upper =
     (case reader of
        None \<Rightarrow> (s, Inl (Errorf ''resolve locator range: page reader is nil''))
      | Some rd \<Rightarrow>
        if Compare lower upper \<ge> 0
        then (s, Inl (Errorf ''resolve locator range: lower bound must sort before upper bound''))
        else let (reader, result) =
          sbind (swrap ''resolve locator range: read root page %d: %w'' (caching_ReadPage rd (newCachingPageReader s) rootPageID))
            (\<lambda>reader root.
              case root of
                None \<Rightarrow> (reader, Inl (Errorf ''resolve locator range: root page %d is nil''))
              | Some root \<Rightarrow>
                if hash_bytes (pgHash root) \<noteq> hash_bytes trustedRoot
                then (reader, Inl (Errorf ''resolve locator range: root page hash does not match trusted locator root''))
                else resolve_from_root H rd n reader root trustedRoot lower upper)
        in (crSource reader, result))"

definition ResolveWithReader ::
  "hash_fn \<Rightarrow> 's PageReader option \<Rightarrow> nat \<Rightarrow> 's \<Rightarrow> int \<Rightarrow> hash \<Rightarrow> LocatorQuery \<Rightarrow> ('s, LocatorRangeResult) outcome" where
  "ResolveWithReader H reader n s rootPageID trustedRoot query =
     sbind (s, Bounds query) (\<lambda>s (lower, upper). ResolveRangeWithReader H reader n s rootPageID trustedRoot lower upper)"

section \<open>Termination of the chain walk\<close>

text \<open>The walk of \<^verbatim>\<open>orderLeafProofs\<close> always ends: it never uses up its bound.\<close>

lemma walk_chain_returns:
  assumes "\<And>i l. byID i = Some l \<Longrightarrow> lpPageID l \<in> set ids" and "lpPageID current \<in> set ids"
    and "distinct (map lpPageID ordered)" and "lpPageID ` set ordered \<subseteq> set ids" and "length ids < n + length ordered"
  shows "walk_chain n byID current ordered \<noteq> Inl Diverge"
  using assms(2-5)
proof (induction n arbitrary: current ordered)
  case 0
  have "length ordered = card (lpPageID ` set ordered)" using 0(2) by (metis distinct_card length_map list.set_map)
  also have "\<dots> \<le> card (set ids)" using 0(3) by (simp add: card_mono)
  also have "\<dots> \<le> length ids" by (rule card_length)
  finally show ?case using 0(4) by simp
next
  case (Suc n)
  show ?case
  proof (cases "lpPageID current \<in> lpPageID ` set ordered")
    case False
    then have "walk_chain n byID l (ordered @ [current]) \<noteq> Inl Diverge" if "byID i = Some l" for i l
      using Suc.prems assms(1) [OF that] by (intro Suc.IH) auto
    with False show ?thesis by (auto split: option.splits)
  qed simp
qed

end
