(* ===== verification/Locator_Source.thy ===== *)
theory Locator_Source
  imports Locator_Resolve Locator_Verify
begin

text \<open>
  What resolving relies on of a page source, as a locale: every page it returns is a decoded page,
  whose values fit their types. A result resolved from any such source, honest or not, is exact for
  the tree of the trusted root.
\<close>

definition decoded_page :: "PageRef Page \<Rightarrow> bool" where
  "decoded_page page \<longleftrightarrow> int64 (pgPageID page) \<and> (\<forall>m. map_option prPageID (pgNext page) = Some m \<longrightarrow> int64 m) \<and>
     (\<forall>k \<in> set (pgKeys page). encodable_key k) \<and> (\<forall>v \<in> set (pgValues page). encodable_value v)"

locale page_source =
  fixes rd :: "'s PageReader" and inv :: "'s \<Rightarrow> bool"
  assumes ctx_inv: "inv s \<Longrightarrow> ctx_Err rd s = (s', res) \<Longrightarrow> inv s'"
    and read_inv: "inv s \<Longrightarrow> ReadPage rd s pageID = (s', res') \<Longrightarrow> inv s'"
    and read_decoded: "inv s \<Longrightarrow> ReadPage rd s pageID = (s', Inr (Some page)) \<Longrightarrow> decoded_page page"
begin

definition reader_ok :: "'s cachingPageReader \<Rightarrow> bool" where
  "reader_ok reader \<longleftrightarrow> inv (crSource reader) \<and> (\<forall>i page. crPages reader i = Some (Some page) \<longrightarrow> decoded_page page)"

definition step_ok :: "pathStep \<Rightarrow> bool" where
  "step_ok step \<longleftrightarrow> decoded_page (stPage step)"

lemma caching_ReadPage_ok:
  assumes "caching_ReadPage rd reader i = (reader', Inr p)" and "reader_ok reader"
  shows "reader_ok reader'" and "p = Some page \<Longrightarrow> decoded_page page"
proof -
  obtain s u where c: "ctx_Err rd (crSource reader) = (s, Inr u)"
    using assms(1) by (auto simp: caching_ReadPage_def split: prod.splits sum.splits)
  have s: "inv s" using ctx_inv [OF _ c] assms(2) by (simp add: reader_ok_def)
  show "reader_ok reader'" "p = Some page \<Longrightarrow> decoded_page page"
    using assms c s read_inv [OF s] read_decoded [OF s]
    by (auto simp: caching_ReadPage_def reader_ok_def split: prod.splits sum.splits option.splits if_splits)
qed

lemma readChild_ok:
  assumes "readChild rd reader parent j = (reader', Inr child)" and "reader_ok reader"
  shows "reader_ok reader' \<and> decoded_page child"
  using assms caching_ReadPage_ok
  by (fastforce simp: readChild_def sbind_eq_Inr swrap_eq_Inr Let_def split: if_splits option.splits)

lemma find_leaf_loop_ok:
  assumes "find_leaf_loop rd key n reader page path = (reader', Inr (leaf, path'))" and "reader_ok reader"
    and "decoded_page page" and "\<forall>step \<in> set path. step_ok step"
  shows "reader_ok reader' \<and> decoded_page leaf \<and> (\<forall>step \<in> set path'. step_ok step)"
  using assms
proof (induction n arbitrary: reader page path)
  case (Suc n)
  show ?case
  proof (cases "pgIsLeaf page")
    case False
    let ?step = "\<lparr>stPage = page, stChildIndex = findKeyIdx (pgKeys page) key\<rparr>"
    from False Suc.prems(1) obtain r child where
      "readChild rd reader page (findKeyIdx (pgKeys page) key) = (r, Inr child)"
      "find_leaf_loop rd key n r child (path @ [?step]) = (reader', Inr (leaf, path'))"
      by (auto simp: sbind_eq_Inr Let_def split: if_splits)
    with Suc.IH [of r child "path @ [?step]"] readChild_ok [of reader page _ r child] Suc.prems(2-4)
    show ?thesis by (simp add: step_ok_def)
  qed (use Suc.prems in auto)
qed (auto split: if_splits)

lemma findLeaf_ok:
  assumes "findLeaf rd n reader root key = (reader', Inr (leaf, path))" and "reader_ok reader" and "decoded_page root"
  shows "reader_ok reader' \<and> decoded_page leaf \<and> (\<forall>step \<in> set path. step_ok step)"
  using find_leaf_loop_ok [of key n reader root "[]"] assms by (simp add: findLeaf_def)

lemma right_edge_ok: "right_edge rd n reader page = (reader', Inr leaf) \<Longrightarrow> reader_ok reader \<Longrightarrow> reader_ok reader'"
proof (induction n arbitrary: reader page)
  case (Suc n)
  then show ?case using readChild_ok by (fastforce simp: sbind_eq_Inr split: if_splits)
qed (auto split: if_splits)

lemma left_edge_ok: "left_edge rd n reader page = (reader', Inr leaf) \<Longrightarrow> reader_ok reader \<Longrightarrow> reader_ok reader'"
proof (induction n arbitrary: reader page)
  case (Suc n)
  then show ?case using readChild_ok by (fastforce simp: sbind_eq_Inr split: if_splits)
qed (auto split: if_splits)

lemma predecessor_up_ok: "predecessor_up rd n reader steps = (reader', Inr e) \<Longrightarrow> reader_ok reader \<Longrightarrow> reader_ok reader'"
proof (induction steps)
  case (Cons step steps)
  then show ?case
    using readChild_ok right_edge_ok by (fastforce simp: sbind_eq_Inr split: if_splits)
qed auto

lemma successor_up_ok: "successor_up rd n reader steps = (reader', Inr e) \<Longrightarrow> reader_ok reader \<Longrightarrow> reader_ok reader'"
proof (induction steps)
  case (Cons step steps)
  then show ?case
    using readChild_ok left_edge_ok by (fastforce simp: sbind_eq_Inr split: if_splits)
qed auto

lemma predecessorEntry_ok:
  "predecessorEntry rd n reader leaf j path = (reader', Inr e) \<Longrightarrow> reader_ok reader \<Longrightarrow> reader_ok reader'"
  using predecessor_up_ok by (auto simp: predecessorEntry_def split: if_splits)

lemma lowerBoundEntry_ok:
  "lowerBoundEntry rd n reader root key = (reader', Inr e) \<Longrightarrow> reader_ok reader \<Longrightarrow> decoded_page root \<Longrightarrow> reader_ok reader'"
  using successor_up_ok findLeaf_ok
  by (fastforce simp: lowerBoundEntry_def successorEntry_def sbind_eq_Inr split: if_splits)

lemma scan_leaves_ok:
  "scan_leaves rd upper i j n reader leaf visited es = (reader', Inr es') \<Longrightarrow> reader_ok reader \<Longrightarrow> reader_ok reader'"
proof (induction n arbitrary: reader leaf visited es)
  case 0
  then show ?case
    by (subst (asm) scan_leaves.simps) (auto split: if_splits sum.splits option.splits prod.splits)
next
  case (Suc n)
  show ?case
  proof (cases "reader' = reader")
    case False
    with Suc.prems(1) obtain r p leaf' es'' where
      "caching_ReadPage rd reader p = (r, Inr (Some leaf'))"
      "scan_leaves rd upper i j n r leaf' (pgPageID leaf # visited) es'' = (reader', Inr es')"
      by (subst (asm) scan_leaves.simps)
        (auto simp: sbind_eq_Inr swrap_eq_Inr split: if_splits sum.splits option.splits prod.splits)
    with Suc.IH caching_ReadPage_ok(1) Suc.prems(2) show ?thesis by blast
  qed (use Suc.prems in simp)
qed

definition proof_ok :: "LocatorRangeProof \<times> int list \<Rightarrow> bool" where
  "proof_ok acc \<longleftrightarrow> typed_proof (fst acc)"

lemma makeLeafProof_ok:
  assumes "makeLeafProof leaf path = Inr lp" and "decoded_page leaf" and "\<forall>step \<in> set path. step_ok step"
  shows "typed_leaf_proof lp"
proof -
  have v: "copyLocatorValues vs = vs" for vs by (induction vs) (auto simp: copyLocatorValues_def split: option.splits)
  have "encodable_entry e" if "e \<in> set (zip (pgKeys leaf) (pgValues leaf))" for e
  proof -
    obtain k v where e: "e = (k, v)" by fastforce
    with that have "k \<in> set (pgKeys leaf)" "v \<in> set (pgValues leaf)" by (auto dest: set_zip_leftD set_zip_rightD)
    with assms(2) e show ?thesis by (simp add: decoded_page_def encodable_entry_def)
  qed
  with assms show ?thesis
    by (auto simp: makeLeafProof_def typed_leaf_proof_def proof_leaf_def proof_step_def decoded_page_def step_ok_def v
        split: if_splits)
qed

lemma add_leaf_proof_ok:
  assumes "add_leaf_proof H root acc leaf path = Inr acc'" and "proof_ok acc" and "decoded_page leaf"
    and "\<forall>step \<in> set path. step_ok step"
  shows "proof_ok acc'"
  using assms makeLeafProof_ok [OF _ assms(3,4)]
  by (cases acc) (auto simp: add_leaf_proof_def proof_ok_def typed_proof_def Let_def split: if_splits)

lemma add_entry_leaves_ok:
  "add_entry_leaves H rd n root trusted reader acc es = (reader', Inr acc') \<Longrightarrow> reader_ok reader \<Longrightarrow> decoded_page root \<Longrightarrow>
     proof_ok acc \<Longrightarrow> reader_ok reader' \<and> proof_ok acc'"
proof (induction es arbitrary: reader acc)
  case (Cons e es)
  show ?case
  proof (cases "lePageID e \<in> set (snd acc)")
    case False
    with Cons.prems(1) obtain r leaf path acc1 where f: "findLeaf rd n reader root (leKey e) = (r, Inr (leaf, path))"
      "add_leaf_proof H trusted acc leaf path = Inr acc1"
      "add_entry_leaves H rd n root trusted r acc1 es = (reader', Inr acc')"
      by (auto simp: sbind_eq_Inr split: if_splits)
    with findLeaf_ok [OF f(1)] add_leaf_proof_ok [OF f(2)] Cons.IH [OF f(3)] Cons.prems(2-4) show ?thesis by blast
  qed (use Cons in auto)
qed auto

lemma walk_chain_set:
  "walk_chain n byID current sofar = Inr ls \<Longrightarrow> set ls \<subseteq> set sofar \<union> {current} \<union> ran byID"
proof (induction n arbitrary: current sofar)
  case (Suc n)
  then show ?case by (fastforce split: if_splits option.splits simp: ran_def)
qed simp

lemma orderLeafProofs_set:
  assumes "orderLeafProofs leaves = Inr ls"
  shows "set ls \<subseteq> set leaves"
proof -
  have by_id: "rfold add_by_id m xs = Inr byID \<Longrightarrow> ran byID \<subseteq> ran m \<union> set xs" for m xs byID
  proof (induction xs arbitrary: m)
    case (Cons x xs)
    from Cons.prems obtain m' where m': "add_by_id m x = Inr m'" "rfold add_by_id m' xs = Inr byID" by auto
    then have "ran m' \<subseteq> insert x (ran m)" by (auto simp: add_by_id_def ran_def split: if_splits)
    with Cons.IH [OF m'(2)] show ?case by auto
  qed auto
  have head: "rfold (find_head inc) h xs = Inr (Some l) \<Longrightarrow> h = Some l \<or> l \<in> set xs" for inc h xs l
    by (induction xs arbitrary: h) (fastforce simp: find_head_def split: if_splits)+
  from assms obtain byID first where w: "rfold add_by_id Map.empty leaves = Inr byID"
    "rfold (find_head (incoming_ids byID leaves)) None leaves = Inr (Some first)"
    "walk_chain (Suc (length leaves)) byID first [] = Inr ls"
    by (auto simp: orderLeafProofs_def simp del: walk_chain.simps split: option.splits if_splits)
  from by_id [OF w(1)] have "ran byID \<subseteq> set leaves" by simp
  moreover from head [OF w(2)] have "first \<in> set leaves" by simp
  ultimately show ?thesis using walk_chain_set [OF w(3)] by auto
qed

lemma buildRangeProof_ok:
  assumes "buildRangeProof H rd n reader root leaf path result trusted = (reader', Inr p)"
    and "reader_ok reader" and "decoded_page root" and "decoded_page leaf" and "\<forall>step \<in> set path. step_ok step"
  shows "typed_proof p"
proof -
  from assms(1) obtain acc es r1 pf inc ls where
    b: "add_leaf_proof H trusted (\<lparr>rpLeaves = [], rpReconstructedRoot = 0\<rparr>, []) leaf path = Inr acc"
      "add_entry_leaves H rd n root trusted reader acc es = (r1, Inr (pf, inc))"
      "orderLeafProofs (rpLeaves pf) = Inr ls" "p = pf\<lparr>rpLeaves := ls\<rparr>"
    by (auto simp: buildRangeProof_def sbind_eq_Inr Let_def)
  have "proof_ok acc" using add_leaf_proof_ok [OF b(1) _ assms(4,5)] by (simp add: proof_ok_def typed_proof_def)
  then have "typed_proof pf" using add_entry_leaves_ok [OF b(2) assms(2,3)] by (simp add: proof_ok_def)
  with orderLeafProofs_set [OF b(3)] b(4) show ?thesis by (auto simp: typed_proof_def)
qed

lemma resolve_from_root_ok:
  assumes "resolve_from_root H rd n reader root trusted lower upper = (reader', Inr result)"
    and "reader_ok reader" and "decoded_page root"
  shows "typed_proof (rrProof result)" and "VerifyLocatorRangeResult H lower upper result trusted = Inr ()"
proof -
  from assms(1) obtain r1 leaf path r2 p r3 q r4 es r5 pf where
    r: "findLeaf rd n reader root lower = (r1, Inr (leaf, path))"
      "predecessorEntry rd n r1 leaf (lowerBound (pgKeys leaf) lower) path = (r2, Inr p)"
      "lowerBoundEntry rd n r2 root upper = (r3, Inr q)"
      "scan_leaves rd upper (pgPageID leaf) (lowerBound (pgKeys leaf) lower) n r3 leaf [] [] = (r4, Inr es)"
      "buildRangeProof H rd n r4 root leaf path \<lparr>rrEntries = es, rrPredecessor = p, rrSuccessor = q,
         rrProof = \<lparr>rpLeaves = [], rpReconstructedRoot = 0\<rparr>\<rparr> trusted = (r5, Inr pf)"
    and res: "result = \<lparr>rrEntries = es, rrPredecessor = p, rrSuccessor = q, rrProof = pf\<rparr>"
    and ok: "VerifyLocatorRangeResult H lower upper result trusted = Inr ()"
    by (auto simp: resolve_from_root_def sbind_eq_Inr Let_def)
  show "VerifyLocatorRangeResult H lower upper result trusted = Inr ()" by (rule ok)
  note 1 = findLeaf_ok [OF r(1) assms(2,3)]
  have "reader_ok r4"
    using 1 predecessorEntry_ok [OF r(2)] lowerBoundEntry_ok [OF r(3)] scan_leaves_ok [OF r(4)] assms(3) by blast
  then show "typed_proof (rrProof result)" using buildRangeProof_ok [OF r(5)] 1 assms(3) by (simp add: res)
qed

lemma ResolveRangeWithReader_ok:
  assumes "ResolveRangeWithReader H (Some rd) n s rootID trusted lower upper = (s', Inr result)" and "inv s"
  shows "typed_proof (rrProof result)" and "VerifyLocatorRangeResult H lower upper result trusted = Inr ()"
proof -
  from assms(1) obtain r root r' where r: "caching_ReadPage rd (newCachingPageReader s) rootID = (r, Inr (Some root))"
    "resolve_from_root H rd n r root trusted lower upper = (r', Inr result)"
    by (auto simp: ResolveRangeWithReader_def sbind_eq_Inr swrap_eq_Inr Let_def split: if_splits prod.splits option.splits)
  have "reader_ok (newCachingPageReader s)" using assms(2) by (simp add: reader_ok_def newCachingPageReader_def)
  then have "reader_ok r" "decoded_page root" using caching_ReadPage_ok [OF r(1)] by auto
  with resolve_from_root_ok [OF r(2)] show "typed_proof (rrProof result)"
    "VerifyLocatorRangeResult H lower upper result trusted = Inr ()" by blast+
qed

end

end
