(* ===== verification/Locator_Store.thy ===== *)
theory Locator_Store
  imports Cassandra Locator_Source Locator_Properties
begin

text \<open>
  The locator's tables: \<^verbatim>\<open>internal/storage/cassandra/all_repo.go\<close>, \<^verbatim>\<open>all_update_writer.go\<close> and
  \<^verbatim>\<open>all_page_reader.go\<close>. Pages are stored by tree, bucket and identifier; the tree state is one row.
  The batches of an update run concurrently, one per partition, in an order that is a parameter
  (\<open>arrange\<close>).
\<close>

section \<open>The tables\<close>

record ALLPage =
  apTreeID :: string
  apBucketID :: int
  apPageID :: int
  apIsLeaf :: bool
  apParentPageID :: "int option"
  apNextPageID :: "int option"
  apPageData :: "byte list"
  apFormatVersion :: int
  apPageHash :: "byte list"

record ALLTreeState =
  asTreeID :: string
  asRootPageID :: int
  asRootHash :: "byte list"
  asNextPageID :: int
  asTreeHeight :: int
  asTreeOrder :: int
  asRecordCount :: int
  asPageCount :: int
  asPagesPerBucket :: int
  asUpdatedAt :: time

record all_db = database +
  dbPages :: "string \<times> int \<times> int \<rightharpoonup> ALLPage"
  dbTreeState :: "string \<rightharpoonup> ALLTreeState"

definition PageBucketID :: "int \<Rightarrow> int \<Rightarrow> int result" where
  "PageBucketID pageID pagesPerBucket =
     (if pageID < 0 \<or> pagesPerBucket \<le> 0
      then Inl (Errorf ''pageBucketID receives only positive pageID and pagesPerBucket'')
      else Inr (pageID div pagesPerBucket))"

definition put_page :: "ALLPage \<Rightarrow> all_db \<Rightarrow> all_db" where
  "put_page page db = db\<lparr>dbPages := (dbPages db)((apTreeID page, apBucketID page, apPageID page) \<mapsto> page)\<rparr>"

section \<open>The repository\<close>

definition UpsertPage :: "all_db \<Rightarrow> ALLPage \<Rightarrow> (all_db, unit) outcome" where
  "UpsertPage db page = swrap ''upsert page %d: %w'' (exec_statement db (put_page page))"

type_synonym partitionKey = "string \<times> int"

definition add_to_partition ::
  "(partitionKey, ALLPage list) gomap \<Rightarrow> ALLPage \<Rightarrow> (partitionKey, ALLPage list) gomap" where
  "add_to_partition partitions page =
     (let key = (apTreeID page, apBucketID page)
      in gm_put key (gm_get [] (map_of partitions) key @ [page]) partitions)"

text \<open>One batch per partition; the first error in the order of completion is kept.\<close>

definition exec_batch :: "all_db \<times> error option \<Rightarrow> ALLPage list \<Rightarrow> all_db \<times> error option" where
  "exec_batch = (\<lambda>(db, firstErr) pages.
     case exec_statement db (\<lambda>db. foldl (\<lambda>db page. put_page page db) db pages) of
       (db', Inl e) \<Rightarrow> (db', if firstErr = None then Some e else firstErr)
     | (db', Inr _) \<Rightarrow> (db', firstErr))"

definition UpsertPages ::
  "((partitionKey \<times> ALLPage list) list \<Rightarrow> (partitionKey \<times> ALLPage list) list) \<Rightarrow> all_db \<Rightarrow> ALLPage list \<Rightarrow> (all_db, unit) outcome" where
  "UpsertPages arrange db pages =
     (if length pages = 0 then (db, Inr ())
      else let partitions = foldl add_to_partition [] pages;
               (db', firstErr) = foldl exec_batch (db, None) (map snd (arrange partitions))
           in case firstErr of None \<Rightarrow> (db', Inr ()) | Some e \<Rightarrow> (db', Inl (Wrap ''upsert batch pages: %w'' e)))"

definition UpsertTreeState :: "cql \<Rightarrow> all_db \<Rightarrow> ALLTreeState \<Rightarrow> (all_db, unit) outcome" where
  "UpsertTreeState cq db state = swrap ''upsert ALL tree state %s: %w'' (exec_statement db (\<lambda>db.
     db\<lparr>dbTreeState := (dbTreeState db)(asTreeID state \<mapsto> state\<lparr>asUpdatedAt := cqlTimestamp cq (asUpdatedAt state)\<rparr>)\<rparr>))"

definition SaveLocatorUpdate ::
  "((partitionKey \<times> ALLPage list) list \<Rightarrow> (partitionKey \<times> ALLPage list) list) \<Rightarrow> cql \<Rightarrow> all_db \<Rightarrow> ALLPage list \<Rightarrow> ALLTreeState \<Rightarrow>
     (all_db, unit) outcome" where
  "SaveLocatorUpdate arrange cq db pages state =
     sbind (swrap ''save locator update pages: %w'' (UpsertPages arrange db pages)) (\<lambda>db _.
     sbind (swrap ''save locator update state: %w'' (UpsertTreeState cq db state)) (\<lambda>db _. (db, Inr ())))"

definition GetPage :: "all_db \<Rightarrow> string \<Rightarrow> int \<Rightarrow> int \<Rightarrow> (all_db, ALLPage) outcome" where
  "GetPage db treeID pageID pagesPerBucket =
     sbind (db, PageBucketID pageID pagesPerBucket) (\<lambda>db bucketID.
       swrap ''get ALL Page %d: %w'' (scan_row db (dbPages db (treeID, bucketID, pageID))))"

definition GetTreeState :: "all_db \<Rightarrow> string \<Rightarrow> (all_db, ALLTreeState) outcome" where
  "GetTreeState db treeID = swrap ''get ALL tree state %s: %w'' (scan_row db (dbTreeState db treeID))"

text \<open>\<^verbatim>\<open>GetPages\<close>: one query per bucket, in the order in which their results arrive.\<close>

definition add_to_bucket :: "int \<Rightarrow> (int, int list) gomap \<Rightarrow> int \<Rightarrow> (int, int list) gomap result" where
  "add_to_bucket pagesPerBucket bucketIDs pageID =
     rbind (PageBucketID pageID pagesPerBucket) (\<lambda>bucketID.
       Inr (gm_put bucketID (gm_get [] (map_of bucketIDs) bucketID @ [pageID]) bucketIDs))"

fun fetch_buckets ::
  "string \<Rightarrow> all_db \<Rightarrow> (int \<rightharpoonup> ALLPage) \<Rightarrow> (int \<times> int list) list \<Rightarrow> (all_db, int \<rightharpoonup> ALLPage) outcome" where
  "fetch_buckets treeID db pagesByID [] = (db, Inr pagesByID)"
| "fetch_buckets treeID db pagesByID ((bucketID, ids) # buckets) =
     sbind (swrap ''get ALL pages: %w'' (scan_rows db (List.map_filter (\<lambda>pageID. dbPages db (treeID, bucketID, pageID)) ids)))
       (\<lambda>db pages. fetch_buckets treeID db (foldl (\<lambda>m page. m(apPageID page \<mapsto> page)) pagesByID pages) buckets)"

definition GetPages ::
  "((int \<times> int list) list \<Rightarrow> (int \<times> int list) list) \<Rightarrow> all_db \<Rightarrow> string \<Rightarrow> int list \<Rightarrow> int \<Rightarrow> (all_db, ALLPage list) outcome" where
  "GetPages arrange db treeID pageIDs pagesPerBucket =
     (if length pageIDs = 0 then (db, Inr [])
      else sbind (db, rfold (add_to_bucket pagesPerBucket) [] pageIDs) (\<lambda>db bucketIDs.
        sbind (fetch_buckets treeID db Map.empty (arrange bucketIDs)) (\<lambda>db pagesByID.
          (db, rfold (\<lambda>pages pageID. case pagesByID pageID of
             None \<Rightarrow> Inl (Wrap ''get ALL page %d: %w'' gocql_ErrNotFound)
           | Some page \<Rightarrow> Inr (pages @ [page])) [] pageIDs))))"

section \<open>The writer\<close>

record ALLUpdateWriter =
  uwTreeID :: string
  uwTreeOrder :: int
  uwPagesPerBucket :: int

definition NewALLUpdateWriter :: "string \<Rightarrow> int \<Rightarrow> int \<Rightarrow> ALLUpdateWriter result" where
  "NewALLUpdateWriter treeID treeOrder pagesPerBucket =
     (if treeID = '''' then Inl (Errorf ''new ALL update writer: tree ID is required'')
      else if treeOrder < 3 then Inl (Errorf ''new ALL update writer: tree order must be at least 3'')
      else if pagesPerBucket \<le> 0 then Inl (Errorf ''new ALL update writer: pages per bucket must be positive'')
      else Inr \<lparr>uwTreeID = treeID, uwTreeOrder = treeOrder, uwPagesPerBucket = pagesPerBucket\<rparr>)"

definition nextPageID_of :: "('p \<Rightarrow> PageRef) \<Rightarrow> 'p option \<Rightarrow> int option" where
  "nextPageID_of deref page = (case page of None \<Rightarrow> None | Some p \<Rightarrow> Some (prPageID (deref p)))"

definition copyHash :: "hash \<Rightarrow> byte list" where
  "copyHash hash = hash_bytes hash"

definition page_row :: "ALLUpdateWriter \<Rightarrow> ('p \<Rightarrow> PageRef) \<Rightarrow> 'p Page \<Rightarrow> ALLPage result" where
  "page_row w deref page =
     rbind (PageBucketID (pgPageID page) (uwPagesPerBucket w)) (\<lambda>bucketID.
     rbind (MarshalPage deref page) (\<lambda>pageData.
     Inr \<lparr>apTreeID = uwTreeID w, apBucketID = bucketID, apPageID = pgPageID page, apIsLeaf = pgIsLeaf page,
       apParentPageID = pgParentPageID page, apNextPageID = nextPageID_of deref (pgNext page), apPageData = pageData,
       apFormatVersion = int PageFormatVersion, apPageHash = copyHash (pgHash page)\<rparr>))"

definition writer_pages :: "ALLUpdateWriter \<Rightarrow> ('p \<Rightarrow> PageRef) \<Rightarrow> 'p Page list \<Rightarrow> ALLPage list result" where
  "writer_pages w deref updated = rfold (\<lambda>pages page. rbind (page_row w deref page) (\<lambda>row. Inr (pages @ [row]))) [] updated"

definition update_state :: "ALLUpdateWriter \<Rightarrow> 'p LocatorUpdate \<Rightarrow> time \<Rightarrow> ALLTreeState" where
  "update_state w update now = \<lparr>asTreeID = uwTreeID w, asRootPageID = luRootPageID update, asRootHash = copyHash (luRootHash update),
     asNextPageID = luNextPageID update, asTreeHeight = wrap32 (luHeight update), asTreeOrder = wrap32 (uwTreeOrder w),
     asRecordCount = luRecordCount update, asPageCount = luNextPageID update,
     asPagesPerBucket = wrap32 (uwPagesPerBucket w), asUpdatedAt = now\<rparr>"

text \<open>
  \<open>deref\<close> is the heap at the time of the call: marshalling a page reads the identifiers and hashes of
  the pages it points to.
\<close>

definition PersistUpdate ::
  "((partitionKey \<times> ALLPage list) list \<Rightarrow> (partitionKey \<times> ALLPage list) list) \<Rightarrow> cql \<Rightarrow> ALLUpdateWriter \<Rightarrow> ('p \<Rightarrow> PageRef) \<Rightarrow> time \<Rightarrow>
     all_db \<Rightarrow> 'p LocatorUpdate \<Rightarrow> (all_db, unit) outcome" where
  "PersistUpdate arrange cq w deref now db update =
     sbind (db, writer_pages w deref (luPages update)) (\<lambda>db pages.
       SaveLocatorUpdate arrange cq db pages (update_state w update now))"

section \<open>The page reader\<close>

text \<open>The repository of a reader is the database argument of its calls, which is never nil.\<close>

record ALLPageReader =
  arTreeID :: string
  arPagesPerBucket :: int

definition NewALLPageReader :: "string \<Rightarrow> int \<Rightarrow> ALLPageReader result" where
  "NewALLPageReader treeID pagesPerBucket =
     (if treeID = '''' then Inl (Errorf ''new ALL page reader: tree ID is required'')
      else if pagesPerBucket \<le> 0 then Inl (Errorf ''new ALL page reader: pages per bucket must be positive'')
      else Inr \<lparr>arTreeID = treeID, arPagesPerBucket = pagesPerBucket\<rparr>)"

definition ALLPageReader_ReadPage ::
  "hash_fn \<Rightarrow> ALLPageReader \<Rightarrow> all_db \<Rightarrow> int \<Rightarrow> (all_db, PageRef Page option) outcome" where
  "ALLPageReader_ReadPage H reader db pageID =
     sbind (GetPage db (arTreeID reader) pageID (arPagesPerBucket reader)) (\<lambda>db stored.
       if apFormatVersion stored \<noteq> int PageFormatVersion
       then (db, Inl (Errorf ''read ALL page %d: format version %d, want %d''))
       else sbind (db, UnmarshalStoredPage H (apPageData stored) (apPageID stored) (apParentPageID stored)
           (apNextPageID stored) (apPageHash stored)) (\<lambda>db page. (db, Inr (Some page))))"

text \<open>The context of the calls ends like a statement: one more outcome decides each check.\<close>

definition all_reader :: "hash_fn \<Rightarrow> ALLPageReader \<Rightarrow> all_db PageReader" where
  "all_reader H reader = \<lparr>ctx_Err = (\<lambda>db. scan_row db (Some ())), ReadPage = ALLPageReader_ReadPage H reader\<rparr>"

definition ResolveLocatorQuery ::
  "hash_fn \<Rightarrow> nat \<Rightarrow> all_db \<Rightarrow> string \<Rightarrow> hash \<Rightarrow> LocatorQuery \<Rightarrow> (all_db, LocatorRangeResult) outcome" where
  "ResolveLocatorQuery H n db treeID trustedRoot query =
     sbind (GetTreeState db treeID) (\<lambda>db state.
     if asRootHash state \<noteq> hash_bytes trustedRoot
     then (db, Inl (Errorf ''resolve locator query: stored ALL state does not match trusted locator root''))
     else sbind (db, NewALLPageReader treeID (asPagesPerBucket state)) (\<lambda>db reader.
       ResolveWithReader H (Some (all_reader H reader)) n db (asRootPageID state) trustedRoot query))"

end
