(* ===== verification/Locator_Store_Properties.thy ===== *)
theory Locator_Store_Properties
  imports Locator_Store
begin

text \<open>
  The properties of the locator's storage: a query resolved from the tables is exact whatever the
  tables hold, an update publishes its tree state only after its pages, and the pages of a
  persisted update are read back.
\<close>

section \<open>The tables as a page source\<close>

text \<open>What the column types guarantee.\<close>

definition row_typed :: "ALLPage \<Rightarrow> bool" where
  "row_typed row \<longleftrightarrow> length (apPageData row) < 2 ^ 32 \<and> int64 (apPageID row) \<and> (\<forall>m. apNextPageID row = Some m \<longrightarrow> int64 m)"

definition pages_typed :: "all_db \<Rightarrow> bool" where
  "pages_typed db \<longleftrightarrow> (\<forall>key row. dbPages db key = Some row \<longrightarrow> row_typed row)"

lemma same_tables_pages: "same_tables (db :: all_db) db' \<Longrightarrow> dbPages db' = dbPages db \<and> dbTreeState db' = dbTreeState db"
  by (cases db; cases db') (auto simp: same_tables_def)

lemma GetPage_Inr:
  assumes "GetPage db treeID pageID ppb = (db', Inr row)"
  shows "same_tables db db' \<and> (\<exists>b. dbPages db (treeID, b, pageID) = Some row)"
  using assms by (auto simp: GetPage_def sbind_eq_Inr swrap_eq_Inr dest: scan_row_Inr)

lemma GetPage_tables: "GetPage db treeID pageID ppb = (db', res) \<Longrightarrow> same_tables db db'"
  by (cases "PageBucketID pageID ppb")
    (auto simp: GetPage_def swrap_def simp: scan_row_tables [OF surjective_pairing])

lemma stored_page_decoded:
  assumes "UnmarshalStoredPage H (apPageData row) (apPageID row) p (apNextPageID row) h = Inr page" and "row_typed row"
  shows "decoded_page page"
proof -
  from assms(1) obtain page0 where raw: "UnmarshalPage (apPageData row) = Inr page0"
    and page: "page = page0\<lparr>pgPageID := apPageID row, pgParentPageID := p,
       pgNext := map_option (\<lambda>n. \<lparr>prPageID = n, prHash = 0\<rparr>) (apNextPageID row), pgHash := hash_of_bytes h\<rparr>"
    unfolding UnmarshalStoredPage_Inr by blast
  have "storable page0" using UnmarshalPage_Inr [OF raw] assms(2) by (simp add: row_typed_def)
  with assms(2) show ?thesis
    by (auto simp: page decoded_page_def storable_def row_typed_def option.map_comp comp_def option.map_ident split: if_splits)
qed

interpretation all_source: page_source "all_reader H reader" pages_typed for H reader
proof
  fix s s' :: all_db and res :: "unit result"
  assume "pages_typed s" "ctx_Err (all_reader H reader) s = (s', res)"
  then show "pages_typed s'"
    using same_tables_pages [OF scan_row_tables, of s "Some ()" s' res] by (simp add: all_reader_def pages_typed_def)
next
  fix s s' :: all_db and pageID res
  assume s: "pages_typed s" and r: "ReadPage (all_reader H reader) s pageID = (s', res)"
  obtain t got where g: "GetPage s (arTreeID reader) pageID (arPagesPerBucket reader) = (t, got)" by fastforce
  with r have "s' = t" by (cases got) (auto simp: all_reader_def ALLPageReader_ReadPage_def sbind_def split: if_splits sum.splits)
  with s same_tables_pages [OF GetPage_tables [OF g]] show "pages_typed s'" by (simp add: pages_typed_def)
next
  fix s s' :: all_db and pageID page
  assume s: "pages_typed s" and r: "ReadPage (all_reader H reader) s pageID = (s', Inr (Some page))"
  from r obtain t row where g: "GetPage s (arTreeID reader) pageID (arPagesPerBucket reader) = (t, Inr row)"
    and u: "UnmarshalStoredPage H (apPageData row) (apPageID row) (apParentPageID row) (apNextPageID row) (apPageHash row) = Inr page"
    by (auto simp: all_reader_def ALLPageReader_ReadPage_def sbind_eq_Inr split: if_splits)
  from GetPage_Inr [OF g] s have "row_typed row" by (auto simp: pages_typed_def)
  with u show "decoded_page page" by (rule stored_page_decoded)
qed

section \<open>Queries on the tables\<close>

lemma resolved_entries:
  assumes "ResolveLocatorQuery H n db treeID (bhash H t) query = (db', Inr result)" and "pages_typed db"
    and "locator_tree t" and "inj_on H (binputs H t \<union> proof_inputs H (rrProof result))"
  shows "rrEntries result = filter (matches_query query) (bentries t)"
proof -
  from assms(1) obtain db1 state reader lower upper where
    st: "GetTreeState db treeID = (db1, Inr state)" and b: "Bounds query = Inr (lower, upper)"
    and res: "ResolveRangeWithReader H (Some (all_reader H reader)) n db1 (asRootPageID state) (bhash H t) lower upper = (db', Inr result)"
    by (auto simp: ResolveLocatorQuery_def ResolveWithReader_def sbind_eq_Inr split: if_splits)
  from st have "same_tables db db1" by (auto simp: GetTreeState_def swrap_eq_Inr dest: scan_row_Inr)
  with assms(2) have "pages_typed db1" using same_tables_pages by (auto simp: pages_typed_def)
  note ok = all_source.ResolveRangeWithReader_ok [OF res this]
  from verified_range(1) [OF ok(2) assms(3) ok(1) assms(4)] Bounds_entries [OF b] show ?thesis by simp
qed

text \<open>C10: Queries on stored pages are exact whatever the database holds. If \<^verbatim>\<open>ResolveLocatorQuery\<close>
  returns a result for the root of a locator tree, its entries are exactly the entries of that tree
  that match the query, unless the hash collides: lost, outdated or forged pages and rows, and
  statements that fail, can only turn the answer into an error.\<close>

theorem resolved_query_is_exact:
  assumes "ResolveLocatorQuery H n db treeID (bhash H t) query = (db', Inr result)" and "pages_typed db"
    and "locator_tree t" and "inj_on H (binputs H t \<union> proof_inputs H (rrProof result))"
  shows "rrEntries result = filter (matches_query query) (bentries t)"
  using assms by (rule resolved_entries)

text \<open>A stored tree with one leaf.\<close>

definition one_leaf :: btree where
  "one_leaf = BLeaf 0 None [(key_at 20, None)]"

definition one_leaf_page :: "PageRef Page" where
  "one_leaf_page = \<lparr>pgPageID = 0, pgHash = bhash len_hash one_leaf, pgIsLeaf = True, pgKeys = [key_at 20], pgParent = None,
     pgParentPageID = None, pgValues = [None], pgNext = None, pgChildren = []\<rparr>"

definition one_leaf_db :: all_db where
  "one_leaf_db = \<lparr>dbOutcomes = [],
     dbPages = [(''ALL'', 0, 0) \<mapsto> \<lparr>apTreeID = ''ALL'', apBucketID = 0, apPageID = 0, apIsLeaf = True, apParentPageID = None,
       apNextPageID = None, apPageData = page_bytes one_leaf_page, apFormatVersion = 2, apPageHash = hash_bytes (bhash len_hash one_leaf)\<rparr>],
     dbTreeState = [''ALL'' \<mapsto> \<lparr>asTreeID = ''ALL'', asRootPageID = 0, asRootHash = hash_bytes (bhash len_hash one_leaf), asNextPageID = 1,
       asTreeHeight = 0, asTreeOrder = 3, asRecordCount = 1, asPageCount = 1, asPagesPerBucket = 8, asUpdatedAt = 5\<rparr>]\<rparr>"

definition one_leaf_answer :: LocatorRangeResult where
  "one_leaf_answer = \<lparr>rrEntries = [\<lparr>lePageID = 0, leKey = key_at 20, leValue = None\<rparr>], rrPredecessor = None, rrSuccessor = None,
     rrProof = \<lparr>rpLeaves = [\<lparr>lpPageID = 0, lpNextPageID = None, lpKeys = [key_at 20], lpValues = [None], lpPath = []\<rparr>],
       rpReconstructedRoot = bhash len_hash one_leaf\<rparr>\<rparr>"

lemma one_leaf_storable: "storable one_leaf_page"
  by (simp add: storable_def one_leaf_page_def encodable_value_def encodeValue_def int64_def)

lemma one_leaf_read:
  "ALLPageReader_ReadPage len_hash \<lparr>arTreeID = ''ALL'', arPagesPerBucket = 8\<rparr> one_leaf_db 0 = (one_leaf_db, Inr (Some one_leaf_page))"
proof -
  have "UnmarshalStoredPage len_hash (page_bytes one_leaf_page) 0 None None (hash_bytes (bhash len_hash one_leaf)) = Inr one_leaf_page"
    unfolding UnmarshalStoredPage_Inr
    using UnmarshalPage_bytes [OF one_leaf_storable]
    by (simp add: page_content_def one_leaf_page_def page_hash_def leafHash_def one_leaf_def)
  then show ?thesis
    by (simp add: ALLPageReader_ReadPage_def GetPage_def PageBucketID_def one_leaf_db_def swrap_def PageFormatVersion_def)
qed

lemma one_leaf_resolved: "ResolveLocatorQuery len_hash 0 one_leaf_db ''ALL'' (bhash len_hash one_leaf) two_leaf_query = (one_leaf_db, Inr one_leaf_answer)"
proof -
  let ?reader = "\<lparr>arTreeID = ''ALL'', arPagesPerBucket = 8\<rparr>"
  let ?c = "\<lparr>crSource = one_leaf_db, crPages = [0 \<mapsto> Some one_leaf_page]\<rparr>"
  have out: "dbOutcomes one_leaf_db = []" by (simp add: one_leaf_db_def)
  have st: "GetTreeState one_leaf_db ''ALL'' = (one_leaf_db, Inr (the (dbTreeState one_leaf_db ''ALL'')))"
    by (simp add: GetTreeState_def one_leaf_db_def swrap_def)
  have state: "asRootHash (the (dbTreeState one_leaf_db ''ALL'')) = hash_bytes (bhash len_hash one_leaf)"
    "asPagesPerBucket (the (dbTreeState one_leaf_db ''ALL'')) = 8" "asRootPageID (the (dbTreeState one_leaf_db ''ALL'')) = 0"
    by (simp_all add: one_leaf_db_def)
  have read: "caching_ReadPage (all_reader len_hash ?reader) (newCachingPageReader one_leaf_db) 0 = (?c, Inr (Some one_leaf_page))"
    by (simp add: caching_ReadPage_def all_reader_def newCachingPageReader_def one_leaf_read out)
  have page: "pgIsLeaf one_leaf_page" "pgKeys one_leaf_page = [key_at 20]" "pgValues one_leaf_page = [None]" "pgNext one_leaf_page = None"
    "pgPageID one_leaf_page = 0" "pgHash one_leaf_page = bhash len_hash one_leaf" by (simp_all add: one_leaf_page_def)
  have lb: "lowerBound [key_at 20] (key_at 15) = 0" "lowerBound [key_at 20] (key_at 25) = 1"
    by (simp_all add: lowerBound_def sort_Search_def search_loop.simps)
  have "resolve_from_root len_hash (all_reader len_hash ?reader) 0 ?c one_leaf_page (bhash len_hash one_leaf) (key_at 15) (key_at 25) =
      (?c, Inr one_leaf_answer)"
    by (simp add: resolve_from_root_def findLeaf_def page lb predecessorEntry_def lowerBoundEntry_def successorEntry_def
        scan_leaves.simps scan_leaf_def scan_keys.simps entryAt_def buildRangeProof_def add_leaf_proof_def makeLeafProof_def
        copyLocatorValues_def ReconstructLocatorRoot_def leafHash_def one_leaf_def orderLeafProofs_def add_by_id_def
        incoming_ids_def find_head_def VerifyLocatorRangeResult_def VerifyLocatorPathProofs_def verifyConsecutiveLeafProofs_def
        check_leaf_def check_key_def flattenProofEntries_def classify_def isLeftmostProof_def isRightmostProof_def
        optionalEntryEqual_def locatorEntryEqual_def one_leaf_answer_def Let_def)
  then show ?thesis using st read
    by (simp add: ResolveLocatorQuery_def NewALLPageReader_def state ResolveWithReader_def two_leaf_bounds
        ResolveRangeWithReader_def swrap_def page)
qed

lemma one_leaf_typed: "pages_typed one_leaf_db"
proof -
  have "length (page_bytes one_leaf_page) < 2 ^ 32"
    by (simp add: page_bytes_def one_leaf_page_def writeBytes_def encodeValue_def writeUint32_def)
  then show ?thesis by (simp add: pages_typed_def one_leaf_db_def row_typed_def int64_def)
qed

lemma one_leaf_tree: "locator_tree one_leaf"
  by (simp add: locator_tree_def one_leaf_def encodable_entry_def encodable_value_def ordered_def bentries_def leaf_entries_def int64_def)

lemma one_leaf_inj: "inj_on len_hash (binputs len_hash one_leaf \<union> proof_inputs len_hash (rrProof one_leaf_answer))"
proof -
  have "binputs len_hash one_leaf \<union> proof_inputs len_hash (rrProof one_leaf_answer) \<subseteq> {bleaf_input (0, None, [(key_at 20, None)])}"
    by (auto simp: one_leaf_def one_leaf_answer_def proof_inputs_def leaf_proof_inputs_def proof_leaf_def)
  then show ?thesis by (rule inj_on_subset [rotated]) simp
qed

theorem resolved_query_is_exact_witness:
  "rrEntries one_leaf_answer = filter (matches_query two_leaf_query) (bentries one_leaf)"
  by (rule resolved_query_is_exact [OF one_leaf_resolved one_leaf_typed one_leaf_tree one_leaf_inj])

section \<open>Writing an update\<close>

definition row_key :: "ALLPage \<Rightarrow> string \<times> int \<times> int" where
  "row_key row = (apTreeID row, apBucketID row, apPageID row)"

lemma put_pages:
  "dbPages (foldl (\<lambda>db page. put_page page db) db rows) = dbPages db ++ map_of (rev (map (\<lambda>row. (row_key row, row)) rows))"
  "dbTreeState (foldl (\<lambda>db page. put_page page db) db rows) = dbTreeState db"
  by (induction rows arbitrary: db) (simp_all add: put_page_def row_key_def)

lemma concat_partition: 
  assumes "gm_wf m"
  shows "mset (concat (map snd (add_to_partition m row))) = add_mset row (mset (concat (map snd m)))"
proof -
  have "mset (concat (map snd (gm_put k (gm_get [] (map_of m) k @ [row]) m))) = add_mset row (mset (concat (map snd m)))" for k
    using assms
  proof (induction m)
    case (Cons x m)
    show ?case
    proof (cases "fst x = k")
      case True
      with Cons show ?thesis by (cases x) (auto simp: gm_wf_def gm_get_def)
    next
      case False
      with Cons show ?thesis by (cases x) (simp add: gm_wf_def gm_get_def)
    qed
  qed (simp add: gm_get_def)
  then show ?thesis by (simp add: add_to_partition_def Let_def)
qed

lemma gm_wf_partition: "gm_wf m \<Longrightarrow> gm_wf (add_to_partition m row)"
  by (simp add: add_to_partition_def Let_def)

lemma partitions_rows: "mset (concat (map snd (foldl add_to_partition [] rows))) = mset rows"
proof -
  have "gm_wf m \<Longrightarrow> mset (concat (map snd (foldl add_to_partition m rows))) = mset (concat (map snd m)) + mset rows \<and> 
      gm_wf (foldl add_to_partition m rows)" for m
    by (induction rows arbitrary: m) (simp_all add: concat_partition gm_wf_partition)
  from this [of "[]"] show ?thesis by simp
qed

text \<open>Batches leave the tree state alone; when none of them reports an error, every row is there.\<close>

lemma exec_batches:
  assumes "foldl exec_batch (db, err) batches = (db', err')"
  shows "dbTreeState db' = dbTreeState db"
    and "err' = None \<Longrightarrow> err = None \<and> dbPages db' = dbPages db ++ map_of (rev (map (\<lambda>row. (row_key row, row)) (concat batches)))"
proof -
  have "dbTreeState db' = dbTreeState db \<and> (err' = None \<longrightarrow>
      err = None \<and> dbPages db' = dbPages db ++ map_of (rev (map (\<lambda>row. (row_key row, row)) (concat batches))))"
    using assms
  proof (induction batches arbitrary: db err)
    case (Cons batch batches)
    obtain db1 res where e: "exec_statement db (\<lambda>db. foldl (\<lambda>db page. put_page page db) db batch) = (db1, res)" by fastforce
    obtain db0 o1 where n: "next_outcome db = (db0, o1)" by fastforce
    note same = same_tables_pages [OF next_outcome_tables [OF n]]
    have 1: "dbTreeState db1 = dbTreeState db"
      using e n same by (auto simp: exec_statement_def put_pages split: statement_outcome.splits)
    have 2: "dbPages db1 = dbPages db ++ map_of (rev (map (\<lambda>row. (row_key row, row)) batch))" if "res = Inr u" for u
      using e n same that by (auto simp: exec_statement_def put_pages split: statement_outcome.splits)
    from Cons.prems e obtain err1 where f: "foldl exec_batch (db1, err1) batches = (db', err')"
      "err1 = None \<Longrightarrow> err = None \<and> (\<exists>u. res = Inr u)"
      by (cases res) (auto simp: exec_batch_def split: if_splits)
    from Cons.IH [OF f(1)] f(2) 1 2 show ?case by (auto simp: map_add_assoc)
  qed simp
  then show "dbTreeState db' = dbTreeState db"
    "err' = None \<Longrightarrow> err = None \<and> dbPages db' = dbPages db ++ map_of (rev (map (\<lambda>row. (row_key row, row)) (concat batches)))"
    by auto
qed

lemma map_of_rev_key: "distinct (map f xs) \<Longrightarrow> x \<in> set xs \<Longrightarrow> map_of (rev (map (\<lambda>x. (f x, x)) xs)) (f x) = Some x"
  by (induction xs rule: rev_induct) (auto, metis imageI)

lemma arranged_rows:
  assumes "arranges arrange"
  shows "mset (concat (map snd (arrange (foldl add_to_partition [] rows)))) = mset rows"
proof -
  have s: "mset (concat (map snd xs)) = (\<Sum>x\<in>#mset xs. mset (snd x))" for xs :: "('a \<times> 'b list) list"
    by (induction xs) auto
  have "mset (arrange (foldl add_to_partition [] rows)) = mset (foldl add_to_partition [] rows)"
    using assms by (simp add: arranges_def)
  then have "mset (concat (map snd (arrange (foldl add_to_partition [] rows)))) = mset (concat (map snd (foldl add_to_partition [] rows)))"
    unfolding s by simp
  then show ?thesis using partitions_rows by simp
qed

lemma UpsertPages_tables:
  assumes "UpsertPages arrange db rows = (db', res)" and "arranges arrange"
  shows "dbTreeState db' = dbTreeState db"
    and "res = Inr () \<Longrightarrow> distinct (map row_key rows) \<Longrightarrow> row \<in> set rows \<Longrightarrow> dbPages db' (row_key row) = Some row"
    and "res = Inr () \<Longrightarrow> key \<notin> row_key ` set rows \<Longrightarrow> dbPages db' key = dbPages db key"
proof -
  let ?batches = "map snd (arrange (foldl add_to_partition [] rows))"
  obtain db1 err where f: "foldl exec_batch (db, None) ?batches = (db1, err)" by fastforce
  note all = arranged_rows [OF assms(2), of rows]
  then have set: "set (concat ?batches) = set rows" by (metis set_mset_mset)
  have res: "rows = [] \<and> db' = db \<and> res = Inr () \<or> rows \<noteq> [] \<and> db' = db1 \<and> (res = Inr () \<longleftrightarrow> err = None)"
    using assms(1) f by (auto simp: UpsertPages_def Let_def split: if_splits option.splits)
  with exec_batches(1) [OF f] show "dbTreeState db' = dbTreeState db" by auto
  have pages: "dbPages db1 = dbPages db ++ map_of (rev (map (\<lambda>row. (row_key row, row)) (concat ?batches)))" if "err = None"
    using exec_batches(2) [OF f that] by simp
  show "dbPages db' (row_key row) = Some row" if "res = Inr ()" "distinct (map row_key rows)" "row \<in> set rows"
  proof -
    have "mset (map row_key (concat ?batches)) = mset (map row_key rows)" using all by (metis mset_map)
    then have "distinct (map row_key (concat ?batches))" using that(2) by (metis mset_eq_imp_distinct_iff)
    then have "map_of (rev (map (\<lambda>row. (row_key row, row)) (concat ?batches))) (row_key row) = Some row"
      using that(3) set by (intro map_of_rev_key) (simp_all del: set_concat)
    with pages res that show ?thesis by auto
  qed
  show "dbPages db' key = dbPages db key" if "res = Inr ()" "key \<notin> row_key ` set rows"
  proof -
    have "map_of (rev (map (\<lambda>row. (row_key row, row)) (concat ?batches))) key = None"
      unfolding map_of_eq_None_iff using that(2) set by (auto simp del: set_concat)
    with pages res that show ?thesis by (auto simp: map_add_def)
  qed
qed

lemma SaveLocatorUpdate_tables:
  assumes "SaveLocatorUpdate arrange cq db rows state = (db', res)" and "arranges arrange"
  shows "dbTreeState db' = dbTreeState db \<or> (\<exists>db1. UpsertPages arrange db rows = (db1, Inr ()) \<and> dbPages db' = dbPages db1)"
    and "res = Inr () \<Longrightarrow> \<exists>db1. UpsertPages arrange db rows = (db1, Inr ()) \<and> dbPages db' = dbPages db1"
proof -
  obtain db1 r1 where u: "UpsertPages arrange db rows = (db1, r1)" by fastforce
  obtain db2 r2 where t: "UpsertTreeState cq db1 state = (db2, r2)" by fastforce
  obtain db0 o1 where n: "next_outcome db1 = (db0, o1)" by fastforce
  have pages: "dbPages db2 = dbPages db1"
    using t n same_tables_pages [OF next_outcome_tables [OF n]]
    by (auto simp: UpsertTreeState_def swrap_def exec_statement_def split: statement_outcome.splits)
  show "dbTreeState db' = dbTreeState db \<or> (\<exists>db1. UpsertPages arrange db rows = (db1, Inr ()) \<and> dbPages db' = dbPages db1)"
  proof (cases r1)
    case (Inl e)
    with assms(1) u have "db' = db1" by (simp add: SaveLocatorUpdate_def swrap_def)
    with UpsertPages_tables(1) [OF u assms(2)] show ?thesis by simp
  next
    case (Inr x)
    with assms(1) u t have "db' = db2" by (cases r2) (simp_all add: SaveLocatorUpdate_def swrap_def)
    with pages u Inr show ?thesis by simp
  qed
  show "res = Inr () \<Longrightarrow> \<exists>db1. UpsertPages arrange db rows = (db1, Inr ()) \<and> dbPages db' = dbPages db1"
    using assms(1) u t pages by (auto simp: SaveLocatorUpdate_def sbind_eq_Inr swrap_eq_Inr)
qed

lemma writer_pages_Inr: "writer_pages w deref pages = Inr rows \<Longrightarrow> list_all2 (\<lambda>page row. page_row w deref page = Inr row) pages rows"
proof -
  have "rfold (\<lambda>pages page. rbind (page_row w deref page) (\<lambda>row. Inr (pages @ [row]))) acc pages = Inr rows \<Longrightarrow>
      \<exists>new. rows = acc @ new \<and> list_all2 (\<lambda>page row. page_row w deref page = Inr row) pages new" for acc
  proof (induction pages arbitrary: acc)
    case (Cons page pages)
    then obtain row new where "page_row w deref page = Inr row" "rows = (acc @ [row]) @ new"
      "list_all2 (\<lambda>page row. page_row w deref page = Inr row) pages new" by fastforce
    then show ?case by (intro exI [of _ "row # new"]) simp
  qed simp
  then show "writer_pages w deref pages = Inr rows \<Longrightarrow> list_all2 (\<lambda>page row. page_row w deref page = Inr row) pages rows"
    by (fastforce simp: writer_pages_def)
qed

lemma page_row_Inr:
  "page_row w deref page = Inr row \<Longrightarrow> apPageID row = pgPageID page \<and> row_key row = (uwTreeID w, pgPageID page div uwPagesPerBucket w, pgPageID page)"
  by (auto simp: page_row_def PageBucketID_def row_key_def split: if_splits)

lemma writer_pages_keys:
  assumes "writer_pages w deref pages = Inr rows" and "distinct (map pgPageID pages)"
  shows "distinct (map row_key rows)"
proof -
  have "map apPageID rows = map pgPageID pages"
    using writer_pages_Inr [OF assms(1)] page_row_Inr by (induction rule: list_all2_induct) fastforce+
  then have "distinct (map apPageID rows)" using assms(2) by simp
  then have "distinct (map (snd \<circ> snd) (map row_key rows))" by (simp add: row_key_def comp_def)
  then show ?thesis by (subst (asm) distinct_map) simp
qed

text \<open>The row an acknowledged update leaves as the tree state.\<close>

lemma PersistUpdate_state:
  assumes "PersistUpdate arrange cq w deref now db update = (db', Inr ())"
  shows "dbTreeState db' (uwTreeID w) = Some ((update_state w update now)\<lparr>asUpdatedAt := cqlTimestamp cq now\<rparr>)"
proof -
  from assms obtain rows db1 where "UpsertTreeState cq db1 (update_state w update now) = (db', Inr ())"
    by (auto simp: PersistUpdate_def SaveLocatorUpdate_def sbind_eq_Inr swrap_eq_Inr)
  then show ?thesis
    by (auto simp: UpsertTreeState_def swrap_eq_Inr exec_statement_def update_state_def split: prod.splits statement_outcome.splits)
qed

lemma list_all2_member: "list_all2 P xs ys \<Longrightarrow> x \<in> set xs \<Longrightarrow> \<exists>y \<in> set ys. P x y"
  by (induction rule: list_all2_induct) auto

lemma persisted_rows:
  assumes "PersistUpdate arrange cq w deref now db update = (db', res)" and "arranges arrange"
    and "distinct (map pgPageID (luPages update))" and "res = Inr () \<or> dbTreeState db' \<noteq> dbTreeState db"
    and "page \<in> set (luPages update)"
  shows "\<exists>row. page_row w deref page = Inr row \<and> dbPages db' (row_key row) = Some row"
proof (cases "writer_pages w deref (luPages update)")
  case (Inl e)
  with assms(1,4) show ?thesis by (auto simp: PersistUpdate_def)
next
  case (Inr rows)
  with assms(1) have save: "SaveLocatorUpdate arrange cq db rows (update_state w update now) = (db', res)"
    by (simp add: PersistUpdate_def)
  obtain db1 where "UpsertPages arrange db rows = (db1, Inr ())" "dbPages db' = dbPages db1"
    using SaveLocatorUpdate_tables [OF save assms(2)] assms(4) by blast
  moreover obtain row where "row \<in> set rows" "page_row w deref page = Inr row"
    using list_all2_member [OF writer_pages_Inr [OF Inr] assms(5)] by blast
  ultimately show ?thesis
    using UpsertPages_tables(2) [OF _ assms(2) refl writer_pages_keys [OF Inr assms(3)]] by fastforce
qed

text \<open>C26: An update publishes its tree state only after its pages: when \<^verbatim>\<open>PersistUpdate\<close> has changed the row
  of the tree state, every page of the update is stored in the form the writer gives it, whatever
  statements failed or were applied without acknowledgement, and in whatever order the batches ran.\<close>

theorem state_published_after_pages:
  assumes "PersistUpdate arrange cq w deref now db update = (db', res)" and "arranges arrange"
    and "distinct (map pgPageID (luPages update))" and "dbTreeState db' \<noteq> dbTreeState db"
    and "page \<in> set (luPages update)"
  shows "\<exists>row. page_row w deref page = Inr row \<and> dbPages db' (row_key row) = Some row"
  using persisted_rows [OF assms(1-3) _ assms(5)] assms(4) by blast

definition example_update :: "PageRef LocatorUpdate" where
  "example_update = \<lparr>luPages = [example_page\<lparr>pgHash := internalHash len_hash (\<lambda>r. r) example_page\<rparr>], luRootPageID = 3,
     luRootHash = internalHash len_hash (\<lambda>r. r) example_page, luNextPageID = 4, luHeight = 1, luRecordCount = 3\<rparr>"

definition example_writer :: ALLUpdateWriter where
  "example_writer = \<lparr>uwTreeID = ''ALL'', uwTreeOrder = 3, uwPagesPerBucket = 8\<rparr>"

definition empty_all_db :: "statement_outcome list \<Rightarrow> all_db" where
  "empty_all_db outcomes = \<lparr>dbOutcomes = outcomes, dbPages = Map.empty, dbTreeState = Map.empty\<rparr>"

definition seconds_cql :: cql where
  "seconds_cql = \<lparr>cqlTimestamp = (\<lambda>t. t), UUIDFromTime = (\<lambda>_. 1), uuidString = (\<lambda>_. ''1''), ParseUUID = (\<lambda>_. Inr 1)\<rparr>"

abbreviation example_persist :: "statement_outcome list \<Rightarrow> (all_db, unit) outcome" where
  "example_persist outcomes \<equiv> PersistUpdate (\<lambda>xs. xs) seconds_cql example_writer (\<lambda>r. r) 5 (empty_all_db outcomes) example_update"

lemma example_persist_simps:
  "snd (example_persist []) = Inr ()" "dbOutcomes (fst (example_persist [])) = []"
  "dbTreeState (fst (example_persist [Applied, Unacknowledged (Errorf ''timeout'')])) \<noteq> Map.empty"
  by (simp_all add: PersistUpdate_def SaveLocatorUpdate_def UpsertPages_def UpsertTreeState_def writer_pages_def page_row_def
      PageBucketID_def MarshalPage_def example_update_def example_writer_def example_page_def empty_all_db_def swrap_def
      exec_batch_def exec_statement_def next_outcome_def add_to_partition_def put_page_def update_state_def gm_get_def Let_def
      fun_upd_def fun_eq_iff)

theorem state_published_after_pages_witness:
  "\<exists>row. page_row example_writer (\<lambda>r. r) (hd (luPages example_update)) = Inr row \<and>
     dbPages (fst (example_persist [Applied, Unacknowledged (Errorf ''timeout'')])) (row_key row) = Some row"
  by (rule state_published_after_pages [OF surjective_pairing])
    (simp_all add: arranges_def example_update_def, use example_persist_simps(3) in \<open>simp add: example_update_def empty_all_db_def\<close>)

text \<open>C30: What an acknowledged update wrote is what a reader with the writer's bucket size gets: after
  \<^verbatim>\<open>PersistUpdate\<close> returns without an error, \<^verbatim>\<open>ReadPage\<close> gives each page of the update back under three
  conditions. The reader uses the bucket size of the writer (the stored size is the same only below
  \<open>2 ^ 31\<close>); the page's hash is the hash of its contents and of its
  children as the writer finds them (no insertion has changed what the page shares with the tree since the
  update was made); and the page fits the stored form (matching lengths, event times within 64-bit
  nanoseconds, strings shorter than \<open>2 ^ 32\<close> bytes). The reads themselves do not fail.\<close>

theorem persisted_page_is_read_back:
  assumes "PersistUpdate arrange cq w deref now db update = (db', Inr ())" and "arranges arrange"
    and "distinct (map pgPageID (luPages update))" and "page \<in> set (luPages update)"
    and "page_hash H deref page = Inr (pgHash page)" and "storable (deref_page deref page)" and "dbOutcomes db' = []"
  shows "ALLPageReader_ReadPage H \<lparr>arTreeID = uwTreeID w, arPagesPerBucket = uwPagesPerBucket w\<rparr> db' (pgPageID page) =
    (db', Inr (Some (restored_page (pgHash page) (pgParentPageID page) deref page)))"
proof -
  let ?data = "page_bytes (deref_page deref page)"
  obtain row where row: "page_row w deref page = Inr row" "dbPages db' (row_key row) = Some row"
    using persisted_rows [OF assms(1-3) _ assms(4)] by blast
  have data: "MarshalPage deref page = Inr ?data"
    using MarshalPage_storable [OF assms(6)] MarshalPage_deref [of deref page] by simp
  have pos: "\<not> (pgPageID page < 0 \<or> uwPagesPerBucket w \<le> 0)"
    using row(1) by (auto simp: page_row_def PageBucketID_def split: if_splits)
  have r: "row = \<lparr>apTreeID = uwTreeID w, apBucketID = pgPageID page div uwPagesPerBucket w, apPageID = pgPageID page,
      apIsLeaf = pgIsLeaf page, apParentPageID = pgParentPageID page, apNextPageID = nextPageID_of deref (pgNext page),
      apPageData = ?data, apFormatVersion = int PageFormatVersion, apPageHash = copyHash (pgHash page)\<rparr>"
    using row(1) pos data by (simp add: page_row_def PageBucketID_def)
  have "nextPageID_of deref (pgNext page) = map_option (prPageID \<circ> deref) (pgNext page)"
    by (simp add: nextPageID_of_def split: option.splits)
  then have "UnmarshalStoredPage H ?data (pgPageID page) (pgParentPageID page) (nextPageID_of deref (pgNext page))
      (copyHash (pgHash page)) = Inr (restored_page (pgHash page) (pgParentPageID page) deref page)"
    using stored_page_restored [OF assms(6,5)] by (simp add: copyHash_def)
  then show ?thesis
    using row(2) pos assms(7) unfolding r
    by (simp add: ALLPageReader_ReadPage_def GetPage_def PageBucketID_def row_key_def swrap_def)
qed

theorem persisted_page_is_read_back_witness:
  "ALLPageReader_ReadPage len_hash \<lparr>arTreeID = uwTreeID example_writer, arPagesPerBucket = uwPagesPerBucket example_writer\<rparr>
     (fst (example_persist [])) (pgPageID (hd (luPages example_update))) =
   (fst (example_persist []), Inr (Some (restored_page (pgHash (hd (luPages example_update)))
      (pgParentPageID (hd (luPages example_update))) (\<lambda>r. r) (hd (luPages example_update)))))"
proof (rule persisted_page_is_read_back)
  show "example_persist [] = (fst (example_persist []), Inr ())" using example_persist_simps(1) by (metis surjective_pairing)
  show "dbOutcomes (fst (example_persist [])) = []" by (rule example_persist_simps(2))
qed (simp_all add: arranges_def example_update_def page_hash_def internalHash_def example_page_def deref_page_def storable_def int64_def)

text \<open>C37: The bucket size is stored as a 32-bit integer although every positive 64-bit size is accepted: after
  an acknowledged update with a size that is a multiple of \<open>2 ^ 32\<close>, every query on the tables fails.\<close>

theorem large_bucket_size_is_lost:
  assumes "PersistUpdate arrange cq w deref now db update = (db', Inr ())" and "uwTreeID w \<noteq> ''''"
    and "2 ^ 32 dvd uwPagesPerBucket w" and "dbOutcomes db' = []"
  shows "ResolveLocatorQuery H n db' (uwTreeID w) (luRootHash update) query =
    (db', Inl (Errorf ''new ALL page reader: pages per bucket must be positive''))"
proof -
  have "wrap32 (uwPagesPerBucket w) = 0" using assms(3) by (auto simp: wrap32_def mod_add_left_eq)
  then show ?thesis
    using PersistUpdate_state [OF assms(1)] assms(2,4)
    by (simp add: ResolveLocatorQuery_def GetTreeState_def swrap_def update_state_def copyHash_def NewALLPageReader_def)
qed

theorem large_bucket_size_is_lost_witness:
  "let db' = fst (PersistUpdate (\<lambda>xs. xs) seconds_cql (example_writer\<lparr>uwPagesPerBucket := 2 ^ 32\<rparr>) (\<lambda>r. r) 5 (empty_all_db []) example_update)
   in ResolveLocatorQuery len_hash 9 db' (uwTreeID (example_writer\<lparr>uwPagesPerBucket := 2 ^ 32\<rparr>)) (luRootHash example_update) two_leaf_query =
     (db', Inl (Errorf ''new ALL page reader: pages per bucket must be positive''))"
proof -
  let ?run = "PersistUpdate (\<lambda>xs. xs) seconds_cql (example_writer\<lparr>uwPagesPerBucket := 2 ^ 32\<rparr>) (\<lambda>r. r) 5 (empty_all_db []) example_update"
  have "snd ?run = Inr ()" "dbOutcomes (fst ?run) = []"
    by (simp_all add: PersistUpdate_def SaveLocatorUpdate_def UpsertPages_def UpsertTreeState_def writer_pages_def page_row_def
      PageBucketID_def MarshalPage_def example_update_def example_writer_def example_page_def empty_all_db_def swrap_def
      exec_batch_def add_to_partition_def put_page_def gm_get_def Let_def)
  then have run: "?run = (fst ?run, Inr ())" "dbOutcomes (fst ?run) = []" by (simp_all add: prod_eq_iff)
  show ?thesis
    unfolding Let_def by (rule large_bucket_size_is_lost [OF run(1) _ _ run(2)]) (simp_all add: example_writer_def)
qed

end
