(* ===== verification/Locator_Tree.thy ===== *)
theory Locator_Tree
  imports Locator_Verify
begin

text \<open>
  \<^verbatim>\<open>internal/all/locator_tree.go\<close>: insertion into the Merkle B+ tree. The tree is a graph of mutable
  pages with parent and next pointers. A page never changes its identifier and every allocation
  takes a new one, so the identifier stands for the address, and the heap maps addresses to pages; a
  pointer that is not nil always refers to a page. The recursions up and down the tree take a bound
  on their depth, and exhausting it is the error \<open>Diverge\<close>.
\<close>

type_synonym heap = "int \<Rightarrow> int Page"

record LocatorTree =
  ltHeap :: heap
  ltRootPageID :: int
  ltNextPageID :: int
  ltRootHash :: hash
  ltRootPage :: int
  ltHeight :: int
  ltLeafCount :: int
  ltOrder :: int

definition deref :: "heap \<Rightarrow> int \<Rightarrow> PageRef" where
  "deref heap p = \<lparr>prPageID = pgPageID (heap p), prHash = pgHash (heap p)\<rparr>"

abbreviation page_at :: "LocatorTree \<Rightarrow> int \<Rightarrow> int Page" where
  "page_at tree p \<equiv> ltHeap tree p"

definition set_page :: "int \<Rightarrow> (int Page \<Rightarrow> int Page) \<Rightarrow> LocatorTree \<Rightarrow> LocatorTree" where
  "set_page p f tree = tree\<lparr>ltHeap := (ltHeap tree)(p := f (ltHeap tree p))\<rparr>"

definition empty_page :: "int \<Rightarrow> int Page" where
  "empty_page pageID = \<lparr>pgPageID = pageID, pgHash = 0, pgIsLeaf = False, pgKeys = [], pgParent = None, pgParentPageID = None,
     pgValues = [], pgNext = None, pgChildren = []\<rparr>"

section \<open>Page updates\<close>

text \<open>\<^verbatim>\<open>pageUpdates\<close> is keyed by the identifier of the page it points to.\<close>

type_synonym pageUpdates = "(int, int) gomap"

definition updates_add :: "LocatorTree \<Rightarrow> pageUpdates \<Rightarrow> int \<Rightarrow> pageUpdates" where
  "updates_add tree updates page = gm_put (pgPageID (page_at tree page)) page updates"

text \<open>
  The pages of an update are copies of the page structures as they are when the insertion returns. In the
  program the copies are shallow: their slices and child pointers stay shared with the tree, and a later
  insertion into the same page may overwrite what they show. The list below is what the update holds
  at its return; a consumer that reads it later is given the children through a function of its own
  (\<open>deref\<close>), and what it needs of the contents is a hypothesis of the theorems about it.
\<close>

definition updates_pages :: "LocatorTree \<Rightarrow> pageUpdates \<Rightarrow> int Page list" where
  "updates_pages tree updates =
     map (\<lambda>pageID. page_at tree (gm_get 0 (map_of updates) pageID)) (sort_Slice (<) (gm_keys updates))"

definition pageIDPointer :: "LocatorTree \<Rightarrow> int option \<Rightarrow> int option" where
  "pageIDPointer tree page = (case page of None \<Rightarrow> None | Some p \<Rightarrow> Some (pgPageID (page_at tree p)))"

section \<open>The operations\<close>

definition NewLocatorTree :: "hash_fn \<Rightarrow> int \<Rightarrow> LocatorTree result" where
  "NewLocatorTree H order =
     (if order < 1 then Inl (Panic ''makeslice: cap out of range'')
      else let page = (empty_page 0)\<lparr>pgIsLeaf := True\<rparr>
        in rbind (leafHash H (deref empty_page) page) (\<lambda>hash.
          Inr \<lparr>ltHeap = empty_page(0 := page\<lparr>pgHash := hash\<rparr>), ltRootPageID = 0, ltNextPageID = 1, ltRootHash = hash,
            ltRootPage = 0, ltHeight = 0, ltLeafCount = 0, ltOrder = order\<rparr>))"

definition setRoot :: "LocatorTree \<Rightarrow> int \<Rightarrow> pageUpdates \<Rightarrow> LocatorTree \<times> pageUpdates" where
  "setRoot tree currPage updates =
     (let tree1 = set_page currPage (\<lambda>page. page\<lparr>pgParent := None, pgParentPageID := None\<rparr>) tree;
          tree2 = tree1\<lparr>ltRootPageID := pgPageID (page_at tree1 currPage), ltRootHash := pgHash (page_at tree1 currPage),
            ltRootPage := currPage\<rparr>
      in (tree2, updates_add tree2 updates currPage))"

text \<open>\<^verbatim>\<open>insertParent\<close> up to its last statement, which continues with \<^verbatim>\<open>internalSplit\<close> at the parent.\<close>

definition set_parent :: "int \<Rightarrow> int \<Rightarrow> LocatorTree \<Rightarrow> LocatorTree" where
  "set_parent parent p tree = set_page p (\<lambda>page. page\<lparr>pgParent := Some parent, pgParentPageID := pageIDPointer tree (Some parent)\<rparr>) tree"

definition new_parent ::
  "hash_fn \<Rightarrow> LocatorTree \<Rightarrow> int \<Rightarrow> int \<Rightarrow> LocatorKey \<Rightarrow> pageUpdates \<Rightarrow> LocatorTree \<times> int \<times> pageUpdates" where
  "new_parent H tree currPage rightPage currKey updates =
     (let parent = ltNextPageID tree;
          tree1 = (set_page parent (\<lambda>_. (empty_page (ltNextPageID tree))\<lparr>pgKeys := [currKey], pgChildren := [currPage, rightPage]\<rparr>) tree)
            \<lparr>ltNextPageID := wrap64 (ltNextPageID tree + 1)\<rparr>;
          tree2 = set_parent parent rightPage (set_parent parent currPage tree1);
          tree3 = set_page parent (\<lambda>page. page\<lparr>pgHash := internalHash H (deref (ltHeap tree2)) page\<rparr>) tree2;
          tree4 = tree3\<lparr>ltHeight := wrap64 (ltHeight tree3 + 1)\<rparr>;
          updates1 = updates_add tree4 (updates_add tree4 updates currPage) rightPage;
          (tree5, updates2) = setRoot tree4 parent updates1
      in (tree5, parent, updates2))"

fun index_of :: "'a list \<Rightarrow> 'a \<Rightarrow> nat option" where
  "index_of [] x = None"
| "index_of (y # ys) x = (if y = x then Some 0 else map_option Suc (index_of ys x))"

definition insert_at :: "nat \<Rightarrow> 'a \<Rightarrow> 'a list \<Rightarrow> 'a list" where
  "insert_at i x xs = take i xs @ x # drop i xs"

definition insert_child ::
  "LocatorTree \<Rightarrow> int \<Rightarrow> int \<Rightarrow> int \<Rightarrow> LocatorKey \<Rightarrow> pageUpdates \<Rightarrow> (LocatorTree \<times> int \<times> pageUpdates) result" where
  "insert_child tree parent currPage rightPage currKey updates =
     (case index_of (pgChildren (page_at tree parent)) currPage of
        None \<Rightarrow> Inl (Panic ''insert parent: current page is not a child of its parent'')
      | Some currIdx \<Rightarrow>
        if currIdx > length (pgKeys (page_at tree parent)) then Inl (Panic ''slice bounds out of range'')
        else let tree1 = set_page parent (\<lambda>page. page\<lparr>pgKeys := insert_at currIdx currKey (pgKeys page),
                   pgChildren := insert_at (currIdx + 1) rightPage (pgChildren page)\<rparr>) tree;
                 tree2 = set_parent parent rightPage tree1
             in Inr (tree2, parent, updates_add tree2 (updates_add tree2 updates parent) rightPage))"

definition link_parent ::
  "hash_fn \<Rightarrow> LocatorTree \<Rightarrow> int \<Rightarrow> int \<Rightarrow> LocatorKey \<Rightarrow> pageUpdates \<Rightarrow> (LocatorTree \<times> int \<times> pageUpdates) result" where
  "link_parent H tree currPage rightPage currKey updates =
     (case pgParent (page_at tree currPage) of
        None \<Rightarrow> Inr (new_parent H tree currPage rightPage currKey updates)
      | Some parent \<Rightarrow> insert_child tree parent currPage rightPage currKey updates)"

text \<open>The loop over the children that move to the right page.\<close>

fun adopt :: "int \<Rightarrow> LocatorTree \<times> pageUpdates \<Rightarrow> int list \<Rightarrow> LocatorTree \<times> pageUpdates" where
  "adopt rightPage (tree, updates) [] = (tree, updates)"
| "adopt rightPage (tree, updates) (child # children) =
     (let tree1 = set_parent rightPage child tree in adopt rightPage (tree1, updates_add tree1 updates child) children)"

text \<open>\<^verbatim>\<open>internalSplit\<close> up to its last statement: the split of a page with too many children.\<close>

definition split_page ::
  "hash_fn \<Rightarrow> LocatorTree \<Rightarrow> int \<Rightarrow> pageUpdates \<Rightarrow> (LocatorTree \<times> int \<times> LocatorKey \<times> pageUpdates) result" where
  "split_page H tree currPage updates =
     (let page = page_at tree currPage; mid = length (pgKeys page) div 2 in
      if length (pgKeys page) \<le> mid \<or> length (pgChildren page) < mid + 1 then Inl (Panic ''index out of range'')
      else let currKey = pgKeys page ! mid;
               rightPage = ltNextPageID tree;
               tree1 = (set_page rightPage (\<lambda>_. (empty_page (ltNextPageID tree))\<lparr>pgParent := pgParent page,
                   pgParentPageID := pageIDPointer tree (pgParent page), pgKeys := drop (mid + 1) (pgKeys page),
                   pgChildren := drop (mid + 1) (pgChildren page)\<rparr>) tree)\<lparr>ltNextPageID := wrap64 (ltNextPageID tree + 1)\<rparr>;
               (tree2, updates1) = adopt rightPage (tree1, updates) (pgChildren (page_at tree1 rightPage));
               tree3 = set_page rightPage (\<lambda>page. page\<lparr>pgHash := internalHash H (deref (ltHeap tree2)) page\<rparr>) tree2;
               tree4 = set_page currPage (\<lambda>page. page\<lparr>pgKeys := take mid (pgKeys page),
                   pgChildren := take (mid + 1) (pgChildren page)\<rparr>) tree3;
               tree5 = set_page currPage (\<lambda>page. page\<lparr>pgHash := internalHash H (deref (ltHeap tree4)) page\<rparr>) tree4
           in Inr (tree5, rightPage, currKey, updates_add tree5 (updates_add tree5 updates1 currPage) rightPage))"

fun internalSplit :: "hash_fn \<Rightarrow> nat \<Rightarrow> LocatorTree \<Rightarrow> int \<Rightarrow> pageUpdates \<Rightarrow> (LocatorTree \<times> pageUpdates) result" where
  "internalSplit H 0 tree currPage updates =
     (if int (length (pgChildren (page_at tree currPage))) \<le> ltOrder tree then Inr (tree, updates) else Inl Diverge)"
| "internalSplit H (Suc n) tree currPage updates =
     (if int (length (pgChildren (page_at tree currPage))) \<le> ltOrder tree then Inr (tree, updates)
      else rbind (split_page H tree currPage updates) (\<lambda>(tree, rightPage, currKey, updates).
        rbind (link_parent H tree currPage rightPage currKey updates) (\<lambda>(tree, parent, updates).
          internalSplit H n tree parent updates)))"

definition insertParent ::
  "hash_fn \<Rightarrow> nat \<Rightarrow> LocatorTree \<Rightarrow> int \<Rightarrow> int \<Rightarrow> LocatorKey \<Rightarrow> pageUpdates \<Rightarrow> (LocatorTree \<times> pageUpdates) result" where
  "insertParent H n tree currPage rightPage currKey updates =
     rbind (link_parent H tree currPage rightPage currKey updates) (\<lambda>(tree, parent, updates). internalSplit H n tree parent updates)"

definition leafSplit :: "hash_fn \<Rightarrow> nat \<Rightarrow> LocatorTree \<Rightarrow> int \<Rightarrow> pageUpdates \<Rightarrow> (LocatorTree \<times> pageUpdates) result" where
  "leafSplit H n tree currPage updates =
     (let page = page_at tree currPage; mid = length (pgKeys page) div 2 in
      if length (pgValues page) < mid then Inl (Panic ''slice bounds out of range'')
      else let rightPage = ltNextPageID tree;
               tree1 = (set_page rightPage (\<lambda>_. (empty_page (ltNextPageID tree))\<lparr>pgIsLeaf := True, pgParent := pgParent page,
                   pgParentPageID := pageIDPointer tree (pgParent page), pgKeys := drop mid (pgKeys page),
                   pgValues := drop mid (pgValues page), pgNext := pgNext page\<rparr>) tree)\<lparr>ltNextPageID := wrap64 (ltNextPageID tree + 1)\<rparr>
           in rbind (leafHash H (deref (ltHeap tree1)) (page_at tree1 currPage)) (\<lambda>leftHash.
              rbind (leafHash H (deref (ltHeap tree1)) (page_at tree1 rightPage)) (\<lambda>rightHash.
              let tree2 = set_page rightPage (\<lambda>page. page\<lparr>pgHash := rightHash\<rparr>) (set_page currPage (\<lambda>page. page\<lparr>pgHash := leftHash\<rparr>) tree1);
                  tree3 = set_page currPage (\<lambda>page. page\<lparr>pgKeys := take mid (pgKeys page), pgValues := take mid (pgValues page),
                    pgNext := Some rightPage\<rparr>) tree2;
                  updates1 = updates_add tree3 (updates_add tree3 updates currPage) rightPage
              in (case pgKeys (page_at tree3 rightPage) of
                    [] \<Rightarrow> Inl (Panic ''index out of range'')
                  | currKey # _ \<Rightarrow> insertParent H n tree3 currPage rightPage currKey updates1))))"

text \<open>The hashes on the path from a page to the root; the loop ends at the page without a parent.\<close>

definition rehash :: "hash_fn \<Rightarrow> LocatorTree \<Rightarrow> int \<Rightarrow> LocatorTree result" where
  "rehash H tree currPage =
     rbind (if pgIsLeaf (page_at tree currPage) then leafHash H (deref (ltHeap tree)) (page_at tree currPage)
            else Inr (internalHash H (deref (ltHeap tree)) (page_at tree currPage)))
       (\<lambda>hash. Inr (set_page currPage (\<lambda>page. page\<lparr>pgHash := hash\<rparr>) tree))"

fun updatePathHashes :: "hash_fn \<Rightarrow> nat \<Rightarrow> LocatorTree \<Rightarrow> int \<Rightarrow> pageUpdates \<Rightarrow> (LocatorTree \<times> pageUpdates) result" where
  "updatePathHashes H n tree currPage updates =
     rbind (rehash H tree currPage) (\<lambda>tree1.
       let updates1 = updates_add tree1 updates currPage in
       case pgParent (page_at tree1 currPage) of
         None \<Rightarrow> Inr (setRoot tree1 currPage updates1)
       | Some parent \<Rightarrow> (case n of 0 \<Rightarrow> Inl Diverge | Suc m \<Rightarrow> updatePathHashes H m tree1 parent updates1))"

declare updatePathHashes.simps [simp del]

text \<open>The base case of \<^verbatim>\<open>insert\<close>.\<close>

definition insert_leaf ::
  "hash_fn \<Rightarrow> nat \<Rightarrow> LocatorKey \<Rightarrow> LocatorValue option \<Rightarrow> LocatorTree \<Rightarrow> int \<Rightarrow> pageUpdates \<Rightarrow> (LocatorTree \<times> pageUpdates) result" where
  "insert_leaf H n key value tree currPage updates =
     (let page = page_at tree currPage; currIdx = findKeyIdx (pgKeys page) key in
      if currIdx > length (pgValues page) then Inl (Panic ''slice bounds out of range'')
      else let tree1 = set_page currPage (\<lambda>page. page\<lparr>pgKeys := insert_at currIdx key (pgKeys page),
                 pgValues := insert_at currIdx value (pgValues page)\<rparr>) tree
           in rbind (if int (length (pgKeys (page_at tree1 currPage))) \<ge> ltOrder tree1 then leafSplit H n tree1 currPage updates
                     else Inr (tree1, updates)) (\<lambda>(tree2, updates1).
              updatePathHashes H n (tree2\<lparr>ltLeafCount := wrap64 (ltLeafCount tree2 + 1)\<rparr>) currPage updates1))"

fun tree_insert ::
  "hash_fn \<Rightarrow> nat \<Rightarrow> nat \<Rightarrow> LocatorKey \<Rightarrow> LocatorValue option \<Rightarrow> LocatorTree \<Rightarrow> int \<Rightarrow> pageUpdates \<Rightarrow> (LocatorTree \<times> pageUpdates) result" where
  "tree_insert H n m key value tree currPage updates =
     (if pgIsLeaf (page_at tree currPage) then insert_leaf H n key value tree currPage updates
      else case m of
        0 \<Rightarrow> Inl Diverge
      | Suc m' \<Rightarrow>
        let idx = findKeyIdx (pgKeys (page_at tree currPage)) key in
        if length (pgChildren (page_at tree currPage)) \<le> idx then Inl (Panic ''index out of range'')
        else tree_insert H n m' key value tree (pgChildren (page_at tree currPage) ! idx) updates)"

declare tree_insert.simps [simp del]

definition InsertWithUpdate ::
  "hash_fn \<Rightarrow> nat \<Rightarrow> LocatorTree \<Rightarrow> LocatorKey \<Rightarrow> LocatorValue option \<Rightarrow> int \<Rightarrow> (LocatorTree \<times> int LocatorUpdate) result" where
  "InsertWithUpdate H n tree key value currPage =
     rbind (tree_insert H n n key value tree currPage []) (\<lambda>(tree, updates).
       Inr (tree, \<lparr>luPages = updates_pages tree updates, luRootPageID = ltRootPageID tree, luRootHash = ltRootHash tree,
         luNextPageID = ltNextPageID tree, luHeight = ltHeight tree, luRecordCount = ltLeafCount tree\<rparr>))"

definition tree_Insert ::
  "hash_fn \<Rightarrow> nat \<Rightarrow> LocatorTree \<Rightarrow> LocatorKey \<Rightarrow> LocatorValue option \<Rightarrow> int \<Rightarrow> (LocatorTree \<times> int Page list) result" where
  "tree_Insert H n tree key value currPage =
     rbind (InsertWithUpdate H n tree key value currPage) (\<lambda>(tree, update). Inr (tree, luPages update))"

end
