(* ===== verification/Locator_Heap.thy ===== *)
theory Locator_Heap
  imports Locator_Tree
begin

text \<open>
  Locator trees on the heap. \<open>repr\<close> relates a heap and a page to an abstract tree; a tree with a hole
  is a list of frames, from the parent of the hole to the root. The state in the middle of an
  insertion is a subtree in its context (\<open>zipper\<close>), where only the pages on the path to the root may
  have hashes that are out of date.
\<close>

section \<open>Trees on the heap\<close>

fun bid :: "btree \<Rightarrow> int" where
  "bid (BLeaf i n es) = i"
| "bid (BNode i ks ts) = i"

fun bids :: "btree \<Rightarrow> int list" where
  "bids (BLeaf i n es) = [i]"
| "bids (BNode i ks ts) = i # concat (map bids ts)"

definition leaf_page :: "int Page \<Rightarrow> int option \<Rightarrow> int option \<Rightarrow> (LocatorKey \<times> LocatorValue option) list \<Rightarrow> bool" where
  "leaf_page page par n es \<longleftrightarrow> pgIsLeaf page \<and> pgKeys page = map fst es \<and> pgValues page = map snd es \<and> pgNext page = n \<and>
     pgParent page = par \<and> pgParentPageID page = par \<and> pgChildren page = []"

definition node_page :: "int Page \<Rightarrow> int option \<Rightarrow> LocatorKey list \<Rightarrow> int list \<Rightarrow> bool" where
  "node_page page par ks cs \<longleftrightarrow> \<not> pgIsLeaf page \<and> pgKeys page = ks \<and> pgChildren page = cs \<and> pgValues page = [] \<and>
     pgNext page = None \<and> pgParent page = par \<and> pgParentPageID page = par"

fun repr :: "heap \<Rightarrow> int option \<Rightarrow> btree \<Rightarrow> bool" where
  "repr h par (BLeaf i n es) \<longleftrightarrow> leaf_page (h i) par n es"
| "repr h par (BNode i ks ts) \<longleftrightarrow> node_page (h i) par ks (map bid ts) \<and> (\<forall>t \<in> set ts. repr h (Some i) t)"

fun hashed :: "hash_fn \<Rightarrow> heap \<Rightarrow> btree \<Rightarrow> bool" where
  "hashed H h (BLeaf i n es) \<longleftrightarrow> pgHash (h i) = bhash H (BLeaf i n es)"
| "hashed H h (BNode i ks ts) \<longleftrightarrow> pgHash (h i) = bhash H (BNode i ks ts) \<and> (\<forall>t \<in> set ts. hashed H h t)"

definition addressed :: "heap \<Rightarrow> bool" where
  "addressed h \<longleftrightarrow> (\<forall>p. pgPageID (h p) = p)"

lemma hashed_root: "hashed H h t \<Longrightarrow> pgHash (h (bid t)) = bhash H t"
  by (cases t) auto

lemma bid_in_bids [simp]: "bid t \<in> set (bids t)"
  by (cases t) auto

text \<open>A page up to its hash.\<close>

definition same_but_hash :: "int Page \<Rightarrow> int Page \<Rightarrow> bool" where
  "same_but_hash a b \<longleftrightarrow> a\<lparr>pgHash := 0\<rparr> = b\<lparr>pgHash := 0\<rparr>"

lemma same_but_hash_simps [simp]: "same_but_hash a a" "same_but_hash a (a\<lparr>pgHash := x\<rparr>)"
  by (simp_all add: same_but_hash_def)

lemma same_but_hash_page:
  assumes "same_but_hash a b"
  shows "leaf_page a par n es = leaf_page b par n es" and "node_page a par ks cs = node_page b par ks cs"
    and "pgParent a = pgParent b" and "pgChildren a = pgChildren b" and "pgIsLeaf a = pgIsLeaf b" and "pgKeys a = pgKeys b"
  using assms by (cases a; cases b; auto simp: same_but_hash_def leaf_page_def node_page_def)+

lemma repr_cong: "(\<And>i. i \<in> set (bids t) \<Longrightarrow> same_but_hash (h i) (h' i)) \<Longrightarrow> repr h par t = repr h' par t"
proof (induction t arbitrary: par)
  case (BNode i ks ts)
  then have "repr h (Some i) t = repr h' (Some i) t" if "t \<in> set ts" for t using that by (intro BNode.IH) auto
  with BNode.prems [of i] show ?case by (auto simp: same_but_hash_page)
qed (auto simp: same_but_hash_page)

lemma repr_eq: "(\<And>i. i \<in> set (bids t) \<Longrightarrow> h i = h' i) \<Longrightarrow> repr h par t = repr h' par t"
  by (rule repr_cong) simp

lemma hashed_cong: "(\<And>i. i \<in> set (bids t) \<Longrightarrow> pgHash (h i) = pgHash (h' i)) \<Longrightarrow> hashed H h t = hashed H h' t"
proof (induction t)
  case (BNode i ks ts)
  then have "hashed H h t = hashed H h' t" if "t \<in> set ts" for t using that by (intro BNode.IH) auto
  with BNode.prems [of i] show ?case by auto
qed auto

text \<open>Only the topmost page of a subtree knows the parent.\<close>

lemma repr_new_parent:
  assumes "repr h par t" and "distinct (bids t)" and "\<And>i. i \<in> set (bids t) - {bid t} \<Longrightarrow> same_but_hash (h i) (h' i)"
    and "same_but_hash (h' (bid t)) ((h (bid t))\<lparr>pgParent := par', pgParentPageID := par'\<rparr>)"
  shows "repr h' par' t"
proof (cases t)
  case (BLeaf i n es)
  with assms(1) same_but_hash_page(1) [OF assms(4)] show ?thesis by (simp add: leaf_page_def)
next
  case (BNode i ks ts)
  have "repr h' (Some i) s" if "s \<in> set ts" for s
  proof -
    have "repr h (Some i) s" using assms(1) BNode that by simp
    moreover have "same_but_hash (h j) (h' j)" if "j \<in> set (bids s)" for j
      using that \<open>s \<in> set ts\<close> assms(2,3) BNode by auto
    ultimately show ?thesis using repr_cong [of s h h'] by blast
  qed
  with assms(1) same_but_hash_page(2) [OF assms(4)] BNode show ?thesis by (auto simp: node_page_def)
qed

section \<open>Contexts\<close>

type_synonym frame = "int \<times> (btree \<times> LocatorKey) list \<times> (LocatorKey \<times> btree) list"

fun fnode :: "btree \<Rightarrow> frame \<Rightarrow> btree" where
  "fnode x (i, L, R) = BNode i (map snd L @ map fst R) (map fst L @ x # map snd R)"

fun plug :: "btree \<Rightarrow> frame list \<Rightarrow> btree" where
  "plug x [] = x"
| "plug x (f # fs) = plug (fnode x f) fs"

fun fparent :: "frame list \<Rightarrow> int option" where
  "fparent [] = None"
| "fparent ((i, L, R) # fs) = Some i"

definition siblings :: "frame \<Rightarrow> btree list" where
  "siblings = (\<lambda>(i, L, R). map fst L @ map snd R)"

definition frame_page :: "heap \<Rightarrow> int option \<Rightarrow> int \<Rightarrow> frame \<Rightarrow> bool" where
  "frame_page h par c = (\<lambda>(i, L, R). node_page (h i) par (map snd L @ map fst R) (map (bid \<circ> fst) L @ c # map (bid \<circ> snd) R) \<and>
     (\<forall>t \<in> set (siblings (i, L, R)). repr h (Some i) t))"

fun crepr :: "heap \<Rightarrow> int \<Rightarrow> frame list \<Rightarrow> bool" where
  "crepr h c [] \<longleftrightarrow> True"
| "crepr h c ((i, L, R) # fs) \<longleftrightarrow> frame_page h (fparent fs) c (i, L, R) \<and> crepr h i fs"

definition fids :: "frame \<Rightarrow> int list" where
  "fids f = fst f # concat (map bids (siblings f))"

definition cids :: "frame list \<Rightarrow> int list" where
  "cids fs = concat (map fids fs)"

definition chashed :: "hash_fn \<Rightarrow> heap \<Rightarrow> frame list \<Rightarrow> bool" where
  "chashed H h fs \<longleftrightarrow> (\<forall>f \<in> set fs. \<forall>t \<in> set (siblings f). hashed H h t)"

lemma cids_Cons [simp]: "cids (f # fs) = fids f @ cids fs" "cids [] = []"
  by (simp_all add: cids_def)

lemma chashed_Cons [simp]: "chashed H h (f # fs) \<longleftrightarrow> (\<forall>t \<in> set (siblings f). hashed H h t) \<and> chashed H h fs" "chashed H h []"
  by (simp_all add: chashed_def)

lemma bid_fnode [simp]: "bid (fnode x (i, L, R)) = i"
  by simp

lemma repr_fnode: "repr h par (fnode x (i, L, R)) \<longleftrightarrow> repr h (Some i) x \<and> frame_page h par (bid x) (i, L, R)"
  by (auto simp: frame_page_def siblings_def comp_def)

lemma repr_plug: "repr h None (plug x fs) \<longleftrightarrow> repr h (fparent fs) x \<and> crepr h (bid x) fs"
proof (induction fs arbitrary: x)
  case (Cons f fs)
  obtain i L R where f: "f = (i, L, R)" by (cases f)
  have "repr h None (plug x (f # fs)) \<longleftrightarrow> repr h (fparent fs) (fnode x f) \<and> crepr h (bid (fnode x f)) fs"
    using Cons.IH by simp
  then show ?case unfolding f repr_fnode by (auto simp del: fnode.simps)
qed simp

lemma mset_bids_fnode: "mset (bids (fnode x f)) = mset (bids x) + mset (fids f)"
  by (cases f) (auto simp: fids_def siblings_def)

lemma mset_bids_plug: "mset (bids (plug x fs)) = mset (bids x) + mset (cids fs)"
  by (induction fs arbitrary: x) (simp_all add: mset_bids_fnode)

lemma distinct_plug: "distinct (bids (plug x fs)) \<longleftrightarrow> distinct (bids x @ cids fs)"
  by (metis mset_append mset_bids_plug mset_eq_imp_distinct_iff)

lemma set_bids_plug: "set (bids (plug x fs)) = set (bids x) \<union> set (cids fs)"
  by (metis mset_append mset_bids_plug set_append set_mset_mset)

lemma hashed_fnode:
  "hashed H h (fnode x f) \<longleftrightarrow> pgHash (h (fst f)) = bhash H (fnode x f) \<and> hashed H h x \<and> (\<forall>t \<in> set (siblings f). hashed H h t)"
  by (cases f) (auto simp: siblings_def)

lemma frame_page_cong:
  assumes "\<And>i. i \<in> set (fids f) \<Longrightarrow> same_but_hash (h i) (h' i)"
  shows "frame_page h par c f = frame_page h' par c f"
proof -
  obtain i L R where f: "f = (i, L, R)" by (cases f)
  have "repr h (Some i) t = repr h' (Some i) t" if "t \<in> set (siblings f)" for t
    using that assms by (intro repr_cong) (auto simp: fids_def)
  moreover have "same_but_hash (h i) (h' i)" using assms by (simp add: fids_def f)
  ultimately show ?thesis by (auto simp: frame_page_def f same_but_hash_page)
qed

lemma crepr_cong:
  "(\<And>i. i \<in> set (cids fs) \<Longrightarrow> same_but_hash (h i) (h' i)) \<Longrightarrow> crepr h c fs = crepr h' c fs"
proof (induction fs arbitrary: c)
  case (Cons f fs)
  then show ?case using frame_page_cong [of f h h'] by (cases f) auto
qed simp

lemma chashed_cong: "(\<And>i. i \<in> set (cids fs) \<Longrightarrow> pgHash (h i) = pgHash (h' i)) \<Longrightarrow> chashed H h fs = chashed H h' fs"
proof -
  assume eq: "\<And>i. i \<in> set (cids fs) \<Longrightarrow> pgHash (h i) = pgHash (h' i)"
  have "hashed H h t = hashed H h' t" if "f \<in> set fs" "t \<in> set (siblings f)" for f t
    using that by (intro hashed_cong eq) (auto simp: cids_def fids_def)
  then show ?thesis by (auto simp: chashed_def)
qed

section \<open>Rehashing the path to the root\<close>

text \<open>The pages on the path and the updates that name every page.\<close>

definition named :: "pageUpdates \<Rightarrow> bool" where
  "named updates \<longleftrightarrow> gm_wf updates \<and> (\<forall>(a, b) \<in> set updates. a = b)"

definition covered :: "pageUpdates \<Rightarrow> pageUpdates \<Rightarrow> heap \<Rightarrow> heap \<Rightarrow> bool" where
  "covered updates updates' h h' \<longleftrightarrow> named updates' \<and> set (gm_keys updates) \<subseteq> set (gm_keys updates') \<and>
     (\<forall>p. p \<notin> set (gm_keys updates') \<longrightarrow> h' p = h p)"

lemma named_add:
  assumes "named updates" and "addressed (ltHeap tree)"
  shows "named (updates_add tree updates p)" and "set (gm_keys (updates_add tree updates p)) = insert p (set (gm_keys updates))"
proof -
  have "updates_add tree updates p = gm_put p p updates" using assms(2) by (simp add: updates_add_def addressed_def)
  moreover have "set (gm_put p p updates) \<subseteq> insert (p, p) (set updates)" by (induction updates) auto
  ultimately show "named (updates_add tree updates p)" using assms(1) by (auto simp: named_def)
  show "set (gm_keys (updates_add tree updates p)) = insert p (set (gm_keys updates))"
    unfolding \<open>updates_add tree updates p = gm_put p p updates\<close> by (rule gm_keys_put)
qed

lemma covered_trans: "covered u v h h' \<Longrightarrow> covered v w h' h'' \<Longrightarrow> covered u w h h''"
  unfolding covered_def by (metis subset_iff)

lemma covered_refl: "named u \<Longrightarrow> covered u u h h"
  by (simp add: covered_def)

fun bchildren :: "btree \<Rightarrow> btree list" where
  "bchildren (BLeaf i n es) = []"
| "bchildren (BNode i ks ts) = ts"

lemma hashed_children: "hashed H h t \<longleftrightarrow> pgHash (h (bid t)) = bhash H t \<and> (\<forall>s \<in> set (bchildren t). hashed H h s)"
  by (cases t) auto

lemma child_ids: "s \<in> set (bchildren t) \<Longrightarrow> i \<in> set (bids s) \<Longrightarrow> i \<in> set (bids t)"
  by (cases t) auto

lemma child_not_root: "distinct (bids t) \<Longrightarrow> s \<in> set (bchildren t) \<Longrightarrow> bid t \<notin> set (bids s)"
  by (cases t) auto

lemma ltHeap_set_page [simp]: "ltHeap (set_page p f tree) = (ltHeap tree)(p := f (ltHeap tree p))"
  by (simp add: set_page_def)

lemma set_page_fields [simp]: "ltNextPageID (set_page p f tree) = ltNextPageID tree" "ltHeight (set_page p f tree) = ltHeight tree"
  "ltLeafCount (set_page p f tree) = ltLeafCount tree" "ltOrder (set_page p f tree) = ltOrder tree"
  "ltRootPage (set_page p f tree) = ltRootPage tree"
  by (simp_all add: set_page_def)

lemma deref_next: "addressed h \<Longrightarrow> map_option (prPageID \<circ> deref h) n = n"
  by (cases n) (auto simp: deref_def addressed_def)

lemma deref_children: "\<forall>t \<in> set ts. hashed H h t \<Longrightarrow> map (prHash \<circ> deref h) (map bid ts) = map (bhash H) ts"
  by (simp add: deref_def hashed_root)

lemma rehash_ok:
  assumes "repr (ltHeap tree) par x" and "addressed (ltHeap tree)" and "\<forall>s \<in> set (bchildren x). hashed H (ltHeap tree) s"
  shows "rehash H tree (bid x) = Inr (set_page (bid x) (\<lambda>page. page\<lparr>pgHash := bhash H x\<rparr>) tree)"
proof (cases x)
  case (BLeaf i n es)
  with assms show ?thesis
    by (simp add: rehash_def leafHash_def leaf_page_def deref_next) (simp add: addressed_def)
next
  case (BNode i ks ts)
  with assms deref_children [of ts H "ltHeap tree"] show ?thesis
    by (simp add: rehash_def internalHash_def node_page_def del: map_map)
qed

lemma addressed_set_page: "addressed h \<Longrightarrow> pgPageID (f (h p)) = p \<Longrightarrow> addressed (h(p := f (h p)))"
  by (simp add: addressed_def)

lemma setRoot_ok:
  assumes "addressed (ltHeap tree)" and "pgParent (page_at tree p) = None" and "pgParentPageID (page_at tree p) = None" and "named updates"
  shows "\<exists>tree' updates'. setRoot tree p updates = (tree', updates') \<and> ltHeap tree' = ltHeap tree \<and> ltRootPage tree' = p \<and>
    ltRootPageID tree' = p \<and> ltRootHash tree' = pgHash (page_at tree p) \<and> ltNextPageID tree' = ltNextPageID tree \<and>
    ltHeight tree' = ltHeight tree \<and> ltLeafCount tree' = ltLeafCount tree \<and> ltOrder tree' = ltOrder tree \<and>
    named updates' \<and> set (gm_keys updates') = insert p (set (gm_keys updates))"
proof -
  let ?t1 = "set_page p (\<lambda>page. page\<lparr>pgParent := None, pgParentPageID := None\<rparr>) tree"
  let ?t2 = "?t1\<lparr>ltRootPageID := pgPageID (page_at ?t1 p), ltRootHash := pgHash (page_at ?t1 p), ltRootPage := p\<rparr>"
  have h: "ltHeap ?t2 = ltHeap tree" using assms(2,3) by (auto simp: fun_eq_iff)
  then have "named (updates_add ?t2 updates p)" "set (gm_keys (updates_add ?t2 updates p)) = insert p (set (gm_keys updates))"
    using named_add [OF assms(4), of ?t2] assms(1) by auto
  moreover have "setRoot tree p updates = (?t2, updates_add ?t2 updates p)" by (simp add: setRoot_def Let_def)
  moreover have "pgPageID (page_at tree p) = p" using assms(1) by (simp add: addressed_def)
  ultimately show ?thesis using h by simp
qed

lemma updatePathHashes_ok:
  assumes "addressed (ltHeap tree)" and "repr (ltHeap tree) (fparent fs) x" and "crepr (ltHeap tree) (bid x) fs"
    and "distinct (bids x @ cids fs)" and "chashed H (ltHeap tree) fs" and "\<forall>s \<in> set (bchildren x). hashed H (ltHeap tree) s"
    and "length fs \<le> n" and "named updates"
  shows "\<exists>tree' updates'. updatePathHashes H n tree (bid x) updates = Inr (tree', updates') \<and> addressed (ltHeap tree') \<and>
    repr (ltHeap tree') None (plug x fs) \<and> hashed H (ltHeap tree') (plug x fs) \<and> ltRootPage tree' = bid (plug x fs) \<and>
    ltRootPageID tree' = bid (plug x fs) \<and> ltRootHash tree' = bhash H (plug x fs) \<and> ltNextPageID tree' = ltNextPageID tree \<and>
    ltHeight tree' = ltHeight tree \<and> ltLeafCount tree' = ltLeafCount tree \<and> ltOrder tree' = ltOrder tree \<and>
    covered updates updates' (ltHeap tree) (ltHeap tree') \<and> bid x \<in> set (gm_keys updates')"
  using assms
proof (induction fs arbitrary: x tree updates n)
  case Nil
  let ?t1 = "set_page (bid x) (\<lambda>page. page\<lparr>pgHash := bhash H x\<rparr>) tree"
  let ?u1 = "updates_add ?t1 updates (bid x)"
  have h1: "addressed (ltHeap ?t1)" using Nil.prems(1) by (simp add: addressed_def)
  have r1: "repr (ltHeap ?t1) None x" using Nil.prems(2) by (subst repr_cong [where h' = "ltHeap tree"]) (auto simp: same_but_hash_def)
  then have par: "pgParent (page_at ?t1 (bid x)) = None" "pgParentPageID (page_at ?t1 (bid x)) = None"
    by (cases x; simp add: leaf_page_def node_page_def)+
  have kids: "hashed H (ltHeap ?t1) s" if "s \<in> set (bchildren x)" for s
    using that Nil.prems(4,6) child_not_root [of x s] by (subst hashed_cong [where h' = "ltHeap tree"]) auto
  have hx: "hashed H (ltHeap ?t1) x" using kids by (subst hashed_children) simp
  note u1 = named_add [OF Nil.prems(8) h1, of "bid x"]
  obtain t2 u2 where s: "setRoot ?t1 (bid x) ?u1 = (t2, u2)" "ltHeap t2 = ltHeap ?t1" "ltRootPage t2 = bid x" "ltRootPageID t2 = bid x"
    "ltRootHash t2 = bhash H x" "ltNextPageID t2 = ltNextPageID tree" "ltHeight t2 = ltHeight tree" "ltLeafCount t2 = ltLeafCount tree"
    "ltOrder t2 = ltOrder tree" "named u2" "set (gm_keys u2) = insert (bid x) (set (gm_keys ?u1))"
    using setRoot_ok [OF h1 par u1(1)] by auto
  have "updatePathHashes H n tree (bid x) updates = Inr (t2, u2)"
    using rehash_ok [OF Nil.prems(2,1,6)] par(1) s(1) by (subst updatePathHashes.simps) (simp add: Let_def)
  moreover have "covered updates u2 (ltHeap tree) (ltHeap t2)"
    unfolding covered_def s(2,11) u1(2) using s(10) by auto
  ultimately show ?case using h1 r1 hx s by auto
next
  case (Cons f fs)
  obtain i L R where f: "f = (i, L, R)" by (cases f)
  define t1 where "t1 = set_page (bid x) (\<lambda>page. page\<lparr>pgHash := bhash H x\<rparr>) tree"
  define u1 where "u1 = updates_add t1 updates (bid x)"
  have heap1: "ltHeap t1 = (ltHeap tree)(bid x := (page_at tree (bid x))\<lparr>pgHash := bhash H x\<rparr>)" by (simp add: t1_def)
  have fields1: "ltNextPageID t1 = ltNextPageID tree" "ltHeight t1 = ltHeight tree" "ltLeafCount t1 = ltLeafCount tree" "ltOrder t1 = ltOrder tree"
    by (simp_all add: t1_def)
  have h1: "addressed (ltHeap t1)" using Cons.prems(1) by (simp add: addressed_def heap1)
  have sb: "same_but_hash (ltHeap tree p) (ltHeap t1 p)" for p by (auto simp: same_but_hash_def heap1)
  have "repr (ltHeap tree) (Some i) x = repr (ltHeap t1) (Some i) x" by (rule repr_cong) (rule sb)
  then have r1: "repr (ltHeap t1) (Some i) x" using Cons.prems(2) by (simp only: f fparent.simps)
  then have par: "pgParent (page_at t1 (bid x)) = Some i" by (cases x) (simp_all add: leaf_page_def node_page_def)
  have kids: "hashed H (ltHeap t1) s" if "s \<in> set (bchildren x)" for s
    using that Cons.prems(4,6) child_not_root [of x s] by (subst hashed_cong [where h' = "ltHeap tree"]) (auto simp: heap1)
  have hx: "hashed H (ltHeap t1) x" using kids by (subst hashed_children) (simp add: heap1)
  have notin: "bid x \<notin> set (cids (f # fs))" using Cons.prems(4) bid_in_bids [of x] by (metis IntI distinct_append empty_iff)
  have ch1: "chashed H (ltHeap t1) (f # fs)"
    using notin Cons.prems(5) by (subst chashed_cong [where h' = "ltHeap tree"]) (auto simp: heap1)
  have ctx: "frame_page (ltHeap t1) (fparent fs) (bid x) f" "crepr (ltHeap t1) i fs"
  proof -
    have "crepr (ltHeap tree) (bid x) (f # fs) = crepr (ltHeap t1) (bid x) (f # fs)" by (rule crepr_cong) (rule sb)
    then show "frame_page (ltHeap t1) (fparent fs) (bid x) f" "crepr (ltHeap t1) i fs"
      using Cons.prems(3) by (simp_all only: f crepr.simps)
  qed
  then have node: "repr (ltHeap t1) (fparent fs) (fnode x f)" using r1 unfolding f repr_fnode by simp
  have dist: "distinct (bids (fnode x f) @ cids fs)"
    using Cons.prems(4) by (metis append_assoc cids_Cons(1) distinct_plug plug.simps(2))
  obtain m where n: "n = Suc m" "length fs \<le> m" using Cons.prems(7) by (cases n) auto
  have nk: "\<forall>s \<in> set (bchildren (fnode x f)). hashed H (ltHeap t1) s"
    using hx ch1 by (auto simp: f siblings_def)
  note n1 = named_add [OF Cons.prems(8) h1, of "bid x", folded u1_def]
  have i: "bid (fnode x f) = i" by (simp add: f)
  obtain t2 u2 where IH: "updatePathHashes H m t1 i u1 = Inr (t2, u2)" "addressed (ltHeap t2)"
    "repr (ltHeap t2) None (plug x (f # fs))" "hashed H (ltHeap t2) (plug x (f # fs))" "ltRootPage t2 = bid (plug x (f # fs))"
    "ltRootPageID t2 = bid (plug x (f # fs))" "ltRootHash t2 = bhash H (plug x (f # fs))" "ltNextPageID t2 = ltNextPageID tree"
    "ltHeight t2 = ltHeight tree" "ltLeafCount t2 = ltLeafCount tree" "ltOrder t2 = ltOrder tree"
    "covered u1 u2 (ltHeap t1) (ltHeap t2)"
    using Cons.IH [OF h1 node, unfolded i, OF ctx(2) dist _ nk n(2) n1(1)] ch1 fields1 by auto
  have "updatePathHashes H n tree (bid x) updates = Inr (t2, u2)"
    using rehash_ok [OF Cons.prems(2,1,6)] par IH(1) by (subst updatePathHashes.simps) (simp add: Let_def n(1) t1_def u1_def)
  moreover have "covered updates u1 (ltHeap tree) (ltHeap t1)" unfolding covered_def n1(2) using n1(1) by (auto simp: heap1)
  then have "covered updates u2 (ltHeap tree) (ltHeap t2)" using covered_trans IH(12) by blast
  moreover have "bid x \<in> set (gm_keys u2)" using IH(12) unfolding covered_def n1(2) by blast
  ultimately show ?case using IH by auto
qed

end
