(* ===== verification/Locator_Split.thy ===== *)
theory Locator_Split
  imports Locator_Heap
begin

text \<open>
  The two steps of a split on the heap: taking a page apart, and linking the new right page into the
  parent, which may be a new root.
\<close>

lemma bids_ne: "bids t \<noteq> []"
  by (cases t) auto

lemma addressed_page [simp]: "addressed h \<Longrightarrow> pgPageID (h p) = p"
  by (simp add: addressed_def)

lemma distinct_concat_disjoint:
  "distinct (concat (map f xs)) \<Longrightarrow> x \<in> set xs \<Longrightarrow> y \<in> set xs \<Longrightarrow> x \<noteq> y \<Longrightarrow> set (f x) \<inter> set (f y) = {}"
  by (induction xs) (simp, simp, blast)

lemma distinct_concat_map: "distinct (concat (map f xs)) \<Longrightarrow> (\<And>x. f x \<noteq> []) \<Longrightarrow> distinct xs"
proof (induction xs)
  case (Cons x xs)
  obtain y where "y \<in> set (f x)" using Cons.prems(2) [of x] by (cases "f x") auto
  with Cons.prems(1) have "x \<notin> set xs" by auto
  with Cons show ?case by simp
qed simp

section \<open>Taking a page apart\<close>

lemma adopt_ok:
  assumes "addressed (ltHeap tree)" and "named updates"
  shows "\<exists>tree' updates'. adopt q (tree, updates) cs = (tree', updates') \<and>
    ltHeap tree' = (\<lambda>p. if p \<in> set cs then (ltHeap tree p)\<lparr>pgParent := Some q, pgParentPageID := Some q\<rparr> else ltHeap tree p) \<and>
    ltNextPageID tree' = ltNextPageID tree \<and> ltHeight tree' = ltHeight tree \<and> ltLeafCount tree' = ltLeafCount tree \<and>
    ltOrder tree' = ltOrder tree \<and> named updates' \<and> set (gm_keys updates') = set cs \<union> set (gm_keys updates)"
  using assms
proof (induction cs arbitrary: tree updates)
  case (Cons c cs)
  let ?t1 = "set_parent q c tree"
  have h1: "ltHeap ?t1 = (ltHeap tree)(c := (ltHeap tree c)\<lparr>pgParent := Some q, pgParentPageID := Some q\<rparr>)"
    using Cons.prems(1) by (simp add: set_parent_def pageIDPointer_def)
  have f1: "ltNextPageID ?t1 = ltNextPageID tree" "ltHeight ?t1 = ltHeight tree" "ltLeafCount ?t1 = ltLeafCount tree" "ltOrder ?t1 = ltOrder tree"
    by (simp_all add: set_parent_def)
  have a1: "addressed (ltHeap ?t1)" using Cons.prems(1) unfolding h1 by (simp add: addressed_def)
  note u1 = named_add [OF Cons.prems(2) a1, of c]
  obtain t2 u2 where t2: "adopt q (?t1, updates_add ?t1 updates c) cs = (t2, u2)"
    "ltHeap t2 = (\<lambda>p. if p \<in> set cs then (ltHeap ?t1 p)\<lparr>pgParent := Some q, pgParentPageID := Some q\<rparr> else ltHeap ?t1 p)"
    "ltNextPageID t2 = ltNextPageID ?t1" "ltHeight t2 = ltHeight ?t1" "ltLeafCount t2 = ltLeafCount ?t1" "ltOrder t2 = ltOrder ?t1"
    "named u2" "set (gm_keys u2) = set cs \<union> set (gm_keys (updates_add ?t1 updates c))"
    using Cons.IH [OF a1 u1(1)] by blast
  have "adopt q (tree, updates) (c # cs) = (t2, u2)" using t2(1) by (simp add: Let_def)
  moreover have "ltHeap t2 = (\<lambda>p. if p \<in> set (c # cs) then (ltHeap tree p)\<lparr>pgParent := Some q, pgParentPageID := Some q\<rparr> else ltHeap tree p)"
    unfolding t2(2) h1 by (auto simp: fun_eq_iff)
  ultimately show ?case using t2(3-7) f1 t2(8) u1(2) by auto
qed auto

lemma set_page_cong: "f (page_at tree p) = g (page_at tree p) \<Longrightarrow> set_page p f tree = set_page p g tree"
  by (simp add: set_page_def)

text \<open>The two halves of a node.\<close>

definition left_half :: "nat \<Rightarrow> btree \<Rightarrow> btree" where
  "left_half mid t = (case t of BNode i ks ts \<Rightarrow> BNode i (take mid ks) (take (mid + 1) ts) | _ \<Rightarrow> t)"

definition right_half :: "nat \<Rightarrow> int \<Rightarrow> btree \<Rightarrow> btree" where
  "right_half mid q t = (case t of BNode i ks ts \<Rightarrow> BNode q (drop (mid + 1) ks) (drop (mid + 1) ts) | _ \<Rightarrow> t)"

definition hash_of_node :: "hash_fn \<Rightarrow> heap \<Rightarrow> LocatorKey list \<Rightarrow> btree list \<Rightarrow> hash" where
  "hash_of_node H h ks ts = H (internal_input ks (map (\<lambda>t. pgHash (h (bid t))) ts))"

lemma split_page_ok:
  assumes "addressed (ltHeap tree)" and "named updates" and "repr (ltHeap tree) par (BNode i ks ts)"
    and "distinct (bids (BNode i ks ts))" and "ltNextPageID tree \<notin> set (bids (BNode i ks ts))"
    and "length ts = length ks + 1" and "ks \<noteq> []" and mid: "mid = length ks div 2" and q: "q = ltNextPageID tree"
    and "wrap64 (ltNextPageID tree + 1) = ltNextPageID tree + 1"
  shows "\<exists>tree' updates'. split_page H tree i updates = Inr (tree', q, ks ! mid, updates') \<and> addressed (ltHeap tree') \<and>
    repr (ltHeap tree') par (left_half mid (BNode i ks ts)) \<and> repr (ltHeap tree') par (right_half mid q (BNode i ks ts)) \<and>
    (\<forall>p. p \<noteq> i \<longrightarrow> p \<noteq> q \<longrightarrow> pgHash (ltHeap tree' p) = pgHash (ltHeap tree p)) \<and>
    (\<forall>p. p \<noteq> i \<longrightarrow> p \<noteq> q \<longrightarrow> p \<notin> bid ` set ts \<longrightarrow> ltHeap tree' p = ltHeap tree p) \<and>
    pgHash (ltHeap tree' i) = hash_of_node H (ltHeap tree) (take mid ks) (take (mid + 1) ts) \<and>
    pgHash (ltHeap tree' q) = hash_of_node H (ltHeap tree) (drop (mid + 1) ks) (drop (mid + 1) ts) \<and>
    ltNextPageID tree' = ltNextPageID tree + 1 \<and> ltHeight tree' = ltHeight tree \<and> ltLeafCount tree' = ltLeafCount tree \<and>
    ltOrder tree' = ltOrder tree \<and> covered updates updates' (ltHeap tree) (ltHeap tree')"
proof -
  let ?h = "ltHeap tree" and ?page = "page_at tree i"
  have page: "node_page ?page par ks (map bid ts)" and kids: "\<And>t. t \<in> set ts \<Longrightarrow> repr ?h (Some i) t" using assms(3) by auto
  have lt: "mid < length ks" using mid assms(7) by simp
  have iq: "i \<noteq> q" and iid: "i \<notin> bid ` set ts" and qid: "q \<notin> bid ` set ts" using assms(4,5) bid_in_bids by (auto simp: q)
  define t1 where "t1 = (set_page q (\<lambda>_. (empty_page q)\<lparr>pgParent := par, pgParentPageID := par,
      pgKeys := drop (mid + 1) ks, pgChildren := drop (mid + 1) (map bid ts)\<rparr>) tree)\<lparr>ltNextPageID := ltNextPageID tree + 1\<rparr>"
  have h1: "ltHeap t1 = ?h(q := (empty_page q)\<lparr>pgParent := par, pgParentPageID := par, pgKeys := drop (mid + 1) ks,
      pgChildren := drop (mid + 1) (map bid ts)\<rparr>)" by (simp add: t1_def)
  have a1: "addressed (ltHeap t1)" using assms(1) unfolding h1 by (simp add: addressed_def empty_page_def)
  let ?cs = "drop (mid + 1) (map bid ts)"
  obtain t2 u1 where t2: "adopt q (t1, updates) ?cs = (t2, u1)"
    "ltHeap t2 = (\<lambda>p. if p \<in> set ?cs then (ltHeap t1 p)\<lparr>pgParent := Some q, pgParentPageID := Some q\<rparr> else ltHeap t1 p)"
    "ltNextPageID t2 = ltNextPageID t1" "ltHeight t2 = ltHeight t1" "ltLeafCount t2 = ltLeafCount t1" "ltOrder t2 = ltOrder t1"
    "named u1" "set (gm_keys u1) = set ?cs \<union> set (gm_keys updates)"
    using adopt_ok [OF a1 assms(2)] by blast
  have cs: "set ?cs \<subseteq> bid ` set ts" by (auto simp: drop_map dest: in_set_dropD)
  have hash2: "pgHash (ltHeap t2 p) = (if p = q then 0 else pgHash (?h p))" for p
    using cs qid unfolding t2(2) h1 by (auto simp: empty_page_def)
  define hr where "hr = hash_of_node H ?h (drop (mid + 1) ks) (drop (mid + 1) ts)"
  define hl where "hl = hash_of_node H ?h (take mid ks) (take (mid + 1) ts)"
  define t3 where "t3 = set_page q (\<lambda>page. page\<lparr>pgHash := hr\<rparr>) t2"
  define t4 where "t4 = set_page i (\<lambda>page. page\<lparr>pgKeys := take mid (pgKeys page), pgChildren := take (mid + 1) (pgChildren page)\<rparr>) t3"
  define t5 where "t5 = set_page i (\<lambda>page. page\<lparr>pgHash := hl\<rparr>) t4"
  have pq2: "ltHeap t2 q = (empty_page q)\<lparr>pgParent := par, pgParentPageID := par, pgKeys := drop (mid + 1) ks,
      pgChildren := drop (mid + 1) (map bid ts)\<rparr>" using cs qid unfolding t2(2) h1 by auto
  have pi2: "ltHeap t2 i = ?page" using cs iid iq unfolding t2(2) h1 by auto
  have bq: "bid t \<noteq> q" if "t \<in> set ts" for t using that qid by auto
  have er: "internalHash H (deref (ltHeap t2)) (ltHeap t2 q) = hr"
  proof -
    have "map (\<lambda>t. pgHash (ltHeap t2 (bid t))) (drop (mid + 1) ts) = map (\<lambda>t. pgHash (?h (bid t))) (drop (mid + 1) ts)"
      by (rule map_cong [OF refl], subst hash2) (simp add: bq [OF in_set_dropD])
    then show ?thesis by (simp add: internalHash_def pq2 hr_def hash_of_node_def deref_def drop_map comp_def cong: map_cong)
  qed
  have el: "internalHash H (deref (ltHeap t4)) (ltHeap t4 i) = hl"
  proof -
    have "pgHash (ltHeap t4 (bid t)) = pgHash (?h (bid t))" if "t \<in> set (take (mid + 1) ts)" for t
      using in_set_takeD [OF that] bq iid by (auto simp: t4_def t3_def hash2)
    then have "map (\<lambda>t. pgHash (ltHeap t4 (bid t))) (take (mid + 1) ts) = map (\<lambda>t. pgHash (?h (bid t))) (take (mid + 1) ts)" by simp
    moreover have "pgKeys (ltHeap t4 i) = take mid ks" "pgChildren (ltHeap t4 i) = map bid (take (mid + 1) ts)"
      using page iq by (simp_all add: t4_def t3_def pi2 node_page_def take_map)
    ultimately show ?thesis by (simp add: internalHash_def hl_def hash_of_node_def deref_def comp_def cong: map_cong)
  qed
  have e3: "set_page q (\<lambda>page. page\<lparr>pgHash := internalHash H (deref (ltHeap t2)) page\<rparr>) t2 = t3"
    unfolding t3_def by (rule set_page_cong) (simp add: er)
  have e5: "set_page i (\<lambda>page. page\<lparr>pgHash := internalHash H (deref (ltHeap t4)) page\<rparr>) t4 = t5"
    unfolding t5_def by (rule set_page_cong) (simp add: el)
  have ptr: "pageIDPointer tree par = par" using assms(1) by (cases par) (auto simp: pageIDPointer_def)
  have pg: "pgKeys ?page = ks" "pgChildren ?page = map bid ts" "pgParent ?page = par" using page by (simp_all add: node_page_def)
  have "pgChildren (page_at t1 q) = ?cs" by (simp add: h1)
  then have run: "split_page H tree i updates = Inr (t5, q, ks ! mid, updates_add t5 (updates_add t5 u1 i) q)"
    unfolding split_page_def Let_def pg ptr mid [symmetric] q [symmetric] assms(10) [folded q] t1_def [folded q, symmetric]
    using lt assms(6) t2(1) by (simp add: e3 t4_def [symmetric] e5 del: ltHeap_set_page One_nat_def Suc_eq_plus1 add_Suc_right)
  have h5: "ltHeap t5 = (\<lambda>p. if p = i then ?page\<lparr>pgKeys := take mid ks, pgChildren := take (mid + 1) (map bid ts), pgHash := hl\<rparr>
      else if p = q then (empty_page q)\<lparr>pgParent := par, pgParentPageID := par, pgKeys := drop (mid + 1) ks, pgChildren := ?cs, pgHash := hr\<rparr>
      else if p \<in> set ?cs then (?h p)\<lparr>pgParent := Some q, pgParentPageID := Some q\<rparr> else ?h p)"
    using page iq pi2 pq2 unfolding t5_def t4_def t3_def by (auto simp: fun_eq_iff node_page_def t2(2) h1)
  have a5: "addressed (ltHeap t5)" using assms(1) unfolding h5 by (simp add: addressed_def empty_page_def)
  have dis: "set (bids s) \<inter> set (bids t) = {}" if "s \<in> set ts" "t \<in> set ts" "s \<noteq> t" for s t
    using assms(4) that by (auto dest: distinct_concat_disjoint [of bids ts s t])
  have ids: "p \<noteq> i \<and> p \<noteq> q" if "t \<in> set ts" "p \<in> set (bids t)" for t p using assms(4,5) that by (auto simp: q)
  have dts: "distinct ts" using assms(4) bids_ne by (auto dest: distinct_concat_map)
  have "repr (ltHeap t5) (Some i) t" if "t \<in> set (take (mid + 1) ts)" for t
  proof -
    have t: "t \<in> set ts" "t \<notin> set (drop (mid + 1) ts)"
      using that dts by (auto dest: in_set_takeD simp: set_take_disj_set_drop_if_distinct disjoint_iff) (meson disjoint_iff le_refl set_take_disj_set_drop_if_distinct that)
    have "p \<notin> set ?cs" if "p \<in> set (bids t)" for p
      using that t dis by (auto simp: drop_map dest: in_set_dropD) (metis bid_in_bids disjoint_iff in_set_dropD)
    then have "repr (ltHeap t5) (Some i) t = repr ?h (Some i) t" using ids [OF t(1)] by (intro repr_eq) (simp add: h5)
    with kids t(1) show ?thesis by simp
  qed
  then have left: "repr (ltHeap t5) par (left_half mid (BNode i ks ts))"
    using page by (simp add: left_half_def h5 node_page_def take_map)
  have "repr (ltHeap t5) (Some q) t" if "t \<in> set (drop (mid + 1) ts)" for t
  proof (rule repr_new_parent)
    have t: "t \<in> set ts" using that by (rule in_set_dropD)
    show "repr ?h (Some i) t" by (rule kids) (rule t)
    show "distinct (bids t)" using assms(4) t by (auto simp: distinct_concat_iff)
    show "same_but_hash (?h p) (ltHeap t5 p)" if "p \<in> set (bids t) - {bid t}" for p
    proof -
      have "p \<notin> set ?cs" using that t dis by (auto simp: drop_map dest: in_set_dropD) (metis bid_in_bids disjoint_iff in_set_dropD)
      with ids [OF t] that show ?thesis by (simp add: h5)
    qed
    have "bid t \<in> set ?cs" using that by (simp add: drop_map)
    then show "same_but_hash (ltHeap t5 (bid t)) ((?h (bid t))\<lparr>pgParent := Some q, pgParentPageID := Some q\<rparr>)"
      using ids [OF t, of "bid t"] by (simp add: h5)
  qed
  then have right: "repr (ltHeap t5) par (right_half mid q (BNode i ks ts))"
    using iq by (simp add: right_half_def h5 node_page_def drop_map empty_page_def)
  note u2 = named_add [OF t2(7) a5, of i]
  note u3 = named_add [OF u2(1) a5, of q]
  have "covered updates (updates_add t5 (updates_add t5 u1 i) q) ?h (ltHeap t5)"
    unfolding covered_def u3(2) u2(2) t2(8) using u3(1) by (auto simp: h5)
  moreover have "pgHash (ltHeap t5 p) = pgHash (?h p)" if "p \<noteq> i" "p \<noteq> q" for p using that by (simp add: h5)
  moreover have "ltHeap t5 p = ?h p" if "p \<noteq> i" "p \<noteq> q" "p \<notin> bid ` set ts" for p using that cs by (auto simp: h5)
  moreover have "pgHash (ltHeap t5 i) = hl" "pgHash (ltHeap t5 q) = hr" using iq by (simp_all add: h5)
  moreover have "ltNextPageID t5 = ltNextPageID tree + 1" "ltHeight t5 = ltHeight tree" "ltLeafCount t5 = ltLeafCount tree" "ltOrder t5 = ltOrder tree"
    using t2(3-6) by (simp_all add: t5_def t4_def t3_def t1_def)
  ultimately show ?thesis using run a5 left right unfolding hl_def hr_def by blast
qed

section \<open>Linking the right page\<close>

lemma index_of_append: "x \<notin> set xs \<Longrightarrow> index_of (xs @ x # ys) x = Some (length xs)"
  by (induction xs) auto

lemma insert_at_append: "insert_at (length xs) x (xs @ ys) = xs @ x # ys" "insert_at (Suc (length xs)) x (xs @ y # ys) = xs @ y # x # ys"
  by (simp_all add: insert_at_def)

lemma repr_parent: "repr h par t \<Longrightarrow> pgParent (h (bid t)) = par \<and> pgParentPageID (h (bid t)) = par"
  by (cases t) (auto simp: leaf_page_def node_page_def)

text \<open>A node with two neighbouring children can be seen from either of them.\<close>

lemma fnode_shift: "fnode r (j, L @ [(l, k)], R) = fnode l (j, L, (k, r) # R)"
  by simp

lemma insert_child_ok:
  assumes "addressed (ltHeap tree)" and "named updates" and "repr (ltHeap tree) (Some j) l" and "repr (ltHeap tree) (Some j) r"
    and "crepr (ltHeap tree) (bid l) ((j, L, R) # fs)" and "distinct (bids l @ bids r @ cids ((j, L, R) # fs))"
  shows "\<exists>tree' updates'. link_parent H tree (bid l) (bid r) k updates = Inr (tree', j, updates') \<and> addressed (ltHeap tree') \<and>
    repr (ltHeap tree') (fparent fs) (fnode l (j, L, (k, r) # R)) \<and> crepr (ltHeap tree') j fs \<and>
    (\<forall>p. pgHash (ltHeap tree' p) = pgHash (ltHeap tree p)) \<and> ltNextPageID tree' = ltNextPageID tree \<and> ltHeight tree' = ltHeight tree \<and>
    ltLeafCount tree' = ltLeafCount tree \<and> ltOrder tree' = ltOrder tree \<and> covered updates updates' (ltHeap tree) (ltHeap tree')"
proof -
  let ?h = "ltHeap tree"
  have page: "node_page (?h j) (fparent fs) (map snd L @ map fst R) (map (bid \<circ> fst) L @ bid l # map (bid \<circ> snd) R)"
    and sib: "\<And>t. t \<in> set (siblings (j, L, R)) \<Longrightarrow> repr ?h (Some j) t" and up: "crepr ?h j fs"
    using assms(5) by (auto simp: frame_page_def)
  have fresh: "bid l \<notin> set (map (bid \<circ> fst) L)"
  proof
    assume "bid l \<in> set (map (bid \<circ> fst) L)"
    then obtain e where "e \<in> set L" "bid l = bid (fst e)" by auto
    then have "bid l \<in> set (cids ((j, L, R) # fs))" using bid_in_bids [of "fst e"]
      by (auto simp: fids_def siblings_def simp del: bid_in_bids)
    moreover have "set (bids l) \<inter> set (cids ((j, L, R) # fs)) = {}" using assms(6) by (auto simp del: cids_Cons)
    ultimately show False by (meson bid_in_bids disjoint_iff)
  qed
  have jn: "j \<notin> set (bids l)" "j \<notin> set (bids r)" "\<And>t. t \<in> set (siblings (j, L, R)) \<Longrightarrow> j \<notin> set (bids t)" "j \<notin> set (cids fs)"
    using assms(6) by (auto simp: fids_def)
  define t1 where "t1 = set_page j (\<lambda>page. page\<lparr>pgKeys := insert_at (length L) k (pgKeys page),
      pgChildren := insert_at (length L + 1) (bid r) (pgChildren page)\<rparr>) tree"
  define t2 where "t2 = set_parent j (bid r) t1"
  have jr: "j \<noteq> bid r" using jn(2) bid_in_bids by metis
  have h2: "ltHeap t2 = ?h(j := (?h j)\<lparr>pgKeys := map snd L @ k # map fst R,
      pgChildren := map (bid \<circ> fst) L @ bid l # bid r # map (bid \<circ> snd) R\<rparr>)"
    using page assms(1) repr_parent [OF assms(4)] jr insert_at_append(1) [of "map snd L"] insert_at_append(2) [of "map (bid \<circ> fst) L"]
    by (auto simp: t2_def t1_def set_parent_def pageIDPointer_def node_page_def fun_eq_iff)
  have a2: "addressed (ltHeap t2)" using assms(1) by (simp add: h2 addressed_def)
  have run: "link_parent H tree (bid l) (bid r) k updates = Inr (t2, j, updates_add t2 (updates_add t2 updates j) (bid r))"
    using page repr_parent [OF assms(3)] index_of_append [OF fresh]
    by (simp add: link_parent_def insert_child_def node_page_def Let_def t2_def t1_def)
  have keep: "repr (ltHeap t2) (Some j) t \<longleftrightarrow> repr ?h (Some j) t" if "j \<notin> set (bids t)" for t
    using that by (intro repr_eq) (auto simp: h2)
  have "repr (ltHeap t2) (fparent fs) (fnode l (j, L, (k, r) # R))"
    unfolding repr_fnode frame_page_def
    using page keep [OF jn(1)] keep [OF jn(2)] keep [OF jn(3)] sib assms(3,4) by (auto simp: h2 node_page_def siblings_def)
  moreover have "crepr (ltHeap t2) j fs = crepr ?h j fs" using jn(4) by (intro crepr_cong) (auto simp: h2)
  moreover note u1 = named_add [OF assms(2) a2, of j]
  note u2 = named_add [OF u1(1) a2, of "bid r"]
  have "covered updates (updates_add t2 (updates_add t2 updates j) (bid r)) ?h (ltHeap t2)"
    unfolding covered_def u2(2) u1(2) using u2(1) by (auto simp: h2)
  moreover have "pgHash (ltHeap t2 p) = pgHash (?h p)" for p by (simp add: h2)
  moreover have "ltNextPageID t2 = ltNextPageID tree" "ltHeight t2 = ltHeight tree" "ltLeafCount t2 = ltLeafCount tree" "ltOrder t2 = ltOrder tree"
    by (simp_all add: t2_def t1_def set_parent_def)
  ultimately show ?thesis using run a2 up by blast
qed

lemma new_parent_ok:
  assumes "addressed (ltHeap tree)" and "named updates" and "repr (ltHeap tree) None l" and "repr (ltHeap tree) None r"
    and "distinct (bids l @ bids r)" and "j = ltNextPageID tree" and "j \<notin> set (bids l @ bids r)"
    and "wrap64 (j + 1) = j + 1" and "wrap64 (ltHeight tree + 1) = ltHeight tree + 1"
  shows "\<exists>tree' updates'. link_parent H tree (bid l) (bid r) k updates = Inr (tree', j, updates') \<and> addressed (ltHeap tree') \<and>
    repr (ltHeap tree') None (fnode l (j, [], [(k, r)])) \<and>
    (\<forall>p. p \<noteq> j \<longrightarrow> pgHash (ltHeap tree' p) = pgHash (ltHeap tree p)) \<and> ltNextPageID tree' = j + 1 \<and> ltHeight tree' = ltHeight tree + 1 \<and>
    ltLeafCount tree' = ltLeafCount tree \<and> ltOrder tree' = ltOrder tree \<and> covered updates updates' (ltHeap tree) (ltHeap tree')"
proof -
  let ?h = "ltHeap tree"
  have ne: "bid l \<noteq> j" "bid r \<noteq> j" using assms(7) bid_in_bids by auto
  define np where "np = (empty_page j)\<lparr>pgKeys := [k], pgChildren := [bid l, bid r]\<rparr>"
  define t1 where "t1 = (set_page j (\<lambda>_. np) tree)\<lparr>ltNextPageID := j + 1\<rparr>"
  define t2 where "t2 = set_parent j (bid r) (set_parent j (bid l) t1)"
  define hs where "hs = internalHash H (deref (ltHeap t2)) np"
  define t3 where "t3 = set_page j (\<lambda>page. page\<lparr>pgHash := hs\<rparr>) t2"
  define t4 where "t4 = t3\<lparr>ltHeight := ltHeight tree + 1\<rparr>"
  have h1: "ltHeap t1 = ?h(j := np)" by (simp add: t1_def)
  have np: "pgPageID np = j" "pgParent np = None" "pgParentPageID np = None" by (simp_all add: np_def empty_page_def)
  have h2: "ltHeap t2 = (\<lambda>p. if p = j then np else if p = bid l \<or> p = bid r then (?h p)\<lparr>pgParent := Some j, pgParentPageID := Some j\<rparr> else ?h p)"
    using ne np(1) by (auto simp: t2_def set_parent_def pageIDPointer_def h1 fun_eq_iff)
  have e3: "set_page j (\<lambda>page. page\<lparr>pgHash := internalHash H (deref (ltHeap t2)) page\<rparr>) t2 = t3"
    unfolding t3_def by (rule set_page_cong) (simp add: hs_def h2)
  have h4: "ltHeap t4 = (ltHeap t2)(j := np\<lparr>pgHash := hs\<rparr>)" by (simp add: t4_def t3_def h2)
  have hf: "ltHeight t3 = ltHeight tree" "ltNextPageID t4 = j + 1" "ltHeight t4 = ltHeight tree + 1" "ltLeafCount t4 = ltLeafCount tree"
    "ltOrder t4 = ltOrder tree"
    by (simp_all add: t4_def t3_def t2_def t1_def set_parent_def)
  have a4: "addressed (ltHeap t4)" using assms(1) np(1) by (auto simp: addressed_def h4 h2)
  note u1 = named_add [OF assms(2) a4, of "bid l"]
  note u2 = named_add [OF u1(1) a4, of "bid r"]
  let ?u2 = "updates_add t4 (updates_add t4 updates (bid l)) (bid r)"
  obtain t5 u3 where t5: "setRoot t4 j ?u2 = (t5, u3)" "ltHeap t5 = ltHeap t4" "ltNextPageID t5 = ltNextPageID t4"
    "ltHeight t5 = ltHeight t4" "ltLeafCount t5 = ltLeafCount t4" "ltOrder t5 = ltOrder t4" "named u3"
    "set (gm_keys u3) = insert j (set (gm_keys ?u2))"
    using setRoot_ok [OF a4 _ _ u2(1), of j] np by (auto simp: h4)
  have "pgParent (page_at tree (bid l)) = None" using repr_parent [OF assms(3)] by simp
  then have run: "link_parent H tree (bid l) (bid r) k updates = Inr (t5, j, u3)"
    unfolding link_parent_def new_parent_def Let_def assms(6) [symmetric] np_def [symmetric] assms(8) t1_def [symmetric]
      t2_def [symmetric] e3 hf(1) assms(9) t4_def [symmetric] t5(1) by simp
  have change: "repr (ltHeap t4) (Some j) t" if t: "repr ?h None t" "distinct (bids t)" "bid t \<in> {bid l, bid r}" "j \<notin> set (bids t)"
    "\<And>p. p \<in> set (bids t) \<Longrightarrow> p \<noteq> bid t \<Longrightarrow> p \<noteq> bid l \<and> p \<noteq> bid r" for t
  proof (rule repr_new_parent [OF t(1,2)])
    show "same_but_hash (?h p) (ltHeap t4 p)" if "p \<in> set (bids t) - {bid t}" for p
      using that t(4) t(5) [of p] by (auto simp: h4 h2)
    show "same_but_hash (ltHeap t4 (bid t)) ((?h (bid t))\<lparr>pgParent := Some j, pgParentPageID := Some j\<rparr>)"
      using t(3) ne by (auto simp: h4 h2)
  qed
  have "p \<noteq> bid r" if "p \<in> set (bids l)" for p using that assms(5) bid_in_bids [of r] unfolding distinct_append by blast
  then have "repr (ltHeap t4) (Some j) l" using assms(3,5,7) by (intro change) auto
  moreover have "p \<noteq> bid l" if "p \<in> set (bids r)" for p using that assms(5) bid_in_bids [of l] unfolding distinct_append by blast
  then have "repr (ltHeap t4) (Some j) r" using assms(4,5,7) by (intro change) auto
  ultimately have "repr (ltHeap t4) None (fnode l (j, [], [(k, r)]))" using ne by (simp add: h4 np_def node_page_def empty_page_def)
  moreover have "covered updates u3 ?h (ltHeap t4)" unfolding covered_def t5(8) u2(2) u1(2) using t5(7) by (auto simp: h4 h2)
  moreover have "pgHash (ltHeap t4 p) = pgHash (?h p)" if "p \<noteq> j" for p using that by (simp add: h4 h2)
  ultimately show ?thesis using run a4 t5 hf by auto
qed

end
