(* ===== verification/Locator_Insert.thy ===== *)
theory Locator_Insert
  imports Locator_Split
begin

text \<open>
  Insertion keeps the tree: the state in the middle of an insertion is a subtree in its context
  (\<open>in_place\<close>), and the splits move the context apart without touching the subtree. What the splits
  preserve is read off in order: the leaves, and the keys and separators (\<open>flat\<close>).
\<close>

section \<open>The order and the shape of a tree\<close>

datatype mark = Entry LocatorKey | Sep LocatorKey

fun weave :: "LocatorKey list \<Rightarrow> mark list list \<Rightarrow> mark list" where
  "weave ks [] = []"
| "weave [] (m # ms) = m @ concat ms"
| "weave (k # ks) (m # ms) = m @ Sep k # weave ks ms"

fun flat :: "btree \<Rightarrow> mark list" where
  "flat (BLeaf i n es) = map (Entry \<circ> fst) es"
| "flat (BNode i ks ts) = weave ks (map flat ts)"

fun shape :: "nat \<Rightarrow> nat \<Rightarrow> btree \<Rightarrow> bool" where
  "shape m d (BLeaf i n es) \<longleftrightarrow> d = 0 \<and> es \<noteq> [] \<and> length es < m"
| "shape m d (BNode i ks ts) \<longleftrightarrow> d \<noteq> 0 \<and> ks \<noteq> [] \<and> length ts = length ks + 1 \<and> length ts \<le> m \<and> (\<forall>t \<in> set ts. shape m (d - 1) t)"

definition flat_left :: "(btree \<times> LocatorKey) list \<Rightarrow> mark list" where
  "flat_left L = concat (map (\<lambda>(t, k). flat t @ [Sep k]) L)"

definition flat_right :: "(LocatorKey \<times> btree) list \<Rightarrow> mark list" where
  "flat_right R = concat (map (\<lambda>(k, t). Sep k # flat t) R)"

lemma flat_side_simps [simp]:
  "flat_left [] = []" "flat_left ((t, k) # L) = flat t @ Sep k # flat_left L" "flat_left (L @ L') = flat_left L @ flat_left L'"
  "flat_right [] = []" "flat_right ((k, t) # R) = Sep k # flat t @ flat_right R" "flat_right (R @ R') = flat_right R @ flat_right R'"
  by (simp_all add: flat_left_def flat_right_def)

lemma weave_right: "weave (map fst R) (flat x # map (flat \<circ> snd) R) = flat x @ flat_right R"
  by (induction R arbitrary: x) auto

lemma flat_fnode: "flat (fnode x (i, L, R)) = flat_left L @ flat x @ flat_right R"
proof -
  have "weave (map snd L @ map fst R) (map (flat \<circ> fst) L @ flat x # map (flat \<circ> snd) R) = flat_left L @ flat x @ flat_right R"
  proof (induction L)
    case Nil
    show ?case using weave_right [of R x] by (simp add: comp_def)
  qed auto
  then show ?thesis by simp
qed

lemma bleaves_fnode: "bleaves (fnode x (i, L, R)) = concat (map (bleaves \<circ> fst) L) @ bleaves x @ concat (map (bleaves \<circ> snd) R)"
  by simp

fun frame_flat :: "frame \<Rightarrow> mark list \<times> mark list" where
  "frame_flat (i, L, R) = (flat_left L, flat_right R)"

lemma plug_cong: "bleaves x = bleaves y \<Longrightarrow> flat x = flat y \<Longrightarrow> bleaves (plug x fs) = bleaves (plug y fs) \<and> flat (plug x fs) = flat (plug y fs)"
proof (induction fs arbitrary: x y)
  case (Cons f fs)
  obtain i L R where f: "f = (i, L, R)" by (cases f)
  show ?case using Cons.IH [of "fnode x f" "fnode y f"] Cons.prems flat_fnode [of x i L R] flat_fnode [of y i L R] by (simp add: f)
qed simp

text \<open>Every node of a context has its siblings at the depth of the hole.\<close>

fun cshape :: "nat \<Rightarrow> nat \<Rightarrow> frame list \<Rightarrow> bool" where
  "cshape m d [] \<longleftrightarrow> True"
| "cshape m d (f # fs) \<longleftrightarrow> siblings f \<noteq> [] \<and> length (siblings f) < m \<and> (\<forall>t \<in> set (siblings f). shape m d t) \<and> cshape m (Suc d) fs"

lemma shape_fnode: "shape m (Suc d) (fnode x f) \<longleftrightarrow>
    shape m d x \<and> siblings f \<noteq> [] \<and> length (siblings f) < m \<and> (\<forall>t \<in> set (siblings f). shape m d t)"
  by (cases f) (auto simp: siblings_def)

lemma shape_plug: "shape m d x \<Longrightarrow> cshape m d fs \<Longrightarrow> shape m (d + length fs) (plug x fs)"
proof (induction fs arbitrary: x d)
  case (Cons f fs)
  then have "shape m (Suc d + length fs) (plug (fnode x f) fs)" by (intro Cons.IH) (simp_all add: shape_fnode)
  then show ?case by simp
qed simp

section \<open>A subtree in its context\<close>

definition in_place :: "hash_fn \<Rightarrow> LocatorTree \<Rightarrow> btree \<Rightarrow> frame list \<Rightarrow> bool" where
  "in_place H tree x fs \<longleftrightarrow> addressed (ltHeap tree) \<and> repr (ltHeap tree) (fparent fs) x \<and> crepr (ltHeap tree) (bid x) fs \<and>
     distinct (bids x @ cids fs) \<and> set (bids x @ cids fs) = {0..<ltNextPageID tree} \<and> chashed H (ltHeap tree) fs"

lemma mset_distinct: "mset xs = mset ys \<Longrightarrow> distinct xs = distinct ys \<and> set xs = set ys"
  by (metis mset_eq_imp_distinct_iff set_mset_mset)

lemma in_place_fnode:
  "in_place H tree x (f # fs) \<longleftrightarrow> in_place H tree (fnode x f) fs \<and> (\<forall>t \<in> set (siblings f). hashed H (ltHeap tree) t)"
proof -
  obtain i L R where f: "f = (i, L, R)" by (cases f)
  have "mset (bids x @ cids (f # fs)) = mset (bids (fnode x f) @ cids fs)" by (simp add: mset_bids_fnode)
  note ids = mset_distinct [OF this]
  show ?thesis unfolding in_place_def ids [THEN conjunct1] ids [THEN conjunct2]
    by (auto simp: f repr_fnode simp del: fnode.simps cids_Cons)
qed

text \<open>The parent of a page and the context above it, where a page without a parent gets a new root.\<close>

definition parent_frame :: "int \<Rightarrow> frame list \<Rightarrow> frame" where
  "parent_frame q fs = (case fs of [] \<Rightarrow> (q, [], []) | f # _ \<Rightarrow> f)"

definition add_right :: "LocatorKey \<Rightarrow> btree \<Rightarrow> frame \<Rightarrow> frame" where
  "add_right k r = (\<lambda>(j, L, R). (j, L, (k, r) # R))"

definition add_left :: "btree \<Rightarrow> LocatorKey \<Rightarrow> frame \<Rightarrow> frame" where
  "add_left l k = (\<lambda>(j, L, R). (j, L @ [(l, k)], R))"

lemma fnode_add: "fnode r (add_left l k f) = fnode l (add_right k r f)"
  by (simp add: add_left_def add_right_def split: prod.splits)

definition grows :: "frame list \<Rightarrow> int" where
  "grows fs = (if fs = [] then 1 else 0)"

lemma link_ok:
  assumes "addressed (ltHeap tree)" and "named updates" and "repr (ltHeap tree) (fparent fs) l" and "repr (ltHeap tree) (fparent fs) r"
    and "crepr (ltHeap tree) (bid l) fs" and "distinct (bids l @ bids r @ cids fs)"
    and "set (bids l @ bids r @ cids fs) = {0..<ltNextPageID tree}" and q: "q = ltNextPageID tree"
    and "wrap64 (q + 1) = q + 1" and "wrap64 (ltHeight tree + 1) = ltHeight tree + 1" and "chashed H (ltHeap tree) fs"
  shows "\<exists>tree' updates'. link_parent H tree (bid l) (bid r) k updates = Inr (tree', fst (parent_frame q fs), updates') \<and>
    in_place H tree' (fnode l (add_right k r (parent_frame q fs))) (tl fs) \<and>
    (\<forall>p. p \<noteq> q \<longrightarrow> pgHash (ltHeap tree' p) = pgHash (ltHeap tree p)) \<and> ltNextPageID tree' = q + grows fs \<and>
    ltHeight tree' = ltHeight tree + grows fs \<and>
    ltLeafCount tree' = ltLeafCount tree \<and> ltOrder tree' = ltOrder tree \<and> covered updates updates' (ltHeap tree) (ltHeap tree')"
proof (cases fs)
  case Nil
  have fresh: "q \<notin> set (bids l @ bids r)" using assms(7) Nil by (auto simp: q)
  have d: "distinct (bids l @ bids r)" using assms(6) Nil by simp
  obtain t' u' where t': "link_parent H tree (bid l) (bid r) k updates = Inr (t', q, u')" "addressed (ltHeap t')"
    "repr (ltHeap t') None (fnode l (q, [], [(k, r)]))" "\<forall>p. p \<noteq> q \<longrightarrow> pgHash (ltHeap t' p) = pgHash (ltHeap tree p)"
    "ltNextPageID t' = q + 1" "ltHeight t' = ltHeight tree + 1" "ltLeafCount t' = ltLeafCount tree" "ltOrder t' = ltOrder tree"
    "covered updates u' (ltHeap tree) (ltHeap t')"
    using new_parent_ok [OF assms(1,2) assms(3,4) [unfolded Nil fparent.simps] d q fresh assms(9,10), of H k] by blast
  have "bid l \<in> {0..<q}" unfolding q assms(7) [symmetric] by simp
  then have "0 \<le> q" by simp
  then have "{0..<q + 1} = insert q {0..<q}" by auto
  then have "insert q (set (bids l) \<union> set (bids r)) = {0..<q + 1}" using assms(7) Nil by (simp add: q)
  then have "in_place H t' (fnode l (q, [], [(k, r)])) []"
    unfolding in_place_def using t'(2,3,5) d fresh by (auto simp: fids_def)
  with t' Nil show ?thesis by (simp add: parent_frame_def add_right_def grows_def del: fnode.simps)
next
  case (Cons f fs')
  obtain j L R where f: "f = (j, L, R)" by (cases f)
  let ?y = "fnode l (j, L, (k, r) # R)"
  obtain t' u' where t': "link_parent H tree (bid l) (bid r) k updates = Inr (t', j, u')" "addressed (ltHeap t')"
    "repr (ltHeap t') (fparent fs') ?y" "crepr (ltHeap t') j fs'" "\<forall>p. pgHash (ltHeap t' p) = pgHash (ltHeap tree p)"
    "ltNextPageID t' = q" "ltHeight t' = ltHeight tree" "ltLeafCount t' = ltLeafCount tree" "ltOrder t' = ltOrder tree"
    "covered updates u' (ltHeap tree) (ltHeap t')"
    using insert_child_ok [OF assms(1,2), of j l r L R fs' H k] assms(3-6) Cons f q by auto
  have "mset (bids l @ bids r @ cids fs) = mset (bids ?y @ cids fs')"
    unfolding Cons f by (simp add: mset_bids_fnode fids_def siblings_def del: fnode.simps)
  note ids = mset_distinct [OF this]
  have "chashed H (ltHeap t') fs'" using assms(11) Cons t'(5) by (subst chashed_cong [where h' = "ltHeap tree"]) auto
  then have "in_place H t' ?y fs'" unfolding in_place_def bid_fnode using t'(2-4,6) assms(6,7) ids q by simp
  with t' Cons f show ?thesis by (simp add: parent_frame_def add_right_def grows_def del: fnode.simps)
qed

section \<open>Splitting a node\<close>

lemma mset_halves:
  assumes "length ts = length ks + 1" and "mid < length ks"
  shows "mset (bids (left_half mid (BNode i ks ts)) @ bids (right_half mid q (BNode i ks ts))) = add_mset q (mset (bids (BNode i ks ts)))"
proof -
  have "ts = take (mid + 1) ts @ drop (mid + 1) ts" by simp
  then have "mset (concat (map bids ts)) = mset (concat (map bids (take (mid + 1) ts))) + mset (concat (map bids (drop (mid + 1) ts)))"
    by (metis concat_append map_append mset_append)
  then show ?thesis by (simp add: left_half_def right_half_def)
qed

text \<open>Where the focus of the node goes, and the half that becomes its sibling.\<close>

lemma halves:
  assumes "mid = (length L + length R) div 2" and "L \<noteq> [] \<or> R \<noteq> []"
  obtains (left) k t a where "R = take a R @ (k, t) # drop (a + 1) R" "length L + a = mid" "(map snd L @ map fst R) ! mid = k"
      "left_half mid (fnode x (i, L, R)) = fnode x (i, L, take a R)" "right_half mid q (fnode x (i, L, R)) = fnode t (q, [], drop (a + 1) R)"
  | (right) k t where "L = take mid L @ (t, k) # drop (mid + 1) L" "mid < length L" "(map snd L @ map fst R) ! mid = k"
      "left_half mid (fnode x (i, L, R)) = fnode t (i, take mid L, [])" "right_half mid q (fnode x (i, L, R)) = fnode x (q, drop (mid + 1) L, R)"
proof (cases "mid < length L")
  case True
  obtain t k where tk: "L ! mid = (t, k)" by (cases "L ! mid")
  have "L = take mid L @ (t, k) # drop (mid + 1) L" using id_take_nth_drop [OF True] tk by simp
  moreover have "(map snd L @ map fst R) ! mid = k" using True tk by (simp add: nth_append)
  moreover have "left_half mid (fnode x (i, L, R)) = fnode t (i, take mid L, [])"
    using True tk by (simp add: left_half_def take_map take_Suc_conv_app_nth)
  moreover have "right_half mid q (fnode x (i, L, R)) = fnode x (q, drop (mid + 1) L, R)"
    using True by (simp add: right_half_def drop_map)
  ultimately show ?thesis using right True by blast
next
  case False
  define a where "a = mid - length L"
  have "mid < length L + length R" using assms by (cases L; cases R) simp_all
  then have a: "length L + a = mid" "a < length R" using False by (simp_all add: a_def)
  have sa: "Suc mid - length L = Suc a" using a(1) by simp
  obtain k t where kt: "R ! a = (k, t)" by (cases "R ! a")
  have "R = take a R @ (k, t) # drop (a + 1) R" using id_take_nth_drop [OF a(2)] kt by simp
  moreover have "(map snd L @ map fst R) ! mid = k" using a kt by (simp add: nth_append a_def [symmetric])
  moreover have "left_half mid (fnode x (i, L, R)) = fnode x (i, L, take a R)"
    using sa by (simp add: left_half_def take_map take_append a_def [symmetric])
  moreover have "right_half mid q (fnode x (i, L, R)) = fnode t (q, [], drop (a + 1) R)"
    using a(1) sa kt Cons_nth_drop_Suc [OF a(2), symmetric]
    by (simp add: right_half_def drop_map drop_append a_def [symmetric])
  ultimately show ?thesis using left a(1) by blast
qed

definition node_hash :: "hash_fn \<Rightarrow> heap \<Rightarrow> btree \<Rightarrow> hash" where
  "node_hash H h t = (case t of BNode i ks ts \<Rightarrow> hash_of_node H h ks ts | BLeaf i n es \<Rightarrow> 0)"

lemma node_hash_ok: "\<forall>t \<in> set ts. hashed H h t \<Longrightarrow> node_hash H h (BNode i ks ts) = bhash H (BNode i ks ts)"
proof -
  assume "\<forall>t \<in> set ts. hashed H h t"
  then have "map (\<lambda>t. pgHash (h (bid t))) ts = map (bhash H) ts" by (auto dest: hashed_root)
  then show ?thesis by (simp only: node_hash_def hash_of_node_def btree.case bhash.simps)
qed

lemma split_step:
  assumes place: "in_place H tree y fs" and "named updates" and y: "y = fnode x (i, L, R)" and "L \<noteq> [] \<or> R \<noteq> []"
    and mid: "mid = (length L + length R) div 2" and q: "q = ltNextPageID tree" and k: "k = (map snd L @ map fst R) ! mid"
    and "q + 2 < 2 ^ 63" and "0 \<le> ltHeight tree" and "ltHeight tree + 1 < 2 ^ 63"
  shows "\<exists>t1 u1 tree' updates'. split_page H tree i updates = Inr (t1, q, k, u1) \<and>
    link_parent H t1 i q k u1 = Inr (tree', fst (parent_frame (q + 1) fs), updates') \<and>
    in_place H tree' (fnode (left_half mid y) (add_right k (right_half mid q y) (parent_frame (q + 1) fs))) (tl fs) \<and>
    (\<forall>p. p \<notin> {i, q, q + 1} \<longrightarrow> pgHash (ltHeap tree' p) = pgHash (ltHeap tree p)) \<and>
    pgHash (ltHeap tree' i) = node_hash H (ltHeap tree) (left_half mid y) \<and>
    pgHash (ltHeap tree' q) = node_hash H (ltHeap tree) (right_half mid q y) \<and>
    ltNextPageID tree' = q + 1 + grows fs \<and> ltHeight tree' = ltHeight tree + grows fs \<and>
    ltLeafCount tree' = ltLeafCount tree \<and> ltOrder tree' = ltOrder tree \<and> covered updates updates' (ltHeap tree) (ltHeap tree')"
proof -
  let ?h = "ltHeap tree"
  define ks where "ks = map snd L @ map fst R"
  define ts where "ts = map fst L @ x # map snd R"
  have yn: "y = BNode i ks ts" by (simp add: y ks_def ts_def)
  have len: "length ts = length ks + 1" "ks \<noteq> []" "mid = length ks div 2" using assms(4) mid by (auto simp: ks_def ts_def)
  then have lt: "mid < length ks" by simp
  from place have a: "addressed ?h" and ry: "repr ?h (fparent fs) (BNode i ks ts)" and cy: "crepr ?h i fs"
    and ids: "distinct (bids y @ cids fs)" "set (bids y @ cids fs) = {0..<q}" and ch: "chashed H ?h fs"
    by (auto simp: in_place_def yn q)
  have "i \<in> {0..<q}" unfolding ids(2) [symmetric] yn by simp
  then have w: "wrap64 (q + 1) = q + 1" "wrap64 (q + 1 + 1) = q + 1 + 1" "i < q" "0 \<le> q"
    using assms(8) by (auto intro!: wrap64_id simp: int64_def)
  have fresh: "q \<notin> set (bids y @ cids fs)" unfolding ids(2) by simp
  have dy: "distinct (bids (BNode i ks ts))" using ids(1) unfolding yn by simp
  have qy: "ltNextPageID tree \<notin> set (bids (BNode i ks ts))" using fresh unfolding yn q by simp
  define l where "l = left_half mid y"
  define r where "r = right_half mid q y"
  have lr: "bid l = i" "bid r = q" by (simp_all add: l_def r_def yn left_half_def right_half_def)
  obtain t1 u1 where t1: "split_page H tree i updates = Inr (t1, q, ks ! mid, u1)" "addressed (ltHeap t1)"
    "repr (ltHeap t1) (fparent fs) l" "repr (ltHeap t1) (fparent fs) r"
    "\<forall>p. p \<noteq> i \<longrightarrow> p \<noteq> q \<longrightarrow> pgHash (ltHeap t1 p) = pgHash (?h p)"
    "\<forall>p. p \<noteq> i \<longrightarrow> p \<noteq> q \<longrightarrow> p \<notin> bid ` set ts \<longrightarrow> ltHeap t1 p = ?h p"
    "pgHash (ltHeap t1 i) = node_hash H ?h l" "pgHash (ltHeap t1 q) = node_hash H ?h r"
    "ltNextPageID t1 = q + 1" "ltHeight t1 = ltHeight tree" "ltLeafCount t1 = ltLeafCount tree" "ltOrder t1 = ltOrder tree"
    "covered updates u1 ?h (ltHeap t1)"
    using split_page_ok [OF a assms(2) ry dy qy len(1,2,3) q, of H] w(1)
    by (auto simp: l_def r_def yn left_half_def right_half_def node_hash_def q)
  have ctx: "ltHeap t1 p = ?h p" if "p \<in> set (cids fs)" for p
  proof -
    have "p \<notin> set (bids y)" using that ids(1) by auto
    then have "p \<noteq> i" "p \<notin> bid ` set ts" using bid_in_bids by (auto simp: yn)
    moreover have "p \<noteq> q" using that fresh by auto
    ultimately show ?thesis using t1(6) by blast
  qed
  have "crepr (ltHeap t1) i fs" using cy ctx by (subst crepr_cong [where h' = ?h]) auto
  moreover have "chashed H (ltHeap t1) fs" using ch ctx by (subst chashed_cong [where h' = ?h]) auto
  moreover have "mset (bids l @ bids r @ cids fs) = mset (q # bids y @ cids fs)"
    using mset_halves [OF len(1) lt, of i q] unfolding l_def r_def yn by simp
  note ids1 = mset_distinct [OF this]
  have "{0..<q + 1} = insert q {0..<q}" using w(4) by auto
  then have "distinct (bids l @ bids r @ cids fs)" "set (bids l @ bids r @ cids fs) = {0..<ltNextPageID t1}"
    unfolding ids1 [THEN conjunct1] ids1 [THEN conjunct2] t1(9) using ids fresh by simp_all
  moreover have wh: "wrap64 (ltHeight t1 + 1) = ltHeight t1 + 1" using assms(9,10) t1(10) by (intro wrap64_id) (simp add: int64_def)
  moreover have n1: "named u1" using t1(13) by (simp add: covered_def)
  ultimately obtain t2 u2 where t2: "link_parent H t1 i q k u1 = Inr (t2, fst (parent_frame (q + 1) fs), u2)"
    "in_place H t2 (fnode l (add_right k r (parent_frame (q + 1) fs))) (tl fs)"
    "\<forall>p. p \<noteq> q + 1 \<longrightarrow> pgHash (ltHeap t2 p) = pgHash (ltHeap t1 p)" "ltNextPageID t2 = q + 1 + grows fs"
    "ltHeight t2 = ltHeight t1 + grows fs" "ltLeafCount t2 = ltLeafCount t1" "ltOrder t2 = ltOrder t1"
    "covered u1 u2 (ltHeap t1) (ltHeap t2)"
    using link_ok [OF t1(2) n1 t1(3,4) _ _ _ t1(9) [symmetric] w(2) wh, of H k, unfolded lr] by blast
  have "pgHash (ltHeap t2 p) = pgHash (?h p)" if "p \<notin> {i, q, q + 1}" for p using that t1(5) t2(3) by simp
  moreover have "pgHash (ltHeap t2 i) = node_hash H ?h l" "pgHash (ltHeap t2 q) = node_hash H ?h r"
    using t2(3) t1(7,8) w(3) by simp_all
  moreover have "split_page H tree i updates = Inr (t1, q, k, u1)" using t1(1) by (simp only: k ks_def)
  moreover have "ltHeight t2 = ltHeight tree + grows fs" "ltLeafCount t2 = ltLeafCount tree" "ltOrder t2 = ltOrder tree"
    using t2(5-7) t1(10-12) by simp_all
  ultimately show ?thesis using t2(1,2,4) covered_trans [OF t1(13) t2(8)] unfolding l_def r_def by blast
qed

definition same_order :: "btree \<Rightarrow> btree \<Rightarrow> bool" where
  "same_order x y \<longleftrightarrow> bleaves x = bleaves y \<and> flat x = flat y"

lemma same_order_plug: "same_order x y \<Longrightarrow> same_order (plug x fs) (plug y fs)"
  using plug_cong unfolding same_order_def by blast

text \<open>A right neighbour in the parent is a node of two at the place of the page.\<close>

lemma add_right_order: "same_order (plug (fnode l (add_right k r (parent_frame q fs))) (tl fs)) (plug (BNode i [k] [l, r]) fs)"
proof (cases fs)
  case (Cons f fs')
  obtain j L R where f: "f = (j, L, R)" by (cases f)
  have "same_order (fnode l (j, L, (k, r) # R)) (fnode (BNode i [k] [l, r]) (j, L, R))"
    unfolding same_order_def flat_fnode bleaves_fnode by simp
  then show ?thesis using same_order_plug by (simp add: Cons f parent_frame_def add_right_def del: fnode.simps)
qed (simp add: same_order_def parent_frame_def add_right_def)

lemma set_siblings_add: "set (siblings (add_right k r f)) = insert r (set (siblings f))" "set (siblings (add_left l k f)) = insert l (set (siblings f))"
  "length (siblings (add_right k r f)) = Suc (length (siblings f))" "length (siblings (add_left l k f)) = Suc (length (siblings f))"
proof -
  obtain j L R where "f = (j, L, R)" by (cases f)
  then show "set (siblings (add_right k r f)) = insert r (set (siblings f))" "set (siblings (add_left l k f)) = insert l (set (siblings f))"
    "length (siblings (add_right k r f)) = Suc (length (siblings f))" "length (siblings (add_left l k f)) = Suc (length (siblings f))"
    by (simp_all add: add_left_def add_right_def siblings_def)
qed

lemma split_cases:
  assumes "n = length L + length R" and "mid = n div 2" and "m = n" and "3 \<le> m" and "\<forall>t \<in> set (siblings (i, L, R)). shape m d t"
    and y: "y = fnode x (i, L, R)" and "k = (map snd L @ map fst R) ! mid"
  obtains fx s g where "\<forall>f. fnode (left_half mid y) (add_right k (right_half mid q y) f) = fnode (fnode x fx) (g f)"
      "(s = right_half mid q y \<and> g = add_right k s) \<or> (s = left_half mid y \<and> g = add_left s k)"
      "set (siblings fx) \<union> set (bchildren s) = set (siblings (i, L, R))" "cshape m d [fx]" "shape m (Suc d) s"
      "same_order (BNode 0 [k] [left_half mid y, right_half mid q y]) y"
proof -
  have ne: "L \<noteq> [] \<or> R \<noteq> []" using assms(1,3,4) by auto
  have mid: "mid = (length L + length R) div 2" using assms(1,2) by simp
  have b: "1 \<le> mid" "mid < n - 1" using assms(2-4) by auto
  show ?thesis
  proof (rule halves [OF mid ne, of x i q])
    fix k' t a
    assume c: "R = take a R @ (k', t) # drop (a + 1) R" "length L + a = mid" "(map snd L @ map fst R) ! mid = k'"
      "left_half mid (fnode x (i, L, R)) = fnode x (i, L, take a R)" "right_half mid q (fnode x (i, L, R)) = fnode t (q, [], drop (a + 1) R)"
    have set: "set (siblings (i, L, R)) = fst ` set L \<union> snd ` set (take a R) \<union> insert t (snd ` set (drop (a + 1) R))"
      using arg_cong [OF c(1), of "\<lambda>xs. set (map snd xs)"] by (auto simp: siblings_def)
    have whole: "concat (map (bleaves \<circ> snd) R) = concat (map (bleaves \<circ> snd) (take a R)) @ bleaves t @ concat (map (bleaves \<circ> snd) (drop (a + 1) R))"
      "flat_right R = flat_right (take a R) @ Sep k' # flat t @ flat_right (drop (a + 1) R)"
      using arg_cong [OF c(1), of "\<lambda>xs. concat (map (bleaves \<circ> snd) xs)"] arg_cong [OF c(1), of flat_right] by simp_all
    have l: "length (take a R) = a" "length (drop (a + 1) R) = n - mid - 1" using b c(2) assms(1) by auto
    show ?thesis
    proof (rule that [of "(i, L, take a R)" "add_right k (right_half mid q y)" "right_half mid q y"])
      show "\<forall>f. fnode (left_half mid y) (add_right k (right_half mid q y) f) = fnode (fnode x (i, L, take a R)) (add_right k (right_half mid q y) f)"
        by (simp add: y c(4) del: fnode.simps)
      show "set (siblings (i, L, take a R)) \<union> set (bchildren (right_half mid q y)) = set (siblings (i, L, R))"
        unfolding y c(5) set by (auto simp: siblings_def)
      show "cshape m d [(i, L, take a R)]" using assms(5) set l(1) b c(2) assms(3) by (auto simp: siblings_def)
      show "shape m (Suc d) (right_half mid q y)" unfolding y c(5) shape_fnode
        using assms(5) set l(2) b assms(3) by (auto simp: siblings_def)
      show "same_order (BNode 0 [k] [left_half mid y, right_half mid q y]) y"
        unfolding same_order_def flat.simps list.map weave.simps y c(4,5) flat_fnode bleaves.simps bleaves_fnode assms(7) c(3)
        by (simp only: whole append_assoc append_Cons append_Nil concat.simps append_Nil2 list.map flat_side_simps simp_thms)
    qed simp
  next
    fix k' t
    assume c: "L = take mid L @ (t, k') # drop (mid + 1) L" "mid < length L" "(map snd L @ map fst R) ! mid = k'"
      "left_half mid (fnode x (i, L, R)) = fnode t (i, take mid L, [])" "right_half mid q (fnode x (i, L, R)) = fnode x (q, drop (mid + 1) L, R)"
    have set: "set (siblings (i, L, R)) = insert t (fst ` set (take mid L)) \<union> fst ` set (drop (mid + 1) L) \<union> snd ` set R"
      using arg_cong [OF c(1), of "\<lambda>xs. set (map fst xs)"] by (auto simp: siblings_def)
    have whole: "concat (map (bleaves \<circ> fst) L) = concat (map (bleaves \<circ> fst) (take mid L)) @ bleaves t @ concat (map (bleaves \<circ> fst) (drop (mid + 1) L))"
      "flat_left L = flat_left (take mid L) @ flat t @ Sep k' # flat_left (drop (mid + 1) L)"
      using arg_cong [OF c(1), of "\<lambda>xs. concat (map (bleaves \<circ> fst) xs)"] arg_cong [OF c(1), of flat_left] by simp_all
    have l: "length (take mid L) = mid" "length (drop (mid + 1) L) + length R = n - mid - 1" using c(2) assms(1) by auto
    show ?thesis
    proof (rule that [of "(q, drop (mid + 1) L, R)" "add_left (left_half mid y) k" "left_half mid y"])
      show "\<forall>f. fnode (left_half mid y) (add_right k (right_half mid q y) f) = fnode (fnode x (q, drop (mid + 1) L, R)) (add_left (left_half mid y) k f)"
        by (simp add: fnode_add y c(5) del: fnode.simps)
      show "set (siblings (q, drop (mid + 1) L, R)) \<union> set (bchildren (left_half mid y)) = set (siblings (i, L, R))"
        unfolding y c(4) set by (auto simp: siblings_def)
      have "length (siblings (q, drop (mid + 1) L, R)) = n - mid - 1" using l(2) by (simp add: siblings_def)
      moreover have "set (siblings (q, drop (mid + 1) L, R)) \<subseteq> set (siblings (i, L, R))" unfolding set by (auto simp: siblings_def)
      ultimately show "cshape m d [(q, drop (mid + 1) L, R)]" using assms(3,5) b by (auto simp del: length_drop)
      show "shape m (Suc d) (left_half mid y)" unfolding y c(4) shape_fnode
        using assms(5) set l(1) b assms(3) by (auto simp: siblings_def)
      show "same_order (BNode 0 [k] [left_half mid y, right_half mid q y]) y"
        unfolding same_order_def flat.simps list.map weave.simps y c(4,5) flat_fnode bleaves.simps bleaves_fnode assms(7) c(3)
        by (simp only: whole append_assoc append_Cons append_Nil concat.simps append_Nil2 list.map flat_side_simps simp_thms)
    qed simp
  qed
qed

lemma in_place_ids: "in_place H tree x fs \<Longrightarrow> p \<in> set (bids x) \<union> set (cids fs) \<Longrightarrow> 0 \<le> p \<and> p < ltNextPageID tree"
  unfolding in_place_def by (metis atLeastLessThan_iff set_append)

text \<open>One round of \<^verbatim>\<open>internalSplit\<close>, seen from the focus.\<close>

lemma split_focus:
  assumes place: "in_place H tree x (f # fs)" and "named updates" and full: "length (siblings f) = m" and "3 \<le> m"
    and shp: "\<forall>t \<in> set (siblings f). shape m d t" and "cshape m (Suc d) fs" and q: "q = ltNextPageID tree"
    and "q + 2 < 2 ^ 63" and "0 \<le> ltHeight tree" and "ltHeight tree + 1 < 2 ^ 63"
  shows "\<exists>k t1 u1 tree' updates' fx g. split_page H tree (fst f) updates = Inr (t1, q, k, u1) \<and>
    link_parent H t1 (fst f) q k u1 = Inr (tree', fst g, updates') \<and> in_place H tree' x (fx # g # tl fs) \<and>
    cshape m d [fx] \<and> siblings g \<noteq> [] \<and> length (siblings g) \<le> m \<and> (\<forall>t \<in> set (siblings g). shape m (Suc d) t) \<and>
    (fs = [] \<longrightarrow> length (siblings g) = 1) \<and> same_order (plug x (fx # g # tl fs)) (plug x (f # fs)) \<and>
    (\<forall>p \<in> set (bids x). pgHash (ltHeap tree' p) = pgHash (ltHeap tree p)) \<and>
    ltNextPageID tree' = q + 1 + grows fs \<and> ltHeight tree' = ltHeight tree + grows fs \<and>
    ltLeafCount tree' = ltLeafCount tree \<and> ltOrder tree' = ltOrder tree \<and> covered updates updates' (ltHeap tree) (ltHeap tree')"
proof -
  let ?h = "ltHeap tree"
  obtain i L R where f: "f = (i, L, R)" by (cases f)
  define y where "y = fnode x (i, L, R)"
  define mid where "mid = (length L + length R) div 2"
  define k where "k = (map snd L @ map fst R) ! mid"
  define pf where "pf = parent_frame (q + 1) fs"
  have n: "length L + length R = m" using full by (simp add: f siblings_def)
  have py: "in_place H tree y fs" and sh: "\<And>t. t \<in> set (siblings f) \<Longrightarrow> hashed H ?h t"
    using place unfolding in_place_fnode y_def f by auto
  have ne: "L \<noteq> [] \<or> R \<noteq> []" using n assms(4) by auto
  obtain t1 u1 t2 u2 where t2: "split_page H tree i updates = Inr (t1, q, k, u1)" "link_parent H t1 i q k u1 = Inr (t2, fst pf, u2)"
    "in_place H t2 (fnode (left_half mid y) (add_right k (right_half mid q y) pf)) (tl fs)"
    "\<forall>p. p \<notin> {i, q, q + 1} \<longrightarrow> pgHash (ltHeap t2 p) = pgHash (?h p)"
    "pgHash (ltHeap t2 i) = node_hash H ?h (left_half mid y)" "pgHash (ltHeap t2 q) = node_hash H ?h (right_half mid q y)"
    "ltNextPageID t2 = q + 1 + grows fs" "ltHeight t2 = ltHeight tree + grows fs"
    "ltLeafCount t2 = ltLeafCount tree" "ltOrder t2 = ltOrder tree" "covered updates u2 ?h (ltHeap t2)"
    using split_step [OF py assms(2) y_def ne mid_def q k_def assms(8-10)] unfolding pf_def by blast
  have kept: "pgHash (ltHeap t2 p) = pgHash (?h p)" if "p \<in> set (bids x) \<or> (\<exists>t \<in> set (siblings f). p \<in> set (bids t)) \<or> p \<in> set (cids fs)" for p
  proof -
    have "p \<noteq> i" using that place by (auto simp: in_place_def f fids_def)
    moreover have "0 \<le> p \<and> p < q" using that in_place_ids [OF place, of p] q by (auto simp: fids_def)
    ultimately show ?thesis using t2(4) by auto
  qed
  have sib: "hashed H (ltHeap t2) t" if "t \<in> set (siblings f)" for t
    using sh [OF that] that kept by (subst hashed_cong [where h' = ?h]) auto
  obtain fx s g where c: "\<forall>f. fnode (left_half mid y) (add_right k (right_half mid q y) f) = fnode (fnode x fx) (g f)"
      "(s = right_half mid q y \<and> g = add_right k s) \<or> (s = left_half mid y \<and> g = add_left s k)"
      "set (siblings fx) \<union> set (bchildren s) = set (siblings (i, L, R))" "cshape m d [fx]" "shape m (Suc d) s"
      "same_order (BNode 0 [k] [left_half mid y, right_half mid q y]) y"
    by (rule split_cases [where q = q, OF refl mid_def n [symmetric] assms(4) shp [unfolded f] y_def k_def]) blast
  have "\<exists>j ks ts. s = BNode j ks ts" using c(2) by (auto simp: left_half_def right_half_def y_def)
  then obtain j ks ts where s: "s = BNode j ks ts" by blast
  have "\<forall>t \<in> set ts. hashed H ?h t" "\<forall>t \<in> set ts. hashed H (ltHeap t2) t" using c(3) sh sib by (auto simp: s f)
  moreover have "pgHash (ltHeap t2 (bid s)) = node_hash H ?h s"
    using c(2) t2(5,6) by (auto simp: left_half_def right_half_def y_def)
  ultimately have hs: "hashed H (ltHeap t2) s" using node_hash_ok [of ts H ?h j ks] by (simp add: s)
  have pfs: "hashed H (ltHeap t2) t \<and> shape m (Suc d) t" if tp: "t \<in> set (siblings pf)" for t
  proof -
    obtain f' fs' where fs: "fs = f' # fs'" "t \<in> set (siblings f')" using tp by (cases fs) (auto simp: pf_def parent_frame_def siblings_def)
    then have "hashed H ?h t" using py by (simp add: in_place_def)
    moreover have "p \<in> set (cids fs)" if "p \<in> set (bids t)" for p using that fs by (auto simp: fids_def)
    ultimately have "hashed H (ltHeap t2) t" using kept by (subst hashed_cong [where h' = ?h]) auto
    then show ?thesis using assms(6) fs by simp
  qed
  have g: "set (siblings (g pf)) = insert s (set (siblings pf))" "length (siblings (g pf)) = Suc (length (siblings pf))" "fst (g pf) = fst pf"
    using c(2) set_siblings_add by (auto simp: add_left_def add_right_def split: prod.splits)
  have len: "length (siblings pf) < m" "fs = [] \<Longrightarrow> siblings pf = []"
    using assms(4,6) by (cases fs; simp add: pf_def parent_frame_def siblings_def)+
  have "in_place H t2 x (fx # g pf # tl fs)"
    unfolding in_place_fnode using t2(3) hs pfs sib c(3) f unfolding c(1) [rule_format] g(1) by auto
  moreover have "same_order (plug x (fx # g pf # tl fs)) (plug x (f # fs))"
    using add_right_order [of "left_half mid y" k "right_half mid q y" "q + 1" fs 0] same_order_plug [OF c(6), of fs]
    unfolding plug.simps f y_def [symmetric] pf_def [symmetric] c(1) [rule_format] same_order_def by (simp del: flat.simps bleaves.simps)
  moreover have "\<forall>p \<in> set (bids x). pgHash (ltHeap t2 p) = pgHash (?h p)" using kept by blast
  moreover have "\<forall>t \<in> set (siblings (g pf)). shape m (Suc d) t" using g(1) c(5) pfs by auto
  moreover have "siblings (g pf) \<noteq> []" "length (siblings (g pf)) \<le> m" "fs = [] \<longrightarrow> length (siblings (g pf)) = 1"
    using g(2) len by (auto simp flip: length_greater_0_conv)
  moreover have "split_page H tree (fst f) updates = Inr (t1, q, k, u1)" "link_parent H t1 (fst f) q k u1 = Inr (t2, fst (g pf), u2)"
    using t2(1,2) g(3) f by simp_all
  ultimately show ?thesis using t2(7-11) c(4) by blast
qed

lemma frame_children: "in_place H tree x (f # fs) \<Longrightarrow> length (pgChildren (page_at tree (fst f))) = Suc (length (siblings f))"
  by (cases f) (auto simp: in_place_def frame_page_def node_page_def siblings_def)

lemma internalSplit_done: "int (length (pgChildren (page_at tree p))) \<le> ltOrder tree \<Longrightarrow> internalSplit H n tree p updates = Inr (tree, updates)"
  by (cases n) simp_all

lemma internalSplit_ok:
  assumes "in_place H tree x (f # fs)" and "named updates" and "siblings f \<noteq> []" and "length (siblings f) \<le> m" and "3 \<le> m"
    and "\<forall>t \<in> set (siblings f). shape m d t" and "cshape m (Suc d) fs" and "ltOrder tree = int m" and "length fs < n"
    and "ltNextPageID tree + int (length fs) + 2 < 2 ^ 63" and "0 \<le> ltHeight tree" and "ltHeight tree + 1 < 2 ^ 63"
  shows "\<exists>tree' updates' fs'. internalSplit H n tree (fst f) updates = Inr (tree', updates') \<and> in_place H tree' x fs' \<and> cshape m d fs' \<and>
    same_order (plug x fs') (plug x (f # fs)) \<and> (\<forall>p \<in> set (bids x). pgHash (ltHeap tree' p) = pgHash (ltHeap tree p)) \<and>
    ltHeight tree' - int (length fs') = ltHeight tree - int (length (f # fs)) \<and> length fs' \<le> Suc (length (f # fs)) \<and>
    ltLeafCount tree' = ltLeafCount tree \<and> ltOrder tree' = ltOrder tree \<and> covered updates updates' (ltHeap tree) (ltHeap tree')"
  using assms
proof (induction fs arbitrary: tree updates x f d n)
  case Nil
  show ?case
  proof (cases "length (siblings f) < m")
    case True
    then show ?thesis using Nil internalSplit_done [of tree "fst f" H n updates] frame_children [OF Nil.prems(1)] covered_refl
      by (intro exI [of _ tree] exI [of _ updates] exI [of _ "[f]"]) (simp add: same_order_def)
  next
    case False
    obtain n' where n: "n = Suc n'" using Nil.prems(9) by (cases n) auto
    have full: "length (siblings f) = m" using False Nil.prems(4) by simp
    obtain k t1 u1 t2 u2 fx g where s: "split_page H tree (fst f) updates = Inr (t1, ltNextPageID tree, k, u1)"
      "link_parent H t1 (fst f) (ltNextPageID tree) k u1 = Inr (t2, fst g, u2)" "in_place H t2 x [fx, g]" "cshape m d [fx]"
      "siblings g \<noteq> []" "length (siblings g) \<le> m" "\<forall>t \<in> set (siblings g). shape m (Suc d) t" "length (siblings g) = 1"
      "same_order (plug x [fx, g]) (plug x [f])" "\<forall>p \<in> set (bids x). pgHash (ltHeap t2 p) = pgHash (ltHeap tree p)"
      "ltHeight t2 = ltHeight tree + 1" "ltLeafCount t2 = ltLeafCount tree" "ltOrder t2 = ltOrder tree" "covered updates u2 (ltHeap tree) (ltHeap t2)"
      using split_focus [OF Nil.prems(1,2) full Nil.prems(5,6,7) refl] Nil.prems(10-12) by (auto simp: grows_def)
    have "in_place H t2 (fnode x fx) [g]" using s(3) unfolding in_place_fnode by blast
    from frame_children [OF this] have "internalSplit H n' t2 (fst g) u2 = Inr (t2, u2)"
      using s(8,13) Nil.prems(5,8) by (intro internalSplit_done) simp
    moreover have "\<not> int (length (pgChildren (page_at tree (fst f)))) \<le> ltOrder tree"
      using frame_children [OF Nil.prems(1)] full Nil.prems(8) by simp
    ultimately have "internalSplit H n tree (fst f) updates = Inr (t2, u2)" using s(1,2) by (simp add: n)
    moreover have "cshape m d [fx, g]" using s(4-8) Nil.prems(5) by simp
    ultimately show ?thesis using s(3,9-14) by (intro exI [of _ t2] exI [of _ u2] exI [of _ "[fx, g]"]) simp
  qed
next
  case (Cons f' fs')
  show ?case
  proof (cases "length (siblings f) < m")
    case True
    then show ?thesis using Cons.prems internalSplit_done [of tree "fst f" H n updates] frame_children [OF Cons.prems(1)] covered_refl
      by (intro exI [of _ tree] exI [of _ updates] exI [of _ "f # f' # fs'"]) (simp add: same_order_def)
  next
    case False
    obtain n' where n: "n = Suc n'" using Cons.prems(9) by (cases n) auto
    have full: "length (siblings f) = m" using False Cons.prems(4) by simp
    obtain k t1 u1 t2 u2 fx g where s: "split_page H tree (fst f) updates = Inr (t1, ltNextPageID tree, k, u1)"
      "link_parent H t1 (fst f) (ltNextPageID tree) k u1 = Inr (t2, fst g, u2)" "in_place H t2 x (fx # g # fs')" "cshape m d [fx]"
      "siblings g \<noteq> []" "length (siblings g) \<le> m" "\<forall>t \<in> set (siblings g). shape m (Suc d) t"
      "same_order (plug x (fx # g # fs')) (plug x (f # f' # fs'))" "\<forall>p \<in> set (bids x). pgHash (ltHeap t2 p) = pgHash (ltHeap tree p)"
      "ltHeight t2 = ltHeight tree" "ltLeafCount t2 = ltLeafCount tree" "ltOrder t2 = ltOrder tree" "covered updates u2 (ltHeap tree) (ltHeap t2)"
      "ltNextPageID t2 = ltNextPageID tree + 1"
      using split_focus [OF Cons.prems(1,2) full Cons.prems(5,6,7) refl] Cons.prems(10-12) by (auto simp: grows_def)
    have p2: "in_place H t2 (fnode x fx) (g # fs')" using s(3) unfolding in_place_fnode by blast
    have n2: "named u2" using s(13) by (simp add: covered_def)
    have cs: "cshape m (Suc (Suc d)) fs'" using Cons.prems(7) by simp
    obtain t3 u3 fs3 where r: "internalSplit H n' t2 (fst g) u2 = Inr (t3, u3)" "in_place H t3 (fnode x fx) fs3" "cshape m (Suc d) fs3"
      "same_order (plug (fnode x fx) fs3) (plug (fnode x fx) (g # fs'))" "\<forall>p \<in> set (bids (fnode x fx)). pgHash (ltHeap t3 p) = pgHash (ltHeap t2 p)"
      "ltHeight t3 - int (length fs3) = ltHeight t2 - int (length (g # fs'))" "ltLeafCount t3 = ltLeafCount t2" "ltOrder t3 = ltOrder t2"
      "covered u2 u3 (ltHeap t2) (ltHeap t3)" "length fs3 \<le> Suc (length (g # fs'))"
      using Cons.IH [OF p2 n2 s(5,6) Cons.prems(5) s(7) cs, of n'] s(10,12,14) Cons.prems(8-12) n by auto
    have "\<not> int (length (pgChildren (page_at tree (fst f)))) \<le> ltOrder tree"
      using frame_children [OF Cons.prems(1)] full Cons.prems(8) by simp
    then have run: "internalSplit H n tree (fst f) updates = Inr (t3, u3)" using s(1,2) r(1) by (simp add: n)
    have ids: "set (bids (fnode x fx)) = set (bids x) \<union> set (fids fx)" using mset_distinct [of "bids (fnode x fx)" "bids x @ fids fx"] by (simp add: mset_bids_fnode)
    have "hashed H (ltHeap t3) t" if "t \<in> set (siblings fx)" for t
    proof -
      have "hashed H (ltHeap t2) t" using s(3) that unfolding in_place_fnode by blast
      moreover have "set (bids t) \<subseteq> set (bids (fnode x fx))" using that unfolding ids fids_def by auto
      ultimately show ?thesis using r(5) by (subst hashed_cong [where h' = "ltHeap t2"]) auto
    qed
    then have "in_place H t3 x (fx # fs3)" using r(2) unfolding in_place_fnode by blast
    moreover have "cshape m d (fx # fs3)" using s(4) r(3) by simp
    moreover have "same_order (plug x (fx # fs3)) (plug x (f # f' # fs'))" using r(4) s(8) by (simp add: same_order_def)
    moreover have "\<forall>p \<in> set (bids x). pgHash (ltHeap t3 p) = pgHash (ltHeap tree p)" using r(5) s(9) unfolding ids by auto
    ultimately show ?thesis using run s(10-12) r(6-8,10) covered_trans [OF s(13) r(9)]
      by (intro exI [of _ t3] exI [of _ u3] exI [of _ "fx # fs3"]) simp
  qed
qed

end
