(* ===== verification/Locator_Leaf.thy ===== *)
theory Locator_Leaf
  imports Locator_Insert
begin

text \<open>
  Insertion into a leaf and its split, which link the new right leaf into the tree.
\<close>

section \<open>Linking a right neighbour\<close>

lemma head_frame: "fs \<noteq> [] \<Longrightarrow> t \<in> set (siblings (hd fs)) \<Longrightarrow> chashed H h fs \<Longrightarrow> cshape m d fs \<Longrightarrow> hashed H h t \<and> shape m d t"
  by (cases fs) simp_all

lemma insertParent_ok:
  assumes "addressed (ltHeap tree)" and "named updates" and "repr (ltHeap tree) (fparent fs) l" and "repr (ltHeap tree) (fparent fs) r"
    and "crepr (ltHeap tree) (bid l) fs" and "distinct (bids l @ bids r @ cids fs)"
    and "set (bids l @ bids r @ cids fs) = {0..<ltNextPageID tree}" and "chashed H (ltHeap tree) fs" and "hashed H (ltHeap tree) r"
    and "shape m d r" and "cshape m d fs" and "3 \<le> m" and "ltOrder tree = int m" and "length fs < n"
    and "ltNextPageID tree + int (length fs) + 3 < 2 ^ 63" and "0 \<le> ltHeight tree" and "ltHeight tree + 2 < 2 ^ 63"
  shows "\<exists>tree' updates' fs'. insertParent H n tree (bid l) (bid r) k updates = Inr (tree', updates') \<and> in_place H tree' l fs' \<and>
    cshape m d fs' \<and> same_order (plug l fs') (plug (BNode 0 [k] [l, r]) fs) \<and>
    ltHeight tree' - int (length fs') = ltHeight tree - int (length fs) \<and> length fs' \<le> length fs + 2 \<and>
    ltLeafCount tree' = ltLeafCount tree \<and> ltOrder tree' = ltOrder tree \<and> covered updates updates' (ltHeap tree) (ltHeap tree')"
proof -
  let ?h = "ltHeap tree"
  define q where "q = ltNextPageID tree"
  define f where "f = add_right k r (parent_frame q fs)"
  have ids: "set (bids l @ bids r @ cids fs) = {0..<q}" using assms(7) by (simp add: q_def)
  have "bid l \<in> {0..<q}" unfolding ids [symmetric] by simp
  then have w: "wrap64 (q + 1) = q + 1" "wrap64 (ltHeight tree + 1) = ltHeight tree + 1"
    using assms(15-17) by (auto intro!: wrap64_id simp: int64_def q_def)
  obtain t1 u1 where t1: "link_parent H tree (bid l) (bid r) k updates = Inr (t1, fst (parent_frame q fs), u1)"
    "in_place H t1 (fnode l f) (tl fs)" "\<forall>p. p \<noteq> q \<longrightarrow> pgHash (ltHeap t1 p) = pgHash (?h p)" "ltNextPageID t1 = q + grows fs"
    "ltHeight t1 = ltHeight tree + grows fs" "ltLeafCount t1 = ltLeafCount tree" "ltOrder t1 = ltOrder tree"
    "covered updates u1 ?h (ltHeap t1)"
    using link_ok [OF assms(1-7) q_def w(1,2) assms(8), of k] unfolding f_def by blast
  have keep: "hashed H (ltHeap t1) t" if "hashed H ?h t" "set (bids t) \<subseteq> set (bids l @ bids r @ cids fs)" for t
  proof -
    have "p \<noteq> q" if "p \<in> set (bids t)" for p using that \<open>set (bids t) \<subseteq> _\<close> unfolding ids by auto
    then show ?thesis using that(1) t1(3) by (subst hashed_cong [where h' = ?h]) auto
  qed
  have pf: "siblings (parent_frame q fs) = (if fs = [] then [] else siblings (hd fs))"
    by (cases fs) (simp_all add: parent_frame_def siblings_def)
  have set: "set (siblings f) = insert r (if fs = [] then {} else set (siblings (hd fs)))" "length (siblings f) \<le> m"
    unfolding f_def set_siblings_add pf using assms(11,12) by (cases fs; simp)+
  have fst: "fst (parent_frame q fs) = fst f" by (simp add: f_def add_right_def split: prod.splits)
  have "hashed H (ltHeap t1) t \<and> shape m d t" if "t \<in> set (siblings f)" for t
  proof (cases "t = r")
    case True
    then show ?thesis using keep [OF assms(9)] assms(10) by auto
  next
    case False
    then have fs: "fs \<noteq> []" "t \<in> set (siblings (hd fs))" using that set(1) by (auto split: if_splits)
    have "set (bids t) \<subseteq> set (cids fs)" using fs by (cases fs) (auto simp: fids_def)
    moreover have "hashed H ?h t" "shape m d t" using head_frame [OF _ fs(2) assms(8,11)] fs(1) by blast+
    ultimately show ?thesis using keep [of t] by (simp add: le_supI2)
  qed
  then have p1: "in_place H t1 l (f # tl fs)" and sh: "\<forall>t \<in> set (siblings f). shape m d t" using t1(2) by (auto simp: in_place_fnode)
  have cs: "cshape m (Suc d) (tl fs)" using assms(11) by (cases fs) simp_all
  have n1: "named u1" using t1(8) by (simp add: covered_def)
  have ne: "siblings f \<noteq> []" using set(1) by auto
  have g: "0 \<le> grows fs" "grows fs \<le> 1" "int (length (f # tl fs)) = int (length fs) + grows fs" by (cases fs; simp add: grows_def)+
  have "length (tl fs) < n" using assms(14) by simp
  moreover have "ltNextPageID t1 + int (length (tl fs)) + 2 < 2 ^ 63" using assms(15) g t1(4) q_def by simp
  moreover have "0 \<le> ltHeight t1" "ltHeight t1 + 1 < 2 ^ 63" using assms(16,17) g t1(5) by simp_all
  moreover have "ltOrder t1 = int m" using assms(13) t1(7) by simp
  ultimately obtain t2 u2 fs2 where t2: "internalSplit H n t1 (fst f) u1 = Inr (t2, u2)" "in_place H t2 l fs2" "cshape m d fs2"
    "same_order (plug l fs2) (plug l (f # tl fs))" "ltHeight t2 - int (length fs2) = ltHeight t1 - int (length (f # tl fs))"
    "ltLeafCount t2 = ltLeafCount t1" "ltOrder t2 = ltOrder t1" "covered u1 u2 (ltHeap t1) (ltHeap t2)" "length fs2 \<le> Suc (length (f # tl fs))"
    using internalSplit_ok [OF p1 n1 ne set(2) assms(12) sh cs] by blast
  have "same_order (plug l fs2) (plug (BNode 0 [k] [l, r]) fs)"
    using t2(4) add_right_order [of l k r q fs 0] unfolding f_def by (simp add: same_order_def)
  moreover have "insertParent H n tree (bid l) (bid r) k updates = Inr (t2, u2)" using t1(1) t2(1) fst by (simp add: insertParent_def)
  moreover have "ltHeight t2 - int (length fs2) = ltHeight tree - int (length fs)" using t2(5) t1(5) g(3) by simp
  moreover have "length fs2 \<le> length fs + 2" using t2(9) by simp
  ultimately show ?thesis using t2(2,3,6,7) t1(6,7) covered_trans [OF t1(8) t2(8)] by (intro exI [of _ t2] exI [of _ u2] exI [of _ fs2]) simp
qed

section \<open>Splitting a leaf\<close>

lemma leafSplit_ok:
  assumes place: "in_place H tree (BLeaf i nx es) fs" and "named updates" and "length es = m" and "3 \<le> m" and "cshape m 0 fs"
    and "ltOrder tree = int m" and "length fs < n" and "ltNextPageID tree + int (length fs) + 4 < 2 ^ 63"
    and "0 \<le> ltHeight tree" and "ltHeight tree + 2 < 2 ^ 63" and q: "q = ltNextPageID tree" and mid: "mid = m div 2"
  shows "\<exists>tree' updates' fs'. leafSplit H n tree i updates = Inr (tree', updates') \<and> in_place H tree' (BLeaf i (Some q) (take mid es)) fs' \<and>
    cshape m 0 fs' \<and> same_order (plug (BLeaf i (Some q) (take mid es)) fs')
      (plug (BNode 0 [fst (es ! mid)] [BLeaf i (Some q) (take mid es), BLeaf q nx (drop mid es)]) fs) \<and>
    ltHeight tree' - int (length fs') = ltHeight tree - int (length fs) \<and> length fs' \<le> length fs + 2 \<and>
    ltLeafCount tree' = ltLeafCount tree \<and> ltOrder tree' = ltOrder tree \<and> covered updates updates' (ltHeap tree) (ltHeap tree')"
proof -
  let ?h = "ltHeap tree"
  define l where "l = BLeaf i (Some q) (take mid es)"
  define r where "r = BLeaf q nx (drop mid es)"
  have b: "1 \<le> mid" "mid < m" using assms(4) mid by auto
  from place have a: "addressed ?h" and page: "leaf_page (?h i) (fparent fs) nx es" and ctx: "crepr ?h i fs" "chashed H ?h fs"
    and ids: "distinct (i # cids fs)" "set (i # cids fs) = {0..<q}" by (auto simp: in_place_def q)
  have "i \<in> {0..<q}" unfolding ids(2) [symmetric] by simp
  then have iq: "0 \<le> i" "i < q" and w: "wrap64 (q + 1) = q + 1" using assms(8) by (auto intro!: wrap64_id simp: int64_def q)
  define rp where "rp = (empty_page q)\<lparr>pgIsLeaf := True, pgParent := fparent fs, pgParentPageID := fparent fs,
      pgKeys := map fst (drop mid es), pgValues := map snd (drop mid es), pgNext := nx\<rparr>"
  define t1 where "t1 = (set_page q (\<lambda>_. rp) tree)\<lparr>ltNextPageID := q + 1\<rparr>"
  define lh where "lh = bhash H (BLeaf i nx es)"
  define t3 where "t3 = set_page i (\<lambda>page. page\<lparr>pgKeys := take mid (pgKeys page), pgValues := take mid (pgValues page), pgNext := Some q\<rparr>)
      (set_page q (\<lambda>page. page\<lparr>pgHash := bhash H r\<rparr>) (set_page i (\<lambda>page. page\<lparr>pgHash := lh\<rparr>) t1))"
  have h1: "ltHeap t1 = ?h(q := rp)" by (simp add: t1_def)
  have a1: "addressed (ltHeap t1)" using a by (simp add: addressed_def h1 rp_def empty_page_def)
  have left: "leafHash H (deref (ltHeap t1)) (ltHeap t1 i) = Inr lh" and right: "leafHash H (deref (ltHeap t1)) (ltHeap t1 q) = Inr (bhash H r)"
    using page iq a deref_next [OF a1, of nx] by (simp_all add: leafHash_def leaf_page_def h1 rp_def lh_def r_def empty_page_def)
  have h3: "ltHeap t3 = ?h(i := (?h i)\<lparr>pgHash := lh, pgKeys := map fst (take mid es), pgValues := map snd (take mid es), pgNext := Some q\<rparr>,
      q := rp\<lparr>pgHash := bhash H r\<rparr>)"
    using page iq by (auto simp: t3_def h1 leaf_page_def fun_eq_iff take_map)
  have a3: "addressed (ltHeap t3)" using a by (simp add: addressed_def h3 rp_def empty_page_def)
  define u1 where "u1 = updates_add t3 (updates_add t3 updates i) q"
  note n1 = named_add [OF assms(2) a3, of i]
  note n2 = named_add [OF n1(1) a3, of q, folded u1_def]
  have c1: "covered updates u1 ?h (ltHeap t3)" unfolding covered_def n2(2) n1(2) using n2(1) by (auto simp: h3)
  have key: "pgKeys (page_at t3 q) = fst (es ! mid) # map fst (drop (Suc mid) es)"
    using b assms(3) Cons_nth_drop_Suc [of mid es] by (simp add: h3 rp_def flip: Cons_nth_drop_Suc)
  have ptr: "pageIDPointer tree (fparent fs) = fparent fs" using a by (cases "fparent fs") (auto simp: pageIDPointer_def)
  have pg: "pgKeys (?h i) = map fst es" "pgValues (?h i) = map snd es" "pgParent (?h i) = fparent fs" "pgNext (?h i) = nx"
    using page by (simp_all add: leaf_page_def)
  have run: "leafSplit H n tree i updates = insertParent H n t3 i q (fst (es ! mid)) u1"
    unfolding leafSplit_def Let_def pg length_map ptr assms(3) mid [symmetric] q [symmetric] drop_map w rp_def [symmetric] t1_def [symmetric] left right
      rbind.simps t3_def [symmetric] u1_def [symmetric] key list.case
    using b assms(3) by simp
  have f3: "ltNextPageID t3 = q + 1" "ltHeight t3 = ltHeight tree" "ltLeafCount t3 = ltLeafCount tree" "ltOrder t3 = ltOrder tree"
    by (simp_all add: t3_def t1_def)
  have other: "ltHeap t3 p = ?h p" if "p \<in> set (cids fs)" for p
  proof -
    have "p \<in> {0..<q}" using that ids(2) by auto
    with that ids(1) show ?thesis by (auto simp: h3)
  qed
  have "crepr (ltHeap t3) (bid l) fs" using ctx(1) other by (subst crepr_cong [where h' = ?h]) (auto simp: l_def)
  moreover have "chashed H (ltHeap t3) fs" using ctx(2) other by (subst chashed_cong [where h' = ?h]) auto
  moreover have "repr (ltHeap t3) (fparent fs) l" "repr (ltHeap t3) (fparent fs) r" "hashed H (ltHeap t3) r"
    using page iq by (simp_all add: l_def r_def h3 leaf_page_def rp_def empty_page_def)
  moreover have "q \<notin> set (i # cids fs)" unfolding ids(2) by simp
  then have "distinct (bids l @ bids r @ cids fs)" using ids(1) by (auto simp: l_def r_def)
  moreover have "{0..<q + 1} = insert q {0..<q}" using iq by auto
  then have "set (bids l @ bids r @ cids fs) = {0..<ltNextPageID t3}" using ids(2) f3(1) by (simp add: l_def r_def insert_commute [of i q])
  moreover have "shape m 0 r" using b assms(3) by (simp add: r_def)
  ultimately obtain t4 u4 fs4 where t4: "insertParent H n t3 (bid l) (bid r) (fst (es ! mid)) u1 = Inr (t4, u4)" "in_place H t4 l fs4" "cshape m 0 fs4"
    "same_order (plug l fs4) (plug (BNode 0 [fst (es ! mid)] [l, r]) fs)" "ltHeight t4 - int (length fs4) = ltHeight t3 - int (length fs)"
    "ltLeafCount t4 = ltLeafCount t3" "ltOrder t4 = ltOrder t3" "covered u1 u4 (ltHeap t3) (ltHeap t4)" "length fs4 \<le> length fs + 2"
    using insertParent_ok [OF a3 n2(1), of fs l r H m 0 n "fst (es ! mid)"] assms(4-10) f3 q by auto
  show ?thesis using t4 run f3 covered_trans [OF c1 t4(8)] unfolding l_def r_def
    by (intro exI [of _ t4] exI [of _ u4] exI [of _ fs4]) simp
qed

section \<open>Inserting into a leaf\<close>

text \<open>The tree of pages represents \<open>t\<close>.\<close>

definition stored :: "hash_fn \<Rightarrow> LocatorTree \<Rightarrow> btree \<Rightarrow> bool" where
  "stored H tree t \<longleftrightarrow> in_place H tree t [] \<and> hashed H (ltHeap tree) t \<and> ltRootPage tree = bid t \<and> ltRootPageID tree = bid t \<and>
     ltRootHash tree = bhash H t"

lemma in_place_plug: "in_place H tree x fs \<Longrightarrow> in_place H tree (plug x fs) []"
  by (induction fs arbitrary: x) (auto simp: in_place_fnode)

lemma in_place_update:
  assumes "in_place H tree x fs" and "bids y = [bid x]" and "bids x = [bid x]" and "repr (ltHeap tree') (fparent fs) y" and "addressed (ltHeap tree')"
    and "\<And>p. p \<noteq> bid x \<Longrightarrow> ltHeap tree' p = ltHeap tree p" and "ltNextPageID tree' = ltNextPageID tree"
  shows "in_place H tree' y fs"
proof -
  have y: "bid y = bid x" using assms(2) by (cases y) auto
  have ctx: "ltHeap tree' p = ltHeap tree p" if "p \<in> set (cids fs)" for p
    using that assms(1,3) by (intro assms(6)) (auto simp: in_place_def)
  have "crepr (ltHeap tree') (bid x) fs" using assms(1) ctx by (subst crepr_cong [where h' = "ltHeap tree"]) (auto simp: in_place_def)
  moreover have "chashed H (ltHeap tree') fs" using assms(1) ctx by (subst chashed_cong [where h' = "ltHeap tree"]) (auto simp: in_place_def)
  ultimately show ?thesis using assms by (auto simp: in_place_def y)
qed

lemma rehash_path:
  assumes "in_place H tree (BLeaf i nx es) fs" and "named updates" and "length fs \<le> n"
  shows "\<exists>tree' updates'. updatePathHashes H n tree i updates = Inr (tree', updates') \<and> stored H tree' (plug (BLeaf i nx es) fs) \<and>
    ltNextPageID tree' = ltNextPageID tree \<and> ltHeight tree' = ltHeight tree \<and> ltLeafCount tree' = ltLeafCount tree \<and> ltOrder tree' = ltOrder tree \<and>
    covered updates updates' (ltHeap tree) (ltHeap tree') \<and> i \<in> set (gm_keys updates')"
proof -
  let ?x = "BLeaf i nx es"
  have a: "addressed (ltHeap tree)" "repr (ltHeap tree) (fparent fs) ?x" "crepr (ltHeap tree) (bid ?x) fs" "distinct (bids ?x @ cids fs)"
    "chashed H (ltHeap tree) fs" and ids: "set (bids ?x @ cids fs) = {0..<ltNextPageID tree}"
    using assms(1) by (auto simp: in_place_def)
  obtain t' u' where t': "updatePathHashes H n tree i updates = Inr (t', u')" "addressed (ltHeap t')"
    "repr (ltHeap t') None (plug ?x fs)" "hashed H (ltHeap t') (plug ?x fs)" "ltRootPage t' = bid (plug ?x fs)"
    "ltRootPageID t' = bid (plug ?x fs)" "ltRootHash t' = bhash H (plug ?x fs)" "ltNextPageID t' = ltNextPageID tree"
    "ltHeight t' = ltHeight tree" "ltLeafCount t' = ltLeafCount tree" "ltOrder t' = ltOrder tree"
    "covered updates u' (ltHeap tree) (ltHeap t')" "i \<in> set (gm_keys u')"
    using updatePathHashes_ok [OF a _ assms(3,2)] by auto
  have "distinct (bids (plug ?x fs))" "set (bids (plug ?x fs)) = {0..<ltNextPageID t'}"
    unfolding distinct_plug set_bids_plug using a(4) ids t'(8) by auto
  then have "stored H t' (plug ?x fs)" using t' by (simp add: stored_def in_place_def)
  with t' show ?thesis by blast
qed

lemma findKeyIdx_le: "findKeyIdx ks key \<le> length ks"
  by (induction ks) simp_all

text \<open>The result of an insertion into the leaf: the leaf with the new entry, or its two halves.\<close>

definition inserted_leaf :: "nat \<Rightarrow> int \<Rightarrow> int \<Rightarrow> int option \<Rightarrow> (LocatorKey \<times> LocatorValue option) list \<Rightarrow> btree" where
  "inserted_leaf m q i nx es = (if length es < m then BLeaf i nx es else BNode 0 [fst (es ! (m div 2))]
     [BLeaf i (Some q) (take (m div 2) es), BLeaf q nx (drop (m div 2) es)])"

lemma insert_leaf_ok:
  assumes place: "in_place H tree (BLeaf i nx es) fs" and "named updates" and "length es < m" and "3 \<le> m" and "cshape m 0 fs"
    and "ltOrder tree = int m" and fuel: "length fs + 2 \<le> n" and "ltNextPageID tree + int (length fs) + 4 < 2 ^ 63"
    and height: "ltHeight tree = int (length fs)" and "int64 (ltLeafCount tree + 1)"
    and es': "es' = insert_at (findKeyIdx (map fst es) key) (key, value) es"
  shows "\<exists>tree' updates' t'. insert_leaf H n key value tree i updates = Inr (tree', updates') \<and> stored H tree' t' \<and>
    same_order t' (plug (inserted_leaf m (ltNextPageID tree) i nx es') fs) \<and> shape m (nat (ltHeight tree')) t' \<and> 0 \<le> ltHeight tree' \<and>
    ltLeafCount tree' = ltLeafCount tree + 1 \<and> ltOrder tree' = ltOrder tree \<and> covered updates updates' (ltHeap tree) (ltHeap tree') \<and>
    i \<in> set (gm_keys updates')"
proof -
  let ?h = "ltHeap tree"
  define idx where "idx = findKeyIdx (map fst es) key"
  have idx: "idx \<le> length es" using findKeyIdx_le [of "map fst es" key] by (simp add: idx_def)
  have page: "leaf_page (?h i) (fparent fs) nx es" using place by (simp add: in_place_def)
  define t1 where "t1 = set_page i (\<lambda>page. page\<lparr>pgKeys := insert_at idx key (pgKeys page), pgValues := insert_at idx value (pgValues page)\<rparr>) tree"
  have len: "length es' = Suc (length es)" "es' \<noteq> []" using idx by (simp_all add: es' insert_at_def idx_def [symmetric])
  have p1: "in_place H t1 (BLeaf i nx es') fs"
  proof (rule in_place_update [OF place])
    show "repr (ltHeap t1) (fparent fs) (BLeaf i nx es')"
      using page by (simp add: t1_def leaf_page_def es' idx_def [symmetric] insert_at_def take_map drop_map)
    show "addressed (ltHeap t1)" using place by (simp add: t1_def in_place_def addressed_def)
  qed (simp_all add: t1_def)
  have f1: "ltNextPageID t1 = ltNextPageID tree" "ltHeight t1 = ltHeight tree" "ltLeafCount t1 = ltLeafCount tree" "ltOrder t1 = ltOrder tree"
    by (simp_all add: t1_def)
  have keys1: "length (pgKeys (page_at t1 i)) = length es'" using p1 by (simp add: in_place_def leaf_page_def)
  define P where "P = (\<lambda>t2 u2 x fs2. in_place H t2 x fs2 \<and> cshape m 0 fs2 \<and> same_order (plug x fs2) (plug (inserted_leaf m (ltNextPageID tree) i nx es') fs) \<and>
    ltHeight t2 = int (length fs2) \<and> length fs2 \<le> n \<and> ltLeafCount t2 = ltLeafCount tree \<and> ltOrder t2 = ltOrder tree \<and>
    covered updates u2 (ltHeap t1) (ltHeap t2))"
  have "\<exists>t2 u2 nx2 es2 fs2. (if int (length (pgKeys (page_at t1 i))) \<ge> ltOrder t1 then leafSplit H n t1 i updates else Inr (t1, updates)) = Inr (t2, u2) \<and>
    P t2 u2 (BLeaf i nx2 es2) fs2 \<and> shape m 0 (BLeaf i nx2 es2)"
  proof (cases "length es' < m")
    case True
    then have "P t1 updates (BLeaf i nx es') fs"
      using p1 assms(5) height f1 fuel covered_refl [OF assms(2)] by (simp add: P_def inserted_leaf_def same_order_def)
    with True len(2) keys1 f1(4) assms(6) show ?thesis by (intro exI [of _ t1] exI [of _ updates] exI [of _ nx] exI [of _ es'] exI [of _ fs]) simp
  next
    case False
    then have full: "length es' = m" using len assms(3) by simp
    obtain t2 u2 fs2 where t2: "leafSplit H n t1 i updates = Inr (t2, u2)" "in_place H t2 (BLeaf i (Some (ltNextPageID t1)) (take (m div 2) es')) fs2"
      "cshape m 0 fs2" "same_order (plug (BLeaf i (Some (ltNextPageID t1)) (take (m div 2) es')) fs2)
        (plug (BNode 0 [fst (es' ! (m div 2))] [BLeaf i (Some (ltNextPageID t1)) (take (m div 2) es'), BLeaf (ltNextPageID t1) nx (drop (m div 2) es')]) fs)"
      "ltHeight t2 - int (length fs2) = ltHeight t1 - int (length fs)" "length fs2 \<le> length fs + 2" "ltLeafCount t2 = ltLeafCount t1"
      "ltOrder t2 = ltOrder t1" "covered updates u2 (ltHeap t1) (ltHeap t2)"
      using leafSplit_ok [OF p1 assms(2) full assms(4,5), of n, OF _ _ _ _ _ refl refl] assms(6,8) f1 height fuel in_place_ids [OF place, of i] by auto
    have "P t2 u2 (BLeaf i (Some (ltNextPageID t1)) (take (m div 2) es')) fs2"
      using t2(2-9) f1 height fuel full by (simp add: P_def inserted_leaf_def)
    moreover have "shape m 0 (BLeaf i (Some (ltNextPageID t1)) (take (m div 2) es'))" using full assms(4) len(2) by auto
    ultimately show ?thesis using t2(1) keys1 f1(4) assms(6) full
      by (intro exI [of _ t2] exI [of _ u2] exI [of _ "Some (ltNextPageID t1)"] exI [of _ "take (m div 2) es'"] exI [of _ fs2]) simp
  qed
  then obtain t2 u2 nx2 es2 fs2 where t2: "(if int (length (pgKeys (page_at t1 i))) \<ge> ltOrder t1 then leafSplit H n t1 i updates else Inr (t1, updates)) = Inr (t2, u2)"
    "P t2 u2 (BLeaf i nx2 es2) fs2" "shape m 0 (BLeaf i nx2 es2)" by blast
  let ?t3 = "t2\<lparr>ltLeafCount := ltLeafCount tree + 1\<rparr>" and ?x = "BLeaf i nx2 es2"
  have p3: "in_place H ?t3 ?x fs2" "named u2" "length fs2 \<le> n" using t2(2) by (simp_all add: P_def in_place_def covered_def)
  obtain t4 u4 where t4: "updatePathHashes H n ?t3 i u2 = Inr (t4, u4)" "stored H t4 (plug ?x fs2)" "ltHeight t4 = ltHeight t2"
    "ltLeafCount t4 = ltLeafCount tree + 1" "ltOrder t4 = ltOrder t2" "covered u2 u4 (ltHeap t2) (ltHeap t4)" "i \<in> set (gm_keys u4)"
    using rehash_path [OF p3] by auto
  have pg: "pgKeys (?h i) = map fst es" "pgValues (?h i) = map snd es" using page by (simp_all add: leaf_page_def)
  have run: "insert_leaf H n key value tree i updates = Inr (t4, u4)"
    unfolding insert_leaf_def Let_def pg idx_def [symmetric] t1_def [symmetric] t2(1) rbind.simps prod.case
    using idx t2(2) t4(1) assms(10) by (simp add: P_def)
  have sh: "shape m (nat (ltHeight t4)) (plug ?x fs2)" using shape_plug [OF t2(3), of fs2] t2(2) t4(3) by (simp add: P_def)
  have "covered updates u4 (ltHeap t1) (ltHeap t4)" using t2(2) covered_trans [OF _ t4(6)] by (auto simp: P_def)
  then have "covered updates u4 ?h (ltHeap t4)" using t4(7) by (auto simp: covered_def t1_def)
  then show ?thesis using run t4 sh t2(2) unfolding P_def by (intro exI [of _ t4] exI [of _ u4] exI [of _ "plug ?x fs2"]) simp
qed

end
