(* ===== verification/Locator_Search.thy ===== *)
theory Locator_Search
  imports Locator_Leaf
begin

text \<open>
  Finding the leaf of a key. Read in order, the keys and separators of a tree are sorted; the descent
  of \<^verbatim>\<open>insert\<close> keeps everything to its left before the key and everything to its right after it.
\<close>

section \<open>The order of keys and separators\<close>

fun mkey :: "mark \<Rightarrow> LocatorKey" where
  "mkey (Entry k) = k"
| "mkey (Sep k) = k"

text \<open>A key is below everything to its right; a separator is not above anything to its right.\<close>

fun mark_before :: "mark \<Rightarrow> mark \<Rightarrow> bool" where
  "mark_before (Entry a) m \<longleftrightarrow> key_Less a (mkey m)"
| "mark_before (Sep a) m \<longleftrightarrow> \<not> key_Less (mkey m) a"

lemma not_less_trans: "\<not> key_Less b a \<Longrightarrow> \<not> key_Less c b \<Longrightarrow> \<not> key_Less c a"
  using key_order.less_total key_order.less_trans by metis

lemma less_not_less_trans: "key_Less a b \<Longrightarrow> \<not> key_Less c b \<Longrightarrow> key_Less a c"
  using key_order.less_total key_order.less_trans by metis

lemma not_less_less_trans: "\<not> key_Less b a \<Longrightarrow> key_Less b c \<Longrightarrow> key_Less a c"
  using key_order.less_total key_order.less_trans by metis

lemma before_sep: "mark_before m (Sep k) \<Longrightarrow> \<not> key_Less key k \<Longrightarrow> mark_before m (Entry key)"
  by (cases m) (auto intro: less_not_less_trans dest: not_less_trans)

lemma after_sep: "mark_before (Sep k) m \<Longrightarrow> key_Less key k \<Longrightarrow> mark_before (Entry key) m"
  by (auto intro: less_not_less_trans)

definition around :: "mark list \<Rightarrow> LocatorKey \<Rightarrow> mark list \<Rightarrow> bool" where
  "around a key b \<longleftrightarrow> (\<forall>m \<in> set a. mark_before m (Entry key)) \<and> (\<forall>m \<in> set b. mark_before (Entry key) m)"

lemma around_append: "around (a @ c) key (d @ b) \<longleftrightarrow> around a key b \<and> around c key d"
  by (auto simp: around_def)

section \<open>The child that the search enters\<close>

definition child_frame :: "int \<Rightarrow> LocatorKey list \<Rightarrow> btree list \<Rightarrow> nat \<Rightarrow> frame" where
  "child_frame i ks ts j = (i, zip (take j ts) (take j ks), zip (drop j ks) (drop (j + 1) ts))"

lemma child_frame_node:
  assumes "length ts = length ks + 1" and "j \<le> length ks"
  shows "fnode (ts ! j) (child_frame i ks ts j) = BNode i ks ts"
  using assms id_take_nth_drop [of j ts] by (simp add: child_frame_def)

lemma findKeyIdx_before: "k \<in> set (take (findKeyIdx ks key) ks) \<Longrightarrow> \<not> key_Less key k"
  by (induction ks) (auto split: if_splits)

lemma findKeyIdx_at: "findKeyIdx ks key < length ks \<Longrightarrow> key_Less key (ks ! findKeyIdx ks key)"
  by (induction ks) (auto split: if_splits)

lemma child_around:
  assumes "length ts = length ks + 1" and "j = findKeyIdx ks key" and "sorted_wrt mark_before (flat (BNode i ks ts))"
  shows "around (flat_left (fst (snd (child_frame i ks ts j)))) key (flat_right (snd (snd (child_frame i ks ts j))))"
proof -
  have j: "j \<le> length ks" using findKeyIdx_le assms(2) by simp
  define L where "L = zip (take j ts) (take j ks)"
  define R where "R = zip (drop j ks) (drop (j + 1) ts)"
  have f: "child_frame i ks ts j = (i, L, R)" by (simp add: child_frame_def L_def R_def)
  have sorted: "sorted_wrt mark_before (flat_left L @ flat (ts ! j) @ flat_right R)"
    using assms(3) child_frame_node [OF assms(1) j, of i] flat_fnode [of "ts ! j" i L R] by (simp add: f)
  have "mark_before m (Entry key)" if "m \<in> set (flat_left L)" for m
  proof (cases L rule: rev_cases)
    case (snoc L' e)
    obtain t k where e: "e = (t, k)" by (cases e)
    have "k \<in> set (map snd L)" using snoc e by simp
    also have "map snd L = take j ks" using j assms(1) by (simp add: L_def)
    finally have le: "\<not> key_Less key k" using findKeyIdx_before assms(2) by blast
    have "m = Sep k \<or> mark_before m (Sep k)" using sorted that snoc e by (auto simp: sorted_wrt_append)
    then show ?thesis using le before_sep by auto
  qed (use that in simp)
  moreover have "mark_before (Entry key) m" if "m \<in> set (flat_right R)" for m
  proof (cases R)
    case (Cons e R')
    obtain k t where e: "e = (k, t)" by (cases e)
    have "map fst R = drop j ks" using assms(1) by (simp add: R_def)
    then have "drop j ks = k # map fst R'" using Cons e by simp
    then have lt: "key_Less key k" using findKeyIdx_at [of ks key] assms(2)
      by (metis drop_eq_Nil2 linorder_not_less list.distinct(1) nth_via_drop)
    have "m = Sep k \<or> mark_before (Sep k) m" using sorted that Cons e by (auto simp: sorted_wrt_append)
    then show ?thesis using lt after_sep by auto
  qed (use that in simp)
  ultimately show ?thesis by (simp add: around_def f)
qed

lemma context_flat: "\<exists>a b. \<forall>x. flat (plug x fs) = a @ flat x @ b"
proof (induction fs)
  case (Cons f fs)
  then obtain a b where ab: "\<And>x. flat (plug x fs) = a @ flat x @ b" by blast
  obtain i L R where f: "f = (i, L, R)" by (cases f)
  have "flat (plug x (f # fs)) = (a @ flat_left L) @ flat x @ (flat_right R @ b)" for x
    using ab [of "fnode x (i, L, R)"] flat_fnode [of x i L R] by (simp add: f)
  then show ?case by blast
qed (auto intro!: exI [of _ "[]"])

lemma context_leaves: "\<exists>a b. \<forall>x. bleaves (plug x fs) = a @ bleaves x @ b"
proof (induction fs)
  case (Cons f fs)
  then obtain a b where ab: "\<And>x. bleaves (plug x fs) = a @ bleaves x @ b" by blast
  obtain i L R where f: "f = (i, L, R)" by (cases f)
  have "bleaves (plug x (f # fs)) = (a @ concat (map (bleaves \<circ> fst) L)) @ bleaves x @ (concat (map (bleaves \<circ> snd) R) @ b)" for x
    using ab [of "fnode x (i, L, R)"] by (simp add: f)
  then show ?case by blast
qed (auto intro!: exI [of _ "[]"])

section \<open>The descent\<close>

definition no_entries :: "btree \<Rightarrow> bool" where
  "no_entries t \<longleftrightarrow> (\<exists>i nx. t = BLeaf i nx [])"

lemma descend_ok:
  assumes "in_place H tree x fs" and "hashed H (ltHeap tree) x" and "shape m d x \<or> d = 0 \<and> no_entries x" and "0 < m" and "cshape m d fs"
    and "sorted_wrt mark_before (flat x)" and "\<forall>y. flat (plug y fs) = a @ flat y @ b" and "around a key b" and "d \<le> c"
  shows "\<exists>i nx es fs' a' b'. tree_insert H n c key value tree (bid x) updates = insert_leaf H n key value tree i updates \<and>
    in_place H tree (BLeaf i nx es) fs' \<and> plug (BLeaf i nx es) fs' = plug x fs \<and> length es < m \<and> cshape m 0 fs' \<and> length fs' = d + length fs \<and>
    (\<forall>y. flat (plug y fs') = a' @ flat y @ b') \<and> around a' key b'"
  using assms
proof (induction d arbitrary: x fs a b c)
  case 0
  then obtain i nx es where x: "x = BLeaf i nx es" "length es < m" by (cases x) (auto simp: no_entries_def)
  have "pgIsLeaf (page_at tree i)" using 0(1) x by (simp add: in_place_def leaf_page_def)
  then have "tree_insert H n c key value tree (bid x) updates = insert_leaf H n key value tree i updates"
    using x by (subst tree_insert.simps) simp
  with 0(1,5,7,8) x show ?case
    by (intro exI [of _ i] exI [of _ nx] exI [of _ es] exI [of _ fs] exI [of _ a] exI [of _ b]) simp
next
  case (Suc d)
  then obtain i ks ts where x: "x = BNode i ks ts" and len: "length ts = length ks + 1" by (cases x) auto
  define j where "j = findKeyIdx ks key"
  define f where "f = child_frame i ks ts j"
  obtain L R where f': "f = (i, L, R)" by (simp add: f_def child_frame_def)
  have j: "j \<le> length ks" using findKeyIdx_le by (simp add: j_def)
  have xf: "x = fnode (ts ! j) f" using child_frame_node [OF len j, of i] by (simp add: x f_def)
  obtain c' where c: "c = Suc c'" using Suc.prems(9) by (cases c) auto
  have sh: "shape m d (ts ! j)" "cshape m d (f # fs)" using Suc.prems(3,5) unfolding xf shape_fnode by (auto simp: no_entries_def f')
  have hs: "\<forall>t \<in> set (siblings f). hashed H (ltHeap tree) t" "hashed H (ltHeap tree) (ts ! j)"
    using Suc.prems(2) unfolding xf hashed_fnode by auto
  then have p: "in_place H tree (ts ! j) (f # fs)" using Suc.prems(1) unfolding in_place_fnode xf by blast
  have "flat (plug y (f # fs)) = (a @ flat_left L) @ flat y @ (flat_right R @ b)" for y
    using Suc.prems(7) flat_fnode [of y i L R] by (simp add: f' del: fnode.simps)
  moreover have "around (a @ flat_left L) key (flat_right R @ b)"
    using child_around [OF len j_def Suc.prems(6) [unfolded x]] Suc.prems(8) by (simp add: around_append f_def [symmetric] f')
  moreover have "sorted_wrt mark_before (flat (ts ! j))"
    using Suc.prems(6) flat_fnode [of "ts ! j" i L R] unfolding xf f' by (simp add: sorted_wrt_append)
  ultimately obtain i' nx es fs' a' b' where r: "tree_insert H n c' key value tree (bid (ts ! j)) updates = insert_leaf H n key value tree i' updates"
    "in_place H tree (BLeaf i' nx es) fs'" "plug (BLeaf i' nx es) fs' = plug (ts ! j) (f # fs)" "length es < m" "cshape m 0 fs'"
    "length fs' = d + length (f # fs)" "\<forall>y. flat (plug y fs') = a' @ flat y @ b'" "around a' key b'"
    using Suc.IH [OF p hs(2) disjI1 [OF sh(1)] Suc.prems(4) sh(2), of "a @ flat_left L" "flat_right R @ b" c'] Suc.prems(9) c by blast
  have "node_page (page_at tree i) (fparent fs) ks (map bid ts)" using Suc.prems(1) by (simp add: in_place_def x)
  then have "tree_insert H n c key value tree (bid x) updates = tree_insert H n c' key value tree (bid (ts ! j)) updates"
    using x j len c by (subst tree_insert.simps) (simp add: node_page_def j_def [symmetric] Let_def)
  with r xf show ?case
    by (intro exI [of _ i'] exI [of _ nx] exI [of _ es] exI [of _ fs'] exI [of _ a'] exI [of _ b']) (simp del: fnode.simps)
qed

section \<open>Insertion into the order\<close>

lemma sorted_insert_leaf:
  assumes "sorted_wrt mark_before (a @ map Entry ks @ b)" and "around a key b" and "key \<notin> set ks" and "j = findKeyIdx ks key"
  shows "sorted_wrt mark_before (a @ map Entry (insert_at j key ks) @ b)"
proof -
  have ks: "sorted_wrt key_Less ks" using assms(1) by (simp add: sorted_wrt_append sorted_wrt_map)
  have "key_Less k key" if "k \<in> set (take j ks)" for k
  proof -
    have "k \<noteq> key" "\<not> key_Less key k" using that assms(3) findKeyIdx_before [of k ks key] assms(4) by (auto dest: in_set_takeD)
    then show ?thesis using key_order.less_total by blast
  qed
  moreover have "key_Less key k" if "k \<in> set (drop j ks)" for k
  proof -
    have lt: "j < length ks" using that by (metis drop_all empty_iff empty_set not_le_imp_less)
    then have d: "drop j ks = ks ! j # drop (Suc j) ks" by (simp add: Cons_nth_drop_Suc)
    have first: "key_Less key (ks ! j)" using findKeyIdx_at lt assms(4) by simp
    have "sorted_wrt key_Less (drop j ks)" using ks by (simp add: sorted_wrt_drop)
    then show ?thesis using that first key_order.less_trans unfolding d by auto
  qed
  moreover have "sorted_wrt mark_before (a @ map Entry (take j ks @ drop j ks) @ b)" using assms(1) by simp
  ultimately show ?thesis
    using assms(2) unfolding insert_at_def map_append by (auto simp: sorted_wrt_append around_def)
qed

lemma sorted_insert_sep:
  assumes "sorted_wrt mark_before (a @ Entry k # b)"
  shows "sorted_wrt mark_before (a @ Sep k # Entry k # b)"
proof -
  have "mark_before m (Sep k) = mark_before m (Entry k)" for m by (cases m) auto
  moreover have "mark_before (Entry k) m \<Longrightarrow> mark_before (Sep k) m" for m by (auto dest: key_order.less_asym)
  ultimately show ?thesis using assms by (auto simp: sorted_wrt_append key_order.less_irrefl)
qed

end
