(* ===== verification/Locator_Tree_Properties.thy ===== *)
theory Locator_Tree_Properties
  imports Locator_Search Locator_Properties
begin

text \<open>
  Insertion is correct: the tree of pages always represents a balanced B+ tree with linked leaves and
  sorted keys, the published root is its root hash, and an update carries every page that changed.
\<close>

section \<open>Entries in order\<close>

definition pairs :: "btree \<Rightarrow> (LocatorKey \<times> LocatorValue option) list" where
  "pairs t = concat (map (snd \<circ> snd) (bleaves t))"

lemma pairs_simps [simp]: "pairs (BLeaf i nx es) = es" "pairs (BNode i ks ts) = concat (map pairs ts)"
proof -
  show "pairs (BNode i ks ts) = concat (map pairs ts)" by (induction ts) (simp_all add: pairs_def)
qed (simp add: pairs_def)

fun entry_key :: "mark \<Rightarrow> LocatorKey list" where
  "entry_key (Entry k) = [k]"
| "entry_key (Sep k) = []"

definition entry_keys :: "mark list \<Rightarrow> LocatorKey list" where
  "entry_keys ms = concat (map entry_key ms)"

lemma entry_keys_simps [simp]: "entry_keys [] = []" "entry_keys (m # ms) = entry_key m @ entry_keys ms" "entry_keys (ms @ ms') = entry_keys ms @ entry_keys ms'"
  by (simp_all add: entry_keys_def)

lemma entry_keys_concat: "entry_keys (concat mss) = concat (map entry_keys mss)"
  by (induction mss) simp_all

lemma entry_keys_weave: "entry_keys (weave ks mss) = concat (map entry_keys mss)"
  by (induction ks mss rule: weave.induct) (simp_all add: entry_keys_concat)

lemma entry_keys_flat: "entry_keys (flat t) = map fst (pairs t)"
proof (induction t)
  case (BLeaf i nx es)
  show ?case by (induction es) simp_all
next
  case (BNode i ks ts)
  then have "map (entry_keys \<circ> flat) ts = map (map fst \<circ> pairs) ts" by simp
  then show ?case by (simp only: flat.simps entry_keys_weave map_map pairs_simps map_concat)
qed

lemma sorted_entry_keys: "sorted_wrt mark_before ms \<Longrightarrow> sorted_wrt key_Less (entry_keys ms)"
proof (induction ms)
  case (Cons m ms)
  have "k \<in> set (entry_keys ms) \<Longrightarrow> Entry k \<in> set ms" for k 
  proof (induction ms)
    case (Cons m ms)
    then show ?case by (cases m) auto
  qed simp
  with Cons show ?case by (cases m) force+
qed simp

lemma bentries_keys: "map leKey (bentries t) = map fst (pairs t)"
  by (auto simp: bentries_def pairs_def leaf_entries_def map_concat comp_def intro!: arg_cong [where f = concat])

lemma bentries_pairs: "map (\<lambda>e. (leKey e, leValue e)) (bentries t) = pairs t"
proof -
  have "map (\<lambda>e. (leKey e, leValue e)) (leaf_entries l) = snd (snd l)" for l
    by (cases l) (auto simp: leaf_entries_def comp_def split_def intro: map_idI)
  then show ?thesis by (simp add: bentries_def pairs_def map_concat comp_def)
qed

section \<open>The size of a tree\<close>

lemma shape_size: "shape m d t \<Longrightarrow> length (bids t) < 2 * length (pairs t)"
proof (induction t arbitrary: d)
  case (BNode i ks ts)
  have "sum_list (map (\<lambda>t. length (bids t) + 1) ts) \<le> sum_list (map (\<lambda>t. 2 * length (pairs t)) ts)"
  proof (rule sum_list_mono)
    fix t assume "t \<in> set ts"
    then show "length (bids t) + 1 \<le> 2 * length (pairs t)" using BNode.IH [of t "d - 1"] BNode.prems by force
  qed
  moreover have "length (pairs (BNode i ks ts)) = sum_list (map (length \<circ> pairs) ts)"
    by (simp add: length_concat comp_def)
  moreover have "2 \<le> length ts" using BNode.prems by (cases ks) auto
  moreover have "sum_list (map (\<lambda>t. length (bids t) + 1) ts) = sum_list (map (length \<circ> bids) ts) + length ts" by (induction ts) simp_all
  ultimately show ?case by (simp add: length_concat comp_def sum_list_const_mult)
next
  case (BLeaf i nx es)
  then show ?case by (cases es) simp_all
qed

lemma shape_height: "shape m d t \<Longrightarrow> d < length (bids t)"
proof (induction t arbitrary: d)
  case (BNode i ks ts)
  then obtain t where t: "t \<in> set ts" by (cases ts) auto
  then have "d - 1 < length (bids t)" using BNode by simp
  also have "length (bids t) \<le> length (concat (map bids ts))" using t by (induction ts) auto
  finally show ?case by simp
qed simp

section \<open>The trees that insertion builds\<close>

definition represents :: "hash_fn \<Rightarrow> nat \<Rightarrow> LocatorTree \<Rightarrow> btree \<Rightarrow> bool" where
  "represents H m tree t \<longleftrightarrow> stored H tree t \<and> 3 \<le> m \<and> ltOrder tree = int m \<and> 0 \<le> ltHeight tree \<and>
     (shape m (nat (ltHeight tree)) t \<or> ltHeight tree = 0 \<and> no_entries t) \<and> sorted_wrt mark_before (flat t) \<and> linked (bleaves t) \<and>
     ltLeafCount tree = int (length (pairs t)) \<and> (\<forall>e \<in> set (pairs t). encodable_entry e) \<and> (\<forall>k. Sep k \<in> set (flat t) \<longrightarrow> encodable_key k)"

lemma represents_size:
  assumes "represents H m tree t"
  shows "ltNextPageID tree \<le> 2 * ltLeafCount tree + 1" and "ltHeight tree < ltNextPageID tree" and "0 \<le> ltLeafCount tree"
proof -
  have d: "distinct (bids t)" and s: "set (bids t) = {0..<ltNextPageID tree}" using assms by (auto simp: represents_def stored_def in_place_def)
  have "bid t \<in> {0..<ltNextPageID tree}" unfolding s [symmetric] by simp
  then have n: "int (length (bids t)) = ltNextPageID tree" using distinct_card [OF d] unfolding s by (auto simp: nat_eq_iff)
  have "length (bids t) < 2 * length (pairs t) \<or> length (bids t) = 1"
    using assms shape_size by (auto simp: represents_def no_entries_def)
  then show "ltNextPageID tree \<le> 2 * ltLeafCount tree + 1" using assms n by (auto simp: represents_def)
  show "ltHeight tree < ltNextPageID tree" using assms shape_height [of m "nat (ltHeight tree)" t] n by (auto simp: represents_def no_entries_def)
qed (use assms in \<open>simp add: represents_def\<close>)

lemma linked_split: "linked (xs @ (i, n, es) # ys) \<longleftrightarrow> linked (xs @ [(i, None, [])]) \<and> linked ((i, n, es) # ys)"
proof (induction xs)
  case (Cons x xs)
  obtain j k fs where x: "x = (j, k, fs)" by (cases x)
  show ?case using Cons by (cases xs) (auto simp: x)
qed simp

lemma linked_replace:
  assumes "linked (xs @ (i, n, es) # ys)"
  shows "linked (xs @ (i, n, es') # ys)" and "linked (xs @ (i, Some q, e1) # (q, n, e2) # ys)"
proof -
  have "linked (xs @ [(i, None, [])])" "linked ((i, n, es) # ys)" using assms linked_split by blast+
  moreover have "linked ((j, n, fs) # ys)" for j fs using calculation(2) by (cases ys) auto
  ultimately show "linked (xs @ (i, n, es') # ys)" "linked (xs @ (i, Some q, e1) # (q, n, e2) # ys)"
    by (subst linked_split, simp)+
qed

lemma findKeyIdx_entries: "mset (insert_at j e es) = add_mset e (mset es)"
proof -
  have "mset (take j es) + mset (drop j es) = mset es" by (metis append_take_drop_id mset_append)
  then show ?thesis by (simp add: insert_at_def)
qed

lemma inserted_leaf_leaves: "bleaves (inserted_leaf m q i nx es) =
    (if length es < m then [(i, nx, es)] else [(i, Some q, take (m div 2) es), (q, nx, drop (m div 2) es)])"
  by (simp add: inserted_leaf_def)

lemma inserted_leaf_flat:
  assumes "3 \<le> m" and "length es \<le> m" and "sorted_wrt mark_before (a @ map (Entry \<circ> fst) es @ b)"
  shows "sorted_wrt mark_before (a @ flat (inserted_leaf m q i nx es) @ b)"
    and "Sep k \<in> set (flat (inserted_leaf m q i nx es)) \<Longrightarrow> k \<in> fst ` set es"
proof -
  define mid where "mid = m div 2"
  have es: "map (Entry \<circ> fst) es = map (Entry \<circ> fst) (take mid es) @ Entry (fst (es ! mid)) # map (Entry \<circ> fst) (drop (Suc mid) es)" if "mid < length es"
    using arg_cong [OF id_take_nth_drop [OF that], of "map (Entry \<circ> fst)"] by simp
  have drop: "map (Entry \<circ> fst) (drop mid es) = Entry (fst (es ! mid)) # map (Entry \<circ> fst) (drop (Suc mid) es)" if "mid < length es"
    using Cons_nth_drop_Suc [OF that, symmetric] by simp
  show "sorted_wrt mark_before (a @ flat (inserted_leaf m q i nx es) @ b)"
  proof (cases "length es < m")
    case False
    then have mid: "mid < length es" using assms(1) by (simp add: mid_def)
    have "flat (inserted_leaf m q i nx es) = map (Entry \<circ> fst) (take mid es) @ Sep (fst (es ! mid)) # Entry (fst (es ! mid)) # map (Entry \<circ> fst) (drop (Suc mid) es)"
      using False drop [OF mid] by (simp add: inserted_leaf_def mid_def [symmetric])
    then show ?thesis
      using assms(3) sorted_insert_sep [of "a @ map (Entry \<circ> fst) (take mid es)" "fst (es ! mid)" "map (Entry \<circ> fst) (drop (Suc mid) es) @ b"]
      unfolding es [OF mid] by simp
  qed (use assms(3) in \<open>simp add: inserted_leaf_def\<close>)
  show "k \<in> fst ` set es" if "Sep k \<in> set (flat (inserted_leaf m q i nx es))"
  proof (cases "length es < m")
    case False
    then have "mid < length es" using assms(1) by (simp add: mid_def)
    then have "fst (es ! mid) \<in> fst ` set es" by simp
    then show ?thesis using that False by (auto simp: inserted_leaf_def mid_def [symmetric])
  qed (use that in \<open>auto simp: inserted_leaf_def\<close>)
qed

lemma insert_represents:
  assumes rep: "represents H m tree t" and fresh: "key \<notin> fst ` set (pairs t)" and enc: "encodable_entry (key, value)"
    and small: "ltLeafCount tree < 2 ^ 60" and fuel: "nat (ltHeight tree) + 2 \<le> n"
  shows "\<exists>tree' updates t'. tree_insert H n n key value tree (ltRootPage tree) [] = Inr (tree', updates) \<and> represents H m tree' t' \<and>
    mset (pairs t') = add_mset (key, value) (mset (pairs t)) \<and> covered [] updates (ltHeap tree) (ltHeap tree')"
proof -
  note size = represents_size [OF rep]
  have st: "in_place H tree t []" "hashed H (ltHeap tree) t" "ltRootPage tree = bid t" and m: "3 \<le> m" "ltOrder tree = int m"
    and sh: "shape m (nat (ltHeight tree)) t \<or> nat (ltHeight tree) = 0 \<and> no_entries t" and h0: "0 \<le> ltHeight tree"
    and sorted: "sorted_wrt mark_before (flat t)" and links: "linked (bleaves t)" and count: "ltLeafCount tree = int (length (pairs t))"
    using rep by (auto simp: represents_def stored_def)
  have pre: "0 < m" "cshape m (nat (ltHeight tree)) []" "\<forall>y. flat (plug y []) = [] @ flat y @ []" "nat (ltHeight tree) \<le> n" "around [] key []"
    using m(1) fuel by (simp_all add: around_def)
  obtain i nx es fs a b where d: "tree_insert H n n key value tree (bid t) [] = insert_leaf H n key value tree i []"
    "in_place H tree (BLeaf i nx es) fs" "plug (BLeaf i nx es) fs = t" "length es < m" "cshape m 0 fs" "length fs = nat (ltHeight tree)"
    "\<forall>y. flat (plug y fs) = a @ flat y @ b" "around a key b"
    using descend_ok [OF st(1,2) sh pre(1,2) sorted pre(3,5,4), of n "value" "[]"] unfolding plug.simps list.size add_0_right by blast
  define es' where "es' = insert_at (findKeyIdx (map fst es) key) (key, value) es"
  define q where "q = ltNextPageID tree"
  have ins: "named []" "length fs + 2 \<le> n" "q + int (length fs) + 4 < 2 ^ 63" "ltHeight tree = int (length fs)" "int64 (ltLeafCount tree + 1)"
    using fuel d(6) size small h0 by (simp_all add: q_def named_def int64_def)
  obtain tree' u' t' where r: "insert_leaf H n key value tree i [] = Inr (tree', u')" "stored H tree' t'"
    "same_order t' (plug (inserted_leaf m q i nx es') fs)" "shape m (nat (ltHeight tree')) t'" "0 \<le> ltHeight tree'"
    "ltLeafCount tree' = ltLeafCount tree + 1" "ltOrder tree' = ltOrder tree" "covered [] u' (ltHeap tree) (ltHeap tree')"
    using insert_leaf_ok [OF d(2) ins(1) d(4) m(1) d(5) m(2) ins(2) ins(3) [unfolded q_def] ins(4,5) es'_def] unfolding q_def by blast
  obtain la lb where l: "\<And>y. bleaves (plug y fs) = la @ bleaves y @ lb" using context_leaves by blast
  have leaves: "bleaves t = la @ [(i, nx, es)] @ lb" "bleaves t' = la @ bleaves (inserted_leaf m q i nx es') @ lb"
    using l d(3) r(3) by (auto simp: same_order_def)
  have fl: "flat t = a @ map (Entry \<circ> fst) es @ b" "flat t' = a @ flat (inserted_leaf m q i nx es') @ b"
    using d(3,7) r(3) by (auto simp: same_order_def)
  have idx: "findKeyIdx (map fst es) key \<le> length es" using findKeyIdx_le [of "map fst es" key] by simp
  have len: "length es' \<le> m" using d(4) idx by (simp add: es'_def insert_at_def)
  have "concat (map (snd \<circ> snd) (bleaves (inserted_leaf m q i nx es'))) = es'" by (simp add: inserted_leaf_leaves)
  then have pairs: "pairs t = concat (map (snd \<circ> snd) la) @ es @ concat (map (snd \<circ> snd) lb)"
    "pairs t' = concat (map (snd \<circ> snd) la) @ es' @ concat (map (snd \<circ> snd) lb)" by (simp_all add: pairs_def leaves)
  have ms: "mset (pairs t') = add_mset (key, value) (mset (pairs t))" by (simp add: pairs es'_def findKeyIdx_entries)
  then have set: "set (pairs t') = insert (key, value) (set (pairs t))" by (metis set_mset_add_mset_insert set_mset_mset)
  have "key \<notin> set (map fst es)" using fresh by (auto simp: pairs)
  then have "sorted_wrt mark_before (a @ map Entry (insert_at (findKeyIdx (map fst es) key) key (map fst es)) @ b)"
    using sorted d(8) by (intro sorted_insert_leaf) (simp_all add: fl)
  also have "map Entry (insert_at (findKeyIdx (map fst es) key) key (map fst es)) = map (Entry \<circ> fst) es'"
    by (simp add: es'_def insert_at_def take_map drop_map)
  finally have s': "sorted_wrt mark_before (a @ map (Entry \<circ> fst) es' @ b)" .
  have "linked (bleaves t')" using linked_replace links unfolding leaves inserted_leaf_leaves by (auto simp del: linked.simps)
  moreover have "sorted_wrt mark_before (flat t')" unfolding fl by (rule inserted_leaf_flat [OF m(1) len s'])
  moreover have enc': "\<forall>e \<in> set (pairs t'). encodable_entry e" using rep enc set by (auto simp: represents_def)
  moreover have "encodable_key k" if "Sep k \<in> set (flat t')" for k
  proof (cases "Sep k \<in> set (flat t)")
    case True
    then show ?thesis using rep by (simp add: represents_def)
  next
    case False
    then have "k \<in> fst ` set es'" using that inserted_leaf_flat(2) [OF m(1) len s'] fl by auto
    then show ?thesis using enc' by (auto simp: pairs encodable_entry_def)
  qed
  moreover have "length (pairs t') = Suc (length (pairs t))" using arg_cong [OF ms, of size] by simp
  ultimately have "represents H m tree' t'" using r m count by (auto simp: represents_def)
  then show ?thesis using r(1,8) d(1) st(3) ms by auto
qed

lemma NewLocatorTree_represents:
  assumes "3 \<le> m"
  shows "\<exists>tree. NewLocatorTree H (int m) = Inr tree \<and> represents H m tree (BLeaf 0 None [])"
proof -
  have "addressed (empty_page(0 := (empty_page 0)\<lparr>pgIsLeaf := True, pgHash := h\<rparr>))" for h by (simp add: addressed_def empty_page_def)
  moreover have "{0::int} = {0..<1}" by auto
  ultimately show ?thesis using assms
    by (simp add: NewLocatorTree_def Let_def leafHash_def represents_def stored_def in_place_def leaf_page_def no_entries_def)
      (simp add: empty_page_def)
qed

section \<open>What the tree is to its readers\<close>

lemma weave_seps: "Sep k \<in> set (weave ks ms) \<Longrightarrow> k \<in> set ks \<or> (\<exists>m \<in> set ms. Sep k \<in> set m)"
  by (induction ks ms rule: weave.induct) auto

lemma weave_all_seps: "length ms = length ks + 1 \<Longrightarrow> k \<in> set ks \<Longrightarrow> Sep k \<in> set (weave ks ms)"
proof (induction ks ms rule: weave.induct)
  case (3 k' ks m ms)
  then show ?case by (cases ms) auto
qed auto

lemma weave_parts: "m \<in> set ms \<Longrightarrow> set m \<subseteq> set (weave ks ms)"
  by (induction ks ms rule: weave.induct) auto

lemma typed_tree_leaves:
  assumes "shape m d t" and "\<forall>l \<in> set (bleaves t). typed_leaf l" and "\<forall>k. Sep k \<in> set (flat t) \<longrightarrow> encodable_key k"
  shows "typed_tree t"
  using assms
proof (induction t arbitrary: d)
  case (BNode i ks ts)
  have "typed_tree t" if "t \<in> set ts" for t
  proof (rule BNode.IH [OF that, of "d - 1"])
    show "shape m (d - 1) t" using BNode.prems(1) that by simp
    show "\<forall>l \<in> set (bleaves t). typed_leaf l" using BNode.prems(2) that by auto
    have "set (flat t) \<subseteq> set (flat (BNode i ks ts))" using weave_parts [of "flat t" "map flat ts" ks] that by simp
    then show "\<forall>k. Sep k \<in> set (flat t) \<longrightarrow> encodable_key k" using BNode.prems(3) by auto
  qed
  moreover have "\<forall>k \<in> set ks. encodable_key k" using BNode.prems(1,3) weave_all_seps [of "map flat ts" ks] by simp
  ultimately show ?case using BNode.prems(1) by simp
qed simp

lemma leaf_ids: "set (map fst (bleaves t)) \<subseteq> set (bids t)"
  by (induction t) fastforce+

lemma distinct_leaf_ids: "distinct (bids t) \<Longrightarrow> distinct (map fst (bleaves t))"
proof (induction t)
  case (BNode i ks ts)
  then have "distinct (concat (map bids ts))" by simp
  with BNode.IH have "distinct (concat (map (\<lambda>t. map fst (bleaves t)) ts))"
  proof (induction ts)
    case (Cons t ts)
    have "set (concat (map (\<lambda>t. map fst (bleaves t)) ts)) \<subseteq> set (concat (map bids ts))" using leaf_ids by fastforce
    with Cons leaf_ids [of t] show ?case by (auto simp del: set_concat)
  qed simp
  then show ?case by (simp add: map_concat comp_def)
qed simp

lemma represents_locator_tree:
  assumes rep: "represents H m tree t" and small: "ltLeafCount tree < 2 ^ 61"
  shows "locator_tree t"
proof -
  have ids: "set (bids t) = {0..<ltNextPageID tree}" "distinct (bids t)" and links: "linked (bleaves t)"
    and enc: "\<forall>e \<in> set (pairs t). encodable_entry e" "\<forall>k. Sep k \<in> set (flat t) \<longrightarrow> encodable_key k"
    using rep by (auto simp: represents_def stored_def in_place_def)
  have i64: "int64 i" if "i \<in> set (map fst (bleaves t))" for i
    using that leaf_ids [of t] ids(1) represents_size [OF rep] small by (auto simp: int64_def)
  have typed: "typed_leaf l" if lt: "l \<in> set (bleaves t)" for l
  proof -
    obtain i nx es where l: "l = (i, nx, es)" by (cases l)
    obtain pre post where split: "bleaves t = pre @ (i, nx, es) # post" using lt l by (meson split_list)
    then have "nx = map_option fst (if post = [] then None else Some (hd post))" using linked_next links by metis
    then have "int64 j" if "nx = Some j" for j using that i64 split by (cases post) auto
    moreover have "\<forall>e \<in> set es. encodable_entry e" using enc(1) split by (auto simp: pairs_def)
    moreover have "int64 i" using i64 split by simp
    ultimately show ?thesis by (simp add: l)
  qed
  have "typed_tree t"
  proof (cases "no_entries t")
    case True
    then show ?thesis using typed by (auto simp: no_entries_def)
  next
    case False
    then have "shape m (nat (ltHeight tree)) t" using rep by (auto simp: represents_def)
    then show ?thesis using typed_tree_leaves typed enc(2) by blast
  qed
  moreover have "ordered (bentries t)"
    using sorted_entry_keys [of "flat t"] rep by (simp add: ordered_def bentries_keys entry_keys_flat represents_def)
  ultimately show ?thesis using links distinct_leaf_ids [OF ids(2)] by (simp add: locator_tree_def)
qed

lemma updates_pages_set:
  assumes "named updates"
  shows "set (updates_pages tree updates) = ltHeap tree ` set (gm_keys updates)"
    and "addressed (ltHeap tree) \<Longrightarrow> map pgPageID (updates_pages tree updates) = sort_Slice (<) (gm_keys updates)"
proof -
  have "gm_get 0 (map_of updates) p = p" if key: "p \<in> set (gm_keys updates)" for p
  proof -
    obtain r where r: "(p, r) \<in> set updates" using key by auto
    then have "p = r" using assms by (auto simp: named_def)
    then show ?thesis using r assms gm_mem_iff [of updates p r] by (simp add: named_def gm_get_def)
  qed
  then have eq: "updates_pages tree updates = map (ltHeap tree) (sort_Slice (<) (gm_keys updates))" by (simp add: updates_pages_def)
  show "set (updates_pages tree updates) = ltHeap tree ` set (gm_keys updates)" by (simp only: eq set_map set_sort_Slice)
  show "map pgPageID (updates_pages tree updates) = sort_Slice (<) (gm_keys updates)" if "addressed (ltHeap tree)"
    using that by (simp add: eq comp_def)
qed

lemma sorted_pairs_unique:
  assumes "sorted_wrt key_Less (map fst xs)" and "mset xs = mset ys"
  shows "xs = map (\<lambda>k. (k, the (map_of ys k))) (sort_Slice key_Less (map fst ys))"
proof -
  have d: "distinct (map fst xs)" using assms(1) by (rule key_order.sorted_distinct)
  have ms: "mset (map fst xs) = mset (map fst ys)" using assms(2) by (metis mset_map)
  then have keys: "sort_Slice key_Less (map fst ys) = map fst xs"
    using assms(1) d mset_distinct [OF ms] by (intro key_order.sort_Slice_unique) simp_all
  have "map_of ys k = Some v" if "(k, v) \<in> set xs" for k v
    using that d ms assms(2) by (metis map_of_is_SomeI mset_eq_imp_distinct_iff mset_eq_setD)
  then have "map (\<lambda>k. (k, the (map_of ys k))) (map fst xs) = xs" by (auto intro: map_idI)
  then show ?thesis by (simp only: keys)
qed

section \<open>Insertion\<close>

lemma InsertWithUpdate_represents:
  assumes "represents H m tree t" and "key \<notin> fst ` set (pairs t)" and "encodable_entry (key, value)"
    and "ltLeafCount tree < 2 ^ 60" and "nat (ltHeight tree) + 2 \<le> n"
  shows "\<exists>tree' update t'. InsertWithUpdate H n tree key value (ltRootPage tree) = Inr (tree', update) \<and> represents H m tree' t' \<and>
    mset (pairs t') = add_mset (key, value) (mset (pairs t)) \<and>
    update = \<lparr>luPages = luPages update, luRootPageID = bid t', luRootHash = bhash H t', luNextPageID = ltNextPageID tree',
      luHeight = ltHeight tree', luRecordCount = ltLeafCount tree + 1\<rparr> \<and>
    (\<forall>p. ltHeap tree' p = ltHeap tree p \<or> ltHeap tree' p \<in> set (luPages update)) \<and>
    sorted_wrt (<) (map pgPageID (luPages update)) \<and> set (luPages update) \<subseteq> range (ltHeap tree')"
proof -
  obtain tree' u t' where r: "tree_insert H n n key value tree (ltRootPage tree) [] = Inr (tree', u)" "represents H m tree' t'"
    "mset (pairs t') = add_mset (key, value) (mset (pairs t))" "covered [] u (ltHeap tree) (ltHeap tree')"
    using insert_represents [OF assms] by blast
  have n: "named u" and a: "addressed (ltHeap tree')" using r(2,4) by (auto simp: covered_def represents_def stored_def in_place_def)
  let ?pages = "updates_pages tree' u"
  have "ltHeap tree' p = ltHeap tree p \<or> ltHeap tree' p \<in> set ?pages" for p
    using r(4) unfolding covered_def updates_pages_set(1) [OF n, of tree'] by blast
  moreover have "sorted_wrt (<) (map pgPageID ?pages)" unfolding updates_pages_set(2) [OF n a]
    using n by (intro int_less.sorted_sort_Slice) (simp add: named_def gm_wf_def)
  moreover have "set ?pages \<subseteq> range (ltHeap tree')" using updates_pages_set(1) [OF n, of tree'] by auto
  moreover have "ltRootPageID tree' = bid t'" "ltRootHash tree' = bhash H t'" "ltLeafCount tree' = ltLeafCount tree + 1"
    using r(2,3) assms(1) by (auto simp: represents_def stored_def dest: arg_cong [where f = size])
  ultimately show ?thesis using r(1-3) by (auto simp: InsertWithUpdate_def intro!: exI [of _ t'])
qed

definition insert_all :: "hash_fn \<Rightarrow> nat \<Rightarrow> LocatorTree \<Rightarrow> (LocatorKey \<times> LocatorValue option) list \<Rightarrow> LocatorTree result" where
  "insert_all H n = rfold (\<lambda>tree (key, value). rbind (InsertWithUpdate H n tree key value (ltRootPage tree)) (\<lambda>(tree, update). Inr tree))"

lemma insert_all_represents:
  assumes "represents H m tree t" and "distinct (map fst (pairs t @ kvs))" and "\<forall>e \<in> set kvs. encodable_entry e"
    and "length (pairs t @ kvs) < 2 ^ 60" and "2 * length (pairs t @ kvs) + 3 \<le> n"
  shows "\<exists>tree' t'. insert_all H n tree kvs = Inr tree' \<and> represents H m tree' t' \<and> mset (pairs t') = mset (pairs t @ kvs)"
  using assms
proof (induction kvs arbitrary: tree t)
  case Nil
  then show ?case by (auto simp: insert_all_def)
next
  case (Cons e kvs)
  obtain key v where e: "e = (key, v)" by (cases e)
  have count: "ltLeafCount tree = int (length (pairs t))" using Cons.prems(1) by (simp add: represents_def)
  have small: "ltLeafCount tree < 2 ^ 60" using Cons.prems(4) count by simp
  have fuel: "nat (ltHeight tree) + 2 \<le> n" using represents_size [OF Cons.prems(1)] Cons.prems(5) count by simp
  have fresh: "key \<notin> fst ` set (pairs t)" "encodable_entry (key, v)" using Cons.prems(2,3) e by auto
  obtain tree1 u t1 where r: "InsertWithUpdate H n tree key v (ltRootPage tree) = Inr (tree1, u)" "represents H m tree1 t1"
    "mset (pairs t1) = add_mset (key, v) (mset (pairs t))"
    using InsertWithUpdate_represents [OF Cons.prems(1) fresh small fuel] by blast
  have ms: "mset (pairs t1 @ kvs) = mset (pairs t @ e # kvs)" using r(3) by (simp add: e)
  then have "mset (map fst (pairs t1 @ kvs)) = mset (map fst (pairs t @ e # kvs))" unfolding mset_map by simp
  then have "distinct (map fst (pairs t1 @ kvs))" using Cons.prems(2) mset_eq_imp_distinct_iff by blast
  moreover have "length (pairs t1 @ kvs) = length (pairs t @ e # kvs)" using ms by (metis size_mset)
  ultimately obtain tree' t' where "insert_all H n tree1 kvs = Inr tree'" "represents H m tree' t'" "mset (pairs t') = mset (pairs t1 @ kvs)"
    using Cons.IH [OF r(2)] Cons.prems(3-5) by auto
  then show ?case using r(1) ms by (auto simp: insert_all_def e)
qed

text \<open>C11: \<^verbatim>\<open>InsertWithUpdate\<close> keeps the locator tree. Started on a tree of pages that represents a balanced
  B+ tree of the order of the tree (every node within its bounds, all leaves at the depth
  \<^verbatim>\<open>Height\<close>, linked leaves, sorted keys and separators, hashes up to date, page identifiers counted
  by \<^verbatim>\<open>NextPageID\<close>), the insertion of a new key ends without a panic, the new tree represents a tree
  of the same kind with that one entry more, the update carries its root, its root hash and counters,
  and every page that the insertion changed is in the update as it is in the tree. The recursions are
  no deeper than \<^verbatim>\<open>Height\<close> plus two.\<close>

theorem insertion_keeps_the_tree:
  assumes "represents H m tree t" and "key \<notin> fst ` set (pairs t)" and "encodable_entry (key, value)"
    and "ltLeafCount tree < 2 ^ 60" and "nat (ltHeight tree) + 2 \<le> n"
  shows "\<exists>tree' update t'. InsertWithUpdate H n tree key value (ltRootPage tree) = Inr (tree', update) \<and> represents H m tree' t' \<and>
    locator_tree t' \<and> mset (pairs t') = add_mset (key, value) (mset (pairs t)) \<and>
    luRootPageID update = bid t' \<and> luRootHash update = bhash H t' \<and> luRecordCount update = ltLeafCount tree + 1 \<and>
    (\<forall>p. ltHeap tree' p = ltHeap tree p \<or> ltHeap tree' p \<in> set (luPages update)) \<and>
    sorted_wrt (<) (map pgPageID (luPages update)) \<and> set (luPages update) \<subseteq> range (ltHeap tree')"
proof -
  obtain tree' u t' where r: "InsertWithUpdate H n tree key value (ltRootPage tree) = Inr (tree', u)" "represents H m tree' t'"
    "mset (pairs t') = add_mset (key, value) (mset (pairs t))"
    "u = \<lparr>luPages = luPages u, luRootPageID = bid t', luRootHash = bhash H t', luNextPageID = ltNextPageID tree',
      luHeight = ltHeight tree', luRecordCount = ltLeafCount tree + 1\<rparr>"
    "\<forall>p. ltHeap tree' p = ltHeap tree p \<or> ltHeap tree' p \<in> set (luPages u)"
    "sorted_wrt (<) (map pgPageID (luPages u))" "set (luPages u) \<subseteq> range (ltHeap tree')"
    using InsertWithUpdate_represents [OF assms] by blast
  have "ltLeafCount tree' = ltLeafCount tree + 1" using r(2,3) assms(1) by (auto simp: represents_def dest: arg_cong [where f = size])
  then have "locator_tree t'" using represents_locator_tree [OF r(2)] assms(4) by simp
  moreover have "luRootPageID u = bid t'" "luRootHash u = bhash H t'" "luRecordCount u = ltLeafCount tree + 1" by (subst r(4), simp)+
  ultimately show ?thesis using r(1-3,5-7) by blast
qed

theorem insertion_keeps_the_tree_witness:
  "\<exists>tree tree' update t'. NewLocatorTree len_hash 3 = Inr tree \<and>
    InsertWithUpdate len_hash 2 tree (key_at 5) None (ltRootPage tree) = Inr (tree', update) \<and> represents len_hash 3 tree' t' \<and>
    mset (pairs t') = {#(key_at 5, None)#} \<and> luRootHash update = bhash len_hash t'"
proof -
  obtain tree where t: "NewLocatorTree len_hash 3 = Inr tree" "represents len_hash 3 tree (BLeaf 0 None [])"
    using NewLocatorTree_represents [of 3 len_hash] by auto
  then have "ltLeafCount tree = 0" "ltHeight tree = 0" by (auto simp: represents_def)
  then show ?thesis
    using insertion_keeps_the_tree [OF t(2), of "key_at 5" None 2] t(1) by (auto simp: encodable_entry_def encodable_value_def int64_def)
qed

text \<open>C8: A new tree of order at least three, with any entries with distinct keys inserted in any order, is
  the sorted list of the entries: no insertion fails, the root hash the tree ends with is that of a
  locator tree (the trees for which range proofs are exact) whose entries are those inserted, sorted
  by key, balanced with all leaves at the depth that \<^verbatim>\<open>Height\<close> counts and no node above the order.\<close>

theorem inserted_entries_are_sorted:
  assumes "3 \<le> m" and "distinct (map fst kvs)" and "\<forall>e \<in> set kvs. encodable_entry e" and "length kvs < 2 ^ 60"
    and "2 * length kvs + 3 \<le> n" and "kvs \<noteq> []"
  shows "\<exists>new tree t. NewLocatorTree H (int m) = Inr new \<and> insert_all H n new kvs = Inr tree \<and> ltRootHash tree = bhash H t \<and>
    locator_tree t \<and> shape m (nat (ltHeight tree)) t \<and>
    map (\<lambda>e. (leKey e, leValue e)) (bentries t) = map (\<lambda>k. (k, the (map_of kvs k))) (sort_Slice key_Less (map fst kvs))"
proof -
  obtain new where new: "NewLocatorTree H (int m) = Inr new" "represents H m new (BLeaf 0 None [])"
    using NewLocatorTree_represents [OF assms(1)] by blast
  obtain tree t where r: "insert_all H n new kvs = Inr tree" "represents H m tree t" "mset (pairs t) = mset kvs"
    using insert_all_represents [OF new(2), of kvs n] assms(2-5) by auto
  have "length (pairs t) = length kvs" using r(3) by (metis size_mset)
  then have lt: "locator_tree t" using represents_locator_tree [OF r(2)] assms(4) r(2) by (simp add: represents_def)
  have "sorted_wrt key_Less (map fst (pairs t))" using lt by (simp add: locator_tree_def ordered_def bentries_keys)
  then have "pairs t = map (\<lambda>k. (k, the (map_of kvs k))) (sort_Slice key_Less (map fst kvs))" using sorted_pairs_unique r(3) by blast
  moreover have "\<not> no_entries t" using r(3) assms(6) by (auto simp: no_entries_def)
  then have "shape m (nat (ltHeight tree)) t" using r(2) by (auto simp: represents_def)
  moreover have "ltRootHash tree = bhash H t" using r(2) by (simp add: represents_def stored_def)
  ultimately show ?thesis using new(1) r(1) lt bentries_pairs by auto
qed

theorem inserted_entries_are_sorted_witness:
  "\<exists>new tree t. NewLocatorTree len_hash 3 = Inr new \<and>
    insert_all len_hash 9 new [(key_at 30, None), (key_at 10, None), (key_at 20, None)] = Inr tree \<and> ltRootHash tree = bhash len_hash t \<and>
    locator_tree t \<and> map (\<lambda>e. (leKey e, leValue e)) (bentries t) = [(key_at 10, None), (key_at 20, None), (key_at 30, None)]"
proof -
  let ?kvs = "[(key_at 30, None), (key_at 10, None), (key_at 20, None)]"
  have pre: "3 \<le> (3::nat)" "distinct (map fst ?kvs)" "\<forall>e \<in> set ?kvs. encodable_entry e" "length ?kvs < 2 ^ 60" "2 * length ?kvs + 3 \<le> 9" "?kvs \<noteq> []"
    by (simp_all add: encodable_entry_def encodable_value_def int64_def)
  have "map (\<lambda>k. (k, the (map_of ?kvs k))) (sort_Slice key_Less (map fst ?kvs)) = [(key_at 10, None), (key_at 20, None), (key_at 30, None)]"
    by (simp add: sort_Slice_def)
  with inserted_entries_are_sorted [OF pre, of len_hash] show ?thesis unfolding of_nat_numeral by (elim exE conjE) (intro exI conjI; assumption?; simp only:)
qed

end
