(* ===== verification/Locator_Worker.thy ===== *)
theory Locator_Worker
  imports Locator_Tree_Properties
begin

text \<open>
  \<^verbatim>\<open>internal/all/all.go\<close>: the worker that owns the locator tree. Clients submit requests, one worker inserts
  them and sends the updates on, a consumer receives the updates. A \<^verbatim>\<open>select\<close> statement is the list of
  what its ready cases do, and an empty list means that it blocks; the interleavings of clients,
  worker and consumer are a step relation. The system state also records the requests that were
  accepted and the updates that were received.
\<close>

section \<open>The operations\<close>

record LocatorRequest =
  rqKey :: LocatorKey
  rqValue :: LocatorValue

record ALLState =
  allTreeID :: string
  allLocatorTree :: LocatorTree
  allOrder :: int
  allPagesPerBucket :: int
  allRequests :: "LocatorRequest list"
  allUpdates :: "int LocatorUpdate list"
  allStopClosed :: bool
  allDoneClosed :: bool
  allRunning :: bool
  allStopped :: bool

definition LocatorTreeID :: string where
  "LocatorTreeID = ''ALL''"

definition NewALL :: "hash_fn \<Rightarrow> int \<Rightarrow> int \<Rightarrow> ALLState result" where
  "NewALL H order pagesPerBucket =
     (if order < 3 then Inl (Errorf ''new ALL: order must be at least 3'')
      else if pagesPerBucket \<le> 0 then Inl (Errorf ''new ALL: pages per bucket must be positive'')
      else rbind (NewLocatorTree H order) (\<lambda>tree.
        Inr \<lparr>allTreeID = LocatorTreeID, allLocatorTree = tree, allOrder = order, allPagesPerBucket = pagesPerBucket, allRequests = [],
          allUpdates = [], allStopClosed = False, allDoneClosed = False, allRunning = False, allStopped = False\<rparr>))"

definition Submit :: "ALLState \<Rightarrow> LocatorRequest \<Rightarrow> (ALLState \<times> unit result) list" where
  "Submit all request =
     (if length (allRequests all) < 1024 then [(all\<lparr>allRequests := allRequests all @ [request]\<rparr>, Inr ())] else []) @
     (if allStopClosed all then [(all, Inl (Errorf ''submit ALL: worker stopped''))] else []) @
     (if allDoneClosed all then [(all, Inl (Errorf ''submit ALL: worker stopped''))] else [])"

text \<open>Receiving from the channel that \<^verbatim>\<open>Updates\<close> returns.\<close>

definition Updates :: "ALLState \<Rightarrow> (ALLState \<times> int LocatorUpdate) option" where
  "Updates all = (case allUpdates all of [] \<Rightarrow> None | update # rest \<Rightarrow> Some (all\<lparr>allUpdates := rest\<rparr>, update))"

text \<open>Where the worker is; \<open>Crashed\<close> is a panic, with the request it happened on.\<close>

datatype worker = Idle | Selecting | Sending "int LocatorUpdate" | Returned | Crashed LocatorRequest error

definition run_start :: "ALLState \<Rightarrow> ALLState \<times> worker" where
  "run_start all = (if allRunning all \<or> allStopped all then (all, Returned) else (all\<lparr>allRunning := True\<rparr>, Selecting))"

definition run_exit :: "ALLState \<Rightarrow> ALLState \<times> worker" where
  "run_exit all = (all\<lparr>allRunning := False, allStopped := True, allDoneClosed := True\<rparr>, Returned)"

definition run_request :: "hash_fn \<Rightarrow> nat \<Rightarrow> ALLState \<Rightarrow> LocatorRequest \<Rightarrow> ALLState \<times> worker" where
  "run_request H n all request =
     (case InsertWithUpdate H n (allLocatorTree all) (rqKey request) (Some (rqValue request)) (ltRootPage (allLocatorTree all)) of
        Inl e \<Rightarrow> (all, Crashed request e)
      | Inr (tree, update) \<Rightarrow> (all\<lparr>allLocatorTree := tree\<rparr>, Sending update))"

definition run_select :: "hash_fn \<Rightarrow> nat \<Rightarrow> bool \<Rightarrow> ALLState \<Rightarrow> (ALLState \<times> worker) list" where
  "run_select H n ctxDone all =
     (if ctxDone then [run_exit all] else []) @ (if allStopClosed all then [run_exit all] else []) @
     (case allRequests all of [] \<Rightarrow> [] | request # rest \<Rightarrow> [run_request H n (all\<lparr>allRequests := rest\<rparr>) request])"

definition run_send :: "ALLState \<Rightarrow> int LocatorUpdate \<Rightarrow> (ALLState \<times> worker) list" where
  "run_send all update = (if length (allUpdates all) < 256 then [(all\<lparr>allUpdates := allUpdates all @ [update]\<rparr>, Selecting)] else [])"

text \<open>One step of \<^verbatim>\<open>Run\<close>.\<close>

fun run_step :: "hash_fn \<Rightarrow> nat \<Rightarrow> bool \<Rightarrow> ALLState \<Rightarrow> worker \<Rightarrow> (ALLState \<times> worker) list" where
  "run_step H n ctxDone all Idle = [run_start all]"
| "run_step H n ctxDone all Selecting = run_select H n ctxDone all"
| "run_step H n ctxDone all (Sending update) = run_send all update"
| "run_step H n ctxDone all Returned = []"
| "run_step H n ctxDone all (Crashed request e) = []"

text \<open>\<^verbatim>\<open>Stop\<close>: the part under the lock, and the wait, which is done at once when the worker does not run.\<close>

definition Stop :: "ALLState \<Rightarrow> ALLState \<times> bool" where
  "Stop all = ((if allStopped all then all else all\<lparr>allStopped := True, allStopClosed := True\<rparr>), allRunning all)"

definition stop_wait :: "error option \<Rightarrow> ALLState \<Rightarrow> bool \<Rightarrow> unit result list" where
  "stop_wait ctxErr all running =
     (if \<not> running then [Inr ()]
      else (if allDoneClosed all then [Inr ()] else []) @ (case ctxErr of None \<Rightarrow> [] | Some e \<Rightarrow> [Inl e]))"

section \<open>The system\<close>

record system =
  sysALL :: ALLState
  sysWorker :: worker
  sysAccepted :: "LocatorRequest list"
  sysReceived :: "int LocatorUpdate list"

inductive all_step :: "hash_fn \<Rightarrow> nat \<Rightarrow> system \<Rightarrow> system \<Rightarrow> bool" for H :: hash_fn and n :: nat where
  submit: "(all, Inr ()) \<in> set (Submit (sysALL s) request) \<Longrightarrow> all_step H n s (s\<lparr>sysALL := all, sysAccepted := sysAccepted s @ [request]\<rparr>)"
| reject: "(all, Inl e) \<in> set (Submit (sysALL s) request) \<Longrightarrow> all_step H n s (s\<lparr>sysALL := all\<rparr>)"
| run: "(all, w) \<in> set (run_step H n ctxDone (sysALL s) (sysWorker s)) \<Longrightarrow> all_step H n s (s\<lparr>sysALL := all, sysWorker := w\<rparr>)"
| receive: "Updates (sysALL s) = Some (all, update) \<Longrightarrow> all_step H n s (s\<lparr>sysALL := all, sysReceived := sysReceived s @ [update]\<rparr>)"
| stop: "Stop (sysALL s) = (all, running) \<Longrightarrow> all_step H n s (s\<lparr>sysALL := all\<rparr>)"

definition system_of :: "ALLState \<Rightarrow> system" where
  "system_of all = \<lparr>sysALL = all, sysWorker = Idle, sysAccepted = [], sysReceived = []\<rparr>"

definition all_reach :: "hash_fn \<Rightarrow> nat \<Rightarrow> ALLState \<Rightarrow> system \<Rightarrow> bool" where
  "all_reach H n all s \<longleftrightarrow> (all_step H n)\<^sup>*\<^sup>* (system_of all) s"

section \<open>What the worker has done\<close>

definition entry_of :: "LocatorRequest \<Rightarrow> LocatorKey \<times> LocatorValue option" where
  "entry_of request = (rqKey request, Some (rqValue request))"

definition insert_request :: "hash_fn \<Rightarrow> nat \<Rightarrow> LocatorTree \<times> int LocatorUpdate list \<Rightarrow> LocatorRequest \<Rightarrow> (LocatorTree \<times> int LocatorUpdate list) result" where
  "insert_request H n = (\<lambda>(tree, us) request.
     rbind (InsertWithUpdate H n tree (rqKey request) (Some (rqValue request)) (ltRootPage tree)) (\<lambda>(tree, u). Inr (tree, us @ [u])))"

definition insert_requests :: "hash_fn \<Rightarrow> nat \<Rightarrow> LocatorTree \<Rightarrow> LocatorRequest list \<Rightarrow> (LocatorTree \<times> int LocatorUpdate list) result" where
  "insert_requests H n tree = rfold (insert_request H n) (tree, [])"

fun in_flight :: "worker \<Rightarrow> int LocatorUpdate list" where
  "in_flight (Sending u) = [u]"
| "in_flight w = []"

fun failed :: "worker \<Rightarrow> LocatorRequest list" where
  "failed (Crashed request e) = [request]"
| "failed w = []"

definition in_order :: "hash_fn \<Rightarrow> nat \<Rightarrow> LocatorTree \<Rightarrow> system \<Rightarrow> LocatorRequest list \<Rightarrow> bool" where
  "in_order H n new s processed \<longleftrightarrow> sysAccepted s = processed @ failed (sysWorker s) @ allRequests (sysALL s) \<and>
     insert_requests H n new processed =
       Inr (allLocatorTree (sysALL s), sysReceived s @ allUpdates (sysALL s) @ in_flight (sysWorker s)) \<and>
     (\<forall>request e. sysWorker s = Crashed request e \<longrightarrow> InsertWithUpdate H n (allLocatorTree (sysALL s)) (rqKey request)
       (Some (rqValue request)) (ltRootPage (allLocatorTree (sysALL s))) = Inl e)"

lemma insert_requests_snoc: "insert_requests H n tree (rs @ [request]) = rbind (insert_requests H n tree rs) (\<lambda>st. insert_request H n st request)"
  by (simp add: insert_requests_def rfold_append)

lemma run_keeps_order:
  assumes "in_order H n new s processed" and "(all, w) \<in> set (run_step H n c (sysALL s) (sysWorker s))"
  shows "\<exists>processed'. in_order H n new (s\<lparr>sysALL := all, sysWorker := w\<rparr>) processed'"
proof (cases "sysWorker s")
  case Selecting
  show ?thesis
  proof (cases "(all, w) = run_exit (sysALL s)")
    case True
    then show ?thesis using assms(1) Selecting by (intro exI [of _ processed]) (auto simp: run_exit_def in_order_def)
  next
    case False
    then obtain request rest where r: "allRequests (sysALL s) = request # rest"
      "(all, w) = run_request H n ((sysALL s)\<lparr>allRequests := rest\<rparr>) request"
      using assms(2) Selecting by (cases "allRequests (sysALL s)") (auto simp: run_select_def split: if_splits)
    let ?tree = "allLocatorTree (sysALL s)"
    show ?thesis
    proof (cases "InsertWithUpdate H n ?tree (rqKey request) (Some (rqValue request)) (ltRootPage ?tree)")
      case (Inl e)
      with r assms(1) Selecting show ?thesis by (intro exI [of _ processed]) (auto simp: run_request_def in_order_def)
    next
      case (Inr tu)
      with r assms(1) Selecting show ?thesis
        by (intro exI [of _ "processed @ [request]"], cases tu)
          (auto simp: run_request_def in_order_def insert_requests_snoc insert_request_def)
    qed
  qed
qed (use assms in \<open>auto simp: run_start_def run_send_def in_order_def split: if_splits\<close>)

lemma reachable_in_order:
  assumes "all_reach H n all s" and "NewALL H order ppb = Inr all"
  shows "\<exists>processed. in_order H n (allLocatorTree all) s processed"
  using assms(1) unfolding all_reach_def
proof (induction rule: rtranclp_induct)
  case base
  show ?case using assms(2)
    by (intro exI [of _ "[]"]) (auto simp: in_order_def system_of_def insert_requests_def NewALL_def split: if_splits)
next
  case (step s s')
  then obtain processed where ord: "in_order H n (allLocatorTree all) s processed" by blast
  from step(2) show ?case
  proof cases
    case (run all' w c)
    then show ?thesis using run_keeps_order [OF ord] by blast
  qed (use ord in \<open>(intro exI [of _ processed], auto simp: in_order_def Submit_def Updates_def Stop_def split: if_splits list.splits)\<close>)
qed

section \<open>The published roots\<close>

text \<open>The requests that clients may send: every log has its own key.\<close>

definition admissible :: "nat \<Rightarrow> LocatorRequest list \<Rightarrow> bool" where
  "admissible n rs \<longleftrightarrow> distinct (map rqKey rs) \<and> (\<forall>r \<in> set rs. encodable_entry (entry_of r)) \<and> length rs < 2 ^ 60 \<and> 2 * length rs + 3 \<le> n"

definition published :: "hash_fn \<Rightarrow> int LocatorUpdate \<Rightarrow> LocatorRequest list \<Rightarrow> bool" where
  "published H update rs \<longleftrightarrow> (\<exists>t. locator_tree t \<and> luRootHash update = bhash H t \<and> luRecordCount update = int (length rs) \<and>
     mset (pairs t) = mset (map entry_of rs))"

lemma admissible_append: "admissible n (rs @ rs') \<Longrightarrow> admissible n rs"
  by (auto simp: admissible_def)

lemma request_represents:
  assumes "represents H m tree t" and "mset (pairs t) = mset (map entry_of rs)" and "admissible n (rs @ [r])"
  shows "\<exists>tree' u t'. InsertWithUpdate H n tree (rqKey r) (Some (rqValue r)) (ltRootPage tree) = Inr (tree', u) \<and> represents H m tree' t' \<and>
    mset (pairs t') = mset (map entry_of (rs @ [r])) \<and> published H u (rs @ [r])"
proof -
  have count: "ltLeafCount tree = int (length rs)" using assms(1,2) by (metis represents_def size_mset length_map)
  have "fst ` set (pairs t) = rqKey ` set rs" using mset_eq_setD [OF assms(2)] by (auto simp: entry_of_def image_image)
  then have fresh: "rqKey r \<notin> fst ` set (pairs t)" using assms(3) by (auto simp: admissible_def)
  have enc: "encodable_entry (rqKey r, Some (rqValue r))" using assms(3) by (auto simp: admissible_def entry_of_def)
  have small: "ltLeafCount tree < 2 ^ 60" "nat (ltHeight tree) + 2 \<le> n"
    using count assms(3) represents_size [OF assms(1)] by (auto simp: admissible_def)
  obtain tree' u t' where r: "InsertWithUpdate H n tree (rqKey r) (Some (rqValue r)) (ltRootPage tree) = Inr (tree', u)" "represents H m tree' t'"
    "mset (pairs t') = add_mset (rqKey r, Some (rqValue r)) (mset (pairs t))"
    "u = \<lparr>luPages = luPages u, luRootPageID = bid t', luRootHash = bhash H t', luNextPageID = ltNextPageID tree',
      luHeight = ltHeight tree', luRecordCount = ltLeafCount tree + 1\<rparr>"
    using InsertWithUpdate_represents [OF assms(1) fresh enc small] by blast
  have ms: "mset (pairs t') = mset (map entry_of (rs @ [r]))" using r(3) assms(2) by (simp add: entry_of_def)
  have "ltLeafCount tree' = int (length (rs @ [r]))" using r(2) ms by (metis represents_def size_mset length_map)
  then have "locator_tree t'" using represents_locator_tree [OF r(2)] assms(3) by (simp add: admissible_def)
  moreover have "luRootHash u = bhash H t'" "luRecordCount u = int (length (rs @ [r]))" using count by (subst r(4), simp)+
  ultimately have "published H u (rs @ [r])" using ms by (auto simp: published_def)
  then show ?thesis using r(1,2) ms by blast
qed

lemma requests_represent:
  assumes "represents H m new (BLeaf 0 None [])" and "admissible n rs"
  shows "\<exists>tree us t. insert_requests H n new rs = Inr (tree, us) \<and> represents H m tree t \<and> mset (pairs t) = mset (map entry_of rs) \<and>
    length us = length rs \<and> (\<forall>i < length us. published H (us ! i) (take (Suc i) rs))"
  using assms(2)
proof (induction rs rule: rev_induct)
  case Nil
  then show ?case using assms(1) by (auto simp: insert_requests_def)
next
  case (snoc r rs)
  then obtain tree us t where IH: "insert_requests H n new rs = Inr (tree, us)" "represents H m tree t" "mset (pairs t) = mset (map entry_of rs)"
    "length us = length rs" "\<forall>i < length us. published H (us ! i) (take (Suc i) rs)"
    using admissible_append by blast
  from request_represents [OF IH(2,3) snoc.prems] obtain tree' u t' where
    r: "InsertWithUpdate H n tree (rqKey r) (Some (rqValue r)) (ltRootPage tree) = Inr (tree', u)" "represents H m tree' t'"
      "mset (pairs t') = mset (map entry_of (rs @ [r]))" "published H u (rs @ [r])" by blast
  have "published H ((us @ [u]) ! i) (take (Suc i) (rs @ [r]))" if "i < length (us @ [u])" for i
    using that IH(4,5) r(4) by (cases "i = length us") (auto simp: nth_append)
  moreover have "insert_requests H n new (rs @ [r]) = Inr (tree', us @ [u])"
    using IH(1) r(1) by (simp add: insert_requests_snoc insert_request_def)
  ultimately show ?case using r(2,3) IH(4) by (intro exI [of _ tree'] exI [of _ "us @ [u]"] exI [of _ t']) simp
qed

text \<open>C12: The ALL worker publishes the accepted requests in order. In every state that is reached by any
  interleaving of submissions, the worker, the receiver of the updates and calls of \<^verbatim>\<open>Stop\<close>, as long as
  the accepted requests have distinct keys, the worker has not panicked; the accepted requests are
  those already inserted followed by those still queued, and the updates received, queued and being
  sent are, in this order, one for each inserted request: the update after the first \<open>i\<close> requests has
  the root hash of a locator tree with exactly these entries.\<close>

theorem updates_follow_the_requests:
  assumes "NewALL H order pagesPerBucket = Inr all" and "all_reach H n all s" and "admissible n (sysAccepted s)"
  shows "\<exists>processed. sysAccepted s = processed @ allRequests (sysALL s) \<and>
    length (sysReceived s @ allUpdates (sysALL s) @ in_flight (sysWorker s)) = length processed \<and>
    (\<forall>i < length processed. published H ((sysReceived s @ allUpdates (sysALL s) @ in_flight (sysWorker s)) ! i) (take (Suc i) processed)) \<and>
    (\<exists>t. represents H (nat order) (allLocatorTree (sysALL s)) t \<and> mset (pairs t) = mset (map entry_of processed))"
proof -
  obtain processed where ord: "in_order H n (allLocatorTree all) s processed" using reachable_in_order [OF assms(2,1)] by blast
  have "3 \<le> nat order" "int (nat order) = order" and "NewLocatorTree H order = Inr (allLocatorTree all)"
    using assms(1) by (auto simp: NewALL_def split: if_splits)
  then have new: "represents H (nat order) (allLocatorTree all) (BLeaf 0 None [])" using NewLocatorTree_represents [of "nat order" H] by auto
  have acc: "sysAccepted s = processed @ failed (sysWorker s) @ allRequests (sysALL s)" using ord by (simp add: in_order_def)
  then have adm: "admissible n processed" using assms(3) admissible_append by metis
  obtain tree us t where r: "insert_requests H n (allLocatorTree all) processed = Inr (tree, us)" "represents H (nat order) tree t"
    "mset (pairs t) = mset (map entry_of processed)" "length us = length processed" "\<forall>i < length us. published H (us ! i) (take (Suc i) processed)"
    using requests_represent [OF new adm] by blast
  have eq: "tree = allLocatorTree (sysALL s)" "us = sysReceived s @ allUpdates (sysALL s) @ in_flight (sysWorker s)"
    using ord r(1) by (auto simp: in_order_def)
  have "failed (sysWorker s) = []"
  proof (cases "sysWorker s")
    case (Crashed request e)
    then have "admissible n (processed @ [request])" using assms(3) acc admissible_append [of n "processed @ [request]"] by simp
    then have "InsertWithUpdate H n tree (rqKey request) (Some (rqValue request)) (ltRootPage tree) \<noteq> Inl e"
      using request_represents [OF r(2,3)] by fastforce
    then show ?thesis using ord Crashed eq(1) by (simp add: in_order_def)
  qed simp_all
  then show ?thesis using acc r(2-5) unfolding eq by (intro exI [of _ processed]) auto
qed

definition example_request :: LocatorRequest where
  "example_request = \<lparr>rqKey = key_at 5, rqValue = \<lparr>lvRegionID = ''r'', lvShardID = ''s'', lvSegmentID = ''g'', lvLeafID = ''0''\<rparr>\<rparr>"

lemma example_admissible: "admissible 5 [example_request]"
  by (simp add: admissible_def entry_of_def example_request_def encodable_entry_def encodable_value_def int64_def)

theorem updates_follow_the_requests_witness:
  "\<exists>all s u. NewALL len_hash 3 8 = Inr all \<and> all_reach len_hash 5 all s \<and> sysAccepted s = [example_request] \<and>
    sysWorker s = Sending u \<and> sysReceived s @ allUpdates (sysALL s) = [] \<and> published len_hash u [example_request]"
proof -
  obtain new where new: "NewLocatorTree len_hash 3 = Inr new" "represents len_hash 3 new (BLeaf 0 None [])"
    using NewLocatorTree_represents [of 3 len_hash] by auto
  define all where "all = \<lparr>allTreeID = LocatorTreeID, allLocatorTree = new, allOrder = 3, allPagesPerBucket = 8, allRequests = [],
      allUpdates = [], allStopClosed = False, allDoneClosed = False, allRunning = False, allStopped = False\<rparr>"
  have init: "NewALL len_hash 3 8 = Inr all" using new(1) by (simp add: NewALL_def all_def)
  obtain tree u where ins: "InsertWithUpdate len_hash 5 new (rqKey example_request) (Some (rqValue example_request)) (ltRootPage new) = Inr (tree, u)"
    using request_represents [OF new(2), of "[]" 5 example_request] example_admissible by auto
  let ?s1 = "(system_of all)\<lparr>sysALL := all\<lparr>allRequests := [example_request]\<rparr>, sysAccepted := [example_request]\<rparr>"
  let ?s2 = "?s1\<lparr>sysALL := all\<lparr>allRequests := [example_request], allRunning := True\<rparr>, sysWorker := Selecting\<rparr>"
  let ?s3 = "?s2\<lparr>sysALL := all\<lparr>allRunning := True, allLocatorTree := tree\<rparr>, sysWorker := Sending u\<rparr>"
  have s1: "all_step len_hash 5 (system_of all) ?s1"
    using all_step.submit [of "all\<lparr>allRequests := [example_request]\<rparr>" "system_of all" example_request] by (simp add: Submit_def system_of_def all_def)
  have s2: "all_step len_hash 5 ?s1 ?s2"
    using all_step.run [of "all\<lparr>allRequests := [example_request], allRunning := True\<rparr>" Selecting len_hash 5 False ?s1]
    by (simp add: run_start_def system_of_def all_def)
  have s3: "all_step len_hash 5 ?s2 ?s3"
    using all_step.run [of "all\<lparr>allRunning := True, allLocatorTree := tree\<rparr>" "Sending u" len_hash 5 False ?s2] ins
    by (simp add: run_select_def run_request_def system_of_def all_def)
  have reach: "all_reach len_hash 5 all ?s3" unfolding all_reach_def
    by (rule converse_rtranclp_into_rtranclp, rule s1, rule converse_rtranclp_into_rtranclp, rule s2, rule r_into_rtranclp, rule s3)
  have "admissible 5 (sysAccepted ?s3)" using example_admissible by simp
  then have "published len_hash u [example_request]"
    using updates_follow_the_requests [OF init reach] by (auto simp: system_of_def all_def)
  with init reach show ?thesis by (intro exI [of _ all] exI [of _ ?s3] exI [of _ u]) (simp add: system_of_def all_def)
qed

end
