(* ===== verification/Locator_Memory.thy ===== *)
theory Locator_Memory
  imports Locator_Tree_Properties Locator_Source
begin

text \<open>
  \<^verbatim>\<open>internal/all/locator_range.go\<close>: resolving a query on the tree in memory, through a reader over the pages
  that can be reached from the root. The reader is one more page source, so a result is exact.
\<close>

section \<open>The reader\<close>

text \<open>The page behind a pointer, with the pages it refers to.\<close>

definition page_view :: "heap \<Rightarrow> int \<Rightarrow> PageRef Page" where
  "page_view heap p = (let page = heap p in
     \<lparr>pgPageID = pgPageID page, pgHash = pgHash page, pgIsLeaf = pgIsLeaf page, pgKeys = pgKeys page,
      pgParent = map_option (deref heap) (pgParent page), pgParentPageID = pgParentPageID page, pgValues = pgValues page,
      pgNext = map_option (deref heap) (pgNext page), pgChildren = map (deref heap) (pgChildren page)\<rparr>)"

text \<open>The closure \<^verbatim>\<open>add\<close>; \<open>n\<close> bounds the depth of its recursion.\<close>

primrec add_page :: "nat \<Rightarrow> heap \<Rightarrow> (int \<rightharpoonup> int) \<Rightarrow> int \<Rightarrow> (int \<rightharpoonup> int) result" where
  "add_page 0 = (\<lambda>heap pages p. Inl Diverge)"
| "add_page (Suc n) = (\<lambda>heap pages p.
     if pages (pgPageID (heap p)) \<noteq> None then Inr pages
     else rfold (add_page n heap) (pages(pgPageID (heap p) \<mapsto> p)) (pgChildren (heap p)))"

definition newMemoryPageReader :: "nat \<Rightarrow> heap \<Rightarrow> int \<Rightarrow> (int \<rightharpoonup> PageRef Page) result" where
  "newMemoryPageReader n heap root = rbind (add_page n heap Map.empty root) (\<lambda>pages. Inr (\<lambda>i. map_option (page_view heap) (pages i)))"

definition memory_ReadPage :: "(int \<rightharpoonup> PageRef Page) \<Rightarrow> int \<Rightarrow> (int \<rightharpoonup> PageRef Page, PageRef Page option) outcome" where
  "memory_ReadPage reader pageID =
     (case reader pageID of None \<Rightarrow> (reader, Inl (Errorf ''read in-memory page %d: page not found'')) | Some page \<Rightarrow> (reader, Inr (Some page)))"

text \<open>The background context has no error.\<close>

definition memory_reader :: "(int \<rightharpoonup> PageRef Page) PageReader" where
  "memory_reader = \<lparr>ctx_Err = (\<lambda>s. (s, Inr ())), ReadPage = memory_ReadPage\<rparr>"

definition tree_ResolveRange :: "hash_fn \<Rightarrow> nat \<Rightarrow> LocatorTree option \<Rightarrow> LocatorKey \<Rightarrow> LocatorKey \<Rightarrow> LocatorRangeResult result" where
  "tree_ResolveRange H n locatorTree lower upper =
     (case locatorTree of None \<Rightarrow> Inl (Errorf ''resolve locator range: tree is empty'')
      | Some tree \<Rightarrow> rbind (newMemoryPageReader n (ltHeap tree) (ltRootPage tree)) (\<lambda>reader.
          snd (ResolveRangeWithReader H (Some memory_reader) n reader (ltRootPageID tree) (ltRootHash tree) lower upper)))"

definition tree_Resolve :: "hash_fn \<Rightarrow> nat \<Rightarrow> LocatorTree option \<Rightarrow> LocatorQuery \<Rightarrow> LocatorRangeResult result" where
  "tree_Resolve H n locatorTree query = rbind (Bounds query) (\<lambda>(lower, upper). tree_ResolveRange H n locatorTree lower upper)"

section \<open>The pages of a tree\<close>

lemma add_page_within:
  assumes "\<forall>q \<in> S. set (pgChildren (heap q)) \<subseteq> S"
  shows "add_page n heap pages p = Inr pages' \<Longrightarrow> p \<in> S \<Longrightarrow> ran pages \<subseteq> S \<Longrightarrow> ran pages' \<subseteq> S"
proof (induction n arbitrary: pages p pages')
  case (Suc n)
  show ?case
  proof (cases "pages (pgPageID (heap p)) = None")
    case True
    then have fold: "rfold (add_page n heap) (pages(pgPageID (heap p) \<mapsto> p)) (pgChildren (heap p)) = Inr pages'" using Suc.prems(1) by simp
    show ?thesis
    proof (rule rfold_invariant [OF fold])
      show "ran (pages(pgPageID (heap p) \<mapsto> p)) \<subseteq> S" using Suc.prems(2,3) True by simp
    qed (use Suc.IH Suc.prems(2) assms in blast)
  qed (use Suc.prems in simp)
qed simp

fun bdepth :: "btree \<Rightarrow> nat" where
  "bdepth (BLeaf i nx es) = 0"
| "bdepth (BNode i ks ts) = Suc (fold max (map bdepth ts) 0)"

lemma bdepth_child: "t \<in> set ts \<Longrightarrow> bdepth t < bdepth (BNode i ks ts)"
  using Max_ge [of "set (0 # map bdepth ts)" "bdepth t"] by (simp add: Max.set_eq_fold [symmetric] less_Suc_eq_le del: Max_insert)

lemma rfold_total: "(\<And>s x. x \<in> set xs \<Longrightarrow> \<exists>s'. f s x = Inr s') \<Longrightarrow> \<exists>s'. rfold f s xs = Inr s'"
proof (induction xs arbitrary: s)
  case (Cons x xs)
  obtain s1 where "f s x = Inr s1" using Cons.prems by fastforce
  moreover obtain s2 where "rfold f s1 xs = Inr s2" using Cons.IH [of s1] Cons.prems by auto
  ultimately show ?case by simp
qed simp

text \<open>The recursion is as deep as the tree.\<close>

lemma add_page_total: "repr heap par t \<Longrightarrow> bdepth t < n \<Longrightarrow> \<exists>pages'. add_page n heap pages (bid t) = Inr pages'"
proof (induction t arbitrary: par n pages)
  case (BLeaf i nx es)
  then obtain m where "n = Suc m" by (cases n) auto
  then show ?case using BLeaf by (simp add: leaf_page_def)
next
  case (BNode i ks ts)
  then obtain m where m: "n = Suc m" by (cases n) auto
  have ch: "pgChildren (heap i) = map bid ts" using BNode.prems(1) by (simp add: node_page_def)
  have "\<exists>s'. add_page m heap s q = Inr s'" if q: "q \<in> set (map bid ts)" for s q
  proof -
    obtain t where t: "t \<in> set ts" "q = bid t" using q by auto
    show ?thesis unfolding t(2)
      by (rule BNode.IH [OF t(1), of "Some i"]) (use BNode.prems t(1) m bdepth_child [OF t(1), of i ks] in auto)
  qed
  then show ?case using rfold_total [of "map bid ts" "add_page m heap"] by (simp add: m ch)
qed

lemma tree_pages:
  assumes "repr heap par t" and "typed_tree t" and "addressed heap" and "\<forall>i \<in> set (bids t). int64 i" and "q \<in> set (bids t)"
  shows "decoded_page (page_view heap q) \<and> set (pgChildren (heap q)) \<subseteq> set (bids t)"
  using assms
proof (induction t arbitrary: par)
  case (BLeaf i nx es)
  then show ?case
    by (auto simp: leaf_page_def decoded_page_def page_view_def addressed_def deref_def Let_def encodable_entry_def)
next
  case (BNode i ks ts)
  show ?case
  proof (cases "q = i")
    case True
    then show ?thesis using BNode.prems bid_in_bids by (auto simp: node_page_def decoded_page_def page_view_def addressed_def Let_def)
  next
    case False
    then obtain t where t: "t \<in> set ts" "q \<in> set (bids t)" using BNode.prems(5) by auto
    have "decoded_page (page_view heap q) \<and> set (pgChildren (heap q)) \<subseteq> set (bids t)"
      by (rule BNode.IH [OF t(1), of "Some i"]) (use BNode.prems t in auto)
    then show ?thesis using t(1) by auto
  qed
qed

section \<open>The reader is a page source\<close>

definition pages_decoded :: "(int \<rightharpoonup> PageRef Page) \<Rightarrow> bool" where
  "pages_decoded reader \<longleftrightarrow> (\<forall>i page. reader i = Some page \<longrightarrow> decoded_page page)"

interpretation memory_source: page_source memory_reader pages_decoded
  by unfold_locales (auto simp: memory_reader_def memory_ReadPage_def pages_decoded_def split: option.splits)

lemma memory_pages_decoded:
  assumes rep: "represents H m tree t" and small: "ltLeafCount tree < 2 ^ 61"
    and reader: "newMemoryPageReader n (ltHeap tree) (ltRootPage tree) = Inr reader"
  shows "pages_decoded reader"
proof -
  have st: "repr (ltHeap tree) None t" "addressed (ltHeap tree)" "set (bids t) = {0..<ltNextPageID tree}" "ltRootPage tree = bid t"
    using rep by (auto simp: represents_def stored_def in_place_def)
  have typed: "typed_tree t" using represents_locator_tree [OF rep small] by (simp add: locator_tree_def)
  have i64: "\<forall>i \<in> set (bids t). int64 i" using st(3) represents_size [OF rep] small by (auto simp: int64_def)
  note page = tree_pages [OF st(1) typed st(2) i64]
  obtain pages where pages: "add_page n (ltHeap tree) Map.empty (bid t) = Inr pages" "reader = (\<lambda>i. map_option (page_view (ltHeap tree)) (pages i))"
    using reader st(4) by (auto simp: newMemoryPageReader_def)
  have "ran pages \<subseteq> set (bids t)" by (rule add_page_within [OF _ pages(1)]) (use page in auto)
  then show ?thesis using page pages(2) by (auto simp: pages_decoded_def ran_def)
qed

text \<open>A query on the tree in memory gives exactly the matching entries, unless the hash collides.\<close>

theorem memory_query_is_exact:
  assumes "represents H m tree t" and "ltLeafCount tree < 2 ^ 61" and "tree_Resolve H n (Some tree) query = Inr result"
    and "inj_on H (binputs H t \<union> proof_inputs H (rrProof result))"
  shows "rrEntries result = filter (matches_query query) (bentries t)"
proof -
  obtain lower upper reader s' where b: "Bounds query = Inr (lower, upper)" and rd: "newMemoryPageReader n (ltHeap tree) (ltRootPage tree) = Inr reader"
    and res: "ResolveRangeWithReader H (Some memory_reader) n reader (ltRootPageID tree) (ltRootHash tree) lower upper = (s', Inr result)"
    using assms(3) by (auto simp: tree_Resolve_def tree_ResolveRange_def) (metis prod.collapse)
  have root: "ltRootHash tree = bhash H t" using assms(1) by (simp add: represents_def stored_def)
  note ok = memory_source.ResolveRangeWithReader_ok [OF res memory_pages_decoded [OF assms(1,2) rd]]
  from verified_range(1) [OF ok(2) [unfolded root] represents_locator_tree [OF assms(1,2)] ok(1) assms(4)] Bounds_entries [OF b] show ?thesis by simp
qed

end
