(* ===== verification/Localization.thy ===== *)
theory Localization
  imports HPP_Service
begin

text \<open>
  \<^verbatim>\<open>internal/localization\<close>: after a failed audit the trace of the failed proof is compared with the trace
  of an authenticated reference proof, tree by tree and level by level, down to the nodes that differ.
  A slice is a list: a nil slice and an empty one are the same.
\<close>

section \<open>Types\<close>

datatype Classification = LeafMismatch | AuthenticationNodeMismatch | TopologyMismatch

definition DefaultJumpLevels :: int where
  "DefaultJumpLevels = 63"

record Request =
  reqAddresses :: "PhysicalAddress list"
  reqAuditorGlobalRoot :: hash
  reqFailedProof :: HMFProof
  reqAnchoredGlobalRoot :: hash
  reqK :: int

record NodeComparison =
  ncRef :: NodeRef
  ncAuditorHash :: hash
  ncReferenceHash :: hash
  ncMatch :: bool

record PruningRound =
  prTree :: TreeRef
  prFromLevel :: int
  prTargetLevel :: int
  prComparisons :: "NodeComparison list"

record Suspect =
  suRef :: NodeRef
  suAddress :: "PhysicalAddress option"
  suAuditorHash :: hash
  suReferenceHash :: hash
  suClassification :: Classification

record LocalizationProof =
  lpfAnchoredGlobalRoot :: hash
  lpfAuditorGlobalRoot :: hash
  lpfReferenceGlobalRoot :: hash
  lpfK :: int
  lpfAddresses :: "PhysicalAddress list"
  lpfFailedProof :: HMFProof
  lpfReferenceProof :: HMFProof
  lpfBadShards :: "TreeRef list"
  lpfRounds :: "PruningRound list"
  lpfSuspects :: "Suspect list"

record LocalizationResult =
  lrCalculatedReferenceRoot :: hash
  lrProof :: LocalizationProof

definition equalHash :: "hash \<Rightarrow> hash \<Rightarrow> bool" where
  "equalHash left right \<longleftrightarrow> hash_bytes left = hash_bytes right"

section \<open>Shapes\<close>

record treeShape =
  shLeafCount :: int
  shChildren :: "(int \<rightharpoonup> TreeRef) option"

text \<open>The zero shape has a nil map of children, and an assignment to an entry of it panics.\<close>

definition zero_shape :: treeShape where
  "zero_shape = \<lparr>shLeafCount = 0, shChildren = None\<rparr>"

type_synonym shapes = "(TreeRef, treeShape) gomap"

definition add_shape_child :: "shapes \<Rightarrow> ParentLink \<Rightarrow> shapes result" where
  "add_shape_child result link =
     (let shape = gm_get zero_shape (map_of result) (plParent link) in
      case shChildren shape of
        None \<Rightarrow> Inl (Panic ''assignment to entry in nil map'')
      | Some children \<Rightarrow>
          Inr (gm_put (plParent link) (shape\<lparr>shChildren := Some (children(plParentLeafIndex link \<mapsto> plChild link))\<rparr>) result))"

definition proofShapes :: "HMFProof \<Rightarrow> shapes result" where
  "proofShapes proof =
     rfold add_shape_child
       (foldl (\<lambda>result plan. gm_put (tpTree plan) \<lparr>shLeafCount = tpLeafCount plan, shChildren = Some Map.empty\<rparr> result) []
         (ppTrees (hpPlan proof)))
       (ppParentLinks (hpPlan proof))"

definition lessTree :: "TreeRef \<Rightarrow> TreeRef \<Rightarrow> bool" where
  "lessTree left right =
     (if trLayer left \<noteq> trLayer right then trLayer left < trLayer right
      else if trRegionID left \<noteq> trRegionID right then trRegionID left < trRegionID right
      else if trShardID left \<noteq> trShardID right then trShardID left < trShardID right
      else trSegmentID left < trSegmentID right)"

definition lessNodeRef :: "NodeRef \<Rightarrow> NodeRef \<Rightarrow> bool" where
  "lessNodeRef left right =
     (if nrTree left \<noteq> nrTree right then lessTree (nrTree left) (nrTree right)
      else if npLevel (nrPosition left) \<noteq> npLevel (nrPosition right)
      then npLevel (nrPosition left) < npLevel (nrPosition right)
      else npIndex (nrPosition left) < npIndex (nrPosition right))"

definition unionTrees :: "shapes \<Rightarrow> shapes \<Rightarrow> TreeRef list" where
  "unionTrees left right = sort_Slice lessTree (foldl (\<lambda>trees tree. set_add tree trees) [] (gm_keys left @ gm_keys right))"

function treeHeight :: "int \<Rightarrow> int" where
  "treeHeight leafCount = (if 1 < leafCount then treeHeight (wrap64 (leafCount + 1) div 2) + 1 else 0)"
  by pat_completeness auto
termination
  by (relation "measure nat") (auto dest: width_decreases)

declare treeHeight.simps [simp del]

definition maxInt32 :: "int \<Rightarrow> int \<Rightarrow> int" where
  "maxInt32 left right = (if left > right then left else right)"

section \<open>Descending a tree\<close>

type_synonym nodes = "NodeRef \<rightharpoonup> hash"

definition canDescend :: "TreeRef \<Rightarrow> NodePosition \<Rightarrow> nodes \<Rightarrow> nodes \<Rightarrow> bool" where
  "canDescend tree position left right =
     (if npLevel position \<le> 0 then False
      else let first = mk_ref tree (mk_pos (npLevel position - 1) (wrap64 (npIndex position * 2)))
           in left first \<noteq> None \<and> right first \<noteq> None)"

text \<open>The keys of the Go set \<^verbatim>\<open>result\<close>, in the order of insertion.\<close>

function collectFrontier ::
  "TreeRef \<Rightarrow> NodePosition \<Rightarrow> int \<Rightarrow> nodes \<Rightarrow> nodes \<Rightarrow> NodePosition list \<Rightarrow> NodePosition list" where
  "collectFrontier tree position target left right result =
     (if npLevel position \<le> target \<or> \<not> canDescend tree position left right then set_add position result
      else let childLevel = npLevel position - 1;
               child1 = mk_pos childLevel (wrap64 (npIndex position * 2));
               child2 = mk_pos childLevel (wrap64 (wrap64 (npIndex position * 2) + 1));
               result1 = (if left (mk_ref tree child1) \<noteq> None \<or> right (mk_ref tree child1) \<noteq> None
                          then collectFrontier tree child1 target left right result else result)
           in (if left (mk_ref tree child2) \<noteq> None \<or> right (mk_ref tree child2) \<noteq> None
               then collectFrontier tree child2 target left right result1 else result1))"
  by pat_completeness auto
termination
  by (relation "measure (\<lambda>(tree, position, target, left, right, result). nat (npLevel position))")
    (auto simp: canDescend_def split: if_splits)

declare collectFrontier.simps [simp del]

definition position_before :: "NodePosition \<Rightarrow> NodePosition \<Rightarrow> bool" where
  "position_before left right =
     (if npLevel left \<noteq> npLevel right then npLevel left > npLevel right else npIndex left < npIndex right)"

definition sortedPositions :: "NodePosition list \<Rightarrow> NodePosition list" where
  "sortedPositions positions = sort_Slice position_before positions"

section \<open>The analysis\<close>

definition treeMismatch :: "TreeRef \<Rightarrow> ProofTrace \<Rightarrow> ProofTrace \<Rightarrow> bool" where
  "treeMismatch tree left right =
     (case map_of (ptCommittedRoots left) tree of
        None \<Rightarrow> True
      | Some leftRoot \<Rightarrow> (case map_of (ptCommittedRoots right) tree of
          None \<Rightarrow> True
        | Some rightRoot \<Rightarrow> \<not> equalHash leftRoot rightRoot))"

definition nodeSuspect :: "NodeRef \<Rightarrow> hash \<Rightarrow> hash \<Rightarrow> (NodeRef \<rightharpoonup> PhysicalAddress) \<Rightarrow> Suspect" where
  "nodeSuspect ref left right addresses =
     (case addresses ref of
        None \<Rightarrow> \<lparr>suRef = ref, suAddress = None, suAuditorHash = left, suReferenceHash = right,
          suClassification = AuthenticationNodeMismatch\<rparr>
      | Some address \<Rightarrow> \<lparr>suRef = ref, suAddress = Some address, suAuditorHash = left, suReferenceHash = right,
          suClassification = LeafMismatch\<rparr>)"

definition topologySuspect :: "TreeRef \<Rightarrow> ProofTrace \<Rightarrow> ProofTrace \<Rightarrow> int \<Rightarrow> Suspect" where
  "topologySuspect tree left right level =
     \<lparr>suRef = mk_ref tree (mk_pos level 0), suAddress = None, suAuditorHash = gm_get 0 (map_of (ptCommittedRoots left)) tree,
       suReferenceHash = gm_get 0 (map_of (ptCommittedRoots right)) tree, suClassification = TopologyMismatch\<rparr>"

definition badShards_of :: "TreeRef list \<Rightarrow> ProofTrace \<Rightarrow> ProofTrace \<Rightarrow> TreeRef list" where
  "badShards_of trees auditor reference =
     filter (\<lambda>tree. trLayer tree = LayerShard \<and> treeMismatch tree auditor reference) trees"

definition addressByNode :: "PhysicalAddress list \<Rightarrow> NodeRef \<rightharpoonup> PhysicalAddress" where
  "addressByNode addresses = foldl (\<lambda>m address.
     m(mk_ref \<lparr>trLayer = LayerSegment, trRegionID = paRegionID address, trShardID = paShardID address,
         trSegmentID = paSegmentID address\<rparr> (mk_pos 0 (paLeafID address)) \<mapsto> address)) Map.empty addresses"

text \<open>The loop over the frontier: comparisons, positions to descend into, suspects.\<close>

type_synonym round_state = "NodeComparison list \<times> NodePosition list \<times> Suspect list"

definition compare_position ::
  "TreeRef \<Rightarrow> treeShape \<Rightarrow> ProofTrace \<Rightarrow> ProofTrace \<Rightarrow> (NodeRef \<rightharpoonup> PhysicalAddress) \<Rightarrow> round_state \<Rightarrow> NodePosition \<Rightarrow> round_state" where
  "compare_position tree rightShape auditor reference addresses = (\<lambda>(comparisons, next_active, suspects) position.
     let ref = mk_ref tree position;
         left = gm_get 0 (map_of (ptNodes auditor)) ref;
         right = gm_get 0 (map_of (ptNodes reference)) ref;
         match = (map_of (ptNodes auditor) ref \<noteq> None \<and> map_of (ptNodes reference) ref \<noteq> None \<and> equalHash left right);
         comparisons1 = comparisons @ [\<lparr>ncRef = ref, ncAuditorHash = left, ncReferenceHash = right, ncMatch = match\<rparr>]
     in if match then (comparisons1, next_active, suspects)
        else if npLevel position = 0 then
          (case (case shChildren rightShape of None \<Rightarrow> None | Some children \<Rightarrow> children (npIndex position)) of
             Some child \<Rightarrow> if treeMismatch child auditor reference then (comparisons1, next_active, suspects)
                           else (comparisons1, next_active, suspects @ [nodeSuspect ref left right addresses])
           | None \<Rightarrow> (comparisons1, next_active, suspects @ [nodeSuspect ref left right addresses]))
        else if canDescend tree position (map_of (ptNodes auditor)) (map_of (ptNodes reference))
        then (comparisons1, next_active @ [position], suspects)
        else (comparisons1, next_active, suspects @ [\<lparr>suRef = ref, suAddress = None, suAuditorHash = left,
               suReferenceHash = right, suClassification = AuthenticationNodeMismatch\<rparr>]))"

text \<open>The loop over the rounds of a tree; \<open>k\<close> levels are skipped per round, and \<open>n\<close> bounds the rounds.\<close>

fun prune_rounds ::
  "nat \<Rightarrow> TreeRef \<Rightarrow> treeShape \<Rightarrow> ProofTrace \<Rightarrow> ProofTrace \<Rightarrow> (NodeRef \<rightharpoonup> PhysicalAddress) \<Rightarrow> int \<Rightarrow>
     NodePosition list \<Rightarrow> PruningRound list \<times> Suspect list \<Rightarrow> (PruningRound list \<times> Suspect list) result" where
  "prune_rounds n tree rightShape auditor reference addresses k [] (rounds, suspects) = Inr (rounds, suspects)"
| "prune_rounds 0 tree rightShape auditor reference addresses k (p # ps) (rounds, suspects) = Inl Diverge"
| "prune_rounds (Suc n) tree rightShape auditor reference addresses k (p # ps) (rounds, suspects) =
     (let from = npLevel p;
          target = (if wrap32 (from - k) < 0 then 0 else wrap32 (from - k));
          frontier = sortedPositions (foldl (\<lambda>frontierSet position.
            collectFrontier tree position target (map_of (ptNodes auditor)) (map_of (ptNodes reference)) frontierSet) [] (p # ps));
          (comparisons, next_active, suspects1) =
            foldl (compare_position tree rightShape auditor reference addresses) ([], [], suspects) frontier;
          rounds1 = (if length comparisons > 0
            then rounds @ [\<lparr>prTree = tree, prFromLevel = from, prTargetLevel = target, prComparisons = comparisons\<rparr>] else rounds)
      in prune_rounds n tree rightShape auditor reference addresses k next_active (rounds1, suspects1))"

text \<open>The loop over the trees.\<close>

definition analyze_tree ::
  "nat \<Rightarrow> shapes \<Rightarrow> shapes \<Rightarrow> ProofTrace \<Rightarrow> ProofTrace \<Rightarrow> (NodeRef \<rightharpoonup> PhysicalAddress) \<Rightarrow> int \<Rightarrow>
     PruningRound list \<times> Suspect list \<Rightarrow> TreeRef \<Rightarrow> (PruningRound list \<times> Suspect list) result" where
  "analyze_tree n auditorShapes referenceShapes auditor reference addresses k = (\<lambda>(rounds, suspects) tree.
     if \<not> treeMismatch tree auditor reference then Inr (rounds, suspects)
     else let leftShape = gm_get zero_shape (map_of auditorShapes) tree;
              rightShape = gm_get zero_shape (map_of referenceShapes) tree
          in if map_of (ptCommittedRoots auditor) tree = None \<or> map_of (ptCommittedRoots reference) tree = None \<or>
               map_of auditorShapes tree = None \<or> map_of referenceShapes tree = None \<or> shLeafCount leftShape \<noteq> shLeafCount rightShape
             then Inr (rounds, suspects @ [topologySuspect tree auditor reference
               (maxInt32 (treeHeight (shLeafCount leftShape)) (treeHeight (shLeafCount rightShape)))])
             else prune_rounds n tree rightShape auditor reference addresses k
               [mk_pos (treeHeight (shLeafCount leftShape)) 0] (rounds, suspects))"

definition analyze ::
  "nat \<Rightarrow> PhysicalAddress list \<Rightarrow> HMFProof \<Rightarrow> HMFProof \<Rightarrow> ProofTrace \<Rightarrow> ProofTrace \<Rightarrow> int \<Rightarrow>
     (TreeRef list \<times> PruningRound list \<times> Suspect list) result" where
  "analyze n addresses auditorProof referenceProof auditor reference k =
     rbind (proofShapes auditorProof) (\<lambda>auditorShapes.
     rbind (proofShapes referenceProof) (\<lambda>referenceShapes.
     let trees = unionTrees auditorShapes referenceShapes in
     rbind (rfold (analyze_tree n auditorShapes referenceShapes auditor reference (addressByNode addresses) k) ([], []) trees) (\<lambda>(rounds, suspects).
     Inr (badShards_of trees auditor reference, rounds, sort_Slice (\<lambda>a b. lessNodeRef (suRef a) (suRef b)) suspects))))"

section \<open>The service\<close>

text \<open>The two sentinels of the package.\<close>

definition ErrNoMismatch :: error where
  "ErrNoMismatch = Sentinel ''localization requires a failed audit root''"

definition ErrInvalidProof :: error where
  "ErrInvalidProof = Sentinel ''invalid localization proof''"

text \<open>A reference builder, with the optional capability to rebuild the reference around a proof.\<close>

record ReferenceBuilder =
  refBuildAndVerify :: "PhysicalAddress list \<Rightarrow> hash \<Rightarrow> VerificationResult result"
  refReferenceFromProof :: "(HMFProof \<Rightarrow> PhysicalAddress list \<Rightarrow> hash \<Rightarrow> VerificationResult result) option"

definition NewService :: "ReferenceBuilder option \<Rightarrow> ReferenceBuilder result" where
  "NewService reference =
     (case reference of None \<Rightarrow> Inl (Errorf ''new localization service: reference builder is nil'') | Some service \<Rightarrow> Inr service)"

definition lessAddress :: "PhysicalAddress \<Rightarrow> PhysicalAddress \<Rightarrow> bool" where
  "lessAddress left right =
     (if paRegionID left \<noteq> paRegionID right then paRegionID left < paRegionID right
      else if paShardID left \<noteq> paShardID right then paShardID left < paShardID right
      else if paSegmentID left \<noteq> paSegmentID right then paSegmentID left < paSegmentID right
      else paLeafID left < paLeafID right)"

definition normalize_request :: "PhysicalAddress list \<Rightarrow> PhysicalAddress list result" where
  "normalize_request input =
     (if length input = 0 then Inl (Errorf ''at least one physical address is required'')
      else rbind (rfold (\<lambda>unique address.
          if paRegionID address = '''' \<or> paShardID address < 0 \<or> paSegmentID address < 0 \<or> paLeafID address < 0
          then Inl (Errorf ''physical addresses require a region and nonnegative indexes'')
          else Inr (set_add address unique)) [] input) (\<lambda>unique.
        Inr (sort_Slice lessAddress unique)))"

definition authenticatedReference ::
  "ReferenceBuilder \<Rightarrow> HMFProof \<Rightarrow> PhysicalAddress list \<Rightarrow> hash \<Rightarrow> VerificationResult result" where
  "authenticatedReference service failed addresses trustedRoot =
     (case refReferenceFromProof service of
        None \<Rightarrow> refBuildAndVerify service addresses trustedRoot
      | Some build \<Rightarrow> (case build failed addresses trustedRoot of
          Inr reference \<Rightarrow> Inr reference
        | Inl _ \<Rightarrow> refBuildAndVerify service addresses trustedRoot))"

definition Localize :: "hash_fn \<Rightarrow> nat \<Rightarrow> ReferenceBuilder \<Rightarrow> Request \<Rightarrow> LocalizationResult result" where
  "Localize H n service request =
     rbind (rwrap ''localize tamper: %w'' (normalize_request (reqAddresses request))) (\<lambda>addresses.
     if reqK request \<noteq> 0 \<and> reqK request \<noteq> DefaultJumpLevels then Inl (Errorf ''localize tamper: k must be %d'')
     else let K = DefaultJumpLevels in
     rbind (rwrap ''localize tamper: verify auditor proof: %w'' (TraceHMFProof H (reqFailedProof request) addresses)) (\<lambda>auditorTrace.
     if \<not> equalHash (ptGlobalRoot auditorTrace) (reqAuditorGlobalRoot request)
     then Inl (Errorf ''localize tamper: reported auditor root does not match failed proof'')
     else if equalHash (reqAuditorGlobalRoot request) (reqAnchoredGlobalRoot request) then Inl ErrNoMismatch
     else rbind (rwrap ''localize tamper: authenticate reference state: %w''
       (authenticatedReference service (reqFailedProof request) addresses (reqAnchoredGlobalRoot request))) (\<lambda>reference.
     rbind (case vrTrace reference of Some trace \<Rightarrow> Inr trace
            | None \<Rightarrow> rwrap ''localize tamper: trace authenticated reference proof: %w'' (TraceHMFProof H (vrProof reference) addresses))
       (\<lambda>referenceTrace.
     if \<not> equalHash (vrCalculatedGlobalRoot reference) (reqAnchoredGlobalRoot request) \<or>
        \<not> equalHash (ptGlobalRoot referenceTrace) (reqAnchoredGlobalRoot request)
     then Inl (Errorf ''localize tamper: reference proof is not bound to anchored root'')
     else rbind (analyze n addresses (reqFailedProof request) (vrProof reference) auditorTrace referenceTrace K) (\<lambda>(badShards, rounds, suspects).
       Inr \<lparr>lrCalculatedReferenceRoot = ptGlobalRoot referenceTrace,
         lrProof = \<lparr>lpfAnchoredGlobalRoot = reqAnchoredGlobalRoot request, lpfAuditorGlobalRoot = reqAuditorGlobalRoot request,
           lpfReferenceGlobalRoot = ptGlobalRoot referenceTrace, lpfK = K, lpfAddresses = addresses,
           lpfFailedProof = reqFailedProof request, lpfReferenceProof = vrProof reference, lpfBadShards = badShards,
           lpfRounds = rounds, lpfSuspects = suspects\<rparr>\<rparr>)))))"

text \<open>\<^verbatim>\<open>fmt.Errorf("%w: %v", ErrInvalidProof, err)\<close> wraps the sentinel only.\<close>

definition invalid_proof :: "string \<Rightarrow> error" where
  "invalid_proof message = Wrap message ErrInvalidProof"

definition as_invalid :: "string \<Rightarrow> 'a result \<Rightarrow> 'a result" where
  "as_invalid message r = (case r of Inl (Panic m) \<Rightarrow> Inl (Panic m) | Inl Diverge \<Rightarrow> Inl Diverge | Inl e \<Rightarrow> Inl (invalid_proof message) | Inr x \<Rightarrow> Inr x)"

definition VerifyProof :: "hash_fn \<Rightarrow> nat \<Rightarrow> LocalizationProof \<Rightarrow> PhysicalAddress list \<Rightarrow> hash \<Rightarrow> unit result" where
  "VerifyProof H n proof expectedAddresses trustedRoot =
     rbind (as_invalid ''%w: %v'' (normalize_request expectedAddresses)) (\<lambda>addresses.
     if lpfK proof \<noteq> DefaultJumpLevels \<or> addresses \<noteq> lpfAddresses proof then Inl (invalid_proof ''%w: addresses or k do not match'')
     else if \<not> equalHash (lpfAnchoredGlobalRoot proof) trustedRoot \<or> \<not> equalHash (lpfReferenceGlobalRoot proof) trustedRoot
     then Inl (invalid_proof ''%w: reference root does not match trusted root'')
     else rbind (as_invalid ''%w: auditor proof: %v'' (TraceHMFProof H (lpfFailedProof proof) addresses)) (\<lambda>auditorTrace.
     if \<not> equalHash (ptGlobalRoot auditorTrace) (lpfAuditorGlobalRoot proof) \<or> equalHash (lpfAuditorGlobalRoot proof) trustedRoot
     then Inl (invalid_proof ''%w: auditor proof is not the reported failed computation'')
     else rbind (as_invalid ''%w: reference proof: %v'' (TraceHMFProof H (lpfReferenceProof proof) addresses)) (\<lambda>referenceTrace.
     if \<not> equalHash (ptGlobalRoot referenceTrace) trustedRoot
     then Inl (invalid_proof ''%w: reference proof: calculated global root does not match trusted root'')
     else rbind (analyze n addresses (lpfFailedProof proof) (lpfReferenceProof proof) auditorTrace referenceTrace (lpfK proof))
       (\<lambda>(badShards, rounds, suspects).
     if badShards \<noteq> lpfBadShards proof \<or> rounds \<noteq> lpfRounds proof \<or> suspects \<noteq> lpfSuspects proof
     then Inl (invalid_proof ''%w: pruning transcript was altered or is incomplete'')
     else Inr ()))))"

end
