(* ===== verification/Localization_Trace.thy ===== *)
theory Localization_Trace
  imports Localization
begin

text \<open>
  The traces that the localization compares. In the trace of an accepted proof, a tree is folded up:
  where the left child of a position is recorded, the right child is too, if the level has one, and
  the position has the combined hash. So where two traces of a tree with the same number of leaves
  differ at a position, they differ at a child, down to a node that can be blamed.
\<close>

section \<open>Folded trees\<close>

definition folded_tree :: "hash_fn \<Rightarrow> nat \<Rightarrow> (NodePosition \<rightharpoonup> hash) \<Rightarrow> hash \<Rightarrow> bool" where
  "folded_tree H n M root \<longleftrightarrow> M (mk_pos (int (theight n)) 0) = Some root \<and>
     (\<forall>k p. k < theight n \<and> M (mk_pos (int k) (p * 2)) \<noteq> None \<longrightarrow> 0 \<le> p \<and> p * 2 < int (level_width n k) \<and>
        M (mk_pos (int (Suc k)) p) = Some (combine H (int (level_width n k)) (\<lambda>i. gm_get 0 M (mk_pos (int k) i)) p) \<and>
        (p * 2 + 1 < int (level_width n k) \<longrightarrow> M (mk_pos (int k) (p * 2 + 1)) \<noteq> None)) \<and>
     (\<forall>k i. k < theight n \<and> M (mk_pos (int k) i) \<noteq> None \<longrightarrow> M (mk_pos (int k) (i div 2 * 2)) \<noteq> None)"

lemma folded_child:
  assumes "folded_tree H n M root" and "k < theight n" and "M (mk_pos (int k) (p * 2)) \<noteq> None"
  shows "0 \<le> p" and "p * 2 < int (level_width n k)"
    and "M (mk_pos (int (Suc k)) p) = Some (combine H (int (level_width n k)) (\<lambda>i. gm_get 0 M (mk_pos (int k) i)) p)"
    and "p * 2 + 1 < int (level_width n k) \<Longrightarrow> M (mk_pos (int k) (p * 2 + 1)) \<noteq> None"
  using assms unfolding folded_tree_def by blast+

text \<open>With a node, its parent is recorded too.\<close>

lemma folded_path:
  assumes "folded_tree H n M root" and "k \<le> theight n" and "M (mk_pos 0 i) \<noteq> None"
  shows "M (mk_pos (int k) (i div 2 ^ k)) \<noteq> None"
  using assms(2)
proof (induction k)
  case 0
  then show ?case using assms(3) by simp
next
  case (Suc k)
  let ?j = "i div 2 ^ k"
  have k: "k < theight n" using Suc.prems by simp
  have "M (mk_pos (int k) ?j) \<noteq> None" using Suc by simp
  then have "M (mk_pos (int k) (?j div 2 * 2)) \<noteq> None" using assms(1) k unfolding folded_tree_def by blast
  moreover have "?j div 2 = i div 2 ^ Suc k" by (simp add: div_mult2_eq [symmetric] zdiv_zmult2_eq [symmetric] mult.commute)
  ultimately show ?case using folded_child(3) [OF assms(1) k, of "?j div 2"] by simp
qed

lemma trace_top:
  assumes "index_list (int n) T" and "T \<noteq> []" and "set (gm_keys known) = set T"
  shows "mk_pos (int (theight n)) 0 \<in> fst ` set (trace_list H n T known nodes)"
proof (cases "theight n")
  case 0
  then have "0 \<in> set T" using active_top [OF assms(1,2)] by simp
  then have "0 \<in> fst ` set known" using assms(3) by simp
  then show ?thesis using 0 by (force simp: trace_list_def)
next
  case (Suc j)
  then have "(mk_pos (int j + 1) 0, pval H (map_of nodes) 0 n T (gm_get 0 (map_of known)) (Suc j) 0)
      \<in> set (recorded_list H (map_of nodes) 0 n T (gm_get 0 (map_of known)))"
    using active_top [OF assms(1,2)] by (auto simp: recorded_list_def simp del: pval.simps)
  moreover have "int (theight n) = int j + 1" using Suc by simp
  ultimately show ?thesis unfolding trace_list_def by force
qed

lemma trace_positions:
  assumes T: "index_list (int n) T" and known: "set (gm_keys known) = set T"
    and nodes: "set (gm_keys nodes) = set (required_list 0 n T)" and "k < theight n"
    and "mk_pos (int k) i \<in> fst ` set (trace_list H n T known nodes)"
  shows "i \<in> set (active T k) \<or> i \<in> set (missing (int (level_width n k)) (active T k))"
proof -
  consider (known) "k = 0" "i \<in> set (gm_keys known)" | (node) "mk_pos (int k) i \<in> set (required_list 0 n T)"
    | (rec) j where "i \<in> set (active T (Suc j))" "int k = int j + 1"
    using assms(5) nodes by (auto simp: trace_list_def recorded_list_def image_Un simp del: pval.simps) force+
  then show ?thesis
  proof cases
    case (rec j)
    then have "k = Suc j" by simp
    with rec show ?thesis by simp
  qed (use known in \<open>auto simp: required_list_def\<close>)
qed

lemma trace_folded:
  assumes n: "int n < MaxInt64" and T: "index_list (int n) T" "T \<noteq> []" and known: "gm_wf known" "set (gm_keys known) = set T"
    and nodes: "gm_wf nodes" "set (gm_keys nodes) = set (required_list 0 n T)"
  shows "folded_tree H n (map_of (rev (trace_list H n T known nodes))) (mp_root H n T known nodes)"
proof -
  let ?L = "trace_list H n T known nodes" and ?side = "mp_side H n T known nodes"
  have val: "map_of (rev ?L) (mk_pos (int k) i) = Some (?side k i)" if "mk_pos (int k) i \<in> fst ` set ?L" for k i
  proof -
    have "map_of (rev ?L) (mk_pos (int k) i) = Some (trace_hash H n T known nodes (mk_pos (int k) i))"
      using trace_list_values [OF T(1) known nodes] that by (intro map_of_fun) auto
    then show ?thesis by (simp add: trace_hash_def)
  qed
  have none: "map_of (rev ?L) p \<noteq> None \<longleftrightarrow> p \<in> fst ` set ?L" for p by (simp add: map_of_eq_None_iff)
  have pos: "0 < n" using T by (cases T) auto
  have top: "map_of (rev ?L) (mk_pos (int (theight n)) 0) = Some (mp_root H n T known nodes)"
    using val [OF trace_top [OF T known(2)]] active_top [OF T] by (simp add: mp_side_def pside_def mp_root_def)
  have step: "0 \<le> p \<and> p * 2 < int (level_width n k) \<and>
      map_of (rev ?L) (mk_pos (int (Suc k)) p) = Some (combine H (int (level_width n k)) (\<lambda>i. gm_get 0 (map_of (rev ?L)) (mk_pos (int k) i)) p) \<and>
      (p * 2 + 1 < int (level_width n k) \<longrightarrow> map_of (rev ?L) (mk_pos (int k) (p * 2 + 1)) \<noteq> None)"
    if k: "k < theight n" and some: "map_of (rev ?L) (mk_pos (int k) (p * 2)) \<noteq> None" for k p
  proof -
    let ?w = "int (level_width n k)"
    note il = active_index_list [OF T(1), of k]
    have cov: "p * 2 \<in> set (active T k) \<or> p * 2 \<in> set (missing ?w (active T k))"
      using trace_positions [OF T(1) known(2) nodes(2) k] some none by blast
    have in_w: "0 \<le> p * 2" "p * 2 < ?w" using cov il set_missing [OF il, of "p * 2"] by (auto simp: index_list_def)
    have par: "p \<in> set (active T (Suc k))"
    proof -
      have "p * 2 div 2 \<in> (\<lambda>i. i div 2) ` set (active T k)" using cov set_missing [OF il, of "p * 2"] by blast
      then show ?thesis by (simp add: active_Suc' set_parents)
    qed
    have child: "mk_pos (int k) j \<in> fst ` set ?L" if "j \<in> {p * 2, p * 2 + 1}" "j < ?w" for j
      using trace_list_keys [OF known(2) nodes(2) k children_covered [OF T(1) par that]] .
    have "mk_pos (int (Suc k)) p \<in> fst ` set ?L"
    proof -
      have "(mk_pos (int k + 1) p, pval H (map_of nodes) 0 n T (gm_get 0 (map_of known)) (Suc k) p)
          \<in> set (recorded_list H (map_of nodes) 0 n T (gm_get 0 (map_of known)))"
        using par k by (auto simp: recorded_list_def simp del: pval.simps)
      then show ?thesis unfolding trace_list_def by (force simp: add.commute)
    qed
    then have "map_of (rev ?L) (mk_pos (int (Suc k)) p) = Some (combine H ?w (?side k) p)"
      using val [of "Suc k" p] par by (simp add: mp_side_def pside_def)
    also have "combine H ?w (?side k) p = combine H ?w (\<lambda>i. gm_get 0 (map_of (rev ?L)) (mk_pos (int k) i)) p"
      using val [OF child] in_w(2) by (simp add: combine_def gm_get_def)
    finally show ?thesis using in_w child none by auto
  qed
  have even: "map_of (rev ?L) (mk_pos (int k) (i div 2 * 2)) \<noteq> None"
    if k: "k < theight n" and some: "map_of (rev ?L) (mk_pos (int k) i) \<noteq> None" for k i
  proof -
    note il = active_index_list [OF T(1), of k]
    have cov: "i \<in> set (active T k) \<or> i \<in> set (missing (int (level_width n k)) (active T k))"
      using trace_positions [OF T(1) known(2) nodes(2) k] some none by blast
    have "i div 2 \<in> (\<lambda>i. i div 2) ` set (active T k)" using cov set_missing [OF il, of i] by blast
    then have par: "i div 2 \<in> set (active T (Suc k))" by (simp add: active_Suc' set_parents)
    have "i < int (level_width n k)" using cov il set_missing [OF il, of i] by (auto simp: index_list_def)
    then have "i div 2 * 2 < int (level_width n k)" by linarith
    then show ?thesis using trace_list_keys [OF known(2) nodes(2) k children_covered [OF T(1) par]] none by blast
  qed
  show ?thesis unfolding folded_tree_def using top step even by blast
qed

section \<open>The trees of an accepted proof\<close>

lemma traced_tree:
  assumes "TraceHMFProof H proof addresses = Inr trace" and "p \<in> set (ppTrees (hpPlan proof))" and "tpLeafCount p < MaxInt64"
  obtains n root where "tpLeafCount p = int n" "0 < n" "folded_tree H n (\<lambda>pos. map_of (ptNodes trace) (mk_ref (tpTree p) pos)) root"
    "map_of (ptCommittedRoots trace) (tpTree p) = Some (committedRoot H (tpTree p) (int n) root)"
    "\<forall>i h. trLayer (tpTree p) = LayerSegment \<and> (i, h) \<in> set (segment_leaves_of (hpLeaves proof) (tpTree p)) \<longrightarrow>
       0 \<le> i \<and> i < int n \<and> map_of (ptNodes trace) (mk_ref (tpTree p) (mk_pos 0 i)) = Some h"
proof -
  let ?t = "tpTree p" and ?nodes = "nodes_of (hpNodes proof) (tpTree p)" and ?T = "tpTargets p"
  obtain roots where wf: "well_formed_proof proof addresses"
    and td: "tree_done H (proof_plans proof) (nodes_of (hpNodes proof)) (segment_leaves_of (hpLeaves proof)) (proof_children proof) roots trace ?t p"
    using evaluate_trace [OF assms(1) [unfolded TraceHMFProof_def]] assms(2) by metis
  obtain known rt ns where known: "known_leaves H (proof_plans proof) (segment_leaves_of (hpLeaves proof)) (proof_children proof) roots ?t = Inr known"
    and v: "validateTargets p known = Inr ()"
    and rec: "\<And>out. reconstructTreeTrace H (tpLeafCount p) known ?nodes ?t out = Inr (rt, map_option (record_nodes ?t ns) out)"
    and cr: "map_of (ptCommittedRoots trace) ?t = Some (committedRoot H ?t (tpLeafCount p) rt)"
    and tr: "\<And>pos. map_of (ptNodes trace) (mk_ref ?t pos) = map_of (rev ns) pos"
    using td unfolding tree_done_def by blast
  have gmk: "gm_wf known" using known_wf [OF wf known] .
  have "validateTreePlanShape p = Inr ()" using wf assms(2) unfolding well_formed_proof_def by blast
  from validateTreePlanShape_Inr [OF this assms(3)] obtain n where
    n: "p = plan_for ?t n ?T" "0 < n" "index_list (int n) ?T" "?T \<noteq> []" by blast
  have count: "tpLeafCount p = int n" using n(1) by (metis TreePlan.select_convs(2) plan_for_def)
  have small: "int n < MaxInt64" using assms(3) count by simp
  have dist: "distinct ?T" using n(3) int_less.sorted_distinct by (auto simp: index_list_def)
  note keys = validateTargets_keys [OF v gmk dist]
  note nodes = proof_tree_nodes [OF wf assms(2) n(1,3)]
  note eq = reconstruct_eq [OF small n(3,4) gmk keys nodes, of H ?t, folded count]
  have root: "rt = mp_root H n ?T known ?nodes" using rec [of None] eq [of None] by simp
  have same: "map_of (rev ns) pos = map_of (rev (trace_list H n ?T known ?nodes)) pos" for pos
    using rec [of "Some []"] eq [of "Some []"]
      map_of_record_nodes [of ?t ns "[]" ?t pos] map_of_record_nodes [of ?t "trace_list H n ?T known ?nodes" "[]" ?t pos]
    by (auto split: option.splits)
  have fold: "folded_tree H n (\<lambda>pos. map_of (ptNodes trace) (mk_ref ?t pos)) rt"
    using trace_folded [OF small n(3,4) gmk keys nodes, of H] by (simp add: tr root same)
  have leaf: "0 \<le> i \<and> i < int n \<and> map_of (ptNodes trace) (mk_ref ?t (mk_pos 0 i)) = Some h" if "(i, h) \<in> set known" for i h
  proof -
    have i: "i \<in> set ?T" using that keys by force
    have "mk_pos 0 i \<in> fst ` set (trace_list H n ?T known ?nodes)" using that by (force simp: trace_list_def)
    then have "map_of (rev (trace_list H n ?T known ?nodes)) (mk_pos 0 i) = Some (trace_hash H n ?T known ?nodes (mk_pos 0 i))"
      using trace_list_values [OF n(3) gmk keys nodes] by (intro map_of_fun) auto
    moreover have "trace_hash H n ?T known ?nodes (mk_pos 0 i) = h"
      using i gmk that by (simp add: trace_hash_def mp_side_def pside_def gm_get_def gm_wf_def)
    ultimately show ?thesis using n(3) i by (auto simp: tr same index_list_def)
  qed
  show thesis
    by (rule that [OF count n(2) fold]) (use cr count known leaf in \<open>auto simp: known_leaves_def\<close>)
qed

end
