(* ===== verification/Localization_Properties.thy ===== *)
theory Localization_Properties
  imports Localization_Trace HPP_Service_Properties
begin

text \<open>
  What the localization finds: a failed audit always has a suspect, and every suspect is a place where
  the two traces differ; and what the service returns is what the verifier accepts.
\<close>

lemma equalHash_iff [simp]: "equalHash a b \<longleftrightarrow> a = b"
  by (simp add: equalHash_def)

definition differ :: "nodes \<Rightarrow> nodes \<Rightarrow> NodeRef \<Rightarrow> bool" where
  "differ left right ref \<longleftrightarrow> \<not> (\<exists>h. left ref = Some h \<and> right ref = Some h)"

section \<open>Heights\<close>

lemma treeHeight_eq: "int n < MaxInt64 \<Longrightarrow> treeHeight (int n) = int (theight n)"
proof (induction n rule: theight.induct)
  case (1 n)
  show ?case
  proof (cases "n \<le> 1")
    case True
    then show ?thesis by (subst treeHeight.simps) simp
  next
    case False
    have small: "int ((n + 1) div 2) < MaxInt64" using "1.prems" False by linarith
    have "treeHeight (int n) = treeHeight (int ((n + 1) div 2)) + 1"
      using False next_width [OF "1.prems"] by (subst treeHeight.simps) simp
    then show ?thesis using "1.IH" [OF False small] False theight_step [of n] by simp
  qed
qed

lemma theight_le: "n \<le> 2 ^ h \<Longrightarrow> theight n \<le> h"
proof (induction h arbitrary: n)
  case (Suc h)
  show ?case
  proof (cases "n \<le> 1")
    case False
    have "(n + 1) div 2 \<le> 2 ^ h" using Suc.prems by simp
    then show ?thesis using Suc.IH False theight_step [of n] by simp
  qed simp
qed simp

lemma theight_bound: "n \<le> 2 ^ theight n"
proof (induction n rule: theight.induct)
  case (1 n)
  show ?case
  proof (cases "n \<le> 1")
    case False
    then have "(n + 1) div 2 \<le> 2 ^ theight ((n + 1) div 2)" using "1.IH" by simp
    then show ?thesis using False theight_step [of n] by simp
  qed (simp add: le_trans)
qed

section \<open>The frontier\<close>

text \<open>The visit of a child, and the two cases of a position.\<close>

definition visit :: "TreeRef \<Rightarrow> int \<Rightarrow> nodes \<Rightarrow> nodes \<Rightarrow> NodePosition list \<Rightarrow> NodePosition \<Rightarrow> NodePosition list" where
  "visit tree target left right result c = (if left (mk_ref tree c) \<noteq> None \<or> right (mk_ref tree c) \<noteq> None
     then collectFrontier tree c target left right result else result)"

lemma frontier_here:
  "npLevel p \<le> target \<or> \<not> canDescend tree p left right \<Longrightarrow> collectFrontier tree p target left right result = set_add p result"
  by (subst collectFrontier.simps) simp

lemma frontier_below:
  "\<not> (npLevel p \<le> target \<or> \<not> canDescend tree p left right) \<Longrightarrow> collectFrontier tree p target left right result =
     visit tree target left right (visit tree target left right result (mk_pos (npLevel p - 1) (wrap64 (npIndex p * 2))))
       (mk_pos (npLevel p - 1) (wrap64 (wrap64 (npIndex p * 2) + 1)))"
  by (subst collectFrontier.simps) (simp add: Let_def visit_def)

lemma descend_level: "canDescend tree p left right \<Longrightarrow> 0 < npLevel p"
  by (auto simp: canDescend_def split: if_splits)

lemma frontier_keeps: "set result \<subseteq> set (collectFrontier tree p target left right result)"
proof (induction "nat (npLevel p)" arbitrary: p result rule: less_induct)
  case less
  show ?case
  proof (cases "npLevel p \<le> target \<or> \<not> canDescend tree p left right")
    case True
    then show ?thesis by (auto simp: frontier_here)
  next
    case False
    then have lev: "nat (npLevel p - 1) < nat (npLevel p)" using descend_level by fastforce
    have "set result' \<subseteq> set (visit tree target left right result' (mk_pos (npLevel p - 1) c))" for result' c
      using less [of "mk_pos (npLevel p - 1) c" result'] lev by (simp add: visit_def)
    then show ?thesis unfolding frontier_below [OF False] by (meson order_trans)
  qed
qed

lemma frontier_stops:
  "q \<in> set (collectFrontier tree p target left right result) \<Longrightarrow> q \<in> set result \<or> npLevel q \<le> target \<or> \<not> canDescend tree q left right"
proof (induction "nat (npLevel p)" arbitrary: p result rule: less_induct)
  case less
  show ?case
  proof (cases "npLevel p \<le> target \<or> \<not> canDescend tree p left right")
    case True
    then show ?thesis using less.prems by (auto simp: frontier_here)
  next
    case False
    then have lev: "nat (npLevel p - 1) < nat (npLevel p)" using descend_level by fastforce
    have "q \<in> set result' \<or> npLevel q \<le> target \<or> \<not> canDescend tree q left right"
      if "q \<in> set (visit tree target left right result' (mk_pos (npLevel p - 1) c))" for result' c
      using that less.hyps [of "mk_pos (npLevel p - 1) c" result'] lev by (auto simp: visit_def split: if_splits)
    then show ?thesis using less.prems unfolding frontier_below [OF False] by blast
  qed
qed

text \<open>A difference at a position is a difference at a position of the frontier.\<close>

lemma level_width_le: "level_width n k \<le> n"
proof (induction k)
  case (Suc k)
  have "(level_width n k + 1) div 2 \<le> level_width n k" by (cases "level_width n k") auto
  then show ?case using Suc unfolding level_width_Suc' by simp
qed simp

lemma combine_differs:
  assumes "combine H w f p \<noteq> combine H w g p"
  shows "f (p * 2) \<noteq> g (p * 2) \<or> p * 2 + 1 < w \<and> f (p * 2 + 1) \<noteq> g (p * 2 + 1)"
  using assms by (auto simp: combine_def split: if_splits)

lemma get_differs: "gm_get z L p \<noteq> gm_get z R p \<Longrightarrow> \<not> (\<exists>h. L p = Some h \<and> R p = Some h)"
  by (auto simp: gm_get_def)

lemma frontier_differs:
  assumes L: "folded_tree H n (\<lambda>p. left (mk_ref tree p)) r1" and R: "folded_tree H n (\<lambda>p. right (mk_ref tree p)) r2"
    and small: "int n < MaxInt64" and "k \<le> theight n" and "differ left right (mk_ref tree (mk_pos (int k) i))"
    and "0 \<le> i" and "i < int (level_width n k)"
  shows "\<exists>q \<in> set (collectFrontier tree (mk_pos (int k) i) 0 left right result). differ left right (mk_ref tree q) \<and> 0 \<le> npLevel q"
  using assms(4-7)
proof (induction k arbitrary: i result)
  case 0
  then show ?case by (simp add: frontier_here)
next
  case (Suc k)
  let ?p = "mk_pos (int (Suc k)) i" and ?w = "int (level_width n k)"
  let ?L = "\<lambda>p. left (mk_ref tree p)" and ?R = "\<lambda>p. right (mk_ref tree p)"
  show ?case
  proof (cases "canDescend tree ?p left right")
    case False
    then show ?thesis using Suc.prems(2) by (simp add: frontier_here)
  next
    case True
    have k: "k < theight n" using Suc.prems(1) by simp
    have "i * 2 \<le> ?w" using Suc.prems(4) unfolding level_width_Suc' by linarith
    then have "i * 2 + 1 < 2 ^ 63" using level_width_le [of n k] small by linarith
    then have w: "wrap64 (i * 2) = i * 2" "wrap64 (i * 2 + 1) = i * 2 + 1" using Suc.prems(3) by (auto simp: int64_def intro!: wrap64_id)
    have first: "?L (mk_pos (int k) (i * 2)) \<noteq> None" "?R (mk_pos (int k) (i * 2)) \<noteq> None"
      using True by (auto simp: canDescend_def w Let_def split: if_splits)
    let ?gl = "\<lambda>j. gm_get 0 ?L (mk_pos (int k) j)" and ?gr = "\<lambda>j. gm_get 0 ?R (mk_pos (int k) j)"
    have "combine H ?w ?gl i \<noteq> combine H ?w ?gr i"
      using folded_child(3) [OF L k first(1)] folded_child(3) [OF R k first(2)] Suc.prems(2) by (auto simp: differ_def)
    then consider (a) "?gl (i * 2) \<noteq> ?gr (i * 2)" | (b) "i * 2 + 1 < ?w" "?gl (i * 2 + 1) \<noteq> ?gr (i * 2 + 1)"
      using combine_differs [of H ?w ?gl i ?gr] by blast
    then obtain j where j: "j \<in> {i * 2, i * 2 + 1}" "j < ?w" "differ left right (mk_ref tree (mk_pos (int k) j))" "?L (mk_pos (int k) j) \<noteq> None"
    proof cases
      case a
      then show ?thesis using that [of "i * 2"] folded_child(2) [OF L k first(1)] first(1) get_differs [OF a] by (simp add: differ_def)
    next
      case b
      then show ?thesis using that [of "i * 2 + 1"] folded_child(4) [OF L k first(1) b(1)] get_differs [OF b(2)] b(1) by (simp add: differ_def)
    qed
    have "0 \<le> j" using j(1) Suc.prems(3) by auto
    have step: "\<exists>q \<in> set (visit tree 0 left right result' (mk_pos (int k) j)). differ left right (mk_ref tree q) \<and> 0 \<le> npLevel q" for result'
      using Suc.IH [OF _ j(3) \<open>0 \<le> j\<close> j(2), of result'] k j(4) by (simp add: visit_def)
    have below: "collectFrontier tree ?p 0 left right result =
        visit tree 0 left right (visit tree 0 left right result (mk_pos (int k) (i * 2))) (mk_pos (int k) (i * 2 + 1))"
      using True by (subst frontier_below) (simp_all add: w)
    have keep: "set r \<subseteq> set (visit tree 0 left right r c)" for r c using frontier_keeps by (auto simp: visit_def)
    show ?thesis
    proof (cases "j = i * 2")
      case True
      then show ?thesis unfolding below using step [of result] keep by blast
    next
      case False
      then show ?thesis unfolding below using step j(1) by blast
    qed
  qed
qed

text \<open>A leaf that both traces record is a position of the frontier.\<close>

lemma frontier_reaches:
  assumes L: "folded_tree H n (\<lambda>p. left (mk_ref tree p)) r1" and R: "folded_tree H n (\<lambda>p. right (mk_ref tree p)) r2"
    and small: "int n < MaxInt64" and i: "0 \<le> i" "i < int n"
    and leaf: "left (mk_ref tree (mk_pos 0 i)) \<noteq> None" "right (mk_ref tree (mk_pos 0 i)) \<noteq> None" and "k \<le> theight n"
  shows "mk_pos 0 i \<in> set (collectFrontier tree (mk_pos (int k) (i div 2 ^ k)) 0 left right result)"
  using assms(8)
proof (induction k arbitrary: result)
  case 0
  then show ?case by (simp add: frontier_here)
next
  case (Suc k)
  let ?j = "i div 2 ^ k"
  obtain p where p: "i div 2 ^ Suc k = p" by blast
  have k: "k < theight n" using Suc.prems by simp
  have half: "?j div 2 = p" unfolding p [symmetric] by (simp add: zdiv_zmult2_eq [symmetric] mult.commute)
  have "?j \<le> i" using zdiv_mono2 [OF i(1), of 1 "2 ^ k"] by simp
  then have bound: "0 \<le> ?j" "?j < 2 ^ 63 - 1" using i small by (auto simp: pos_imp_zdiv_nonneg_iff)
  then have w: "wrap64 (p * 2) = p * 2" "wrap64 (p * 2 + 1) = p * 2 + 1"
    using half by (auto simp: int64_def intro!: wrap64_id)
  have path: "left (mk_ref tree (mk_pos (int k) ?j)) \<noteq> None" "right (mk_ref tree (mk_pos (int k) ?j)) \<noteq> None"
    using folded_path [OF L, of k i] folded_path [OF R, of k i] leaf k by auto
  then have first: "left (mk_ref tree (mk_pos (int k) (p * 2))) \<noteq> None" "right (mk_ref tree (mk_pos (int k) (p * 2))) \<noteq> None"
    using L R k half unfolding folded_tree_def by metis+
  then have desc: "canDescend tree (mk_pos (int (Suc k)) p) left right" by (simp add: canDescend_def w)
  have below: "collectFrontier tree (mk_pos (int (Suc k)) p) 0 left right result =
      visit tree 0 left right (visit tree 0 left right result (mk_pos (int k) (p * 2))) (mk_pos (int k) (p * 2 + 1))"
    using desc by (subst frontier_below) (simp_all add: w)
  have step: "mk_pos 0 i \<in> set (visit tree 0 left right r (mk_pos (int k) ?j))" for r
    using Suc.IH [of r] k path by (simp add: visit_def)
  have keep: "set r \<subseteq> set (visit tree 0 left right r c)" for r c using frontier_keeps by (auto simp: visit_def)
  consider "?j = p * 2" | "?j = p * 2 + 1" using half by linarith
  then show ?case
  proof cases
    case 1
    show ?thesis unfolding p below using step [of result] unfolding 1 by (rule rev_subsetD) (rule keep)
  next
    case 2
    show ?thesis unfolding p below using step unfolding 2 .
  qed
qed

section \<open>One tree\<close>

abbreviation child_at :: "treeShape \<Rightarrow> int \<Rightarrow> TreeRef option" where
  "child_at shape i \<equiv> (case shChildren shape of None \<Rightarrow> None | Some children \<Rightarrow> children i)"

abbreviation trace_differs :: "ProofTrace \<Rightarrow> ProofTrace \<Rightarrow> NodeRef \<Rightarrow> bool" where
  "trace_differs auditor reference \<equiv> differ (map_of (ptNodes auditor)) (map_of (ptNodes reference))"

definition blamed :: "TreeRef \<Rightarrow> treeShape \<Rightarrow> ProofTrace \<Rightarrow> ProofTrace \<Rightarrow> NodePosition \<Rightarrow> bool" where
  "blamed tree shape auditor reference q \<longleftrightarrow> trace_differs auditor reference (mk_ref tree q) \<and>
     (if npLevel q = 0 then \<not> (\<exists>child. child_at shape (npIndex q) = Some child \<and> treeMismatch child auditor reference)
      else \<not> canDescend tree q (map_of (ptNodes auditor)) (map_of (ptNodes reference)))"

definition suspect_of :: "TreeRef \<Rightarrow> ProofTrace \<Rightarrow> ProofTrace \<Rightarrow> (NodeRef \<rightharpoonup> PhysicalAddress) \<Rightarrow> NodePosition \<Rightarrow> Suspect" where
  "suspect_of tree auditor reference addresses q =
     (let ref = mk_ref tree q; left = gm_get 0 (map_of (ptNodes auditor)) ref; right = gm_get 0 (map_of (ptNodes reference)) ref
      in if npLevel q = 0 then nodeSuspect ref left right addresses
         else \<lparr>suRef = ref, suAddress = None, suAuditorHash = left, suReferenceHash = right, suClassification = AuthenticationNodeMismatch\<rparr>)"

lemma compare_position_eq:
  "\<exists>c. compare_position tree shape auditor reference addresses (cs, nx, ss) q = (cs @ [c],
     nx @ (if trace_differs auditor reference (mk_ref tree q) \<and> npLevel q \<noteq> 0 \<and>
             canDescend tree q (map_of (ptNodes auditor)) (map_of (ptNodes reference)) then [q] else []),
     ss @ (if blamed tree shape auditor reference q then [suspect_of tree auditor reference addresses q] else []))"
proof -
  let ?l = "map_of (ptNodes auditor) (mk_ref tree q)" and ?r = "map_of (ptNodes reference) (mk_ref tree q)"
  have "(?l \<noteq> None \<and> ?r \<noteq> None \<and> equalHash (gm_get 0 (map_of (ptNodes auditor)) (mk_ref tree q)) (gm_get 0 (map_of (ptNodes reference)) (mk_ref tree q)))
      \<longleftrightarrow> \<not> trace_differs auditor reference (mk_ref tree q)"
    by (auto simp: differ_def gm_get_def)
  then show ?thesis
    unfolding compare_position_def Let_def prod.case
    by (auto simp: blamed_def suspect_of_def Let_def split: option.splits)
qed

lemma compare_positions:
  "\<exists>cs'. foldl (compare_position tree shape auditor reference addresses) (cs, nx, ss) qs = (cs @ cs',
     nx @ filter (\<lambda>q. trace_differs auditor reference (mk_ref tree q) \<and> npLevel q \<noteq> 0 \<and>
       canDescend tree q (map_of (ptNodes auditor)) (map_of (ptNodes reference))) qs,
     ss @ map (suspect_of tree auditor reference addresses) (filter (blamed tree shape auditor reference) qs))"
proof (induction qs arbitrary: cs nx ss)
  case (Cons q qs)
  obtain c where c: "compare_position tree shape auditor reference addresses (cs, nx, ss) q = (cs @ [c],
     nx @ (if trace_differs auditor reference (mk_ref tree q) \<and> npLevel q \<noteq> 0 \<and>
             canDescend tree q (map_of (ptNodes auditor)) (map_of (ptNodes reference)) then [q] else []),
     ss @ (if blamed tree shape auditor reference q then [suspect_of tree auditor reference addresses q] else []))"
    using compare_position_eq by blast
  let ?nx = "nx @ (if trace_differs auditor reference (mk_ref tree q) \<and> npLevel q \<noteq> 0 \<and>
       canDescend tree q (map_of (ptNodes auditor)) (map_of (ptNodes reference)) then [q] else [])"
    and ?ss = "ss @ (if blamed tree shape auditor reference q then [suspect_of tree auditor reference addresses q] else [])"
  obtain cs' where "foldl (compare_position tree shape auditor reference addresses) (cs @ [c], ?nx, ?ss) qs = ((cs @ [c]) @ cs',
     ?nx @ filter (\<lambda>q. trace_differs auditor reference (mk_ref tree q) \<and> npLevel q \<noteq> 0 \<and>
       canDescend tree q (map_of (ptNodes auditor)) (map_of (ptNodes reference))) qs,
     ?ss @ map (suspect_of tree auditor reference addresses) (filter (blamed tree shape auditor reference) qs))"
    using Cons.IH by blast
  then show ?case unfolding foldl_Cons c by (intro exI [of _ "c # cs'"]) simp
qed simp

definition frontier_of :: "TreeRef \<Rightarrow> int \<Rightarrow> ProofTrace \<Rightarrow> ProofTrace \<Rightarrow> NodePosition list" where
  "frontier_of tree h auditor reference =
     sortedPositions (collectFrontier tree (mk_pos h 0) 0 (map_of (ptNodes auditor)) (map_of (ptNodes reference)) [])"

lemma set_frontier_of: "set (frontier_of tree h auditor reference) =
    set (collectFrontier tree (mk_pos h 0) 0 (map_of (ptNodes auditor)) (map_of (ptNodes reference)) [])"
  by (simp add: frontier_of_def sortedPositions_def)

lemma prune_one_round:
  assumes "h \<le> 63" and "0 \<le> h"
  shows "\<exists>rounds'. prune_rounds (Suc n) tree shape auditor reference addresses DefaultJumpLevels [mk_pos h 0] (rounds, suspects) =
    Inr (rounds', suspects @ map (suspect_of tree auditor reference addresses)
      (filter (blamed tree shape auditor reference) (frontier_of tree h auditor reference)))"
proof -
  let ?l = "map_of (ptNodes auditor)" and ?r = "map_of (ptNodes reference)" and ?frontier = "frontier_of tree h auditor reference"
  have "wrap32 (h - 63) = h - 63" "wrap32 0 = 0" using assms by (simp_all add: wrap32_def)
  then have target: "(if wrap32 (npLevel (mk_pos h 0) - DefaultJumpLevels) < 0 then 0 else wrap32 (npLevel (mk_pos h 0) - DefaultJumpLevels)) = 0"
    using assms by (auto simp: DefaultJumpLevels_def)
  have "filter (\<lambda>q. trace_differs auditor reference (mk_ref tree q) \<and> npLevel q \<noteq> 0 \<and> canDescend tree q ?l ?r) ?frontier = []"
  proof (rule filter_False, rule ballI)
    fix q
    assume "q \<in> set ?frontier"
    then have "npLevel q \<le> 0 \<or> \<not> canDescend tree q ?l ?r" using frontier_stops [of q tree] unfolding set_frontier_of by fastforce
    then show "\<not> (trace_differs auditor reference (mk_ref tree q) \<and> npLevel q \<noteq> 0 \<and> canDescend tree q ?l ?r)" using descend_level by fastforce
  qed
  then obtain cs where "foldl (compare_position tree shape auditor reference addresses) ([], [], suspects) ?frontier =
      (cs, [], suspects @ map (suspect_of tree auditor reference addresses) (filter (blamed tree shape auditor reference) ?frontier))"
    using compare_positions [of tree shape auditor reference addresses "[]" "[]" suspects ?frontier] by auto
  then show ?thesis unfolding prune_rounds.simps Let_def target foldl_Cons foldl_Nil frontier_of_def [symmetric] by auto
qed

section \<open>Shapes\<close>

definition shapes_ok :: "HMFProof \<Rightarrow> shapes \<Rightarrow> bool" where
  "shapes_ok proof shapes \<longleftrightarrow> set (gm_keys shapes) = tpTree ` set (ppTrees (hpPlan proof)) \<and>
     (\<forall>p \<in> set (ppTrees (hpPlan proof)). \<exists>children. map_of shapes (tpTree p) = Some \<lparr>shLeafCount = tpLeafCount p, shChildren = Some children\<rparr> \<and>
       (\<forall>i child. children i = Some child \<longrightarrow> (\<exists>k \<in> set (ppParentLinks (hpPlan proof)). plChild k = child \<and> plParent k = tpTree p)))"

lemma base_shapes:
  assumes "distinct (map tpTree ps)"
  shows "set (gm_keys (foldl (\<lambda>result plan. gm_put (tpTree plan) \<lparr>shLeafCount = tpLeafCount plan, shChildren = Some Map.empty\<rparr> result) [] ps)) = tpTree ` set ps \<and>
    (\<forall>p \<in> set ps. map_of (foldl (\<lambda>result plan. gm_put (tpTree plan) \<lparr>shLeafCount = tpLeafCount plan, shChildren = Some Map.empty\<rparr> result) [] ps) (tpTree p) =
      Some \<lparr>shLeafCount = tpLeafCount p, shChildren = Some Map.empty\<rparr>)"
  using assms
proof (induction ps rule: rev_induct)
  case (snoc p ps)
  have "tpTree p \<notin> tpTree ` set ps" using snoc.prems by simp
  then have "tpTree pa \<noteq> tpTree p" if "pa \<in> set ps" for pa using that by (metis imageI)
  with snoc show ?case by (auto simp: gm_keys_put simp del: set_map)
qed simp

lemma add_children:
  assumes "shapes_ok proof shapes" and "set links \<subseteq> set (ppParentLinks (hpPlan proof))"
    and "\<forall>k \<in> set links. plParent k \<in> tpTree ` set (ppTrees (hpPlan proof))" and "distinct (map tpTree (ppTrees (hpPlan proof)))"
  shows "\<exists>shapes'. rfold add_shape_child shapes links = Inr shapes' \<and> shapes_ok proof shapes'"
  using assms(1-3)
proof (induction links arbitrary: shapes)
  case (Cons k links)
  obtain p where p: "p \<in> set (ppTrees (hpPlan proof))" "plParent k = tpTree p" using Cons.prems(3) by auto
  obtain ch where ch: "map_of shapes (tpTree p) = Some \<lparr>shLeafCount = tpLeafCount p, shChildren = Some ch\<rparr>"
    "\<forall>i child. ch i = Some child \<longrightarrow> (\<exists>k \<in> set (ppParentLinks (hpPlan proof)). plChild k = child \<and> plParent k = tpTree p)"
    using Cons.prems(1) p(1) unfolding shapes_ok_def by blast
  let ?new = "\<lparr>shLeafCount = tpLeafCount p, shChildren = Some (ch(plParentLeafIndex k \<mapsto> plChild k))\<rparr>"
  have step: "add_shape_child shapes k = Inr (gm_put (tpTree p) ?new shapes)" using ch(1) p(2) by (simp add: add_shape_child_def gm_get_def)
  have new: "\<forall>i child. (ch(plParentLeafIndex k \<mapsto> plChild k)) i = Some child \<longrightarrow>
      (\<exists>k \<in> set (ppParentLinks (hpPlan proof)). plChild k = child \<and> plParent k = tpTree p)"
    using ch(2) Cons.prems(2) p(2) by auto
  have "shapes_ok proof (gm_put (tpTree p) ?new shapes)" unfolding shapes_ok_def
  proof (intro conjI ballI)
    show "set (gm_keys (gm_put (tpTree p) ?new shapes)) = tpTree ` set (ppTrees (hpPlan proof))"
      using Cons.prems(1) p(1) by (auto simp: shapes_ok_def gm_keys_put simp del: set_map)
    fix p'
    assume p': "p' \<in> set (ppTrees (hpPlan proof))"
    show "\<exists>children. map_of (gm_put (tpTree p) ?new shapes) (tpTree p') = Some \<lparr>shLeafCount = tpLeafCount p', shChildren = Some children\<rparr> \<and>
       (\<forall>i child. children i = Some child \<longrightarrow> (\<exists>k \<in> set (ppParentLinks (hpPlan proof)). plChild k = child \<and> plParent k = tpTree p'))"
    proof (cases "tpTree p' = tpTree p")
      case True
      then have "p' = p" using assms(4) p' p(1) by (simp add: distinct_map inj_on_def)
      then show ?thesis using new by auto
    next
      case False
      then show ?thesis using Cons.prems(1) p' unfolding shapes_ok_def by simp
    qed
  qed
  then show ?case using Cons.IH Cons.prems(2,3) step by auto
qed auto

lemma proofShapes_ok:
  assumes "well_formed_proof proof addresses"
  shows "\<exists>shapes. proofShapes proof = Inr shapes \<and> shapes_ok proof shapes"
proof -
  have d: "distinct (map tpTree (ppTrees (hpPlan proof)))" and links: "\<forall>k \<in> set (ppParentLinks (hpPlan proof)). link_ok (proof_plans proof) k"
    using assms by (auto simp: well_formed_proof_def)
  have "plParent k \<in> tpTree ` set (ppTrees (hpPlan proof))" if "k \<in> set (ppParentLinks (hpPlan proof))" for k
  proof -
    have "map_of (proof_plans proof) (plParent k) \<noteq> None" using links that by (auto simp: link_ok_def)
    then show ?thesis unfolding map_of_None_keys by simp
  qed
  moreover have "shapes_ok proof (foldl (\<lambda>result plan. gm_put (tpTree plan) \<lparr>shLeafCount = tpLeafCount plan, shChildren = Some Map.empty\<rparr> result) []
      (ppTrees (hpPlan proof)))"
    unfolding shapes_ok_def using base_shapes [OF d] by auto
  ultimately show ?thesis unfolding proofShapes_def using add_children [OF _ _ _ d] by blast
qed

section \<open>All trees\<close>

text \<open>What a suspect says of the two traces.\<close>

definition genuine :: "PhysicalAddress list \<Rightarrow> ProofTrace \<Rightarrow> ProofTrace \<Rightarrow> Suspect \<Rightarrow> bool" where
  "genuine addresses auditor reference s \<longleftrightarrow>
     (if suClassification s = TopologyMismatch then treeMismatch (nrTree (suRef s)) auditor reference
      else trace_differs auditor reference (suRef s) \<and> suAuditorHash s = gm_get 0 (map_of (ptNodes auditor)) (suRef s) \<and>
        suReferenceHash s = gm_get 0 (map_of (ptNodes reference)) (suRef s)) \<and>
     (suClassification s = LeafMismatch \<longrightarrow> (\<exists>address \<in> set addresses. suAddress s = Some address \<and> suRef s = target_ref address))"

lemma addressByNode_Some: "addressByNode addresses ref = Some address \<Longrightarrow> address \<in> set addresses \<and> ref = target_ref address"
proof -
  have "addressByNode addresses = target_map addresses" by (simp add: addressByNode_def target_map_def target_ref_def segmentTree_def)
  moreover assume "addressByNode addresses ref = Some address"
  ultimately have "target_map addresses ref = Some address" by simp
  then have "ref \<in> target_ref ` set addresses" using target_map_None [of addresses ref] by auto
  then obtain a where "a \<in> set addresses" "ref = target_ref a" by blast
  with target_map_ref [of a addresses] \<open>target_map addresses ref = Some address\<close> show ?thesis by auto
qed

lemma suspect_genuine:
  assumes "blamed tree shape auditor reference q"
  shows "genuine addresses auditor reference (suspect_of tree auditor reference (addressByNode addresses) q)"
  using assms addressByNode_Some [of addresses "mk_ref tree q"]
  by (auto simp: blamed_def suspect_of_def genuine_def nodeSuspect_def Let_def split: option.splits)

lemma set_unionTrees: "set (unionTrees left right) = set (gm_keys left) \<union> set (gm_keys right)"
proof -
  have "set (foldl (\<lambda>trees tree. set_add tree trees) acc ts) = set acc \<union> set ts" for acc and ts :: "TreeRef list"
    by (induction ts arbitrary: acc) auto
  then show ?thesis by (simp add: unionTrees_def)
qed

lemma committed_mismatch:
  "treeMismatch t a r \<longleftrightarrow> \<not> (\<exists>h. map_of (ptCommittedRoots a) t = Some h \<and> map_of (ptCommittedRoots r) t = Some h)"
  by (auto simp: treeMismatch_def split: option.splits)

text \<open>The suspects of one tree: none if its roots agree, the tree itself if its shape differs, and
  otherwise the blamed positions of its frontier.\<close>

definition topology_differs :: "shapes \<Rightarrow> shapes \<Rightarrow> ProofTrace \<Rightarrow> ProofTrace \<Rightarrow> TreeRef \<Rightarrow> bool" where
  "topology_differs ash rsh ta tr t \<longleftrightarrow> map_of (ptCommittedRoots ta) t = None \<or> map_of (ptCommittedRoots tr) t = None \<or>
     map_of ash t = None \<or> map_of rsh t = None \<or>
     shLeafCount (gm_get zero_shape (map_of ash) t) \<noteq> shLeafCount (gm_get zero_shape (map_of rsh) t)"

definition tree_suspects :: "shapes \<Rightarrow> shapes \<Rightarrow> ProofTrace \<Rightarrow> ProofTrace \<Rightarrow> PhysicalAddress list \<Rightarrow> TreeRef \<Rightarrow> Suspect list" where
  "tree_suspects ash rsh ta tr addresses t =
     (let l = gm_get zero_shape (map_of ash) t; r = gm_get zero_shape (map_of rsh) t in
      if \<not> treeMismatch t ta tr then []
      else if topology_differs ash rsh ta tr t
      then [topologySuspect t ta tr (maxInt32 (treeHeight (shLeafCount l)) (treeHeight (shLeafCount r)))]
      else map (suspect_of t ta tr (addressByNode addresses)) (filter (blamed t r ta tr) (frontier_of t (treeHeight (shLeafCount l)) ta tr)))"

lemma tree_suspects_genuine: "s \<in> set (tree_suspects ash rsh ta tr addresses t) \<Longrightarrow> genuine addresses ta tr s"
  using suspect_genuine by (auto simp: tree_suspects_def Let_def genuine_def topologySuspect_def split: if_splits)

text \<open>Two accepted proofs with their shapes.\<close>

definition traced :: "hash_fn \<Rightarrow> PhysicalAddress list \<Rightarrow> HMFProof \<Rightarrow> shapes \<Rightarrow> ProofTrace \<Rightarrow> bool" where
  "traced H addresses p shapes trace \<longleftrightarrow> TraceHMFProof H p addresses = Inr trace \<and> shapes_ok p shapes \<and>
     (\<forall>q \<in> set (ppTrees (hpPlan p)). tpLeafCount q < MaxInt64)"

lemma traced_plan:
  assumes "traced H addresses p shapes trace" and "map_of shapes t \<noteq> None"
  obtains q n root children where "q \<in> set (ppTrees (hpPlan p))" "tpTree q = t" "tpLeafCount q = int n" "0 < n" "int n < MaxInt64"
    "folded_tree H n (\<lambda>pos. map_of (ptNodes trace) (mk_ref t pos)) root"
    "map_of (ptCommittedRoots trace) t = Some (committedRoot H t (int n) root)"
    "\<forall>i h. trLayer t = LayerSegment \<and> (i, h) \<in> set (segment_leaves_of (hpLeaves p) t) \<longrightarrow>
       0 \<le> i \<and> i < int n \<and> map_of (ptNodes trace) (mk_ref t (mk_pos 0 i)) = Some h"
    "map_of shapes t = Some \<lparr>shLeafCount = int n, shChildren = Some children\<rparr>"
    "\<forall>i child. children i = Some child \<longrightarrow> (\<exists>k \<in> set (ppParentLinks (hpPlan p)). plChild k = child \<and> plParent k = t)"
proof -
  have ok: "TraceHMFProof H p addresses = Inr trace" "shapes_ok p shapes" using assms(1) by (simp_all add: traced_def)
  have "t \<in> set (gm_keys shapes)" using assms(2) map_of_None_keys by metis
  then obtain q where q: "q \<in> set (ppTrees (hpPlan p))" "tpTree q = t" using ok(2) by (auto simp: shapes_ok_def)
  have small: "tpLeafCount q < MaxInt64" using assms(1) q(1) unfolding traced_def by blast
  obtain children where c: "map_of shapes t = Some \<lparr>shLeafCount = tpLeafCount q, shChildren = Some children\<rparr>"
    "\<forall>i child. children i = Some child \<longrightarrow> (\<exists>k \<in> set (ppParentLinks (hpPlan p)). plChild k = child \<and> plParent k = t)"
    using ok(2) q unfolding shapes_ok_def by blast
  show thesis
    by (rule traced_tree [OF ok(1) q(1) small], unfold q(2), rule that [of q _ _ children]) (assumption | use q c small in simp)+
qed

lemma compared_tree:
  assumes "traced H addresses ap ash ta" and "traced H addresses rp rsh tr" and "\<not> topology_differs ash rsh ta tr t"
  obtains n ra rr where "0 < n" "int n < MaxInt64" "treeHeight (shLeafCount (gm_get zero_shape (map_of ash) t)) = int (theight n)"
    "int (theight n) \<le> 63"
    "folded_tree H n (\<lambda>pos. map_of (ptNodes ta) (mk_ref t pos)) ra" "folded_tree H n (\<lambda>pos. map_of (ptNodes tr) (mk_ref t pos)) rr"
    "map_of (ptCommittedRoots ta) t = Some (committedRoot H t (int n) ra)" "map_of (ptCommittedRoots tr) t = Some (committedRoot H t (int n) rr)"
    "\<forall>i h. trLayer t = LayerSegment \<and> (i, h) \<in> set (segment_leaves_of (hpLeaves ap) t) \<longrightarrow>
       0 \<le> i \<and> i < int n \<and> map_of (ptNodes ta) (mk_ref t (mk_pos 0 i)) = Some h"
    "\<forall>i h. trLayer t = LayerSegment \<and> (i, h) \<in> set (segment_leaves_of (hpLeaves rp) t) \<longrightarrow>
       0 \<le> i \<and> i < int n \<and> map_of (ptNodes tr) (mk_ref t (mk_pos 0 i)) = Some h"
    "\<forall>i child. child_at (gm_get zero_shape (map_of rsh) t) i = Some child \<longrightarrow>
       (\<exists>k \<in> set (ppParentLinks (hpPlan rp)). plChild k = child \<and> plParent k = t)"
proof -
  have some: "map_of ash t \<noteq> None" "map_of rsh t \<noteq> None" using assms(3) by (auto simp: topology_differs_def)
  show thesis
  proof (rule traced_plan [OF assms(1) some(1)], rule traced_plan [OF assms(2) some(2)])
    fix qa na ra ca qr nr rr cr
    assume a: "0 < na" "int na < MaxInt64" "folded_tree H na (\<lambda>pos. map_of (ptNodes ta) (mk_ref t pos)) ra"
      "map_of (ptCommittedRoots ta) t = Some (committedRoot H t (int na) ra)"
      "\<forall>i h. trLayer t = LayerSegment \<and> (i, h) \<in> set (segment_leaves_of (hpLeaves ap) t) \<longrightarrow>
         0 \<le> i \<and> i < int na \<and> map_of (ptNodes ta) (mk_ref t (mk_pos 0 i)) = Some h"
      and sa: "map_of ash t = Some \<lparr>shLeafCount = int na, shChildren = Some ca\<rparr>"
    assume r: "folded_tree H nr (\<lambda>pos. map_of (ptNodes tr) (mk_ref t pos)) rr"
      "map_of (ptCommittedRoots tr) t = Some (committedRoot H t (int nr) rr)"
      "\<forall>i h. trLayer t = LayerSegment \<and> (i, h) \<in> set (segment_leaves_of (hpLeaves rp) t) \<longrightarrow>
         0 \<le> i \<and> i < int nr \<and> map_of (ptNodes tr) (mk_ref t (mk_pos 0 i)) = Some h"
      and sr: "map_of rsh t = Some \<lparr>shLeafCount = int nr, shChildren = Some cr\<rparr>"
      and cr: "\<forall>i child. cr i = Some child \<longrightarrow> (\<exists>k \<in> set (ppParentLinks (hpPlan rp)). plChild k = child \<and> plParent k = t)"
    have eq: "nr = na" using assms(3) sa sr by (simp add: topology_differs_def gm_get_def)
    have "na \<le> 2 ^ 63" using a(2) by simp
    then have "int (theight na) \<le> 63" using theight_le by fastforce
    then show thesis
      by (rule that [OF a(1,2) _ _ a(3) r(1) [unfolded eq] a(4) r(2) [unfolded eq] a(5) r(3) [unfolded eq], rotated])
        (use sa sr cr treeHeight_eq [OF a(2)] in \<open>simp_all add: gm_get_def\<close>)
  qed
qed

lemma analyze_tree_runs:
  assumes "traced H addresses ap ash ta" and "traced H addresses rp rsh tr"
  shows "\<exists>rounds'. analyze_tree (Suc n) ash rsh ta tr (addressByNode addresses) DefaultJumpLevels (rounds, suspects) t =
    Inr (rounds', suspects @ tree_suspects ash rsh ta tr addresses t)"
proof (cases "treeMismatch t ta tr \<and> \<not> topology_differs ash rsh ta tr t")
  case True
  obtain m where m: "treeHeight (shLeafCount (gm_get zero_shape (map_of ash) t)) = int (theight m)" "int (theight m) \<le> 63"
    using compared_tree [OF assms] True by metis
  let ?h = "treeHeight (shLeafCount (gm_get zero_shape (map_of ash) t))" and ?r = "gm_get zero_shape (map_of rsh) t"
  have "analyze_tree (Suc n) ash rsh ta tr (addressByNode addresses) DefaultJumpLevels (rounds, suspects) t =
      prune_rounds (Suc n) t ?r ta tr (addressByNode addresses) DefaultJumpLevels [mk_pos ?h 0] (rounds, suspects)"
    using True unfolding topology_differs_def by (simp only: analyze_tree_def Let_def prod.case if_True if_False simp_thms)
  moreover have "tree_suspects ash rsh ta tr addresses t =
      map (suspect_of t ta tr (addressByNode addresses)) (filter (blamed t ?r ta tr) (frontier_of t ?h ta tr))"
    using True by (simp only: tree_suspects_def Let_def if_True if_False simp_thms)
  ultimately show ?thesis using prune_one_round [OF m(2) of_nat_0_le_iff] m(1) by auto
next
  case False
  then show ?thesis
    by (auto simp only: analyze_tree_def tree_suspects_def topology_differs_def Let_def prod.case if_True if_False simp_thms append_Nil2 split: if_splits)
qed

text \<open>A tree whose roots differ while the roots of its children agree has a suspect.\<close>

lemma tree_suspects_nonempty:
  assumes a: "traced H addresses ap ash ta" and r: "traced H addresses rp rsh tr" and mismatch: "treeMismatch t ta tr"
    and leaf: "\<forall>k \<in> set (ppParentLinks (hpPlan rp)). plParent k = t \<longrightarrow> \<not> treeMismatch (plChild k) ta tr"
  shows "tree_suspects ash rsh ta tr addresses t \<noteq> []"
proof (cases "topology_differs ash rsh ta tr t")
  case True
  then show ?thesis using mismatch by (simp add: tree_suspects_def Let_def)
next
  case False
  obtain n ra rr where n: "0 < n" "int n < MaxInt64" and h: "treeHeight (shLeafCount (gm_get zero_shape (map_of ash) t)) = int (theight n)"
    and f: "folded_tree H n (\<lambda>pos. map_of (ptNodes ta) (mk_ref t pos)) ra" "folded_tree H n (\<lambda>pos. map_of (ptNodes tr) (mk_ref t pos)) rr"
    and roots: "map_of (ptCommittedRoots ta) t = Some (committedRoot H t (int n) ra)" "map_of (ptCommittedRoots tr) t = Some (committedRoot H t (int n) rr)"
    and ch: "\<forall>i child. child_at (gm_get zero_shape (map_of rsh) t) i = Some child \<longrightarrow>
       (\<exists>k \<in> set (ppParentLinks (hpPlan rp)). plChild k = child \<and> plParent k = t)"
    using compared_tree [OF a r False] by metis
  let ?f = "frontier_of t (int (theight n)) ta tr" and ?r = "gm_get zero_shape (map_of rsh) t"
  have "ra \<noteq> rr" using mismatch roots by (auto simp: committed_mismatch)
  then have "trace_differs ta tr (mk_ref t (mk_pos (int (theight n)) 0))" using f by (auto simp: folded_tree_def differ_def)
  moreover have "0 < level_width n (theight n)" using level_width_pos [OF n(1)] .
  ultimately obtain q where q: "q \<in> set ?f" "trace_differs ta tr (mk_ref t q)" "0 \<le> npLevel q"
    using frontier_differs [OF f n(2) order_refl, of 0 "[]"] unfolding set_frontier_of by auto
  have "npLevel q \<le> 0 \<or> \<not> canDescend t q (map_of (ptNodes ta)) (map_of (ptNodes tr))"
    using q(1) frontier_stops [of q t] unfolding set_frontier_of by fastforce
  then have "blamed t ?r ta tr q" using q(2,3) ch leaf unfolding blamed_def by fastforce
  then show ?thesis using q(1) False mismatch h by (auto simp: tree_suspects_def Let_def filter_empty_conv)
qed

text \<open>A requested leaf with two different hashes is a suspect of its segment.\<close>

definition leaf_suspect :: "RequestedLeaf \<Rightarrow> RequestedLeaf \<Rightarrow> Suspect" where
  "leaf_suspect l m = \<lparr>suRef = target_ref (rlAddress l), suAddress = Some (rlAddress l), suAuditorHash = rlHash l,
     suReferenceHash = rlHash m, suClassification = LeafMismatch\<rparr>"

lemma tree_suspects_leaf:
  assumes a: "traced H addresses ap ash ta" and r: "traced H addresses rp rsh tr"
    and t: "t = segmentTree (segment_key (rlAddress l))" "treeMismatch t ta tr" "\<not> topology_differs ash rsh ta tr t"
    and l: "l \<in> set (hpLeaves ap)" "m \<in> set (hpLeaves rp)" "rlAddress m = rlAddress l" "rlHash l \<noteq> rlHash m" "rlAddress l \<in> set addresses"
  shows "leaf_suspect l m \<in> set (tree_suspects ash rsh ta tr addresses t)"
proof -
  obtain n ra rr where n: "int n < MaxInt64" and h: "treeHeight (shLeafCount (gm_get zero_shape (map_of ash) t)) = int (theight n)"
    and f: "folded_tree H n (\<lambda>pos. map_of (ptNodes ta) (mk_ref t pos)) ra" "folded_tree H n (\<lambda>pos. map_of (ptNodes tr) (mk_ref t pos)) rr"
    and la: "\<forall>i h. trLayer t = LayerSegment \<and> (i, h) \<in> set (segment_leaves_of (hpLeaves ap) t) \<longrightarrow>
       0 \<le> i \<and> i < int n \<and> map_of (ptNodes ta) (mk_ref t (mk_pos 0 i)) = Some h"
    and lr: "\<forall>i h. trLayer t = LayerSegment \<and> (i, h) \<in> set (segment_leaves_of (hpLeaves rp) t) \<longrightarrow>
       0 \<le> i \<and> i < int n \<and> map_of (ptNodes tr) (mk_ref t (mk_pos 0 i)) = Some h"
    and ch: "\<forall>i child. child_at (gm_get zero_shape (map_of rsh) t) i = Some child \<longrightarrow>
       (\<exists>k \<in> set (ppParentLinks (hpPlan rp)). plChild k = child \<and> plParent k = t)"
    by (rule compared_tree [OF a r t(3)]) (rule that; assumption)
  let ?q = "mk_pos 0 (paLeafID (rlAddress l))" and ?r = "gm_get zero_shape (map_of rsh) t"
  have seg: "trLayer t = LayerSegment" by (simp add: t(1) segmentTree_def)
  have "(paLeafID (rlAddress l), rlHash l) \<in> set (segment_leaves_of (hpLeaves ap) t)" "(paLeafID (rlAddress l), rlHash m) \<in> set (segment_leaves_of (hpLeaves rp) t)"
    using l(1) t(1) imageI [of m "{x \<in> set (hpLeaves rp). segmentTree (segment_key (rlAddress x)) = t}" "\<lambda>x. (paLeafID (rlAddress x), rlHash x)"] l(2,3)
    by (force simp: segment_leaves_of_def, simp add: segment_leaves_of_def)
  then have leaf: "0 \<le> paLeafID (rlAddress l)" "paLeafID (rlAddress l) < int n" "map_of (ptNodes ta) (mk_ref t ?q) = Some (rlHash l)"
    "map_of (ptNodes tr) (mk_ref t ?q) = Some (rlHash m)" using la lr seg by blast+
  have wf: "well_formed_proof rp addresses" using r evaluate_trace unfolding traced_def TraceHMFProof_def by metis
  have "child_at ?r (paLeafID (rlAddress l)) = None"
  proof (rule ccontr)
    assume "child_at ?r (paLeafID (rlAddress l)) \<noteq> None"
    then obtain k where k: "k \<in> set (ppParentLinks (hpPlan rp))" "plParent k = t" using ch by blast
    then have "link_ok (proof_plans rp) k" using wf by (auto simp: well_formed_proof_def)
    then show False using seg k(2) by (auto simp: link_ok_def validParentLink_def LayerSegment_def LayerShard_def LayerRegion_def LayerGlobal_def split: if_splits)
  qed
  moreover have "npIndex ?q = paLeafID (rlAddress l)" by simp
  ultimately have "\<not> (\<exists>child. child_at ?r (npIndex ?q) = Some child \<and> treeMismatch child ta tr)"
    by (metis option.distinct(1))
  then have "blamed t ?r ta tr ?q" using leaf l(4) by (simp add: blamed_def differ_def)
  moreover have "?q \<in> set (frontier_of t (int (theight n)) ta tr)"
  proof -
    have "int n \<le> 2 ^ theight n" using theight_bound [of n] by (metis of_nat_le_iff of_nat_numeral of_nat_power)
    then have "paLeafID (rlAddress l) div 2 ^ theight n = 0" using leaf(1,2) div_pos_pos_trivial order_less_le_trans by blast
    then show ?thesis unfolding set_frontier_of
      using frontier_reaches [OF f n leaf(1,2) _ _ order_refl, of "[]"] leaf(3,4) by simp
  qed
  moreover have "suspect_of t ta tr (addressByNode addresses) ?q = leaf_suspect l m"
  proof -
    have ref: "mk_ref t ?q = target_ref (rlAddress l)" by (simp add: t(1) target_ref_def)
    have "addressByNode addresses (target_ref (rlAddress l)) = Some (rlAddress l)"
      using target_map_ref [OF l(5)] by (simp add: addressByNode_def target_map_def target_ref_def segmentTree_def)
    then show ?thesis using leaf(3,4) by (simp add: suspect_of_def nodeSuspect_def leaf_suspect_def ref gm_get_def)
  qed
  ultimately show ?thesis using t(2,3) h by (force simp: tree_suspects_def Let_def)
qed

lemma analyze_trees:
  assumes "\<And>t. t \<in> set ts \<Longrightarrow> \<forall>rounds suspects. \<exists>rounds'. f (rounds, suspects) t = Inr (rounds', suspects @ extra t)"
  shows "\<exists>rounds'. rfold f (rounds, suspects) ts = Inr (rounds' :: 'a list, suspects @ concat (map extra ts))"
  using assms
proof (induction ts arbitrary: rounds suspects)
  case (Cons t ts)
  then obtain r where "f (rounds, suspects) t = Inr (r, suspects @ extra t)" by fastforce
  then show ?case using Cons.IH [of r "suspects @ extra t"] Cons.prems by auto
qed auto

text \<open>Along a parent link the layer goes up.\<close>

lemma link_layer: "link_ok plans k \<Longrightarrow> trLayer (plChild k) < trLayer (plParent k)"
proof -
  assume "link_ok plans k"
  then have "validParentLink (plChild k) (plParent k)" by (simp add: link_ok_def)
  then have "trLayer (plParent k) = trLayer (plChild k) + 1 \<and> trLayer (plChild k) \<in> {LayerSegment, LayerShard, LayerRegion}"
    by (auto simp: validParentLink_def split: if_splits)
  then show ?thesis by (auto simp: LayerSegment_def LayerShard_def LayerRegion_def)
qed

lemma analyze_runs:
  assumes a: "traced H addresses ap ash ta" "proofShapes ap = Inr ash" and r: "traced H addresses rp rsh tr" "proofShapes rp = Inr rsh"
  shows "\<exists>rounds suspects. analyze (Suc n) addresses ap rp ta tr DefaultJumpLevels = Inr (badShards_of (unionTrees ash rsh) ta tr, rounds, suspects) \<and>
    set suspects = (\<Union>t \<in> set (unionTrees ash rsh). set (tree_suspects ash rsh ta tr addresses t))"
proof -
  let ?f = "analyze_tree (Suc n) ash rsh ta tr (addressByNode addresses) DefaultJumpLevels"
  obtain rounds where "rfold ?f ([], []) (unionTrees ash rsh) = Inr (rounds, concat (map (tree_suspects ash rsh ta tr addresses) (unionTrees ash rsh)))"
    using analyze_trees [of "unionTrees ash rsh" ?f "tree_suspects ash rsh ta tr addresses" "[]" "[]"] analyze_tree_runs [OF a(1) r(1)] by auto
  then show ?thesis using a(2) r(2) by (simp add: analyze_def Let_def)
qed

lemma traced_shapes:
  assumes "TraceHMFProof H p addresses = Inr trace" and "\<forall>q \<in> set (ppTrees (hpPlan p)). tpLeafCount q < MaxInt64"
  obtains shapes where "traced H addresses p shapes trace" "proofShapes p = Inr shapes"
proof -
  have "well_formed_proof p addresses" using assms(1) evaluate_trace unfolding TraceHMFProof_def by metis
  from proofShapes_ok [OF this] assms show thesis using that unfolding traced_def by blast
qed

lemma traced_global:
  assumes "traced H addresses p shapes trace"
  shows "map_of (ptCommittedRoots trace) globalTree = Some (ptGlobalRoot trace)" and "globalTree \<in> set (gm_keys shapes)"
proof -
  obtain roots root where wf: "well_formed_proof p addresses" and g: "globalTree \<in> tpTree ` set (ppTrees (hpPlan p))"
    "ptGlobalRoot trace = committedRoot H globalTree (leaf_count_of (proof_plans p) globalTree) root" "roots globalTree = Some root"
    and d: "\<And>q. q \<in> set (ppTrees (hpPlan p)) \<Longrightarrow> tree_done H (proof_plans p) (nodes_of (hpNodes p)) (segment_leaves_of (hpLeaves p))
        (proof_children p) roots trace (tpTree q) q"
    using assms evaluate_trace unfolding traced_def TraceHMFProof_def by metis
  obtain q where q: "q \<in> set (ppTrees (hpPlan p))" "tpTree q = globalTree" using g(1) by auto
  then show "map_of (ptCommittedRoots trace) globalTree = Some (ptGlobalRoot trace)"
    using d [OF q(1)] accepted_leaf_count [OF wf q(1)] g(2,3) by (auto simp: tree_done_def)
  show "globalTree \<in> set (gm_keys shapes)" using assms g(1) by (simp add: traced_def shapes_ok_def)
qed

lemma suspects_nonempty:
  assumes a: "traced H addresses ap ash ta" and r: "traced H addresses rp rsh tr" and roots: "ptGlobalRoot ta \<noteq> ptGlobalRoot tr"
  shows "(\<Union>t \<in> set (unionTrees ash rsh). set (tree_suspects ash rsh ta tr addresses t)) \<noteq> {}"
proof -
  define bad where "bad = {t \<in> set (unionTrees ash rsh). treeMismatch t ta tr}"
  have global: "globalTree \<in> bad"
    using traced_global [OF a] traced_global [OF r] roots by (simp add: bad_def committed_mismatch set_unionTrees)
  obtain t where t: "t \<in> bad" "\<And>t'. trLayer t' < trLayer t \<Longrightarrow> t' \<notin> bad"
    using wf_induct [of "measure (\<lambda>t. unat (trLayer t))" "\<lambda>t. t \<notin> bad" globalTree] global by (auto simp: word_less_nat_alt)
  have wf: "well_formed_proof rp addresses" using r evaluate_trace unfolding traced_def TraceHMFProof_def by metis
  have "\<not> treeMismatch (plChild k) ta tr" if k: "k \<in> set (ppParentLinks (hpPlan rp))" "plParent k = t" for k
  proof -
    have ok: "link_ok (proof_plans rp) k" using wf k(1) by (auto simp: well_formed_proof_def)
    then have "map_of (proof_plans rp) (plChild k) \<noteq> None" by (simp add: link_ok_def)
    then have "plChild k \<in> set (unionTrees ash rsh)" unfolding map_of_None_keys using r by (simp add: set_unionTrees traced_def shapes_ok_def)
    moreover have "plChild k \<notin> bad" using t(2) link_layer [OF ok] k(2) by blast
    ultimately show ?thesis by (simp add: bad_def)
  qed
  then have "tree_suspects ash rsh ta tr addresses t \<noteq> []" using tree_suspects_nonempty [OF a r] t(1) by (simp add: bad_def)
  then show ?thesis using t(1) by (auto simp: bad_def)
qed

text \<open>A segment that both plans have, with the same number of leaves.\<close>

definition both_plan :: "HMFProof \<Rightarrow> HMFProof \<Rightarrow> TreeRef \<Rightarrow> bool" where
  "both_plan ap rp t \<longleftrightarrow> (\<exists>pa \<in> set (ppTrees (hpPlan ap)). \<exists>pr \<in> set (ppTrees (hpPlan rp)).
     tpTree pa = t \<and> tpTree pr = t \<and> tpLeafCount pa = tpLeafCount pr)"

lemma both_plan_topology:
  assumes a: "traced H addresses ap ash ta" and r: "traced H addresses rp rsh tr" and "both_plan ap rp t"
  shows "\<not> topology_differs ash rsh ta tr t" and "t \<in> set (unionTrees ash rsh)"
proof -
  obtain pa pr where p: "pa \<in> set (ppTrees (hpPlan ap))" "pr \<in> set (ppTrees (hpPlan rp))" "tpTree pa = t" "tpTree pr = t" "tpLeafCount pa = tpLeafCount pr"
    using assms(3) unfolding both_plan_def by blast
  obtain ca where ca: "map_of ash t = Some \<lparr>shLeafCount = tpLeafCount pa, shChildren = Some ca\<rparr>"
    using a p(1,3) unfolding traced_def shapes_ok_def by blast
  obtain cr where cr: "map_of rsh t = Some \<lparr>shLeafCount = tpLeafCount pr, shChildren = Some cr\<rparr>"
    using r p(2,4) unfolding traced_def shapes_ok_def by blast
  have "map_of (ptCommittedRoots ta) t \<noteq> None" using traced_plan [OF a, of t] ca by (metis option.distinct(1))
  moreover have "map_of (ptCommittedRoots tr) t \<noteq> None" using traced_plan [OF r, of t] cr by (metis option.distinct(1))
  ultimately show "\<not> topology_differs ash rsh ta tr t" using ca cr p(5) by (simp add: topology_differs_def gm_get_def)
  show "t \<in> set (unionTrees ash rsh)" using a p(1,3) by (auto simp: set_unionTrees traced_def shapes_ok_def)
qed

lemma analyze_ok:
  assumes a: "TraceHMFProof H ap addresses = Inr ta" and r: "TraceHMFProof H rp addresses = Inr tr"
    and small: "\<forall>p \<in> set (ppTrees (hpPlan ap)) \<union> set (ppTrees (hpPlan rp)). tpLeafCount p < MaxInt64"
  shows "\<exists>badShards rounds suspects. analyze (Suc n) addresses ap rp ta tr DefaultJumpLevels = Inr (badShards, rounds, suspects) \<and>
    (\<forall>s \<in> set suspects. genuine addresses ta tr s) \<and> (ptGlobalRoot ta \<noteq> ptGlobalRoot tr \<longrightarrow> suspects \<noteq> []) \<and>
    (\<forall>l \<in> set (hpLeaves ap). \<forall>m \<in> set (hpLeaves rp). rlAddress m = rlAddress l \<and> rlHash l \<noteq> rlHash m \<and> rlAddress l \<in> set addresses \<and>
      both_plan ap rp (segmentTree (segment_key (rlAddress l))) \<and> treeMismatch (segmentTree (segment_key (rlAddress l))) ta tr \<longrightarrow>
      leaf_suspect l m \<in> set suspects)"
proof -
  obtain ash where ash: "traced H addresses ap ash ta" "proofShapes ap = Inr ash" using traced_shapes [OF a] small by blast
  obtain rsh where rsh: "traced H addresses rp rsh tr" "proofShapes rp = Inr rsh" using traced_shapes [OF r] small by blast
  obtain rounds suspects where run: "analyze (Suc n) addresses ap rp ta tr DefaultJumpLevels = Inr (badShards_of (unionTrees ash rsh) ta tr, rounds, suspects)"
    and s: "set suspects = (\<Union>t \<in> set (unionTrees ash rsh). set (tree_suspects ash rsh ta tr addresses t))"
    using analyze_runs [OF ash rsh] by blast
  have "\<forall>s \<in> set suspects. genuine addresses ta tr s" unfolding s using tree_suspects_genuine by blast
  moreover have "ptGlobalRoot ta \<noteq> ptGlobalRoot tr \<longrightarrow> suspects \<noteq> []" using suspects_nonempty [OF ash(1) rsh(1)] s by auto
  moreover have "leaf_suspect l m \<in> set suspects"
    if "l \<in> set (hpLeaves ap)" "m \<in> set (hpLeaves rp)" "rlAddress m = rlAddress l" "rlHash l \<noteq> rlHash m" "rlAddress l \<in> set addresses"
      "both_plan ap rp (segmentTree (segment_key (rlAddress l)))" "treeMismatch (segmentTree (segment_key (rlAddress l))) ta tr" for l m
    using tree_suspects_leaf [OF ash(1) rsh(1) refl that(7) both_plan_topology(1) [OF ash(1) rsh(1) that(6)] that(1-5)]
      both_plan_topology(2) [OF ash(1) rsh(1) that(6)] unfolding s by blast
  ultimately show ?thesis using run by blast
qed

section \<open>The service\<close>

text \<open>What the localization relies on of a reference builder: a result is a proof that traces to the
  trusted root, and a trace that comes with it is the trace of the proof.\<close>

definition authenticated :: "hash_fn \<Rightarrow> PhysicalAddress list \<Rightarrow> hash \<Rightarrow> VerificationResult \<Rightarrow> bool" where
  "authenticated H addresses root res \<longleftrightarrow> vrCalculatedGlobalRoot res = root \<and>
     (\<exists>trace. TraceHMFProof H (vrProof res) addresses = Inr trace \<and> ptGlobalRoot trace = root \<and> (vrTrace res = None \<or> vrTrace res = Some trace))"

locale reference_source =
  fixes H :: hash_fn and builder :: ReferenceBuilder
  assumes build: "refBuildAndVerify builder addresses root = Inr res \<Longrightarrow> authenticated H addresses root res"
    and rebuild: "refReferenceFromProof builder = Some f \<Longrightarrow> f failed addresses root = Inr res \<Longrightarrow> authenticated H addresses root res"
begin

lemma reference_authenticated: "authenticatedReference builder failed addresses root = Inr res \<Longrightarrow> authenticated H addresses root res"
  using build rebuild by (auto simp: authenticatedReference_def split: option.splits sum.splits)

lemma localize_accepted:
  assumes "Localize H n builder request = Inr result"
  shows "VerifyProof H n (lrProof result) (reqAddresses request) (reqAnchoredGlobalRoot request) = Inr ()"
proof -
  obtain addresses ta reference tr bad rounds suspects where
    l: "normalize_request (reqAddresses request) = Inr addresses" "TraceHMFProof H (reqFailedProof request) addresses = Inr ta"
      "ptGlobalRoot ta = reqAuditorGlobalRoot request" "reqAuditorGlobalRoot request \<noteq> reqAnchoredGlobalRoot request"
      "authenticatedReference builder (reqFailedProof request) addresses (reqAnchoredGlobalRoot request) = Inr reference"
      "(case vrTrace reference of Some trace \<Rightarrow> Inr trace
        | None \<Rightarrow> rwrap ''localize tamper: trace authenticated reference proof: %w'' (TraceHMFProof H (vrProof reference) addresses)) = Inr tr"
      "ptGlobalRoot tr = reqAnchoredGlobalRoot request"
      "analyze n addresses (reqFailedProof request) (vrProof reference) ta tr DefaultJumpLevels = Inr (bad, rounds, suspects)"
    and res: "lrProof result = \<lparr>lpfAnchoredGlobalRoot = reqAnchoredGlobalRoot request, lpfAuditorGlobalRoot = reqAuditorGlobalRoot request,
           lpfReferenceGlobalRoot = ptGlobalRoot tr, lpfK = DefaultJumpLevels, lpfAddresses = addresses,
           lpfFailedProof = reqFailedProof request, lpfReferenceProof = vrProof reference, lpfBadShards = bad,
           lpfRounds = rounds, lpfSuspects = suspects\<rparr>"
    using assms by (auto simp: Localize_def Let_def split: if_splits)
  have "TraceHMFProof H (vrProof reference) addresses = Inr tr"
    using l(6) reference_authenticated [OF l(5)] by (auto simp: authenticated_def)
  then show ?thesis using l by (simp add: VerifyProof_def res as_invalid_def)
qed

lemma localize_returns:
  assumes "normalize_request (reqAddresses request) = Inr addresses" and "reqK request = 0 \<or> reqK request = DefaultJumpLevels"
    and "TraceHMFProof H (reqFailedProof request) addresses = Inr ta" and "ptGlobalRoot ta = reqAuditorGlobalRoot request"
    and "reqAuditorGlobalRoot request \<noteq> reqAnchoredGlobalRoot request"
    and "authenticatedReference builder (reqFailedProof request) addresses (reqAnchoredGlobalRoot request) = Inr reference"
    and "\<forall>p \<in> set (ppTrees (hpPlan (reqFailedProof request))) \<union> set (ppTrees (hpPlan (vrProof reference))). tpLeafCount p < MaxInt64"
  shows "\<exists>result. Localize H (Suc n) builder request = Inr result"
proof -
  obtain tr where tr: "TraceHMFProof H (vrProof reference) addresses = Inr tr" "ptGlobalRoot tr = reqAnchoredGlobalRoot request"
    "vrTrace reference = None \<or> vrTrace reference = Some tr" "vrCalculatedGlobalRoot reference = reqAnchoredGlobalRoot request"
    using reference_authenticated [OF assms(6)] by (auto simp: authenticated_def)
  obtain bad rounds suspects where an: "analyze (Suc n) addresses (reqFailedProof request) (vrProof reference) ta tr DefaultJumpLevels = Inr (bad, rounds, suspects)"
    using analyze_ok [OF assms(3) tr(1) assms(7)] by blast
  have trace: "(case vrTrace reference of Some trace \<Rightarrow> Inr trace
      | None \<Rightarrow> rwrap ''localize tamper: trace authenticated reference proof: %w'' (TraceHMFProof H (vrProof reference) addresses)) = Inr tr"
    using tr(1,3) by auto
  have k: "\<not> (reqK request \<noteq> 0 \<and> reqK request \<noteq> DefaultJumpLevels)" using assms(2) by blast
  show ?thesis unfolding Localize_def assms(1,3,6) Let_def rwrap.simps rbind.simps trace an prod.case
    using assms(4,5) k tr(2,4) by simp
qed

end

definition hpp_builder :: "hash_fn \<Rightarrow> ProofService \<Rightarrow> ReferenceBuilder" where
  "hpp_builder H service = \<lparr>refBuildAndVerify = BuildAndVerify H service, refReferenceFromProof = Some (ReferenceFromProof H service)\<rparr>"

interpretation hpp_reference: reference_source H "hpp_builder H service" for H service
proof
  fix addresses root res f failed
  show "authenticated H addresses root res" if "refBuildAndVerify (hpp_builder H service) addresses root = Inr res"
  proof -
    have r: "VerifyHMFProof H (vrProof res) addresses = Inr root" "vrCalculatedGlobalRoot res = root" "vrTrace res = None"
      using that by (auto simp: hpp_builder_def BuildAndVerify_def BuildAndCalculate_def matchTrustedRoot_def split: if_splits)
    then obtain trace where "TraceHMFProof H (vrProof res) addresses = Inr trace" "ptGlobalRoot trace = root"
      unfolding VerifyHMFProof_trace by auto
    with r show ?thesis by (auto simp: authenticated_def)
  qed
  show "authenticated H addresses root res" if "refReferenceFromProof (hpp_builder H service) = Some f" "f failed addresses root = Inr res"
    using that by (auto simp: hpp_builder_def ReferenceFromProof_def matchTrustedRoot_def authenticated_def Let_def split: if_splits)
qed

section \<open>A small failed audit\<close>

text \<open>A hash function that keeps the last byte, and the small proof with leaf \<open>x\<close>: every root is \<open>x\<close>.\<close>

definition last_hash :: hash_fn where
  "last_hash bs = ucast (last bs)"

definition leaf_proof :: "hash \<Rightarrow> HMFProof" where
  "leaf_proof x = tiny_proof\<lparr>hpLeaves := [\<lparr>rlAddress = tiny_address, rlHash = x\<rparr>]\<rparr>"

definition leaf_trace :: "hash \<Rightarrow> ProofTrace" where
  "leaf_trace x = \<lparr>ptGlobalRoot = x, ptRawRoots = map (\<lambda>t. (t, x)) [tiny_segment, tiny_shard, tiny_region, globalTree],
     ptCommittedRoots = map (\<lambda>t. (t, x)) [tiny_segment, tiny_shard, tiny_region, globalTree],
     ptNodes = map (\<lambda>t. (mk_ref t (mk_pos 0 0), x)) [tiny_segment, tiny_shard, tiny_region, globalTree]\<rparr>"

lemma last_hash_commit: "unat x < 256 \<Longrightarrow> last_hash (commit_input k r s g n x) = x"
proof -
  assume "unat x < 256"
  have "last (be_bytes 32 (unat x)) = word_of_nat (unat x)"
    using be_bytes.simps(2) [of 31 "unat x"] by simp
  moreover have "be_bytes 32 (unat x) \<noteq> []" using length_be_bytes [of 32 "unat x"] by fastforce
  ultimately have "last (hash_bytes x) = word_of_nat (unat x)" "hash_bytes x \<noteq> []" by (simp_all add: hash_bytes_def)
  moreover have "ucast (ucast x :: byte) = x"
    using \<open>unat x < 256\<close> by (intro iffD2 [OF word_unat_eq_iff]) (simp add: unsigned_ucast_eq unsigned_take_bit_eq take_bit_nat_eq_self)
  ultimately show ?thesis by (simp add: last_hash_def commit_input_def last_append)
qed

lemma leaf_proof_trace:
  assumes "unat x < 256"
  shows "TraceHMFProof last_hash (leaf_proof x) [tiny_address] = Inr (leaf_trace x)"
  using last_hash_commit [OF assms]
  by (simp add: TraceHMFProof_def leaf_proof_def tiny_proof_def tiny_address_def evaluate_run tree_names leaf_trace_def Let_def
      CommitSegmentRoot_def CommitShardRoot_def CommitRegionRoot_def CommitGlobalRoot_def commitTreeRoot_def)

lemma leaf_proof_fields: "hpPlan (leaf_proof x) = hpPlan tiny_proof" "hpNodes (leaf_proof x) = []"
    "hpLeaves (leaf_proof x) = [\<lparr>rlAddress = tiny_address, rlHash = x\<rparr>]"
  by (simp_all add: leaf_proof_def tiny_proof_def)

text \<open>The reference store holds leaf 5, the failed audit computed leaf 9.\<close>

definition tiny_request :: Request where
  "tiny_request = \<lparr>reqAddresses = [tiny_address], reqAuditorGlobalRoot = 9, reqFailedProof = leaf_proof 9,
     reqAnchoredGlobalRoot = 5, reqK = 0\<rparr>"

lemma normalize_tiny: "normalize_request [tiny_address] = Inr [tiny_address]"
  by (simp add: normalize_request_def tiny_address_def set_add_def sort_Slice_def)

lemma tiny_reference:
  "authenticatedReference (hpp_builder last_hash tiny_service) (leaf_proof 9) [tiny_address] 5 =
     Inr \<lparr>vrCalculatedGlobalRoot = 5, vrProof = leaf_proof 5, vrTrace = Some (leaf_trace 5)\<rparr>"
proof -
  have addresses: "ppAddresses (hpPlan tiny_proof) = [tiny_address]" by (simp add: tiny_proof_def)
  have nodes: "svcNodes tiny_service plan = Inr [\<lparr>pnRef = mk_ref tiny_segment (mk_pos 0 0), pnHash = 5\<rparr>]" for plan
    by (simp add: tiny_service_def)
  have split: "splitTargetLeaves [tiny_address] [\<lparr>pnRef = mk_ref tiny_segment (mk_pos 0 0), pnHash = 5\<rparr>] =
      Inr ([\<lparr>rlAddress = tiny_address, rlHash = 5\<rparr>], [])"
    by (simp add: splitTargetLeaves_def Let_def tiny_targets)
  have same: "\<lparr>hpPlan = hpPlan tiny_proof, hpLeaves = [\<lparr>rlAddress = tiny_address, rlHash = 5\<rparr>], hpNodes = []\<rparr> = leaf_proof 5"
    by (simp add: leaf_proof_def tiny_proof_def)
  have trace: "TraceHMFProof last_hash (leaf_proof 5) [tiny_address] = Inr (leaf_trace 5)" by (rule leaf_proof_trace) simp
  have root: "ptGlobalRoot (leaf_trace 5) = 5" by (simp add: leaf_trace_def)
  have "ReferenceFromProof last_hash tiny_service (leaf_proof 9) [tiny_address] 5 =
      Inr \<lparr>vrCalculatedGlobalRoot = 5, vrProof = leaf_proof 5, vrTrace = Some (leaf_trace 5)\<rparr>"
    by (simp add: ReferenceFromProof_def leaf_proof_fields addresses nodes split same trace root Let_def)
  then show ?thesis by (simp add: authenticatedReference_def hpp_builder_def)
qed

lemma tiny_counts: "\<forall>p \<in> set (ppTrees (hpPlan (leaf_proof x))). tpLeafCount p < MaxInt64"
  by (simp add: leaf_proof_fields tiny_proof_def)

lemma tiny_localize: "\<exists>result. Localize last_hash (Suc n) (hpp_builder last_hash tiny_service) tiny_request = Inr result"
  by (rule hpp_reference.localize_returns [of _ "[tiny_address]" _ "leaf_trace 9" _ "\<lparr>vrCalculatedGlobalRoot = 5, vrProof = leaf_proof 5, vrTrace = Some (leaf_trace 5)\<rparr>"])
    (use normalize_tiny leaf_proof_trace [of 9] tiny_reference tiny_counts in \<open>auto simp: tiny_request_def leaf_trace_def\<close>)

section \<open>Accepted localization proofs\<close>

lemma as_invalid_Inr [simp]: "as_invalid m r = Inr x \<longleftrightarrow> r = Inr x"
  by (auto simp: as_invalid_def split: sum.splits error.splits)

lemma accepted_analysis:
  assumes "VerifyProof H n p expected root = Inr ()"
  obtains addresses auditor reference where "normalize_request expected = Inr addresses" "lpfAddresses p = addresses"
    "TraceHMFProof H (lpfFailedProof p) addresses = Inr auditor" "TraceHMFProof H (lpfReferenceProof p) addresses = Inr reference"
    "ptGlobalRoot reference = root" "ptGlobalRoot auditor \<noteq> root"
    "analyze n addresses (lpfFailedProof p) (lpfReferenceProof p) auditor reference DefaultJumpLevels = Inr (lpfBadShards p, lpfRounds p, lpfSuspects p)"
proof -
  show thesis using assms that by (auto simp: VerifyProof_def split: if_splits)
qed

text \<open>C13: What an accepted localization proof establishes. If the auditor's verifier accepts it, the
  reference proof traces to the trusted root and the failed proof to another root, there is at least
  one suspect, and every suspect is a real difference of the two traces: a node recorded with different
  hashes (the ones reported), or a tree whose committed roots differ; a suspect leaf is the leaf of a
  requested address. No plan may claim 2^63 - 1 leaves, where the height computation wraps around.\<close>

theorem accepted_localization_is_genuine:
  assumes "VerifyProof H (Suc n) p expected root = Inr ()"
    and "\<forall>q \<in> set (ppTrees (hpPlan (lpfFailedProof p))) \<union> set (ppTrees (hpPlan (lpfReferenceProof p))). tpLeafCount q < MaxInt64"
  shows "\<exists>addresses auditor reference. normalize_request expected = Inr addresses \<and>
    TraceHMFProof H (lpfFailedProof p) addresses = Inr auditor \<and> TraceHMFProof H (lpfReferenceProof p) addresses = Inr reference \<and>
    ptGlobalRoot reference = root \<and> ptGlobalRoot auditor \<noteq> root \<and> lpfSuspects p \<noteq> [] \<and>
    (\<forall>s \<in> set (lpfSuspects p). genuine addresses auditor reference s)"
proof -
  obtain addresses auditor reference where a: "normalize_request expected = Inr addresses"
    "TraceHMFProof H (lpfFailedProof p) addresses = Inr auditor" "TraceHMFProof H (lpfReferenceProof p) addresses = Inr reference"
    "ptGlobalRoot reference = root" "ptGlobalRoot auditor \<noteq> root"
    "analyze (Suc n) addresses (lpfFailedProof p) (lpfReferenceProof p) auditor reference DefaultJumpLevels = Inr (lpfBadShards p, lpfRounds p, lpfSuspects p)"
    using accepted_analysis [OF assms(1)] by metis
  then have "lpfSuspects p \<noteq> []" "\<forall>s \<in> set (lpfSuspects p). genuine addresses auditor reference s"
    using analyze_ok [OF a(2,3) assms(2), of n] by auto
  with a show ?thesis by blast
qed

text \<open>The localization proof of the small failed audit.\<close>

lemma tiny_accepted:
  obtains p where "VerifyProof last_hash (Suc 0) p [tiny_address] 5 = Inr ()" "lpfFailedProof p = leaf_proof 9"
    "lpfReferenceProof p = leaf_proof 5" "lpfAddresses p = [tiny_address]"
proof -
  obtain result where r: "Localize last_hash (Suc 0) (hpp_builder last_hash tiny_service) tiny_request = Inr result"
    using tiny_localize by blast
  have v: "VerifyProof last_hash (Suc 0) (lrProof result) [tiny_address] 5 = Inr ()"
    using hpp_reference.localize_accepted [OF r] by (simp add: tiny_request_def)
  have "lpfFailedProof (lrProof result) = leaf_proof 9 \<and> lpfReferenceProof (lrProof result) = leaf_proof 5"
    using r tiny_reference normalize_tiny by (auto simp: Localize_def tiny_request_def Let_def split: if_splits)
  then show thesis using that [OF v] accepted_analysis [OF v] normalize_tiny by (metis sum.inject(2))
qed

theorem accepted_localization_is_genuine_witness:
  "\<exists>p auditor reference. VerifyProof last_hash (Suc 0) p [tiny_address] 5 = Inr () \<and>
    TraceHMFProof last_hash (lpfFailedProof p) [tiny_address] = Inr auditor \<and> ptGlobalRoot auditor \<noteq> 5 \<and>
    TraceHMFProof last_hash (lpfReferenceProof p) [tiny_address] = Inr reference \<and> lpfSuspects p \<noteq> [] \<and>
    (\<forall>s \<in> set (lpfSuspects p). genuine [tiny_address] auditor reference s)"
proof -
  obtain p where p: "VerifyProof last_hash (Suc 0) p [tiny_address] 5 = Inr ()" "lpfFailedProof p = leaf_proof 9"
    "lpfReferenceProof p = leaf_proof 5" using tiny_accepted by metis
  have "\<forall>q \<in> set (ppTrees (hpPlan (lpfFailedProof p))) \<union> set (ppTrees (hpPlan (lpfReferenceProof p))). tpLeafCount q < MaxInt64"
    using tiny_counts p(2,3) by auto
  from accepted_localization_is_genuine [OF p(1) this] p(1) normalize_tiny show ?thesis by (metis sum.inject(2))
qed

text \<open>C15: Every altered leaf is named. If an accepted localization proof holds two different hashes for
  a requested leaf, in a segment that both proofs plan with the same number of leaves and whose
  committed roots differ, then its suspects contain that address with both hashes.\<close>

theorem altered_leaves_are_reported:
  assumes "VerifyProof H (Suc n) p expected root = Inr ()"
    and "\<forall>q \<in> set (ppTrees (hpPlan (lpfFailedProof p))) \<union> set (ppTrees (hpPlan (lpfReferenceProof p))). tpLeafCount q < MaxInt64"
    and "TraceHMFProof H (lpfFailedProof p) (lpfAddresses p) = Inr auditor" and "TraceHMFProof H (lpfReferenceProof p) (lpfAddresses p) = Inr reference"
    and "l \<in> set (hpLeaves (lpfFailedProof p))" and "m \<in> set (hpLeaves (lpfReferenceProof p))"
    and "rlAddress m = rlAddress l" and "rlHash l \<noteq> rlHash m" and "rlAddress l \<in> set (lpfAddresses p)"
    and "both_plan (lpfFailedProof p) (lpfReferenceProof p) (segmentTree (segment_key (rlAddress l)))"
    and "treeMismatch (segmentTree (segment_key (rlAddress l))) auditor reference"
  shows "leaf_suspect l m \<in> set (lpfSuspects p)"
proof -
  have "analyze (Suc n) (lpfAddresses p) (lpfFailedProof p) (lpfReferenceProof p) auditor reference DefaultJumpLevels = Inr (lpfBadShards p, lpfRounds p, lpfSuspects p)"
    by (rule accepted_analysis [OF assms(1)]) (use assms(3,4) in auto)
  then show ?thesis using analyze_ok [OF assms(3,4,2), of n] assms(5-11) by auto
qed

theorem altered_leaves_are_reported_witness:
  "\<exists>p. VerifyProof last_hash (Suc 0) p [tiny_address] 5 = Inr () \<and>
    leaf_suspect \<lparr>rlAddress = tiny_address, rlHash = 9\<rparr> \<lparr>rlAddress = tiny_address, rlHash = 5\<rparr> \<in> set (lpfSuspects p)"
proof -
  obtain p where p: "VerifyProof last_hash (Suc 0) p [tiny_address] 5 = Inr ()" "lpfFailedProof p = leaf_proof 9"
    "lpfReferenceProof p = leaf_proof 5" "lpfAddresses p = [tiny_address]" using tiny_accepted by metis
  have counts: "\<forall>q \<in> set (ppTrees (hpPlan (lpfFailedProof p))) \<union> set (ppTrees (hpPlan (lpfReferenceProof p))). tpLeafCount q < MaxInt64"
    using tiny_counts p(2,3) by auto
  have segment: "segmentTree (segment_key tiny_address) = tiny_segment" by (simp add: segmentTree_def tiny_segment_def tiny_address_def)
  have both: "both_plan (leaf_proof 9) (leaf_proof 5) tiny_segment" by (simp add: both_plan_def leaf_proof_fields tiny_proof_def)
  have mismatch: "treeMismatch tiny_segment (leaf_trace 9) (leaf_trace 5)" by (simp add: treeMismatch_def leaf_trace_def)
  have "leaf_suspect \<lparr>rlAddress = tiny_address, rlHash = 9\<rparr> \<lparr>rlAddress = tiny_address, rlHash = 5\<rparr> \<in> set (lpfSuspects p)"
    by (rule altered_leaves_are_reported [OF p(1) counts, of "leaf_trace 9" "leaf_trace 5"])
      (use leaf_proof_trace [of 9] leaf_proof_trace [of 5] both mismatch in \<open>simp_all add: p leaf_proof_fields segment\<close>)
  with p(1) show ?thesis by blast
qed

text \<open>C22: The service and the verifier agree. Whatever the service returns for a failed audit, with the
  proof service of package \<^verbatim>\<open>hpp\<close> as its reference builder, the verifier accepts for the requested
  addresses and the anchored root.\<close>

theorem localization_result_is_accepted:
  assumes "Localize H n (hpp_builder H service) request = Inr result"
  shows "VerifyProof H n (lrProof result) (reqAddresses request) (reqAnchoredGlobalRoot request) = Inr ()"
  using assms by (rule hpp_reference.localize_accepted)

theorem localization_result_is_accepted_witness:
  "\<exists>result. Localize last_hash 1 (hpp_builder last_hash tiny_service) tiny_request = Inr result \<and>
    VerifyProof last_hash 1 (lrProof result) [tiny_address] 5 = Inr ()"
proof -
  obtain result where r: "Localize last_hash 1 (hpp_builder last_hash tiny_service) tiny_request = Inr result"
    using tiny_localize [of 0] by auto
  from localization_result_is_accepted [OF r] r show ?thesis by (auto simp: tiny_request_def)
qed

text \<open>C24: The service answers every failed audit. If the failed proof traces to the reported root, the
  reported root is not the anchored one, and the reference builder authenticates a reference, the
  service returns a result; one round of pruning per tree is enough.\<close>

theorem localization_returns:
  assumes "normalize_request (reqAddresses request) = Inr addresses" and "reqK request = 0 \<or> reqK request = DefaultJumpLevels"
    and "TraceHMFProof H (reqFailedProof request) addresses = Inr auditor" and "ptGlobalRoot auditor = reqAuditorGlobalRoot request"
    and "reqAuditorGlobalRoot request \<noteq> reqAnchoredGlobalRoot request"
    and "authenticatedReference (hpp_builder H service) (reqFailedProof request) addresses (reqAnchoredGlobalRoot request) = Inr reference"
    and "\<forall>p \<in> set (ppTrees (hpPlan (reqFailedProof request))) \<union> set (ppTrees (hpPlan (vrProof reference))). tpLeafCount p < MaxInt64"
  shows "\<exists>result. Localize H 1 (hpp_builder H service) request = Inr result"
  using hpp_reference.localize_returns [OF assms, of 0] by simp

theorem localization_returns_witness: "\<exists>result. Localize last_hash 1 (hpp_builder last_hash tiny_service) tiny_request = Inr result"
  by (rule localization_returns [of _ "[tiny_address]" _ "leaf_trace 9" _ "\<lparr>vrCalculatedGlobalRoot = 5, vrProof = leaf_proof 5, vrTrace = Some (leaf_trace 5)\<rparr>"])
    (use normalize_tiny leaf_proof_trace [of 9] tiny_reference tiny_counts in \<open>auto simp: tiny_request_def leaf_trace_def\<close>)

end
