(* ===== verification/Audit_Service.thy ===== *)
theory Audit_Service
  imports Checkpoint Locator_Store Localization
begin

text \<open>
  \<^verbatim>\<open>internal/services/audit.go\<close>: the audit service over a checkpoint reader, a locator resolver, a proof
  service and an optional localization service. The four are interfaces of the package: operations on
  a state \<open>'s\<close>, the databases, which every call may change (so that what other clients write between
  two calls is part of the operations).
\<close>

definition ErrCheckpointChanged :: error where
  "ErrCheckpointChanged = Sentinel ''audit checkpoint changed''"

type_synonym 's CheckpointReader = "'s \<Rightarrow> ('s, Checkpoint) outcome"
type_synonym 's LocatorResolver = "'s \<Rightarrow> string \<Rightarrow> hash \<Rightarrow> LocatorQuery \<Rightarrow> ('s, LocatorRangeResult) outcome"
type_synonym 's HMFProofService = "'s \<Rightarrow> PhysicalAddress list \<Rightarrow> hash \<Rightarrow> ('s, VerificationResult) outcome"
type_synonym 's LocalizationService = "'s \<Rightarrow> Request \<Rightarrow> ('s, LocalizationResult) outcome"

record 's AuditService =
  auCheckpoints :: "'s CheckpointReader"
  auLocator :: "'s LocatorResolver"
  auHMFProof :: "'s HMFProofService"
  auLocalizer :: "'s LocalizationService option"

record LocatorAuditResult =
  laCheckpoint :: Checkpoint
  laRange :: LocatorRangeResult

record HMFAuditResult =
  haCheckpoint :: Checkpoint
  haHMF :: VerificationResult

record LocalizationAuditResult =
  zaCheckpoint :: Checkpoint
  zaLocalization :: LocalizationResult

text \<open>A nil interface value is \<open>None\<close>; the localizers are the variadic arguments.\<close>

definition NewAuditService ::
  "'s CheckpointReader option \<Rightarrow> 's LocatorResolver option \<Rightarrow> 's HMFProofService option \<Rightarrow>
     's LocalizationService option list \<Rightarrow> 's AuditService result" where
  "NewAuditService checkpoints locatorResolver hmfProof localizers =
     (case checkpoints of None \<Rightarrow> Inl (Errorf ''new audit service: checkpoint reader is nil'')
      | Some cps \<Rightarrow>
     (case locatorResolver of None \<Rightarrow> Inl (Errorf ''new audit service: locator resolver is nil'')
      | Some loc \<Rightarrow>
     (case hmfProof of None \<Rightarrow> Inl (Errorf ''new audit service: HMF proof service is nil'')
      | Some hmf \<Rightarrow>
     if length localizers > 1 then Inl (Errorf ''new audit service: at most one localization service is allowed'')
     else rbind (case localizers of [] \<Rightarrow> Inr None
         | l # _ \<Rightarrow> (case l of None \<Rightarrow> Inl (Errorf ''new audit service: localization service is nil'') | Some _ \<Rightarrow> Inr l)) (\<lambda>localizer.
       Inr \<lparr>auCheckpoints = cps, auLocator = loc, auHMFProof = hmf, auLocalizer = localizer\<rparr>))))"

definition ensureStillCurrent :: "'s AuditService \<Rightarrow> 's \<Rightarrow> Checkpoint \<Rightarrow> ('s, unit) outcome" where
  "ensureStillCurrent service s started =
     sbind (swrap ''confirm audit checkpoint: %w'' (auCheckpoints service s)) (\<lambda>s current.
     if cpSequence current \<noteq> cpSequence started \<or> cpStateCommitment current \<noteq> cpStateCommitment started
     then (s, Inl (Wrap ''%w: started at sequence %d, current sequence %d'' ErrCheckpointChanged))
     else (s, Inr ()))"

definition LocalizeTamper ::
  "'s AuditService \<Rightarrow> 's \<Rightarrow> int \<Rightarrow> hash \<Rightarrow> HMFProof \<Rightarrow> PhysicalAddress list \<Rightarrow> int \<Rightarrow> ('s, LocalizationAuditResult) outcome" where
  "LocalizeTamper service s checkpointSequence auditorRoot failedProof addresses k =
     (case auLocalizer service of None \<Rightarrow> (s, Inl (Errorf ''localize audit tamper: localization is unavailable''))
      | Some localizer \<Rightarrow>
     if checkpointSequence \<le> 0 then (s, Inl (Errorf ''localize audit tamper: checkpoint sequence must be positive''))
     else sbind (swrap ''localize audit tamper: %w'' (auCheckpoints service s)) (\<lambda>s trusted.
     if cpSequence trusted \<noteq> checkpointSequence
     then (s, Inl (Wrap ''%w: requested sequence %d, current sequence %d'' ErrCheckpointChanged))
     else sbind (swrap ''localize audit tamper: %w'' (localizer s \<lparr>reqAddresses = addresses, reqAuditorGlobalRoot = auditorRoot,
         reqFailedProof = failedProof, reqAnchoredGlobalRoot = cpGlobalHMFRoot trusted, reqK = k\<rparr>)) (\<lambda>s result.
     sbind (ensureStillCurrent service s trusted) (\<lambda>s _.
     (s, Inr \<lparr>zaCheckpoint = trusted, zaLocalization = result\<rparr>)))))"

definition CurrentCheckpoint :: "'s AuditService \<Rightarrow> 's \<Rightarrow> ('s, Checkpoint) outcome" where
  "CurrentCheckpoint service s = auCheckpoints service s"

definition ResolveLocator :: "'s AuditService \<Rightarrow> 's \<Rightarrow> LocatorQuery \<Rightarrow> ('s, LocatorAuditResult) outcome" where
  "ResolveLocator service s query =
     sbind (swrap ''resolve audit locator: %w'' (auCheckpoints service s)) (\<lambda>s trusted.
     sbind (swrap ''resolve audit locator: %w'' (auLocator service s (cpLocatorTreeID trusted) (cpLocatorRoot trusted) query)) (\<lambda>s result.
     sbind (ensureStillCurrent service s trusted) (\<lambda>s _.
     (s, Inr \<lparr>laCheckpoint = trusted, laRange = result\<rparr>))))"

definition BuildHMFProof :: "'s AuditService \<Rightarrow> 's \<Rightarrow> int \<Rightarrow> PhysicalAddress list \<Rightarrow> ('s, HMFAuditResult) outcome" where
  "BuildHMFProof service s checkpointSequence addresses =
     (if checkpointSequence \<le> 0 then (s, Inl (Errorf ''build audit HMF proof: checkpoint sequence must be positive''))
     else sbind (swrap ''build audit HMF proof: %w'' (auCheckpoints service s)) (\<lambda>s trusted.
     if cpSequence trusted \<noteq> checkpointSequence
     then (s, Inl (Wrap ''%w: requested sequence %d, current sequence %d'' ErrCheckpointChanged))
     else sbind (swrap ''build audit HMF proof: %w'' (auHMFProof service s addresses (cpGlobalHMFRoot trusted))) (\<lambda>s result.
     sbind (ensureStillCurrent service s trusted) (\<lambda>s _.
     (s, Inr \<lparr>haCheckpoint = trusted, haHMF = result\<rparr>)))))"

end
