(* ===== verification/Audit_Properties.thy ===== *)
theory Audit_Properties
  imports Audit_Service HPP_Service_Properties Locator_Store_Properties Localization_Properties
begin

text \<open>
  The audit service as \<^verbatim>\<open>cmd/audit-service\<close> wires it, over the checkpoint reader, the locator tables,
  the proof service and the localization service: every answer is bound to one finalized checkpoint
  that was current before and after it was computed.
\<close>

section \<open>Wiring\<close>

text \<open>The databases are a state of the checkpoint repository and the locator tables; what the proof
  readers return may depend on both. \<open>n\<close> bounds the walk over locator pages, \<open>k\<close> the pruning rounds.\<close>

definition audit_service ::
  "hash_fn \<Rightarrow> nat \<Rightarrow> nat \<Rightarrow> 'r Reader \<Rightarrow> ('r \<times> all_db \<Rightarrow> ProofService) \<Rightarrow> ('r \<times> all_db) AuditService result" where
  "audit_service H n k checkpointReader hppService =
     NewAuditService
       (Some (\<lambda>(r, db). case Reader_Current H checkpointReader r of (r', c) \<Rightarrow> ((r', db), c)))
       (Some (\<lambda>(r, db) treeID root query. case ResolveLocatorQuery H n db treeID root query of (db', x) \<Rightarrow> ((r, db'), x)))
       (Some (\<lambda>s addresses root. (s, BuildAndVerify H (hppService s) addresses root)))
       [Some (\<lambda>s request. (s, Localize H k (hpp_builder H (hppService s)) request))]"

section \<open>Pinned answers\<close>

text \<open>The checkpoint of an answer is good, and at the end of the call the reader still returned a
  checkpoint with its sequence number and its commitment.\<close>

definition confirmed :: "'s AuditService \<Rightarrow> (Checkpoint \<Rightarrow> bool) \<Rightarrow> Checkpoint \<Rightarrow> 's \<Rightarrow> 's \<Rightarrow> bool" where
  "confirmed service good c s s' \<longleftrightarrow> good c \<and> (\<exists>c'. auCheckpoints service s = (s', Inr c') \<and> good c' \<and> cpSequence c' = cpSequence c \<and>
     cpStateCommitment c' = cpStateCommitment c)"

text \<open>What the audit service relies on of its checkpoint reader.\<close>

locale audited =
  fixes service :: "'s AuditService" and good :: "Checkpoint \<Rightarrow> bool"
  assumes current: "auCheckpoints service s = (s', Inr c) \<Longrightarrow> good c"
begin

lemma still_current:
  "ensureStillCurrent service s c = (s', Inr ()) \<Longrightarrow> good c \<Longrightarrow> confirmed service good c s s'"
  using current by (auto simp: ensureStillCurrent_def confirmed_def sbind_eq_Inr swrap_eq_Inr split: if_splits)

lemma proof_pinned:
  assumes "BuildHMFProof service s sequence addresses = (s', Inr r)"
  shows "cpSequence (haCheckpoint r) = sequence \<and> (\<exists>s1 s2. confirmed service good (haCheckpoint r) s2 s' \<and>
    auHMFProof service s1 addresses (cpGlobalHMFRoot (haCheckpoint r)) = (s2, Inr (haHMF r)))"
  using assms current still_current by (fastforce simp: BuildHMFProof_def sbind_eq_Inr swrap_eq_Inr split: if_splits)

lemma query_pinned:
  assumes "ResolveLocator service s query = (s', Inr r)"
  shows "\<exists>s0 s1 s2. auCheckpoints service s0 = (s1, Inr (laCheckpoint r)) \<and> s0 = s \<and> confirmed service good (laCheckpoint r) s2 s' \<and>
    auLocator service s1 (cpLocatorTreeID (laCheckpoint r)) (cpLocatorRoot (laCheckpoint r)) query = (s2, Inr (laRange r))"
  using assms current still_current by (fastforce simp: ResolveLocator_def sbind_eq_Inr swrap_eq_Inr split: if_splits)

lemma localization_pinned:
  assumes "LocalizeTamper service s sequence root failed addresses k = (s', Inr r)"
  shows "cpSequence (zaCheckpoint r) = sequence \<and> (\<exists>localizer s1 s2. auLocalizer service = Some localizer \<and> confirmed service good (zaCheckpoint r) s2 s' \<and>
    localizer s1 \<lparr>reqAddresses = addresses, reqAuditorGlobalRoot = root, reqFailedProof = failed,
      reqAnchoredGlobalRoot = cpGlobalHMFRoot (zaCheckpoint r), reqK = k\<rparr> = (s2, Inr (zaLocalization r)))"
  using assms current still_current
  by (fastforce simp: LocalizeTamper_def sbind_eq_Inr swrap_eq_Inr split: if_splits option.splits)

end

text \<open>A checkpoint the reader returns is finalized and carries the commitment of its sequence number
  and its two roots.\<close>

definition finalized_checkpoint :: "hash_fn \<Rightarrow> string \<Rightarrow> Checkpoint \<Rightarrow> bool" where
  "finalized_checkpoint H systemID c \<longleftrightarrow> cpSystemID c = systemID \<and> cpStatus c = StatusFinalized \<and> cpAnchor c \<noteq> None \<and>
     StateCommitment H (cpSequence c) (cpLocatorRoot c) (cpGlobalHMFRoot c) = Inr (cpStateCommitment c)"

lemma read_finalized:
  assumes "Reader_Current H reader r = (r', Inr c)"
  shows "finalized_checkpoint H (rdSystemID reader) c"
  using assms
  by (auto simp: Reader_Current_def readCurrent_def finalized_checkpoint_def validateStoredCheckpoint_def VerifyStateCommitment_def
      split: prod.splits sum.splits if_splits)

interpretation run_audit: audited "projr (audit_service H n k reader proofs)" "finalized_checkpoint H (rdSystemID reader)" for H n k reader proofs
proof
  show "finalized_checkpoint H (rdSystemID reader) c" if "auCheckpoints (projr (audit_service H n k reader proofs)) s = (s', Inr c)" for s s' c
    using that read_finalized by (auto simp: audit_service_def NewAuditService_def split: prod.splits)
qed

lemma audit_service_fields:
  "auCheckpoints (projr (audit_service H n k reader proofs)) (r, db) = (case Reader_Current H reader r of (r', c) \<Rightarrow> ((r', db), c))"
  "auLocator (projr (audit_service H n k reader proofs)) (r, db) treeID root query =
     (case ResolveLocatorQuery H n db treeID root query of (db', x) \<Rightarrow> ((r, db'), x))"
  "auHMFProof (projr (audit_service H n k reader proofs)) s addresses root = (s, BuildAndVerify H (proofs s) addresses root)"
  "auLocalizer (projr (audit_service H n k reader proofs)) = Some (\<lambda>s request. (s, Localize H k (hpp_builder H (proofs s)) request))"
  by (simp_all add: audit_service_def NewAuditService_def)

lemma audit_service_runs: "audit_service H n k reader proofs = Inr (projr (audit_service H n k reader proofs))"
  by (simp add: audit_service_def NewAuditService_def)

section \<open>Audited answers\<close>

text \<open>C5: End to end: the leaves of an audit proof are the committed ones. If the audit service, wired
  as the program wires it, answers a proof request for a checkpoint sequence number, then the answer
  carries a finalized checkpoint with that number whose commitment binds its roots and which was
  still current at the end; and if the global root of this checkpoint is the root of a forest, the
  proof has a leaf for every requested address and for no other, and every leaf of the proof is the leaf
  of that forest at its address, whatever the databases returned, unless the hash collides on an input
  of the forest or of the proof. The counts and identifiers of the proof and of the forest are 64-bit
  integers, as their Go types are, and names are shorter than \<open>2 ^ 32\<close> bytes.\<close>

theorem audited_leaves_are_committed:
  assumes "audit_service H n k reader proofs = Inr service"
    and "BuildHMFProof service s sequence addresses = (s', Inr answer)"
    and "cpGlobalHMFRoot (haCheckpoint answer) = forest_root H rids m (segs_of H content)"
    and "TraceHMFProof H (vrProof (haHMF answer)) addresses = Inr trace"
    and "inj_on H (content_inputs H rids m content \<union> HPP_Soundness.proof_inputs (vrProof (haHMF answer)) trace)"
    and "content_bounds rids m content" and "HPP_Soundness.typed_proof (vrProof (haHMF answer))"
  shows "cpSequence (haCheckpoint answer) = sequence \<and>
    (\<exists>before. confirmed service (finalized_checkpoint H (rdSystemID reader)) (haCheckpoint answer) before s') \<and>
    rlAddress ` set (hpLeaves (vrProof (haHMF answer))) = set addresses \<and>
    (\<forall>l \<in> set (hpLeaves (vrProof (haHMF answer))). leaf_at rids m content (rlAddress l) (rlHash l))"
proof -
  have service: "projr (audit_service H n k reader proofs) = service" using assms(1) by simp
  note pinned = run_audit.proof_pinned [of H n k reader proofs, unfolded service, OF assms(2)]
  obtain s1 s2 where c: "confirmed service (finalized_checkpoint H (rdSystemID reader)) (haCheckpoint answer) s2 s'"
    and b: "BuildAndVerify H (proofs s1) addresses (cpGlobalHMFRoot (haCheckpoint answer)) = Inr (haHMF answer)"
    using pinned audit_service_fields(3) [of H n k reader proofs, unfolded service] by auto
  have "authenticated H addresses (cpGlobalHMFRoot (haCheckpoint answer)) (haHMF answer)"
    by (rule hpp_reference.build [of H "proofs s1"]) (simp add: hpp_builder_def b)
  then have "ptGlobalRoot trace = forest_root H rids m (segs_of H content)"
    using assms(3,4) by (auto simp: authenticated_def)
  note committed = accepted_leaves [OF assms(4) this assms(5-7)]
  note covers = BuildAndVerify_covers [OF b]
  have "leaf_at rids m content (rlAddress l) (rlHash l)" if l: "l \<in> set (hpLeaves (vrProof (haHMF answer)))" for l
    using l covers(1) by (intro committed covers(2)) auto
  with covers(1) pinned c show ?thesis by blast
qed

text \<open>C6: End to end: the answer to an audit query is exact. If the audit service answers a locator
  query, the answer carries a finalized checkpoint that was still current at the end, and if the
  locator root of this checkpoint is the root of a locator tree, the answer holds exactly the entries
  of that tree that match the query, whatever the locator tables hold, unless the hash collides.\<close>

theorem audited_query_is_exact:
  assumes "audit_service H n k reader proofs = Inr service"
    and "ResolveLocator service (r, db) query = (s', Inr answer)"
    and "cpLocatorRoot (laCheckpoint answer) = bhash H t" and "locator_tree t" and "pages_typed db"
    and "inj_on H (binputs H t \<union> Locator_Verify.proof_inputs H (rrProof (laRange answer)))"
  shows "(\<exists>before. confirmed service (finalized_checkpoint H (rdSystemID reader)) (laCheckpoint answer) before s') \<and>
    rrEntries (laRange answer) = filter (matches_query query) (bentries t)"
proof -
  have service: "projr (audit_service H n k reader proofs) = service" using assms(1) by simp
  obtain s1 s2 where c: "confirmed service (finalized_checkpoint H (rdSystemID reader)) (laCheckpoint answer) s2 s'"
    and cur: "auCheckpoints service (r, db) = (s1, Inr (laCheckpoint answer))"
    and loc: "auLocator service s1 (cpLocatorTreeID (laCheckpoint answer)) (cpLocatorRoot (laCheckpoint answer)) query = (s2, Inr (laRange answer))"
    using run_audit.query_pinned [of H n k reader proofs, unfolded service, OF assms(2)] by auto
  obtain r' where s1: "s1 = (r', db)"
    using cur audit_service_fields(1) [of H n k reader proofs, unfolded service] by (auto split: prod.splits)
  obtain db' where "ResolveLocatorQuery H n db (cpLocatorTreeID (laCheckpoint answer)) (bhash H t) query = (db', Inr (laRange answer))"
    using loc audit_service_fields(2) [of H n k reader proofs, unfolded service] by (auto simp: s1 assms(3) split: prod.splits)
  from resolved_entries [OF this assms(5,4,6)] c show ?thesis by blast
qed

section \<open>A small audit\<close>

text \<open>A repository that always returns one finalized checkpoint, of the small forest and the locator tree
  with one leaf.\<close>

definition small_checkpoint :: Checkpoint where
  "small_checkpoint = (let l = bhash len_hash one_leaf; g = ptGlobalRoot (tiny_trace len_hash) in
     \<lparr>cpID = ''1'', cpSystemID = ''s'', cpSequence = 1, cpLocatorTreeID = ''ALL'', cpLocatorRoot = l, cpGlobalHMFRoot = g,
       cpStateCommitment = len_hash (state_input 1 l g), cpStatus = StatusFinalized,
       cpAnchor = Some \<lparr>arTransactionHash = ''tx'', arBlockHeight = 1, arAnchoredAt = 1\<rparr>, cpCreatedAt = 1, cpFinalizedAt = Some 1\<rparr>)"

definition small_reader :: "unit Reader" where
  "small_reader = \<lparr>rdSystemID = ''s'', rdRepo = \<lparr>LatestCheckpoint = (\<lambda>r _. (r, Inr small_checkpoint)),
     CurrentFinalized = (\<lambda>r _. (r, Inr small_checkpoint)), SavePending = (\<lambda>r c. (r, Inr c)), PublishFinalized = (\<lambda>r _. (r, Inr ()))\<rparr>\<rparr>"

lemma small_current: "Reader_Current len_hash small_reader r = (r, Inr small_checkpoint)"
  by (simp add: Reader_Current_def readCurrent_def small_reader_def validateStoredCheckpoint_def VerifyStateCommitment_def
      StateCommitment_def validateReceipt_def small_checkpoint_def Let_def IsZero_def time_zero_def StatusFinalized_def StatusPending_def)

abbreviation small_audit :: "(unit \<times> all_db) AuditService" where
  "small_audit \<equiv> projr (audit_service len_hash 0 0 small_reader (\<lambda>_. tiny_service))"

lemma small_still_current: "ensureStillCurrent small_audit (r, db) small_checkpoint = ((r, db), Inr ())"
  by (simp add: ensureStillCurrent_def audit_service_fields small_current swrap_def)

theorem audited_query_is_exact_witness:
  "rrEntries one_leaf_answer = filter (matches_query two_leaf_query) (bentries one_leaf) \<and>
    ResolveLocator small_audit ((), one_leaf_db) two_leaf_query =
      (((), one_leaf_db), Inr \<lparr>laCheckpoint = small_checkpoint, laRange = one_leaf_answer\<rparr>)"
proof -
  have run: "ResolveLocator small_audit ((), one_leaf_db) two_leaf_query =
      (((), one_leaf_db), Inr \<lparr>laCheckpoint = small_checkpoint, laRange = one_leaf_answer\<rparr>)"
    using one_leaf_resolved small_still_current
    by (simp add: ResolveLocator_def audit_service_fields small_current swrap_def small_checkpoint_def Let_def)
  have "rrEntries (laRange \<lparr>laCheckpoint = small_checkpoint, laRange = one_leaf_answer\<rparr>) = filter (matches_query two_leaf_query) (bentries one_leaf)"
    by (rule conjunct2, rule audited_query_is_exact [OF audit_service_runs run])
      (simp_all add: one_leaf_tree one_leaf_typed one_leaf_inj, simp add: small_checkpoint_def Let_def)
  with run show ?thesis by simp
qed

theorem audited_leaves_are_committed_witness:
  "\<exists>s' answer. BuildHMFProof small_audit ((), one_leaf_db) 1 [tiny_address] = (s', Inr answer) \<and>
    rlAddress ` set (hpLeaves (vrProof (haHMF answer))) = {tiny_address} \<and>
    (\<forall>l \<in> set (hpLeaves (vrProof (haHMF answer))). leaf_at [''eu''] 1 tiny_content (rlAddress l) (rlHash l))"
proof -
  obtain result where r: "BuildAndVerify len_hash tiny_service [tiny_address] (ptGlobalRoot (tiny_trace len_hash)) = Inr result"
    and trace: "TraceHMFProof len_hash (vrProof result) [tiny_address] = Inr (tiny_trace len_hash)"
    and leaves: "hpLeaves (vrProof result) = hpLeaves tiny_proof" "hpNodes (vrProof result) = hpNodes tiny_proof"
    and trees: "ppTrees (hpPlan (vrProof result)) = ppTrees (hpPlan tiny_proof)"
    using tiny_build [of len_hash] by blast
  let ?answer = "\<lparr>haCheckpoint = small_checkpoint, haHMF = result\<rparr>"
  have root: "cpGlobalHMFRoot small_checkpoint = ptGlobalRoot (tiny_trace len_hash)" "cpSequence small_checkpoint = 1"
    by (simp_all add: small_checkpoint_def Let_def)
  have run: "BuildHMFProof small_audit ((), one_leaf_db) 1 [tiny_address] = (((), one_leaf_db), Inr ?answer)"
    using r small_still_current by (simp add: BuildHMFProof_def audit_service_fields small_current swrap_def root)
  have inj: "inj_on len_hash (content_inputs len_hash [''eu''] 1 tiny_content \<union> HPP_Soundness.proof_inputs (vrProof result) (tiny_trace len_hash))"
    using tiny_inj by (simp add: HPP_Soundness.proof_inputs_def trees)
  have typed: "HPP_Soundness.typed_proof (vrProof result)" using tiny_bounds(2) by (simp add: HPP_Soundness.typed_proof_def trees leaves)
  have fields: "haHMF ?answer = result" "haCheckpoint ?answer = small_checkpoint" by simp_all
  have forest: "cpGlobalHMFRoot (haCheckpoint ?answer) = forest_root len_hash [''eu''] 1 (segs_of len_hash tiny_content)"
    unfolding fields root tiny_root ..
  note committed = audited_leaves_are_committed [OF audit_service_runs run forest, unfolded fields, OF trace inj tiny_bounds(1) typed]
  then have "\<forall>l \<in> set (hpLeaves (vrProof result)). leaf_at [''eu''] 1 tiny_content (rlAddress l) (rlHash l)"
    and "rlAddress ` set (hpLeaves (vrProof result)) = {tiny_address}" by simp_all
  with run show ?thesis by (intro exI conjI) (assumption, simp_all only: fields)
qed

end
