(* ===== verification/HMF_Store.thy ===== *)
theory HMF_Store
  imports Cassandra HMF_Forest HPP_Planner
begin

text \<open>
  The tables of the forest: \<^verbatim>\<open>internal/storage/cassandra/segment_repo.go\<close>, \<^verbatim>\<open>shard_repo.go\<close>,
  \<^verbatim>\<open>hmf_repo.go\<close> and \<^verbatim>\<open>hmf_update_writer.go\<close>. A table is a list of rows by primary key; a query of a
  partition returns its rows in clustering order. A statement or a batch of inserts into one partition
  is applied as a whole or not at all; batches of different partitions run in an order that is a
  parameter (\<open>arrange\<close>).
\<close>

section \<open>The tables\<close>

record SegmentNode =
  snRegionID :: string
  snShardID :: int
  snSegmentID :: int
  snLevel :: int
  snNodeIndex :: int
  snNodeHash :: "byte list"

record StoredSegment =
  sgRegionID :: string
  sgShardID :: int
  sgSegmentID :: int
  sgSegmentRoot :: "byte list"
  sgLeafCount :: int
  sgShardLeafIndex :: "int option"
  sgMaxLeaves :: int
  sgMaxAgeMS :: int
  sgStartTS :: "time option"
  sgEndTS :: "time option"
  sgSealed :: bool
  sgCreatedAt :: time
  sgSealedAt :: "time option"

record ShardFrontier =
  sfLevel :: int
  sfNodeIndex :: int
  sfNodeHash :: "byte list"

record HMFNode =
  hnScopeType :: string
  hnScopeID :: string
  hnBucketID :: int
  hnLevel :: int
  hnNodeIndex :: int
  hnNodeHash :: "byte list"

record HMFTreeState =
  htTreeID :: string
  htTreeType :: string
  htRegionID :: "string option"
  htShardID :: "int option"
  htSegmentID :: "int option"
  htCurrentRoot :: "byte list"
  htCurrentSegmentID :: "int option"
  htNextSegmentID :: "int option"
  htLeafCount :: int
  htTreeHeight :: int
  htParentLeafIndex :: "int option"
  htUpdatedAt :: time

type_synonym segment_part = "string \<times> int \<times> int"
type_synonym upper_part = "string \<times> string \<times> int"
type_synonym node_key = "int \<times> int"

record hmf_db = database +
  dbSegmentNodes :: "(segment_part \<times> node_key, SegmentNode) gomap"
  dbSegments :: "((string \<times> int) \<times> int, StoredSegment) gomap"
  dbFrontiers :: "((string \<times> int) \<times> int, ShardFrontier \<times> time) gomap"
  dbFrontierDeletions :: "string \<times> int \<rightharpoonup> time"
  dbUpperNodes :: "(upper_part \<times> node_key, HMFNode) gomap"
  dbStates :: "(string, HMFTreeState) gomap"

text \<open>The clustering orders, and the rows of a partition.\<close>

definition node_key_less :: "node_key \<Rightarrow> node_key \<Rightarrow> bool" where
  "node_key_less = (\<lambda>(l, i) (l', i'). l < l' \<or> l = l' \<and> i < i')"

definition partition_rows :: "('c \<Rightarrow> 'c \<Rightarrow> bool) \<Rightarrow> 'p \<Rightarrow> ('p \<times> 'c, 'row) gomap \<Rightarrow> 'row list" where
  "partition_rows lt part table =
     map snd (sort_Slice (\<lambda>a b. lt (fst a) (fst b)) (map (\<lambda>(key, row). (snd key, row)) (filter (\<lambda>(key, row). fst key = part) table)))"

definition select_rows :: "('c \<Rightarrow> 'c \<Rightarrow> bool) \<Rightarrow> 'p \<Rightarrow> 'c list \<Rightarrow> ('p \<times> 'c, 'row) gomap \<Rightarrow> ('c \<times> 'row) list" where
  "select_rows lt part keys table =
     List.map_filter (\<lambda>key. map_option (Pair key) (map_of table (part, key))) (sort_Slice lt (remdups keys))"

section \<open>Segments\<close>

definition put_segment_node :: "SegmentNode \<Rightarrow> hmf_db \<Rightarrow> hmf_db" where
  "put_segment_node node db = db\<lparr>dbSegmentNodes := gm_put
     ((snRegionID node, snShardID node, snSegmentID node), (snLevel node, snNodeIndex node)) node (dbSegmentNodes db)\<rparr>"

definition SegmentRepo_UpsertNodes :: "hmf_db \<Rightarrow> SegmentNode list \<Rightarrow> (hmf_db, unit) outcome" where
  "SegmentRepo_UpsertNodes db nodes =
     (if length nodes = 0 then (db, Inr ())
      else swrap ''upsert segment nodes: %w'' (exec_statement db (\<lambda>db. foldl (\<lambda>db node. put_segment_node node db) db nodes)))"

definition SegmentRepo_GetNode :: "hmf_db \<Rightarrow> string \<Rightarrow> int \<Rightarrow> int \<Rightarrow> int \<Rightarrow> int \<Rightarrow> (hmf_db, SegmentNode) outcome" where
  "SegmentRepo_GetNode db regionID shardID segmentID level nodeIndex =
     swrap ''get segment node %d: %w'' (scan_row db (map_of (dbSegmentNodes db) ((regionID, shardID, segmentID), (level, nodeIndex))))"

definition SegmentRepo_GetNodes :: "hmf_db \<Rightarrow> string \<Rightarrow> int \<Rightarrow> int \<Rightarrow> (hmf_db, SegmentNode list) outcome" where
  "SegmentRepo_GetNodes db regionID shardID segmentID =
     swrap ''get segment nodes: %w'' (scan_rows db (partition_rows node_key_less (regionID, shardID, segmentID) (dbSegmentNodes db)))"

text \<open>A timestamp column keeps what the session makes of an instant.\<close>

definition stored_segment :: "cql \<Rightarrow> StoredSegment \<Rightarrow> StoredSegment" where
  "stored_segment cq segment = segment\<lparr>sgStartTS := map_option (cqlTimestamp cq) (sgStartTS segment),
     sgEndTS := map_option (cqlTimestamp cq) (sgEndTS segment), sgCreatedAt := cqlTimestamp cq (sgCreatedAt segment),
     sgSealedAt := map_option (cqlTimestamp cq) (sgSealedAt segment)\<rparr>"

definition UpsertSegment :: "cql \<Rightarrow> hmf_db \<Rightarrow> StoredSegment \<Rightarrow> (hmf_db, unit) outcome" where
  "UpsertSegment cq db segment = swrap ''upsert segment %d: %w'' (exec_statement db (\<lambda>db.
     db\<lparr>dbSegments := gm_put ((sgRegionID segment, sgShardID segment), sgSegmentID segment) (stored_segment cq segment) (dbSegments db)\<rparr>))"

definition GetSegment :: "hmf_db \<Rightarrow> string \<Rightarrow> int \<Rightarrow> int \<Rightarrow> (hmf_db, StoredSegment) outcome" where
  "GetSegment db regionID shardID segmentID =
     swrap ''get segment %d: %w'' (scan_row db (map_of (dbSegments db) ((regionID, shardID), segmentID)))"

definition GetSegments :: "hmf_db \<Rightarrow> string \<Rightarrow> int \<Rightarrow> (hmf_db, StoredSegment list) outcome" where
  "GetSegments db regionID shardID =
     swrap ''get shard segments: %w'' (scan_rows db (partition_rows (<) (regionID, shardID) (dbSegments db)))"

section \<open>Frontiers\<close>

text \<open>
  A row carries the time of the statement that wrote it, and a partition the time of its last deletion;
  the statements of one batch carry one time, \<open>now\<close>. Which rows a deletion leaves is decided by the
  database from the two times: \<open>live t d\<close> says that a row written at \<open>t\<close> survives a deletion at \<open>d\<close>.
\<close>

definition put_frontier :: "string \<Rightarrow> int \<Rightarrow> time \<Rightarrow> ShardFrontier \<Rightarrow> hmf_db \<Rightarrow> hmf_db" where
  "put_frontier regionID shardID now frontier db =
     db\<lparr>dbFrontiers := gm_put ((regionID, shardID), sfLevel frontier) (frontier, now) (dbFrontiers db)\<rparr>"

definition UpsertFrontiers :: "time \<Rightarrow> hmf_db \<Rightarrow> string \<Rightarrow> int \<Rightarrow> ShardFrontier list \<Rightarrow> (hmf_db, unit) outcome" where
  "UpsertFrontiers now db regionID shardID frontiers =
     (if length frontiers = 0 then (db, Inr ())
      else swrap ''upsert shard frontiers: %w'' (exec_statement db (\<lambda>db.
        foldl (\<lambda>db frontier. put_frontier regionID shardID now frontier db) db frontiers)))"

definition ReplaceFrontiers :: "time \<Rightarrow> hmf_db \<Rightarrow> string \<Rightarrow> int \<Rightarrow> ShardFrontier list \<Rightarrow> (hmf_db, unit) outcome" where
  "ReplaceFrontiers now db regionID shardID frontiers =
     swrap ''replace shard frontiers: %w'' (exec_statement db (\<lambda>db.
       foldl (\<lambda>db frontier. put_frontier regionID shardID now frontier db)
         (db\<lparr>dbFrontierDeletions := (dbFrontierDeletions db)((regionID, shardID) \<mapsto> now)\<rparr>) frontiers))"

definition live_frontiers :: "(time \<Rightarrow> time \<Rightarrow> bool) \<Rightarrow> hmf_db \<Rightarrow> string \<times> int \<Rightarrow> ShardFrontier list" where
  "live_frontiers live db part =
     map fst (filter (\<lambda>(row, t). case dbFrontierDeletions db part of None \<Rightarrow> True | Some d \<Rightarrow> live t d)
       (partition_rows (<) part (dbFrontiers db)))"

definition GetFrontiers :: "(time \<Rightarrow> time \<Rightarrow> bool) \<Rightarrow> hmf_db \<Rightarrow> string \<Rightarrow> int \<Rightarrow> (hmf_db, ShardFrontier list) outcome" where
  "GetFrontiers live db regionID shardID =
     swrap ''get shard frontiers: %w'' (scan_rows db (live_frontiers live db (regionID, shardID)))"

section \<open>Upper nodes and tree states\<close>

definition shardBucketLevel :: int where
  "shardBucketLevel = 15"

definition hmfBucketID :: "string \<Rightarrow> int \<Rightarrow> int \<Rightarrow> int" where
  "hmfBucketID scopeType level nodeIndex =
     (if scopeType \<noteq> ''SHARD'' then 0
      else if level < shardBucketLevel then nodeIndex div 2 ^ nat (shardBucketLevel - level)
      else wrap64 (nodeIndex * 2 ^ nat (level - shardBucketLevel)))"

definition upper_part_of :: "HMFNode \<Rightarrow> upper_part" where
  "upper_part_of node = (hnScopeType node, hnScopeID node, hmfBucketID (hnScopeType node) (hnLevel node) (hnNodeIndex node))"

definition put_upper_node :: "HMFNode \<Rightarrow> hmf_db \<Rightarrow> hmf_db" where
  "put_upper_node node db = db\<lparr>dbUpperNodes := gm_put (upper_part_of node, (hnLevel node, hnNodeIndex node))
     (node\<lparr>hnBucketID := hmfBucketID (hnScopeType node) (hnLevel node) (hnNodeIndex node)\<rparr>) (dbUpperNodes db)\<rparr>"

definition UpsertNode :: "hmf_db \<Rightarrow> HMFNode \<Rightarrow> (hmf_db, unit) outcome" where
  "UpsertNode db node = swrap ''upsert HMF node %d: %w'' (exec_statement db (put_upper_node node))"

type_synonym node_partitions = "(upper_part \<times> HMFNode list) list"

definition add_to_upper_part :: "(upper_part, HMFNode list) gomap \<Rightarrow> HMFNode \<Rightarrow> (upper_part, HMFNode list) gomap" where
  "add_to_upper_part partitions node =
     gm_put (upper_part_of node) (gm_get [] (map_of partitions) (upper_part_of node) @ [node]) partitions"

definition exec_node_batch :: "hmf_db \<times> error option \<Rightarrow> HMFNode list \<Rightarrow> hmf_db \<times> error option" where
  "exec_node_batch = (\<lambda>(db, firstErr) nodes.
     case exec_statement db (\<lambda>db. foldl (\<lambda>db node. put_upper_node node db) db nodes) of
       (db', Inl e) \<Rightarrow> (db', if firstErr = None then Some e else firstErr)
     | (db', Inr _) \<Rightarrow> (db', firstErr))"

definition HMFRepo_UpsertNodes :: "(node_partitions \<Rightarrow> node_partitions) \<Rightarrow> hmf_db \<Rightarrow> HMFNode list \<Rightarrow> (hmf_db, unit) outcome" where
  "HMFRepo_UpsertNodes arrange db nodes =
     (if length nodes = 0 then (db, Inr ())
      else let partitions = foldl add_to_upper_part [] nodes;
               (db', firstErr) = foldl exec_node_batch (db, None) (map snd (arrange partitions))
           in case firstErr of None \<Rightarrow> (db', Inr ()) | Some e \<Rightarrow> (db', Inl (Wrap ''upsert HMF nodes: %w'' e)))"

definition HMFRepo_GetNode :: "hmf_db \<Rightarrow> string \<Rightarrow> string \<Rightarrow> int \<Rightarrow> int \<Rightarrow> (hmf_db, HMFNode) outcome" where
  "HMFRepo_GetNode db scopeType scopeID level nodeIndex =
     swrap ''get HMF node %d: %w'' (scan_row db
       (map_of (dbUpperNodes db) ((scopeType, scopeID, hmfBucketID scopeType level nodeIndex), (level, nodeIndex))))"

definition HMFRepo_GetNodes :: "hmf_db \<Rightarrow> string \<Rightarrow> string \<Rightarrow> int \<Rightarrow> (hmf_db, HMFNode list) outcome" where
  "HMFRepo_GetNodes db scopeType scopeID bucketID =
     swrap ''get HMF nodes: %w'' (scan_rows db (partition_rows node_key_less (scopeType, scopeID, bucketID) (dbUpperNodes db)))"

definition HMFRepo_UpsertTreeState :: "cql \<Rightarrow> hmf_db \<Rightarrow> HMFTreeState \<Rightarrow> (hmf_db, unit) outcome" where
  "HMFRepo_UpsertTreeState cq db state = swrap ''upsert HMF tree state %s: %w'' (exec_statement db (\<lambda>db.
     db\<lparr>dbStates := gm_put (htTreeID state) (state\<lparr>htUpdatedAt := cqlTimestamp cq (htUpdatedAt state)\<rparr>) (dbStates db)\<rparr>))"

definition HMFRepo_GetTreeState :: "hmf_db \<Rightarrow> string \<Rightarrow> (hmf_db, HMFTreeState) outcome" where
  "HMFRepo_GetTreeState db treeID = swrap ''get HMF tree state %s: %w'' (scan_row db (map_of (dbStates db) treeID))"

section \<open>The update writer\<close>

definition hashBytes :: "hash \<Rightarrow> byte list" where
  "hashBytes hash = hash_bytes hash"

definition timePointer :: "time \<Rightarrow> time option" where
  "timePointer value = (if IsZero value then None else Some value)"

text \<open>\<^verbatim>\<open>Duration.Milliseconds\<close> rounds towards zero.\<close>

definition Milliseconds :: "int \<Rightarrow> int" where
  "Milliseconds d = (if d < 0 then - ((- d) div 1000000) else d div 1000000)"

definition segmentNodes :: "TreeID \<Rightarrow> MerkleNode list \<Rightarrow> SegmentNode list" where
  "segmentNodes treeID nodes = map (\<lambda>node. \<lparr>snRegionID = tidRegionID treeID, snShardID = tidShardID treeID,
     snSegmentID = tidSegmentID treeID, snLevel = wrap32 (mnLevel node), snNodeIndex = mnIndex node,
     snNodeHash = hashBytes (mnHash node)\<rparr>) nodes"

definition hmfNodes :: "string \<Rightarrow> string \<Rightarrow> MerkleNode list \<Rightarrow> HMFNode list" where
  "hmfNodes scopeType scopeID nodes = map (\<lambda>node. \<lparr>hnScopeType = scopeType, hnScopeID = scopeID, hnBucketID = 0,
     hnLevel = wrap32 (mnLevel node), hnNodeIndex = mnIndex node, hnNodeHash = hashBytes (mnHash node)\<rparr>) nodes"

definition shardFrontiers :: "MerkleNode list \<Rightarrow> ShardFrontier list" where
  "shardFrontiers nodes = map (\<lambda>node. \<lparr>sfLevel = wrap32 (mnLevel node), sfNodeIndex = mnIndex node,
     sfNodeHash = hashBytes (mnHash node)\<rparr>) nodes"

definition sealed_segment :: "HMFUpdate \<Rightarrow> StoredSegment" where
  "sealed_segment update = \<lparr>sgRegionID = tidRegionID (SegmentTreeID update), sgShardID = tidShardID (SegmentTreeID update),
     sgSegmentID = tidSegmentID (SegmentTreeID update), sgSegmentRoot = hashBytes (SegmentRoot update),
     sgLeafCount = SegmentLeaves update, sgShardLeafIndex = Some (ShardLeafIndex update),
     sgMaxLeaves = wrap32 (SegmentMaxLeaves update), sgMaxAgeMS = Milliseconds (SegmentMaxAge update),
     sgStartTS = timePointer (SegmentStartedAt update), sgEndTS = timePointer (SegmentEndedAt update), sgSealed = True,
     sgCreatedAt = SegmentCreatedAt update, sgSealedAt = timePointer (SegmentSealedAt update)\<rparr>"

definition tree_states :: "HMFUpdate \<Rightarrow> HMFTreeState list" where
  "tree_states update =
     (let regionID = tidRegionID (SegmentTreeID update); shardID = tidShardID (SegmentTreeID update);
          segmentID = tidSegmentID (SegmentTreeID update) in
      [\<lparr>htTreeID = ''SEGMENT:'' @ regionID @ '':S'' @ format_d shardID @ '':'' @ format_d segmentID, htTreeType = ''SEGMENT'',
         htRegionID = Some regionID, htShardID = Some shardID, htSegmentID = Some segmentID,
         htCurrentRoot = hashBytes (SegmentRoot update), htCurrentSegmentID = None, htNextSegmentID = None,
         htLeafCount = SegmentLeaves update, htTreeHeight = wrap32 (SegmentHeight update),
         htParentLeafIndex = Some (ShardLeafIndex update), htUpdatedAt = SegmentSealedAt update\<rparr>,
       \<lparr>htTreeID = ''SHARD:'' @ regionID @ '':S'' @ format_d shardID, htTreeType = ''SHARD'',
         htRegionID = Some regionID, htShardID = Some shardID, htSegmentID = None,
         htCurrentRoot = hashBytes (ShardRoot update), htCurrentSegmentID = None, htNextSegmentID = Some (wrap64 (segmentID + 1)),
         htLeafCount = ShardLeaves update, htTreeHeight = wrap32 (ShardHeight update),
         htParentLeafIndex = Some (RegionParentLeafIndex update), htUpdatedAt = SegmentSealedAt update\<rparr>,
       \<lparr>htTreeID = ''REGION:'' @ regionID, htTreeType = ''REGION'',
         htRegionID = Some regionID, htShardID = None, htSegmentID = None,
         htCurrentRoot = hashBytes (RegionRoot update), htCurrentSegmentID = None, htNextSegmentID = None,
         htLeafCount = RegionLeaves update, htTreeHeight = wrap32 (RegionHeight update),
         htParentLeafIndex = Some (GlobalParentLeafIndex update), htUpdatedAt = SegmentSealedAt update\<rparr>,
       \<lparr>htTreeID = ''GLOBAL'', htTreeType = ''GLOBAL'', htRegionID = None, htShardID = None, htSegmentID = None,
         htCurrentRoot = hashBytes (GlobalRoot update), htCurrentSegmentID = None, htNextSegmentID = None,
         htLeafCount = GlobalLeaves update, htTreeHeight = wrap32 (GlobalHeight update),
         htParentLeafIndex = None, htUpdatedAt = SegmentSealedAt update\<rparr>])"

fun upsert_states :: "cql \<Rightarrow> hmf_db \<Rightarrow> HMFTreeState list \<Rightarrow> (hmf_db, unit) outcome" where
  "upsert_states cq db [] = (db, Inr ())"
| "upsert_states cq db (state # states) = sbind (HMFRepo_UpsertTreeState cq db state) (\<lambda>db _. upsert_states cq db states)"

definition persistTreeStates :: "cql \<Rightarrow> hmf_db \<Rightarrow> HMFUpdate \<Rightarrow> (hmf_db, unit) outcome" where
  "persistTreeStates cq db update = upsert_states cq db (tree_states update)"

definition PersistSealedUpdate ::
  "(node_partitions \<Rightarrow> node_partitions) \<Rightarrow> time \<Rightarrow> cql \<Rightarrow> hmf_db \<Rightarrow> HMFUpdate \<Rightarrow> (hmf_db, unit) outcome" where
  "PersistSealedUpdate arrange now cq db update =
     (if tidType (SegmentTreeID update) \<noteq> TreeSegment then (db, Inl (Errorf ''persist sealed update: segment tree ID is required''))
      else if SegmentLeaves update = 0 then (db, Inl (Errorf ''persist sealed update: segment must contain leaves''))
      else let regionID = tidRegionID (SegmentTreeID update); shardID = tidShardID (SegmentTreeID update);
               shardScopeID = regionID @ '':S'' @ format_d shardID in
        sbind (SegmentRepo_UpsertNodes db (segmentNodes (SegmentTreeID update) (SegmentNodes update))) (\<lambda>db _.
        sbind (UpsertSegment cq db (sealed_segment update)) (\<lambda>db _.
        sbind (HMFRepo_UpsertNodes arrange db (hmfNodes ''SHARD'' shardScopeID (ShardNodes update))) (\<lambda>db _.
        sbind (HMFRepo_UpsertNodes arrange db (hmfNodes ''REGION'' regionID (RegionNodes update))) (\<lambda>db _.
        sbind (HMFRepo_UpsertNodes arrange db (hmfNodes ''GLOBAL'' ''GLOBAL'' (GlobalNodes update))) (\<lambda>db _.
        sbind (ReplaceFrontiers now db regionID shardID (shardFrontiers (ShardFrontiers update))) (\<lambda>db _.
        persistTreeStates cq db update)))))))"

text \<open>\<^verbatim>\<open>PersistUpdates\<close> takes the next ready case of its select: the end of the context, the closed
  channel, or an update (with the time of its statements). The result is whether the loop has ended.\<close>

datatype writer_event = ContextDone error | ChannelClosed | UpdateReceived time HMFUpdate

fun PersistUpdates :: "(node_partitions \<Rightarrow> node_partitions) \<Rightarrow> cql \<Rightarrow> hmf_db \<Rightarrow> writer_event list \<Rightarrow> (hmf_db, bool) outcome" where
  "PersistUpdates arrange cq db [] = (db, Inr False)"
| "PersistUpdates arrange cq db (ContextDone e # events) = (db, Inl e)"
| "PersistUpdates arrange cq db (ChannelClosed # events) = (db, Inr True)"
| "PersistUpdates arrange cq db (UpdateReceived now update # events) =
     sbind (PersistSealedUpdate arrange now cq db update) (\<lambda>db _. PersistUpdates arrange cq db events)"

end
