(* ===== verification/HPP_Reader.thy ===== *)
theory HPP_Reader
  imports HMF_Store HPP_Service
begin

text \<open>
  \<^verbatim>\<open>internal/storage/cassandra/hpp_reader.go\<close>: the two readers of the proof service on the tables of
  the forest. The queries of a call run concurrently; their results are merged in the order in which
  they arrive, which is a parameter (\<open>arrange\<close>), and the first error ends the call. Queries leave the
  tables as they are.
\<close>

section \<open>Metadata\<close>

definition shardTreeID_of :: "ShardKey \<Rightarrow> string" where
  "shardTreeID_of shard = ''SHARD:'' @ hkRegionID shard @ '':S'' @ format_d (hkShardID shard)"

record treeStateRow =
  tsLeafCount :: int
  tsParentLeafIndex :: "int option"

definition readSegments :: "hmf_db \<Rightarrow> ShardKey \<Rightarrow> int list \<Rightarrow> (hmf_db, (SegmentKey, SegmentMetadata) gomap) outcome" where
  "readSegments db shard segmentIDs =
     sbind (scan_rows db (select_rows (<) (hkRegionID shard, hkShardID shard) segmentIDs (dbSegments db))) (\<lambda>db rows.
       (db, rfold (\<lambda>result (segmentID, row).
          let key = \<lparr>skRegionID = hkRegionID shard, skShardID = hkShardID shard, skSegmentID = segmentID\<rparr> in
          case sgShardLeafIndex row of
            None \<Rightarrow> Inl (Errorf ''load HPP metadata: segment %+v has no shard leaf index'')
          | Some index \<Rightarrow> Inr (gm_put key \<lparr>smLeafCount = sgLeafCount row, smShardLeafIndex = index, smSealed = sgSealed row\<rparr> result)) [] rows))"

definition readTreeStates :: "hmf_db \<Rightarrow> string list \<Rightarrow> (hmf_db, (string, treeStateRow) gomap) outcome" where
  "readTreeStates db treeIDs =
     sbind (scan_rows db (List.map_filter (\<lambda>treeID. map_option (Pair treeID) (map_of (dbStates db) treeID)) (remdups treeIDs))) (\<lambda>db rows.
       (db, Inr (foldl (\<lambda>result (treeID, row).
          gm_put treeID \<lparr>tsLeafCount = htLeafCount row, tsParentLeafIndex = htParentLeafIndex row\<rparr> result) [] rows)))"

text \<open>The segments by shard and the regions of the addresses.\<close>

type_synonym shard_segments = "(ShardKey, int list) gomap"

definition group_address :: "shard_segments \<times> string list \<Rightarrow> PhysicalAddress \<Rightarrow> shard_segments \<times> string list" where
  "group_address = (\<lambda>(segmentsByShard, regions) address.
     let shard = \<lparr>hkRegionID = paRegionID address, hkShardID = paShardID address\<rparr> in
     (gm_put shard (set_add (paSegmentID address) (gm_get [] (map_of segmentsByShard) shard)) segmentsByShard,
      set_add (paRegionID address) regions))"

datatype metadata_query = SegmentQuery ShardKey "int list" | StateQuery "string list"

type_synonym metadata_state = "(SegmentKey \<rightharpoonup> SegmentMetadata) \<times> (string \<rightharpoonup> treeStateRow)"

fun run_query :: "hmf_db \<Rightarrow> metadata_state \<Rightarrow> metadata_query \<Rightarrow> (hmf_db, metadata_state) outcome" where
  "run_query db (segments, states) (SegmentQuery shard segmentIDs) =
     sbind (readSegments db shard segmentIDs) (\<lambda>db rows. (db, Inr (segments ++ map_of rows, states)))"
| "run_query db (segments, states) (StateQuery treeIDs) =
     sbind (readTreeStates db treeIDs) (\<lambda>db rows. (db, Inr (segments, states ++ map_of rows)))"

fun run_queries :: "hmf_db \<Rightarrow> metadata_state \<Rightarrow> metadata_query list \<Rightarrow> (hmf_db, metadata_state) outcome" where
  "run_queries db st [] = (db, Inr st)"
| "run_queries db st (query # queries) = sbind (run_query db st query) (\<lambda>db st. run_queries db st queries)"

text \<open>The checks after the queries, for one shard and one region.\<close>

definition shard_metadata ::
  "metadata_state \<Rightarrow> (ShardKey \<rightharpoonup> UpperTreeMetadata) \<Rightarrow> ShardKey \<times> int list \<Rightarrow> (ShardKey \<rightharpoonup> UpperTreeMetadata) result" where
  "shard_metadata = (\<lambda>(segments, states) shards (shard, segmentIDs).
     if \<exists>segmentID \<in> set segmentIDs. segments \<lparr>skRegionID = hkRegionID shard, skShardID = hkShardID shard, skSegmentID = segmentID\<rparr> = None
     then Inl (Errorf ''load HPP metadata: segment %+v not found'')
     else case states (shardTreeID_of shard) of
       None \<Rightarrow> Inl (Errorf ''load HPP metadata: shard %+v tree state not found'')
     | Some state \<Rightarrow> (case tsParentLeafIndex state of
         None \<Rightarrow> Inl (Errorf ''load HPP metadata: shard %+v has no region leaf index'')
       | Some index \<Rightarrow> Inr (shards(shard \<mapsto> \<lparr>umLeafCount = tsLeafCount state, umParentLeafIndex = index\<rparr>))))"

definition region_metadata ::
  "metadata_state \<Rightarrow> (string \<rightharpoonup> UpperTreeMetadata) \<Rightarrow> string \<Rightarrow> (string \<rightharpoonup> UpperTreeMetadata) result" where
  "region_metadata = (\<lambda>(segments, states) regions regionID.
     case states (''REGION:'' @ regionID) of
       None \<Rightarrow> Inl (Errorf ''load HPP metadata: region %s tree state not found'')
     | Some state \<Rightarrow> (case tsParentLeafIndex state of
         None \<Rightarrow> Inl (Errorf ''load HPP metadata: region %s has no global leaf index'')
       | Some index \<Rightarrow> Inr (regions(regionID \<mapsto> \<lparr>umLeafCount = tsLeafCount state, umParentLeafIndex = index\<rparr>))))"

definition LoadHierarchyMetadata ::
  "(metadata_query list \<Rightarrow> metadata_query list) \<Rightarrow> hmf_db \<Rightarrow> PhysicalAddress list \<Rightarrow> (hmf_db, HierarchyMetadata) outcome" where
  "LoadHierarchyMetadata arrange db addresses =
     (let (segmentsByShard, regions) = foldl group_address ([], []) addresses;
          treeIDs = ''GLOBAL'' # map shardTreeID_of (gm_keys segmentsByShard) @ map (\<lambda>regionID. ''REGION:'' @ regionID) regions;
          queries = map (\<lambda>(shard, segmentIDs). SegmentQuery shard segmentIDs) segmentsByShard @ [StateQuery treeIDs] in
      sbind (swrap ''load HPP hierarchy metadata: %w'' (run_queries db (Map.empty, Map.empty) (arrange queries))) (\<lambda>db st.
      (db, rbind (rfold (shard_metadata st) Map.empty segmentsByShard) (\<lambda>shards.
        rbind (rfold (region_metadata st) Map.empty regions) (\<lambda>regionMap.
        case snd st ''GLOBAL'' of
          None \<Rightarrow> Inl (Errorf ''load HPP metadata: global tree state not found'')
        | Some global \<Rightarrow> Inr \<lparr>hmSegments = fst st, hmShards = shards, hmRegions = regionMap,
            hmGlobal = \<lparr>umLeafCount = tsLeafCount global, umParentLeafIndex = 0\<rparr>\<rparr>)))))"

section \<open>Proof nodes\<close>

text \<open>The partition keys decide which of the two queries is used.\<close>

datatype partition_keys = SegmentPartition segment_part | UpperPartition upper_part

record nodePartition =
  ppnTree :: TreeRef
  ppnKeys :: partition_keys
  ppnPositions :: "node_key list"

definition partition_add :: "int \<Rightarrow> int list \<Rightarrow> nodePartition \<Rightarrow> nodePartition" where
  "partition_add level indexes prt = prt\<lparr>ppnPositions := ppnPositions prt @ map (Pair level) indexes\<rparr>"

text \<open>A partition per tree and keys, in the order of the requests.\<close>

type_synonym node_parts = "(TreeRef \<times> partition_keys, nodePartition) gomap"

definition add_request :: "TreeRef \<Rightarrow> partition_keys \<Rightarrow> int \<Rightarrow> int list \<Rightarrow> node_parts \<Rightarrow> node_parts" where
  "add_request tree keys level indexes partitions =
     gm_put (tree, keys) (partition_add level indexes
       (gm_get \<lparr>ppnTree = tree, ppnKeys = keys, ppnPositions = []\<rparr> (map_of partitions) (tree, keys))) partitions"

text \<open>The segment partitions are found by their tree alone: the keys of the first request of a tree are
  kept for the later ones.\<close>

definition segment_keys :: "node_parts \<Rightarrow> SegmentRequest \<Rightarrow> partition_keys" where
  "segment_keys partitions request =
     (case find (\<lambda>(key, prt). fst key = srTree request \<and> (case ppnKeys prt of SegmentPartition _ \<Rightarrow> True | _ \<Rightarrow> False)) partitions of
        Some (key, prt) \<Rightarrow> ppnKeys prt
      | None \<Rightarrow> SegmentPartition (srRegionID request, srShardID request, srSegmentID request))"

definition request_partitions :: "ProofPlan \<Rightarrow> nodePartition list" where
  "request_partitions plan =
     map snd (foldl (\<lambda>partitions request. add_request (urTree request)
         (UpperPartition (urScopeType request, urScopeID request, urBucketID request)) (urLevel request) (urNodeIndexes request) partitions)
       (foldl (\<lambda>partitions request. add_request (srTree request) (segment_keys partitions request)
         (srLevel request) (srNodeIndexes request) partitions) [] (ppSegmentRequests plan))
       (ppUpperRequests plan))"

definition proofHash :: "byte list \<Rightarrow> hash result" where
  "proofHash bytes = (if length bytes \<noteq> 32 then Inl (Errorf ''proof node hash has %d bytes, want 32'') else Inr (hash_of_bytes bytes))"

text \<open>The rows of a partition at the planned positions, with their hashes.\<close>

definition stored_rows :: "hmf_db \<Rightarrow> nodePartition \<Rightarrow> (node_key \<times> byte list) list" where
  "stored_rows db prt =
     (case ppnKeys prt of
        SegmentPartition part \<Rightarrow> map (map_prod id snNodeHash) (select_rows node_key_less part (ppnPositions prt) (dbSegmentNodes db))
      | UpperPartition part \<Rightarrow> map (map_prod id hnNodeHash) (select_rows node_key_less part (ppnPositions prt) (dbUpperNodes db)))"

definition fetchPartition :: "hmf_db \<Rightarrow> nodePartition \<Rightarrow> (hmf_db, ProofNode list) outcome" where
  "fetchPartition db prt =
     sbind (scan_rows db (stored_rows db prt)) (\<lambda>db rows.
       (db, rbind (rfold (\<lambda>nodes ((level, index), hash). rbind (proofHash hash) (\<lambda>converted.
           Inr (nodes @ [\<lparr>pnRef = mk_ref (ppnTree prt) (mk_pos level index), pnHash = converted\<rparr>]))) [] rows) (\<lambda>nodes.
         if \<exists>position \<in> set (ppnPositions prt). position \<notin> fst ` set rows
         then Inl (Errorf ''proof node missing for tree %+v at level %d index %d'') else Inr nodes)))"

definition mergeProofNodes :: "(NodeRef, hash) gomap \<Rightarrow> ProofNode list \<Rightarrow> (NodeRef, hash) gomap result" where
  "mergeProofNodes destination nodes = rfold (\<lambda>destination node.
     case map_of destination (pnRef node) of
       Some existing \<Rightarrow> if existing \<noteq> pnHash node then Inl (Errorf ''conflicting proof node %+v'')
         else Inr (gm_put (pnRef node) (pnHash node) destination)
     | None \<Rightarrow> Inr (gm_put (pnRef node) (pnHash node) destination)) destination nodes"

fun fetch_partitions :: "hmf_db \<Rightarrow> (NodeRef, hash) gomap \<Rightarrow> nodePartition list \<Rightarrow> (hmf_db, (NodeRef, hash) gomap) outcome" where
  "fetch_partitions db nodes [] = (db, Inr nodes)"
| "fetch_partitions db nodes (prt # partitions) =
     sbind (fetchPartition db prt) (\<lambda>db fetched.
     sbind (db, mergeProofNodes nodes fetched) (\<lambda>db nodes. fetch_partitions db nodes partitions))"

definition node_ref_less :: "NodeRef \<Rightarrow> NodeRef \<Rightarrow> bool" where
  "node_ref_less left right =
     (if trLayer (nrTree left) \<noteq> trLayer (nrTree right) then trLayer (nrTree left) < trLayer (nrTree right)
      else if trRegionID (nrTree left) \<noteq> trRegionID (nrTree right) then trRegionID (nrTree left) < trRegionID (nrTree right)
      else if trShardID (nrTree left) \<noteq> trShardID (nrTree right) then trShardID (nrTree left) < trShardID (nrTree right)
      else if trSegmentID (nrTree left) \<noteq> trSegmentID (nrTree right) then trSegmentID (nrTree left) < trSegmentID (nrTree right)
      else if npLevel (nrPosition left) \<noteq> npLevel (nrPosition right) then npLevel (nrPosition left) < npLevel (nrPosition right)
      else npIndex (nrPosition left) < npIndex (nrPosition right))"

definition FetchProofNodes ::
  "(nodePartition list \<Rightarrow> nodePartition list) \<Rightarrow> hmf_db \<Rightarrow> ProofPlan \<Rightarrow> (hmf_db, ProofNode list) outcome" where
  "FetchProofNodes arrange db plan =
     sbind (swrap ''fetch HPP proof nodes: %w'' (fetch_partitions db [] (arrange (request_partitions plan)))) (\<lambda>db nodes.
       (db, Inr (sort_Slice (\<lambda>left right. node_ref_less (pnRef left) (pnRef right))
         (map (\<lambda>(ref, hash). \<lparr>pnRef = ref, pnHash = hash\<rparr>) nodes))))"

text \<open>The reader as the two readers of the proof service, on one state of the database.\<close>

definition NewHPPReader :: "bool \<Rightarrow> int \<Rightarrow> int result" where
  "NewHPPReader session maxConcurrency =
     (if \<not> session then Inl (Errorf ''new HPP reader: Cassandra session is nil'')
      else Inr (if maxConcurrency \<le> 0 then 8 else maxConcurrency))"

definition stored_forest ::
  "(metadata_query list \<Rightarrow> metadata_query list) \<Rightarrow> (nodePartition list \<Rightarrow> nodePartition list) \<Rightarrow> hmf_db \<Rightarrow> ProofService" where
  "stored_forest arrange arrange' db = \<lparr>svcMetadata = (\<lambda>addresses. snd (LoadHierarchyMetadata arrange db addresses)),
     svcNodes = (\<lambda>plan. snd (FetchProofNodes arrange' db plan))\<rparr>"

end
