(* ===== verification/HMF_Store_Properties.thy ===== *)
theory HMF_Store_Properties
  imports HPP_Reader
begin

text \<open>
  What the writer stores is what the planner asks for: a node of a tree has one place in the tables,
  the same for the writer and the reader, and different nodes have different places. So the stored
  nodes are a map from node references to hashes that each update extends.
\<close>

section \<open>Decimal numbers\<close>

lemma nat_digits_set: "c \<in> set (nat_digits n) \<Longrightarrow> \<exists>d < 10. c = char_of (48 + d :: nat)"
proof (induction n rule: nat_digits.induct)
  case (1 n)
  then show ?case by (subst (asm) (2) nat_digits.simps) (auto split: if_splits intro: exI [of _ "n mod 10"])
qed

lemma digit_bounds: "d < 10 \<Longrightarrow> char_of (48 + d :: nat) \<notin> {CHR ''S'', CHR ''-''}"
proof -
  assume "d < 10"
  then have "of_char (char_of (48 + d :: nat)) = 48 + d" by (simp add: of_char_of)
  then have "of_char (char_of (48 + d :: nat)) \<noteq> (of_char (CHR ''S'') :: nat)" "of_char (char_of (48 + d :: nat)) \<noteq> (of_char (CHR ''-'') :: nat)"
    using \<open>d < 10\<close> by simp_all
  then show ?thesis by (metis insertE singletonD)
qed

lemma nat_digits_chars: "CHR ''S'' \<notin> set (nat_digits n)" "CHR ''-'' \<notin> set (nat_digits n)"
proof -
  have "c \<notin> {CHR ''S'', CHR ''-''}" if c: "c \<in> set (nat_digits n)" for c
  proof -
    obtain d where d: "d < 10" "c = char_of (48 + d :: nat)" using nat_digits_set [OF c] by blast
    show ?thesis unfolding d(2) by (rule digit_bounds [OF d(1)])
  qed
  then show "CHR ''S'' \<notin> set (nat_digits n)" "CHR ''-'' \<notin> set (nat_digits n)" by blast+
qed

definition digits_value :: "string \<Rightarrow> nat" where
  "digits_value s = foldl (\<lambda>acc c. acc * 10 + (of_char c - 48)) 0 s"

lemma digits_value_nat_digits: "digits_value (nat_digits n) = n"
proof (induction n rule: nat_digits.induct)
  case (1 n)
  show ?case
  proof (cases "n < 10")
    case True
    then show ?thesis by (subst nat_digits.simps) (simp add: digits_value_def of_char_of)
  next
    case False
    then have "digits_value (nat_digits (n div 10)) = n div 10" using "1.IH" by simp
    then show ?thesis using False by (subst nat_digits.simps) (simp add: digits_value_def of_char_of)
  qed
qed

lemma nat_digits_inject: "nat_digits m = nat_digits n \<Longrightarrow> m = n"
  using digits_value_nat_digits by metis

lemma format_d_inject [simp]: "format_d a = format_d b \<longleftrightarrow> a = b"
proof
  assume eq: "format_d a = format_d b"
  have "x < 0 \<longleftrightarrow> CHR ''-'' \<in> set (format_d x)" for x using nat_digits_chars(2) by (simp add: format_d_def)
  then have "a < 0 \<longleftrightarrow> b < 0" using eq by simp
  moreover have "nat \<bar>a\<bar> = nat \<bar>b\<bar>"
    using eq calculation nat_digits_inject by (auto simp: format_d_def split: if_splits)
  ultimately show "a = b" by auto
qed simp

lemma format_d_no_S: "CHR ''S'' \<notin> set (format_d a)"
  using nat_digits_chars(1) by (simp add: format_d_def)

lemma last_separator:
  assumes "x @ c # u = y @ c # v" and "c \<notin> set u" and "c \<notin> set v"
  shows "x = y \<and> u = v"
proof -
  have t: "takeWhile (\<lambda>d. d \<noteq> c) (rev (z @ c # w)) = rev w" if "c \<notin> set w" for z w
    using that takeWhile_append2 [of "rev w" "\<lambda>d. d \<noteq> c" "c # rev z"] by auto
  have "rev u = rev v" using t [OF assms(2), of x] t [OF assms(3), of y] assms(1) by simp
  then show ?thesis using assms(1) by simp
qed

lemma scope_inject: "r @ '':S'' @ format_d a = r' @ '':S'' @ format_d b \<longleftrightarrow> r = r' \<and> a = b"
proof
  assume "r @ '':S'' @ format_d a = r' @ '':S'' @ format_d b"
  then have "(r @ '':'') @ CHR ''S'' # format_d a = (r' @ '':'') @ CHR ''S'' # format_d b" by simp
  from last_separator [OF this format_d_no_S format_d_no_S] show "r = r' \<and> a = b" by simp
qed simp

section \<open>Places\<close>

text \<open>Where the planner asks for a node.\<close>

definition place :: "NodeRef \<Rightarrow> partition_keys \<times> node_key" where
  "place ref = (let tree = nrTree ref; position = nrPosition ref in
     (if trLayer tree = LayerSegment then SegmentPartition (trRegionID tree, trShardID tree, trSegmentID tree)
      else UpperPartition (upperScope tree position), (npLevel position, npIndex position)))"

definition canonical :: "TreeRef \<Rightarrow> bool" where
  "canonical t \<longleftrightarrow> (\<exists>k. t = segmentTree k) \<or> (\<exists>k. t = shardTree k) \<or> (\<exists>r. t = regionTree r) \<or> t = globalTree"

lemmas layer_defs = LayerSegment_def LayerShard_def LayerRegion_def LayerGlobal_def
lemmas tree_defs = segmentTree_def shardTree_def regionTree_def globalTree_def layer_defs

lemma place_trees:
  "place (mk_ref (segmentTree k) p) = (SegmentPartition (skRegionID k, skShardID k, skSegmentID k), (npLevel p, npIndex p))"
  "place (mk_ref (shardTree h) p) = (UpperPartition (''SHARD'', hkRegionID h @ '':S'' @ format_d (hkShardID h), shardBucketID (npLevel p) (npIndex p)), (npLevel p, npIndex p))"
  "place (mk_ref (regionTree r) p) = (UpperPartition (''REGION'', r, 0), (npLevel p, npIndex p))"
  "place (mk_ref globalTree p) = (UpperPartition (''GLOBAL'', ''GLOBAL'', 0), (npLevel p, npIndex p))"
  by (simp_all add: place_def upperScope_def tree_defs)

lemma place_inject:
  assumes "canonical (nrTree a)" and "canonical (nrTree b)" and "place a = place b"
  shows "a = b"
proof -
  obtain t p where a: "a = mk_ref t p" by (cases a) simp
  obtain u q where b: "b = mk_ref u q" by (cases b) simp
  have pos: "p = q" using assms(3) by (cases p; cases q) (simp add: place_def Let_def a b)
  have "canonical t" "canonical u" "fst (place (mk_ref t q)) = fst (place (mk_ref u q))" using assms by (simp_all add: a b pos)
  then have "t = u" unfolding canonical_def
    by (elim disjE exE) (simp_all add: place_trees scope_inject del: append_Cons append_Nil, simp_all add: segmentTree_def shardTree_def regionTree_def)
  with pos show ?thesis by (simp add: a b)
qed

definition node_bytes :: "hmf_db \<Rightarrow> partition_keys \<times> node_key \<Rightarrow> byte list option" where
  "node_bytes db = (\<lambda>(keys, key). case keys of
     SegmentPartition part \<Rightarrow> map_option snNodeHash (map_of (dbSegmentNodes db) (part, key))
   | UpperPartition part \<Rightarrow> map_option hnNodeHash (map_of (dbUpperNodes db) (part, key)))"

definition stored_node :: "hmf_db \<Rightarrow> NodeRef \<Rightarrow> byte list option" where
  "stored_node db ref = node_bytes db (place ref)"

section \<open>Writing\<close>

lemma hmf_same_tables: "same_tables db db' \<Longrightarrow> dbSegmentNodes db' = dbSegmentNodes db \<and> dbSegments db' = dbSegments db \<and>
    dbFrontiers db' = dbFrontiers db \<and> dbFrontierDeletions db' = dbFrontierDeletions db \<and> dbUpperNodes db' = dbUpperNodes db \<and> dbStates db' = dbStates db"
  for db db' :: hmf_db
  by (cases db; cases db') (simp add: same_tables_def)

lemma node_bytes_cong: "dbSegmentNodes db' = dbSegmentNodes db \<Longrightarrow> dbUpperNodes db' = dbUpperNodes db \<Longrightarrow> node_bytes db' = node_bytes db"
  by (auto simp: node_bytes_def fun_eq_iff split: partition_keys.splits)

lemma same_tables_bytes: "same_tables db db' \<Longrightarrow> node_bytes db' = node_bytes db"
  using hmf_same_tables by (intro node_bytes_cong) auto

definition segment_place :: "SegmentNode \<Rightarrow> partition_keys \<times> node_key" where
  "segment_place n = (SegmentPartition (snRegionID n, snShardID n, snSegmentID n), (snLevel n, snNodeIndex n))"

definition upper_place :: "HMFNode \<Rightarrow> partition_keys \<times> node_key" where
  "upper_place n = (UpperPartition (upper_part_of n), (hnLevel n, hnNodeIndex n))"

lemma put_segment_bytes: "node_bytes (put_segment_node n db) = (node_bytes db)(segment_place n \<mapsto> snNodeHash n)"
  by (auto simp: node_bytes_def put_segment_node_def segment_place_def fun_eq_iff split: partition_keys.splits)

lemma put_upper_bytes: "node_bytes (put_upper_node n db) = (node_bytes db)(upper_place n \<mapsto> hnNodeHash n)"
  by (auto simp: node_bytes_def put_upper_node_def upper_place_def fun_eq_iff split: partition_keys.splits)

lemma put_segments_bytes:
  "node_bytes (foldl (\<lambda>db n. put_segment_node n db) db ns) = node_bytes db ++ map_of (rev (map (\<lambda>n. (segment_place n, snNodeHash n)) ns))"
  by (induction ns arbitrary: db) (simp_all add: put_segment_bytes)

lemma put_uppers_bytes:
  "node_bytes (foldl (\<lambda>db n. put_upper_node n db) db ns) = node_bytes db ++ map_of (rev (map (\<lambda>n. (upper_place n, hnNodeHash n)) ns))"
  by (induction ns arbitrary: db) (simp_all add: put_upper_bytes)

lemma segment_nodes_written:
  assumes "SegmentRepo_UpsertNodes db ns = (db', Inr ())"
  shows "node_bytes db' = node_bytes db ++ map_of (rev (map (\<lambda>n. (segment_place n, snNodeHash n)) ns))"
  using assms
  by (auto simp: SegmentRepo_UpsertNodes_def swrap_eq_Inr put_segments_bytes same_tables_bytes dest!: exec_statement_Inr split: if_splits)

lemma node_batches_written:
  assumes "foldl exec_node_batch (db, err) batches = (db', None)"
  shows "err = None \<and> node_bytes db' = node_bytes db ++ map_of (rev (map (\<lambda>n. (upper_place n, hnNodeHash n)) (concat batches)))"
  using assms
proof (induction batches arbitrary: db err)
  case (Cons batch batches)
  obtain db1 res where e: "exec_statement db (\<lambda>db. foldl (\<lambda>db n. put_upper_node n db) db batch) = (db1, res)" by fastforce
  show ?case
  proof (cases res)
    case (Inl x)
    with Cons.prems e have "foldl exec_node_batch (db1, if err = None then Some x else err) batches = (db', None)" by (simp add: exec_node_batch_def)
    then show ?thesis using Cons.IH by (fastforce split: if_splits)
  next
    case (Inr u)
    with Cons.prems e have rest: "foldl exec_node_batch (db1, err) batches = (db', None)" by (simp add: exec_node_batch_def)
    have "node_bytes db1 = node_bytes db ++ map_of (rev (map (\<lambda>n. (upper_place n, hnNodeHash n)) batch))"
      using exec_statement_Inr [OF e [unfolded Inr]] by (auto simp: put_uppers_bytes same_tables_bytes)
    then show ?thesis using Cons.IH [OF rest] by (simp add: map_add_assoc)
  qed
qed simp

lemma upper_nodes_written:
  assumes "HMFRepo_UpsertNodes arrange db ns = (db', Inr ())" and "arranges arrange"
  shows "node_bytes db' = node_bytes db ++ map_of (rev (map (\<lambda>n. (upper_place n, hnNodeHash n)) ns))"
proof (cases "ns = []")
  case True
  then show ?thesis using assms(1) by (simp add: HMFRepo_UpsertNodes_def)
next
  case False
  have g: "foldl add_to_upper_part [] ns = group_rows upper_part_of ns" by (simp add: group_rows_def add_to_upper_part_def [abs_def])
  have "foldl exec_node_batch (db, None) (map snd (arrange (group_rows upper_part_of ns))) = (db', None)"
    using assms(1) False g by (auto simp: HMFRepo_UpsertNodes_def Let_def split: prod.splits option.splits)
  from node_batches_written [OF this]
  have "node_bytes db' = node_bytes db ++ map_of (rev (map (\<lambda>n. (upper_place n, hnNodeHash n)) (concat (map snd (arrange (group_rows upper_part_of ns))))))" by simp
  also have "map_of (rev (map (\<lambda>n. (upper_place n, hnNodeHash n)) (concat (map snd (arrange (group_rows upper_part_of ns)))))) =
      map_of (rev (map (\<lambda>n. (upper_place n, hnNodeHash n)) ns))"
    by (rule arranged_groups [OF assms(2)]) (simp add: upper_place_def)
  finally show ?thesis .
qed

lemma put_frontiers_bytes: "node_bytes (foldl (\<lambda>db f. put_frontier r s now f db) db fs) = node_bytes db"
proof (induction fs arbitrary: db)
  case (Cons f fs)
  have "node_bytes (put_frontier r s now f db) = node_bytes db" by (rule node_bytes_cong) (simp_all add: put_frontier_def)
  with Cons show ?case by simp
qed simp

lemma others_keep_bytes:
  "UpsertSegment cq db segment = (db', Inr ()) \<Longrightarrow> node_bytes db' = node_bytes db"
  "ReplaceFrontiers now db r s fs = (db', Inr ()) \<Longrightarrow> node_bytes db' = node_bytes db"
  "HMFRepo_UpsertTreeState cq db state = (db', Inr ()) \<Longrightarrow> node_bytes db' = node_bytes db"
proof -
  have keep: "node_bytes (db\<lparr>dbSegments := a\<rparr>) = node_bytes db" "node_bytes (db\<lparr>dbStates := b\<rparr>) = node_bytes db"
    "node_bytes (db\<lparr>dbFrontierDeletions := c\<rparr>) = node_bytes db" for db a b c by (rule node_bytes_cong; simp)+
  show "UpsertSegment cq db segment = (db', Inr ()) \<Longrightarrow> node_bytes db' = node_bytes db"
    by (auto simp: UpsertSegment_def swrap_eq_Inr keep same_tables_bytes dest!: exec_statement_Inr)
  show "ReplaceFrontiers now db r s fs = (db', Inr ()) \<Longrightarrow> node_bytes db' = node_bytes db"
    by (auto simp: ReplaceFrontiers_def swrap_eq_Inr put_frontiers_bytes keep same_tables_bytes dest!: exec_statement_Inr)
  show "HMFRepo_UpsertTreeState cq db state = (db', Inr ()) \<Longrightarrow> node_bytes db' = node_bytes db"
    by (auto simp: HMFRepo_UpsertTreeState_def swrap_eq_Inr keep same_tables_bytes dest!: exec_statement_Inr)
qed

lemma upsert_states_bytes: "upsert_states cq db states = (db', Inr ()) \<Longrightarrow> node_bytes db' = node_bytes db"
  by (induction states arbitrary: db) (auto simp: sbind_eq_Inr dest: others_keep_bytes(3))

section \<open>The nodes of an update\<close>

definition tree_nodes :: "TreeRef \<Rightarrow> MerkleNode list \<Rightarrow> (NodeRef \<times> hash) list" where
  "tree_nodes tree nodes = map (\<lambda>n. (mk_ref tree (mk_pos (mnLevel n) (mnIndex n)), mnHash n)) nodes"

definition update_nodes :: "HMFUpdate \<Rightarrow> (NodeRef \<times> hash) list" where
  "update_nodes u = (let r = tidRegionID (SegmentTreeID u); s = tidShardID (SegmentTreeID u); g = tidSegmentID (SegmentTreeID u) in
     tree_nodes (segmentTree \<lparr>skRegionID = r, skShardID = s, skSegmentID = g\<rparr>) (SegmentNodes u) @
     tree_nodes (shardTree \<lparr>hkRegionID = r, hkShardID = s\<rparr>) (ShardNodes u) @ tree_nodes (regionTree r) (RegionNodes u) @
     tree_nodes globalTree (GlobalNodes u))"

definition typed_update :: "HMFUpdate \<Rightarrow> bool" where
  "typed_update u \<longleftrightarrow> (\<forall>n \<in> set (SegmentNodes u @ ShardNodes u @ RegionNodes u @ GlobalNodes u). wrap32 (mnLevel n) = mnLevel n)"

lemma placed_nodes:
  assumes "typed_update u"
  shows "map (\<lambda>n. (segment_place n, snNodeHash n)) (segmentNodes (SegmentTreeID u) (SegmentNodes u)) @
     map (\<lambda>n. (upper_place n, hnNodeHash n)) (hmfNodes ''SHARD'' (tidRegionID (SegmentTreeID u) @ '':S'' @ format_d (tidShardID (SegmentTreeID u))) (ShardNodes u)) @
     map (\<lambda>n. (upper_place n, hnNodeHash n)) (hmfNodes ''REGION'' (tidRegionID (SegmentTreeID u)) (RegionNodes u)) @
     map (\<lambda>n. (upper_place n, hnNodeHash n)) (hmfNodes ''GLOBAL'' ''GLOBAL'' (GlobalNodes u)) =
     map (\<lambda>(ref, h). (place ref, hash_bytes h)) (update_nodes u)"
proof -
  have bucket: "hmfBucketID ''SHARD'' l i = shardBucketID l i" for l i by (simp add: hmfBucketID_def shardBucketID_def shardBucketLevel_def)
  show ?thesis using assms
    by (simp add: update_nodes_def Let_def tree_nodes_def place_trees segmentNodes_def hmfNodes_def hashBytes_def segment_place_def upper_place_def
        upper_part_of_def bucket hmfBucketID_def [of "''REGION''"] hmfBucketID_def [of "''GLOBAL''"] typed_update_def comp_def)
qed

lemma update_written:
  assumes "PersistSealedUpdate arrange now cq db u = (db', Inr ())" and "arranges arrange" and "typed_update u"
  shows "node_bytes db' = node_bytes db ++ map_of (rev (map (\<lambda>(ref, h). (place ref, hash_bytes h)) (update_nodes u)))"
proof -
  from assms(1) obtain d1 d2 d3 d4 d5 d6 where
    w: "SegmentRepo_UpsertNodes db (segmentNodes (SegmentTreeID u) (SegmentNodes u)) = (d1, Inr ())"
      "UpsertSegment cq d1 (sealed_segment u) = (d2, Inr ())"
      "HMFRepo_UpsertNodes arrange d2 (hmfNodes ''SHARD'' (tidRegionID (SegmentTreeID u) @ '':S'' @ format_d (tidShardID (SegmentTreeID u))) (ShardNodes u)) = (d3, Inr ())"
      "HMFRepo_UpsertNodes arrange d3 (hmfNodes ''REGION'' (tidRegionID (SegmentTreeID u)) (RegionNodes u)) = (d4, Inr ())"
      "HMFRepo_UpsertNodes arrange d4 (hmfNodes ''GLOBAL'' ''GLOBAL'' (GlobalNodes u)) = (d5, Inr ())"
      "ReplaceFrontiers now d5 (tidRegionID (SegmentTreeID u)) (tidShardID (SegmentTreeID u)) (shardFrontiers (ShardFrontiers u)) = (d6, Inr ())"
      "upsert_states cq d6 (tree_states u) = (db', Inr ())"
    by (auto simp: PersistSealedUpdate_def Let_def sbind_eq_Inr persistTreeStates_def split: if_splits)
  show ?thesis unfolding placed_nodes [OF assms(3), symmetric]
    using segment_nodes_written [OF w(1)] others_keep_bytes(1) [OF w(2)] upper_nodes_written [OF w(3) assms(2)]
      upper_nodes_written [OF w(4) assms(2)] upper_nodes_written [OF w(5) assms(2)] others_keep_bytes(2) [OF w(6)] upsert_states_bytes [OF w(7)]
    by (simp add: map_add_assoc)
qed

lemma updates_written:
  assumes "PersistUpdates arrange cq db (map (\<lambda>(t, u). UpdateReceived t u) us) = (db', Inr done)" and "arranges arrange" and "\<forall>(t, u) \<in> set us. typed_update u"
  shows "node_bytes db' = node_bytes db ++ map_of (rev (map (\<lambda>(ref, h). (place ref, hash_bytes h)) (concat (map (\<lambda>(t, u). update_nodes u) us))))"
  using assms(1,3)
proof (induction us arbitrary: db)
  case (Cons x us)
  obtain t u where x: "x = (t, u)" by fastforce
  obtain d1 where d1: "PersistSealedUpdate arrange t cq db u = (d1, Inr ())" "PersistUpdates arrange cq d1 (map (\<lambda>(t, u). UpdateReceived t u) us) = (db', Inr done)"
    using Cons.prems(1) by (auto simp: x sbind_eq_Inr)
  have "typed_update u" using Cons.prems(2) x by simp
  from update_written [OF d1(1) assms(2) this] Cons.IH [OF d1(2)] Cons.prems(2) show ?case by (simp add: x map_add_assoc)
qed simp

lemma update_nodes_canonical: "ref \<in> fst ` set (update_nodes u) \<Longrightarrow> canonical (nrTree ref)"
  by (auto simp: update_nodes_def Let_def tree_nodes_def canonical_def)

lemma placed_lookup:
  assumes "\<forall>r \<in> fst ` set ns. canonical (nrTree r)" and "canonical (nrTree ref)"
  shows "map_of (rev (map (\<lambda>(r, h). (place r, hash_bytes h)) ns)) (place ref) = map_option hash_bytes (map_of (rev ns) ref)"
  using assms(1)
proof (induction ns rule: rev_induct)
  case (snoc x ns)
  obtain r h where x: "x = (r, h)" by fastforce
  have "place ref = place r \<longleftrightarrow> ref = r" using place_inject [of ref r] snoc.prems assms(2) by (auto simp: x)
  with snoc show ?case by (simp add: x)
qed simp

text \<open>The stored nodes after a run of updates: the last update that has a node decides.\<close>

lemma stored_after:
  assumes "PersistUpdates arrange cq db (map (\<lambda>(t, u). UpdateReceived t u) us) = (db', Inr done)" and "arranges arrange" and "\<forall>(t, u) \<in> set us. typed_update u"
    and "canonical (nrTree ref)"
  shows "stored_node db' ref = (case map_of (rev (concat (map (\<lambda>(t, u). update_nodes u) us))) ref of Some h \<Rightarrow> Some (hash_bytes h) | None \<Rightarrow> stored_node db ref)"
proof -
  let ?ns = "concat (map (\<lambda>(t, u). update_nodes u) us)"
  have "\<forall>r \<in> fst ` set ?ns. canonical (nrTree r)" using update_nodes_canonical by fastforce
  from placed_lookup [OF this assms(4)] show ?thesis
    by (auto simp: stored_node_def updates_written [OF assms(1-3)] map_add_def split: option.splits)
qed

section \<open>Reading a partition\<close>

lemma map_filter_Some: "(\<And>x. x \<in> set xs \<Longrightarrow> f x = Some (g x)) \<Longrightarrow> List.map_filter f xs = map g xs"
  by (induction xs) (simp_all add: List.map_filter_simps)

text \<open>The reference of a position in a partition.\<close>

definition part_ref :: "nodePartition \<Rightarrow> node_key \<Rightarrow> NodeRef" where
  "part_ref prt k = mk_ref (ppnTree prt) (mk_pos (fst k) (snd k))"

lemma stored_rows_eq:
  assumes "\<And>k. k \<in> set (ppnPositions prt) \<Longrightarrow> node_bytes db (ppnKeys prt, k) = Some (b k)"
  shows "stored_rows db prt = map (\<lambda>k. (k, b k)) (sort_Slice node_key_less (remdups (ppnPositions prt)))"
proof -
  let ?ks = "sort_Slice node_key_less (remdups (ppnPositions prt))"
  have sel: "map (map_prod id f) (List.map_filter (\<lambda>key. map_option (Pair key) (T key)) ks) = List.map_filter (\<lambda>key. map_option (Pair key) (map_option f (T key))) ks"
    for f :: "'r \<Rightarrow> byte list" and T and ks :: "node_key list"
    by (induction ks) (auto simp: List.map_filter_simps split: option.splits)
  have "stored_rows db prt = List.map_filter (\<lambda>k. map_option (Pair k) (node_bytes db (ppnKeys prt, k))) ?ks"
    by (cases "ppnKeys prt") (simp_all add: stored_rows_def select_rows_def sel node_bytes_def)
  also have "\<dots> = map (\<lambda>k. (k, b k)) ?ks" by (rule map_filter_Some) (simp add: assms)
  finally show ?thesis .
qed

lemma convert_rows:
  "rfold (\<lambda>nodes ((level, index), hash). rbind (proofHash hash) (\<lambda>converted.
      Inr (nodes @ [\<lparr>pnRef = mk_ref t (mk_pos level index), pnHash = converted\<rparr>]))) acc (map (\<lambda>k. (k, hash_bytes (h k))) ks) =
    Inr (acc @ map (\<lambda>k. \<lparr>pnRef = mk_ref t (mk_pos (fst k) (snd k)), pnHash = h k\<rparr>) ks)"
  by (induction ks arbitrary: acc) (auto simp: proofHash_def)

lemma fetchPartition_ok:
  assumes "dbOutcomes db = []" and "\<And>k. k \<in> set (ppnPositions prt) \<Longrightarrow> node_bytes db (ppnKeys prt, k) = Some (hash_bytes (h (part_ref prt k)))"
  shows "\<exists>nodes. fetchPartition db prt = (db, Inr nodes) \<and> set nodes = (\<lambda>r. \<lparr>pnRef = r, pnHash = h r\<rparr>) ` part_ref prt ` set (ppnPositions prt)"
proof -
  let ?ks = "sort_Slice node_key_less (remdups (ppnPositions prt))"
  have rows: "stored_rows db prt = map (\<lambda>k. (k, hash_bytes (h (part_ref prt k)))) ?ks" using assms(2) by (rule stored_rows_eq)
  have all: "\<not> (\<exists>position \<in> set (ppnPositions prt). position \<notin> fst ` set (stored_rows db prt))" unfolding rows by force
  have "fetchPartition db prt = (db, Inr (map (\<lambda>k. \<lparr>pnRef = part_ref prt k, pnHash = h (part_ref prt k)\<rparr>) ?ks))"
    using assms(1) all by (simp add: fetchPartition_def scan_rows_def rows convert_rows part_ref_def)
  then show ?thesis by (intro exI conjI) (assumption, auto)
qed

lemma merge_ok:
  assumes "gm_wf dest" and "\<forall>(r, x) \<in> set dest. x = h r" and "\<forall>n \<in> set nodes. pnHash n = h (pnRef n)"
  shows "\<exists>dest'. mergeProofNodes dest nodes = Inr dest' \<and> gm_wf dest' \<and> (\<forall>(r, x) \<in> set dest'. x = h r) \<and> set (gm_keys dest') = set (gm_keys dest) \<union> pnRef ` set nodes"
  using assms
proof (induction nodes arbitrary: dest)
  case Nil
  then show ?case by (simp add: mergeProofNodes_def)
next
  case (Cons n nodes)
  let ?d = "gm_put (pnRef n) (pnHash n) dest"
  have same: "map_of dest (pnRef n) = Some x \<Longrightarrow> x = pnHash n" for x
    using Cons.prems(2,3) by (auto dest!: map_of_SomeD)
  have vals: "\<forall>(r, x) \<in> set ?d. x = h r"
    using Cons.prems by (auto simp: gm_mem_iff split: if_splits)
  obtain dest' where "mergeProofNodes ?d nodes = Inr dest'" "gm_wf dest'" "\<forall>(r, x) \<in> set dest'. x = h r"
    "set (gm_keys dest') = set (gm_keys ?d) \<union> pnRef ` set nodes"
    using Cons.IH [of ?d] Cons.prems vals by auto
  moreover have "mergeProofNodes dest (n # nodes) = mergeProofNodes ?d nodes"
    using same by (auto simp: mergeProofNodes_def split: option.splits)
  moreover have "set (gm_keys ?d) = insert (pnRef n) (set (gm_keys dest))" by (rule gm_keys_put)
  ultimately show ?case by auto
qed

lemma fetch_partitions_ok:
  assumes "dbOutcomes db = []" and "\<And>prt k. prt \<in> set parts \<Longrightarrow> k \<in> set (ppnPositions prt) \<Longrightarrow> node_bytes db (ppnKeys prt, k) = Some (hash_bytes (h (part_ref prt k)))"
    and "gm_wf dest" and "\<forall>(r, x) \<in> set dest. x = h r"
  shows "\<exists>dest'. fetch_partitions db dest parts = (db, Inr dest') \<and> gm_wf dest' \<and> (\<forall>(r, x) \<in> set dest'. x = h r) \<and>
    set (gm_keys dest') = set (gm_keys dest) \<union> (\<Union>prt \<in> set parts. part_ref prt ` set (ppnPositions prt))"
  using assms(2-)
proof (induction parts arbitrary: dest)
  case (Cons prt parts)
  obtain nodes where n: "fetchPartition db prt = (db, Inr nodes)" "set nodes = (\<lambda>r. \<lparr>pnRef = r, pnHash = h r\<rparr>) ` part_ref prt ` set (ppnPositions prt)"
    using fetchPartition_ok [OF assms(1), of prt h] Cons.prems(1) by auto
  have refs: "pnRef ` set nodes = part_ref prt ` set (ppnPositions prt)" "\<forall>n \<in> set nodes. pnHash n = h (pnRef n)" unfolding n(2) by (auto simp: image_image)
  obtain d1 where d1: "mergeProofNodes dest nodes = Inr d1" "gm_wf d1" "\<forall>(r, x) \<in> set d1. x = h r" "set (gm_keys d1) = set (gm_keys dest) \<union> pnRef ` set nodes"
    using merge_ok [OF Cons.prems(2,3) refs(2)] by blast
  obtain d2 where "fetch_partitions db d1 parts = (db, Inr d2)" "gm_wf d2" "\<forall>(r, x) \<in> set d2. x = h r"
    "set (gm_keys d2) = set (gm_keys d1) \<union> (\<Union>prt \<in> set parts. part_ref prt ` set (ppnPositions prt))"
    using Cons.IH [of d1] Cons.prems(1) d1(2,3) by auto
  then show ?case using n(1) d1(1,4) refs(1) by auto
qed simp

section \<open>What a plan asks for\<close>

text \<open>Requests as triples of a tree, partition keys and a position.\<close>

type_synonym wanted = "TreeRef \<times> partition_keys \<times> node_key"

definition ref_wanted :: "NodeRef \<Rightarrow> wanted" where
  "ref_wanted ref = (nrTree ref, place ref)"

definition segment_keys_of :: "TreeRef \<Rightarrow> partition_keys" where
  "segment_keys_of t = SegmentPartition (trRegionID t, trShardID t, trSegmentID t)"

definition maps_wanted :: "request_maps \<Rightarrow> wanted set" where
  "maps_wanted = (\<lambda>(S, U).
     {(t, segment_keys_of t, (l, i)) | t l i. i \<in> set (gm_get [] (map_of S) (t, l))} \<union>
     {(ukTree k, UpperPartition (ukScopeType k, ukScopeID k, ukBucketID k), (ukLevel k, i)) | k i. i \<in> set (gm_get [] (map_of U) k)})"

definition planned_refs :: "TreePlan list \<Rightarrow> NodeRef set" where
  "planned_refs trees = {mk_ref (tpTree p) pos | p pos. p \<in> set trees \<and>
     (pos \<in> set (tpRequired p) \<or> trLayer (tpTree p) = LayerSegment \<and> npLevel pos = 0 \<and> npIndex pos \<in> set (tpTargets p))}"

lemma append_index_get: "gm_get [] (map_of (append_index k is m)) k' = gm_get [] (map_of m) k' @ (if k = k' then is else [])"
  by (auto simp: append_index_def gm_get_def)

lemma append_index_wf [simp]: "gm_wf m \<Longrightarrow> gm_wf (append_index k is m)"
  by (simp add: append_index_def)

lemma segments_append: "maps_wanted (append_index (t, l) is S, U) = maps_wanted (S, U) \<union> (\<lambda>i. (t, segment_keys_of t, (l, i))) ` set is"
  by (auto simp: maps_wanted_def append_index_get split: if_splits)

lemma uppers_append:
  "maps_wanted (S, append_index k is U) = maps_wanted (S, U) \<union> (\<lambda>i. (ukTree k, UpperPartition (ukScopeType k, ukScopeID k, ukBucketID k), (ukLevel k, i))) ` set is"
  by (auto simp: maps_wanted_def append_index_get split: if_splits)

lemma position_wanted:
  assumes "trLayer t \<in> {LayerSegment, LayerShard, LayerRegion, LayerGlobal}"
  shows "maps_wanted (request_position t m p) = insert (ref_wanted (mk_ref t p)) (maps_wanted m)"
proof -
  obtain S U where m: "m = (S, U)" by fastforce
  obtain a b c where u: "upperScope t p = (a, b, c)" by (metis prod_cases3)
  show ?thesis
  proof (cases "trLayer t = LayerSegment")
    case True
    then show ?thesis by (simp add: m request_position_def segments_append ref_wanted_def place_def segment_keys_of_def)
  next
    case False
    then show ?thesis using assms by (auto simp: m request_position_def uppers_append ref_wanted_def place_def u)
  qed
qed

lemma tree_wanted:
  assumes "canonical (tpTree p)"
  shows "maps_wanted (request_tree m p) = maps_wanted m \<union> ref_wanted ` planned_refs [p]"
proof -
  obtain S U where m: "m = (S, U)" by fastforce
  have layer: "trLayer (tpTree p) \<in> {LayerSegment, LayerShard, LayerRegion, LayerGlobal}"
    using assms by (auto simp: canonical_def segmentTree_def shardTree_def regionTree_def globalTree_def)
  have fold: "maps_wanted (foldl (request_position (tpTree p)) m' ps) = maps_wanted m' \<union> (\<lambda>pos. ref_wanted (mk_ref (tpTree p) pos)) ` set ps" for m' ps
    by (induction ps arbitrary: m') (auto simp: position_wanted [OF layer])
  have target: "(\<lambda>i. (tpTree p, segment_keys_of (tpTree p), (0, i))) ` I = (\<lambda>i. ref_wanted (mk_ref (tpTree p) (mk_pos 0 i))) ` I"
    if "trLayer (tpTree p) = LayerSegment" for I using that by (simp add: ref_wanted_def place_def segment_keys_of_def Let_def)
  have refs: "ref_wanted ` planned_refs [p] = (\<lambda>pos. ref_wanted (mk_ref (tpTree p) pos)) ` set (tpRequired p) \<union>
      (if trLayer (tpTree p) = LayerSegment then (\<lambda>i. ref_wanted (mk_ref (tpTree p) (mk_pos 0 i))) ` set (tpTargets p) else {})"
    by (auto simp: planned_refs_def image_iff) (metis NodePosition.surjective old.unit.exhaust)
  show ?thesis
    by (auto simp: request_tree_def m Let_def fold segments_append target refs)
qed

lemma requests_wanted:
  assumes "\<forall>p \<in> set trees. canonical (tpTree p)"
  shows "maps_wanted (foldl request_tree m trees) = maps_wanted m \<union> ref_wanted ` planned_refs trees"
  using assms
proof (induction trees arbitrary: m)
  case (Cons p trees)
  have "planned_refs (p # trees) = planned_refs [p] \<union> planned_refs trees" by (auto simp: planned_refs_def)
  with Cons show ?case by (simp add: tree_wanted image_Un Un_assoc)
qed (simp add: planned_refs_def)

lemma requests_wf: "gm_wf (fst m) \<and> gm_wf (snd m) \<Longrightarrow> gm_wf (fst (foldl request_tree m trees)) \<and> gm_wf (snd (foldl request_tree m trees))"
proof (induction trees arbitrary: m)
  case (Cons p trees)
  have pos: "gm_wf (fst (request_position t m p)) \<and> gm_wf (snd (request_position t m p))" if "gm_wf (fst m) \<and> gm_wf (snd m)" for t m p
    using that by (cases m) (auto simp: request_position_def Let_def split: prod.splits)
  have fold: "gm_wf (fst (foldl (request_position t) m ps)) \<and> gm_wf (snd (foldl (request_position t) m ps))" if "gm_wf (fst m) \<and> gm_wf (snd m)" for t m ps
    using that by (induction ps arbitrary: m) (simp_all add: pos)
  have "gm_wf (fst (request_tree m p)) \<and> gm_wf (snd (request_tree m p))"
    using Cons.prems fold by (cases m) (simp add: request_tree_def Let_def)
  with Cons.IH show ?case by simp
qed simp

definition plan_wanted :: "SegmentRequest list \<Rightarrow> UpperRequest list \<Rightarrow> wanted set" where
  "plan_wanted segments uppers =
     {(srTree r, SegmentPartition (srRegionID r, srShardID r, srSegmentID r), (srLevel r, i)) | r i. r \<in> set segments \<and> i \<in> set (srNodeIndexes r)} \<union>
     {(urTree r, UpperPartition (urScopeType r, urScopeID r, urBucketID r), (urLevel r, i)) | r i. r \<in> set uppers \<and> i \<in> set (urNodeIndexes r)}"

lemma gm_get_member: "gm_wf m \<Longrightarrow> (\<exists>is. (k, is) \<in> set m \<and> i \<in> set is) \<longleftrightarrow> i \<in> set (gm_get [] (map_of m) k)"
  by (cases "map_of m k") (auto simp: gm_mem_iff gm_get_def)

lemma buildRequests_wanted:
  assumes "\<forall>p \<in> set trees. canonical (tpTree p)"
  shows "plan_wanted (fst (buildRequests trees)) (snd (buildRequests trees)) = ref_wanted ` planned_refs trees"
proof -
  obtain S U where m: "foldl request_tree ([], []) trees = (S, U)" by fastforce
  have wf: "gm_wf S" "gm_wf U" using requests_wf [of "([], [])" trees] m by (simp_all add: gm_wf_def)
  have 1: "{(srTree r, SegmentPartition (srRegionID r, srShardID r, srSegmentID r), (srLevel r, i)) | r i. r \<in> set (map segment_request S) \<and> i \<in> set (srNodeIndexes r)} =
      {(t, segment_keys_of t, (l, i)) | t l i. i \<in> set (gm_get [] (map_of S) (t, l))}" (is "?A = ?B")
  proof (intro set_eqI iffI)
    fix w assume "w \<in> ?A"
    then show "w \<in> ?B" using gm_get_member [OF wf(1)] by (auto simp: segment_request_def segment_keys_of_def) blast
  next
    fix w assume "w \<in> ?B"
    then obtain t l i where w: "w = (t, segment_keys_of t, (l, i))" "i \<in> set (gm_get [] (map_of S) (t, l))" by blast
    then obtain is' where "((t, l), is') \<in> set S" "i \<in> set is'" using gm_get_member [OF wf(1)] by blast
    then show "w \<in> ?A" by (force simp: w(1) segment_request_def segment_keys_of_def)
  qed
  have 2: "{(urTree r, UpperPartition (urScopeType r, urScopeID r, urBucketID r), (urLevel r, i)) | r i. r \<in> set (map upper_request U) \<and> i \<in> set (urNodeIndexes r)} =
      {(ukTree k, UpperPartition (ukScopeType k, ukScopeID k, ukBucketID k), (ukLevel k, i)) | k i. i \<in> set (gm_get [] (map_of U) k)}" (is "?A = ?B")
  proof (intro set_eqI iffI)
    fix w assume "w \<in> ?A"
    then show "w \<in> ?B" using gm_get_member [OF wf(2)] by (auto simp: upper_request_def) blast
  next
    fix w assume "w \<in> ?B"
    then obtain k i where w: "w = (ukTree k, UpperPartition (ukScopeType k, ukScopeID k, ukBucketID k), (ukLevel k, i))" "i \<in> set (gm_get [] (map_of U) k)" by blast
    then obtain is' where "(k, is') \<in> set U" "i \<in> set is'" using gm_get_member [OF wf(2)] by blast
    then show "w \<in> ?A" by (force simp: w(1) upper_request_def)
  qed
  have "plan_wanted (fst (buildRequests trees)) (snd (buildRequests trees)) = maps_wanted (S, U)"
    using 1 2 by (simp add: plan_wanted_def buildRequests_def m maps_wanted_def)
  then show ?thesis using requests_wanted [OF assms, of "([], [])"] by (simp add: m maps_wanted_def gm_get_def)
qed

section \<open>Partitions of a plan\<close>

definition parts_ok :: "node_parts \<Rightarrow> bool" where
  "parts_ok parts \<longleftrightarrow> gm_wf parts \<and> (\<forall>((t, k), prt) \<in> set parts. ppnTree prt = t \<and> ppnKeys prt = k \<and>
     (\<forall>part. k = SegmentPartition part \<longrightarrow> k = segment_keys_of t))"

definition parts_wanted :: "nodePartition list \<Rightarrow> wanted set" where
  "parts_wanted parts = {(ppnTree prt, ppnKeys prt, pos) | prt pos. prt \<in> set parts \<and> pos \<in> set (ppnPositions prt)}"

lemma add_request_ok:
  assumes "parts_ok parts" and "\<forall>part. k = SegmentPartition part \<longrightarrow> k = segment_keys_of t"
  shows "parts_ok (add_request t k l is parts)"
    and "parts_wanted (map snd (add_request t k l is parts)) = parts_wanted (map snd parts) \<union> (\<lambda>i. (t, k, (l, i))) ` set is"
proof -
  let ?old = "gm_get \<lparr>ppnTree = t, ppnKeys = k, ppnPositions = []\<rparr> (map_of parts) (t, k)"
  let ?new = "partition_add l is ?old"
  have wf: "gm_wf parts" using assms(1) by (simp add: parts_ok_def)
  have mem: "(x, prt) \<in> set (add_request t k l is parts) \<longleftrightarrow> (if x = (t, k) then prt = ?new else (x, prt) \<in> set parts)" for x prt
    using wf by (auto simp: add_request_def gm_mem_iff)
  have old: "ppnTree ?old = t \<and> ppnKeys ?old = k"
    using assms(1) by (cases "map_of parts (t, k)") (auto simp: gm_get_def parts_ok_def dest!: map_of_SomeD)
  then have new: "ppnTree ?new = t \<and> ppnKeys ?new = k \<and> set (ppnPositions ?new) = set (ppnPositions ?old) \<union> Pair l ` set is"
    by (simp add: partition_add_def)
  show "parts_ok (add_request t k l is parts)"
  proof -
    have "ppnTree prt = u \<and> ppnKeys prt = v \<and> (\<forall>part. v = SegmentPartition part \<longrightarrow> v = segment_keys_of u)"
      if "((u, v), prt) \<in> set (add_request t k l is parts)" for u v prt
      using that new assms by (auto simp: mem parts_ok_def split: if_splits)
    moreover have "gm_wf (add_request t k l is parts)" using wf by (simp add: add_request_def)
    ultimately show ?thesis unfolding parts_ok_def by blast
  qed
  have pos: "pos \<in> set (ppnPositions ?old) \<longleftrightarrow> (\<exists>prt. ((t, k), prt) \<in> set parts \<and> pos \<in> set (ppnPositions prt))" for pos
    using wf by (cases "map_of parts (t, k)") (auto simp: gm_get_def gm_mem_iff)
  have each: "(u, v, pos) \<in> parts_wanted (map snd ps) \<longleftrightarrow> (\<exists>prt. ((u, v), prt) \<in> set ps \<and> pos \<in> set (ppnPositions prt))" if ok: "parts_ok ps" for ps u v pos
  proof -
    have fields: "ppnTree prt = fst x \<and> ppnKeys prt = snd x" if "(x, prt) \<in> set ps" for x prt
      using bspec [OF conjunct2 [OF ok [unfolded parts_ok_def]] that] by (simp add: case_prod_unfold)
    have "(u, v, pos) \<in> parts_wanted (map snd ps) \<longleftrightarrow> (\<exists>x prt. (x, prt) \<in> set ps \<and> u = ppnTree prt \<and> v = ppnKeys prt \<and> pos \<in> set (ppnPositions prt))"
    proof -
      have "prt \<in> set (map snd ps) \<longleftrightarrow> (\<exists>x. (x, prt) \<in> set ps)" for prt by force
      then show ?thesis unfolding parts_wanted_def mem_Collect_eq prod.inject by blast
    qed
    also have "\<dots> \<longleftrightarrow> (\<exists>prt. ((u, v), prt) \<in> set ps \<and> pos \<in> set (ppnPositions prt))"
      using fields by (metis fst_conv prod.collapse snd_conv)
    finally show ?thesis .
  qed
  show "parts_wanted (map snd (add_request t k l is parts)) = parts_wanted (map snd parts) \<union> (\<lambda>i. (t, k, (l, i))) ` set is"
  proof (rule set_eqI)
    fix w :: wanted
    obtain u v pos where w: "w = (u, v, pos)" by (metis prod_cases3)
    have a: "w \<in> parts_wanted (map snd parts) \<longleftrightarrow> (\<exists>prt. ((u, v), prt) \<in> set parts \<and> pos \<in> set (ppnPositions prt))"
      unfolding w by (rule each [OF assms(1)])
    have b: "w \<in> parts_wanted (map snd (add_request t k l is parts)) \<longleftrightarrow> (\<exists>prt. ((u, v), prt) \<in> set (add_request t k l is parts) \<and> pos \<in> set (ppnPositions prt))"
      unfolding w by (rule each [OF \<open>parts_ok (add_request t k l is parts)\<close>])
    show "w \<in> parts_wanted (map snd (add_request t k l is parts)) \<longleftrightarrow> w \<in> parts_wanted (map snd parts) \<union> (\<lambda>i. (t, k, (l, i))) ` set is"
    proof (cases "(u, v) = (t, k)")
      case True
      then have "w \<in> (\<lambda>i. (t, k, (l, i))) ` set is \<longleftrightarrow> pos \<in> Pair l ` set is" by (auto simp: w)
      moreover have "w \<in> parts_wanted (map snd (add_request t k l is parts)) \<longleftrightarrow> pos \<in> set (ppnPositions ?new)" unfolding b mem using True by simp
      moreover have "w \<in> parts_wanted (map snd parts) \<longleftrightarrow> pos \<in> set (ppnPositions ?old)" unfolding a pos using True by simp
      ultimately show ?thesis using new by blast
    next
      case False
      then have "w \<notin> (\<lambda>i. (t, k, (l, i))) ` set is" by (auto simp: w)
      then show ?thesis unfolding a b mem Un_iff if_not_P [OF False] by blast
    qed
  qed
qed

lemma segment_keys_ok:
  assumes "parts_ok parts" and "segment_keys_of (srTree r) = SegmentPartition (srRegionID r, srShardID r, srSegmentID r)"
  shows "segment_keys parts r = segment_keys_of (srTree r)"
proof (cases "find (\<lambda>(key, prt). fst key = srTree r \<and> (case ppnKeys prt of SegmentPartition _ \<Rightarrow> True | _ \<Rightarrow> False)) parts")
  case None
  then show ?thesis using assms(2) by (simp add: segment_keys_def)
next
  case (Some x)
  obtain u v prt where x: "x = ((u, v), prt)" by (metis prod.collapse)
  have "x \<in> set parts" "u = srTree r" "case ppnKeys prt of SegmentPartition _ \<Rightarrow> True | _ \<Rightarrow> False"
    using Some by (auto simp: find_Some_iff x) (metis nth_mem)
  then show ?thesis using assms(1) Some by (auto simp: segment_keys_def parts_ok_def x split: partition_keys.splits)
qed

lemma request_partitions_wanted:
  assumes "\<forall>r \<in> set (ppSegmentRequests plan). segment_keys_of (srTree r) = SegmentPartition (srRegionID r, srShardID r, srSegmentID r)"
  shows "parts_wanted (request_partitions plan) = plan_wanted (ppSegmentRequests plan) (ppUpperRequests plan)"
proof -
  let ?f = "\<lambda>parts r. add_request (srTree r) (segment_keys parts r) (srLevel r) (srNodeIndexes r) parts"
  let ?g = "\<lambda>parts r. add_request (urTree r) (UpperPartition (urScopeType r, urScopeID r, urBucketID r)) (urLevel r) (urNodeIndexes r) parts"
  have seg: "parts_ok (foldl ?f parts rs) \<and> parts_wanted (map snd (foldl ?f parts rs)) = parts_wanted (map snd parts) \<union> plan_wanted rs []"
    if "parts_ok parts" "\<forall>r \<in> set rs. segment_keys_of (srTree r) = SegmentPartition (srRegionID r, srShardID r, srSegmentID r)" for parts rs
    using that
  proof (induction rs arbitrary: parts)
    case (Cons r rs)
    have k: "segment_keys parts r = segment_keys_of (srTree r)" using segment_keys_ok Cons.prems by simp
    have ok: "parts_ok (?f parts r)" using add_request_ok(1) [OF Cons.prems(1), of "segment_keys parts r" "srTree r"] k by simp
    have "parts_wanted (map snd (?f parts r)) = parts_wanted (map snd parts) \<union> (\<lambda>i. (srTree r, segment_keys_of (srTree r), (srLevel r, i))) ` set (srNodeIndexes r)"
      using add_request_ok(2) [OF Cons.prems(1), of "segment_keys parts r" "srTree r"] k by simp
    then show ?case using Cons.IH [OF ok] Cons.prems(2) ok by (auto simp: plan_wanted_def)
  qed (simp add: plan_wanted_def)
  have up: "parts_ok (foldl ?g parts rs) \<and> parts_wanted (map snd (foldl ?g parts rs)) = parts_wanted (map snd parts) \<union> plan_wanted [] rs"
    if "parts_ok parts" for parts rs
    using that
  proof (induction rs arbitrary: parts)
    case (Cons r rs)
    have ok: "parts_ok (?g parts r)" by (rule add_request_ok(1) [OF Cons.prems]) simp
    have "parts_wanted (map snd (?g parts r)) = parts_wanted (map snd parts) \<union>
        (\<lambda>i. (urTree r, UpperPartition (urScopeType r, urScopeID r, urBucketID r), (urLevel r, i))) ` set (urNodeIndexes r)"
      by (rule add_request_ok(2) [OF Cons.prems]) simp
    then show ?case using Cons.IH [OF ok] ok by (auto simp: plan_wanted_def)
  qed (simp add: plan_wanted_def)
  have "parts_ok []" "parts_wanted (map snd []) = {}" by (simp_all add: parts_ok_def gm_wf_def parts_wanted_def)
  then show ?thesis unfolding request_partitions_def
    using up [OF seg [OF _ assms, THEN conjunct1]] seg [OF _ assms] by (auto simp: plan_wanted_def)
qed

lemma buildRequests_segments:
  "\<forall>r \<in> set (fst (buildRequests trees)). segment_keys_of (srTree r) = SegmentPartition (srRegionID r, srShardID r, srSegmentID r)"
  by (auto simp: buildRequests_def segment_request_def segment_keys_of_def split: prod.splits)

text \<open>What the reader returns for a plan whose nodes are all stored.\<close>

lemma fetched_nodes:
  assumes "dbOutcomes db = []" and "arranges arrange" and "\<forall>p \<in> set trees. canonical (tpTree p)"
    and "(ppSegmentRequests plan, ppUpperRequests plan) = buildRequests trees"
    and "\<And>ref. ref \<in> planned_refs trees \<Longrightarrow> stored_node db ref = Some (hash_bytes (h ref))"
  shows "\<exists>nodes. FetchProofNodes arrange db plan = (db, Inr nodes) \<and> distinct (map pnRef nodes) \<and>
    set nodes = (\<lambda>ref. \<lparr>pnRef = ref, pnHash = h ref\<rparr>) ` planned_refs trees"
proof -
  have req: "ppSegmentRequests plan = fst (buildRequests trees)" "ppUpperRequests plan = snd (buildRequests trees)" using assms(4) by (metis fst_conv, metis snd_conv)
  have wanted: "parts_wanted (request_partitions plan) = ref_wanted ` planned_refs trees"
    using request_partitions_wanted [of plan] buildRequests_segments buildRequests_wanted [OF assms(3)] by (simp add: req)
  have parts: "set (arrange (request_partitions plan)) = set (request_partitions plan)" using assms(2) by (metis arranges_def set_mset_mset)
  have one: "part_ref prt k \<in> planned_refs trees \<and> place (part_ref prt k) = (ppnKeys prt, k)" if p: "prt \<in> set (request_partitions plan)" "k \<in> set (ppnPositions prt)" for prt k
  proof -
    have "(ppnTree prt, ppnKeys prt, k) \<in> parts_wanted (request_partitions plan)" using p unfolding parts_wanted_def by blast
    then obtain ref where ref: "ref \<in> planned_refs trees" "ppnTree prt = nrTree ref" "(ppnKeys prt, k) = place ref"
      unfolding wanted by (auto simp: ref_wanted_def)
    have "k = (npLevel (nrPosition ref), npIndex (nrPosition ref))" using ref(3) by (simp add: place_def Let_def)
    then have "part_ref prt k = ref" using ref(2) by (cases ref) (auto simp: part_ref_def)
    with ref show ?thesis by simp
  qed
  have refs: "(\<Union>prt \<in> set (request_partitions plan). part_ref prt ` set (ppnPositions prt)) = planned_refs trees"
  proof (intro equalityI subsetI)
    fix ref assume "ref \<in> planned_refs trees"
    then have "ref_wanted ref \<in> parts_wanted (request_partitions plan)" using wanted by blast
    then obtain prt pos where p: "prt \<in> set (request_partitions plan)" "pos \<in> set (ppnPositions prt)" "ref_wanted ref = (ppnTree prt, ppnKeys prt, pos)"
      unfolding parts_wanted_def by blast
    then have "part_ref prt pos = ref" by (cases ref) (auto simp: ref_wanted_def place_def part_ref_def Let_def)
    then show "ref \<in> (\<Union>prt \<in> set (request_partitions plan). part_ref prt ` set (ppnPositions prt))" using p by blast
  qed (use one in blast)
  have "\<exists>dest'. fetch_partitions db [] (arrange (request_partitions plan)) = (db, Inr dest') \<and> gm_wf dest' \<and> (\<forall>(r, x) \<in> set dest'. x = h r) \<and>
      set (gm_keys dest') = set (gm_keys ([] :: (NodeRef, hash) gomap)) \<union> (\<Union>prt \<in> set (arrange (request_partitions plan)). part_ref prt ` set (ppnPositions prt))"
    by (rule fetch_partitions_ok [OF assms(1)]) (use one assms(5) parts in \<open>auto simp: stored_node_def gm_wf_def\<close>, metis one)
  then obtain dest where d: "fetch_partitions db [] (arrange (request_partitions plan)) = (db, Inr dest)" "gm_wf dest" "\<forall>(r, x) \<in> set dest. x = h r"
    "set (gm_keys dest) = planned_refs trees" unfolding parts refs by auto
  let ?nodes = "sort_Slice (\<lambda>left right. node_ref_less (pnRef left) (pnRef right)) (map (\<lambda>(ref, hash). \<lparr>pnRef = ref, pnHash = hash\<rparr>) dest)"
  have "FetchProofNodes arrange db plan = (db, Inr ?nodes)" using d(1) by (simp add: FetchProofNodes_def swrap_def)
  moreover have "distinct (map pnRef ?nodes)"
  proof -
    have "mset (map pnRef ?nodes) = mset (gm_keys dest)" by (simp add: comp_def case_prod_unfold multiset.map_comp)
    then show ?thesis using d(2) unfolding gm_wf_def by (metis mset_eq_imp_distinct_iff)
  qed
  moreover have "set ?nodes = (\<lambda>ref. \<lparr>pnRef = ref, pnHash = h ref\<rparr>) ` planned_refs trees"
    using d(3) unfolding d(4) [symmetric] by (force simp: image_iff)
  ultimately show ?thesis by blast
qed

section \<open>Properties\<close>

text \<open>C14: What the writer stores is what the reader fetches. After a run of updates, each acknowledged,
  the reader returns for a plan exactly the planned nodes, once each, with the hash that the last
  update gave the node (or the hash stored before the run): whatever the order of the concurrent
  batches and queries. In particular the planner and the writer agree on the table, the scope and the
  bucket of every node, and no two nodes of any two trees share a place.\<close>

theorem fetched_nodes_are_the_latest:
  assumes "PersistUpdates arrange cq db (map (\<lambda>(t, u). UpdateReceived t u) us) = (db', Inr False)"
    and "arranges arrange" and "arranges arrange'" and "\<forall>(t, u) \<in> set us. typed_update u" and "dbOutcomes db' = []"
    and "(ppSegmentRequests plan, ppUpperRequests plan) = buildRequests trees" and "\<forall>p \<in> set trees. canonical (tpTree p)"
    and "\<forall>ref \<in> planned_refs trees. map_of (rev (concat (map (\<lambda>(t, u). update_nodes u) us))) ref = Some (h ref) \<or>
      map_of (rev (concat (map (\<lambda>(t, u). update_nodes u) us))) ref = None \<and> stored_node db ref = Some (hash_bytes (h ref))"
  shows "\<exists>nodes. FetchProofNodes arrange' db' plan = (db', Inr nodes) \<and> distinct (map pnRef nodes) \<and>
    set nodes = (\<lambda>ref. \<lparr>pnRef = ref, pnHash = h ref\<rparr>) ` planned_refs trees"
proof (rule fetched_nodes [OF assms(5,3,7,6)])
  fix ref
  assume ref: "ref \<in> planned_refs trees"
  then have "canonical (nrTree ref)" using assms(7) by (auto simp: planned_refs_def)
  from stored_after [OF assms(1,2,4) this] show "stored_node db' ref = Some (hash_bytes (h ref))"
    using bspec [OF assms(8) ref] by auto
qed

text \<open>An update of one region, shard and segment of one leaf, written into empty tables.\<close>

definition empty_hmf_db :: hmf_db where
  "empty_hmf_db = \<lparr>dbOutcomes = [], dbSegmentNodes = [], dbSegments = [], dbFrontiers = [], dbFrontierDeletions = Map.empty, dbUpperNodes = [], dbStates = []\<rparr>"

definition leaf_node :: MerkleNode where
  "leaf_node = \<lparr>mnLevel = 0, mnIndex = 0, mnHash = 5\<rparr>"

definition small_update :: HMFUpdate where
  "small_update = \<lparr>SegmentTreeID = \<lparr>tidType = TreeSegment, tidRegionID = ''eu'', tidShardID = 0, tidSegmentID = 0\<rparr>,
     SegmentNodes = [leaf_node], SegmentRoot = 5, SegmentLeaves = 1, SegmentHeight = 0, ShardLeafIndex = 0, SegmentMaxLeaves = 4,
     SegmentMaxAge = 1000000, SegmentCreatedAt = 1, SegmentStartedAt = 1, SegmentEndedAt = 1, SegmentSealedAt = 1,
     ShardTreeID = \<lparr>tidType = TreeShard, tidRegionID = ''eu'', tidShardID = 0, tidSegmentID = 0\<rparr>, ShardNodes = [leaf_node], ShardRoot = 5,
     ShardLeaves = 1, ShardHeight = 0, ShardFrontiers = [leaf_node],
     RegionTreeID = \<lparr>tidType = TreeRegion, tidRegionID = ''eu'', tidShardID = 0, tidSegmentID = 0\<rparr>, RegionNodes = [leaf_node], RegionRoot = 5,
     RegionLeaves = 1, RegionHeight = 0, RegionParentLeafIndex = 0,
     GlobalTreeID = \<lparr>tidType = TreeGlobal, tidRegionID = '''', tidShardID = 0, tidSegmentID = 0\<rparr>, GlobalNodes = [leaf_node], GlobalRoot = 5,
     GlobalLeaves = 1, GlobalHeight = 0, GlobalParentLeafIndex = 0\<rparr>"

definition small_tree :: TreePlan where
  "small_tree = \<lparr>tpTree = segmentTree \<lparr>skRegionID = ''eu'', skShardID = 0, skSegmentID = 0\<rparr>, tpLeafCount = 1, tpTargets = [0], tpRequired = []\<rparr>"

definition small_plan :: ProofPlan where
  "small_plan = \<lparr>ppAddresses = [], ppTrees = [small_tree], ppParentLinks = [], ppSegmentRequests = fst (buildRequests [small_tree]),
     ppUpperRequests = snd (buildRequests [small_tree])\<rparr>"

text \<open>Without faults every update is acknowledged.\<close>

lemma no_fault_keeps:
  "dbOutcomes (put_segment_node n db) = dbOutcomes db" "dbOutcomes (put_upper_node m db) = dbOutcomes db"
  "dbOutcomes (put_frontier r s now f db) = dbOutcomes db"
  by (simp_all add: put_segment_node_def put_upper_node_def put_frontier_def)

lemma foldl_outcomes: "(\<And>x db. dbOutcomes (f x db) = dbOutcomes db) \<Longrightarrow> dbOutcomes (foldl (\<lambda>db x. f x db) db xs) = dbOutcomes (db :: hmf_db)"
  by (induction xs arbitrary: db) simp_all

lemma node_batches_total: "dbOutcomes db = [] \<Longrightarrow> \<exists>db'. foldl exec_node_batch (db, None) batches = (db', None) \<and> dbOutcomes db' = []"
  by (induction batches arbitrary: db) (simp_all add: exec_node_batch_def foldl_outcomes no_fault_keeps)

lemma segment_nodes_total: "dbOutcomes db = [] \<Longrightarrow> \<exists>db'. SegmentRepo_UpsertNodes db ns = (db', Inr ()) \<and> dbOutcomes db' = []"
  by (cases "ns = []") (simp_all add: SegmentRepo_UpsertNodes_def swrap_def foldl_outcomes no_fault_keeps)

lemma upper_nodes_total: "dbOutcomes db = [] \<Longrightarrow> \<exists>db'. HMFRepo_UpsertNodes arrange db ns = (db', Inr ()) \<and> dbOutcomes db' = []"
  using node_batches_total [of db "map snd (arrange (foldl add_to_upper_part [] ns))"]
  by (auto simp: HMFRepo_UpsertNodes_def Let_def)

lemma states_total: "dbOutcomes db = [] \<Longrightarrow> \<exists>db'. upsert_states cq db states = (db', Inr ()) \<and> dbOutcomes db' = []"
  by (induction states arbitrary: db) (simp_all add: HMFRepo_UpsertTreeState_def swrap_def)

lemma update_total:
  assumes "dbOutcomes db = []" and "tidType (SegmentTreeID u) = TreeSegment" and "SegmentLeaves u \<noteq> 0"
  shows "\<exists>db'. PersistSealedUpdate arrange now cq db u = (db', Inr ()) \<and> dbOutcomes db' = []"
proof -
  obtain d1 where d1: "SegmentRepo_UpsertNodes db (segmentNodes (SegmentTreeID u) (SegmentNodes u)) = (d1, Inr ())" "dbOutcomes d1 = []"
    using segment_nodes_total [OF assms(1)] by blast
  obtain d2 where d2: "UpsertSegment cq d1 (sealed_segment u) = (d2, Inr ())" "dbOutcomes d2 = []" using d1(2) by (simp add: UpsertSegment_def swrap_def)
  obtain d3 where d3: "HMFRepo_UpsertNodes arrange d2 (hmfNodes ''SHARD'' (tidRegionID (SegmentTreeID u) @ '':S'' @ format_d (tidShardID (SegmentTreeID u))) (ShardNodes u)) = (d3, Inr ())" "dbOutcomes d3 = []"
    using upper_nodes_total [OF d2(2)] by blast
  obtain d4 where d4: "HMFRepo_UpsertNodes arrange d3 (hmfNodes ''REGION'' (tidRegionID (SegmentTreeID u)) (RegionNodes u)) = (d4, Inr ())" "dbOutcomes d4 = []"
    using upper_nodes_total [OF d3(2)] by blast
  obtain d5 where d5: "HMFRepo_UpsertNodes arrange d4 (hmfNodes ''GLOBAL'' ''GLOBAL'' (GlobalNodes u)) = (d5, Inr ())" "dbOutcomes d5 = []"
    using upper_nodes_total [OF d4(2)] by blast
  obtain d6 where d6: "ReplaceFrontiers now d5 (tidRegionID (SegmentTreeID u)) (tidShardID (SegmentTreeID u)) (shardFrontiers (ShardFrontiers u)) = (d6, Inr ())" "dbOutcomes d6 = []"
    using d5(2) by (simp add: ReplaceFrontiers_def swrap_def foldl_outcomes no_fault_keeps)
  obtain d7 where "upsert_states cq d6 (tree_states u) = (d7, Inr ())" "dbOutcomes d7 = []" using states_total [OF d6(2)] by blast
  with assms d1 d2 d3 d4 d5 d6 show ?thesis by (simp add: PersistSealedUpdate_def Let_def persistTreeStates_def)
qed

text \<open>The witness session: the tables keep instants as they are.\<close>

definition exact_cql :: cql where
  "exact_cql = \<lparr>cqlTimestamp = id, UUIDFromTime = (\<lambda>_. 0), uuidString = (\<lambda>_. ''''), ParseUUID = (\<lambda>_. Inr 0)\<rparr>"

lemma small_update_run: "\<exists>db'. PersistSealedUpdate arrange now cq empty_hmf_db small_update = (db', Inr ()) \<and> dbOutcomes db' = []"
  by (rule update_total) (simp_all add: empty_hmf_db_def small_update_def)

theorem fetched_nodes_are_the_latest_witness:
  "\<exists>db' nodes. PersistUpdates id exact_cql empty_hmf_db [UpdateReceived 7 small_update] = (db', Inr False) \<and>
    FetchProofNodes id db' small_plan = (db', Inr nodes) \<and> set nodes = {\<lparr>pnRef = mk_ref (tpTree small_tree) (mk_pos 0 0), pnHash = 5\<rparr>}"
proof -
  obtain db' where db': "PersistSealedUpdate id 7 exact_cql empty_hmf_db small_update = (db', Inr ())" "dbOutcomes db' = []" using small_update_run by blast
  then have run: "PersistUpdates id exact_cql empty_hmf_db (map (\<lambda>(t, u). UpdateReceived t u) [(7, small_update)]) = (db', Inr False)" by simp
  have arr: "arranges id" by (simp add: arranges_def)
  have typed: "\<forall>(t, u) \<in> set [(7 :: time, small_update)]. typed_update u" by (simp add: typed_update_def small_update_def leaf_node_def wrap32_def)
  have refs: "planned_refs [small_tree] = {mk_ref (tpTree small_tree) (mk_pos 0 0)}"
    by (auto simp: planned_refs_def small_tree_def segmentTree_def)
  have req: "(ppSegmentRequests small_plan, ppUpperRequests small_plan) = buildRequests [small_tree]" by (simp add: small_plan_def)
  have can: "\<forall>p \<in> set [small_tree]. canonical (tpTree p)" by (auto simp: small_tree_def canonical_def)
  have "map_of (rev (update_nodes small_update)) (mk_ref (tpTree small_tree) (mk_pos 0 0)) = Some 5"
    by (simp add: update_nodes_def small_update_def small_tree_def tree_nodes_def leaf_node_def tree_defs Let_def)
  then have "\<forall>ref \<in> planned_refs [small_tree]. map_of (rev (concat (map (\<lambda>(t, u). update_nodes u) [(7 :: time, small_update)]))) ref = Some 5 \<or>
      map_of (rev (concat (map (\<lambda>(t, u). update_nodes u) [(7 :: time, small_update)]))) ref = None \<and> stored_node empty_hmf_db ref = Some (hash_bytes 5)"
    by (simp add: refs)
  from fetched_nodes_are_the_latest [OF run arr arr typed db'(2) req can this] run show ?thesis by (auto simp: refs)
qed

section \<open>Frontiers\<close>

lemma frontiers_kept:
  "SegmentRepo_UpsertNodes db ns = (db', Inr ()) \<Longrightarrow> dbFrontiers db' = dbFrontiers db"
  "UpsertSegment cq db segment = (db', Inr ()) \<Longrightarrow> dbFrontiers db' = dbFrontiers db"
  "HMFRepo_UpsertNodes arrange db ms = (db', Inr ()) \<Longrightarrow> dbFrontiers db' = dbFrontiers db"
  "HMFRepo_UpsertTreeState cq db state = (db', Inr ()) \<Longrightarrow> dbFrontiers db' = dbFrontiers db \<and> dbFrontierDeletions db' = dbFrontierDeletions db"
proof -
  have seg: "dbFrontiers (foldl (\<lambda>db n. put_segment_node n db) db ns) = dbFrontiers db" for db ns
    by (induction ns arbitrary: db) (simp_all add: put_segment_node_def)
  have up: "dbFrontiers (foldl (\<lambda>db n. put_upper_node n db) db ns) = dbFrontiers db" for db ns
    by (induction ns arbitrary: db) (simp_all add: put_upper_node_def)
  show "SegmentRepo_UpsertNodes db ns = (db', Inr ()) \<Longrightarrow> dbFrontiers db' = dbFrontiers db"
    by (auto simp: SegmentRepo_UpsertNodes_def swrap_eq_Inr seg hmf_same_tables dest!: exec_statement_Inr split: if_splits)
  show "UpsertSegment cq db segment = (db', Inr ()) \<Longrightarrow> dbFrontiers db' = dbFrontiers db"
    by (auto simp: UpsertSegment_def swrap_eq_Inr hmf_same_tables dest!: exec_statement_Inr)
  show "HMFRepo_UpsertTreeState cq db state = (db', Inr ()) \<Longrightarrow> dbFrontiers db' = dbFrontiers db \<and> dbFrontierDeletions db' = dbFrontierDeletions db"
    by (auto simp: HMFRepo_UpsertTreeState_def swrap_eq_Inr hmf_same_tables dest!: exec_statement_Inr)
  have one: "dbFrontiers (fst (exec_node_batch (db, err) batch)) = dbFrontiers db" for db err batch
  proof -
    obtain d0 o1 where n: "next_outcome db = (d0, o1)" by fastforce
    from hmf_same_tables [OF next_outcome_tables [OF n]] n show ?thesis
      by (cases o1) (simp_all add: exec_node_batch_def exec_statement_def up)
  qed
  have "dbFrontiers (fst (foldl exec_node_batch s batches)) = dbFrontiers (fst s)" for s batches
    by (induction batches arbitrary: s) (simp_all add: one [of "fst s" "snd s" for s, simplified])
  then have "foldl exec_node_batch (db, None) batches = (db1, err) \<Longrightarrow> dbFrontiers db1 = dbFrontiers db" for batches db1 err by (metis fst_conv)
  then show "HMFRepo_UpsertNodes arrange db ms = (db', Inr ()) \<Longrightarrow> dbFrontiers db' = dbFrontiers db"
    by (auto simp: HMFRepo_UpsertNodes_def Let_def split: if_splits prod.splits option.splits)
qed

lemma states_keep_frontiers: "upsert_states cq db states = (db', Inr ()) \<Longrightarrow> dbFrontiers db' = dbFrontiers db \<and> dbFrontierDeletions db' = dbFrontierDeletions db"
  by (induction states arbitrary: db) (auto simp: sbind_eq_Inr dest: frontiers_kept(4))

lemma put_frontiers_rows:
  "x \<in> set (dbFrontiers (foldl (\<lambda>db f. put_frontier r s now f db) db fs)) \<Longrightarrow> x \<in> set (dbFrontiers db) \<or> snd (snd x) = now"
  "dbFrontierDeletions (foldl (\<lambda>db f. put_frontier r s now f db) db fs) = dbFrontierDeletions db"
proof -
  have put: "x \<in> set (gm_put k v m) \<Longrightarrow> x \<in> set m \<or> x = (k, v)" for x :: "((string \<times> int) \<times> int) \<times> ShardFrontier \<times> time" and k v m
    by (induction m) (auto split: if_splits)
  show "x \<in> set (dbFrontiers (foldl (\<lambda>db f. put_frontier r s now f db) db fs)) \<Longrightarrow> x \<in> set (dbFrontiers db) \<or> snd (snd x) = now"
    by (induction fs arbitrary: db) (fastforce simp: put_frontier_def dest: put)+
  show "dbFrontierDeletions (foldl (\<lambda>db f. put_frontier r s now f db) db fs) = dbFrontierDeletions db"
    by (induction fs arbitrary: db) (simp_all add: put_frontier_def)
qed

text \<open>C38: Replaced frontiers are lost. \<^verbatim>\<open>ReplaceFrontiers\<close> deletes and inserts in one batch, so both
  carry one write time, and the database lets a row survive a deletion only if it was written later.
  After an acknowledged update the frontiers of its shard are read as empty, whatever frontiers the
  update has, although they are stored for restoring the shard tree.\<close>

theorem replaced_frontiers_are_lost:
  assumes "\<forall>t d. live t d \<longrightarrow> d < t"
    and "PersistSealedUpdate arrange now cq db u = (db', Inr ())" and "\<forall>(key, row, t) \<in> set (dbFrontiers db). t \<le> now" and "dbOutcomes db' = []"
  shows "GetFrontiers live db' (tidRegionID (SegmentTreeID u)) (tidShardID (SegmentTreeID u)) = (db', Inr [])"
proof -
  let ?part = "(tidRegionID (SegmentTreeID u), tidShardID (SegmentTreeID u))"
  from assms(2) obtain d1 d2 d3 d4 d5 d6 where
    w: "SegmentRepo_UpsertNodes db (segmentNodes (SegmentTreeID u) (SegmentNodes u)) = (d1, Inr ())" "UpsertSegment cq d1 (sealed_segment u) = (d2, Inr ())"
      "HMFRepo_UpsertNodes arrange d2 (hmfNodes ''SHARD'' (tidRegionID (SegmentTreeID u) @ '':S'' @ format_d (tidShardID (SegmentTreeID u))) (ShardNodes u)) = (d3, Inr ())"
      "HMFRepo_UpsertNodes arrange d3 (hmfNodes ''REGION'' (tidRegionID (SegmentTreeID u)) (RegionNodes u)) = (d4, Inr ())"
      "HMFRepo_UpsertNodes arrange d4 (hmfNodes ''GLOBAL'' ''GLOBAL'' (GlobalNodes u)) = (d5, Inr ())"
      "ReplaceFrontiers now d5 (fst ?part) (snd ?part) (shardFrontiers (ShardFrontiers u)) = (d6, Inr ())" "upsert_states cq d6 (tree_states u) = (db', Inr ())"
    by (auto simp: PersistSealedUpdate_def Let_def sbind_eq_Inr persistTreeStates_def split: if_splits)
  have d5: "dbFrontiers d5 = dbFrontiers db" using frontiers_kept(1) [OF w(1)] frontiers_kept(2) [OF w(2)] frontiers_kept(3) w(3-5) by metis
  obtain d0 where d0: "same_tables d5 d0" and d6: "d6 = foldl (\<lambda>db f. put_frontier (fst ?part) (snd ?part) now f db)
      (d0\<lparr>dbFrontierDeletions := (dbFrontierDeletions d0)(?part \<mapsto> now)\<rparr>) (shardFrontiers (ShardFrontiers u))"
    using w(6) by (auto simp: ReplaceFrontiers_def swrap_eq_Inr dest!: exec_statement_Inr)
  have del: "dbFrontierDeletions db' ?part = Some now" using states_keep_frontiers [OF w(7)] by (simp add: d6 put_frontiers_rows(2))
  have "t \<le> now" if "(key, row, t) \<in> set (dbFrontiers db')" for key row t
  proof -
    have "(key, row, t) \<in> set (dbFrontiers d6)" using that states_keep_frontiers [OF w(7)] by simp
    then have "(key, row, t) \<in> set (dbFrontiers d0) \<or> t = now" using put_frontiers_rows(1) by (fastforce simp: d6)
    then show ?thesis using assms(3) d5 hmf_same_tables [OF d0] by auto
  qed
  then have "live_frontiers live db' ?part = []"
    using assms(1) by (auto simp: live_frontiers_def del partition_rows_def filter_empty_conv) (metis leD)
  then show ?thesis using assms(4) by (simp add: GetFrontiers_def scan_rows_def swrap_def)
qed

theorem replaced_frontiers_are_lost_witness:
  "\<exists>db'. PersistSealedUpdate id 7 exact_cql empty_hmf_db small_update = (db', Inr ()) \<and> shardFrontiers (ShardFrontiers small_update) \<noteq> [] \<and>
    GetFrontiers (\<lambda>t d. d < t) db' ''eu'' 0 = (db', Inr [])"
proof -
  obtain db' where db': "PersistSealedUpdate id 7 exact_cql empty_hmf_db small_update = (db', Inr ())" "dbOutcomes db' = []" using small_update_run by blast
  have "GetFrontiers (\<lambda>t d. d < t) db' (tidRegionID (SegmentTreeID small_update)) (tidShardID (SegmentTreeID small_update)) = (db', Inr [])"
    by (rule replaced_frontiers_are_lost [OF _ db'(1) _ db'(2)]) (simp_all add: empty_hmf_db_def)
  then have "GetFrontiers (\<lambda>t d. d < t) db' ''eu'' 0 = (db', Inr [])" by (simp add: small_update_def)
  with db'(1) show ?thesis by (simp add: shardFrontiers_def small_update_def)
qed

end
