(* ===== verification/HM_Manager.thy ===== *)
theory HM_Manager
  imports Segment_Tree HMF_Forest Locator_Worker HPP_Planner
begin

text \<open>
  \<^verbatim>\<open>internal/hm\<close>: the manager of the hierarchy. Clients submit logs to shards; one worker per shard appends
  them to the active segment, tells the locator where each log is, and closes a segment that is full
  or old, which commits it in the forest and sends an update on. Objects behind pointers (active
  segments, workers) live in lists and a pointer is an index. A \<^verbatim>\<open>select\<close> statement is the list of what
  its ready cases do; a goroutine stops between two steps wherever it waits for a channel. The lock
  sections of one run of a worker's closure \<^verbatim>\<open>openSegment\<close> or \<^verbatim>\<open>closeSegment\<close> are one step: beside the forest,
  which \<^verbatim>\<open>hmfMu\<close> guards as a whole, they touch only the entries of the worker's own shard. Another worker of the
  same shard exists only while a stopped one finishes; a finer interleaving of the two gives the outcome of
  some order of the whole runs, except that the run that finds a segment already open may have taken the
  lower segment number.
\<close>

section \<open>State\<close>

record activeSegment =
  asTree :: SegmentTree
  asCreatedAt :: time
  asStartedAt :: time
  asEndedAt :: time
  asSealedAt :: time

text \<open>The \<^verbatim>\<open>Result\<close> channel of a request is the number of the call that waits on it.\<close>

record appendRequest =
  arLog :: Log
  arResult :: nat

text \<open>
  Where the goroutine of a worker is: at its \<^verbatim>\<open>select\<close>, at the \<^verbatim>\<open>send\<close> of an update (with what follows the
  call of the closure \<^verbatim>\<open>closeSegment\<close>), at the call of the locator, or on its way out.
\<close>

datatype after_send = ThenReturn | ThenAppend appendRequest | ThenReopen

datatype worker_at =
    AtSelect
  | AtSend HMFUpdate after_send
  | AtPropagate appendRequest int
  | AtReturn
  | AtExit
  | AtEnd
  | AtPanic error

text \<open>\<^verbatim>\<open>timerC\<close> is nil, will deliver the time, or has delivered it.\<close>

datatype timer = NoTimer | TimerRunning | TimerFired

record segmentWorker =
  wkRequests :: "appendRequest list"
  wkRequestsClosed :: bool
  wkStopClosed :: bool
  wkDoneClosed :: bool
  wkRegionID :: string
  wkShardID :: int
  wkActive :: "nat option"
  wkTimer :: timer
  wkAt :: worker_at

record 'l Manager =
  mgHMF :: HMF
  mgMaxSegmentLeaves :: int
  mgSegmentDuration :: int
  mgActiveSegments :: "TreeID \<rightharpoonup> nat"
  mgNextSegmentIDs :: "TreeID \<rightharpoonup> int"
  mgWorkers :: "TreeID \<rightharpoonup> nat"
  mgUpdates :: "HMFUpdate list"
  mgLocator :: "'l option"
  mgSegmentObjects :: "activeSegment list"
  mgWorkerObjects :: "segmentWorker list"
  mgResults :: "nat \<rightharpoonup> unit result"

abbreviation segment_at :: "'l Manager \<Rightarrow> nat \<Rightarrow> activeSegment" where
  "segment_at hm p \<equiv> mgSegmentObjects hm ! p"

abbreviation worker_of :: "'l Manager \<Rightarrow> nat \<Rightarrow> segmentWorker" where
  "worker_of hm i \<equiv> mgWorkerObjects hm ! i"

definition put_segment :: "nat \<Rightarrow> activeSegment \<Rightarrow> 'l Manager \<Rightarrow> 'l Manager" where
  "put_segment p seg hm = hm\<lparr>mgSegmentObjects := (mgSegmentObjects hm)[p := seg]\<rparr>"

definition put_worker :: "nat \<Rightarrow> segmentWorker \<Rightarrow> 'l Manager \<Rightarrow> 'l Manager" where
  "put_worker i w hm = hm\<lparr>mgWorkerObjects := (mgWorkerObjects hm)[i := w]\<rparr>"

section \<open>The manager\<close>

definition SetALL :: "'l option \<Rightarrow> 'l Manager \<Rightarrow> 'l Manager" where
  "SetALL locator hm = hm\<lparr>mgLocator := locator\<rparr>"

definition NewManager :: "HMF option \<Rightarrow> int \<Rightarrow> int \<Rightarrow> 'l Manager result" where
  "NewManager forest maxSegmentLeaves segmentDuration =
     (case forest of None \<Rightarrow> Inl (Errorf ''new manager: HMF is nil'')
      | Some hmf \<Rightarrow>
        if maxSegmentLeaves \<le> 0 then Inl (Errorf ''new manager: max segment leaves must be positive'')
        else if segmentDuration \<le> 0 then Inl (Errorf ''new manager: segment duration must be positive'')
        else Inr \<lparr>mgHMF = hmf, mgMaxSegmentLeaves = maxSegmentLeaves, mgSegmentDuration = segmentDuration,
          mgActiveSegments = Map.empty, mgNextSegmentIDs = Map.empty, mgWorkers = Map.empty, mgUpdates = [], mgLocator = None,
          mgSegmentObjects = [], mgWorkerObjects = [], mgResults = Map.empty\<rparr>)"

definition openSegment :: "time \<Rightarrow> 'l Manager \<Rightarrow> string \<Rightarrow> int \<Rightarrow> int \<Rightarrow> ('l Manager, nat) outcome" where
  "openSegment now hm regionID shardID segmentID =
     (let shardTreeID = shard_id regionID shardID in
      if hmfShardTrees (mgHMF hm) shardTreeID = None then (hm, Inl (Errorf ''open segment: shard %d does not exist in region %s''))
      else if mgActiveSegments hm shardTreeID \<noteq> None then (hm, Inl (Errorf ''open segment: segment %d already active''))
      else case NewSegmentTree regionID shardID segmentID (mgMaxSegmentLeaves hm) of
          Inl e \<Rightarrow> (hm, Inl e)
        | Inr segment \<Rightarrow>
          (let p = length (mgSegmentObjects hm) in
           (hm\<lparr>mgSegmentObjects := mgSegmentObjects hm @ [\<lparr>asTree = segment, asCreatedAt = now, asStartedAt = time_zero,
                 asEndedAt = time_zero, asSealedAt = time_zero\<rparr>],
               mgActiveSegments := (mgActiveSegments hm)(shardTreeID \<mapsto> p)\<rparr>, Inr p)))"

definition getActiveSegment :: "'l Manager \<Rightarrow> string \<Rightarrow> int \<Rightarrow> nat result" where
  "getActiveSegment hm regionID shardID =
     (case mgActiveSegments hm (shard_id regionID shardID) of
        None \<Rightarrow> Inl (Errorf ''get active segment by hm: active segment does not exist'')
      | Some p \<Rightarrow> Inr p)"

definition closeSegment :: "hash_fn \<Rightarrow> time \<Rightarrow> 'l Manager \<Rightarrow> string \<Rightarrow> int \<Rightarrow> ('l Manager, HMFUpdate) outcome" where
  "closeSegment H now hm regionID shardID =
     (case getActiveSegment hm regionID shardID of
        Inl e \<Rightarrow> (hm, Inl e)
      | Inr p \<Rightarrow>
        let seg = segment_at hm p;
            seg = (if IsZero (asSealedAt seg) then seg\<lparr>asSealedAt := now\<rparr> else seg);
            hm = put_segment p seg hm
        in case SegmentTree_Seal H (asTree seg) of
          Inl e \<Rightarrow> (hm, Inl e)
        | Inr (tree, segmentNodes) \<Rightarrow>
          let hm = put_segment p (seg\<lparr>asTree := tree\<rparr>) hm;
              (forest, res) = AppendSealedSegment H (mgHMF hm) regionID shardID (tidSegmentID (tTreeID tree)) (tLeafCount tree) (tRoot tree);
              hm = hm\<lparr>mgHMF := forest\<rparr>
          in case res of
            Inl e \<Rightarrow> (hm, Inl e)
          | Inr update \<Rightarrow>
            (hm\<lparr>mgActiveSegments := (mgActiveSegments hm)(shard_id regionID shardID := None)\<rparr>,
             Inr (update\<lparr>SegmentTreeID := tTreeID tree, SegmentNodes := segmentNodes, SegmentRoot := tRoot tree,
               SegmentLeaves := tLeafCount tree, SegmentHeight := tHeight tree, SegmentMaxLeaves := segMaxLeaves tree,
               SegmentMaxAge := mgSegmentDuration hm, SegmentCreatedAt := asCreatedAt seg, SegmentStartedAt := asStartedAt seg,
               SegmentEndedAt := asEndedAt seg, SegmentSealedAt := asSealedAt seg\<rparr>)))"

definition nextSegmentID :: "'l Manager \<Rightarrow> string \<Rightarrow> int \<Rightarrow> 'l Manager \<times> int" where
  "nextSegmentID hm regionID shardID =
     (let shardTreeID = shard_id regionID shardID; segmentID = gm_get 0 (mgNextSegmentIDs hm) shardTreeID
      in (hm\<lparr>mgNextSegmentIDs := (mgNextSegmentIDs hm)(shardTreeID \<mapsto> wrap64 (segmentID + 1))\<rparr>, segmentID))"

definition getOrStartWorker :: "'l Manager \<Rightarrow> string \<Rightarrow> int \<Rightarrow> ('l Manager, nat) outcome" where
  "getOrStartWorker hm regionID shardID =
     (let shardTreeID = shard_id regionID shardID in
      if hmfShardTrees (mgHMF hm) shardTreeID = None then (hm, Inl (Errorf ''submit: shard %d does not exist in region %s''))
      else case mgWorkers hm shardTreeID of
          Some i \<Rightarrow> (hm, Inr i)
        | None \<Rightarrow>
          (let i = length (mgWorkerObjects hm) in
           (hm\<lparr>mgWorkerObjects := mgWorkerObjects hm @ [\<lparr>wkRequests = [], wkRequestsClosed = False, wkStopClosed = False, wkDoneClosed = False,
                 wkRegionID = regionID, wkShardID = shardID, wkActive = None, wkTimer = NoTimer, wkAt = AtSelect\<rparr>],
               mgWorkers := (mgWorkers hm)(shardTreeID \<mapsto> i)\<rparr>, Inr i)))"

text \<open>
  \<^verbatim>\<open>SubmitLog\<close> up to its first \<^verbatim>\<open>select\<close>, the cases of that \<^verbatim>\<open>select\<close>, which sends the request, and of the
  second one, which waits for the answer.
\<close>

definition SubmitLog_start :: "'l Manager \<Rightarrow> int \<Rightarrow> Log \<Rightarrow> ('l Manager, nat) outcome" where
  "SubmitLog_start hm shardID lg =
     (if logRegionID lg = '''' then (hm, Inl (Errorf ''submit log: region ID is required''))
      else if IsZero (logEventTime lg) then (hm, Inl (Errorf ''submit log: event time is required''))
      else getOrStartWorker hm (logRegionID lg) shardID)"

definition SubmitLog_send :: "error option \<Rightarrow> 'l Manager \<Rightarrow> nat \<Rightarrow> appendRequest \<Rightarrow> ('l Manager \<times> unit result) list" where
  "SubmitLog_send ctxErr hm i request =
     (let w = worker_of hm i in
      (if length (wkRequests w) < 1024 then [(put_worker i (w\<lparr>wkRequests := wkRequests w @ [request]\<rparr>) hm, Inr ())] else []) @
      (if wkDoneClosed w then [(hm, Inl (Errorf ''submit: segment worker stopped''))] else []) @
      (case ctxErr of None \<Rightarrow> [] | Some e \<Rightarrow> [(hm, Inl e)]))"

definition SubmitLog_wait :: "error option \<Rightarrow> 'l Manager \<Rightarrow> nat \<Rightarrow> nat \<Rightarrow> unit result list" where
  "SubmitLog_wait ctxErr hm i result =
     (case mgResults hm result of None \<Rightarrow> [] | Some res \<Rightarrow> [res]) @
     (if wkDoneClosed (worker_of hm i) then [Inl (Errorf ''submit: segment worker stopped'')] else []) @
     (case ctxErr of None \<Rightarrow> [] | Some e \<Rightarrow> [Inl e])"

text \<open>The log that \<^verbatim>\<open>Submit\<close> makes from its arguments; the other attributes are zero values.\<close>

definition submitted_log :: "string \<Rightarrow> hash \<Rightarrow> time \<Rightarrow> Log" where
  "submitted_log regionID digest eventTime = \<lparr>logLogID = 0, logEventTime = eventTime, logRegionID = regionID, logTenantID = '''',
     logServiceID = '''', logLogType = '''', logCiphertext = [], logTag = [], logNonce = [], logDigest = digest, logAD = []\<rparr>"

definition Manager_Submit :: "'l Manager \<Rightarrow> string \<Rightarrow> int \<Rightarrow> hash \<Rightarrow> time \<Rightarrow> ('l Manager, nat) outcome" where
  "Manager_Submit hm regionID shardID digest eventTime = SubmitLog_start hm shardID (submitted_log regionID digest eventTime)"

definition locator_request :: "Log \<Rightarrow> TreeID \<Rightarrow> int \<Rightarrow> LocatorRequest" where
  "locator_request lg treeID leafID =
     \<lparr>rqKey = \<lparr>lkLogID = logLogID lg, lkEventTime = logEventTime lg, lkRegionID = logRegionID lg, lkTenantID = logTenantID lg,
        lkServiceID = logServiceID lg, lkLogType = logLogType lg\<rparr>,
      rqValue = \<lparr>lvRegionID = tidRegionID treeID, lvShardID = format_d (tidShardID treeID),
        lvSegmentID = format_d (tidSegmentID treeID), lvLeafID = format_d leafID\<rparr>\<rparr>"

text \<open>\<^verbatim>\<open>LocatorSubmitter\<close> is a function \<open>submit\<close> to the ready outcomes of a call.\<close>

definition propagateToALL ::
  "('l \<Rightarrow> LocatorRequest \<Rightarrow> ('l \<times> unit result) list) \<Rightarrow> 'l Manager \<Rightarrow> Log \<Rightarrow> SegmentTree option \<Rightarrow> int \<Rightarrow> ('l Manager \<times> unit result) list" where
  "propagateToALL submit hm lg segment leafID =
     (case segment of None \<Rightarrow> [(hm, Inl (Errorf ''propagate to ALL: segment is nil''))]
      | Some tree \<Rightarrow>
        (case mgLocator hm of None \<Rightarrow> [(hm, Inl (Errorf ''propagate to ALL: ALL is not configured''))]
         | Some client \<Rightarrow> map (\<lambda>(client', res). (hm\<lparr>mgLocator := Some client'\<rparr>, res)) (submit client (locator_request lg (tTreeID tree) leafID))))"

text \<open>Receiving from the channel that \<^verbatim>\<open>Updates\<close> returns.\<close>

definition Manager_Updates :: "'l Manager \<Rightarrow> ('l Manager \<times> HMFUpdate) option" where
  "Manager_Updates hm = (case mgUpdates hm of [] \<Rightarrow> None | update # rest \<Rightarrow> Some (hm\<lparr>mgUpdates := rest\<rparr>, update))"

text \<open>\<^verbatim>\<open>StopWorker\<close>: the part under the lock, with the worker to wait for, and the wait.\<close>

definition StopWorker :: "'l Manager \<Rightarrow> string \<Rightarrow> int \<Rightarrow> 'l Manager \<times> nat option" where
  "StopWorker hm regionID shardID =
     (let shardTreeID = shard_id regionID shardID in
      case mgWorkers hm shardTreeID of
        None \<Rightarrow> (hm, None)
      | Some i \<Rightarrow> (put_worker i ((worker_of hm i)\<lparr>wkStopClosed := True\<rparr>) (hm\<lparr>mgWorkers := (mgWorkers hm)(shardTreeID := None)\<rparr>), Some i))"

definition StopWorker_wait :: "error option \<Rightarrow> 'l Manager \<Rightarrow> nat option \<Rightarrow> unit result list" where
  "StopWorker_wait ctxErr hm stopped =
     (case stopped of None \<Rightarrow> [Inr ()]
      | Some i \<Rightarrow> (if wkDoneClosed (worker_of hm i) then [Inr ()] else []) @ (case ctxErr of None \<Rightarrow> [] | Some e \<Rightarrow> [Inl e]))"

section \<open>The worker\<close>

abbreviation move :: "nat \<Rightarrow> worker_at \<Rightarrow> 'l Manager \<Rightarrow> 'l Manager" where
  "move i at hm \<equiv> put_worker i ((worker_of hm i)\<lparr>wkAt := at\<rparr>) hm"

text \<open>Answering a request and going on with the loop.\<close>

definition answer :: "nat \<Rightarrow> appendRequest \<Rightarrow> unit result \<Rightarrow> 'l Manager \<Rightarrow> 'l Manager" where
  "answer i request res hm = move i AtSelect (hm\<lparr>mgResults := (mgResults hm)(arResult request \<mapsto> res)\<rparr>)"

text \<open>The closure \<^verbatim>\<open>openSegment\<close>.\<close>

definition worker_open :: "time \<Rightarrow> nat \<Rightarrow> 'l Manager \<Rightarrow> ('l Manager, unit) outcome" where
  "worker_open now i hm =
     (let w = worker_of hm i; (hm, segmentID) = nextSegmentID hm (wkRegionID w) (wkShardID w) in
      case openSegment now hm (wkRegionID w) (wkShardID w) segmentID of
        (hm, Inl e) \<Rightarrow> (hm, Inl e)
      | (hm, Inr _) \<Rightarrow>
        (case getActiveSegment hm (wkRegionID w) (wkShardID w) of
           Inl e \<Rightarrow> (put_worker i (w\<lparr>wkActive := None\<rparr>) hm, Inl e)
         | Inr p \<Rightarrow> (put_worker i (w\<lparr>wkActive := Some p, wkTimer := TimerRunning\<rparr>) hm, Inr ())))"

text \<open>
  The closure \<^verbatim>\<open>closeSegment\<close> up to the send, which is a step of its own; \<open>onError\<close> is what the caller does
  with an error, and \<open>after\<close> what it does after the send. With no active segment the closure does nothing.
\<close>

definition worker_close ::
  "hash_fn \<Rightarrow> time \<Rightarrow> nat \<Rightarrow> after_send \<Rightarrow> (error \<Rightarrow> 'l Manager \<Rightarrow> 'l Manager) \<Rightarrow> ('l Manager \<Rightarrow> 'l Manager) \<Rightarrow> 'l Manager \<Rightarrow> 'l Manager" where
  "worker_close H now i after onError continue hm =
     (let w = worker_of hm i in
      if wkActive w = None then continue hm
      else case closeSegment H now hm (wkRegionID w) (wkShardID w) of
          (hm, Inl e) \<Rightarrow> onError e hm
        | (hm, Inr update) \<Rightarrow> move i (AtSend update after) hm)"

text \<open>The two ways out of the loop: close a segment that has leaves, ignoring an error.\<close>

definition worker_stop :: "hash_fn \<Rightarrow> time \<Rightarrow> nat \<Rightarrow> 'l Manager \<Rightarrow> 'l Manager" where
  "worker_stop H now i hm =
     (case wkActive (worker_of hm i) of
        Some p \<Rightarrow>
          if tLeafCount (asTree (segment_at hm p)) > 0
          then worker_close H now i ThenReturn (\<lambda>_. move i AtReturn) (move i AtReturn) hm
          else move i AtReturn hm
      | None \<Rightarrow> move i AtReturn hm)"

text \<open>A request with an active segment that has room: append the digest, then call the locator.\<close>

definition worker_append :: "nat \<Rightarrow> appendRequest \<Rightarrow> 'l Manager \<Rightarrow> 'l Manager" where
  "worker_append i request hm =
     (case wkActive (worker_of hm i) of
        None \<Rightarrow> move i (AtPanic (Panic ''nil pointer dereference'')) hm
      | Some p \<Rightarrow>
        (let seg = segment_at hm p; leafID = tLeafCount (asTree seg) in
         case SegmentTree_Append (asTree seg) (logDigest (arLog request)) of
           Inl e \<Rightarrow> answer i request (Inl e) hm
         | Inr tree \<Rightarrow>
           move i (AtPropagate request leafID) (put_segment p
             (seg\<lparr>asTree := tree,
                asStartedAt := (if IsZero (asStartedAt seg) then logEventTime (arLog request) else asStartedAt seg),
                asEndedAt := logEventTime (arLog request)\<rparr>) hm)))"

definition worker_reopen :: "time \<Rightarrow> nat \<Rightarrow> appendRequest \<Rightarrow> 'l Manager \<Rightarrow> 'l Manager" where
  "worker_reopen now i request hm =
     (case worker_open now i hm of
        (hm, Inl e) \<Rightarrow> answer i request (Inl e) hm
      | (hm, Inr _) \<Rightarrow> worker_append i request hm)"

text \<open>A request once there is an active segment: close a full one first.\<close>

definition worker_room :: "hash_fn \<Rightarrow> time \<Rightarrow> nat \<Rightarrow> appendRequest \<Rightarrow> 'l Manager \<Rightarrow> 'l Manager" where
  "worker_room H now i request hm =
     (case wkActive (worker_of hm i) of
        None \<Rightarrow> move i (AtPanic (Panic ''nil pointer dereference'')) hm
      | Some p \<Rightarrow>
        if tLeafCount (asTree (segment_at hm p)) \<ge> segMaxLeaves (asTree (segment_at hm p))
        then worker_close H now i (ThenAppend request) (\<lambda>e. answer i request (Inl e)) (worker_reopen now i request) hm
        else worker_append i request hm)"

definition worker_request :: "hash_fn \<Rightarrow> time \<Rightarrow> nat \<Rightarrow> appendRequest \<Rightarrow> 'l Manager \<Rightarrow> 'l Manager" where
  "worker_request H now i request hm =
     (if IsZero (logEventTime (arLog request)) then answer i request (Inl (Errorf ''append request: event time is required'')) hm
      else if wkActive (worker_of hm i) = None
      then (case worker_open now i hm of
              (hm, Inl e) \<Rightarrow> answer i request (Inl e) hm
            | (hm, Inr _) \<Rightarrow> worker_room H now i request hm)
      else worker_room H now i request hm)"

text \<open>The timer: errors of the two closures are dropped.\<close>

definition worker_timer_open :: "time \<Rightarrow> nat \<Rightarrow> 'l Manager \<Rightarrow> 'l Manager" where
  "worker_timer_open now i hm = move i AtSelect (fst (worker_open now i hm))"

definition worker_timer :: "hash_fn \<Rightarrow> time \<Rightarrow> nat \<Rightarrow> 'l Manager \<Rightarrow> 'l Manager" where
  "worker_timer H now i hm =
     (case wkActive (worker_of hm i) of
        None \<Rightarrow> move i (AtPanic (Panic ''nil pointer dereference'')) hm
      | Some p \<Rightarrow>
        worker_close H now i ThenReopen (\<lambda>_. move i AtSelect) (worker_timer_open now i)
          (put_segment p ((segment_at hm p)\<lparr>asSealedAt := now\<rparr>) hm))"

text \<open>The rest of the closure \<^verbatim>\<open>closeSegment\<close> after the send, and what follows it.\<close>

definition worker_sent :: "time \<Rightarrow> nat \<Rightarrow> after_send \<Rightarrow> 'l Manager \<Rightarrow> 'l Manager" where
  "worker_sent now i after hm =
     (let hm = put_worker i ((worker_of hm i)\<lparr>wkTimer := NoTimer, wkActive := None\<rparr>) hm in
      case after of
        ThenReturn \<Rightarrow> move i AtReturn hm
      | ThenAppend request \<Rightarrow> worker_reopen now i request hm
      | ThenReopen \<Rightarrow> worker_timer_open now i hm)"

text \<open>What a step makes known: a log whose place the locator has accepted, an update on the channel.\<close>

datatype hm_event = Quiet | Located Log LocatorRequest | Emitted HMFUpdate

definition worker_propagate ::
  "('l \<Rightarrow> LocatorRequest \<Rightarrow> ('l \<times> unit result) list) \<Rightarrow> nat \<Rightarrow> appendRequest \<Rightarrow> int \<Rightarrow> 'l Manager \<Rightarrow> ('l Manager \<times> hm_event) list" where
  "worker_propagate submit i request leafID hm =
     (let segment = map_option (\<lambda>p. asTree (segment_at hm p)) (wkActive (worker_of hm i)) in
      map (\<lambda>(hm', res). (answer i request res hm',
          case (res, segment) of (Inr _, Some tree) \<Rightarrow> Located (arLog request) (locator_request (arLog request) (tTreeID tree) leafID) | _ \<Rightarrow> Quiet))
        (propagateToALL submit hm (arLog request) segment leafID))"

definition worker_select :: "hash_fn \<Rightarrow> time \<Rightarrow> nat \<Rightarrow> 'l Manager \<Rightarrow> 'l Manager list" where
  "worker_select H now i hm =
     (let w = worker_of hm i in
      (if wkStopClosed w then [worker_stop H now i hm] else []) @
      (case wkRequests w of
         request # rest \<Rightarrow> [worker_request H now i request (put_worker i (w\<lparr>wkRequests := rest\<rparr>) hm)]
       | [] \<Rightarrow> if wkRequestsClosed w then [worker_stop H now i hm] else []) @
      (if wkTimer w = TimerRunning then [worker_timer H now i (put_worker i (w\<lparr>wkTimer := TimerFired\<rparr>) hm)] else []))"

text \<open>The end of the goroutine: it closes \<^verbatim>\<open>done\<close> and forgets the worker if the map still has it.\<close>

definition worker_exit :: "nat \<Rightarrow> 'l Manager \<Rightarrow> 'l Manager" where
  "worker_exit i hm =
     (let w = worker_of hm i; shardTreeID = shard_id (wkRegionID w) (wkShardID w) in
      move i AtEnd (if mgWorkers hm shardTreeID = Some i then hm\<lparr>mgWorkers := (mgWorkers hm)(shardTreeID := None)\<rparr> else hm))"

text \<open>One step of the goroutine of worker \<open>i\<close>, with the time at which it reads the clock.\<close>

definition runSegmentWorker ::
  "hash_fn \<Rightarrow> ('l \<Rightarrow> LocatorRequest \<Rightarrow> ('l \<times> unit result) list) \<Rightarrow> time \<Rightarrow> nat \<Rightarrow> 'l Manager \<Rightarrow> ('l Manager \<times> hm_event) list" where
  "runSegmentWorker H submit now i hm =
     (case wkAt (worker_of hm i) of
        AtSelect \<Rightarrow> map (\<lambda>hm. (hm, Quiet)) (worker_select H now i hm)
      | AtSend update after \<Rightarrow>
          if length (mgUpdates hm) < 256 then [(worker_sent now i after (hm\<lparr>mgUpdates := mgUpdates hm @ [update]\<rparr>), Emitted update)] else []
      | AtPropagate request leafID \<Rightarrow> worker_propagate submit i request leafID hm
      | AtReturn \<Rightarrow> [(put_worker i ((worker_of hm i)\<lparr>wkTimer := NoTimer, wkDoneClosed := True, wkAt := AtExit\<rparr>) hm, Quiet)]
      | AtExit \<Rightarrow> [(worker_exit i hm, Quiet)]
      | AtEnd \<Rightarrow> []
      | AtPanic e \<Rightarrow> [])"

section \<open>The system\<close>

text \<open>
  The calls of \<^verbatim>\<open>SubmitLog\<close>, numbered in the order of their start, with the manager. The state also
  records what the locator accepted and the updates put on the channel.
\<close>

datatype client_at = ClientSending nat | ClientWaiting nat | ClientReturned "unit result"

record 'l hm_system =
  hsManager :: "'l Manager"
  hsClients :: "(Log \<times> client_at) list"
  hsLocated :: "(Log \<times> LocatorRequest) list"
  hsEmitted :: "HMFUpdate list"

fun note_event :: "hm_event \<Rightarrow> 'l hm_system \<Rightarrow> 'l hm_system" where
  "note_event Quiet s = s"
| "note_event (Located lg request) s = s\<lparr>hsLocated := hsLocated s @ [(lg, request)]\<rparr>"
| "note_event (Emitted update) s = s\<lparr>hsEmitted := hsEmitted s @ [update]\<rparr>"

definition client_moves :: "nat \<Rightarrow> client_at \<Rightarrow> 'l hm_system \<Rightarrow> 'l hm_system" where
  "client_moves r at s = s\<lparr>hsClients := (hsClients s)[r := (fst (hsClients s ! r), at)]\<rparr>"

inductive hm_step ::
  "hash_fn \<Rightarrow> ('l \<Rightarrow> LocatorRequest \<Rightarrow> ('l \<times> unit result) list) \<Rightarrow> 'l hm_system \<Rightarrow> 'l hm_system \<Rightarrow> bool"
  for H :: hash_fn and submit :: "'l \<Rightarrow> LocatorRequest \<Rightarrow> ('l \<times> unit result) list" where
  call: "SubmitLog_start (hsManager s) shardID lg = (hm, res) \<Longrightarrow>
    hm_step H submit s (s\<lparr>hsManager := hm,
      hsClients := hsClients s @ [(lg, case res of Inl e \<Rightarrow> ClientReturned (Inl e) | Inr i \<Rightarrow> ClientSending i)]\<rparr>)"
| send: "r < length (hsClients s) \<Longrightarrow> hsClients s ! r = (lg, ClientSending i) \<Longrightarrow>
    (hm, res) \<in> set (SubmitLog_send ctxErr (hsManager s) i \<lparr>arLog = lg, arResult = r\<rparr>) \<Longrightarrow>
    hm_step H submit s (client_moves r (case res of Inl e \<Rightarrow> ClientReturned (Inl e) | Inr _ \<Rightarrow> ClientWaiting i) (s\<lparr>hsManager := hm\<rparr>))"
| wait: "r < length (hsClients s) \<Longrightarrow> hsClients s ! r = (lg, ClientWaiting i) \<Longrightarrow> res \<in> set (SubmitLog_wait ctxErr (hsManager s) i r) \<Longrightarrow>
    hm_step H submit s (client_moves r (ClientReturned res) s)"
| work: "i < length (mgWorkerObjects (hsManager s)) \<Longrightarrow> (hm, event) \<in> set (runSegmentWorker H submit now i (hsManager s)) \<Longrightarrow>
    hm_step H submit s (note_event event (s\<lparr>hsManager := hm\<rparr>))"
| receive: "Manager_Updates (hsManager s) = Some (hm, update) \<Longrightarrow> hm_step H submit s (s\<lparr>hsManager := hm\<rparr>)"
| stop: "StopWorker (hsManager s) regionID shardID = (hm, stopped) \<Longrightarrow> hm_step H submit s (s\<lparr>hsManager := hm\<rparr>)"
| locator: "hm_step H submit s (s\<lparr>hsManager := SetALL client (hsManager s)\<rparr>)"

definition hm_system_of :: "'l Manager \<Rightarrow> 'l hm_system" where
  "hm_system_of hm = \<lparr>hsManager = hm, hsClients = [], hsLocated = [], hsEmitted = []\<rparr>"

end
