(* ===== verification/HM_Invariant.thy ===== *)
theory HM_Invariant
  imports HM_Manager
begin

text \<open>
  The invariant of the manager under every interleaving of clients, workers, the consumer of the
  updates and the locator. It relates the segments in memory, the forest, the updates and the places
  the locator was told of: a place never changes its digest, two logs never share a place, and an
  update carries the tree of its segment and names the leaf of the shard tree that commits it.
\<close>

section \<open>The invariant\<close>

abbreviation tree_at :: "'l Manager \<Rightarrow> nat \<Rightarrow> SegmentTree" where
  "tree_at hm p \<equiv> asTree (segment_at hm p)"

definition seg_id :: "string \<Rightarrow> int \<Rightarrow> int \<Rightarrow> TreeID" where
  "seg_id rid sh g = \<lparr>tidType = TreeSegment, tidRegionID = rid, tidShardID = sh, tidSegmentID = g\<rparr>"

definition key_of :: "TreeID \<Rightarrow> TreeID" where
  "key_of tid = shard_id (tidRegionID tid) (tidShardID tid)"

definition next_of :: "'l Manager \<Rightarrow> TreeID \<Rightarrow> int" where
  "next_of hm key = gm_get 0 (mgNextSegmentIDs hm) key"

text \<open>Every segment is a well-formed tree with its own identity, below the next number of its shard.\<close>

definition segment_ok :: "hash_fn \<Rightarrow> 'l Manager \<Rightarrow> SegmentTree \<Rightarrow> bool" where
  "segment_ok H hm t \<longleftrightarrow> seg_inv H t \<and> tidType (tTreeID t) = TreeSegment \<and>
     0 \<le> tidSegmentID (tTreeID t) \<and> tidSegmentID (tTreeID t) < next_of hm (key_of (tTreeID t))"

definition heap_inv :: "hash_fn \<Rightarrow> nat \<Rightarrow> 'l Manager \<Rightarrow> bool" where
  "heap_inv H k hm \<longleftrightarrow> 0 < mgMaxSegmentLeaves hm \<and> (\<forall>seg \<in> set (mgSegmentObjects hm). segment_ok H hm (asTree seg)) \<and>
     distinct (map (tTreeID \<circ> asTree) (mgSegmentObjects hm)) \<and>
     (\<forall>key. 0 \<le> next_of hm key \<and> next_of hm key \<le> int k) \<and>
     (\<forall>key p. mgActiveSegments hm key = Some p \<longrightarrow> p < length (mgSegmentObjects hm) \<and> key_of (tTreeID (tree_at hm p)) = key)"

text \<open>A place in a segment, and the digest there.\<close>

type_synonym spot = "TreeID \<times> int"

definition holds :: "'l Manager \<Rightarrow> nat \<Rightarrow> int \<Rightarrow> hash \<Rightarrow> bool" where
  "holds hm p i h \<longleftrightarrow> p < length (mgSegmentObjects hm) \<and> 0 \<le> i \<and> nat i < length (seg_leaves (tree_at hm p)) \<and>
     seg_leaves (tree_at hm p) ! nat i = h"

definition placed :: "'l Manager \<Rightarrow> Log \<Rightarrow> spot \<Rightarrow> bool" where
  "placed hm lg spot \<longleftrightarrow> (\<exists>p. holds hm p (snd spot) (logDigest lg) \<and> tTreeID (tree_at hm p) = fst spot)"

definition place_request :: "Log \<times> spot \<Rightarrow> Log \<times> LocatorRequest" where
  "place_request = (\<lambda>(lg, tid, i). (lg, locator_request lg tid i))"

text \<open>An update of a sealed segment, committed in the forest with the segment lists \<open>segs\<close>.\<close>

definition update_of :: "hash_fn \<Rightarrow> SegmentTree \<Rightarrow> HMFUpdate \<Rightarrow> bool" where
  "update_of H t u \<longleftrightarrow> segSealed t \<and> SegmentTreeID u = tTreeID t \<and> SegmentNodes u = tree_nodes H (seg_leaves t) \<and>
     SegmentRoot u = merkle_root H (seg_leaves t) \<and> SegmentLeaves u = int (length (seg_leaves t))"

definition committed :: "hash_fn \<Rightarrow> segments \<Rightarrow> HMFUpdate \<Rightarrow> bool" where
  "committed H segs u \<longleftrightarrow>
     (let tid = SegmentTreeID u; ls = segs (tidRegionID tid, tidShardID tid) in
        0 \<le> ShardLeafIndex u \<and> nat (ShardLeafIndex u) < length ls \<and>
        ls ! nat (ShardLeafIndex u) =
          CommitSegmentRoot H (tidRegionID tid) (tidShardID tid) (tidSegmentID tid) (SegmentLeaves u) (SegmentRoot u))"

definition update_ok :: "hash_fn \<Rightarrow> segments \<Rightarrow> 'l Manager \<Rightarrow> HMFUpdate \<Rightarrow> bool" where
  "update_ok H segs hm u \<longleftrightarrow> (\<exists>p < length (mgSegmentObjects hm). update_of H (tree_at hm p) u) \<and> committed H segs u"

text \<open>Requests carry the log of the call that waits for them; a worker at the locator has stored the digest.\<close>

definition request_ok :: "Log list \<Rightarrow> appendRequest \<Rightarrow> bool" where
  "request_ok logs request \<longleftrightarrow> arResult request < length logs \<and> arLog request = logs ! arResult request"

fun requests_at :: "worker_at \<Rightarrow> appendRequest list" where
  "requests_at (AtPropagate request i) = [request]"
| "requests_at (AtSend u (ThenAppend request)) = [request]"
| "requests_at at = []"

fun update_at :: "worker_at \<Rightarrow> HMFUpdate option" where
  "update_at (AtSend u after) = Some u"
| "update_at at = None"

definition pending :: "'l Manager \<Rightarrow> segmentWorker \<Rightarrow> spot option" where
  "pending hm w = (case (wkAt w, wkActive w) of (AtPropagate request i, Some p) \<Rightarrow> Some (tTreeID (tree_at hm p), i) | _ \<Rightarrow> None)"

definition worker_ok :: "Log list \<Rightarrow> 'l Manager \<Rightarrow> segmentWorker \<Rightarrow> bool" where
  "worker_ok logs hm w \<longleftrightarrow> (\<forall>request \<in> set (wkRequests w @ requests_at (wkAt w)). request_ok logs request) \<and>
     (\<forall>p. wkActive w = Some p \<longrightarrow> p < length (mgSegmentObjects hm)) \<and>
     (\<forall>request i. wkAt w = AtPropagate request i \<longrightarrow> (\<exists>p. wkActive w = Some p \<and> holds hm p i (logDigest (arLog request))))"

text \<open>What is known of the outside: the places \<open>pl\<close> told to the locator and the updates \<open>emitted\<close>.\<close>

definition free_spot :: "(Log \<times> spot) list \<Rightarrow> nat \<Rightarrow> 'l Manager \<Rightarrow> spot \<Rightarrow> bool" where
  "free_spot pl i hm spot \<longleftrightarrow> spot \<notin> snd ` set pl \<and>
     (\<forall>j < length (mgWorkerObjects hm). j \<noteq> i \<longrightarrow> pending hm (worker_of hm j) \<noteq> Some spot)"

definition places_ok :: "(Log \<times> spot) list \<Rightarrow> 'l Manager \<Rightarrow> bool" where
  "places_ok pl hm \<longleftrightarrow> distinct (map snd pl) \<and> (\<forall>(lg, spot) \<in> set pl. placed hm lg spot) \<and>
     (\<forall>i < length (mgWorkerObjects hm). \<forall>spot. pending hm (worker_of hm i) = Some spot \<longrightarrow> free_spot pl i hm spot)"

definition hm_inv ::
  "hash_fn \<Rightarrow> string list \<Rightarrow> nat \<Rightarrow> segments \<Rightarrow> nat \<Rightarrow> Log list \<Rightarrow> (Log \<times> spot) list \<Rightarrow> HMFUpdate list \<Rightarrow> 'l Manager \<Rightarrow> bool" where
  "hm_inv H rids n segs k logs pl emitted hm \<longleftrightarrow> heap_inv H k hm \<and>
     forest_repr H rids n segs (mgHMF hm) \<and> (\<forall>key. length (segs key) \<le> k) \<and>
     (\<forall>u \<in> set emitted. update_ok H segs hm u) \<and>
     (\<forall>w \<in> set (mgWorkerObjects hm). worker_ok logs hm w \<and> (\<forall>u. update_at (wkAt w) = Some u \<longrightarrow> update_ok H segs hm u)) \<and>
     places_ok pl hm \<and>
     (\<forall>r. mgResults hm r = Some (Inr ()) \<longrightarrow> r < length logs \<and> logs ! r \<in> fst ` set pl)"

section \<open>Growing segments\<close>

text \<open>Segments are only added, and their leaves only appended; a sealed one does not change.\<close>

definition grows :: "'l Manager \<Rightarrow> 'l Manager \<Rightarrow> bool" where
  "grows hm hm' \<longleftrightarrow> length (mgSegmentObjects hm) \<le> length (mgSegmentObjects hm') \<and>
     (\<forall>p < length (mgSegmentObjects hm). tTreeID (tree_at hm' p) = tTreeID (tree_at hm p) \<and>
        (\<exists>hs. seg_leaves (tree_at hm' p) = seg_leaves (tree_at hm p) @ hs) \<and>
        (segSealed (tree_at hm p) \<longrightarrow> tree_at hm' p = tree_at hm p))"

lemma grows_same: "mgSegmentObjects hm' = mgSegmentObjects hm \<Longrightarrow> grows hm hm'"
  by (simp add: grows_def)

lemma holds_grows: "holds hm p i h \<Longrightarrow> grows hm hm' \<Longrightarrow> holds hm' p i h"
  by (auto simp: holds_def grows_def nth_append dest!: spec [of _ p])

lemma placed_grows: "placed hm lg spot \<Longrightarrow> grows hm hm' \<Longrightarrow> placed hm' lg spot"
  unfolding placed_def by (metis holds_grows holds_def grows_def)

lemma update_ok_grows: "update_ok H segs hm u \<Longrightarrow> grows hm hm' \<Longrightarrow> update_ok H segs hm' u"
  unfolding update_ok_def grows_def by (metis order_less_le_trans update_of_def)

lemma update_ok_segs: "update_ok H segs hm u \<Longrightarrow> update_ok H (append_segment segs rid s c) hm u"
  by (auto simp: update_ok_def committed_def append_segment_def Let_def nth_append)

lemma worker_ok_grows: "worker_ok logs hm w \<Longrightarrow> grows hm hm' \<Longrightarrow> worker_ok logs hm' w"
  unfolding worker_ok_def by (metis holds_grows grows_def order_less_le_trans)

lemma pending_grows: "worker_ok logs hm w \<Longrightarrow> grows hm hm' \<Longrightarrow> pending hm' w = pending hm w"
  by (auto simp: pending_def worker_ok_def grows_def split: worker_at.splits option.splits)

lemma free_spot_grows:
  assumes "grows hm hm'" and "mgWorkerObjects hm' = mgWorkerObjects hm" and "\<forall>w \<in> set (mgWorkerObjects hm). worker_ok logs hm w"
  shows "free_spot pl i hm' = free_spot pl i hm"
    and "j < length (mgWorkerObjects hm) \<Longrightarrow> pending hm' (worker_of hm j) = pending hm (worker_of hm j)"
proof -
  show pend: "pending hm' (worker_of hm i) = pending hm (worker_of hm i)" if "i < length (mgWorkerObjects hm)" for i
    using that assms(3) by (intro pending_grows [OF _ assms(1)]) auto
  show "free_spot pl i hm' = free_spot pl i hm" using assms(2) pend by (simp add: fun_eq_iff free_spot_def)
qed

lemma places_ok_grows:
  assumes "places_ok pl hm" and "grows hm hm'" and "mgWorkerObjects hm' = mgWorkerObjects hm"
    and "\<forall>w \<in> set (mgWorkerObjects hm). worker_ok logs hm w"
  shows "places_ok pl hm'"
  using assms(1,3) free_spot_grows [OF assms(2,3,4)] placed_grows [OF _ assms(2)] unfolding places_ok_def by fastforce

text \<open>The step that most changes take: the heap grows and the workers stay.\<close>

lemma hm_inv_grows:
  assumes "hm_inv H rids n segs k logs pl emitted hm" and "grows hm hm'" and "heap_inv H k' hm'" and "k \<le> k'"
    and "mgWorkerObjects hm' = mgWorkerObjects hm" and "mgHMF hm' = mgHMF hm" and "mgResults hm' = mgResults hm"
  shows "hm_inv H rids n segs k' logs pl emitted hm'"
proof -
  have inv: "forest_repr H rids n segs (mgHMF hm)" "\<And>key. length (segs key) \<le> k" "\<And>u. u \<in> set emitted \<Longrightarrow> update_ok H segs hm u"
    "\<And>w. w \<in> set (mgWorkerObjects hm) \<Longrightarrow> worker_ok logs hm w \<and> (\<forall>u. update_at (wkAt w) = Some u \<longrightarrow> update_ok H segs hm u)"
    "places_ok pl hm" "\<And>r. mgResults hm r = Some (Inr ()) \<Longrightarrow> r < length logs \<and> logs ! r \<in> fst ` set pl"
    using assms(1) by (auto simp: hm_inv_def)
  have "places_ok pl hm'" by (rule places_ok_grows [OF inv(5) assms(2,5)]) (use inv(4) in blast)
  moreover have "length (segs key) \<le> k'" for key using inv(2) [of key] assms(4) by simp
  ultimately show ?thesis
    using assms(3,5,6,7) inv(1,3,4,6) update_ok_grows [OF _ assms(2)] worker_ok_grows [OF _ assms(2)] by (simp add: hm_inv_def)
qed


lemma hm_inv_heap: "hm_inv H rids n segs k logs pl emitted hm \<Longrightarrow> heap_inv H k hm"
  by (simp add: hm_inv_def)

lemma hm_inv_worker: "hm_inv H rids n segs k logs pl emitted hm \<Longrightarrow> i < length (mgWorkerObjects hm) \<Longrightarrow> worker_ok logs hm (worker_of hm i)"
  by (simp add: hm_inv_def)

lemma hm_inv_update: "hm_inv H rids n segs k logs pl emitted hm \<Longrightarrow> i < length (mgWorkerObjects hm) \<Longrightarrow>
    update_at (wkAt (worker_of hm i)) = Some u \<Longrightarrow> update_ok H segs hm u"
  unfolding hm_inv_def by (meson nth_mem)

lemma hm_inv_mono: "hm_inv H rids n segs k logs pl emitted hm \<Longrightarrow> k \<le> k' \<Longrightarrow> hm_inv H rids n segs k' logs pl emitted hm"
  by (rule hm_inv_grows [where hm = hm]) (auto simp: grows_same hm_inv_def heap_inv_def intro: order_trans)

section \<open>Changes of one object\<close>

lemma put_segment_simps [simp]:
  "mgSegmentObjects (put_segment p seg hm) = (mgSegmentObjects hm)[p := seg]"
  "mgWorkerObjects (put_segment p seg hm) = mgWorkerObjects hm" "mgHMF (put_segment p seg hm) = mgHMF hm"
  "mgResults (put_segment p seg hm) = mgResults hm" "mgActiveSegments (put_segment p seg hm) = mgActiveSegments hm"
  "mgNextSegmentIDs (put_segment p seg hm) = mgNextSegmentIDs hm" "mgMaxSegmentLeaves (put_segment p seg hm) = mgMaxSegmentLeaves hm"
  "mgWorkers (put_segment p seg hm) = mgWorkers hm" "mgUpdates (put_segment p seg hm) = mgUpdates hm"
  "mgLocator (put_segment p seg hm) = mgLocator hm" "mgSegmentDuration (put_segment p seg hm) = mgSegmentDuration hm"
  by (simp_all add: put_segment_def)

lemma put_worker_simps [simp]:
  "mgWorkerObjects (put_worker i w hm) = (mgWorkerObjects hm)[i := w]"
  "mgSegmentObjects (put_worker i w hm) = mgSegmentObjects hm" "mgHMF (put_worker i w hm) = mgHMF hm"
  "mgResults (put_worker i w hm) = mgResults hm" "mgActiveSegments (put_worker i w hm) = mgActiveSegments hm"
  "mgNextSegmentIDs (put_worker i w hm) = mgNextSegmentIDs hm" "mgMaxSegmentLeaves (put_worker i w hm) = mgMaxSegmentLeaves hm"
  "mgWorkers (put_worker i w hm) = mgWorkers hm" "mgUpdates (put_worker i w hm) = mgUpdates hm"
  "mgLocator (put_worker i w hm) = mgLocator hm" "mgSegmentDuration (put_worker i w hm) = mgSegmentDuration hm"
  by (simp_all add: put_worker_def)

lemma map_list_update_same: "p < length xs \<Longrightarrow> f x = f (xs ! p) \<Longrightarrow> map f (xs[p := x]) = map f xs"
  by (metis list_update_id map_update)

lemma put_segment_inv:
  assumes inv: "hm_inv H rids n segs k logs pl emitted hm" and p: "p < length (mgSegmentObjects hm)"
    and t: "seg_inv H (asTree seg)" "tTreeID (asTree seg) = tTreeID (tree_at hm p)"
      "seg_leaves (asTree seg) = seg_leaves (tree_at hm p) @ hs" "segSealed (tree_at hm p) \<longrightarrow> asTree seg = tree_at hm p"
  shows "hm_inv H rids n segs k logs pl emitted (put_segment p seg hm)"
proof (rule hm_inv_grows [OF inv])
  show "grows hm (put_segment p seg hm)" using p t by (auto simp: grows_def nth_list_update)
  have h: "heap_inv H k hm" by (rule hm_inv_heap [OF inv])
  then have "segment_ok H hm (tree_at hm p)" using p by (auto simp: heap_inv_def)
  then have ok: "segment_ok H hm (asTree seg)" using t by (simp add: segment_ok_def)
  have same: "segment_ok H (put_segment p seg hm) = segment_ok H hm" by (simp add: fun_eq_iff segment_ok_def next_of_def)
  have "\<forall>s \<in> set ((mgSegmentObjects hm)[p := seg]). segment_ok H hm (asTree s)"
    using h ok set_update_subset_insert [of "mgSegmentObjects hm" p seg] by (auto simp: heap_inv_def)
  moreover have "map (tTreeID \<circ> asTree) ((mgSegmentObjects hm)[p := seg]) = map (tTreeID \<circ> asTree) (mgSegmentObjects hm)"
    using p t(2) by (intro map_list_update_same) auto
  ultimately show "heap_inv H k (put_segment p seg hm)"
    using h p t(2) by (auto simp: heap_inv_def same next_of_def nth_list_update)
qed auto

lemma put_worker_inv:
  assumes inv: "hm_inv H rids n segs k logs pl emitted hm" and i: "i < length (mgWorkerObjects hm)"
    and w: "worker_ok logs hm w" "\<forall>u. update_at (wkAt w) = Some u \<longrightarrow> update_ok H segs hm u"
      "\<forall>spot. pending hm w = Some spot \<longrightarrow> free_spot pl i hm spot"
  shows "hm_inv H rids n segs k logs pl emitted (put_worker i w hm)"
proof -
  let ?hm = "put_worker i w hm"
  have [simp]: "holds ?hm = holds hm" "placed ?hm = placed hm" "pending ?hm = pending hm" "worker_ok logs ?hm = worker_ok logs hm"
    "update_ok H segs ?hm = update_ok H segs hm" "segment_ok H ?hm = segment_ok H hm"
    by (auto simp: fun_eq_iff holds_def placed_def pending_def worker_ok_def update_ok_def segment_ok_def next_of_def split: worker_at.splits option.splits)
  have ok: "places_ok pl hm" using inv by (simp add: hm_inv_def)
  have free: "free_spot pl j ?hm spot" if j: "j < length (mgWorkerObjects hm)" "pending hm (worker_of ?hm j) = Some spot" for j spot
  proof (cases "j = i")
    case True
    then show ?thesis using j w(3) i by (simp add: free_spot_def)
  next
    case False
    then have *: "pending hm (worker_of hm j) = Some spot" using j by simp
    with j(1) have "free_spot pl j hm spot" using ok unfolding places_ok_def by blast
    moreover have "pending hm w \<noteq> Some spot" using w(3) False j(1) * unfolding free_spot_def by blast
    ultimately show ?thesis using i by (auto simp: free_spot_def nth_list_update)
  qed
  have pl: "places_ok pl ?hm" using ok free by (simp add: places_ok_def)
  have "worker_ok logs hm w' \<and> (\<forall>u. update_at (wkAt w') = Some u \<longrightarrow> update_ok H segs hm u)" if "w' \<in> set ((mgWorkerObjects hm)[i := w])" for w'
  proof -
    have "w' = w \<or> w' \<in> set (mgWorkerObjects hm)" using that set_update_subset_insert [of "mgWorkerObjects hm" i w] by auto
    then show ?thesis using w(1,2) inv unfolding hm_inv_def by blast
  qed
  with inv pl show ?thesis by (simp add: hm_inv_def heap_inv_def next_of_def)
qed

lemma hm_inv_free: "hm_inv H rids n segs k logs pl emitted hm \<Longrightarrow> i < length (mgWorkerObjects hm) \<Longrightarrow>
    pending hm (worker_of hm i) = Some spot \<Longrightarrow> free_spot pl i hm spot"
  unfolding hm_inv_def places_ok_def by blast

text \<open>A worker that goes to a point without a place.\<close>

lemma move_inv:
  assumes inv: "hm_inv H rids n segs k logs pl emitted hm" and i: "i < length (mgWorkerObjects hm)"
    and at: "\<forall>request \<in> set (requests_at at). request_ok logs request" "\<forall>u. update_at at = Some u \<longrightarrow> update_ok H segs hm u"
      "\<forall>request j. at \<noteq> AtPropagate request j"
  shows "hm_inv H rids n segs k logs pl emitted (move i at hm)"
  using hm_inv_worker [OF inv i] at
  by (intro put_worker_inv [OF inv i]) (auto simp: worker_ok_def pending_def split: worker_at.splits)

lemma results_inv:
  assumes "hm_inv H rids n segs k logs pl emitted hm" and "res = Inr () \<longrightarrow> r < length logs \<and> logs ! r \<in> fst ` set pl"
  shows "hm_inv H rids n segs k logs pl emitted (hm\<lparr>mgResults := (mgResults hm)(r \<mapsto> res)\<rparr>)"
proof -
  let ?hm = "hm\<lparr>mgResults := (mgResults hm)(r \<mapsto> res)\<rparr>"
  have [simp]: "holds ?hm = holds hm" "placed ?hm = placed hm" "pending ?hm = pending hm" "worker_ok logs ?hm = worker_ok logs hm"
    "update_ok H segs ?hm = update_ok H segs hm" "segment_ok H ?hm = segment_ok H hm"
    by (auto simp: fun_eq_iff holds_def placed_def pending_def worker_ok_def update_ok_def segment_ok_def next_of_def split: worker_at.splits option.splits)
  show ?thesis using assms by (simp add: hm_inv_def heap_inv_def next_of_def places_ok_def free_spot_def)
qed

lemma answer_inv:
  assumes "hm_inv H rids n segs k logs pl emitted hm" and "i < length (mgWorkerObjects hm)"
    and "res = Inr () \<longrightarrow> arResult request < length logs \<and> logs ! arResult request \<in> fst ` set pl"
  shows "hm_inv H rids n segs k logs pl emitted (answer i request res hm)"
  unfolding answer_def by (rule move_inv [OF results_inv [OF assms(1,3)]]) (use assms(2) in auto)


section \<open>Opening a segment\<close>

lemma nextSegmentID_inv:
  assumes inv: "hm_inv H rids n segs k logs pl emitted hm" and k: "int k < MaxInt64" and eq: "nextSegmentID hm rid sh = (hm', g)"
  shows "hm_inv H rids n segs (Suc k) logs pl emitted hm'" and "mgWorkerObjects hm' = mgWorkerObjects hm" and "0 \<le> g"
    and "next_of hm' (shard_id rid sh) = g + 1"
    and "\<forall>seg \<in> set (mgSegmentObjects hm'). key_of (tTreeID (asTree seg)) = shard_id rid sh \<longrightarrow> tidSegmentID (tTreeID (asTree seg)) < g"
proof -
  let ?key = "shard_id rid sh"
  have h: "heap_inv H k hm" by (rule hm_inv_heap [OF inv])
  have g: "g = next_of hm ?key" and hm': "hm' = hm\<lparr>mgNextSegmentIDs := (mgNextSegmentIDs hm)(?key \<mapsto> wrap64 (g + 1))\<rparr>"
    using eq by (auto simp: nextSegmentID_def next_of_def Let_def)
  have b: "0 \<le> g" "g \<le> int k" using h unfolding g by (auto simp: heap_inv_def)
  then have "int64 (g + 1)" using k by (simp add: int64_def)
  then have nx: "next_of hm' key = (if key = ?key then g + 1 else next_of hm key)" for key by (simp add: hm' next_of_def gm_get_def)
  have "segment_ok H hm' t" if "segment_ok H hm t" for t using that by (auto simp: segment_ok_def nx g [symmetric])
  moreover have "0 \<le> next_of hm' key \<and> next_of hm' key \<le> int (Suc k)" for key
  proof -
    have "0 \<le> next_of hm key \<and> next_of hm key \<le> int k" using h by (simp add: heap_inv_def)
    then show ?thesis using b by (simp add: nx)
  qed
  moreover have "mgSegmentObjects hm' = mgSegmentObjects hm" "mgActiveSegments hm' = mgActiveSegments hm" "mgMaxSegmentLeaves hm' = mgMaxSegmentLeaves hm"
    by (simp_all add: hm')
  ultimately have h': "heap_inv H (Suc k) hm'" using h unfolding heap_inv_def by simp
  show "hm_inv H rids n segs (Suc k) logs pl emitted hm'"
    by (rule hm_inv_grows [OF inv grows_same h']) (simp_all add: hm')
  show "next_of hm' ?key = g + 1" by (simp add: nx)
  show "mgWorkerObjects hm' = mgWorkerObjects hm" by (simp add: hm')
  show "0 \<le> g" by (rule b(1))
  show "\<forall>seg \<in> set (mgSegmentObjects hm'). key_of (tTreeID (asTree seg)) = ?key \<longrightarrow> tidSegmentID (tTreeID (asTree seg)) < g"
    using h by (auto simp: hm' heap_inv_def segment_ok_def g)
qed

lemma NewSegmentTree_id: "NewSegmentTree r s g m = Inr t \<Longrightarrow> tTreeID t = seg_id r s g"
  by (auto simp: NewSegmentTree_def seg_id_def split: if_splits)

lemma openSegment_cases:
  assumes eq: "openSegment now hm rid sh g = (hm', res)"
  obtains "hm' = hm" | t where "NewSegmentTree rid sh g (mgMaxSegmentLeaves hm) = Inr t" and "mgActiveSegments hm (shard_id rid sh) = None"
    and "hm' = hm\<lparr>mgSegmentObjects := mgSegmentObjects hm @ [\<lparr>asTree = t, asCreatedAt = now, asStartedAt = time_zero, asEndedAt = time_zero, asSealedAt = time_zero\<rparr>],
      mgActiveSegments := (mgActiveSegments hm)(shard_id rid sh \<mapsto> length (mgSegmentObjects hm))\<rparr>"
proof (cases "hmfShardTrees (mgHMF hm) (shard_id rid sh) = None \<or> mgActiveSegments hm (shard_id rid sh) \<noteq> None")
  case True
  then show thesis using eq by (intro that(1)) (simp add: openSegment_def Let_def split: if_splits)
next
  case False
  then obtain y where y: "hmfShardTrees (mgHMF hm) (shard_id rid sh) = Some y" "mgActiveSegments hm (shard_id rid sh) = None" by auto
  show thesis
  proof (cases "NewSegmentTree rid sh g (mgMaxSegmentLeaves hm)")
    case (Inl e)
    then show thesis using eq y by (intro that(1)) (simp add: openSegment_def Let_def)
  next
    case (Inr t)
    then show thesis using eq y by (intro that(2) [of t]) (simp_all add: openSegment_def Let_def)
  qed
qed

lemma openSegment_inv:
  assumes inv: "hm_inv H rids n segs k logs pl emitted hm" and g: "0 \<le> g" "next_of hm (shard_id rid sh) = g + 1"
    and fresh: "\<forall>seg \<in> set (mgSegmentObjects hm). key_of (tTreeID (asTree seg)) = shard_id rid sh \<longrightarrow> tidSegmentID (tTreeID (asTree seg)) < g"
    and eq: "openSegment now hm rid sh g = (hm', res)"
  shows "hm_inv H rids n segs k logs pl emitted hm'" and "mgWorkerObjects hm' = mgWorkerObjects hm"
proof -
  have h: "heap_inv H k hm" by (rule hm_inv_heap [OF inv])
  consider "hm' = hm" | t where "NewSegmentTree rid sh g (mgMaxSegmentLeaves hm) = Inr t" and "mgActiveSegments hm (shard_id rid sh) = None"
    and "hm' = hm\<lparr>mgSegmentObjects := mgSegmentObjects hm @ [\<lparr>asTree = t, asCreatedAt = now, asStartedAt = time_zero, asEndedAt = time_zero, asSealedAt = time_zero\<rparr>],
      mgActiveSegments := (mgActiveSegments hm)(shard_id rid sh \<mapsto> length (mgSegmentObjects hm))\<rparr>"
    by (rule openSegment_cases [OF eq])
  then have "hm_inv H rids n segs k logs pl emitted hm' \<and> mgWorkerObjects hm' = mgWorkerObjects hm"
  proof cases
    case 2
    have t: "seg_inv H t" "tTreeID t = seg_id rid sh g" using NewSegmentTree_inv [OF 2(1)] NewSegmentTree_id [OF 2(1)] by auto
    have nx: "next_of hm' = next_of hm" by (simp add: fun_eq_iff next_of_def 2(3))
    have key: "key_of (tTreeID t) = shard_id rid sh" by (simp add: t(2) key_of_def seg_id_def)
    have "segment_ok H hm' t" using t g by (simp add: segment_ok_def nx key seg_id_def key_of_def)
    moreover have "segment_ok H hm' t'" if "segment_ok H hm t'" for t' using that by (simp add: segment_ok_def nx)
    moreover have "tTreeID t \<notin> (tTreeID \<circ> asTree) ` set (mgSegmentObjects hm)"
    proof
      assume "tTreeID t \<in> (tTreeID \<circ> asTree) ` set (mgSegmentObjects hm)"
      then obtain seg where "seg \<in> set (mgSegmentObjects hm)" "tTreeID (asTree seg) = tTreeID t" by auto
      with fresh key have "tidSegmentID (tTreeID t) < g" by metis
      then show False by (simp add: t(2) seg_id_def)
    qed
    moreover have "p < length (mgSegmentObjects hm') \<and> key_of (tTreeID (tree_at hm' p)) = key'" if "mgActiveSegments hm' key' = Some p" for key' p
    proof (cases "key' = shard_id rid sh")
      case False
      then have "p < length (mgSegmentObjects hm) \<and> key_of (tTreeID (tree_at hm p)) = key'" using h that by (simp add: heap_inv_def 2(3))
      then show ?thesis by (simp add: 2(3) nth_append)
    next
      case True
      then have "p = length (mgSegmentObjects hm)" using that by (simp add: 2(3))
      then show ?thesis using True key by (simp add: 2(3))
    qed
    ultimately have "heap_inv H k hm'"
      using h unfolding heap_inv_def nx by (simp add: 2(3))
    moreover have "grows hm hm'" by (auto simp: grows_def 2(3) nth_append)
    ultimately show ?thesis using hm_inv_grows [OF inv, of hm' k] by (simp add: 2(3))
  qed (use inv in simp)
  then show "hm_inv H rids n segs k logs pl emitted hm'" and "mgWorkerObjects hm' = mgWorkerObjects hm" by auto
qed

lemma worker_open_inv:
  assumes inv: "hm_inv H rids n segs k logs pl emitted hm" and k: "int k < MaxInt64" and i: "i < length (mgWorkerObjects hm)"
    and at: "\<forall>request j. wkAt (worker_of hm i) \<noteq> AtPropagate request j" and eq: "worker_open now i hm = (hm', res)"
  shows "hm_inv H rids n segs (Suc k) logs pl emitted hm'" and "length (mgWorkerObjects hm') = length (mgWorkerObjects hm)"
    and "wkAt (worker_of hm' i) = wkAt (worker_of hm i)"
proof -
  let ?w = "worker_of hm i"
  obtain hm1 g where nx: "nextSegmentID hm (wkRegionID ?w) (wkShardID ?w) = (hm1, g)" by force
  obtain hm2 r where op: "openSegment now hm1 (wkRegionID ?w) (wkShardID ?w) g = (hm2, r)" by force
  note n = nextSegmentID_inv [OF inv k nx]
  note o = openSegment_inv [OF n(1,3,4,5) op]
  have ws: "mgWorkerObjects hm2 = mgWorkerObjects hm" using n(2) o(2) by simp
  have ok: "worker_ok logs hm2 ?w" using hm_inv_worker [OF o(1), of i] i by (simp add: ws)
  have up: "\<forall>u. update_at (wkAt ?w) = Some u \<longrightarrow> update_ok H segs hm2 u" using hm_inv_update [OF o(1), of i] i by (simp add: ws)
  have put: "hm_inv H rids n segs (Suc k) logs pl emitted (put_worker i (?w\<lparr>wkActive := act, wkTimer := tm\<rparr>) hm2)"
    if "\<forall>p. act = Some p \<longrightarrow> p < length (mgSegmentObjects hm2)" for act tm
    using ok up at that i by (intro put_worker_inv [OF o(1)]) (auto simp: ws worker_ok_def pending_def split: worker_at.splits)
  have act: "p < length (mgSegmentObjects hm2)" if "mgActiveSegments hm2 key = Some p" for key p
    using hm_inv_heap [OF o(1)] that by (simp add: heap_inv_def)
  have tm: "?w\<lparr>wkActive := None\<rparr> = ?w\<lparr>wkActive := None, wkTimer := wkTimer ?w\<rparr>" by simp
  show "hm_inv H rids n segs (Suc k) logs pl emitted hm'"
    using eq nx op put [of None "wkTimer ?w"] o(1) put [of "Some _"] act
    by (auto simp: worker_open_def getActiveSegment_def Let_def split: sum.splits option.splits)
  show "length (mgWorkerObjects hm') = length (mgWorkerObjects hm)" "wkAt (worker_of hm' i) = wkAt ?w"
    using eq nx op i ws by (auto simp: worker_open_def Let_def split: sum.splits)
qed


section \<open>Closing a segment\<close>

lemma forest_inv:
  assumes inv: "hm_inv H rids n segs k logs pl emitted hm" and f: "forest_repr H rids n (append_segment segs rid s c) f"
  shows "hm_inv H rids n (append_segment segs rid s c) (Suc k) logs pl emitted (hm\<lparr>mgHMF := f, mgActiveSegments := (mgActiveSegments hm)(key := None)\<rparr>)"
proof -
  let ?hm = "hm\<lparr>mgHMF := f, mgActiveSegments := (mgActiveSegments hm)(key := None)\<rparr>"
  have len: "length (append_segment segs rid s c key') \<le> Suc k" for key'
  proof -
    have "length (segs key') \<le> k" using inv unfolding hm_inv_def by blast
    then show ?thesis by (auto simp: append_segment_def)
  qed
  have up: "update_ok H (append_segment segs rid s c) ?hm u" if "update_ok H segs hm u" for u
    by (rule update_ok_segs, rule update_ok_grows [OF that], rule grows_same) simp
  have ok: "worker_ok logs ?hm w" if "worker_ok logs hm w" for w by (rule worker_ok_grows [OF that], rule grows_same) simp
  have "places_ok pl hm" and "\<forall>w \<in> set (mgWorkerObjects hm). worker_ok logs hm w" using inv by (auto simp: hm_inv_def)
  then have pl: "places_ok pl ?hm" using places_ok_grows [of pl hm ?hm logs] by (simp add: grows_same)
  have "segment_ok H ?hm = segment_ok H hm" "next_of ?hm = next_of hm" by (auto simp: fun_eq_iff segment_ok_def next_of_def)
  moreover have "heap_inv H (Suc k) hm" using hm_inv_heap [OF hm_inv_mono [OF inv, of "Suc k"]] by simp
  ultimately have "heap_inv H (Suc k) ?hm" by (simp add: heap_inv_def)
  then show ?thesis using inv f len up ok pl unfolding hm_inv_def by simp
qed

lemma append_inv:
  assumes inv: "hm_inv H rids n segs k logs pl emitted hm" and k: "int k < MaxInt64"
    and at: "rid \<in> set rids" "0 \<le> sh" "sh < int n" and seg: "0 \<le> g" "0 < cnt"
    and ap: "AppendSealedSegment H (mgHMF hm) rid sh g cnt root = (f, r)"
  shows "\<exists>segs' u. r = Inr u \<and>
    hm_inv H rids n segs' (Suc k) logs pl emitted (hm\<lparr>mgHMF := f, mgActiveSegments := (mgActiveSegments hm)(key := None)\<rparr>) \<and>
    (\<forall>u'. SegmentTreeID u' = seg_id rid sh g \<longrightarrow> SegmentLeaves u' = cnt \<longrightarrow> SegmentRoot u' = root \<longrightarrow>
      ShardLeafIndex u' = ShardLeafIndex u \<longrightarrow> committed H segs' u')"
proof -
  obtain q where q: "q < length rids" "rids ! q = rid" using at(1) by (auto simp: in_set_conv_nth)
  obtain m where m: "sh = int m" "m < n" using at(2,3) by (metis nat_less_iff int_nat_eq)
  have repr: "forest_repr H rids n segs (mgHMF hm)" using inv by (simp add: hm_inv_def)
  have "length (segs (rids ! q, int m)) \<le> k" using inv unfolding hm_inv_def by blast
  then have len: "int (length (segs (rids ! q, int m))) < MaxInt64" using k by linarith
  let ?segs = "append_segment segs rid sh (CommitSegmentRoot H rid sh g cnt root)"
  obtain u where u: "r = Inr u" "forest_repr H rids n ?segs f" "update_spec H rids n ?segs q m u"
    using AppendSealedSegment_refines [OF repr q(1) m(2) seg len, of root] ap by (auto simp: q(2) m(1))
  have "committed H ?segs u'" if "SegmentTreeID u' = seg_id rid sh g" "SegmentLeaves u' = cnt" "SegmentRoot u' = root" "ShardLeafIndex u' = ShardLeafIndex u" for u'
    using u(3) that by (simp add: committed_def seg_id_def update_spec_def q(2) flip: m(1)) (simp add: append_segment_def m(1) Let_def nth_append)
  then show ?thesis using u(1) forest_inv [OF inv u(2), of key] by blast
qed

lemma closeSegment_inv:
  assumes inv: "hm_inv H rids n segs k logs pl emitted hm" and k: "int k < MaxInt64" and eq: "closeSegment H now hm rid sh = (hm', res)"
  shows "\<exists>segs'. hm_inv H rids n segs' (Suc k) logs pl emitted hm' \<and> (\<forall>u. res = Inr u \<longrightarrow> update_ok H segs' hm' u) \<and>
    mgWorkerObjects hm' = mgWorkerObjects hm"
proof (cases "mgActiveSegments hm (shard_id rid sh)")
  case None
  then show ?thesis using eq hm_inv_mono [OF inv, of "Suc k"] by (auto simp: closeSegment_def getActiveSegment_def)
next
  case (Some p)
  let ?t = "tree_at hm p"
  define seg where "seg = (if IsZero (asSealedAt (segment_at hm p)) then (segment_at hm p)\<lparr>asSealedAt := now\<rparr> else segment_at hm p)"
  have tree [simp]: "asTree seg = ?t" by (simp add: seg_def)
  have h: "heap_inv H k hm" by (rule hm_inv_heap [OF inv])
  then have p: "p < length (mgSegmentObjects hm)" and key: "key_of (tTreeID ?t) = shard_id rid sh" using Some by (auto simp: heap_inv_def)
  then have tok: "segment_ok H hm ?t" using h by (auto simp: heap_inv_def)
  then have t: "seg_inv H ?t" "0 \<le> tidSegmentID (tTreeID ?t)" by (auto simp: segment_ok_def)
  note inv1 = put_segment_inv [OF inv p, of seg "[]", simplified, OF t(1)]
  show ?thesis
  proof (cases "SegmentTree_Seal H ?t")
    case (Inl e)
    then have "hm' = put_segment p seg hm" "res = Inl e" using eq Some by (simp_all add: closeSegment_def getActiveSegment_def Let_def flip: seg_def)
    then show ?thesis using hm_inv_mono [OF inv1, of "Suc k"] by auto
  next
    case (Inr x)
    then obtain tree nodes where seal: "SegmentTree_Seal H ?t = Inr (tree, nodes)" by (cases x) auto
    note s = SegmentTree_Seal_Inr [OF t(1) seal]
    have inv2: "hm_inv H rids n segs k logs pl emitted (put_segment p (seg\<lparr>asTree := tree\<rparr>) (put_segment p seg hm))" (is "hm_inv _ _ _ _ _ _ _ _ ?hm2")
      using p s by (intro put_segment_inv [OF inv1, where hs = "[]"]) auto
    have cnt: "tLeafCount tree = int (length (seg_leaves ?t))" "0 < tLeafCount tree" "tRoot tree = merkle_root H (seg_leaves ?t)"
      using s by (auto simp: seg_inv_def)
    have id: "tidRegionID (tTreeID ?t) = rid" "tidShardID (tTreeID ?t) = sh" using key by (simp_all add: key_of_def)
    obtain f r where ap: "AppendSealedSegment H (mgHMF hm) rid sh (tidSegmentID (tTreeID tree)) (tLeafCount tree) (tRoot tree) = (f, r)" by force
    have repr: "forest_repr H rids n segs (mgHMF hm)" using inv by (simp add: hm_inv_def)
    show ?thesis
    proof (cases "rid \<in> set rids \<and> 0 \<le> sh \<and> sh < int n")
      case False
      then have "\<exists>e. (f, r) = (mgHMF hm, Inl e)" unfolding ap [symmetric] by (intro AppendSealedSegment_refused [OF repr]) auto
      then have "hm' = ?hm2" "\<forall>u. res \<noteq> Inr u"
        using eq Some seal ap by (auto simp: closeSegment_def getActiveSegment_def Let_def simp flip: seg_def)
      then show ?thesis using hm_inv_mono [OF inv2, of "Suc k"] by auto
    next
      case True
      obtain segs' u where u: "r = Inr u"
        and inv3: "hm_inv H rids n segs' (Suc k) logs pl emitted (?hm2\<lparr>mgHMF := f, mgActiveSegments := (mgActiveSegments ?hm2)(shard_id rid sh := None)\<rparr>)"
        and com: "\<And>u'. SegmentTreeID u' = seg_id rid sh (tidSegmentID (tTreeID tree)) \<Longrightarrow> SegmentLeaves u' = tLeafCount tree \<Longrightarrow>
          SegmentRoot u' = tRoot tree \<Longrightarrow> ShardLeafIndex u' = ShardLeafIndex u \<Longrightarrow> committed H segs' u'"
        using append_inv [OF inv2 k, of rid sh "tidSegmentID (tTreeID tree)" "tLeafCount tree" "tRoot tree" f r "shard_id rid sh"] True ap t(2) s(6) cnt(2) by auto
      obtain u' where hm': "hm' = ?hm2\<lparr>mgHMF := f, mgActiveSegments := (mgActiveSegments hm)(shard_id rid sh := None)\<rparr>" and res: "res = Inr u'"
        and u': "SegmentTreeID u' = tTreeID tree" "SegmentNodes u' = nodes" "SegmentRoot u' = tRoot tree" "SegmentLeaves u' = tLeafCount tree"
          "ShardLeafIndex u' = ShardLeafIndex u"
        using eq Some seal ap u by (auto simp: closeSegment_def getActiveSegment_def Let_def simp flip: seg_def)
      have "tTreeID tree = seg_id rid sh (tidSegmentID (tTreeID tree))" using tok id s(6) by (cases "tTreeID tree") (simp add: seg_id_def segment_ok_def)
      then have "committed H segs' u'" using u' by (intro com) simp_all
      moreover have "update_of H (tree_at hm' p) u'" using p s cnt by (simp add: update_of_def u' hm')
      ultimately show ?thesis using p inv3 by (intro exI [of _ segs']) (auto simp: res update_ok_def hm')
    qed
  qed
qed


section \<open>Appending a log\<close>

lemma same_segment:
  assumes "heap_inv H k hm" and "p < length (mgSegmentObjects hm)" and "q < length (mgSegmentObjects hm)"
    and "tTreeID (tree_at hm p) = tTreeID (tree_at hm q)"
  shows "p = q"
  using assms nth_eq_iff_index_eq [of "map (tTreeID \<circ> asTree) (mgSegmentObjects hm)" p q] by (simp add: heap_inv_def)

lemma next_spot_free:
  assumes inv: "hm_inv H rids n segs k logs pl emitted hm" and p: "p < length (mgSegmentObjects hm)"
  shows "free_spot pl i hm (tTreeID (tree_at hm p), tLeafCount (tree_at hm p))"
proof -
  let ?spot = "(tTreeID (tree_at hm p), tLeafCount (tree_at hm p))"
  have h: "heap_inv H k hm" by (rule hm_inv_heap [OF inv])
  then have cnt: "tLeafCount (tree_at hm p) = int (length (seg_leaves (tree_at hm p)))" using p by (auto simp: heap_inv_def segment_ok_def seg_inv_def)
  have new: False if "holds hm q (snd ?spot) d" "tTreeID (tree_at hm q) = fst ?spot" for q d
  proof -
    have "q = p" using that p by (intro same_segment [OF h]) (auto simp: holds_def)
    then show False using that(1) by (simp add: holds_def cnt)
  qed
  have "?spot \<notin> snd ` set pl"
  proof
    assume "?spot \<in> snd ` set pl"
    then obtain lg where "(lg, ?spot) \<in> set pl" by force
    moreover have "\<forall>(lg, spot) \<in> set pl. placed hm lg spot" using inv by (simp add: hm_inv_def places_ok_def)
    ultimately have "placed hm lg ?spot" by blast
    then show False using new unfolding placed_def by blast
  qed
  moreover have "pending hm (worker_of hm j) \<noteq> Some ?spot" if "j < length (mgWorkerObjects hm)" for j
    using hm_inv_worker [OF inv that] new by (fastforce simp: worker_ok_def pending_def split: worker_at.splits option.splits)
  ultimately show ?thesis by (simp add: free_spot_def)
qed

lemma worker_append_inv:
  assumes inv: "hm_inv H rids n segs k logs pl emitted hm" and i: "i < length (mgWorkerObjects hm)" and req: "request_ok logs request"
  shows "hm_inv H rids n segs k logs pl emitted (worker_append i request hm)"
proof (cases "wkActive (worker_of hm i)")
  case None
  then show ?thesis using move_inv [OF inv i, of "AtPanic (Panic ''nil pointer dereference'')"] by (simp add: worker_append_def)
next
  case (Some p)
  let ?t = "tree_at hm p" and ?d = "logDigest (arLog request)"
  have p: "p < length (mgSegmentObjects hm)" using hm_inv_worker [OF inv i] Some by (simp add: worker_ok_def)
  have t: "seg_inv H ?t" using hm_inv_heap [OF inv] p by (auto simp: heap_inv_def segment_ok_def)
  show ?thesis
  proof (cases "SegmentTree_Append ?t ?d")
    case (Inl e)
    then show ?thesis using answer_inv [OF inv i, of "Inl e" request] Some by (simp add: worker_append_def Let_def)
  next
    case (Inr tree)
    have t': "seg_inv H tree" "seg_leaves tree = seg_leaves ?t @ [?d]" "\<not> segSealed ?t" "tLeafCount ?t < segMaxLeaves ?t"
      using SegmentTree_Append_Inr [OF t Inr] by auto
    have id: "tTreeID tree = tTreeID ?t" using SegmentTree_Append_ok [OF t t'(3,4), of ?d] Inr by (metis Inr_inject)
    define seg where "seg = (segment_at hm p)\<lparr>asTree := tree,
      asStartedAt := (if IsZero (asStartedAt (segment_at hm p)) then logEventTime (arLog request) else asStartedAt (segment_at hm p)),
      asEndedAt := logEventTime (arLog request)\<rparr>"
    have seg: "asTree seg = tree" by (simp add: seg_def)
    let ?hm = "put_segment p seg hm" and ?w = "(worker_of hm i)\<lparr>wkAt := AtPropagate request (tLeafCount ?t)\<rparr>"
    have inv': "hm_inv H rids n segs k logs pl emitted ?hm"
      by (rule put_segment_inv [OF inv p, where hs = "[?d]"]) (use t' id in \<open>auto simp: seg\<close>)
    have g: "grows hm ?hm" using p t' id by (auto simp: grows_def nth_list_update seg)
    have cnt: "tLeafCount ?t = int (length (seg_leaves ?t))" using t by (simp add: seg_inv_def)
    have "holds ?hm p (tLeafCount ?t) ?d" using p t' by (simp add: holds_def seg cnt)
    then have ok: "worker_ok logs ?hm ?w" using hm_inv_worker [OF inv', of i] i req Some by (auto simp: worker_ok_def)
    have free: "free_spot pl i ?hm (tTreeID ?t, tLeafCount ?t)"
      using next_spot_free [OF inv p, of i] free_spot_grows(1) [OF g, of logs] inv by (simp add: hm_inv_def)
    have "pending ?hm ?w = Some (tTreeID ?t, tLeafCount ?t)" using Some p id by (simp add: pending_def seg)
    then have "hm_inv H rids n segs k logs pl emitted (put_worker i ?w ?hm)"
      using ok free i by (intro put_worker_inv [OF inv']) auto
    then show ?thesis using Some Inr by (simp add: worker_append_def Let_def seg_def)
  qed
qed


section \<open>The steps of a worker\<close>

definition hm_ok ::
  "hash_fn \<Rightarrow> string list \<Rightarrow> nat \<Rightarrow> nat \<Rightarrow> Log list \<Rightarrow> (Log \<times> spot) list \<Rightarrow> HMFUpdate list \<Rightarrow> 'l Manager \<Rightarrow> bool" where
  "hm_ok H rids n k logs pl emitted hm \<longleftrightarrow> (\<exists>segs. hm_inv H rids n segs k logs pl emitted hm)"

lemma hm_okI: "hm_inv H rids n segs k logs pl emitted hm \<Longrightarrow> hm_ok H rids n k logs pl emitted hm"
  by (auto simp: hm_ok_def)

lemma hm_ok_mono: "hm_ok H rids n k logs pl emitted hm \<Longrightarrow> k \<le> k' \<Longrightarrow> hm_ok H rids n k' logs pl emitted hm"
  unfolding hm_ok_def by (metis hm_inv_mono)

lemma hm_inv_cong:
  fixes hm hm' :: "'l Manager"
  assumes "hm_inv H rids n segs k logs pl emitted hm"
    and same: "mgSegmentObjects hm' = mgSegmentObjects hm" "mgActiveSegments hm' = mgActiveSegments hm" "mgNextSegmentIDs hm' = mgNextSegmentIDs hm"
      "mgMaxSegmentLeaves hm' = mgMaxSegmentLeaves hm" "mgWorkerObjects hm' = mgWorkerObjects hm" "mgHMF hm' = mgHMF hm" "mgResults hm' = mgResults hm"
  shows "hm_inv H rids n segs k logs pl emitted hm'"
proof (rule hm_inv_grows [OF assms(1) grows_same [OF same(1)] _ order_refl same(5-7)])
  show "heap_inv H k hm'" using hm_inv_heap [OF assms(1)] same(1-4) by (simp add: heap_inv_def segment_ok_def next_of_def)
qed

lemma hm_ok_move:
  assumes "hm_ok H rids n k logs pl emitted hm" and "i < length (mgWorkerObjects hm)" and "requests_at at = []" and "update_at at = None"
  shows "hm_ok H rids n k logs pl emitted (move i at hm)"
proof -
  have "\<forall>request j. at \<noteq> AtPropagate request j" using assms(3) by auto
  with assms show ?thesis unfolding hm_ok_def by (metis move_inv empty_iff list.set(1) option.discI)
qed

lemma hm_ok_answer:
  assumes "hm_ok H rids n k logs pl emitted hm" and "i < length (mgWorkerObjects hm)"
  shows "hm_ok H rids n k logs pl emitted (answer i request (Inl e) hm)"
  using assms unfolding hm_ok_def by (metis answer_inv sum.distinct(1))

lemma worker_reopen_inv:
  assumes "hm_ok H rids n k logs pl emitted hm" and "int k < MaxInt64" and i: "i < length (mgWorkerObjects hm)"
    and "\<forall>request j. wkAt (worker_of hm i) \<noteq> AtPropagate request j" and req: "request_ok logs request"
  shows "hm_ok H rids n (Suc k) logs pl emitted (worker_reopen now i request hm)"
proof -
  obtain segs where inv: "hm_inv H rids n segs k logs pl emitted hm" using assms(1) by (auto simp: hm_ok_def)
  obtain hm' res where op: "worker_open now i hm = (hm', res)" by force
  note o = worker_open_inv [OF inv assms(2) i assms(4) op]
  have i': "i < length (mgWorkerObjects hm')" using i o(2) by simp
  show ?thesis
    using hm_ok_answer [OF hm_okI [OF o(1)] i'] hm_okI [OF worker_append_inv [OF o(1) i' req]] op
    by (simp add: worker_reopen_def split: sum.splits)
qed

lemma worker_close_inv:
  assumes ok: "hm_ok H rids n k logs pl emitted hm" and k: "int k < MaxInt64" and i: "i < length (mgWorkerObjects hm)"
    and act: "wkActive (worker_of hm i) \<noteq> None" and req: "\<forall>request u. request \<in> set (requests_at (AtSend u after)) \<longrightarrow> request_ok logs request"
    and err: "\<And>e hm'. hm_ok H rids n (Suc k) logs pl emitted hm' \<Longrightarrow> i < length (mgWorkerObjects hm') \<Longrightarrow> hm_ok H rids n (Suc k) logs pl emitted (onError e hm')"
  shows "hm_ok H rids n (Suc k) logs pl emitted (worker_close H now i after onError continue hm)"
proof -
  obtain segs where inv: "hm_inv H rids n segs k logs pl emitted hm" using ok by (auto simp: hm_ok_def)
  obtain hm' res where cl: "closeSegment H now hm (wkRegionID (worker_of hm i)) (wkShardID (worker_of hm i)) = (hm', res)" by force
  obtain segs' where c: "hm_inv H rids n segs' (Suc k) logs pl emitted hm'" "\<forall>u. res = Inr u \<longrightarrow> update_ok H segs' hm' u"
    "mgWorkerObjects hm' = mgWorkerObjects hm"
    using closeSegment_inv [OF inv k cl] by blast
  have "hm_inv H rids n segs' (Suc k) logs pl emitted (move i (AtSend u after) hm')" if "res = Inr u" for u
    using c(2) req that i by (intro move_inv [OF c(1)]) (auto simp: c(3))
  then show ?thesis
    using act cl err [OF hm_okI [OF c(1)]] i c(3) by (cases res) (auto simp: worker_close_def Let_def hm_ok_def)
qed

lemma worker_stop_inv:
  assumes "hm_ok H rids n k logs pl emitted hm" and "int k < MaxInt64" and "i < length (mgWorkerObjects hm)"
  shows "hm_ok H rids n (Suc k) logs pl emitted (worker_stop H now i hm)"
proof -
  have out: "hm_ok H rids n (Suc k) logs pl emitted (move i AtReturn hm)"
    by (rule hm_ok_move [OF hm_ok_mono [OF assms(1)] assms(3)]) auto
  have "hm_ok H rids n (Suc k) logs pl emitted (worker_close H now i ThenReturn (\<lambda>_. move i AtReturn) (move i AtReturn) hm)"
    if "wkActive (worker_of hm i) \<noteq> None"
    using that by (intro worker_close_inv [OF assms]) (auto intro: hm_ok_move)
  with out show ?thesis by (simp add: worker_stop_def split: option.splits)
qed

lemma worker_room_inv:
  assumes "hm_ok H rids n k logs pl emitted hm" and "int k < MaxInt64" and "i < length (mgWorkerObjects hm)" and req: "request_ok logs request"
  shows "hm_ok H rids n (Suc k) logs pl emitted (worker_room H now i request hm)"
proof (cases "wkActive (worker_of hm i)")
  case None
  then show ?thesis using hm_ok_move [OF hm_ok_mono [OF assms(1), of "Suc k"] assms(3)] by (simp add: worker_room_def)
next
  case (Some p)
  have "hm_ok H rids n (Suc k) logs pl emitted (worker_append i request hm)"
    using assms worker_append_inv hm_ok_mono by (meson hm_ok_def le_SucI order_refl)
  moreover have "hm_ok H rids n (Suc k) logs pl emitted
      (worker_close H now i (ThenAppend request) (\<lambda>e. answer i request (Inl e)) (worker_reopen now i request) hm)"
    using Some req hm_ok_answer by (intro worker_close_inv [OF assms(1-3)]) auto
  ultimately show ?thesis using Some by (simp add: worker_room_def)
qed

lemma worker_request_inv:
  assumes ok: "hm_ok H rids n k logs pl emitted hm" and k: "int (Suc k) < MaxInt64" and i: "i < length (mgWorkerObjects hm)"
    and at: "\<forall>request j. wkAt (worker_of hm i) \<noteq> AtPropagate request j" and req: "request_ok logs request"
  shows "hm_ok H rids n (Suc (Suc k)) logs pl emitted (worker_request H now i request hm)"
proof -
  obtain segs where inv: "hm_inv H rids n segs k logs pl emitted hm" using ok by (auto simp: hm_ok_def)
  obtain hm' res where op: "worker_open now i hm = (hm', res)" by force
  have k': "int k < MaxInt64" using k by simp
  note o = worker_open_inv [OF inv k' i at op]
  have i': "i < length (mgWorkerObjects hm')" using i o(2) by simp
  have ok': "hm_ok H rids n (Suc k) logs pl emitted hm'" by (rule hm_okI [OF o(1)])
  have bad: "hm_ok H rids n (Suc (Suc k)) logs pl emitted (answer i request (Inl e) hm')" for e
    by (rule hm_ok_mono [OF hm_ok_answer [OF ok' i']]) simp
  have none: "hm_ok H rids n (Suc (Suc k)) logs pl emitted (answer i request (Inl e) hm)" for e
    by (rule hm_ok_mono [OF hm_ok_answer [OF ok i]]) simp
  have room: "hm_ok H rids n (Suc (Suc k)) logs pl emitted (worker_room H now i request hm)"
    by (rule hm_ok_mono [OF worker_room_inv [OF ok k' i req]]) simp
  show ?thesis
    using bad none room worker_room_inv [OF ok' k i' req] op by (cases res) (simp_all add: worker_request_def)
qed

lemma worker_timer_open_inv:
  assumes ok: "hm_ok H rids n k logs pl emitted hm" and k: "int k < MaxInt64" and i: "i < length (mgWorkerObjects hm)"
    and at: "\<forall>request j. wkAt (worker_of hm i) \<noteq> AtPropagate request j"
  shows "hm_ok H rids n (Suc k) logs pl emitted (worker_timer_open now i hm)"
proof -
  obtain segs where inv: "hm_inv H rids n segs k logs pl emitted hm" using ok by (auto simp: hm_ok_def)
  obtain hm' res where op: "worker_open now i hm = (hm', res)" by force
  note o = worker_open_inv [OF inv k i at op]
  then show ?thesis using hm_ok_move [OF hm_okI [OF o(1)], of i AtSelect] i op by (simp add: worker_timer_open_def)
qed

lemma worker_timer_inv:
  assumes ok: "hm_ok H rids n k logs pl emitted hm" and k: "int k < MaxInt64" and i: "i < length (mgWorkerObjects hm)"
  shows "hm_ok H rids n (Suc k) logs pl emitted (worker_timer H now i hm)"
proof (cases "wkActive (worker_of hm i)")
  case None
  then show ?thesis using hm_ok_move [OF hm_ok_mono [OF ok, of "Suc k"] i] by (simp add: worker_timer_def)
next
  case (Some p)
  obtain segs where inv: "hm_inv H rids n segs k logs pl emitted hm" using ok by (auto simp: hm_ok_def)
  have p: "p < length (mgSegmentObjects hm)" using hm_inv_worker [OF inv i] Some by (simp add: worker_ok_def)
  have "seg_inv H (tree_at hm p)" using hm_inv_heap [OF inv] p by (auto simp: heap_inv_def segment_ok_def)
  then have "hm_inv H rids n segs k logs pl emitted (put_segment p ((segment_at hm p)\<lparr>asSealedAt := now\<rparr>) hm)"
    by (intro put_segment_inv [OF inv p, where hs = "[]"]) auto
  note hm_okI [OF this]
  then show ?thesis
    using Some i by (auto simp: worker_timer_def intro!: worker_close_inv [OF _ k] hm_ok_move)
qed


lemma worker_sent_inv:
  assumes ok: "hm_ok H rids n k logs pl emitted hm" and k: "int k < MaxInt64" and i: "i < length (mgWorkerObjects hm)"
    and at: "wkAt (worker_of hm i) = AtSend u after"
  shows "hm_ok H rids n (Suc k) logs pl emitted (worker_sent now i after hm)"
proof -
  obtain segs where inv: "hm_inv H rids n segs k logs pl emitted hm" using ok by (auto simp: hm_ok_def)
  let ?w = "(worker_of hm i)\<lparr>wkTimer := NoTimer, wkActive := None\<rparr>"
  have "worker_ok logs hm ?w" using hm_inv_worker [OF inv i] at by (simp add: worker_ok_def)
  then have ok': "hm_ok H rids n k logs pl emitted (put_worker i ?w hm)"
    using hm_inv_update [OF inv i] at by (intro hm_okI [OF put_worker_inv [OF inv i]]) (auto simp: pending_def)
  have at': "\<forall>request j. wkAt (worker_of (put_worker i ?w hm) i) \<noteq> AtPropagate request j" using at i by simp
  have i': "i < length (mgWorkerObjects (put_worker i ?w hm))" using i by simp
  show ?thesis
  proof (cases after)
    case ThenReturn
    then show ?thesis using hm_ok_move [OF hm_ok_mono [OF ok', of "Suc k"] i', of AtReturn] by (simp add: worker_sent_def)
  next
    case (ThenAppend request)
    then have "request_ok logs request" using hm_inv_worker [OF inv i] at by (simp add: worker_ok_def)
    then show ?thesis using worker_reopen_inv [OF ok' k i' at'] ThenAppend by (simp add: worker_sent_def)
  next
    case ThenReopen
    then show ?thesis using worker_timer_open_inv [OF ok' k i' at'] by (simp add: worker_sent_def)
  qed
qed

lemma worker_select_inv:
  assumes ok: "hm_ok H rids n k logs pl emitted hm" and k: "int (Suc k) < MaxInt64" and i: "i < length (mgWorkerObjects hm)"
    and at: "wkAt (worker_of hm i) = AtSelect" and mem: "hm' \<in> set (worker_select H now i hm)"
  shows "hm_ok H rids n (Suc (Suc k)) logs pl emitted hm'"
proof -
  obtain segs where inv: "hm_inv H rids n segs k logs pl emitted hm" using ok by (auto simp: hm_ok_def)
  let ?w = "worker_of hm i"
  have wok: "worker_ok logs hm ?w" by (rule hm_inv_worker [OF inv i])
  have k': "int k < MaxInt64" using k by simp
  have stop: "hm_ok H rids n (Suc (Suc k)) logs pl emitted (worker_stop H now i hm)"
    by (rule hm_ok_mono [OF worker_stop_inv [OF ok k' i]]) simp
  have timer: "hm_ok H rids n (Suc (Suc k)) logs pl emitted (worker_timer H now i (put_worker i (?w\<lparr>wkTimer := TimerFired\<rparr>) hm))"
    using wok at i by (intro hm_ok_mono [OF worker_timer_inv [OF hm_okI [OF put_worker_inv [OF inv i]] k']]) (auto simp: worker_ok_def pending_def)
  have "hm_ok H rids n (Suc (Suc k)) logs pl emitted (worker_request H now i request (put_worker i (?w\<lparr>wkRequests := rest\<rparr>) hm))"
    if "wkRequests ?w = request # rest" for request rest
    using wok at i that by (intro worker_request_inv [OF hm_okI [OF put_worker_inv [OF inv i]] k]) (auto simp: worker_ok_def pending_def)
  with mem stop timer show ?thesis by (auto simp: worker_select_def Let_def split: if_splits list.splits)
qed

text \<open>The locator accepts a place: from then on the place is the log's.\<close>

lemma extend_places:
  assumes inv: "hm_inv H rids n segs k logs pl emitted hm" and spot: "placed hm lg spot" "spot \<notin> snd ` set pl"
    and free: "\<forall>j < length (mgWorkerObjects hm). pending hm (worker_of hm j) \<noteq> Some spot"
  shows "hm_inv H rids n segs k logs (pl @ [(lg, spot)]) emitted hm"
proof -
  have ok: "places_ok pl hm" using inv by (simp add: hm_inv_def)
  have "free_spot (pl @ [(lg, spot)]) i hm spot'" if "i < length (mgWorkerObjects hm)" "pending hm (worker_of hm i) = Some spot'" for i spot'
  proof -
    have "free_spot pl i hm spot'" using ok that unfolding places_ok_def by blast
    moreover have "spot' \<noteq> spot" using free that by blast
    ultimately show ?thesis by (simp add: free_spot_def)
  qed
  then have "places_ok (pl @ [(lg, spot)]) hm" using ok spot by (simp add: places_ok_def)
  then show ?thesis using inv unfolding hm_inv_def by auto
qed

lemma propagate_result:
  assumes mem: "(hm', event) \<in> set (worker_propagate submit i request leafID hm)" and p: "wkActive (worker_of hm i) = Some p"
  obtains client res where "hm' = answer i request res (hm\<lparr>mgLocator := client\<rparr>)"
    and "event = (case res of Inr _ \<Rightarrow> Located (arLog request) (locator_request (arLog request) (tTreeID (tree_at hm p)) leafID) | Inl _ \<Rightarrow> Quiet)"
proof (cases "mgLocator hm")
  case None
  let ?e = "Inl (Errorf ''propagate to ALL: ALL is not configured'')"
  have same: "hm\<lparr>mgLocator := None\<rparr> = hm" using None by (cases hm) simp
  have "hm' = answer i request ?e hm" "event = Quiet" using mem p None by (simp_all add: worker_propagate_def propagateToALL_def)
  then show thesis using that [of ?e None] unfolding same by simp
next
  case (Some client)
  then obtain client' res where "hm' = answer i request res (hm\<lparr>mgLocator := Some client'\<rparr>)"
    "event = (case (res, Some (tree_at hm p)) of (Inr _, Some tree) \<Rightarrow> Located (arLog request) (locator_request (arLog request) (tTreeID tree) leafID) | _ \<Rightarrow> Quiet)"
    using mem p by (auto simp: worker_propagate_def propagateToALL_def)
  then show thesis by (intro that [of res "Some client'"]) (cases res; simp)+
qed

lemma worker_propagate_inv:
  assumes ok: "hm_ok H rids n k logs pl emitted hm" and i: "i < length (mgWorkerObjects hm)"
    and at: "wkAt (worker_of hm i) = AtPropagate request leafID" and mem: "(hm', event) \<in> set (worker_propagate submit i request leafID hm)"
  shows "\<exists>pl'. hm_ok H rids n k logs pl' emitted hm' \<and> (case event of Located lg req \<Rightarrow> map place_request pl' = map place_request pl @ [(lg, req)]
    | Quiet \<Rightarrow> pl' = pl | Emitted u \<Rightarrow> False)"
proof -
  obtain segs where inv: "hm_inv H rids n segs k logs pl emitted hm" using ok by (auto simp: hm_ok_def)
  obtain p where p: "wkActive (worker_of hm i) = Some p" "holds hm p leafID (logDigest (arLog request))" and req: "request_ok logs request"
    using hm_inv_worker [OF inv i] at by (auto simp: worker_ok_def)
  let ?spot = "(tTreeID (tree_at hm p), leafID)"
  obtain client res where hm': "hm' = answer i request res (hm\<lparr>mgLocator := client\<rparr>)"
    and event: "event = (case res of Inr _ \<Rightarrow> Located (arLog request) (locator_request (arLog request) (tTreeID (tree_at hm p)) leafID) | Inl _ \<Rightarrow> Quiet)"
    by (rule propagate_result [OF mem p(1)])
  let ?hm = "hm\<lparr>mgLocator := client\<rparr>"
  have inv': "hm_inv H rids n segs k logs pl emitted ?hm" by (rule hm_inv_cong [OF inv]) simp_all
  show ?thesis
  proof (cases res)
    case (Inl e)
    then show ?thesis using hm_ok_answer [OF hm_okI [OF inv'], of i request e] i by (simp add: hm' event)
  next
    case (Inr x)
    let ?sel = "move i AtSelect ?hm"
    have sel: "hm_inv H rids n segs k logs pl emitted ?sel" using i by (intro move_inv [OF inv']) auto
    have spot: "pending hm (worker_of hm i) = Some ?spot" using at p(1) by (simp add: pending_def)
    then have free: "free_spot pl i hm ?spot" by (rule hm_inv_free [OF inv i])
    have "pending ?sel w = pending hm w" for w by (simp add: pending_def split: worker_at.splits option.splits)
    then have "\<forall>j < length (mgWorkerObjects ?sel). pending ?sel (worker_of ?sel j) \<noteq> Some ?spot"
      using free i by (auto simp: free_spot_def nth_list_update pending_def)
    moreover have "placed ?sel (arLog request) ?spot" using p(2) by (auto simp: placed_def holds_def)
    ultimately have "hm_inv H rids n segs k logs (pl @ [(arLog request, ?spot)]) emitted ?sel"
      using free by (intro extend_places [OF sel]) (auto simp: free_spot_def)
    then have "hm_inv H rids n segs k logs (pl @ [(arLog request, ?spot)]) emitted (?sel\<lparr>mgResults := (mgResults ?sel)(arResult request \<mapsto> res)\<rparr>)"
      using req by (intro results_inv) (auto simp: request_ok_def)
    moreover have "?sel\<lparr>mgResults := (mgResults ?sel)(arResult request \<mapsto> res)\<rparr> = hm'" by (simp add: hm' answer_def put_worker_def)
    ultimately show ?thesis using Inr by (intro exI [of _ "pl @ [(arLog request, ?spot)]"]) (auto simp: event place_request_def hm_ok_def)
  qed
qed


fun located_in :: "hm_event \<Rightarrow> (Log \<times> LocatorRequest) list" where
  "located_in (Located lg request) = [(lg, request)]"
| "located_in event = []"

fun emitted_in :: "hm_event \<Rightarrow> HMFUpdate list" where
  "emitted_in (Emitted u) = [u]"
| "emitted_in event = []"

lemma runSegmentWorker_inv:
  assumes ok: "hm_ok H rids n k logs pl emitted hm" and k: "int (Suc k) < MaxInt64" and i: "i < length (mgWorkerObjects hm)"
    and mem: "(hm', event) \<in> set (runSegmentWorker H submit now i hm)"
  shows "\<exists>pl'. hm_ok H rids n (Suc (Suc k)) logs pl' (emitted @ emitted_in event) hm' \<and> map place_request pl' = map place_request pl @ located_in event"
proof -
  obtain segs where inv: "hm_inv H rids n segs k logs pl emitted hm" using ok by (auto simp: hm_ok_def)
  have k': "int k < MaxInt64" using k by simp
  show ?thesis
  proof (cases "wkAt (worker_of hm i)")
    case AtSelect
    then have "hm' \<in> set (worker_select H now i hm)" "event = Quiet" using mem by (auto simp: runSegmentWorker_def)
    then show ?thesis using worker_select_inv [OF ok k i AtSelect] by auto
  next
    case (AtSend u after)
    then have hm': "hm' = worker_sent now i after (hm\<lparr>mgUpdates := mgUpdates hm @ [u]\<rparr>)" "event = Emitted u"
      using mem by (auto simp: runSegmentWorker_def split: if_splits)
    have "update_ok H segs hm u" using hm_inv_update [OF inv i] AtSend by simp
    then have "hm_inv H rids n segs k logs pl (emitted @ [u]) hm" using inv by (simp add: hm_inv_def)
    then have "hm_inv H rids n segs k logs pl (emitted @ [u]) (hm\<lparr>mgUpdates := mgUpdates hm @ [u]\<rparr>)" by (rule hm_inv_cong) simp_all
    then have "hm_ok H rids n (Suc k) logs pl (emitted @ [u]) hm'" unfolding hm'
      by (rule worker_sent_inv [OF hm_okI k', where u = u]) (use i AtSend in simp_all)
    then have "hm_ok H rids n (Suc (Suc k)) logs pl (emitted @ [u]) hm'" by (rule hm_ok_mono) simp
    then show ?thesis using hm'(2) by auto
  next
    case (AtPropagate request leafID)
    then have "(hm', event) \<in> set (worker_propagate submit i request leafID hm)" using mem by (simp add: runSegmentWorker_def)
    then obtain pl' where pl': "hm_ok H rids n k logs pl' emitted hm'" "case event of Located lg req \<Rightarrow> map place_request pl' = map place_request pl @ [(lg, req)]
      | Quiet \<Rightarrow> pl' = pl | Emitted u \<Rightarrow> False"
      using worker_propagate_inv [OF ok i AtPropagate] by blast
    then show ?thesis using hm_ok_mono [OF pl'(1), of "Suc (Suc k)"] by (intro exI [of _ pl']) (auto split: hm_event.splits)
  next
    case AtReturn
    let ?w = "(worker_of hm i)\<lparr>wkTimer := NoTimer, wkDoneClosed := True, wkAt := AtExit\<rparr>"
    have "worker_ok logs hm ?w" using hm_inv_worker [OF inv i] AtReturn by (simp add: worker_ok_def)
    then have "hm_inv H rids n segs k logs pl emitted (put_worker i ?w hm)" by (intro put_worker_inv [OF inv i]) (auto simp: pending_def)
    then have "hm_ok H rids n (Suc (Suc k)) logs pl emitted (put_worker i ?w hm)" by (rule hm_ok_mono [OF hm_okI]) simp
    then show ?thesis using mem AtReturn by (auto simp: runSegmentWorker_def)
  next
    case AtExit
    have "hm_inv H rids n segs k logs pl emitted (hm\<lparr>mgWorkers := ws\<rparr>)" for ws by (rule hm_inv_cong [OF inv]) simp_all
    then have "hm_ok H rids n (Suc (Suc k)) logs pl emitted (move i AtEnd (hm\<lparr>mgWorkers := ws\<rparr>))" for ws
      using i by (intro hm_ok_mono [OF hm_ok_move [OF hm_okI]]) auto
    moreover have "hm_ok H rids n (Suc (Suc k)) logs pl emitted (move i AtEnd hm)"
      using i by (intro hm_ok_mono [OF hm_ok_move [OF ok]]) auto
    ultimately show ?thesis using mem AtExit by (auto simp: runSegmentWorker_def worker_exit_def Let_def)
  qed (use mem in \<open>simp_all add: runSegmentWorker_def\<close>)
qed

section \<open>The system\<close>

definition sys_ok :: "hash_fn \<Rightarrow> string list \<Rightarrow> nat \<Rightarrow> nat \<Rightarrow> 'l hm_system \<Rightarrow> bool" where
  "sys_ok H rids n k s \<longleftrightarrow> (\<exists>pl. hm_ok H rids n k (map fst (hsClients s)) pl (hsEmitted s) (hsManager s) \<and> hsLocated s = map place_request pl \<and>
     (\<forall>(lg, at) \<in> set (hsClients s). at = ClientReturned (Inr ()) \<longrightarrow> lg \<in> fst ` set pl))"

lemma hm_inv_new_log:
  assumes "hm_inv H rids n segs k logs pl emitted hm"
  shows "hm_inv H rids n segs k (logs @ [lg]) pl emitted hm"
proof -
  have "request_ok (logs @ [lg]) r" if "request_ok logs r" for r using that by (simp add: request_ok_def nth_append)
  then have "worker_ok (logs @ [lg]) hm w" if "worker_ok logs hm w" for w using that by (simp add: worker_ok_def)
  moreover have "r < length (logs @ [lg]) \<and> (logs @ [lg]) ! r \<in> fst ` set pl" if "mgResults hm r = Some (Inr ())" for r
    using that assms unfolding hm_inv_def by (metis butlast_snoc length_append_singleton less_SucI nth_butlast)
  ultimately show ?thesis using assms unfolding hm_inv_def by blast
qed

lemma new_worker_inv:
  assumes inv: "hm_inv H rids n segs k logs pl emitted hm" and w: "wkRequests w = []" "wkActive w = None" "wkAt w = AtSelect"
  shows "hm_inv H rids n segs k logs pl emitted (hm\<lparr>mgWorkerObjects := mgWorkerObjects hm @ [w], mgWorkers := ws\<rparr>)"
proof -
  let ?hm = "hm\<lparr>mgWorkerObjects := mgWorkerObjects hm @ [w], mgWorkers := ws\<rparr>"
  have [simp]: "holds ?hm = holds hm" "placed ?hm = placed hm" "pending ?hm = pending hm" "worker_ok logs ?hm = worker_ok logs hm"
    "update_ok H segs ?hm = update_ok H segs hm" "segment_ok H ?hm = segment_ok H hm"
    by (auto simp: fun_eq_iff holds_def placed_def pending_def worker_ok_def update_ok_def segment_ok_def next_of_def split: worker_at.splits option.splits)
  have none: "pending hm w = None" by (simp add: pending_def w)
  have pl: "places_ok pl hm" using inv by (simp add: hm_inv_def)
  have "free_spot pl i ?hm spot" if i: "i < length (mgWorkerObjects ?hm)" "pending hm (worker_of ?hm i) = Some spot" for i spot
  proof -
    have "i < length (mgWorkerObjects hm)" using i none by (cases "i = length (mgWorkerObjects hm)") auto
    moreover from this have "pending hm (worker_of hm i) = Some spot" using i(2) by (simp add: nth_append)
    ultimately have "free_spot pl i hm spot" using pl unfolding places_ok_def by blast
    then show ?thesis using none by (auto simp: free_spot_def nth_append)
  qed
  then have "places_ok pl ?hm" using pl by (simp add: places_ok_def)
  moreover have "worker_ok logs hm w" by (simp add: worker_ok_def w)
  ultimately show ?thesis using inv w(3) by (simp add: hm_inv_def heap_inv_def next_of_def)
qed


lemma put_worker_beyond: "\<not> i < length (mgWorkerObjects hm) \<Longrightarrow> put_worker i w hm = hm"
  by (cases hm) (simp add: put_worker_def not_less list_update_beyond)

lemma hm_ok_call:
  assumes "hm_ok H rids n k logs pl emitted hm" and "SubmitLog_start hm shardID lg = (hm', res)"
  shows "hm_ok H rids n k (logs @ [lg]) pl emitted hm'"
proof -
  obtain segs where inv: "hm_inv H rids n segs k (logs @ [lg]) pl emitted hm" using assms(1) unfolding hm_ok_def by (blast intro: hm_inv_new_log)
  have "hm' = hm \<or> (\<exists>w ws. wkRequests w = [] \<and> wkActive w = None \<and> wkAt w = AtSelect \<and> hm' = hm\<lparr>mgWorkerObjects := mgWorkerObjects hm @ [w], mgWorkers := ws\<rparr>)"
  proof (cases "logRegionID lg = '''' \<or> IsZero (logEventTime lg) \<or> hmfShardTrees (mgHMF hm) (shard_id (logRegionID lg) shardID) = None
      \<or> mgWorkers hm (shard_id (logRegionID lg) shardID) \<noteq> None")
    case True
    then show ?thesis using assms(2) by (auto simp: SubmitLog_start_def getOrStartWorker_def Let_def split: if_splits)
  next
    case False
    let ?w = "\<lparr>wkRequests = [], wkRequestsClosed = False, wkStopClosed = False, wkDoneClosed = False,
      wkRegionID = logRegionID lg, wkShardID = shardID, wkActive = None, wkTimer = NoTimer, wkAt = AtSelect\<rparr>"
    from False obtain y where "logRegionID lg \<noteq> ''''" "\<not> IsZero (logEventTime lg)" "hmfShardTrees (mgHMF hm) (shard_id (logRegionID lg) shardID) = Some y"
      "mgWorkers hm (shard_id (logRegionID lg) shardID) = None" by auto
    then have "hm' = hm\<lparr>mgWorkerObjects := mgWorkerObjects hm @ [?w],
        mgWorkers := (mgWorkers hm)(shard_id (logRegionID lg) shardID \<mapsto> length (mgWorkerObjects hm))\<rparr>"
      using assms(2) by (simp add: SubmitLog_start_def getOrStartWorker_def Let_def)
    then show ?thesis by (intro disjI2 exI [of _ ?w]) auto
  qed
  then show ?thesis using inv new_worker_inv [OF inv] by (auto simp: hm_ok_def)
qed

lemma hm_ok_send:
  assumes ok: "hm_ok H rids n k logs pl emitted hm" and req: "request_ok logs request"
    and mem: "(hm', res) \<in> set (SubmitLog_send ctxErr hm i request)"
  shows "hm_ok H rids n k logs pl emitted hm'"
proof -
  obtain segs where inv: "hm_inv H rids n segs k logs pl emitted hm" using ok by (auto simp: hm_ok_def)
  let ?w = "worker_of hm i"
  have "hm_inv H rids n segs k logs pl emitted (put_worker i (?w\<lparr>wkRequests := wkRequests ?w @ [request]\<rparr>) hm)"
  proof (cases "i < length (mgWorkerObjects hm)")
    case True
    have "worker_ok logs hm (?w\<lparr>wkRequests := wkRequests ?w @ [request]\<rparr>)"
      using hm_inv_worker [OF inv True] req by (auto simp: worker_ok_def)
    moreover have "pending hm (?w\<lparr>wkRequests := wkRequests ?w @ [request]\<rparr>) = pending hm ?w" by (simp add: pending_def)
    ultimately show ?thesis using hm_inv_update [OF inv True] hm_inv_free [OF inv True] by (intro put_worker_inv [OF inv True]) auto
  qed (use inv in \<open>simp add: put_worker_beyond\<close>)
  with inv mem show ?thesis by (auto simp: SubmitLog_send_def hm_ok_def Let_def split: if_splits option.splits)
qed

lemma hm_ok_stop:
  assumes ok: "hm_ok H rids n k logs pl emitted hm" and eq: "StopWorker hm regionID shardID = (hm', stopped)"
  shows "hm_ok H rids n k logs pl emitted hm'"
proof -
  obtain segs where inv: "hm_inv H rids n segs k logs pl emitted hm" using ok by (auto simp: hm_ok_def)
  have "hm_inv H rids n segs k logs pl emitted (put_worker i ((worker_of hm i)\<lparr>wkStopClosed := True\<rparr>) (hm\<lparr>mgWorkers := ws\<rparr>))" for i ws
  proof -
    have inv': "hm_inv H rids n segs k logs pl emitted (hm\<lparr>mgWorkers := ws\<rparr>)" (is "hm_inv _ _ _ _ _ _ _ _ ?hm") by (rule hm_inv_cong [OF inv]) simp_all
    show ?thesis
    proof (cases "i < length (mgWorkerObjects hm)")
      case True
      then have i: "i < length (mgWorkerObjects ?hm)" by simp
      have "pending ?hm ((worker_of hm i)\<lparr>wkStopClosed := True\<rparr>) = pending ?hm (worker_of ?hm i)" by (simp add: pending_def)
      then show ?thesis using hm_inv_worker [OF inv' i] hm_inv_update [OF inv' i] hm_inv_free [OF inv' i]
        by (intro put_worker_inv [OF inv' i]) (auto simp: worker_ok_def)
    qed (use inv' in \<open>simp add: put_worker_beyond\<close>)
  qed
  then show ?thesis using ok eq by (auto simp: StopWorker_def Let_def hm_ok_def split: option.splits)
qed

lemma client_moves_simps [simp]:
  "hsManager (client_moves r at s) = hsManager s" "hsEmitted (client_moves r at s) = hsEmitted s" "hsLocated (client_moves r at s) = hsLocated s"
  "r < length (hsClients s) \<Longrightarrow> map fst (hsClients (client_moves r at s)) = map fst (hsClients s)"
  by (simp_all add: client_moves_def map_list_update_same)

lemma note_event_simps [simp]:
  "hsManager (note_event event s) = hsManager s" "hsClients (note_event event s) = hsClients s"
  "hsEmitted (note_event event s) = hsEmitted s @ emitted_in event" "hsLocated (note_event event s) = hsLocated s @ located_in event"
  by (cases event; simp)+

lemma sys_ok_cong:
  assumes "sys_ok H rids n k s" and "hsManager s' = hm" and "hsEmitted s' = hsEmitted s" and "hsLocated s' = hsLocated s"
    and "map fst (hsClients s') = map fst (hsClients s) @ new"
    and "\<And>pl. hm_ok H rids n k (map fst (hsClients s)) pl (hsEmitted s) (hsManager s) \<Longrightarrow> hm_ok H rids n k (map fst (hsClients s) @ new) pl (hsEmitted s) hm \<and>
      (\<forall>c \<in> set (hsClients s'). c \<in> set (hsClients s) \<or> snd c \<noteq> ClientReturned (Inr ()) \<or> fst c \<in> fst ` set pl)"
  shows "sys_ok H rids n k s'"
proof -
  obtain pl where pl: "hm_ok H rids n k (map fst (hsClients s)) pl (hsEmitted s) (hsManager s)" "hsLocated s = map place_request pl"
    "\<forall>(lg, at) \<in> set (hsClients s). at = ClientReturned (Inr ()) \<longrightarrow> lg \<in> fst ` set pl"
    using assms(1) by (auto simp: sys_ok_def)
  have "\<forall>(lg, at) \<in> set (hsClients s'). at = ClientReturned (Inr ()) \<longrightarrow> lg \<in> fst ` set pl"
  proof safe
    fix lg
    assume "(lg, ClientReturned (Inr ())) \<in> set (hsClients s')"
    then show "lg \<in> fst ` set pl" using assms(6) [OF pl(1)] pl(3) by (metis (mono_tags, lifting) case_prodD fst_conv snd_conv)
  qed
  moreover have "hm_ok H rids n k (map fst (hsClients s')) pl (hsEmitted s') (hsManager s')" using assms(6) [OF pl(1)] by (simp add: assms(2,3,5))
  ultimately show ?thesis using pl(2) unfolding sys_ok_def assms(4) by blast
qed


lemma hm_step_ok:
  assumes step: "hm_step H submit s s'" and ok: "sys_ok H rids n k s" and k: "int (Suc k) < MaxInt64"
  shows "sys_ok H rids n (Suc (Suc k)) s'"
proof -
  have k2: "sys_ok H rids n (Suc (Suc k)) s" using ok unfolding sys_ok_def by (meson hm_ok_mono le_SucI order_refl)
  from step show ?thesis
  proof cases
    case (call shardID lg hm res)
    show ?thesis
      by (rule sys_ok_cong [OF k2, where hm = hm and new = "[lg]"]) (use call hm_ok_call in \<open>auto split: sum.splits\<close>)
  next
    case (send r lg i hm res ctxErr)
    have req: "request_ok (map fst (hsClients s)) \<lparr>arLog = lg, arResult = r\<rparr>" using send by (simp add: request_ok_def)
    have c: "c \<in> set (hsClients s) \<or> snd c \<noteq> ClientReturned (Inr ())" if "c \<in> set (hsClients s')" for c
      using that set_update_subset_insert [of "hsClients s" r] unfolding send(1) client_moves_def by (fastforce split: sum.splits)
    show ?thesis
      by (rule sys_ok_cong [OF k2, where hm = hm and new = "[]"]) (use send c hm_ok_send [OF _ req] in auto)
  next
    case (wait r lg i res ctxErr)
    have c: "c \<in> set (hsClients s) \<or> snd c \<noteq> ClientReturned (Inr ()) \<or> fst c \<in> fst ` set pl"
      if "c \<in> set (hsClients s')" and inv: "hm_ok H rids n (Suc (Suc k)) (map fst (hsClients s)) pl (hsEmitted s) (hsManager s)" for c pl
    proof (cases "c \<in> set (hsClients s)")
      case False
      then have "c = (lg, ClientReturned res)"
        using that(1) set_update_subset_insert [of "hsClients s" r] wait(3) unfolding wait(1) client_moves_def by fastforce
      moreover have "lg \<in> fst ` set pl" if "res = Inr ()"
      proof -
        have "mgResults (hsManager s) r = Some (Inr ())" using wait(4) that by (auto simp: SubmitLog_wait_def split: option.splits if_splits)
        then have "map fst (hsClients s) ! r \<in> fst ` set pl" using inv unfolding hm_ok_def hm_inv_def by blast
        then show ?thesis using wait(2,3) by simp
      qed
      ultimately show ?thesis by auto
    qed simp
    show ?thesis
      by (rule sys_ok_cong [OF k2, where hm = "hsManager s" and new = "[]"]) (use wait c in auto)
  next
    case (work i hm event now)
    obtain pl where pl: "hm_ok H rids n k (map fst (hsClients s)) pl (hsEmitted s) (hsManager s)" "hsLocated s = map place_request pl"
      "\<forall>(lg, at) \<in> set (hsClients s). at = ClientReturned (Inr ()) \<longrightarrow> lg \<in> fst ` set pl"
      using ok by (auto simp: sys_ok_def)
    obtain pl' where pl': "hm_ok H rids n (Suc (Suc k)) (map fst (hsClients s)) pl' (hsEmitted s @ emitted_in event) hm"
      "map place_request pl' = map place_request pl @ located_in event"
      using runSegmentWorker_inv [OF pl(1) k work(2,3)] by blast
    have "map fst (map place_request pl') = map fst (map place_request pl) @ map fst (located_in event)" by (simp add: pl'(2))
    moreover have "map fst (map place_request xs) = map fst xs" for xs by (auto simp: place_request_def)
    ultimately have "set (map fst pl) \<subseteq> set (map fst pl')" by (metis Un_upper1 set_append)
    then have "\<forall>(lg, at) \<in> set (hsClients s'). at = ClientReturned (Inr ()) \<longrightarrow> lg \<in> fst ` set pl'"
      using pl(3) by (fastforce simp: work(1))
    then show ?thesis using pl' pl(2) unfolding sys_ok_def by (auto simp: work(1))
  next
    case (receive hm update)
    then have "hm = (hsManager s)\<lparr>mgUpdates := tl (mgUpdates (hsManager s))\<rparr>" by (auto simp: Manager_Updates_def split: list.splits)
    then have "hm_ok H rids n (Suc (Suc k)) logs pl us (hsManager s) \<Longrightarrow> hm_ok H rids n (Suc (Suc k)) logs pl us hm" for logs pl us
      unfolding hm_ok_def by (metis (no_types, lifting) hm_inv_cong Manager.select_convs Manager.surjective Manager.update_convs(7))
    then show ?thesis by (intro sys_ok_cong [OF k2, where hm = hm and new = "[]"]) (use receive in auto)
  next
    case (stop regionID shardID hm stopped)
    then show ?thesis by (intro sys_ok_cong [OF k2, where hm = hm and new = "[]"]) (use hm_ok_stop in auto)
  next
    case (locator client)
    have "hm_ok H rids n (Suc (Suc k)) logs pl us (hsManager s) \<Longrightarrow> hm_ok H rids n (Suc (Suc k)) logs pl us (SetALL client (hsManager s))" for logs pl us
      unfolding hm_ok_def SetALL_def by (elim exE, rule exI, erule hm_inv_cong) simp_all
    then show ?thesis by (intro sys_ok_cong [OF k2, where hm = "SetALL client (hsManager s)" and new = "[]"]) (use locator in auto)
  qed
qed

lemma hm_run_ok:
  assumes "(hm_step H submit ^^ m) s s'" and "sys_ok H rids n 0 s" and "int (2 * m) < MaxInt64"
  shows "sys_ok H rids n (2 * m) s'"
  using assms
proof (induction m arbitrary: s')
  case (Suc m)
  then obtain t where t: "(hm_step H submit ^^ m) s t" "hm_step H submit t s'" by auto
  then have "sys_ok H rids n (2 * m) t" using Suc by simp
  then have "sys_ok H rids n (Suc (Suc (2 * m))) s'" using Suc.prems(3) by (intro hm_step_ok [OF t(2)]) auto
  then show ?case by simp
qed simp

lemma new_manager_ok:
  assumes "forest_repr H rids n (\<lambda>_. []) forest" and "NewManager (Some forest) maxSegmentLeaves segmentDuration = Inr hm"
  shows "sys_ok H rids n 0 (hm_system_of hm)"
proof -
  have "hm_inv H rids n (\<lambda>_. []) 0 [] [] [] hm"
    using assms by (auto simp: NewManager_def hm_inv_def heap_inv_def next_of_def gm_get_def places_ok_def split: if_splits)
  then show ?thesis by (auto simp: sys_ok_def hm_ok_def hm_system_of_def)
qed

end
