(* ===== verification/HM_Properties.thy ===== *)
theory HM_Properties
  imports HM_Invariant HMF_Store_Properties Localization_Properties
begin

text \<open>
  The properties of the manager: under every interleaving an acknowledged log is at the place the
  locator was told, and two concrete runs that show an update overtaken by an older one and a shard
  that refuses every further log. Runs are scripts that an interpreter executes on the model.
\<close>

section \<open>Scripts\<close>

datatype action =
    DoCall int Log
  | DoSend nat
  | DoWait nat
  | DoWork nat time nat
  | DoReceive
  | DoStop string int
  | DoSetALL

text \<open>The locator of the scripts accepts every request. \<open>DoWork i now j\<close> takes the \<open>j\<close>-th ready case.\<close>

definition accept_all :: "unit \<Rightarrow> LocatorRequest \<Rightarrow> (unit \<times> unit result) list" where
  "accept_all client request = [((), Inr ())]"

fun act :: "hash_fn \<Rightarrow> action \<Rightarrow> unit hm_system \<Rightarrow> unit hm_system option" where
  "act H (DoCall shardID lg) s =
     (let (hm, res) = SubmitLog_start (hsManager s) shardID lg in
      Some (s\<lparr>hsManager := hm, hsClients := hsClients s @ [(lg, case res of Inl e \<Rightarrow> ClientReturned (Inl e) | Inr i \<Rightarrow> ClientSending i)]\<rparr>))"
| "act H (DoSend r) s =
     (if r < length (hsClients s) then
        case hsClients s ! r of (lg, ClientSending i) \<Rightarrow>
          (case SubmitLog_send None (hsManager s) i \<lparr>arLog = lg, arResult = r\<rparr> of
             (hm, res) # _ \<Rightarrow> Some (client_moves r (case res of Inl e \<Rightarrow> ClientReturned (Inl e) | Inr _ \<Rightarrow> ClientWaiting i) (s\<lparr>hsManager := hm\<rparr>))
           | [] \<Rightarrow> None)
        | _ \<Rightarrow> None
      else None)"
| "act H (DoWait r) s =
     (if r < length (hsClients s) then
        case hsClients s ! r of (lg, ClientWaiting i) \<Rightarrow>
          (case SubmitLog_wait None (hsManager s) i r of res # _ \<Rightarrow> Some (client_moves r (ClientReturned res) s) | [] \<Rightarrow> None)
        | _ \<Rightarrow> None
      else None)"
| "act H (DoWork i now j) s =
     (if i < length (mgWorkerObjects (hsManager s)) \<and> j < length (runSegmentWorker H accept_all now i (hsManager s)) then
        case runSegmentWorker H accept_all now i (hsManager s) ! j of (hm, event) \<Rightarrow> Some (note_event event (s\<lparr>hsManager := hm\<rparr>))
      else None)"
| "act H DoReceive s = map_option (\<lambda>(hm, update). s\<lparr>hsManager := hm\<rparr>) (Manager_Updates (hsManager s))"
| "act H (DoStop regionID shardID) s = Some (s\<lparr>hsManager := fst (StopWorker (hsManager s) regionID shardID)\<rparr>)"
| "act H DoSetALL s = Some (s\<lparr>hsManager := SetALL (Some ()) (hsManager s)\<rparr>)"

fun exec :: "hash_fn \<Rightarrow> action list \<Rightarrow> unit hm_system \<Rightarrow> unit hm_system option" where
  "exec H [] s = Some s"
| "exec H (a # as) s = (case act H a s of None \<Rightarrow> None | Some s' \<Rightarrow> exec H as s')"

lemma act_sound: "act H a s = Some s' \<Longrightarrow> hm_step H accept_all s s'"
proof (induction H a s rule: act.induct)
  case (2 H r s)
  then show ?case by (auto split: if_splits prod.splits client_at.splits list.splits intro!: hm_step.send [where ctxErr = None])
next
  case (3 H r s)
  then show ?case by (auto split: if_splits prod.splits client_at.splits list.splits intro!: hm_step.wait [where ctxErr = None])
next
  case (4 H i now j s)
  then show ?case by (auto split: if_splits prod.splits intro!: hm_step.work [of i s _ _ _ _ now] simp: in_set_conv_nth)
next
  case (6 H regionID shardID s)
  then show ?case by (auto intro!: hm_step.stop [of s regionID shardID _ "snd (StopWorker (hsManager s) regionID shardID)"])
qed (auto intro: hm_step.intros split: prod.splits)

lemma exec_sound: "exec H as s = Some s' \<Longrightarrow> (hm_step H accept_all ^^ length as) s s'"
proof (induction as arbitrary: s)
  case (Cons a as)
  then show ?case by (auto dest!: act_sound simp del: relpowp.simps intro: relpowp_Suc_I2 split: option.splits)
qed simp

definition script_log :: "hash \<Rightarrow> Log" where
  "script_log digest = submitted_log ''eu'' digest 7"

definition script_manager :: "HMF \<Rightarrow> unit Manager" where
  "script_manager forest = \<lparr>mgHMF = forest, mgMaxSegmentLeaves = 4, mgSegmentDuration = 1000,
     mgActiveSegments = Map.empty, mgNextSegmentIDs = Map.empty, mgWorkers = Map.empty, mgUpdates = [], mgLocator = None,
     mgSegmentObjects = [], mgWorkerObjects = [], mgResults = Map.empty\<rparr>"

lemma new_script_manager: "NewManager (Some forest) 4 1000 = Inr (script_manager forest)"
  by (simp add: NewManager_def script_manager_def)

definition overtaking :: "action list" where
  "overtaking = [DoSetALL, DoCall 0 (script_log 1), DoCall 1 (script_log 2), DoSend 0, DoSend 1, DoWork 0 1 0, DoWork 0 2 0, DoWork 1 3 0, DoWork 1 4 0,
     DoStop ''eu'' 0, DoStop ''eu'' 1, DoWork 0 5 0, DoWork 1 6 0, DoWork 1 7 0, DoWork 0 8 0]"

lemmas script_simps = SubmitLog_start_def getOrStartWorker_def SubmitLog_send_def SubmitLog_wait_def StopWorker_def SetALL_def
  runSegmentWorker_def worker_select_def worker_request_def worker_open_def nextSegmentID_def openSegment_def getActiveSegment_def
  worker_room_def worker_append_def worker_propagate_def propagateToALL_def accept_all_def answer_def put_worker_def put_segment_def
  worker_stop_def worker_close_def worker_timer_def worker_timer_open_def worker_sent_def worker_reopen_def
  hm_system_of_def script_manager_def client_moves_def script_log_def submitted_log_def gm_get_def Let_def
  IsZero_def time_zero_def NewSegmentTree_def SegmentTree_Append_def slice_at_def slice_set_def

lemma one_leaf_seal:
  assumes "segLevels t = [[mk_node 0 0 h]]" and "tLeafCount t = 1" and "\<not> segSealed t"
  shows "SegmentTree_Seal H t = Inr (t\<lparr>tHeight := 0, tRoot := h, segSealed := True\<rparr>, [mk_node 0 0 h])"
  using assms by (simp add: SegmentTree_Seal_def buildInternalNode_def build_levels.simps slice_at_def Let_def)

lemma close_one_leaf:
  assumes "mgActiveSegments hm (shard_id rid sh) = Some p" and "p < length (mgSegmentObjects hm)"
    and t: "segLevels (asTree (segment_at hm p)) = [[mk_node 0 0 h]]" "tLeafCount (asTree (segment_at hm p)) = 1" "\<not> segSealed (asTree (segment_at hm p))"
    and "AppendSealedSegment H (mgHMF hm) rid sh (tidSegmentID (tTreeID (asTree (segment_at hm p)))) 1 h = (f', Inr v)"
  shows "closeSegment H now hm rid sh =
    (let seg = segment_at hm p; sealedAt = (if IsZero (asSealedAt seg) then now else asSealedAt seg); tree = (asTree seg)\<lparr>tHeight := 0, tRoot := h, segSealed := True\<rparr> in
     (hm\<lparr>mgSegmentObjects := (mgSegmentObjects hm)[p := seg\<lparr>asSealedAt := sealedAt, asTree := tree\<rparr>], mgHMF := f',
         mgActiveSegments := (mgActiveSegments hm)(shard_id rid sh := None)\<rparr>,
      Inr (v\<lparr>SegmentTreeID := tTreeID tree, SegmentNodes := [mk_node 0 0 h], SegmentRoot := h, SegmentLeaves := 1, SegmentHeight := 0,
        SegmentMaxLeaves := segMaxLeaves tree, SegmentMaxAge := mgSegmentDuration hm, SegmentCreatedAt := asCreatedAt seg,
        SegmentStartedAt := asStartedAt seg, SegmentEndedAt := asEndedAt seg, SegmentSealedAt := sealedAt\<rparr>)))"
  using assms one_leaf_seal [OF t, of H] by (simp add: closeSegment_def getActiveSegment_def put_segment_def Let_def)

lemma overtaking_run:
  assumes "hmfShardTrees f (shard_id ''eu'' 0) = Some t0" and "hmfShardTrees f (shard_id ''eu'' 1) = Some t1"
    and "AppendSealedSegment H f ''eu'' 0 0 1 1 = (f1, Inr v0)" and "AppendSealedSegment H f1 ''eu'' 1 0 1 2 = (f2, Inr v1)"
  shows "\<exists>s u v. exec H overtaking (hm_system_of (script_manager f)) = Some s \<and> mgHMF (hsManager s) = f2 \<and> mgActiveSegments (hsManager s) = Map.empty \<and>
    hsEmitted s = [u, v] \<and> GlobalRoot u = GlobalRoot v1 \<and> GlobalRoot v = GlobalRoot v0 \<and>
    tidType (SegmentTreeID u) = TreeSegment \<and> tidType (SegmentTreeID v) = TreeSegment \<and> SegmentLeaves u = 1 \<and> SegmentLeaves v = 1"
  using assms by (simp add: overtaking_def script_simps close_one_leaf)

definition blocking :: "action list" where
  "blocking = [DoSetALL, DoCall 0 (script_log 1), DoSend 0, DoWork 0 1 0, DoWork 0 2 0, DoWait 0, DoWork 0 3 0, DoWork 0 4 0,
     DoStop ''eu'' 0, DoWork 0 5 0, DoWork 0 6 0, DoWork 0 7 0]"

lemma blocking_run:
  assumes "hmfShardTrees f (shard_id ''eu'' 0) = Some t0" and "AppendSealedSegment H f ''eu'' 0 0 1 1 = (f1, Inr v0)" and "hmfShardTrees f1 (shard_id ''eu'' 0) = Some t1"
  shows "\<exists>s. exec H blocking (hm_system_of (script_manager f)) = Some s \<and> mgHMF (hsManager s) = f1 \<and>
    mgActiveSegments (hsManager s) = [shard_id ''eu'' 0 \<mapsto> 1] \<and> hsClients s = [(script_log 1, ClientReturned (Inr ()))] \<and>
    (\<exists>w. mgWorkerObjects (hsManager s) = [w] \<and> wkAt w = AtEnd \<and> wkRegionID w = ''eu'' \<and> wkShardID w = 0)"
  using assms by (simp add: blocking_def script_simps close_one_leaf worker_exit_def)

section \<open>A shard whose open segment nobody owns\<close>

definition dormant :: "segmentWorker \<Rightarrow> bool" where
  "dormant w \<longleftrightarrow> wkAt w = AtEnd \<or> (\<exists>e. wkAt w = AtPanic e) \<or> wkActive w = None \<and> wkAt w \<in> {AtSelect, AtReturn, AtExit}"

definition acked :: "'l hm_system \<Rightarrow> nat set" where
  "acked s = {r. mgResults (hsManager s) r = Some (Inr ())}"

definition orphaned :: "TreeID \<Rightarrow> 'l Manager \<Rightarrow> bool" where
  "orphaned key hm \<longleftrightarrow> mgActiveSegments hm key \<noteq> None \<and> dom (hmfShardTrees (mgHMF hm)) = {key} \<and>
     (\<forall>w \<in> set (mgWorkerObjects hm). dormant w \<and> shard_id (wkRegionID w) (wkShardID w) = key)"

definition no_new_ack :: "'l Manager \<Rightarrow> 'l Manager \<Rightarrow> bool" where
  "no_new_ack hm hm' \<longleftrightarrow> (\<forall>r. mgResults hm' r = Some (Inr ()) \<longrightarrow> mgResults hm r = Some (Inr ()))"

lemma orphaned_put_worker:
  assumes "orphaned key hm" and "dormant w" and "shard_id (wkRegionID w) (wkShardID w) = key"
  shows "orphaned key (put_worker i w hm)"
  using assms set_update_subset_insert [of "mgWorkerObjects hm" i w] by (auto simp: orphaned_def)

lemma orphaned_answer:
  assumes "orphaned key hm" and "i < length (mgWorkerObjects hm)" and "wkActive (worker_of hm i) = None"
  shows "orphaned key (answer i request (Inl e) hm) \<and> no_new_ack hm (answer i request (Inl e) hm)"
proof -
  have "orphaned key (hm\<lparr>mgResults := (mgResults hm)(arResult request \<mapsto> Inl e)\<rparr>)" using assms(1) by (simp add: orphaned_def)
  then have "orphaned key (answer i request (Inl e) hm)" unfolding answer_def
    by (rule orphaned_put_worker) (use assms in \<open>auto simp: orphaned_def dormant_def\<close>)
  then show ?thesis by (simp add: no_new_ack_def answer_def)
qed

lemma orphaned_open:
  assumes "orphaned key hm" and i: "i < length (mgWorkerObjects hm)"
  obtains hm' e where "worker_open now i hm = (hm', Inl e)" and "orphaned key hm'" and "mgWorkerObjects hm' = mgWorkerObjects hm" and "mgResults hm' = mgResults hm"
proof -
  let ?w = "worker_of hm i"
  have key: "shard_id (wkRegionID ?w) (wkShardID ?w) = key" using assms by (simp add: orphaned_def)
  obtain hm1 g where nx: "nextSegmentID hm (wkRegionID ?w) (wkShardID ?w) = (hm1, g)" by force
  then have hm1: "orphaned key hm1" "mgWorkerObjects hm1 = mgWorkerObjects hm" "mgResults hm1 = mgResults hm"
    using assms(1) by (auto simp: nextSegmentID_def Let_def orphaned_def)
  then have "\<exists>e. openSegment now hm1 (wkRegionID ?w) (wkShardID ?w) g = (hm1, Inl e)" by (auto simp: openSegment_def key orphaned_def Let_def)
  then obtain e where "openSegment now hm1 (wkRegionID ?w) (wkShardID ?w) g = (hm1, Inl e)" by blast
  with nx have "worker_open now i hm = (hm1, Inl e)" by (simp add: worker_open_def Let_def)
  then show thesis using hm1 by (rule that)
qed

lemma orphaned_work:
  assumes o: "orphaned key hm" and i: "i < length (mgWorkerObjects hm)" and mem: "(hm', event) \<in> set (runSegmentWorker H submit now i hm)"
  shows "event = Quiet \<and> orphaned key hm' \<and> no_new_ack hm hm'"
proof -
  let ?w = "worker_of hm i"
  have w: "dormant ?w" "shard_id (wkRegionID ?w) (wkShardID ?w) = key" using o i by (auto simp: orphaned_def)
  have move: "orphaned key (move i at hm) \<and> no_new_ack hm (move i at hm)" if "at = AtEnd \<or> (\<exists>e. at = AtPanic e) \<or> wkActive ?w = None \<and> at = AtReturn" for at
    using orphaned_put_worker [OF o, of "?w\<lparr>wkAt := at\<rparr>" i] that w by (auto simp: dormant_def no_new_ack_def)
  consider (sel) "wkAt ?w = AtSelect" "wkActive ?w = None" | (ret) "wkAt ?w = AtReturn" "wkActive ?w = None" | (exit) "wkAt ?w = AtExit" "wkActive ?w = None"
    | (ended) "wkAt ?w = AtEnd \<or> (\<exists>e. wkAt ?w = AtPanic e)"
    using w(1) by (auto simp: dormant_def)
  then show ?thesis
  proof cases
    case sel
    have req: "orphaned key (worker_request H now i request (put_worker i (?w\<lparr>wkRequests := rest\<rparr>) hm)) \<and>
        no_new_ack hm (worker_request H now i request (put_worker i (?w\<lparr>wkRequests := rest\<rparr>) hm))" for request rest
    proof -
      let ?hm = "put_worker i (?w\<lparr>wkRequests := rest\<rparr>) hm"
      have o1: "orphaned key ?hm" by (rule orphaned_put_worker [OF o]) (use w in \<open>auto simp: dormant_def\<close>)
      have i1: "i < length (mgWorkerObjects ?hm)" "wkActive (worker_of ?hm i) = None" using i sel by simp_all
      obtain hm2 e where op: "worker_open now i ?hm = (hm2, Inl e)" and o2: "orphaned key hm2"
        and same: "mgWorkerObjects hm2 = mgWorkerObjects ?hm" "mgResults hm2 = mgResults ?hm" by (rule orphaned_open [OF o1 i1(1)])
      have "orphaned key (answer i request (Inl e) hm2) \<and> no_new_ack hm2 (answer i request (Inl e) hm2)"
        using i1 same by (intro orphaned_answer [OF o2]) simp_all
      then show ?thesis using orphaned_answer [OF o1 i1] op i1(2) same by (auto simp: worker_request_def no_new_ack_def)
    qed
    have timer: "orphaned key (worker_timer H now i (put_worker i (?w\<lparr>wkTimer := TimerFired\<rparr>) hm)) \<and>
        no_new_ack hm (worker_timer H now i (put_worker i (?w\<lparr>wkTimer := TimerFired\<rparr>) hm))"
      using orphaned_put_worker [OF o, of "?w\<lparr>wkTimer := TimerFired, wkAt := AtPanic (Panic ''nil pointer dereference'')\<rparr>" i] w sel i
      by (simp add: worker_timer_def dormant_def no_new_ack_def put_worker_def)
    have "worker_stop H now i hm = move i AtReturn hm" using sel by (simp add: worker_stop_def)
    then show ?thesis using mem sel req timer move [of AtReturn] by (auto simp: runSegmentWorker_def worker_select_def Let_def split: if_splits list.splits)
  next
    case ret
    then show ?thesis using mem orphaned_put_worker [OF o, of "?w\<lparr>wkTimer := NoTimer, wkDoneClosed := True, wkAt := AtExit\<rparr>" i] w
      by (simp add: runSegmentWorker_def dormant_def no_new_ack_def)
  next
    case exit
    have "orphaned key (hm\<lparr>mgWorkers := ws\<rparr>)" for ws using o by (simp add: orphaned_def)
    then have "orphaned key (move i AtEnd (hm\<lparr>mgWorkers := ws\<rparr>))" for ws using w by (intro orphaned_put_worker) (auto simp: dormant_def)
    then show ?thesis using mem exit move [of AtEnd] by (auto simp: runSegmentWorker_def worker_exit_def no_new_ack_def Let_def)
  qed (use mem in \<open>auto simp: runSegmentWorker_def\<close>)
qed


lemma orphaned_start:
  assumes o: "orphaned key hm" and eq: "SubmitLog_start hm shardID lg = (hm', res)"
  shows "orphaned key hm' \<and> no_new_ack hm hm'"
proof (cases "logRegionID lg = '''' \<or> IsZero (logEventTime lg) \<or> hmfShardTrees (mgHMF hm) (shard_id (logRegionID lg) shardID) = None
    \<or> mgWorkers hm (shard_id (logRegionID lg) shardID) \<noteq> None")
  case True
  then have "hm' = hm" using eq by (auto simp: SubmitLog_start_def getOrStartWorker_def Let_def split: if_splits)
  then show ?thesis using o by (simp add: no_new_ack_def)
next
  case False
  then obtain t where t: "logRegionID lg \<noteq> ''''" "\<not> IsZero (logEventTime lg)" "hmfShardTrees (mgHMF hm) (shard_id (logRegionID lg) shardID) = Some t"
    "mgWorkers hm (shard_id (logRegionID lg) shardID) = None" by auto
  then have "shard_id (logRegionID lg) shardID \<in> dom (hmfShardTrees (mgHMF hm))" by blast
  then have "shard_id (logRegionID lg) shardID = key" using o by (simp add: orphaned_def)
  then show ?thesis using eq t o by (auto simp: SubmitLog_start_def getOrStartWorker_def Let_def orphaned_def dormant_def no_new_ack_def)
qed

lemma orphaned_step:
  assumes step: "hm_step H submit s s'" and o: "orphaned key (hsManager s)"
  shows "orphaned key (hsManager s') \<and> no_new_ack (hsManager s) (hsManager s') \<and> hsLocated s' = hsLocated s"
  using step
proof cases
  case (call shardID lg hm res)
  then show ?thesis using orphaned_start [OF o call(2)] by simp
next
  case (send r lg i hm res ctxErr)
  let ?w = "worker_of (hsManager s) i"
  have "orphaned key (put_worker i (?w\<lparr>wkRequests := wkRequests ?w @ [\<lparr>arLog = lg, arResult = r\<rparr>]\<rparr>) (hsManager s))"
  proof (cases "i < length (mgWorkerObjects (hsManager s))")
    case True
    then show ?thesis using o by (intro orphaned_put_worker [OF o]) (auto simp: orphaned_def dormant_def)
  qed (use o in \<open>simp add: put_worker_beyond\<close>)
  then show ?thesis using send o by (auto simp: SubmitLog_send_def Let_def no_new_ack_def split: if_splits option.splits)
next
  case (work i hm event now)
  then show ?thesis using orphaned_work [OF o work(2,3)] by simp
next
  case (receive hm update)
  then show ?thesis using o by (auto simp: Manager_Updates_def orphaned_def no_new_ack_def split: list.splits)
next
  case (stop regionID shardID hm stopped)
  have "orphaned key (put_worker i ((worker_of (hsManager s) i)\<lparr>wkStopClosed := True\<rparr>) ((hsManager s)\<lparr>mgWorkers := ws\<rparr>))" for i ws
  proof (cases "i < length (mgWorkerObjects (hsManager s))")
    case True
    have "orphaned key ((hsManager s)\<lparr>mgWorkers := ws\<rparr>)" using o by (simp add: orphaned_def)
    then show ?thesis using True o by (intro orphaned_put_worker) (auto simp: orphaned_def dormant_def)
  qed (use o in \<open>simp add: put_worker_beyond orphaned_def\<close>)
  then show ?thesis using stop o by (auto simp: StopWorker_def Let_def no_new_ack_def split: option.splits)
qed (use o in \<open>auto simp: SetALL_def orphaned_def no_new_ack_def\<close>)

lemma orphaned_run:
  assumes "(hm_step H submit)\<^sup>*\<^sup>* s s'" and "orphaned key (hsManager s)"
  shows "orphaned key (hsManager s') \<and> acked s' \<subseteq> acked s \<and> hsLocated s' = hsLocated s"
  using assms
proof induction
  case (step t u)
  then show ?case using orphaned_step [OF step(2)] by (auto simp: acked_def no_new_ack_def)
qed simp

section \<open>Forests of one region\<close>

definition eu_config :: "nat \<Rightarrow> HMFConfig" where
  "eu_config n = \<lparr>cfgRegionIDs = [''eu''], cfgNumShardsPerRegion = int n, cfgMaxSegmentLeaves = 4\<rparr>"

lemma eu_forest:
  assumes "0 < n"
  obtains f where "NewHMF H (eu_config n) = Inr f" and "forest_repr H [''eu''] n (\<lambda>_. []) f"
  using NewHMF_ok [of "eu_config n" H] assms by (auto simp: eu_config_def valid_regions_def)

lemma shard_exists:
  assumes "forest_repr H [''eu''] n segs f" and "s < n"
  shows "\<exists>t. hmfShardTrees f (shard_id ''eu'' (int s)) = Some t"
proof -
  have "shard_id ''eu'' (int s) \<in> dom (hmfShardTrees f)" using assms by (auto simp: forest_repr_def)
  then show ?thesis by blast
qed

lemma eu_append:
  assumes "forest_repr H [''eu''] n segs f" and "s < n" and "segs (''eu'', int s) = []"
  shows "\<exists>f' u. AppendSealedSegment H f ''eu'' (int s) 0 1 root = (f', Inr u) \<and>
    forest_repr H [''eu''] n (append_segment segs ''eu'' (int s) (CommitSegmentRoot H ''eu'' (int s) 0 1 root)) f' \<and>
    GlobalRoot u = forest_root H [''eu''] n (append_segment segs ''eu'' (int s) (CommitSegmentRoot H ''eu'' (int s) 0 1 root))"
  using AppendSealedSegment_refines [OF assms(1), of 0 s 0 1 root] assms(2,3) by (auto simp: update_spec_def Let_def)

text \<open>With the hash that keeps the last byte, the root of two shards is the last digest of the second.\<close>

lemma last_hash_append: "unat x < 256 \<Longrightarrow> last_hash (bs @ hash_bytes x) = x"
proof -
  assume x: "unat x < 256"
  have "hash_bytes x \<noteq> []" using length_be_bytes [of 32 "unat x"] unfolding hash_bytes_def by (metis list.size(3) zero_neq_numeral)
  then have "last_hash (bs @ hash_bytes x) = last_hash (commit_input [] [] 0 0 0 x)" by (simp add: last_hash_def commit_input_def last_append)
  then show ?thesis by (simp add: last_hash_commit [OF x])
qed

lemma last_hash_simps:
  assumes "unat x < 256"
  shows "CommitSegmentRoot last_hash rid s g n x = x" "CommitShardRoot last_hash rid s n x = x" "CommitRegionRoot last_hash rid n x = x"
    "CommitGlobalRoot last_hash n x = x" "HashPair last_hash ''NODE'' y (Some x) = x"
  using last_hash_commit [OF assms] last_hash_append [OF assms, of "string_bytes ''NODE'' @ hash_bytes y"]
  by (simp_all add: CommitSegmentRoot_def CommitShardRoot_def CommitRegionRoot_def CommitGlobalRoot_def commitTreeRoot_def HashPair_def)

lemma two_shards_root:
  assumes "unat (merkle_root last_hash (segs (''eu'', 1))) < 256"
  shows "forest_root last_hash [''eu''] 2 segs = merkle_root last_hash (segs (''eu'', 1))"
  using assms by (simp add: forest_root_def region_commitment_def region_spec_def shard_commitment_def upt_rec numeral_2_eq_2
      merkle_root_step pair_up.simps last_hash_simps)

section \<open>The stored root\<close>

lemma stored_global:
  assumes "PersistSealedUpdate arrange now cq db u = (db', Inr ())"
  shows "\<exists>st. map_of (dbStates db') ''GLOBAL'' = Some st \<and> htCurrentRoot st = hashBytes (GlobalRoot u)"
proof -
  obtain d where "persistTreeStates cq d u = (db', Inr ())"
    using assms by (auto simp: PersistSealedUpdate_def Let_def sbind_eq_Inr split: if_splits)
  then obtain d st where "HMFRepo_UpsertTreeState cq d st = (db', Inr ())" "htTreeID st = ''GLOBAL''" "htCurrentRoot st = hashBytes (GlobalRoot u)"
    by (auto simp: persistTreeStates_def tree_states_def Let_def sbind_eq_Inr)
  then show ?thesis by (auto simp: HMFRepo_UpsertTreeState_def swrap_eq_Inr update_conv' dest!: exec_statement_Inr)
qed

section \<open>Addresses\<close>

lemma locator_request_inject:
  assumes "tidType a = TreeSegment" and "tidType b = TreeSegment"
  shows "rqValue (locator_request lg a i) = rqValue (locator_request lg' b j) \<longleftrightarrow> a = b \<and> i = j"
  using assms by (cases a; cases b) (auto simp: locator_request_def)

lemma placed_type: "heap_inv H k hm \<Longrightarrow> placed hm lg spot \<Longrightarrow> tidType (fst spot) = TreeSegment"
  unfolding placed_def holds_def heap_inv_def segment_ok_def by (metis nth_mem)

lemma distinct_addresses:
  assumes inv: "hm_inv H rids n segs k logs pl emitted hm"
  shows "distinct (map (rqValue \<circ> snd) (map place_request pl))"
proof -
  have pl: "distinct (map snd pl)" "\<forall>(lg, spot) \<in> set pl. placed hm lg spot" using inv by (simp_all add: hm_inv_def places_ok_def)
  have ty: "tidType (fst (snd x)) = TreeSegment" if "x \<in> set pl" for x
    using placed_type [OF hm_inv_heap [OF inv], of "fst x" "snd x"] pl(2) that by auto
  have eq: "snd x = snd y" if "x \<in> set pl" "y \<in> set pl" "rqValue (snd (place_request x)) = rqValue (snd (place_request y))" for x y
    using that(3) locator_request_inject [OF ty [OF that(1)] ty [OF that(2)], of "fst x" "snd (snd x)" "fst y" "snd (snd y)"]
    by (cases x; cases y) (auto simp: place_request_def)
  from pl(1) have "inj_on snd (set pl)" "distinct pl" by (auto simp: distinct_map)
  then have "inj_on (\<lambda>x. rqValue (snd (place_request x))) (set pl)" using eq by (meson inj_on_def)
  then show ?thesis using \<open>distinct pl\<close> by (simp add: distinct_map comp_def)
qed

lemma located_place:
  assumes inv: "hm_inv H rids n segs k logs pl emitted hm" and mem: "(lg, request) \<in> set (map place_request pl)"
  shows "\<exists>rid sh g i. request = locator_request lg (seg_id rid sh g) (int i) \<and>
    (\<forall>u \<in> set emitted. SegmentTreeID u = seg_id rid sh g \<longrightarrow>
      (\<exists>digests. i < length digests \<and> digests ! i = logDigest lg \<and> SegmentNodes u = Merkle_Tree.tree_nodes H digests \<and>
        SegmentRoot u = merkle_root H digests \<and> SegmentLeaves u = int (length digests)))"
proof -
  obtain tid j where at: "(lg, tid, j) \<in> set pl" "request = locator_request lg tid j" using mem by (auto simp: place_request_def)
  have "\<forall>(lg, spot) \<in> set pl. placed hm lg spot" using inv by (simp add: hm_inv_def places_ok_def)
  then obtain p where p: "holds hm p j (logDigest lg)" "tTreeID (tree_at hm p) = tid" using at(1) by (fastforce simp: placed_def)
  have h: "heap_inv H k hm" by (rule hm_inv_heap [OF inv])
  have "segment_ok H hm (tree_at hm p)" using h p(1) by (auto simp: heap_inv_def holds_def)
  then have tid: "tid = seg_id (tidRegionID tid) (tidShardID tid) (tidSegmentID tid)" using p(2) by (cases tid) (auto simp: segment_ok_def seg_id_def)
  have j: "j = int (nat j)" using p(1) by (simp add: holds_def)
  have "\<exists>digests. nat j < length digests \<and> digests ! nat j = logDigest lg \<and> SegmentNodes u = Merkle_Tree.tree_nodes H digests \<and>
      SegmentRoot u = merkle_root H digests \<and> SegmentLeaves u = int (length digests)" if u: "u \<in> set emitted" "SegmentTreeID u = tid" for u
  proof -
    obtain q where q: "q < length (mgSegmentObjects hm)" "update_of H (tree_at hm q) u" using inv u(1) by (auto simp: hm_inv_def update_ok_def)
    then have "q = p" using p u(2) by (intro same_segment [OF h]) (auto simp: holds_def update_of_def)
    then show ?thesis using q(2) p(1) by (intro exI [of _ "seg_leaves (tree_at hm p)"]) (simp add: update_of_def holds_def)
  qed
  then show ?thesis using at(2) tid j by metis
qed

section \<open>Properties\<close>

text \<open>C40: A stopped worker can leave its shard unusable for good. There is a run of a manager with one region and
  one shard in which the shard's only worker accepts a log, its timer seals the segment and opens the next one, and the worker is stopped
  before another log arrives. The empty segment stays registered as active with no worker that owns
  it, so each later worker fails to open a segment: in every later state, whatever happens, no further
  log of the shard is located or acknowledged, although the shard exists.\<close>

theorem stopped_worker_blocks_its_shard:
  "\<exists>forest hm s. NewHMF H (eu_config 1) = Inr forest \<and> NewManager (Some forest) 4 1000 = Inr hm \<and>
    (hm_step H accept_all)\<^sup>*\<^sup>* (hm_system_of hm) s \<and> hsClients s = [(script_log 1, ClientReturned (Inr ()))] \<and>
    hmfShardTrees (mgHMF (hsManager s)) (shard_id ''eu'' 0) \<noteq> None \<and>
    {s'. (hm_step H accept_all)\<^sup>*\<^sup>* s s'} \<subseteq> {s'. hsLocated s' = hsLocated s \<and> acked s' \<subseteq> acked s}"
proof -
  obtain f where f: "NewHMF H (eu_config 1) = Inr f" "forest_repr H [''eu''] 1 (\<lambda>_. []) f" using eu_forest [OF zero_less_one] by blast
  obtain t0 where t0: "hmfShardTrees f (shard_id ''eu'' 0) = Some t0" using shard_exists [OF f(2), of 0] by auto
  obtain f1 v0 where ap: "AppendSealedSegment H f ''eu'' 0 0 1 1 = (f1, Inr v0)"
    "forest_repr H [''eu''] 1 (append_segment (\<lambda>_. []) ''eu'' 0 (CommitSegmentRoot H ''eu'' 0 0 1 1)) f1"
    using eu_append [OF f(2), of 0 1] by auto
  obtain t1 where t1: "hmfShardTrees f1 (shard_id ''eu'' 0) = Some t1" using shard_exists [OF ap(2), of 0] by auto
  obtain s w where s: "exec H blocking (hm_system_of (script_manager f)) = Some s" "mgHMF (hsManager s) = f1"
    "mgActiveSegments (hsManager s) = [shard_id ''eu'' 0 \<mapsto> 1]" "hsClients s = [(script_log 1, ClientReturned (Inr ()))]"
    "mgWorkerObjects (hsManager s) = [w]" "wkAt w = AtEnd" "wkRegionID w = ''eu''" "wkShardID w = 0"
    using blocking_run [OF t0 ap(1) t1] by blast
  have "dom (hmfShardTrees f1) = {shard_id ''eu'' 0}" using ap(2) by (auto simp: forest_repr_def)
  then have "orphaned (shard_id ''eu'' 0) (hsManager s)" using s by (auto simp: orphaned_def dormant_def)
  then have "{s'. (hm_step H accept_all)\<^sup>*\<^sup>* s s'} \<subseteq> {s'. hsLocated s' = hsLocated s \<and> acked s' \<subseteq> acked s}"
    using orphaned_run by blast
  then show ?thesis
    using f(1) new_script_manager [of f] relpowp_imp_rtranclp [OF exec_sound [OF s(1)]] s(2,4) t1
    by (intro exI [of _ f] exI [of _ "script_manager f"] exI [of _ s]) simp
qed


text \<open>C39: An older update can overtake a newer one on the channel. There is a run of two workers in which
  both segments are committed in the forest and both updates are sent, but in the opposite order: the
  manager releases the lock of the forest before it sends the update. The writer, which stores updates
  in the order of the channel, then leaves a global root in the tables that is not the root of the
  forest, although nothing is left to be sealed or written.\<close>

theorem updates_can_overtake:
  "\<exists>H forest hm s db st. NewHMF H (eu_config 2) = Inr forest \<and> NewManager (Some forest) 4 1000 = Inr hm \<and>
    (hm_step H accept_all)\<^sup>*\<^sup>* (hm_system_of hm) s \<and> mgActiveSegments (hsManager s) = Map.empty \<and> length (hsEmitted s) = 2 \<and>
    PersistUpdates id exact_cql empty_hmf_db (map (UpdateReceived 9) (hsEmitted s)) = (db, Inr False) \<and>
    map_of (dbStates db) ''GLOBAL'' = Some st \<and> htCurrentRoot st \<noteq> hashBytes (HMF_Root H (mgHMF (hsManager s)))"
proof -
  let ?H = last_hash
  obtain f where f: "NewHMF ?H (eu_config 2) = Inr f" "forest_repr ?H [''eu''] 2 (\<lambda>_. []) f" using eu_forest [of 2 ?H] by auto
  obtain t0 t1 where t: "hmfShardTrees f (shard_id ''eu'' 0) = Some t0" "hmfShardTrees f (shard_id ''eu'' 1) = Some t1"
    using shard_exists [OF f(2), of 0] shard_exists [OF f(2), of 1] by auto
  let ?s0 = "append_segment (\<lambda>_. []) ''eu'' 0 (CommitSegmentRoot ?H ''eu'' 0 0 1 1)"
  let ?s1 = "append_segment ?s0 ''eu'' 1 (CommitSegmentRoot ?H ''eu'' 1 0 1 2)"
  obtain f1 v0 where ap0: "AppendSealedSegment ?H f ''eu'' 0 0 1 1 = (f1, Inr v0)" "forest_repr ?H [''eu''] 2 ?s0 f1"
    "GlobalRoot v0 = forest_root ?H [''eu''] 2 ?s0" using eu_append [OF f(2), of 0 1] by auto
  obtain f2 v1 where ap1: "AppendSealedSegment ?H f1 ''eu'' 1 0 1 2 = (f2, Inr v1)" "forest_repr ?H [''eu''] 2 ?s1 f2"
    using eu_append [OF ap0(2), of 1 2] by (auto simp: append_segment_def)
  obtain s u v where s: "exec ?H overtaking (hm_system_of (script_manager f)) = Some s" "mgHMF (hsManager s) = f2" "mgActiveSegments (hsManager s) = Map.empty"
    "hsEmitted s = [u, v]" "GlobalRoot v = GlobalRoot v0"
    and uv: "tidType (SegmentTreeID u) = TreeSegment" "tidType (SegmentTreeID v) = TreeSegment" "SegmentLeaves u \<noteq> 0" "SegmentLeaves v \<noteq> 0"
    using overtaking_run [OF t ap0(1) ap1(1)] by auto
  have roots: "GlobalRoot v = 0" "HMF_Root ?H f2 = 2"
    by (simp_all add: s(5) ap0(3) forest_repr_root [OF ap1(2)] two_shards_root append_segment_def merkle_root.simps last_hash_simps)
  have e: "dbOutcomes empty_hmf_db = []" by (simp add: empty_hmf_db_def)
  obtain d1 where d1: "PersistSealedUpdate id 9 exact_cql empty_hmf_db u = (d1, Inr ())" "dbOutcomes d1 = []"
    using update_total [OF e uv(1,3)] by blast
  obtain d2 where d2: "PersistSealedUpdate id 9 exact_cql d1 v = (d2, Inr ())" using update_total [OF d1(2) uv(2,4)] by blast
  obtain st where st: "map_of (dbStates d2) ''GLOBAL'' = Some st" "htCurrentRoot st = hashBytes (GlobalRoot v)" using stored_global [OF d2] by blast
  have "hashBytes (0 :: hash) \<noteq> hashBytes 2" using hash_bytes_inject [of 0 2] by (simp add: hashBytes_def)
  then have "htCurrentRoot st \<noteq> hashBytes (HMF_Root ?H (mgHMF (hsManager s)))" by (simp add: st(2) roots s(2))
  moreover have "PersistUpdates id exact_cql empty_hmf_db (map (UpdateReceived 9) (hsEmitted s)) = (d2, Inr False)" by (simp add: s(4) d1 d2)
  moreover have "length (hsEmitted s) = 2" by (simp add: s(4))
  ultimately show ?thesis using f(1) new_script_manager relpowp_imp_rtranclp [OF exec_sound [OF s(1)]] s(3) st(1) by blast
qed


text \<open>C7: An acknowledged log is where the locator says, for every interleaving of clients, workers, the
  consumer of the updates and the locator. No two logs are given the same address; a log that a client
  got an acknowledgement for was given to the locator with its address; and whenever an update for the
  segment of an address is sent, its nodes are the tree over the segment's digests, with the log's digest
  at the leaf of the address, and the forest has the commitment of this tree at the leaf of the shard
  tree that the update names.\<close>

theorem located_logs_are_committed:
  assumes "NewHMF H config = Inr forest" and "NewManager (Some forest) maxSegmentLeaves segmentDuration = Inr hm"
    and "(hm_step H submit ^^ m) (hm_system_of hm) s" and "int (2 * m) < MaxInt64"
  shows "distinct (map (rqValue \<circ> snd) (hsLocated s)) \<and>
    (\<forall>(lg, at) \<in> set (hsClients s). at = ClientReturned (Inr ()) \<longrightarrow> lg \<in> fst ` set (hsLocated s)) \<and>
    (\<forall>(lg, request) \<in> set (hsLocated s). \<exists>rid sh g i. request = locator_request lg (seg_id rid sh g) (int i) \<and>
      (\<forall>u \<in> set (hsEmitted s). SegmentTreeID u = seg_id rid sh g \<longrightarrow>
        (\<exists>digests. i < length digests \<and> digests ! i = logDigest lg \<and> SegmentNodes u = Merkle_Tree.tree_nodes H digests \<and>
          SegmentRoot u = merkle_root H digests \<and> SegmentLeaves u = int (length digests)))) \<and>
    (\<exists>segs. forest_repr H (cfgRegionIDs config) (nat (cfgNumShardsPerRegion config)) segs (mgHMF (hsManager s)) \<and>
      (\<forall>u \<in> set (hsEmitted s). committed H segs u))"
proof -
  have repr: "forest_repr H (cfgRegionIDs config) (nat (cfgNumShardsPerRegion config)) (\<lambda>_. []) forest"
    using NewHMF_ok [of config H] NewHMF_error [of config H] assms(1) by force
  obtain pl segs where ok: "hm_inv H (cfgRegionIDs config) (nat (cfgNumShardsPerRegion config)) segs (2 * m) (map fst (hsClients s)) pl (hsEmitted s) (hsManager s)"
    and loc: "hsLocated s = map place_request pl" and ack: "\<forall>(lg, at) \<in> set (hsClients s). at = ClientReturned (Inr ()) \<longrightarrow> lg \<in> fst ` set pl"
    using hm_run_ok [OF assms(3) new_manager_ok [OF repr assms(2)] assms(4)] unfolding sys_ok_def hm_ok_def by blast
  have fst: "fst ` set (hsLocated s) = fst ` set pl" unfolding loc by (force simp: place_request_def)
  have "distinct (map (rqValue \<circ> snd) (hsLocated s))" unfolding loc by (rule distinct_addresses [OF ok])
  moreover have "\<exists>rid sh g i. request = locator_request lg (seg_id rid sh g) (int i) \<and> (\<forall>u \<in> set (hsEmitted s). SegmentTreeID u = seg_id rid sh g \<longrightarrow>
      (\<exists>digests. i < length digests \<and> digests ! i = logDigest lg \<and> SegmentNodes u = Merkle_Tree.tree_nodes H digests \<and>
        SegmentRoot u = merkle_root H digests \<and> SegmentLeaves u = int (length digests)))" if "(lg, request) \<in> set (hsLocated s)" for lg request
    using that located_place [OF ok] unfolding loc by blast
  moreover have "forest_repr H (cfgRegionIDs config) (nat (cfgNumShardsPerRegion config)) segs (mgHMF (hsManager s))" "\<forall>u \<in> set (hsEmitted s). committed H segs u"
    using ok by (auto simp: hm_inv_def update_ok_def)
  ultimately show ?thesis using ack unfolding fst by blast
qed

text \<open>One log, acknowledged, and sealed when its worker is stopped.\<close>

definition sealing :: "action list" where
  "sealing = [DoSetALL, DoCall 0 (script_log 1), DoSend 0, DoWork 0 1 0, DoWork 0 2 0, DoWait 0, DoStop ''eu'' 0, DoWork 0 3 0, DoWork 0 4 0]"

lemma sealing_run:
  assumes "hmfShardTrees f (shard_id ''eu'' 0) = Some t0" and "AppendSealedSegment H f ''eu'' 0 0 1 1 = (f1, Inr v0)"
  shows "\<exists>s. exec H sealing (hm_system_of (script_manager f)) = Some s \<and> length sealing = 9 \<and>
    hsLocated s = [(script_log 1, locator_request (script_log 1) (seg_id ''eu'' 0 0) 0)] \<and> map SegmentTreeID (hsEmitted s) = [seg_id ''eu'' 0 0]"
  using assms by (simp add: sealing_def script_simps close_one_leaf seg_id_def)

theorem located_logs_are_committed_witness:
  "\<exists>forest hm s u digests. NewHMF len_hash (eu_config 1) = Inr forest \<and> NewManager (Some forest) 4 1000 = Inr hm \<and>
    (hm_step len_hash accept_all ^^ 9) (hm_system_of hm) s \<and>
    hsLocated s = [(script_log 1, locator_request (script_log 1) (seg_id ''eu'' 0 0) 0)] \<and>
    hsEmitted s = [u] \<and> SegmentTreeID u = seg_id ''eu'' 0 0 \<and> SegmentNodes u = Merkle_Tree.tree_nodes len_hash digests \<and> digests ! 0 = 1"
proof -
  let ?H = len_hash
  obtain f where f: "NewHMF ?H (eu_config 1) = Inr f" "forest_repr ?H [''eu''] 1 (\<lambda>_. []) f" using eu_forest [OF zero_less_one] by blast
  obtain t0 where t0: "hmfShardTrees f (shard_id ''eu'' 0) = Some t0" using shard_exists [OF f(2), of 0] by auto
  obtain f1 v0 where ap: "AppendSealedSegment ?H f ''eu'' 0 0 1 1 = (f1, Inr v0)" using eu_append [OF f(2), of 0 1] by auto
  obtain s where s: "exec ?H sealing (hm_system_of (script_manager f)) = Some s" "length sealing = 9"
    "hsLocated s = [(script_log 1, locator_request (script_log 1) (seg_id ''eu'' 0 0) 0)]" "map SegmentTreeID (hsEmitted s) = [seg_id ''eu'' 0 0]"
    using sealing_run [OF t0 ap] by (elim exE conjE) (rule that)
  obtain u where u: "hsEmitted s = [u]" "SegmentTreeID u = seg_id ''eu'' 0 0" using s(4) by auto
  have run: "(hm_step ?H accept_all ^^ 9) (hm_system_of (script_manager f)) s" using exec_sound [OF s(1)] s(2) by simp
  have small: "int (2 * 9) < MaxInt64" by simp
  note all = located_logs_are_committed [OF f(1) new_script_manager run small, THEN conjunct2, THEN conjunct2, THEN conjunct1]
  have mem: "(script_log 1, locator_request (script_log 1) (seg_id ''eu'' 0 0) 0) \<in> set (hsLocated s)" by (simp add: s(3))
  obtain rid sh g i where eq: "locator_request (script_log 1) (seg_id ''eu'' 0 0) 0 = locator_request (script_log 1) (seg_id rid sh g) (int i)"
    and up: "SegmentTreeID u = seg_id rid sh g \<Longrightarrow> \<exists>digests. digests ! i = logDigest (script_log 1) \<and> SegmentNodes u = Merkle_Tree.tree_nodes ?H digests"
    using bspec [OF all mem] by (simp add: u(1)) blast
  have "seg_id rid sh g = seg_id ''eu'' 0 0" "i = 0" using eq by (simp_all add: locator_request_def seg_id_def)
  then obtain digests where "digests ! 0 = 1" "SegmentNodes u = Merkle_Tree.tree_nodes ?H digests"
    using up u(2) by (auto simp: script_log_def submitted_log_def)
  then show ?thesis using f(1) new_script_manager [of f] run s(3) u
    by (intro exI [of _ f] exI [of _ "script_manager f"] exI [of _ s] exI [of _ u] exI [of _ digests]) simp
qed

end
