(* ===== verification/HTTP_API.thy ===== *)
theory HTTP_API
  imports Audit_Service
begin

text \<open>
  \<^verbatim>\<open>internal/transport/httpapi/handler.go\<close>: the audit service over HTTP. A request is its method and what
  the JSON decoder answers when it is asked for the input and then for more; a response is its status,
  its \<^verbatim>\<open>Allow\<close> header and the value that is encoded as its body. The JSON text itself is not modelled, the
  hexadecimal form of the hashes is.
\<close>

section \<open>Hexadecimal strings\<close>

definition hex_digit :: "nat \<Rightarrow> char" where
  "hex_digit d = char_of (if d < 10 then 48 + d else 87 + d)"

definition from_hex :: "char \<Rightarrow> nat option" where
  "from_hex c =
     (let n = (of_char c :: nat) in
      if 48 \<le> n \<and> n \<le> 57 then Some (n - 48) else if 97 \<le> n \<and> n \<le> 102 then Some (n - 87)
      else if 65 \<le> n \<and> n \<le> 70 then Some (n - 55) else None)"

definition EncodeToString :: "byte list \<Rightarrow> string" where
  "EncodeToString bs = concat (map (\<lambda>b. [hex_digit (unat b div 16), hex_digit (unat b mod 16)]) bs)"

fun DecodeString :: "string \<Rightarrow> byte list result" where
  "DecodeString [] = Inr []"
| "DecodeString [c] = (case from_hex c of None \<Rightarrow> Inl (Errorf ''encoding/hex: invalid byte: %#U'') | Some _ \<Rightarrow> Inl (Errorf ''encoding/hex: odd length hex string''))"
| "DecodeString (c # d # s) =
     (case (from_hex c, from_hex d) of
        (Some x, Some y) \<Rightarrow> rbind (DecodeString s) (\<lambda>bs. Inr (word_of_nat (16 * x + y) # bs))
      | _ \<Rightarrow> Inl (Errorf ''encoding/hex: invalid byte: %#U''))"

definition hashHex :: "hash \<Rightarrow> string" where
  "hashHex h = EncodeToString (hash_bytes h)"

definition parseHash :: "string \<Rightarrow> hash result" where
  "parseHash s =
     (case DecodeString s of
        Inr bs \<Rightarrow> if length bs \<noteq> 32 then Inl (Errorf ''expected 64 hexadecimal characters'') else Inr (hash_of_bytes bs)
      | Inl _ \<Rightarrow> Inl (Errorf ''expected 64 hexadecimal characters''))"

section \<open>Requests and responses\<close>

record locatorProofRequest =
  lprTenantID :: string
  lprServiceID :: string
  lprLogType :: string
  lprRegionID :: string
  lprStartTime :: time
  lprEndTime :: time

record physicalAddress =
  jaRegionID :: string
  jaShardID :: int
  jaSegmentID :: int
  jaLeafID :: int

record hmfProofRequest =
  hprCheckpointSequence :: int
  hprAddresses :: "physicalAddress list"

record hmfLeafResponse =
  hlAddress :: PhysicalAddress
  hlHash :: string

record hmfNodeResponse =
  hoRef :: NodeRef
  hoHash :: string

record hmfProof =
  hfPlan :: ProofPlan
  hfLeaves :: "hmfLeafResponse list"
  hfNodes :: "hmfNodeResponse list"

record localizationRequest =
  lzrCheckpointSequence :: int
  lzrAuditorGlobalRoot :: string
  lzrK :: int
  lzrAddresses :: "physicalAddress list"
  lzrFailedProof :: hmfProof

record checkpointResponse =
  ckID :: string
  ckSystemID :: string
  ckSequence :: int
  ckLocatorTreeID :: string
  ckLocatorRoot :: string
  ckGlobalHMFRoot :: string
  ckStateCommitment :: string
  ckStatus :: Status
  ckAnchor :: "AnchorReceipt option"
  ckCreatedAt :: time
  ckFinalizedAt :: "time option"

record locatorProofStepResponse =
  jsPageID :: int
  jsKeys :: "LocatorKey list"
  jsChildIndex :: int
  jsChildHashes :: "string list"

record locatorLeafProof =
  jlPageID :: int
  jlNextPageID :: "int option"
  jlKeys :: "LocatorKey list"
  jlValues :: "LocatorValue option list"
  jlPath :: "locatorProofStepResponse list"

record locatorRangeProof =
  jrLeaves :: "locatorLeafProof list"
  jrReconstructedRoot :: string

record locatorResultResponse =
  joEntries :: "LocatorEntry list"
  joPredecessor :: "LocatorEntry option"
  joSuccessor :: "LocatorEntry option"
  joProof :: locatorRangeProof

record locatorProofResponse =
  lpoCheckpoint :: checkpointResponse
  lpoResult :: locatorResultResponse

record hmfProofResponse =
  hpoCheckpoint :: checkpointResponse
  hpoCalculatedGlobalRoot :: string
  hpoProof :: hmfProof

record localizationComparisonResponse =
  jcRef :: NodeRef
  jcAuditorHash :: string
  jcReferenceHash :: string
  jcMatch :: bool

record localizationRoundResponse =
  jnTree :: TreeRef
  jnFromLevel :: int
  jnTargetLevel :: int
  jnComparisons :: "localizationComparisonResponse list"

record localizationSuspectResponse =
  juRef :: NodeRef
  juAddress :: "PhysicalAddress option"
  juAuditorHash :: string
  juReferenceHash :: string
  juClassification :: Classification

record localizationProofResponse =
  jzAnchoredGlobalRoot :: string
  jzAuditorGlobalRoot :: string
  jzReferenceGlobalRoot :: string
  jzK :: int
  jzAddresses :: "PhysicalAddress list"
  jzFailedProof :: hmfProof
  jzReferenceProof :: hmfProof
  jzBadShards :: "TreeRef list"
  jzRounds :: "localizationRoundResponse list"
  jzSuspects :: "localizationSuspectResponse list"

record localizationResponse =
  lzoCheckpoint :: checkpointResponse
  lzoCalculatedReferenceRoot :: string
  lzoProof :: localizationProofResponse

text \<open>A message is a literal or the text of an error.\<close>

datatype message = Literal string | ErrorText error

datatype response_body =
    StatusBody string
  | CheckpointBody checkpointResponse
  | LocatorBody locatorProofResponse
  | HMFBody hmfProofResponse
  | LocalizationBody localizationResponse
  | ErrorBody string message

record http_response =
  rsStatus :: int
  rsAllow :: "string option"
  rsBody :: response_body

text \<open>What the decoder answers to the first and to the second \<^verbatim>\<open>Decode\<close>.\<close>

record 'i http_request =
  rqMethod :: string
  rqFirst :: "'i result"
  rqSecond :: "unit result"

section \<open>Views\<close>

definition checkpointView :: "Checkpoint \<Rightarrow> checkpointResponse" where
  "checkpointView c = \<lparr>ckID = cpID c, ckSystemID = cpSystemID c, ckSequence = cpSequence c, ckLocatorTreeID = cpLocatorTreeID c,
     ckLocatorRoot = hashHex (cpLocatorRoot c), ckGlobalHMFRoot = hashHex (cpGlobalHMFRoot c),
     ckStateCommitment = hashHex (cpStateCommitment c), ckStatus = cpStatus c, ckAnchor = cpAnchor c,
     ckCreatedAt = cpCreatedAt c, ckFinalizedAt = cpFinalizedAt c\<rparr>"

definition proof_step_view :: "LocatorProofStep \<Rightarrow> locatorProofStepResponse" where
  "proof_step_view step = \<lparr>jsPageID = psPageID step, jsKeys = psKeys step, jsChildIndex = psChildIndex step, jsChildHashes = map hashHex (psChildHashes step)\<rparr>"

definition leaf_proof_view :: "LocatorLeafProof \<Rightarrow> locatorLeafProof" where
  "leaf_proof_view leaf = \<lparr>jlPageID = lpPageID leaf, jlNextPageID = lpNextPageID leaf, jlKeys = lpKeys leaf, jlValues = lpValues leaf,
     jlPath = map proof_step_view (lpPath leaf)\<rparr>"

definition locatorResultView :: "LocatorRangeResult \<Rightarrow> locatorResultResponse" where
  "locatorResultView r = \<lparr>joEntries = rrEntries r, joPredecessor = rrPredecessor r, joSuccessor = rrSuccessor r,
     joProof = \<lparr>jrLeaves = map leaf_proof_view (rpLeaves (rrProof r)), jrReconstructedRoot = hashHex (rpReconstructedRoot (rrProof r))\<rparr>\<rparr>"

definition hmfProofView :: "HMFProof \<Rightarrow> hmfProof" where
  "hmfProofView p = \<lparr>hfPlan = hpPlan p, hfLeaves = map (\<lambda>leaf. \<lparr>hlAddress = rlAddress leaf, hlHash = hashHex (rlHash leaf)\<rparr>) (hpLeaves p),
     hfNodes = map (\<lambda>node. \<lparr>hoRef = pnRef node, hoHash = hashHex (pnHash node)\<rparr>) (hpNodes p)\<rparr>"

fun leaf_values :: "hmfLeafResponse list \<Rightarrow> RequestedLeaf list result" where
  "leaf_values [] = Inr []"
| "leaf_values (leaf # rest) = rbind (rwrap ''failed_proof leaf hash: %w'' (parseHash (hlHash leaf))) (\<lambda>h.
     rbind (leaf_values rest) (\<lambda>ls. Inr (\<lparr>rlAddress = hlAddress leaf, rlHash = h\<rparr> # ls)))"

fun node_values :: "hmfNodeResponse list \<Rightarrow> ProofNode list result" where
  "node_values [] = Inr []"
| "node_values (node # rest) = rbind (rwrap ''failed_proof node hash: %w'' (parseHash (hoHash node))) (\<lambda>h.
     rbind (node_values rest) (\<lambda>ns. Inr (\<lparr>pnRef = hoRef node, pnHash = h\<rparr> # ns)))"

definition hmfProofValue :: "hmfProof \<Rightarrow> HMFProof result" where
  "hmfProofValue p = rbind (leaf_values (hfLeaves p)) (\<lambda>leaves. rbind (node_values (hfNodes p)) (\<lambda>nodes.
     Inr \<lparr>hpPlan = hfPlan p, hpLeaves = leaves, hpNodes = nodes\<rparr>))"

definition comparison_view :: "NodeComparison \<Rightarrow> localizationComparisonResponse" where
  "comparison_view c = \<lparr>jcRef = ncRef c, jcAuditorHash = hashHex (ncAuditorHash c), jcReferenceHash = hashHex (ncReferenceHash c), jcMatch = ncMatch c\<rparr>"

definition localizationProofView :: "LocalizationProof \<Rightarrow> localizationProofResponse" where
  "localizationProofView p = \<lparr>jzAnchoredGlobalRoot = hashHex (lpfAnchoredGlobalRoot p), jzAuditorGlobalRoot = hashHex (lpfAuditorGlobalRoot p),
     jzReferenceGlobalRoot = hashHex (lpfReferenceGlobalRoot p), jzK = lpfK p, jzAddresses = lpfAddresses p,
     jzFailedProof = hmfProofView (lpfFailedProof p), jzReferenceProof = hmfProofView (lpfReferenceProof p), jzBadShards = lpfBadShards p,
     jzRounds = map (\<lambda>r. \<lparr>jnTree = prTree r, jnFromLevel = prFromLevel r, jnTargetLevel = prTargetLevel r,
       jnComparisons = map comparison_view (prComparisons r)\<rparr>) (lpfRounds p),
     jzSuspects = map (\<lambda>s. \<lparr>juRef = suRef s, juAddress = suAddress s, juAuditorHash = hashHex (suAuditorHash s),
       juReferenceHash = hashHex (suReferenceHash s), juClassification = suClassification s\<rparr>) (lpfSuspects p)\<rparr>"

definition valid_address :: "physicalAddress \<Rightarrow> bool" where
  "valid_address a \<longleftrightarrow> \<not> (jaRegionID a = '''' \<or> jaShardID a < 0 \<or> jaSegmentID a < 0 \<or> jaLeafID a < 0)"

definition address_value :: "physicalAddress \<Rightarrow> PhysicalAddress" where
  "address_value a = \<lparr>paRegionID = jaRegionID a, paShardID = jaShardID a, paSegmentID = jaSegmentID a, paLeafID = jaLeafID a\<rparr>"

definition addressValues :: "physicalAddress list \<Rightarrow> PhysicalAddress list result" where
  "addressValues as = (if \<forall>a \<in> set as. valid_address a then Inr (map address_value as)
     else Inl (Errorf ''every address requires a region_id and nonnegative indexes''))"

section \<open>Writing responses\<close>

definition writeJSON :: "int \<Rightarrow> response_body \<Rightarrow> http_response" where
  "writeJSON status body = \<lparr>rsStatus = status, rsAllow = None, rsBody = body\<rparr>"

definition writeError :: "int \<Rightarrow> string \<Rightarrow> message \<Rightarrow> http_response" where
  "writeError status code text = writeJSON status (ErrorBody code text)"

definition methodNotAllowed :: "string \<Rightarrow> http_response" where
  "methodNotAllowed allowed = (writeError 405 ''method_not_allowed'' (Literal ''method not allowed''))\<lparr>rsAllow := Some allowed\<rparr>"

definition DeadlineExceeded :: error where
  "DeadlineExceeded = Sentinel ''context deadline exceeded''"

definition io_EOF :: error where
  "io_EOF = Sentinel ''EOF''"

definition handleServiceError :: "error \<Rightarrow> http_response" where
  "handleServiceError err =
     (if errors_Is err ErrCheckpointChanged then writeError 409 ''checkpoint_changed'' (ErrorText err)
      else if errors_Is err ErrNoMismatch then writeError 422 ''audit_did_not_fail'' (ErrorText err)
      else if errors_Is err ErrNotFound then writeError 503 ''checkpoint_unavailable'' (Literal ''no finalized checkpoint is available'')
      else if errors_Is err DeadlineExceeded then writeError 504 ''request_timeout'' (Literal ''request timed out'')
      else writeError 500 ''internal_error'' (ErrorText err))"

definition decodeJSON :: "'i http_request \<Rightarrow> 'i result" where
  "decodeJSON request = rbind (rwrap ''decode JSON: %w'' (rqFirst request)) (\<lambda>input.
     case rqSecond request of
       Inr _ \<Rightarrow> Inl (Errorf ''request body must contain one JSON object'')
     | Inl e \<Rightarrow> if errors_Is e io_EOF then Inr input else Inl (Wrap ''decode trailing JSON: %w'' e))"

abbreviation bad_request :: "message \<Rightarrow> http_response" where
  "bad_request \<equiv> writeError 400 ''invalid_request''"

section \<open>Handlers\<close>

definition health :: "'i http_request \<Rightarrow> http_response" where
  "health request = (if rqMethod request \<noteq> ''GET'' then methodNotAllowed ''GET'' else writeJSON 200 (StatusBody ''ok''))"

definition readiness :: "('s \<Rightarrow> ('s, unit) outcome) \<Rightarrow> 's \<Rightarrow> 'i http_request \<Rightarrow> 's \<times> http_response" where
  "readiness ready s request =
     (if rqMethod request \<noteq> ''GET'' then (s, methodNotAllowed ''GET'')
      else case ready s of
          (s, Inl _) \<Rightarrow> (s, writeError 503 ''not_ready'' (Literal ''service dependencies are unavailable''))
        | (s, Inr _) \<Rightarrow> (s, writeJSON 200 (StatusBody ''ready'')))"

definition currentCheckpoint :: "'s AuditService \<Rightarrow> 's \<Rightarrow> 'i http_request \<Rightarrow> 's \<times> http_response" where
  "currentCheckpoint service s request =
     (if rqMethod request \<noteq> ''GET'' then (s, methodNotAllowed ''GET'')
      else case CurrentCheckpoint service s of
          (s, Inl e) \<Rightarrow> (s, handleServiceError e)
        | (s, Inr value) \<Rightarrow> (s, writeJSON 200 (CheckpointBody (checkpointView value))))"

definition locatorProof :: "'s AuditService \<Rightarrow> 's \<Rightarrow> locatorProofRequest http_request \<Rightarrow> 's \<times> http_response" where
  "locatorProof service s request =
     (if rqMethod request \<noteq> ''POST'' then (s, methodNotAllowed ''POST'')
      else case decodeJSON request of
          Inl e \<Rightarrow> (s, bad_request (ErrorText e))
        | Inr input \<Rightarrow>
          let query = \<lparr>lqTenantID = lprTenantID input, lqServiceID = lprServiceID input, lqLogType = lprLogType input,
                lqRegionID = lprRegionID input, lqStartTime = lprStartTime input, lqEndTime = lprEndTime input\<rparr> in
          case Bounds query of
            Inl e \<Rightarrow> (s, bad_request (ErrorText e))
          | Inr _ \<Rightarrow>
            (case ResolveLocator service s query of
               (s, Inl e) \<Rightarrow> (s, handleServiceError e)
             | (s, Inr result) \<Rightarrow>
               (s, writeJSON 200 (LocatorBody \<lparr>lpoCheckpoint = checkpointView (laCheckpoint result), lpoResult = locatorResultView (laRange result)\<rparr>))))"

definition hmfProof_handler :: "'s AuditService \<Rightarrow> 's \<Rightarrow> hmfProofRequest http_request \<Rightarrow> 's \<times> http_response" where
  "hmfProof_handler service s request =
     (if rqMethod request \<noteq> ''POST'' then (s, methodNotAllowed ''POST'')
      else case decodeJSON request of
          Inl e \<Rightarrow> (s, bad_request (ErrorText e))
        | Inr input \<Rightarrow>
          if hprCheckpointSequence input \<le> 0 \<or> hprAddresses input = []
          then (s, bad_request (Literal ''checkpoint_sequence must be positive and addresses must not be empty''))
          else if \<exists>a \<in> set (hprAddresses input). \<not> valid_address a
          then (s, bad_request (Literal ''every address requires a region_id and nonnegative shard_id, segment_id, and leaf_id''))
          else case BuildHMFProof service s (hprCheckpointSequence input) (map address_value (hprAddresses input)) of
              (s, Inl e) \<Rightarrow> (s, handleServiceError e)
            | (s, Inr result) \<Rightarrow>
              (s, writeJSON 200 (HMFBody \<lparr>hpoCheckpoint = checkpointView (haCheckpoint result),
                 hpoCalculatedGlobalRoot = hashHex (vrCalculatedGlobalRoot (haHMF result)), hpoProof = hmfProofView (vrProof (haHMF result))\<rparr>)))"

definition localize :: "'s AuditService \<Rightarrow> 's \<Rightarrow> localizationRequest http_request \<Rightarrow> 's \<times> http_response" where
  "localize service s request =
     (if rqMethod request \<noteq> ''POST'' then (s, methodNotAllowed ''POST'')
      else case decodeJSON request of
          Inl e \<Rightarrow> (s, bad_request (ErrorText e))
        | Inr input \<Rightarrow>
          if lzrCheckpointSequence input \<le> 0 \<or> (lzrK input \<noteq> 0 \<and> lzrK input \<noteq> DefaultJumpLevels) \<or> lzrAddresses input = []
          then (s, bad_request (Literal ''checkpoint_sequence must be positive, k must be %d or omitted, and addresses must not be empty''))
          else
            let k = (if lzrK input = 0 then DefaultJumpLevels else lzrK input) in
            case parseHash (lzrAuditorGlobalRoot input) of
              Inl _ \<Rightarrow> (s, bad_request (Literal ''auditor_global_root must be a 32-byte hex hash''))
            | Inr auditorRoot \<Rightarrow>
            (case addressValues (lzrAddresses input) of
               Inl e \<Rightarrow> (s, bad_request (ErrorText e))
             | Inr addresses \<Rightarrow>
            (case hmfProofValue (lzrFailedProof input) of
               Inl e \<Rightarrow> (s, bad_request (ErrorText e))
             | Inr failedProof \<Rightarrow>
            (case LocalizeTamper service s (lzrCheckpointSequence input) auditorRoot failedProof addresses k of
               (s, Inl e) \<Rightarrow> (s, handleServiceError e)
             | (s, Inr result) \<Rightarrow>
               (s, writeJSON 200 (LocalizationBody \<lparr>lzoCheckpoint = checkpointView (zaCheckpoint result),
                  lzoCalculatedReferenceRoot = hashHex (lrCalculatedReferenceRoot (zaLocalization result)),
                  lzoProof = localizationProofView (lrProof (zaLocalization result))\<rparr>))))))"

text \<open>The routes; other paths are answered by the mux.\<close>

datatype route = RouteHealth | RouteReadiness | RouteCheckpoint | RouteLocatorProof | RouteHMFProof | RouteLocalize

definition NewHandler :: "'service option \<Rightarrow> 'ready option \<Rightarrow> (string \<rightharpoonup> route) result" where
  "NewHandler service ready =
     (if Option.is_none service then Inl (Errorf ''new audit HTTP handler: service is nil'')
      else if Option.is_none ready then Inl (Errorf ''new audit HTTP handler: readiness check is nil'')
      else Inr [''/healthz'' \<mapsto> RouteHealth, ''/readyz'' \<mapsto> RouteReadiness, ''/v1/checkpoints/current'' \<mapsto> RouteCheckpoint,
        ''/v1/audits/locator-proof'' \<mapsto> RouteLocatorProof, ''/v1/audits/hmf-proof'' \<mapsto> RouteHMFProof, ''/v1/audits/localize'' \<mapsto> RouteLocalize])"

end
