(* ===== verification/HTTP_Properties.thy ===== *)
theory HTTP_Properties
  imports HTTP_API
begin

text \<open>
  What a client reads from an answer: the hexadecimal form loses nothing, so the proof and the roots in
  an answer are those of the audit service, and an error answer tells which error the service had.
\<close>

section \<open>Hexadecimal strings\<close>

lemma of_char_hex_digit: "d < 16 \<Longrightarrow> (of_char (hex_digit d) :: nat) = (if d < 10 then 48 + d else 87 + d)"
  by (simp add: hex_digit_def of_char_of)

lemma from_hex_digit: "d < 16 \<Longrightarrow> from_hex (hex_digit d) = Some d"
  by (simp add: from_hex_def of_char_hex_digit)

lemma unat_byte: "unat (b :: byte) < 256"
  using unsigned_less [of b] by simp

lemma DecodeString_EncodeToString: "DecodeString (EncodeToString bs) = Inr bs"
proof (induction bs)
  case Nil
  then show ?case by (simp add: EncodeToString_def)
next
  case (Cons b bs)
  have "unat b div 16 < 16" using unat_byte [of b] by (simp add: less_mult_imp_div_less)
  then have "from_hex (hex_digit (unat b div 16)) = Some (unat b div 16)" "from_hex (hex_digit (unat b mod 16)) = Some (unat b mod 16)"
    by (simp_all add: from_hex_digit)
  moreover have "(word_of_nat (16 * (unat b div 16) + unat b mod 16) :: byte) = b" by simp
  ultimately show ?case using Cons by (simp add: EncodeToString_def)
qed

lemma parseHash_hashHex [simp]: "parseHash (hashHex h) = Inr h"
  by (simp add: parseHash_def hashHex_def DecodeString_EncodeToString)

text \<open>A string that is accepted has 64 hexadecimal digits.\<close>

lemma DecodeString_length: "DecodeString s = Inr bs \<Longrightarrow> length s = 2 * length bs"
proof (induction s arbitrary: bs rule: DecodeString.induct)
  case (3 c d s)
  then show ?case by (auto split: option.splits)
qed (auto split: option.splits)

lemma parseHash_length: "parseHash s = Inr h \<Longrightarrow> length s = 64"
  using DecodeString_length [of s] by (auto simp: parseHash_def split: sum.splits if_splits)

lemma leaf_values_view: "leaf_values (map (\<lambda>leaf. \<lparr>hlAddress = rlAddress leaf, hlHash = hashHex (rlHash leaf)\<rparr>) ls) = Inr ls"
  by (induction ls) simp_all

lemma node_values_view: "node_values (map (\<lambda>node. \<lparr>hoRef = pnRef node, hoHash = hashHex (pnHash node)\<rparr>) ns) = Inr ns"
  by (induction ns) simp_all

lemma hmfProofValue_view [simp]: "hmfProofValue (hmfProofView p) = Inr p"
  by (simp add: hmfProofValue_def hmfProofView_def leaf_values_view node_values_view)

text \<open>What a client reads from the checkpoint of an answer.\<close>

definition checkpoint_value :: "checkpointResponse \<Rightarrow> Checkpoint result" where
  "checkpoint_value c =
     rbind (parseHash (ckLocatorRoot c)) (\<lambda>locatorRoot.
     rbind (parseHash (ckGlobalHMFRoot c)) (\<lambda>globalRoot.
     rbind (parseHash (ckStateCommitment c)) (\<lambda>commitment.
     Inr \<lparr>cpID = ckID c, cpSystemID = ckSystemID c, cpSequence = ckSequence c, cpLocatorTreeID = ckLocatorTreeID c,
       cpLocatorRoot = locatorRoot, cpGlobalHMFRoot = globalRoot, cpStateCommitment = commitment, cpStatus = ckStatus c,
       cpAnchor = ckAnchor c, cpCreatedAt = ckCreatedAt c, cpFinalizedAt = ckFinalizedAt c\<rparr>)))"

lemma checkpoint_value_view [simp]: "checkpoint_value (checkpointView c) = Inr c"
  by (simp add: checkpoint_value_def checkpointView_def)

section \<open>Errors\<close>

lemma service_error_status: "rsStatus (handleServiceError e) = 409 \<longleftrightarrow> errors_Is e ErrCheckpointChanged"
  "rsStatus (handleServiceError e) \<noteq> 200" "rsStatus (handleServiceError e) \<notin> {400, 405}"
  by (simp_all add: handleServiceError_def writeError_def writeJSON_def)

section \<open>Properties\<close>

text \<open>C23: What the client of a proof request reads is what the service returned. An answer with status 200
  carries, with hashes in hexadecimal form, the proof, the calculated root and the checkpoint that the
  service built for the checkpoint number and the addresses of the request: parsing the answer gives
  exactly these values, every field of the checkpoint included, so the same proof reaches the service
  when the client sends it back as a failed proof. Status
  409 means that the service found the checkpoint changed, and after 400 and 405 the service was not
  called.\<close>

theorem proof_answer_round_trip:
  assumes "hmfProof_handler service s request = (s', response)"
  shows "(rsStatus response = 200 \<longrightarrow> (\<exists>input result body. decodeJSON request = Inr input \<and>
      BuildHMFProof service s (hprCheckpointSequence input) (map address_value (hprAddresses input)) = (s', Inr result) \<and>
      rsBody response = HMFBody body \<and> hmfProofValue (hpoProof body) = Inr (vrProof (haHMF result)) \<and>
      parseHash (hpoCalculatedGlobalRoot body) = Inr (vrCalculatedGlobalRoot (haHMF result)) \<and>
      checkpoint_value (hpoCheckpoint body) = Inr (haCheckpoint result))) \<and>
    (rsStatus response = 409 \<longrightarrow> (\<exists>input e. decodeJSON request = Inr input \<and> errors_Is e ErrCheckpointChanged \<and>
      BuildHMFProof service s (hprCheckpointSequence input) (map address_value (hprAddresses input)) = (s', Inl e))) \<and>
    (rsStatus response \<in> {400, 405} \<longrightarrow> s' = s)"
proof -
  consider (refused) "s' = s" "rsStatus response \<in> {400, 405}"
    | (failed) input e where "decodeJSON request = Inr input" "response = handleServiceError e"
        "BuildHMFProof service s (hprCheckpointSequence input) (map address_value (hprAddresses input)) = (s', Inl e)"
    | (answered) input result where "decodeJSON request = Inr input"
        "BuildHMFProof service s (hprCheckpointSequence input) (map address_value (hprAddresses input)) = (s', Inr result)"
        "response = writeJSON 200 (HMFBody \<lparr>hpoCheckpoint = checkpointView (haCheckpoint result),
           hpoCalculatedGlobalRoot = hashHex (vrCalculatedGlobalRoot (haHMF result)), hpoProof = hmfProofView (vrProof (haHMF result))\<rparr>)"
    using assms by (auto simp: hmfProof_handler_def methodNotAllowed_def writeError_def writeJSON_def split: if_splits sum.splits prod.splits)
  then show ?thesis
  proof cases
    case refused
    then show ?thesis by auto
  next
    case failed
    then show ?thesis using service_error_status [of e] by auto
  next
    case answered
    then show ?thesis by (simp add: writeJSON_def)
  qed
qed

text \<open>A service that answers every request with the same checkpoint and the same proof.\<close>

definition fixed_checkpoint :: Checkpoint where
  "fixed_checkpoint = \<lparr>cpID = ''c'', cpSystemID = ''s'', cpSequence = 3, cpLocatorTreeID = ''ALL'', cpLocatorRoot = 1, cpGlobalHMFRoot = 2,
     cpStateCommitment = 4, cpStatus = StatusFinalized,
     cpAnchor = Some \<lparr>arTransactionHash = ''tx'', arBlockHeight = 9, arAnchoredAt = 8\<rparr>, cpCreatedAt = 7, cpFinalizedAt = Some 8\<rparr>"

definition fixed_result :: VerificationResult where
  "fixed_result = \<lparr>vrCalculatedGlobalRoot = 2, vrProof = \<lparr>hpPlan = \<lparr>ppAddresses = [], ppTrees = [], ppParentLinks = [], ppSegmentRequests = [], ppUpperRequests = []\<rparr>,
     hpLeaves = [\<lparr>rlAddress = \<lparr>paRegionID = ''eu'', paShardID = 0, paSegmentID = 0, paLeafID = 0\<rparr>, rlHash = 171\<rparr>],
     hpNodes = [\<lparr>pnRef = mk_ref globalTree (mk_pos 0 1), pnHash = 205\<rparr>]\<rparr>, vrTrace = None\<rparr>"

definition fixed_service :: "unit AuditService" where
  "fixed_service = \<lparr>auCheckpoints = (\<lambda>s. (s, Inr fixed_checkpoint)), auLocator = (\<lambda>s _ _ _. (s, Inl (Errorf ''no locator''))),
     auHMFProof = (\<lambda>s _ _. (s, Inr fixed_result)), auLocalizer = None\<rparr>"

definition fixed_request :: "hmfProofRequest http_request" where
  "fixed_request = \<lparr>rqMethod = ''POST'', rqFirst = Inr \<lparr>hprCheckpointSequence = 3,
     hprAddresses = [\<lparr>jaRegionID = ''eu'', jaShardID = 0, jaSegmentID = 0, jaLeafID = 0\<rparr>]\<rparr>, rqSecond = Inl io_EOF\<rparr>"

theorem proof_answer_round_trip_witness:
  "\<exists>response body. hmfProof_handler fixed_service () fixed_request = ((), response) \<and> rsStatus response = 200 \<and>
    rsBody response = HMFBody body \<and> hmfProofValue (hpoProof body) = Inr (vrProof fixed_result) \<and>
    parseHash (hpoCalculatedGlobalRoot body) = Inr 2 \<and> checkpoint_value (hpoCheckpoint body) = Inr fixed_checkpoint"
proof -
  obtain response where r: "hmfProof_handler fixed_service () fixed_request = ((), response)" by (metis old.unit.exhaust surj_pair)
  have ok: "rsStatus response = 200"
    using r by (auto simp: hmfProof_handler_def fixed_request_def decodeJSON_def valid_address_def BuildHMFProof_def fixed_service_def fixed_checkpoint_def
        fixed_result_def ensureStillCurrent_def sbind_def swrap_def writeJSON_def io_EOF_def)
  have "BuildHMFProof fixed_service () seq addresses = ((), Inr result) \<Longrightarrow> haHMF result = fixed_result \<and> haCheckpoint result = fixed_checkpoint" for seq addresses result
    by (auto simp: BuildHMFProof_def fixed_service_def ensureStillCurrent_def sbind_def swrap_def split: if_splits)
  moreover have "vrCalculatedGlobalRoot fixed_result = 2" by (simp add: fixed_result_def)
  ultimately show ?thesis using proof_answer_round_trip [OF r] r ok by metis
qed

end
