(* ===== verification/Spec2Isabelle.thy ===== *)
theory Spec2Isabelle
  imports
    HMF_Forest Segment_Tree
    HPP_Properties HPP_Service_Properties
    Checkpoint_Properties
    Locator_Properties Locator_Store_Properties Locator_Worker Locator_Memory
    Localization_Properties Audit_Properties HMF_Store_Properties HM_Properties HTTP_Properties
begin

text \<open>
  A verification library for HMF-Audit, a log audit service. Logs are appended to segments; a sealed
  segment is committed in a shard tree, the shard trees of a region in a region tree and the regions
  in the global tree (the hierarchical Merkle forest). A locator tree maps log attributes to the
  physical addresses of the logs. Checkpoints bind the locator root and the global root and are
  anchored outside. An auditor asks for logs by attributes, gets their addresses with a range proof
  against the locator root, and a hierarchical multiproof of the leaves at these addresses against
  the global root.

  \<^bold>\<open>Parts and theories.\<close>

  \<^item> \<^verbatim>\<open>HMF_Prelude\<close>, \<^verbatim>\<open>HMF_Bytes\<close>: errors as values (\<^verbatim>\<open>fmt.Errorf\<close>, sentinels, panics, a call that does
    not return), calls that change a state, 64-bit integers (\<open>wrap64\<close>), slices, maps as association
    lists where the code iterates over them, \<^verbatim>\<open>sort.Slice\<close>, \<^verbatim>\<open>sort.Search\<close>; byte strings and codecs.
    SHA-256 is a parameter \<open>H\<close>; that it does not collide is the hypothesis \<open>inj_on H S\<close> for the set
    \<open>S\<close> of the strings hashed in the situation of the theorem.
  \<^item> \<^verbatim>\<open>HMF_Domain\<close>: \<^verbatim>\<open>internal/domain\<close>.
  \<^item> \<^verbatim>\<open>HMF_Commitment\<close>, \<^verbatim>\<open>Merkle_Reference\<close>, \<^verbatim>\<open>Merkle_Tree\<close>, \<^verbatim>\<open>Segment_Tree\<close>, \<^verbatim>\<open>Shard_Tree\<close>, \<^verbatim>\<open>Level_Grid\<close>,
    \<^verbatim>\<open>Region_Tree\<close>, \<^verbatim>\<open>Global_Tree\<close>, \<^verbatim>\<open>HMF_Forest\<close>: \<^verbatim>\<open>internal/hmf\<close>. \<^verbatim>\<open>Merkle_Reference\<close> is the
    specification of a Merkle tree over a list of leaves; every tree of the code is related to it,
    and the forest to the abstract forest of segment lists; the update an append returns is given as a
    whole record over the abstract forest.
  \<^item> \<^verbatim>\<open>HPP_Types\<close>, \<^verbatim>\<open>HPP_Planner\<close>, \<^verbatim>\<open>HPP_Multiproof\<close>, \<^verbatim>\<open>HPP_Verifier\<close>, \<^verbatim>\<open>HPP_Service\<close>: \<^verbatim>\<open>internal/hpp\<close>;
    \<^verbatim>\<open>HPP_Multiproof_Correct\<close>, \<^verbatim>\<open>HPP_Evaluation\<close>, \<^verbatim>\<open>HPP_Soundness\<close> relate one-tree reconstructions and the
    evaluation of hierarchical proofs to the reference trees; \<^verbatim>\<open>HPP_Properties\<close> and
    \<^verbatim>\<open>HPP_Service_Properties\<close> hold the properties.
  \<^item> \<^verbatim>\<open>Checkpoint\<close>, \<^verbatim>\<open>Checkpoint_History\<close>: \<^verbatim>\<open>internal/checkpoint\<close>, with the repository and the anchor as
    locales; \<^verbatim>\<open>Cassandra\<close>, \<^verbatim>\<open>Checkpoint_Store\<close>: the repository over the tables of
    \<^verbatim>\<open>internal/storage/cassandra/checkpoint_repo.go\<close> and \<^verbatim>\<open>checkpoint_store.go\<close> and the mock anchor, which
    interpret these locales; \<^verbatim>\<open>Checkpoint_Properties\<close>: the service on the store.
  \<^item> \<^verbatim>\<open>Locator_Key\<close>, \<^verbatim>\<open>Locator_Page\<close>, \<^verbatim>\<open>Locator_Proof\<close>, \<^verbatim>\<open>Locator_Resolve\<close>: keys, pages, the page codec,
    range proofs and resolution of \<^verbatim>\<open>internal/all\<close>. \<^verbatim>\<open>Locator_Verify\<close> relates accepted range proofs to an
    abstract B+ tree with linked leaves; \<^verbatim>\<open>Locator_Source\<close> is what resolving relies on of a page source.
    Two readers are such sources: \<^verbatim>\<open>Locator_Store\<close> is the reader and the writer over the locator's tables
    (\<^verbatim>\<open>all_repo.go\<close>, \<^verbatim>\<open>all_update_writer.go\<close>, \<^verbatim>\<open>all_page_reader.go\<close>), \<^verbatim>\<open>Locator_Memory\<close> the reader over the
    pages in memory. \<^verbatim>\<open>Locator_Properties\<close>, \<^verbatim>\<open>Locator_Store_Properties\<close> hold the properties.
  \<^item> \<^verbatim>\<open>Locator_Tree\<close>: \<^verbatim>\<open>locator_tree.go\<close>, the tree of mutable pages as a heap with parent and next pointers.
    \<^verbatim>\<open>Locator_Heap\<close> relates heaps to abstract trees and trees with a hole, \<^verbatim>\<open>Locator_Split\<close>, \<^verbatim>\<open>Locator_Insert\<close>,
    \<^verbatim>\<open>Locator_Leaf\<close> and \<^verbatim>\<open>Locator_Search\<close> follow an insertion through its splits, and
    \<^verbatim>\<open>Locator_Tree_Properties\<close> concludes that the tree stays balanced, linked, sorted and hashed, that
    its entries are the sorted insertions, and that an insertion always returns. \<^verbatim>\<open>Locator_Worker\<close> is the
    worker of \<^verbatim>\<open>all.go\<close> with its clients and the consumer of its updates as a step relation.
  \<^item> \<^verbatim>\<open>Localization\<close>: \<^verbatim>\<open>internal/localization\<close>. \<^verbatim>\<open>Localization_Trace\<close> shows how the traces of two accepted proofs
    differ; \<^verbatim>\<open>Localization_Properties\<close> shows that suspects are places where the proofs differ, that every
    altered leaf is reported and that the service returns and agrees with the independent verifier.
  \<^item> \<^verbatim>\<open>Audit_Service\<close>: \<^verbatim>\<open>internal/services/audit.go\<close> over four interfaces; \<^verbatim>\<open>Audit_Properties\<close>: the service as
    \<^verbatim>\<open>cmd/audit-service\<close> wires it. Its properties span all the components below: an answer is bound to a
    finalized checkpoint that was still current when the answer was ready.
  \<^item> \<^verbatim>\<open>HMF_Store\<close>: the tables of the forest (\<^verbatim>\<open>segment_repo.go\<close>, \<^verbatim>\<open>shard_repo.go\<close>, \<^verbatim>\<open>hmf_repo.go\<close>,
    \<^verbatim>\<open>hmf_update_writer.go\<close>); \<^verbatim>\<open>HPP_Reader\<close>: \<^verbatim>\<open>hpp_reader.go\<close>, the readers of the proof service on these tables;
    \<^verbatim>\<open>HMF_Store_Properties\<close>: a proof is built from the nodes that were written last.
  \<^item> \<^verbatim>\<open>HM_Manager\<close>: \<^verbatim>\<open>internal/hm\<close>, the manager with one worker per shard, as a step relation over clients,
    workers, the consumer of the updates and the locator. \<^verbatim>\<open>HM_Invariant\<close> proves its invariant under every
    interleaving; \<^verbatim>\<open>HM_Properties\<close> concludes that every log is at the place the locator was told, and runs
    two schedules on the model.
  \<^item> \<^verbatim>\<open>HTTP_API\<close>: \<^verbatim>\<open>internal/transport/httpapi/handler.go\<close>; \<^verbatim>\<open>HTTP_Properties\<close>: a client can recover the
    proof, the whole checkpoint and the kind of an error from an answer.

  \<^bold>\<open>How the model corresponds to the code.\<close> A struct is a record whose fields carry a short prefix, a
  pointer is an option or an index into a heap, a method is a definition with the name of the method
  (with the type as a prefix where two types have it), and a loop body or a part of a long method is a
  definition of its own. Errors keep the format string of the source and its sentinel, without the
  formatted arguments. Go's \<^verbatim>\<open>int\<close> and \<^verbatim>\<open>int64\<close> are integers that are wrapped wherever the code computes. Maps
  that the code only looks up are partial functions. A \<^verbatim>\<open>select\<close> statement is the list of what its ready
  cases do. Goroutines that only run queries in parallel are a list in an arbitrary order.

  \<^bold>\<open>Interfaces.\<close> \<^verbatim>\<open>strict_total\<close> (a comparison given to \<^verbatim>\<open>sort.Slice\<close>), \<^verbatim>\<open>codec\<close> and \<^verbatim>\<open>canonical_codec\<close> (a pair
  of a writer and a reader), \<^verbatim>\<open>fixed_tree\<close> (a tree with a fixed number of leaves, used by the region and the
  global tree), \<^verbatim>\<open>checkpoint_repository\<close>, \<^verbatim>\<open>anchor_provider\<close> and \<^verbatim>\<open>checkpoint_service\<close>, \<^verbatim>\<open>cassandra_session\<close> and
  \<^verbatim>\<open>checkpoint_store\<close>, \<^verbatim>\<open>page_source\<close> (a reader of locator pages), \<^verbatim>\<open>reference_source\<close> (the builder of the
  reference proof of a localization) and \<^verbatim>\<open>audited\<close> (the checkpoint reader of the audit service) are locales;
  the definitions of the components that provide them interpret them.

  \<^bold>\<open>Bounds.\<close> Loops that the code itself bounds are structural recursion or have a termination proof.
  A loop that follows references takes a bound on the number of steps, and exhausting it is the error
  \<open>Diverge\<close>; safety theorems hold for every bound. For the walk over pages that a page source supplies no
  bound suffices, since the source may return a cycle. The recursions of an insertion into the locator tree
  are no deeper than the height of the tree plus two, and a bound computed from the number of entries is
  enough for a run (\<^verbatim>\<open>Locator_Tree_Properties\<close>); a reader of the pages in memory needs a bound above the height as well
  (\<open>add_page_total\<close>). With the default step size of a localization one round per tree is enough
  (\<open>localization_returns\<close>). Database statements fail in all patterns: a statement may be refused or
  applied without being acknowledged, and a run takes the list of the outcomes to come. The invariant of
  the manager counts steps and holds as long as the segment numbers of a run cannot exceed 64 bits.

  \<^bold>\<open>What the development found.\<close> A proof whose plan omits a segment tree is accepted with any leaves for it
  (\<open>unplanned_leaves_are_not_authenticated\<close>); keys whose event times differ by a multiple of 2^64 nanoseconds
  have one encoding (\<open>wrapped_event_time_is_accepted\<close>); a bucket size beyond 32 bits makes the stored locator
  unreadable (\<open>large_bucket_size_is_lost\<close>); replacing the frontiers of a shard loses them
  (\<open>replaced_frontiers_are_lost\<close>); an older forest update can be persisted after a newer one
  (\<open>updates_can_overtake\<close>); and a shard whose worker stopped with an empty segment refuses every further log
  (\<open>stopped_worker_blocks_its_shard\<close>, for a manager with one shard). These theorems state what the code does.
  Exactness of range proofs is therefore stated for keys whose event times are within 64-bit nanoseconds, and
  the verifier's soundness for leaves in planned segments; a proof that the service itself builds plans the
  segment of every requested address, so the audit service needs no such condition.

  \<^bold>\<open>Not modelled.\<close> SHA-256 and the database drivers are parameters. The pages of a locator update are values as
  of the return of the insertion: that their slices stay shared with the live tree is not modelled, and the
  theorem that stored pages are read back assumes that they still have the contents they were hashed with. The
  lock sections of one run of a worker's \<^verbatim>\<open>openSegment\<close> or \<^verbatim>\<open>closeSegment\<close> are one step of the manager. JSON text is not modelled: a request is
  what the decoder answers, a response the value that is encoded. The environment, the signals and the server
  life cycle of \<^verbatim>\<open>cmd/audit-service\<close>, the connections of \<^verbatim>\<open>internal/storage/cassandra/client.go\<close> and
  \<^verbatim>\<open>internal/storage/postgresql\<close>, which pass their arguments to the drivers, and \<^verbatim>\<open>internal/canonicalize\<close>, which
  reads files, parses JSON and encrypts under a random key, have no logic that a definition could state beyond
  the calls themselves. \<^verbatim>\<open>benchmarks\<close> only measures. A context is the error it holds, if any, where the code
  itself selects on it; elsewhere its cancellation is one of the failures of a database call.
\<close>

end
